(* ===== verification/Prelude.thy ===== *)
theory Prelude
  imports Main "HOL-Library.Word"
begin

text \<open>
  Shared vocabulary of the development.

  \<^item> Texts: a Rust \<open>String\<close> is a list of Unicode scalar values (natural numbers), because
    the code asks for properties of characters (white space, control characters) and for
    lengths in bytes and in characters. \<open>lit\<close> turns an ASCII literal into a text.
  \<^item> Bytes: \<open>u8\<close> is \<open>8 word\<close>. Wider unsigned integers are natural numbers with the
    wrap-around or the saturation of the source written out (\<open>u16_add\<close>, \<open>u32_sat_add\<close>).
  \<^item> Outcomes: a call that may return an error or panic has a value of type
    \<open>('e, 'a) outcome\<close>; \<open>Panic\<close> stands for every Rust panic (an index out of range, a
    chunk size of zero).
  \<^item> The locale \<open>invariant_machine\<close>: a state machine whose every step keeps an invariant, and
    what follows for whole runs.
\<close>

named_theorems text_simps \<open>evaluation of texts and literals\<close>
named_theorems splice_simps \<open>reading an array after a slice of it was overwritten\<close>

type_synonym byte = "8 word"
type_synonym bytes = "byte list"
type_synonym uchar = nat
type_synonym str = "uchar list"

definition lit :: "string \<Rightarrow> str" where
  "lit s = map of_char s"

text \<open>\<open>char::is_whitespace\<close>: the Unicode property White\_Space.\<close>

definition is_whitespace :: "uchar \<Rightarrow> bool" where
  "is_whitespace c \<longleftrightarrow>
     (9 \<le> c \<and> c \<le> 13) \<or> c = 32 \<or> c = 133 \<or> c = 160 \<or> c = 5760 \<or> (8192 \<le> c \<and> c \<le> 8202) \<or>
     c = 8232 \<or> c = 8233 \<or> c = 8239 \<or> c = 8287 \<or> c = 12288"

text \<open>\<open>char::is_control\<close>: the general category Cc.\<close>

definition is_control :: "uchar \<Rightarrow> bool" where
  "is_control c \<longleftrightarrow> c \<le> 31 \<or> (127 \<le> c \<and> c \<le> 159)"

text \<open>\<open>str::len\<close>: the length of the UTF-8 form.\<close>

definition utf8_len :: "uchar \<Rightarrow> nat" where
  "utf8_len c = (if c < 128 then 1 else if c < 2048 then 2 else if c < 65536 then 3 else 4)"

definition byte_len :: "str \<Rightarrow> nat" where
  "byte_len s = sum_list (map utf8_len s)"

text \<open>\<open>str::trim\<close>.\<close>

definition trim :: "str \<Rightarrow> str" where
  "trim s = rev (dropWhile is_whitespace (rev (dropWhile is_whitespace s)))"

subsection \<open>Fixed-width integers\<close>

definition u16_max :: nat where
  "u16_max = 65535"

definition u16_add :: "nat \<Rightarrow> nat \<Rightarrow> nat" where
  "u16_add a b = (a + b) mod 65536"

definition u32_max :: nat where
  "u32_max = 4294967295"

definition u32_sat_add :: "nat \<Rightarrow> nat \<Rightarrow> nat" where
  "u32_sat_add a b = min (a + b) u32_max"

text \<open>\<open>usize::div_ceil\<close>.\<close>

definition div_ceil :: "nat \<Rightarrow> nat \<Rightarrow> nat" where
  "div_ceil a b = (a + (b - 1)) div b"

text \<open>
  \<open>to_be_bytes\<close> of an unsigned integer of \<open>k\<close> bytes, and \<open>from_be_bytes\<close>; the little-endian
  forms are their reverses.
\<close>

fun be :: "nat \<Rightarrow> nat \<Rightarrow> bytes" where
  "be 0 n = []"
| "be (Suc k) n = be k (n div 256) @ [word_of_nat n]"

definition from_be :: "bytes \<Rightarrow> nat" where
  "from_be bs = fold (\<lambda>b n. 256 * n + unat b) bs 0"

definition le :: "nat \<Rightarrow> nat \<Rightarrow> bytes" where
  "le k n = rev (be k n)"

definition from_le :: "bytes \<Rightarrow> nat" where
  "from_le bs = from_be (rev bs)"

abbreviation be16 :: "nat \<Rightarrow> bytes" where
  "be16 \<equiv> be 2"

abbreviation be32 :: "nat \<Rightarrow> bytes" where
  "be32 \<equiv> be 4"

subsection \<open>Outcomes\<close>

datatype ('e, 'a) outcome = Ok 'a | Err 'e | Panic

fun obind :: "('e, 'a) outcome \<Rightarrow> ('a \<Rightarrow> ('e, 'b) outcome) \<Rightarrow> ('e, 'b) outcome" where
  "obind (Ok a) f = f a"
| "obind (Err e) f = Err e"
| "obind Panic f = Panic"

text \<open>Rust's \<open>?\<close> on a \<open>Result\<close> that cannot panic.\<close>

fun ebind :: "'e + 'a \<Rightarrow> ('a \<Rightarrow> 'e + 'b) \<Rightarrow> 'e + 'b" where
  "ebind (Inl e) f = Inl e"
| "ebind (Inr a) f = f a"

subsection \<open>Overwriting a slice\<close>

text \<open>\<open>xs[i..i + ys.len()].copy_from_slice(ys)\<close>, where the slice is in range.\<close>

definition splice :: "'a list \<Rightarrow> nat \<Rightarrow> 'a list \<Rightarrow> 'a list" where
  "splice xs i ys = take i xs @ ys @ drop (i + length ys) xs"

subsection \<open>Lemmas on texts\<close>

lemma lit_Nil [text_simps, simp]: "lit [] = []"
  by (simp add: lit_def)

lemma lit_Cons [text_simps]: "lit (c # s) = of_char c # lit s"
  by (simp add: lit_def)

lemma lit_eq_iff [simp]: "lit s = lit t \<longleftrightarrow> s = t"
  by (simp add: lit_def inj_map_eq_map inj_def)

lemma dropWhile_fix_iff: "dropWhile P xs = xs \<longleftrightarrow> xs = [] \<or> \<not> P (hd xs)"
proof (cases xs)
  case (Cons x ys)
  have "length (dropWhile P ys) \<le> length ys" by (rule length_dropWhile_le)
  then have "dropWhile P ys \<noteq> x # ys" by auto
  with Cons show ?thesis by auto
qed simp

lemma hd_dropWhile_end:
  assumes "rev (dropWhile P (rev xs)) \<noteq> []"
  shows "hd (rev (dropWhile P (rev xs))) = hd xs"
proof -
  have "xs = rev (takeWhile P (rev xs) @ dropWhile P (rev xs))" by simp
  then have "xs = rev (dropWhile P (rev xs)) @ rev (takeWhile P (rev xs))"
    by (simp only: rev_append)
  with assms show ?thesis by (metis hd_append2)
qed

lemma trim_cases: "trim s = [] \<or> \<not> is_whitespace (hd (trim s)) \<and> \<not> is_whitespace (last (trim s))"
proof (cases "trim s = []")
  case False
  let ?d = "dropWhile is_whitespace s"
  have "hd (trim s) = hd ?d"
    using False unfolding trim_def by (rule hd_dropWhile_end)
  moreover have "?d \<noteq> []"
    using False by (rule contrapos_nn) (simp only: trim_def, simp)
  moreover have "\<not> is_whitespace (hd ?d)" using \<open>?d \<noteq> []\<close> by (rule hd_dropWhile)
  moreover have "\<not> is_whitespace (last (trim s))"
    using False hd_dropWhile [of is_whitespace "rev ?d"] unfolding trim_def last_rev by simp
  ultimately show ?thesis by simp
qed simp

lemma trim_fix: "s = [] \<or> \<not> is_whitespace (hd s) \<and> \<not> is_whitespace (last s) \<Longrightarrow> trim s = s"
  using dropWhile_fix_iff [of is_whitespace s] dropWhile_fix_iff [of is_whitespace "rev s"]
  by (auto simp: trim_def hd_rev)

lemma trim_idem [simp]: "trim (trim s) = trim s"
  by (rule trim_fix) (rule trim_cases)

subsection \<open>Lemmas on outcomes\<close>

lemma obind_Ok_iff [simp]: "obind m f = Ok b \<longleftrightarrow> (\<exists>a. m = Ok a \<and> f a = Ok b)"
  by (cases m) auto

lemma obind_Panic_iff: "obind m f = Panic \<longleftrightarrow> m = Panic \<or> (\<exists>a. m = Ok a \<and> f a = Panic)"
  by (cases m) auto

lemma obind_assoc: "obind (obind m f) g = obind m (\<lambda>a. obind (f a) g)"
  by (cases m) auto

lemma obind_cong [fundef_cong]:
  "m = m' \<Longrightarrow> (\<And>a. m' = Ok a \<Longrightarrow> f a = g a) \<Longrightarrow> obind m f = obind m' g"
  by (cases m') auto

subsection \<open>Lemmas on slices and fixed-width integers\<close>

lemma length_splice [splice_simps, simp]:
  "i + length ys \<le> length xs \<Longrightarrow> length (splice xs i ys) = length xs"
  by (simp add: splice_def)

lemma nth_splice_in [splice_simps]:
  "i + length ys \<le> length xs \<Longrightarrow> i \<le> k \<Longrightarrow> k < i + length ys \<Longrightarrow> splice xs i ys ! k = ys ! (k - i)"
  by (auto simp: splice_def nth_append)

lemma nth_splice_out [splice_simps]:
  "i + length ys \<le> length xs \<Longrightarrow> k < i \<or> i + length ys \<le> k \<Longrightarrow> k < length xs \<Longrightarrow>
   splice xs i ys ! k = xs ! k"
  by (auto simp: splice_def nth_append)

lemma splice_Nil [simp]: "splice xs i [] = xs"
  by (simp add: splice_def)

lemma u16_add_small [simp]: "a + b < 65536 \<Longrightarrow> u16_add a b = a + b"
  by (simp add: u16_add_def)

lemma length_be [simp]: "length (be k n) = k"
  by (induction k arbitrary: n) auto

lemma be16_eq: "be16 n = [word_of_nat (n div 256), word_of_nat n]"
  by (simp add: numeral_2_eq_2)

lemma from_be_Nil [simp]: "from_be [] = 0"
  by (simp add: from_be_def)

lemma from_be_snoc [simp]: "from_be (bs @ [b]) = 256 * from_be bs + unat b"
  by (simp add: from_be_def)

lemma from_be_be: "from_be (be k n) = n mod 256 ^ k"
proof (induction k arbitrary: n)
  case (Suc k)
  have "from_be (be (Suc k) n) = 256 * (n div 256 mod 256 ^ k) + n mod 256"
    using Suc [of "n div 256"] by (simp add: unat_of_nat)
  also have "\<dots> = n mod 256 ^ Suc k"
    by (simp add: mod_mult2_eq)
  finally show ?case .
qed simp

lemma from_be_be_small [simp]: "n < 256 ^ k \<Longrightarrow> from_be (be k n) = n"
  by (simp add: from_be_be)

lemma from_be_less: "from_be bs < 256 ^ length bs"
proof (induction bs rule: rev_induct)
  case (snoc b bs)
  have "unat b < 256" using unsigned_less [of b] by simp
  with snoc have "256 * from_be bs + unat b < 256 * (from_be bs + 1)" by simp
  also have "\<dots> \<le> 256 * 256 ^ length bs" using snoc by simp
  finally show ?case by simp
qed simp

lemma be_from_be: "be (length bs) (from_be bs) = bs"
proof (induction bs rule: rev_induct)
  case (snoc b bs)
  have "unat b < 256" using unsigned_less [of b] by simp
  then have "(256 * from_be bs + unat b) div 256 = from_be bs" by simp
  moreover have "(256 :: byte) = 0"
    by (simp add: word_eq_iff_unsigned)
  then have "word_of_nat (256 * from_be bs + unat b) = b"
    by (simp only: of_nat_add of_nat_mult of_nat_numeral) simp
  ultimately show ?case using snoc by (simp del: of_nat_add of_nat_mult)
qed simp

lemma length_le [simp]: "length (le k n) = k"
  by (simp add: le_def)

lemma from_le_le [simp]: "n < 256 ^ k \<Longrightarrow> from_le (le k n) = n"
  by (simp add: le_def from_le_def)

lemma from_le_less: "from_le bs < 256 ^ length bs"
  using from_be_less [of "rev bs"] by (simp add: from_le_def)

lemma ebind_Inr_iff [simp]: "ebind m f = Inr b \<longleftrightarrow> (\<exists>a. m = Inr a \<and> f a = Inr b)"
  by (cases m) auto

lemma ebind_cong [fundef_cong]:
  "m = m' \<Longrightarrow> (\<And>a. m' = Inr a \<Longrightarrow> f a = g a) \<Longrightarrow> ebind m f = ebind m' g"
  by (cases m') auto

subsection \<open>Rows of pixels\<close>

text \<open>A byte in the columns \<open>x\<close> to \<open>right\<close> of a row belongs to a pixel of that row and of those columns.\<close>

lemma byte_in_row:
  fixes k row width x right :: nat
  assumes "row * width * 4 + x * 4 \<le> k" and "k < row * width * 4 + right * 4" and "right \<le> width"
  shows "k div 4 div width = row \<and> x \<le> k div 4 mod width \<and> k div 4 mod width < right"
proof -
  define d where "d = k div 4 - row * width"
  have "row * width + x \<le> k div 4" "k div 4 < row * width + right" using assms(1,2) by linarith+
  then have d: "k div 4 = row * width + d" "x \<le> d" "d < right" unfolding d_def by linarith+
  then show ?thesis using assms(3) by simp
qed

subsection \<open>State machines with an invariant\<close>

text \<open>
  A component is a machine when its operations, seen as one step function over events, all keep
  an invariant. Every run from a good state then stays good, and so does every state on the way.
\<close>

locale invariant_machine =
  fixes step :: "'s \<Rightarrow> 'e \<Rightarrow> 's"
    and inv :: "'s \<Rightarrow> bool"
    and allowed :: "'e \<Rightarrow> bool"
  assumes step_inv: "inv s \<Longrightarrow> allowed e \<Longrightarrow> inv (step s e)"
begin

lemma run_inv: "inv s \<Longrightarrow> list_all allowed es \<Longrightarrow> inv (foldl step s es)"
  by (induction es arbitrary: s) (auto intro: step_inv)

lemma run_prefix_inv: "inv s \<Longrightarrow> list_all allowed es \<Longrightarrow> inv (foldl step s (take n es))"
  by (rule run_inv) (auto simp: list_all_iff dest: in_set_takeD)

end

end
