(* ===== verification/World.thy ===== *)
theory World
  imports Prelude
begin

text \<open>
  The operating system as the vault sees it: files, the random generator and the keyring.

  \<^item> \<open>files\<close> maps a path to the contents of the file there.
  \<^item> \<open>faults\<close> decides the system calls to come, in order: \<open>True\<close> is a call that fails. When
    the list is used up no call fails. A theorem that holds for every \<open>faults\<close> holds for
    every way in which the calls may fail.
  \<^item> \<open>rng\<close> holds the draws of the system's random generator, in order. A draw that is missing
    or has the wrong size stands for a generator that fails.
  \<^item> \<open>ring\<close> is the state of the key store, of any type.

  \<open>atomic_write\<close> is \<open>fsutil::atomic_write\<close> with no backups (the vault and its attempts file are
  written so), on a path that is no symbolic link: it reads the file, makes its folder, writes
  and syncs a temporary file, renames it over the target and syncs the folder; every one of
  these calls may fail, the last one after the file was replaced.
\<close>

record 's world =
  files :: "str \<rightharpoonup> bytes"
  faults :: "bool list"
  rng :: "bytes list"
  ring :: 's

datatype io_error = NotFound | OtherIo

datatype write_outcome = Written | Unchanged | Merged

definition next_fault :: "'s world \<Rightarrow> bool \<times> 's world" where
  "next_fault w = (case faults w of [] \<Rightarrow> (False, w) | f # fs \<Rightarrow> (f, w\<lparr>faults := fs\<rparr>))"

definition fs_read :: "'s world \<Rightarrow> str \<Rightarrow> (io_error + bytes) \<times> 's world" where
  "fs_read w path =
     (let (failed, w) = next_fault w
      in (if failed then Inl OtherIo
          else case files w path of None \<Rightarrow> Inl NotFound | Some file \<Rightarrow> Inr file, w))"

definition remove_file :: "'s world \<Rightarrow> str \<Rightarrow> (io_error + unit) \<times> 's world" where
  "remove_file w path =
     (let (failed, w) = next_fault w
      in if failed then (Inl OtherIo, w)
         else if files w path = None then (Inl NotFound, w)
         else (Inr (), w\<lparr>files := (files w)(path := None)\<rparr>))"

definition atomic_write :: "'s world \<Rightarrow> str \<Rightarrow> bytes \<Rightarrow> (io_error + write_outcome) \<times> 's world" where
  "atomic_write w path contents =
     (let (current, w) = fs_read w path
      in if current = Inr contents then (Inr Unchanged, w)
         else let (no_dir, w) = next_fault w
              in if no_dir then (Inl OtherIo, w)
                 else let (no_tmp, w) = next_fault w
                      in if no_tmp then (Inl OtherIo, w)
                         else let (no_rename, w) = next_fault w
                              in if no_rename then (Inl OtherIo, w)
                                 else let w = w\<lparr>files := (files w)(path \<mapsto> contents)\<rparr>;
                                          (no_sync, w) = next_fault w
                                      in (if no_sync then Inl OtherIo else Inr Written, w))"

definition random_array :: "nat \<Rightarrow> 's world \<Rightarrow> bytes option \<times> 's world" where
  "random_array n w =
     (case rng w of
        [] \<Rightarrow> (None, w)
      | draw # draws \<Rightarrow> (if length draw = n then Some draw else None, w\<lparr>rng := draws\<rparr>))"

subsection \<open>What the calls leave alone\<close>

lemma next_fault_frame [simp]:
  "files (snd (next_fault w)) = files w" "ring (snd (next_fault w)) = ring w"
  "rng (snd (next_fault w)) = rng w"
  by (auto simp: next_fault_def split: list.splits)

lemma next_fault_no_faults [simp]: "faults w = [] \<Longrightarrow> next_fault w = (False, w)"
  by (simp add: next_fault_def)

lemma next_faultD:
  "next_fault w = (f, w') \<Longrightarrow> files w' = files w \<and> ring w' = ring w \<and> rng w' = rng w"
  by (auto simp: next_fault_def split: list.splits)

lemma fs_readD:
  "fs_read w p = (r, w') \<Longrightarrow>
     files w' = files w \<and> ring w' = ring w \<and> rng w' = rng w \<and> (r = Inr c \<longrightarrow> files w p = Some c)"
  by (auto simp: fs_read_def split: prod.splits if_splits option.splits dest!: next_faultD)

lemma random_array_frame [simp]:
  "files (snd (random_array n w)) = files w" "ring (snd (random_array n w)) = ring w"
  "faults (snd (random_array n w)) = faults w"
  by (auto simp: random_array_def split: list.splits)

lemma random_arrayD:
  "random_array n w = (r, w') \<Longrightarrow> files w' = files w \<and> ring w' = ring w \<and> faults w' = faults w"
  using random_array_frame [of n w] by auto

lemma random_array_length: "random_array n w = (Some b, w') \<Longrightarrow> length b = n"
  by (auto simp: random_array_def split: list.splits if_splits)

lemma remove_fileD:
  "remove_file w p = (r, w') \<Longrightarrow>
     ring w' = ring w \<and> rng w' = rng w \<and>
     files w' = (if r = Inr () then (files w)(p := None) else files w) \<and>
     (r = Inl NotFound \<longrightarrow> files w p = None)"
  by (auto simp: remove_file_def split: prod.splits if_splits dest!: next_faultD)

text \<open>
  After a write, the file at the path is the old one or the new one, whatever failed, and no
  other file changed; a write that succeeds leaves the new one.
\<close>

lemma atomic_write_cases:
  assumes "atomic_write w p c = (r, w')"
  shows "ring w' = ring w \<and> rng w' = rng w \<and>
    (files w' = files w \<and> r \<noteq> Inr Written \<or> files w' = (files w)(p \<mapsto> c))
     \<and> (r = Inr Unchanged \<longrightarrow> files w p = Some c)"
proof -
  obtain cur w1 where read: "fs_read w p = (cur, w1)" by force
  show ?thesis
    using assms fs_readD [OF read, of c]
    by (auto simp: atomic_write_def Let_def read split: if_splits prod.splits dest!: next_faultD)
qed

lemma atomic_write_Inr:
  assumes "atomic_write w p c = (Inr r, w')"
  shows "files w' = (files w)(p \<mapsto> c)"
proof -
  have "r \<noteq> Merged"
    using assms by (auto simp: atomic_write_def Let_def split: if_splits prod.splits)
  with atomic_write_cases [OF assms] show ?thesis
    by (cases r) (auto simp: fun_upd_idem)
qed

lemma atomic_write_files:
  "atomic_write w p c = (r, w') \<Longrightarrow> files w' = files w \<or> files w' = (files w)(p \<mapsto> c)"
  using atomic_write_cases by blast

lemma atomic_write_frame:
  "atomic_write w p c = (r, w') \<Longrightarrow> ring w' = ring w \<and> rng w' = rng w"
  using atomic_write_cases by blast

lemma atomic_write_snd [simp]:
  "ring (snd (atomic_write w p c)) = ring w"
  "q \<noteq> p \<Longrightarrow> files (snd (atomic_write w p c)) q = files w q"
  using atomic_write_frame [of w p c] atomic_write_files [of w p c]
  by (metis prod.collapse, metis fun_upd_other prod.collapse)

lemma remove_file_snd [simp]:
  "ring (snd (remove_file w p)) = ring w"
  "q \<noteq> p \<Longrightarrow> files (snd (remove_file w p)) q = files w q"
  by (auto simp: remove_file_def split: prod.splits if_splits dest!: next_faultD)

lemma atomic_write_ok:
  "faults w = [] \<Longrightarrow> \<exists>r. atomic_write w p c = (Inr r, w\<lparr>files := (files w)(p \<mapsto> c)\<rparr>)"
  by (auto simp: atomic_write_def fs_read_def Let_def fun_upd_idem split: option.splits)

end
