(* ===== verification/Ordered_Map.thy ===== *)
theory Ordered_Map
  imports Prelude
begin

text \<open>
  The standard library's \<open>BTreeMap\<close>: an association list with strictly increasing keys, which is
  the order its iterators give. The locale \<open>finite_map\<close> states what a client relies on: a map
  seen through \<open>lookup\<close>, with \<open>insert\<close> and \<open>retain\<close>. The association list satisfies it.
\<close>

type_synonym ('k, 'v) btree_map = "('k \<times> 'v) list"

definition bt_ok :: "('k::linorder, 'v) btree_map \<Rightarrow> bool" where
  "bt_ok m \<longleftrightarrow> sorted_wrt (<) (map fst m)"

abbreviation bt_get :: "('k, 'v) btree_map \<Rightarrow> 'k \<Rightarrow> 'v option" where
  "bt_get \<equiv> map_of"

fun bt_insert :: "'k::linorder \<Rightarrow> 'v \<Rightarrow> ('k, 'v) btree_map \<Rightarrow> ('k, 'v) btree_map" where
  "bt_insert k v [] = [(k, v)]"
| "bt_insert k v ((k', v') # m) =
     (if k < k' then (k, v) # (k', v') # m
      else if k = k' then (k, v) # m
      else (k', v') # bt_insert k v m)"

definition bt_retain :: "('k \<Rightarrow> bool) \<Rightarrow> ('k, 'v) btree_map \<Rightarrow> ('k, 'v) btree_map" where
  "bt_retain keep m = filter (\<lambda>(k, _). keep k) m"

locale finite_map =
  fixes lookup :: "'m \<Rightarrow> 'k \<Rightarrow> 'v option"
    and insert_at :: "'k \<Rightarrow> 'v \<Rightarrow> 'm \<Rightarrow> 'm"
    and retain :: "('k \<Rightarrow> bool) \<Rightarrow> 'm \<Rightarrow> 'm"
    and ok :: "'m \<Rightarrow> bool"
  assumes lookup_insert: "ok m \<Longrightarrow> lookup (insert_at k v m) = (lookup m)(k \<mapsto> v)"
    and lookup_retain: "ok m \<Longrightarrow> lookup (retain keep m) k = (if keep k then lookup m k else None)"
    and ok_insert: "ok m \<Longrightarrow> ok (insert_at k v m)"
    and ok_retain: "ok m \<Longrightarrow> ok (retain keep m)"
begin

lemma retain_insert:
  "ok m \<Longrightarrow> \<not> keep k \<Longrightarrow> lookup (retain keep (insert_at k v m)) = lookup (retain keep m)"
  by (rule ext) (auto simp: lookup_retain lookup_insert ok_insert)

lemma insert_twice: "ok m \<Longrightarrow> lookup (insert_at k v (insert_at k v' m)) = lookup (insert_at k v m)"
  by (simp add: lookup_insert ok_insert)

end

lemma bt_ok_Nil [simp]: "bt_ok []"
  by (simp add: bt_ok_def)

lemma bt_ok_Cons: "bt_ok ((k, v) # m) \<longleftrightarrow> (\<forall>k' \<in> fst ` set m. k < k') \<and> bt_ok m"
  by (auto simp: bt_ok_def)

lemma bt_ok_distinct: "bt_ok m \<Longrightarrow> distinct (map fst m)"
  by (simp add: bt_ok_def strict_sorted_iff)

lemma fst_set_bt_insert: "fst ` set (bt_insert k v m) = insert k (fst ` set m)"
  by (induction k v m rule: bt_insert.induct) auto

lemma bt_ok_insert: "bt_ok m \<Longrightarrow> bt_ok (bt_insert k v m)"
  by (induction k v m rule: bt_insert.induct) (auto simp: bt_ok_Cons fst_set_bt_insert)

lemma bt_get_insert: "bt_get (bt_insert k v m) = (bt_get m)(k \<mapsto> v)"
  by (induction k v m rule: bt_insert.induct) (auto simp: fun_eq_iff)

lemma bt_get_retain: "bt_get (bt_retain keep m) k = (if keep k then bt_get m k else None)"
  by (induction m) (auto simp: bt_retain_def)

lemma bt_ok_retain: "bt_ok m \<Longrightarrow> bt_ok (bt_retain keep m)"
  by (induction m) (auto simp: bt_ok_Cons bt_retain_def)

interpretation bt: finite_map bt_get bt_insert bt_retain bt_ok
  by unfold_locales (simp_all add: bt_get_insert bt_get_retain bt_ok_insert bt_ok_retain)

lemma bt_insert_last: "bt_ok m \<Longrightarrow> (\<forall>k' \<in> fst ` set m. k' < k) \<Longrightarrow> bt_insert k v m = m @ [(k, v)]"
  by (induction k v m rule: bt_insert.induct) (auto simp: bt_ok_Cons)

lemma set_bt_insert: "set (bt_insert k v m) \<subseteq> insert (k, v) (set m)"
  by (induction k v m rule: bt_insert.induct) auto

lemma bt_retain_all: "(\<forall>k \<in> fst ` set m. keep k) \<Longrightarrow> bt_retain keep m = m"
  by (auto simp: bt_retain_def filter_id_conv)

end
