(* ===== verification/Vault_Format.thy ===== *)
theory Vault_Format
  imports World Ordered_Map
begin

text \<open>
  The bytes of \<open>vault.bin\<close> (\<open>crates/opensesh-vault/src/format.rs\<close>) and the primitives under them
  (\<open>crypto.rs\<close>, the error type of \<open>lib.rs\<close>).

  Argon2 and XChaCha20-Poly1305 are other crates: the record \<open>crypto\<close> holds them as functions
  (\<open>None\<close>: the call fails). \<open>crypto_ok\<close> names what the code relies on: a derived key has 32
  bytes, a sealed text is 16 bytes longer, and opening it with the same key, nonce and
  associated data gives the text back. A \<open>Ulid\<close> is a number below \<open>2 ^ 128\<close>, written as its 16
  bytes.
\<close>

subsection \<open>Errors and keys\<close>

datatype store_error = SUnavailable str | SDenied str | SFailed str

datatype vault_error =
    ERandom
  | EFormat string
  | ENewer nat
  | EDecrypt
  | EWrongPassword nat
  | EWait nat
  | ELocked
  | EMissing
  | EExists
  | EUnreadable
  | EWrongMode
  | ENotFound nat
  | EKeyring store_error
  | EWrite str io_error

definition KEY_LEN :: nat where "KEY_LEN = 32"
definition NONCE_LEN :: nat where "NONCE_LEN = 24"
definition TAG_LEN :: nat where "TAG_LEN = 16"
definition SALT_LEN :: nat where "SALT_LEN = 16"

type_synonym key = bytes

definition key_from_slice :: "bytes \<Rightarrow> key option" where
  "key_from_slice bs = (if length bs = KEY_LEN then Some bs else None)"

record kdf_params =
  memory_kib :: nat
  iterations :: nat
  lanes :: nat

definition RECOMMENDED :: kdf_params where
  "RECOMMENDED = \<lparr>memory_kib = 64 * 1024, iterations = 3, lanes = 4\<rparr>"

definition kdf_is_valid :: "kdf_params \<Rightarrow> bool" where
  "kdf_is_valid p \<longleftrightarrow>
     1 \<le> lanes p \<and> lanes p \<le> 64 \<and> 1 \<le> iterations p \<and> iterations p \<le> 64 \<and>
     memory_kib p \<ge> 8 * lanes p \<and> memory_kib p \<le> 4 * 1024 * 1024"

record crypto =
  c_params_ok :: "kdf_params \<Rightarrow> bool"
  c_argon2 :: "bytes \<Rightarrow> bytes \<Rightarrow> kdf_params \<Rightarrow> bytes option"
  c_encrypt :: "key \<Rightarrow> bytes \<Rightarrow> bytes \<Rightarrow> bytes \<Rightarrow> bytes option"
  c_decrypt :: "key \<Rightarrow> bytes \<Rightarrow> bytes \<Rightarrow> bytes \<Rightarrow> bytes option"

definition crypto_ok :: "crypto \<Rightarrow> bool" where
  "crypto_ok c \<longleftrightarrow>
     (\<forall>pw salt p k. c_argon2 c pw salt p = Some k \<longrightarrow> length k = 32) \<and>
     (\<forall>k n aad m ct. c_encrypt c k n aad m = Some ct \<longrightarrow>
        length ct = length m + 16 \<and> c_decrypt c k n aad ct = Some m)"

text \<open>\<open>argon2\<close> and \<open>derive_key\<close>: costs out of bounds are refused before anything is allocated.\<close>

definition argon2 :: "crypto \<Rightarrow> bytes \<Rightarrow> bytes \<Rightarrow> kdf_params \<Rightarrow> vault_error + bytes" where
  "argon2 c password salt params =
     (if \<not> kdf_is_valid params then Inl (EFormat ''key derivation costs out of range'')
      else if \<not> c_params_ok c params then Inl (EFormat ''key derivation costs out of range'')
      else case c_argon2 c password salt params of
             None \<Rightarrow> Inl (EFormat ''key derivation refused its input'')
           | Some out \<Rightarrow> Inr out)"

definition derive_key :: "crypto \<Rightarrow> bytes \<Rightarrow> bytes \<Rightarrow> kdf_params \<Rightarrow> vault_error + key" where
  "derive_key c password salt params = argon2 c password salt params"

definition seal :: "crypto \<Rightarrow> key \<Rightarrow> bytes \<Rightarrow> bytes \<Rightarrow> bytes \<Rightarrow> vault_error + bytes" where
  "seal c key nonce aad plaintext =
     (case c_encrypt c key nonce aad plaintext of
        None \<Rightarrow> Inl (EFormat ''could not encrypt'')
      | Some buffer \<Rightarrow> Inr buffer)"

definition crypto_open :: "crypto \<Rightarrow> key \<Rightarrow> bytes \<Rightarrow> bytes \<Rightarrow> bytes \<Rightarrow> vault_error + bytes" where
  "crypto_open c key nonce aad ciphertext =
     (case c_decrypt c key nonce aad ciphertext of
        None \<Rightarrow> Inl EDecrypt
      | Some buffer \<Rightarrow> Inr buffer)"

subsection \<open>Secrets and the header\<close>

definition MAGIC :: bytes where
  "MAGIC = map of_char ''OSVAULT'' @ [0]"

definition FORMAT_VERSION :: nat where "FORMAT_VERSION = 1"
definition PAD_TO :: nat where "PAD_TO = 256"
definition HOLDER_KEYRING :: byte where "HOLDER_KEYRING = 1"
definition HOLDER_PASSWORD :: byte where "HOLDER_PASSWORD = 2"
definition KDF_ARGON2ID :: byte where "KDF_ARGON2ID = 1"
definition MAX_PAYLOAD :: nat where "MAX_PAYLOAD = 64 * 1024 * 1024"
definition MAX_SECRET :: nat where "MAX_SECRET = 1024 * 1024"

datatype secret_kind = KPassword | KPrivateKey | KOther byte

fun kind_to_byte :: "secret_kind \<Rightarrow> byte" where
  "kind_to_byte KPassword = 1"
| "kind_to_byte KPrivateKey = 2"
| "kind_to_byte (KOther b) = b"

definition kind_from_byte :: "byte \<Rightarrow> secret_kind" where
  "kind_from_byte b = (if b = 1 then KPassword else if b = 2 then KPrivateKey else KOther b)"

record secret =
  s_kind :: secret_kind
  s_data :: bytes

type_synonym entries = "(nat, secret) btree_map"

record password_slot =
  ps_params :: kdf_params
  ps_salt :: bytes
  ps_nonce :: bytes
  ps_wrapped :: bytes

datatype holder = HKeyring | HPassword password_slot

record header =
  h_vault_id :: bytes
  h_holder :: holder
  h_body_nonce :: bytes

definition slot_prefix :: "header \<Rightarrow> bytes" where
  "slot_prefix h =
     MAGIC @ le 2 FORMAT_VERSION @ h_vault_id h @
     (case h_holder h of
        HKeyring \<Rightarrow> [HOLDER_KEYRING]
      | HPassword slot \<Rightarrow>
          [HOLDER_PASSWORD, KDF_ARGON2ID] @ le 4 (memory_kib (ps_params slot)) @
          le 4 (iterations (ps_params slot)) @ le 4 (lanes (ps_params slot)) @ ps_salt slot)"

definition header_encode :: "header \<Rightarrow> bytes" where
  "header_encode h =
     slot_prefix h @
     (case h_holder h of
        HKeyring \<Rightarrow> []
      | HPassword slot \<Rightarrow> ps_nonce slot @ ps_wrapped slot) @
     h_body_nonce h"

text \<open>\<open>Header::password_slot\<close>: a fresh salt and nonce, the derived key seals the vault key.\<close>

definition make_password_slot ::
  "crypto \<Rightarrow> bytes \<Rightarrow> key \<Rightarrow> bytes \<Rightarrow> kdf_params \<Rightarrow> 's world \<Rightarrow>
   (vault_error + password_slot) \<times> 's world" where
  "make_password_slot c vault_id vault_key password params w =
     (case random_array SALT_LEN w of
        (None, w) \<Rightarrow> (Inl ERandom, w)
      | (Some salt, w) \<Rightarrow>
          (case random_array NONCE_LEN w of
             (None, w) \<Rightarrow> (Inl ERandom, w)
           | (Some nonce, w) \<Rightarrow>
               (let slot = \<lparr>ps_params = params, ps_salt = salt, ps_nonce = nonce,
                            ps_wrapped = replicate (KEY_LEN + TAG_LEN) 0\<rparr>;
                    prefix = slot_prefix \<lparr>h_vault_id = vault_id, h_holder = HPassword slot,
                                          h_body_nonce = replicate NONCE_LEN 0\<rparr>
                in (ebind (derive_key c password salt params) (\<lambda>derived.
                    ebind (seal c derived nonce prefix vault_key) (\<lambda>sealed.
                      if length sealed = KEY_LEN + TAG_LEN
                      then Inr (slot\<lparr>ps_wrapped := sealed\<rparr>)
                      else Inl (EFormat ''wrapped key has the wrong size''))), w))))"

definition unwrap_key :: "crypto \<Rightarrow> header \<Rightarrow> bytes \<Rightarrow> vault_error + key" where
  "unwrap_key c h password =
     (case h_holder h of
        HKeyring \<Rightarrow> Inl EWrongMode
      | HPassword slot \<Rightarrow>
          ebind (derive_key c password (ps_salt slot) (ps_params slot)) (\<lambda>derived.
          ebind (crypto_open c derived (ps_nonce slot) (slot_prefix h) (ps_wrapped slot)) (\<lambda>key.
            case key_from_slice key of
              None \<Rightarrow> Inl (EFormat ''wrapped key has the wrong size'')
            | Some k \<Rightarrow> Inr k)))"

subsection \<open>The reader\<close>

record reader =
  rd_bytes :: bytes
  rd_pos :: nat

definition rd_take :: "reader \<Rightarrow> nat \<Rightarrow> vault_error + bytes \<times> reader" where
  "rd_take r len =
     (if rd_pos r + len \<le> length (rd_bytes r)
      then Inr (take len (drop (rd_pos r) (rd_bytes r)), r\<lparr>rd_pos := rd_pos r + len\<rparr>)
      else Inl (EFormat ''the file is cut short''))"

definition rd_u8 :: "reader \<Rightarrow> vault_error + byte \<times> reader" where
  "rd_u8 r = ebind (rd_take r 1) (\<lambda>(bs, r). Inr (hd bs, r))"

definition rd_u16 :: "reader \<Rightarrow> vault_error + nat \<times> reader" where
  "rd_u16 r = ebind (rd_take r 2) (\<lambda>(bs, r). Inr (from_le bs, r))"

definition rd_u32 :: "reader \<Rightarrow> vault_error + nat \<times> reader" where
  "rd_u32 r = ebind (rd_take r 4) (\<lambda>(bs, r). Inr (from_le bs, r))"

definition read_holder :: "reader \<Rightarrow> vault_error + holder \<times> reader" where
  "read_holder r =
     ebind (rd_u8 r) (\<lambda>(tag, r).
       if tag = HOLDER_KEYRING then Inr (HKeyring, r)
       else if tag = HOLDER_PASSWORD then
         ebind (rd_u8 r) (\<lambda>(kdf, r).
         if kdf \<noteq> KDF_ARGON2ID then Inl (EFormat ''unknown key derivation'')
         else
         ebind (rd_u32 r) (\<lambda>(mem, r).
         ebind (rd_u32 r) (\<lambda>(iter, r).
         ebind (rd_u32 r) (\<lambda>(lan, r).
           let params = \<lparr>memory_kib = mem, iterations = iter, lanes = lan\<rparr>
           in if \<not> kdf_is_valid params then Inl (EFormat ''key derivation costs out of range'')
              else
              ebind (rd_take r SALT_LEN) (\<lambda>(salt, r).
              ebind (rd_take r NONCE_LEN) (\<lambda>(nonce, r).
              ebind (rd_take r (KEY_LEN + TAG_LEN)) (\<lambda>(wrapped, r).
                Inr (HPassword \<lparr>ps_params = params, ps_salt = salt, ps_nonce = nonce,
                                ps_wrapped = wrapped\<rparr>, r))))))))
       else Inl (EFormat ''unknown key holder''))"

definition read_header :: "bytes \<Rightarrow> vault_error + header \<times> nat" where
  "read_header bs =
     ebind (rd_take \<lparr>rd_bytes = bs, rd_pos = 0\<rparr> (length MAGIC)) (\<lambda>(magic, r).
     if magic \<noteq> MAGIC then Inl (EFormat ''not an OpenSesh vault'')
     else
     ebind (rd_u16 r) (\<lambda>(version, r).
     if version > FORMAT_VERSION then Inl (ENewer version)
     else if version = 0 then Inl (EFormat ''unknown version'')
     else
     ebind (rd_take r 16) (\<lambda>(vault_id, r).
     ebind (read_holder r) (\<lambda>(holder, r).
     ebind (rd_take r NONCE_LEN) (\<lambda>(body_nonce, r).
       if length bs - rd_pos r < TAG_LEN then Inl (EFormat ''the file is cut short'')
       else Inr (\<lparr>h_vault_id = vault_id, h_holder = holder, h_body_nonce = body_nonce\<rparr>,
                 rd_pos r))))))"

subsection \<open>The payload\<close>

definition entry_size :: "nat \<times> secret \<Rightarrow> nat" where
  "entry_size e = 16 + 1 + 4 + length (s_data (snd e))"

definition entry_bytes :: "nat \<times> secret \<Rightarrow> bytes" where
  "entry_bytes e =
     be 16 (fst e) @ [kind_to_byte (s_kind (snd e))] @ le 4 (length (s_data (snd e))) @
     s_data (snd e)"

fun encode_entries :: "(nat \<times> secret) list \<Rightarrow> vault_error + bytes" where
  "encode_entries [] = Inr []"
| "encode_entries (e # es) =
     (if length (s_data (snd e)) > MAX_SECRET then Inl (EFormat ''a secret is too large'')
      else if length (s_data (snd e)) > u32_max then Inl (EFormat ''a secret is too large'')
      else ebind (encode_entries es) (\<lambda>rest. Inr (entry_bytes e @ rest)))"

definition encode_payload :: "entries \<Rightarrow> vault_error + bytes" where
  "encode_payload es =
     (if length es > u32_max then Inl (EFormat ''too many secrets'')
      else let size = 4 + sum_list (map entry_size es);
               padded = max (div_ceil size PAD_TO) 1 * PAD_TO
           in if padded > MAX_PAYLOAD then Inl (EFormat ''the vault would be too large'')
              else ebind (encode_entries es) (\<lambda>body.
                     let out = le 4 (length es) @ body
                     in Inr (take padded out @ replicate (padded - length out) 0)))"

definition decode_entry :: "reader \<Rightarrow> vault_error + (nat \<times> secret) \<times> reader" where
  "decode_entry r =
     ebind (rd_take r 16) (\<lambda>(id, r).
     ebind (rd_u8 r) (\<lambda>(kind, r).
     ebind (rd_u32 r) (\<lambda>(len, r).
       if len > MAX_SECRET then Inl (EFormat ''a secret is too large'')
       else ebind (rd_take r len) (\<lambda>(data, r).
              Inr ((from_be id, \<lparr>s_kind = kind_from_byte kind, s_data = data\<rparr>), r)))))"

fun decode_entries :: "nat \<Rightarrow> reader \<Rightarrow> entries \<Rightarrow> vault_error + entries" where
  "decode_entries 0 r es = Inr es"
| "decode_entries (Suc n) r es =
     ebind (decode_entry r) (\<lambda>((id, s), r).
       if bt_get es id \<noteq> None then Inl (EFormat ''a secret appears twice'')
       else decode_entries n r (bt_insert id s es))"

definition decode_payload :: "bytes \<Rightarrow> vault_error + entries" where
  "decode_payload payload =
     ebind (rd_u32 \<lparr>rd_bytes = payload, rd_pos = 0\<rparr>) (\<lambda>(count, r). decode_entries count r [])"

subsection \<open>The whole file\<close>

definition seal_file ::
  "crypto \<Rightarrow> header \<Rightarrow> key \<Rightarrow> entries \<Rightarrow> 's world \<Rightarrow> (vault_error + header \<times> bytes) \<times> 's world" where
  "seal_file c h key es w =
     (case random_array NONCE_LEN w of
        (None, w) \<Rightarrow> (Inl ERandom, w)
      | (Some nonce, w) \<Rightarrow>
          (let h = h\<lparr>h_body_nonce := nonce\<rparr>; aad = header_encode h
           in (ebind (encode_payload es) (\<lambda>payload.
               ebind (seal c key (h_body_nonce h) aad payload) (\<lambda>body. Inr (h, aad @ body))), w)))"

definition open_file :: "crypto \<Rightarrow> bytes \<Rightarrow> key \<Rightarrow> vault_error + header \<times> entries" where
  "open_file c bs key =
     ebind (read_header bs) (\<lambda>(h, start).
       if length bs < start then Inl (EFormat ''the file is cut short'')
       else ebind (crypto_open c key (h_body_nonce h) (take start bs) (drop start bs)) (\<lambda>payload.
            ebind (decode_payload payload) (\<lambda>es. Inr (h, es))))"

subsection \<open>Well-formed values\<close>

lemmas vault_consts = KEY_LEN_def NONCE_LEN_def TAG_LEN_def SALT_LEN_def FORMAT_VERSION_def
  PAD_TO_def HOLDER_KEYRING_def HOLDER_PASSWORD_def KDF_ARGON2ID_def

fun wf_holder :: "holder \<Rightarrow> bool" where
  "wf_holder HKeyring = True"
| "wf_holder (HPassword slot) =
     (kdf_is_valid (ps_params slot) \<and> length (ps_salt slot) = SALT_LEN \<and>
      length (ps_nonce slot) = NONCE_LEN \<and> length (ps_wrapped slot) = KEY_LEN + TAG_LEN)"

definition wf_header :: "header \<Rightarrow> bool" where
  "wf_header h \<longleftrightarrow> length (h_vault_id h) = 16 \<and> length (h_body_nonce h) = NONCE_LEN \<and>
     wf_holder (h_holder h)"

definition wf_secret :: "secret \<Rightarrow> bool" where
  "wf_secret s \<longleftrightarrow> length (s_data s) \<le> MAX_SECRET \<and> s_kind s \<noteq> KOther 1 \<and> s_kind s \<noteq> KOther 2"

definition wf_entries :: "entries \<Rightarrow> bool" where
  "wf_entries es \<longleftrightarrow> bt_ok es \<and> (\<forall>(id, s) \<in> set es. id < 2 ^ 128 \<and> wf_secret s)"

subsection \<open>Reading what was written\<close>

lemma rd_take_at:
  assumes "drop p bs = xs @ post" and "length xs = n" and "p \<le> length bs"
  shows "rd_take \<lparr>rd_bytes = bs, rd_pos = p\<rparr> n = Inr (xs, \<lparr>rd_bytes = bs, rd_pos = p + n\<rparr>)"
    and "drop (p + n) bs = post" and "p + n \<le> length bs"
proof -
  have "length bs - p = length xs + length post" using arg_cong [OF assms(1), of length] by simp
  with assms(2,3) show fits: "p + n \<le> length bs" by simp
  show "drop (p + n) bs = post"
    using assms(1,2) by (metis add.commute append_eq_conv_conj drop_drop)
  show "rd_take \<lparr>rd_bytes = bs, rd_pos = p\<rparr> n = Inr (xs, \<lparr>rd_bytes = bs, rd_pos = p + n\<rparr>)"
    using fits assms(1,2) by (simp add: rd_take_def)
qed

lemma rd_u8_at:
  "drop p bs = x # post \<Longrightarrow> p \<le> length bs \<Longrightarrow>
   rd_u8 \<lparr>rd_bytes = bs, rd_pos = p\<rparr> = Inr (x, \<lparr>rd_bytes = bs, rd_pos = p + 1\<rparr>)"
  using rd_take_at(1) [of p bs "[x]" post 1] by (simp add: rd_u8_def)

lemma rd_u16_at:
  "drop p bs = le 2 n @ post \<Longrightarrow> p \<le> length bs \<Longrightarrow> n < 65536 \<Longrightarrow>
   rd_u16 \<lparr>rd_bytes = bs, rd_pos = p\<rparr> = Inr (n, \<lparr>rd_bytes = bs, rd_pos = p + 2\<rparr>)"
  using rd_take_at(1) [of p bs "le 2 n" post 2] by (simp add: rd_u16_def)

lemma rd_u32_at:
  "drop p bs = le 4 n @ post \<Longrightarrow> p \<le> length bs \<Longrightarrow> n \<le> u32_max \<Longrightarrow>
   rd_u32 \<lparr>rd_bytes = bs, rd_pos = p\<rparr> = Inr (n, \<lparr>rd_bytes = bs, rd_pos = p + 4\<rparr>)"
  using rd_take_at(1) [of p bs "le 4 n" post 4] by (simp add: rd_u32_def u32_max_def)

text \<open>The bytes of the holder, as \<open>header_encode\<close> lays them out.\<close>

fun holder_bytes :: "holder \<Rightarrow> bytes" where
  "holder_bytes HKeyring = [HOLDER_KEYRING]"
| "holder_bytes (HPassword slot) =
     HOLDER_PASSWORD # KDF_ARGON2ID # le 4 (memory_kib (ps_params slot)) @
     le 4 (iterations (ps_params slot)) @ le 4 (lanes (ps_params slot)) @
     ps_salt slot @ ps_nonce slot @ ps_wrapped slot"

lemma header_encode_eq:
  "header_encode h =
     MAGIC @ le 2 FORMAT_VERSION @ h_vault_id h @ holder_bytes (h_holder h) @ h_body_nonce h"
  by (simp add: header_encode_def slot_prefix_def split: holder.splits)

lemma kdf_is_valid_bounds:
  "kdf_is_valid p \<Longrightarrow> memory_kib p \<le> u32_max \<and> iterations p \<le> u32_max \<and> lanes p \<le> u32_max"
  by (simp add: kdf_is_valid_def u32_max_def)

lemma drop_step: "drop p bs = xs @ post \<Longrightarrow> drop (p + length xs) bs = post"
  by (metis add.commute append_eq_conv_conj drop_drop)

lemma read_holder_at:
  assumes "drop p bs = holder_bytes holder @ post" and "p \<le> length bs" and "wf_holder holder"
  shows "read_holder \<lparr>rd_bytes = bs, rd_pos = p\<rparr> =
    Inr (holder, \<lparr>rd_bytes = bs, rd_pos = p + length (holder_bytes holder)\<rparr>)"
proof (cases holder)
  case HKeyring
  with assms show ?thesis by (simp add: read_holder_def rd_u8_at vault_consts)
next
  case (HPassword slot)
  let ?m = "le 4 (memory_kib (ps_params slot))" and ?i = "le 4 (iterations (ps_params slot))"
    and ?l = "le 4 (lanes (ps_params slot))"
  have wf: "kdf_is_valid (ps_params slot)" "length (ps_salt slot) = 16"
    "length (ps_nonce slot) = 24" "length (ps_wrapped slot) = 48"
    using assms(3) HPassword by (simp_all add: vault_consts)
  note bounds = kdf_is_valid_bounds [OF wf(1)]
  have d0: "drop p bs = HOLDER_PASSWORD # KDF_ARGON2ID # ?m @ ?i @ ?l @ ps_salt slot @
      ps_nonce slot @ ps_wrapped slot @ post"
    using assms(1) HPassword by simp
  have fits: "p + 102 \<le> length bs"
    using arg_cong [OF d0, of length] wf by simp
  have d1: "drop (1 + p) bs = KDF_ARGON2ID # ?m @ ?i @ ?l @ ps_salt slot @
      ps_nonce slot @ ps_wrapped slot @ post"
    using drop_step [of p bs "[HOLDER_PASSWORD]"] d0 by simp
  have d2: "drop (2 + p) bs = ?m @ ?i @ ?l @ ps_salt slot @ ps_nonce slot @ ps_wrapped slot @ post"
    using drop_step [of p bs "[HOLDER_PASSWORD, KDF_ARGON2ID]"] d0 by simp
  have d3: "drop (6 + p) bs = ?i @ ?l @ ps_salt slot @ ps_nonce slot @ ps_wrapped slot @ post"
    using drop_step [OF d2] by (simp add: add.commute)
  have d4: "drop (10 + p) bs = ?l @ ps_salt slot @ ps_nonce slot @ ps_wrapped slot @ post"
    using drop_step [OF d3] by (simp add: add.commute)
  have d5: "drop (14 + p) bs = ps_salt slot @ ps_nonce slot @ ps_wrapped slot @ post"
    using drop_step [OF d4] by (simp add: add.commute)
  have d6: "drop (30 + p) bs = ps_nonce slot @ ps_wrapped slot @ post"
    using drop_step [OF d5] wf by (simp add: add.commute)
  have d7: "drop (54 + p) bs = ps_wrapped slot @ post"
    using drop_step [OF d6] wf by (simp add: add.commute)
  have "HOLDER_PASSWORD \<noteq> HOLDER_KEYRING" by (simp add: vault_consts)
  moreover have "kdf_is_valid \<lparr>memory_kib = memory_kib (ps_params slot),
      iterations = iterations (ps_params slot), lanes = lanes (ps_params slot)\<rparr>"
    using wf(1) by (simp add: kdf_is_valid_def)
  moreover have "102 + p = p + 102" by simp
  ultimately show ?thesis
    using fits wf bounds HPassword rd_u8_at [OF d0] rd_u8_at [OF d1]
      rd_u32_at [OF d2] rd_u32_at [OF d3] rd_u32_at [OF d4]
      rd_take_at(1) [OF d5, of 16] rd_take_at(1) [OF d6, of 24] rd_take_at(1) [OF d7, of 48]
    by (simp add: read_holder_def KEY_LEN_def TAG_LEN_def NONCE_LEN_def SALT_LEN_def Let_def)
qed

lemma read_header_encode:
  assumes "wf_header h" and "TAG_LEN \<le> length body"
  shows "read_header (header_encode h @ body) = Inr (h, length (header_encode h))"
proof -
  let ?bs = "header_encode h @ body" and ?hb = "holder_bytes (h_holder h)"
  have wf: "length (h_vault_id h) = 16" "length (h_body_nonce h) = 24" "wf_holder (h_holder h)"
    using assms by (simp_all add: wf_header_def vault_consts)
  have d0: "drop 0 ?bs = MAGIC @ le 2 1 @ h_vault_id h @ ?hb @ h_body_nonce h @ body"
    by (simp add: header_encode_eq FORMAT_VERSION_def)
  have magic: "length MAGIC = 8" by (simp add: MAGIC_def)
  have fits: "length ?bs = 50 + length ?hb + length body"
    using arg_cong [OF d0, of length] wf magic by simp
  have d1: "drop 8 ?bs = le 2 1 @ h_vault_id h @ ?hb @ h_body_nonce h @ body"
    using drop_step [OF d0] magic by simp
  have d2: "drop 10 ?bs = h_vault_id h @ ?hb @ h_body_nonce h @ body"
    using drop_step [OF d1] by simp
  have d3: "drop 26 ?bs = ?hb @ h_body_nonce h @ body"
    using drop_step [OF d2] wf by simp
  have d4: "drop (26 + length ?hb) ?bs = h_body_nonce h @ body"
    using drop_step [OF d3] by simp
  have len: "length (header_encode h) = 50 + length ?hb"
    using fits by simp
  show ?thesis
    using fits wf rd_take_at(1) [OF d0 magic] rd_u16_at [OF d1] rd_take_at(1) [OF d2, of 16]
      read_holder_at [OF d3] rd_take_at(1) [OF d4, of 24] magic assms(2) len
    by (simp add: read_header_def FORMAT_VERSION_def NONCE_LEN_def)
qed

lemma kind_byte_inverse: "k \<noteq> KOther 1 \<Longrightarrow> k \<noteq> KOther 2 \<Longrightarrow> kind_from_byte (kind_to_byte k) = k"
  by (cases k) (auto simp: kind_from_byte_def)

lemma decode_entry_at:
  assumes "drop p bs = entry_bytes (i, s) @ post" and "p \<le> length bs"
    and "i < 2 ^ 128" and "wf_secret s"
  shows "decode_entry \<lparr>rd_bytes = bs, rd_pos = p\<rparr> =
    Inr ((i, s), \<lparr>rd_bytes = bs, rd_pos = p + length (entry_bytes (i, s))\<rparr>)"
proof -
  let ?d = "s_data s"
  have wf: "length ?d \<le> MAX_SECRET" "length ?d \<le> u32_max"
    and kind: "kind_from_byte (kind_to_byte (s_kind s)) = s_kind s"
    using assms(4) by (auto simp: wf_secret_def MAX_SECRET_def u32_max_def kind_byte_inverse)
  have d0: "drop p bs = be 16 i @ kind_to_byte (s_kind s) # le 4 (length ?d) @ ?d @ post"
    using assms(1) by (simp add: entry_bytes_def)
  have fits: "p + 21 + length ?d \<le> length bs"
    using arg_cong [OF d0, of length] assms(2) by simp
  have d1: "drop (16 + p) bs = kind_to_byte (s_kind s) # le 4 (length ?d) @ ?d @ post"
    using drop_step [OF d0] by (simp add: add.commute)
  have d2: "drop (17 + p) bs = le 4 (length ?d) @ ?d @ post"
    using drop_step [of "16 + p" bs "[kind_to_byte (s_kind s)]"] d1 by simp
  have d3: "drop (21 + p) bs = ?d @ post"
    using drop_step [OF d2] by simp
  have "\<lparr>s_kind = s_kind s, s_data = ?d\<rparr> = s" and "i < 256 ^ 16"
    using assms(3) by simp_all
  moreover have "21 + p + length ?d = p + (21 + length ?d)" by simp
  ultimately show ?thesis
    using fits wf kind rd_take_at(1) [OF d0, of 16] rd_u8_at [OF d1] rd_u32_at [OF d2]
      rd_take_at(1) [OF d3, of "length ?d"]
    by (simp add: decode_entry_def entry_bytes_def add.commute [of p 16])
qed

lemma decode_entries_at:
  assumes "drop p bs = concat (map entry_bytes es) @ post" and "p \<le> length bs"
    and "wf_entries (acc @ es)"
  shows "decode_entries (length es) \<lparr>rd_bytes = bs, rd_pos = p\<rparr> acc = Inr (acc @ es)"
  using assms
proof (induction es arbitrary: p acc)
  case (Cons e es)
  obtain i s where e: "e = (i, s)" by force
  have d: "drop p bs = entry_bytes (i, s) @ concat (map entry_bytes es) @ post"
    using Cons.prems(1) e by simp
  have wf: "i < 2 ^ 128" "wf_secret s" and ok: "bt_ok (acc @ (i, s) # es)"
    using Cons.prems(3) e by (auto simp: wf_entries_def)
  have below: "\<forall>k \<in> fst ` set acc. k < i" and "bt_ok acc"
    using ok by (auto simp: bt_ok_def sorted_wrt_append)
  then have "bt_insert i s acc = acc @ [(i, s)]"
    by (intro bt_insert_last)
  moreover have "bt_get acc i = None"
    using below by (auto simp: map_of_eq_None_iff)
  moreover have "p + length (entry_bytes (i, s)) \<le> length bs"
    using arg_cong [OF d, of length] Cons.prems(2) by simp
  ultimately show ?case
    using decode_entry_at [OF d Cons.prems(2) wf]
      Cons.IH [of "p + length (entry_bytes (i, s))" "acc @ [(i, s)]"]
      drop_step [OF d] Cons.prems(3) e
    by simp
qed simp

lemma encode_entries_Inr:
  "encode_entries es = Inr bs \<Longrightarrow> bs = concat (map entry_bytes es)"
  by (induction es arbitrary: bs) (auto split: if_splits)

lemma encode_entries_wf:
  "\<forall>(i, s) \<in> set es. wf_secret s \<Longrightarrow> encode_entries es = Inr (concat (map entry_bytes es))"
  by (induction es) (auto simp: wf_secret_def MAX_SECRET_def u32_max_def)

lemma length_entries: "length (concat (map entry_bytes es)) = sum_list (map entry_size es)"
  by (induction es) (auto simp: entry_bytes_def entry_size_def)

lemma encode_payload_Inr:
  assumes "encode_payload es = Inr out"
  obtains pad where "out = le 4 (length es) @ concat (map entry_bytes es) @ replicate pad 0"
    and "length out mod PAD_TO = 0" and "pad < PAD_TO" and "length es \<le> u32_max"
    and "length out \<le> MAX_PAYLOAD"
proof -
  let ?body = "concat (map entry_bytes es)"
  define size where "size = 4 + sum_list (map entry_size es)"
  define padded where "padded = max (div_ceil size PAD_TO) 1 * PAD_TO"
  let ?out = "le 4 (length es) @ ?body"
  have padded: "size \<le> padded" "padded < size + 256" "padded mod PAD_TO = 0"
    using div_mult_mod_eq [of "size + 255" 256] mod_less_divisor [of 256 "size + 255"]
    by (auto simp: padded_def size_def PAD_TO_def div_ceil_def max_def)
  have len: "length ?out = size" by (simp add: length_entries size_def)
  have "length es \<le> u32_max" and "padded \<le> MAX_PAYLOAD"
    and "out = take padded ?out @ replicate (padded - length ?out) 0"
    using assms encode_entries_Inr [of es]
    unfolding encode_payload_def Let_def size_def [symmetric] padded_def [symmetric]
    by (auto split: if_splits)
  moreover from this have out: "out = ?out @ replicate (padded - size) 0"
    using padded len by simp
  moreover have "length out = padded"
    using padded(1) len unfolding out by simp
  moreover have "padded - size < PAD_TO"
    using padded(2) by (simp add: PAD_TO_def)
  ultimately show thesis
    using that [of "padded - size"] padded(3) by simp
qed

lemma encode_payload_ok:
  assumes "\<forall>(i, s) \<in> set es. wf_secret s" and "length es \<le> u32_max"
    and "4 + sum_list (map entry_size es) + 256 \<le> MAX_PAYLOAD"
  shows "\<exists>out. encode_payload es = Inr out"
proof -
  let ?size = "4 + sum_list (map entry_size es)"
  have "max (div_ceil ?size PAD_TO) 1 * PAD_TO \<le> ?size + 256"
    using div_mult_mod_eq [of "?size + 255" 256] by (auto simp: PAD_TO_def div_ceil_def max_def)
  then have "\<not> max (div_ceil ?size PAD_TO) 1 * PAD_TO > MAX_PAYLOAD"
    using assms(3) by linarith
  then show ?thesis
    using assms(1,2) by (simp add: encode_payload_def Let_def encode_entries_wf)
qed

lemma decode_payload_at:
  assumes "wf_entries es" and "length es \<le> u32_max"
  shows "decode_payload (le 4 (length es) @ concat (map entry_bytes es) @ rest) = Inr es"
proof -
  let ?out = "le 4 (length es) @ concat (map entry_bytes es) @ rest"
  have "decode_entries (length es) \<lparr>rd_bytes = ?out, rd_pos = 4\<rparr> [] = Inr ([] @ es)"
    by (rule decode_entries_at) (use assms(1) in simp_all)
  then show ?thesis
    using rd_u32_at [of 0 ?out "length es"] assms(2) by (simp add: decode_payload_def)
qed

text \<open>
  the payload round trip. A set of well-formed secrets that the encoder accepts is decoded
  to itself; the encoded form is a whole number of 256-byte blocks with less than one block of
  padding, so the size of the file tells only the rounded size of the contents.
\<close>

theorem payload_roundtrip:
  assumes "wf_entries es" and "encode_payload es = Inr out"
  shows "decode_payload out = Inr es \<and> length out mod 256 = 0 \<and>
    length out < 4 + sum_list (map entry_size es) + 256"
proof -
  obtain pad where out: "out = le 4 (length es) @ concat (map entry_bytes es) @ replicate pad 0"
    and "length out mod PAD_TO = 0" "pad < PAD_TO" "length es \<le> u32_max"
    using encode_payload_Inr [OF assms(2)] by metis
  then show ?thesis
    using decode_payload_at [OF assms(1)] by (simp add: PAD_TO_def length_entries)
qed

theorem payload_roundtrip_witness:
  "\<exists>out. wf_entries [(7, \<lparr>s_kind = KPassword, s_data = [1, 2, 3]\<rparr>)] \<and>
     encode_payload [(7, \<lparr>s_kind = KPassword, s_data = [1, 2, 3]\<rparr>)] = Inr out \<and>
     decode_payload out = Inr [(7, \<lparr>s_kind = KPassword, s_data = [1, 2, 3]\<rparr>)]"
proof -
  let ?es = "[(7, \<lparr>s_kind = KPassword, s_data = [1, 2, 3]\<rparr>)] :: entries"
  have wf: "wf_entries ?es"
    by (simp add: wf_entries_def wf_secret_def bt_ok_def MAX_SECRET_def)
  obtain out where out: "encode_payload ?es = Inr out"
    using encode_payload_ok [of ?es] wf
    by (auto simp: wf_entries_def entry_size_def MAX_PAYLOAD_def u32_max_def)
  show ?thesis using wf out payload_roundtrip [OF wf out] by blast
qed

subsection \<open>Reading anything\<close>

lemma rd_take_Inr:
  "rd_take r n = Inr (xs, r') \<Longrightarrow>
     length xs = n \<and> rd_bytes r' = rd_bytes r \<and> rd_pos r' = rd_pos r + n \<and>
     rd_pos r' \<le> length (rd_bytes r)"
  by (auto simp: rd_take_def split: if_splits)

lemma decode_entry_wf:
  assumes "decode_entry r = Inr ((i, s), r')"
  shows "i < 2 ^ 128 \<and> wf_secret s"
proof -
  obtain ib kind len where "length ib = 16" and "i = from_be ib" and "len \<le> MAX_SECRET"
    and "s_kind s = kind_from_byte kind" and "length (s_data s) = len"
    using assms by (auto simp: decode_entry_def split: if_splits dest!: rd_take_Inr)
  moreover have "from_be ib < 256 ^ 16"
    using from_be_less [of ib] \<open>length ib = 16\<close> by simp
  ultimately show ?thesis
    by (simp add: wf_secret_def kind_from_byte_def)
qed

lemma decode_entries_wf: "decode_entries n r es = Inr es' \<Longrightarrow> wf_entries es \<Longrightarrow> wf_entries es'"
proof (induction n arbitrary: r es)
  case (Suc n)
  obtain i s r' where entry: "decode_entry r = Inr ((i, s), r')"
    and rest: "decode_entries n r' (bt_insert i s es) = Inr es'"
    using Suc.prems(1) by (auto split: if_splits)
  have "wf_entries (bt_insert i s es)"
    using Suc.prems(2) decode_entry_wf [OF entry] set_bt_insert [of i s es]
    by (fastforce simp: wf_entries_def bt_ok_insert)
  with rest show ?case by (rule Suc.IH)
qed simp

lemma decode_payload_entries_wf: "decode_payload bs = Inr es \<Longrightarrow> wf_entries es"
  by (auto simp: decode_payload_def wf_entries_def [of "[]"] dest!: decode_entries_wf)

text \<open>
  whatever bytes come out of the cipher, decoding them either fails with an error or gives
  a well-formed set of secrets: ids in order and without repetition, below \<open>2 ^ 128\<close>, and no
  secret above one megabyte.
\<close>

theorem decode_payload_wf:
  assumes "decode_payload bs = Inr es"
  shows "wf_entries es"
  using assms by (rule decode_payload_entries_wf)

theorem decode_payload_wf_witness:
  "\<exists>bs es. decode_payload bs = Inr es \<and> length es = 1 \<and> wf_entries es"
proof -
  let ?es = "[(9, \<lparr>s_kind = KPrivateKey, s_data = [65]\<rparr>)] :: entries"
  have "wf_entries ?es"
    by (simp add: wf_entries_def wf_secret_def bt_ok_def MAX_SECRET_def)
  then have run: "decode_payload (le 4 (length ?es) @ concat (map entry_bytes ?es) @ []) = Inr ?es"
    by (rule decode_payload_at) (simp add: u32_max_def)
  have "length ?es = 1" by simp
  with run decode_payload_wf [OF run] show ?thesis by blast
qed

lemma read_holder_wf:
  "read_holder r = Inr (holder, r') \<Longrightarrow> wf_holder holder"
  by (auto simp: read_holder_def Let_def split: if_splits dest!: rd_take_Inr)

lemma read_header_wf:
  "read_header bs = Inr (h, start) \<Longrightarrow> wf_header h"
  by (auto simp: read_header_def wf_header_def split: if_splits dest!: rd_take_Inr read_holder_wf)

lemma open_file_wf:
  assumes "open_file c bs key = Inr (h, es)"
  shows "wf_header h \<and> wf_entries es \<and> (\<exists>start. read_header bs = Inr (h, start))"
  using assms
  by (auto simp: open_file_def split: if_splits dest: read_header_wf decode_payload_entries_wf)

subsection \<open>The whole file\<close>

lemma seal_file_Inr:
  assumes "seal_file c h key es w = (Inr (h', vf), w')"
  obtains nonce payload body where "length nonce = NONCE_LEN" and "h' = h\<lparr>h_body_nonce := nonce\<rparr>"
    and "encode_payload es = Inr payload"
    and "c_encrypt c key nonce (header_encode h') payload = Some body"
    and "vf = header_encode h' @ body"
  using assms
  by (auto simp: seal_file_def seal_def Let_def split: prod.splits option.splits
      dest!: random_array_length)

lemma open_sealed_file:
  assumes ok: "crypto_ok c" and wf: "wf_header h" "wf_entries es"
    and sealed: "seal_file c h key es w = (Inr (h', vf), w')"
  shows "open_file c vf key = Inr (h', es)"
proof -
  obtain nonce payload body where nonce: "length nonce = NONCE_LEN" "h' = h\<lparr>h_body_nonce := nonce\<rparr>"
    and payload: "encode_payload es = Inr payload"
    and body: "c_encrypt c key nonce (header_encode h') payload = Some body"
    and vf: "vf = header_encode h' @ body"
    using seal_file_Inr [OF sealed] by metis
  have decrypts: "c_decrypt c key nonce (header_encode h') body = Some payload"
    and "TAG_LEN \<le> length body"
    using ok body by (auto simp: crypto_ok_def TAG_LEN_def)
  moreover have "wf_header h'"
    using wf(1) nonce by (simp add: wf_header_def)
  ultimately have "read_header vf = Inr (h', length (header_encode h'))"
    using vf by (simp add: read_header_encode)
  moreover have "decode_payload payload = Inr es"
    using encode_payload_Inr [OF payload] decode_payload_at [OF wf(2)] by metis
  ultimately show ?thesis
    using decrypts vf nonce(2) by (simp add: open_file_def crypto_open_def)
qed

text \<open>
  C5: what is sealed can be opened. A file sealed under a key opens with that key, and gives
  back the header that was written and exactly the secrets that were sealed.
\<close>

theorem vault_file_roundtrip:
  assumes "crypto_ok c" and "wf_header h" and "wf_entries es"
    and "seal_file c h key es w = (Inr (h', vf), w')"
  shows "open_file c vf key = Inr (h', es) \<and> h_vault_id h' = h_vault_id h \<and>
    h_holder h' = h_holder h"
proof -
  obtain nonce where "h' = h\<lparr>h_body_nonce := nonce\<rparr>"
    using seal_file_Inr [OF assms(4)] by metis
  with open_sealed_file [OF assms] show ?thesis by simp
qed

text \<open>
  The cipher of the witnesses: the text behind sixteen zero bytes. It is no cipher, but it has
  the three properties the code relies on.
\<close>

definition plain_crypto :: crypto where
  "plain_crypto =
     \<lparr>c_params_ok = \<lambda>_. True,
      c_argon2 = \<lambda>pw salt p. Some (take 32 (pw @ replicate 32 0)),
      c_encrypt = \<lambda>k n aad m. Some (replicate 16 (sum_list k) @ m),
      c_decrypt = \<lambda>k n aad ct.
        if take 16 ct = replicate 16 (sum_list k) then Some (drop 16 ct) else None\<rparr>"

lemma plain_crypto_ok: "crypto_ok plain_crypto"
  by (auto simp: crypto_ok_def plain_crypto_def)

definition sample_header :: header where
  "sample_header = \<lparr>h_vault_id = replicate 16 7, h_holder = HKeyring, h_body_nonce = replicate 24 0\<rparr>"

definition sample_entries :: entries where
  "sample_entries = [(5, \<lparr>s_kind = KPassword, s_data = [104, 105]\<rparr>)]"

definition sample_world :: "unit world" where
  "sample_world = \<lparr>files = Map.empty, faults = [], rng = [replicate 24 3, replicate 24 4], ring = ()\<rparr>"

lemma sample_wf: "wf_header sample_header" "wf_entries sample_entries"
  by (auto simp: wf_header_def wf_entries_def wf_secret_def bt_ok_def sample_header_def
      sample_entries_def vault_consts MAX_SECRET_def)

lemma sample_seal:
  obtains h' vf w' where "seal_file plain_crypto sample_header key sample_entries sample_world =
    (Inr (h', vf), w')"
proof -
  obtain payload where "encode_payload sample_entries = Inr payload"
    using encode_payload_ok [of sample_entries] sample_wf(2)
    by (auto simp: wf_entries_def sample_entries_def entry_size_def MAX_PAYLOAD_def u32_max_def)
  then show thesis
    using that by (auto simp: seal_file_def seal_def plain_crypto_def sample_world_def
        random_array_def NONCE_LEN_def Let_def)
qed

theorem vault_file_roundtrip_witness:
  "\<exists>h' vf w'. crypto_ok plain_crypto \<and> wf_header sample_header \<and> wf_entries sample_entries \<and>
     seal_file plain_crypto sample_header (replicate 32 9) sample_entries sample_world =
       (Inr (h', vf), w') \<and>
     open_file plain_crypto vf (replicate 32 9) = Inr (h', sample_entries)"
proof -
  obtain h' vf w' where run: "seal_file plain_crypto sample_header (replicate 32 9)
      sample_entries sample_world = (Inr (h', vf), w')"
    by (rule sample_seal)
  show ?thesis
    using run vault_file_roundtrip [OF plain_crypto_ok sample_wf run] plain_crypto_ok sample_wf
    by blast
qed

subsection \<open>The master password\<close>

lemma make_password_slot_Inr:
  assumes "make_password_slot c vid key pw params w = (Inr slot, w')"
  obtains derived where "length (ps_salt slot) = SALT_LEN" and "length (ps_nonce slot) = NONCE_LEN"
    and "length (ps_wrapped slot) = KEY_LEN + TAG_LEN" and "ps_params slot = params"
    and "derive_key c pw (ps_salt slot) params = Inr derived"
    and "c_encrypt c derived (ps_nonce slot)
           (slot_prefix \<lparr>h_vault_id = vid, h_holder = HPassword slot, h_body_nonce = n\<rparr>) key =
         Some (ps_wrapped slot)"
  using assms
  by (auto simp: make_password_slot_def seal_def slot_prefix_def Let_def
      split: prod.splits option.splits if_splits dest!: random_array_length)

lemma derive_key_valid: "derive_key c pw salt params = Inr k \<Longrightarrow> kdf_is_valid params"
  by (auto simp: derive_key_def argon2_def split: if_splits)

lemma make_password_slot_wf:
  "make_password_slot c vid key pw params w = (Inr slot, w') \<Longrightarrow> wf_holder (HPassword slot)"
  by (erule make_password_slot_Inr) (auto dest: derive_key_valid)

lemma slot_prefix_cong:
  "h_vault_id h = h_vault_id h' \<Longrightarrow> h_holder h = h_holder h' \<Longrightarrow> slot_prefix h = slot_prefix h'"
  by (simp add: slot_prefix_def)

lemma unwrap_own_password:
  assumes "crypto_ok c" and "length key = KEY_LEN"
    and "make_password_slot c vid key pw params w = (Inr slot, w')"
    and "h_vault_id h = vid" and "h_holder h = HPassword slot"
  shows "unwrap_key c h pw = Inr key"
proof -
  obtain derived where derived: "derive_key c pw (ps_salt slot) params = Inr derived"
    and enc: "c_encrypt c derived (ps_nonce slot)
      (slot_prefix \<lparr>h_vault_id = vid, h_holder = HPassword slot, h_body_nonce = []\<rparr>) key =
      Some (ps_wrapped slot)" and params: "ps_params slot = params"
    using make_password_slot_Inr [OF assms(3), of "[]"] by metis
  have "slot_prefix h =
      slot_prefix \<lparr>h_vault_id = vid, h_holder = HPassword slot, h_body_nonce = []\<rparr>"
    using assms(4,5) by (intro slot_prefix_cong) simp_all
  with enc assms(1) have "c_decrypt c derived (ps_nonce slot) (slot_prefix h) (ps_wrapped slot) =
      Some key"
    by (simp add: crypto_ok_def)
  then show ?thesis
    using assms(2,5) derived params
    by (simp add: unwrap_key_def crypto_open_def key_from_slice_def)
qed

text \<open>
  the master password opens its own slot. After a password slot was made for a vault key,
  a header that carries it (under the same vault id, whatever its body nonce) gives the vault
  key back for that password, and the slot is well formed, its costs within the bounds.
\<close>

theorem password_slot_roundtrip:
  assumes "crypto_ok c" and "length key = 32"
    and "make_password_slot c vid key pw params w = (Inr slot, w')"
    and "h_vault_id h = vid" and "h_holder h = HPassword slot"
  shows "unwrap_key c h pw = Inr key \<and> wf_holder (h_holder h) \<and> kdf_is_valid params"
  using unwrap_own_password [OF assms(1) _ assms(3-5)] make_password_slot_wf [OF assms(3)]
    make_password_slot_Inr [OF assms(3)] assms(2,5) derive_key_valid
  by (metis KEY_LEN_def)

theorem password_slot_roundtrip_witness:
  "\<exists>slot w'. make_password_slot plain_crypto (replicate 16 7) (replicate 32 9) [112, 119]
       RECOMMENDED \<lparr>files = Map.empty, faults = [], rng = [replicate 16 1, replicate 24 2], ring = ()\<rparr>
       = (Inr slot, w') \<and>
     unwrap_key plain_crypto
       \<lparr>h_vault_id = replicate 16 7, h_holder = HPassword slot, h_body_nonce = replicate 24 5\<rparr>
       [112, 119] = Inr (replicate 32 9)"
proof -
  let ?w = "\<lparr>files = Map.empty, faults = [], rng = [replicate 16 1, replicate 24 2], ring = ()\<rparr>
    :: unit world"
  obtain slot w' where run: "make_password_slot plain_crypto (replicate 16 7) (replicate 32 9)
      [112, 119] RECOMMENDED ?w = (Inr slot, w')"
    by (simp add: make_password_slot_def random_array_def derive_key_def argon2_def seal_def
        plain_crypto_def kdf_is_valid_def RECOMMENDED_def vault_consts Let_def)
  show ?thesis
    using run password_slot_roundtrip [OF plain_crypto_ok _ run,
        of "\<lparr>h_vault_id = replicate 16 7, h_holder = HPassword slot, h_body_nonce = replicate 24 5\<rparr>"]
    by auto
qed

text \<open>
  the header round trip. Reading a file that starts with the encoding of a well-formed
  header and goes on with at least a tag's worth of body gives that header, and where the body
  starts.
\<close>

theorem header_roundtrip:
  assumes "wf_header h" and "16 \<le> length body"
  shows "read_header (header_encode h @ body) = Inr (h, length (header_encode h))"
  using assms by (simp add: read_header_encode TAG_LEN_def)

theorem header_roundtrip_witness:
  "wf_header sample_header \<and>
   read_header (header_encode sample_header @ replicate 16 0) =
     Inr (sample_header, length (header_encode sample_header))"
  using header_roundtrip [of sample_header "replicate 16 0"] sample_wf by simp

subsection \<open>What can go wrong\<close>

text \<open>
  The errors that come from the cipher, the key derivation, the random generator and the bytes of
  a file; the others (waiting, locked, a failed write, the keyring) are the vault's own.
\<close>

fun file_error :: "vault_error \<Rightarrow> bool" where
  "file_error ERandom = True"
| "file_error (EFormat _) = True"
| "file_error (ENewer _) = True"
| "file_error EDecrypt = True"
| "file_error EWrongMode = True"
| "file_error _ = False"

lemma ebind_file_error:
  assumes "ebind m f = Inl e" and "m = Inl e \<Longrightarrow> file_error e"
    and "\<And>x. m = Inr x \<Longrightarrow> f x = Inl e \<Longrightarrow> file_error e"
  shows "file_error e"
  using assms by (cases m) auto

lemma reader_file_error:
  "rd_take r n = Inl e \<Longrightarrow> file_error e"
  "rd_u8 r = Inl e \<Longrightarrow> file_error e"
  "rd_u16 r = Inl e \<Longrightarrow> file_error e"
  "rd_u32 r = Inl e \<Longrightarrow> file_error e"
  by (auto simp: rd_take_def rd_u8_def rd_u16_def rd_u32_def elim!: ebind_file_error split: if_splits)

lemma read_holder_file_error: "read_holder r = Inl e \<Longrightarrow> file_error e"
  unfolding read_holder_def Let_def
  by (auto elim!: ebind_file_error dest!: reader_file_error split: if_splits)

lemma read_header_file_error: "read_header bs = Inl e \<Longrightarrow> file_error e"
  unfolding read_header_def
  by (auto elim!: ebind_file_error dest!: reader_file_error read_holder_file_error split: if_splits)

lemma decode_entries_file_error: "decode_entries n r es = Inl e \<Longrightarrow> file_error e"
  by (induction n arbitrary: r es)
     (auto simp: decode_entry_def elim!: ebind_file_error dest!: reader_file_error split: if_splits)

lemma open_file_file_error: "open_file c bs key = Inl e \<Longrightarrow> file_error e"
  unfolding open_file_def crypto_open_def decode_payload_def
  by (auto elim!: ebind_file_error dest!: read_header_file_error reader_file_error
      decode_entries_file_error split: if_splits option.splits)

lemma derive_key_file_error: "derive_key c pw salt params = Inl e \<Longrightarrow> file_error e"
  by (auto simp: derive_key_def argon2_def split: if_splits option.splits)

lemma unwrap_key_file_error: "unwrap_key c h pw = Inl e \<Longrightarrow> file_error e"
  unfolding unwrap_key_def crypto_open_def
  by (auto elim!: ebind_file_error dest!: derive_key_file_error split: holder.splits option.splits)

lemma make_password_slot_file_error:
  "make_password_slot c vid key pw params w = (Inl e, w') \<Longrightarrow> file_error e"
  unfolding make_password_slot_def seal_def Let_def
  by (auto elim!: ebind_file_error dest!: derive_key_file_error
      split: prod.splits option.splits if_splits)

lemma encode_entries_file_error: "encode_entries es = Inl e \<Longrightarrow> file_error e"
  by (induction es) (auto elim!: ebind_file_error split: if_splits)

lemma seal_file_file_error: "seal_file c h key es w = (Inl e, w') \<Longrightarrow> file_error e"
  unfolding seal_file_def encode_payload_def seal_def Let_def
  by (auto elim!: ebind_file_error dest!: encode_entries_file_error
      split: prod.splits option.splits if_splits)

end
