(* ===== verification/Key_Store.thy ===== *)
theory Key_Store
  imports Vault_Format
begin

text \<open>
  Where the vault key is kept (\<open>crates/opensesh-vault/src/store.rs\<close>). The trait \<open>KeyStore\<close> is a
  record of its three operations over a store state of any type; the locale \<open>key_store_laws\<close>
  states its documented contract (what \<open>get\<close> answers after \<open>set\<close> and \<open>delete\<close>, and that a call
  that fails changes nothing). \<open>MemoryKeyStore\<close> is modelled in full and satisfies the contract;
  the system keyring is another program.
\<close>

record 's key_store =
  ks_get :: "'s \<Rightarrow> str \<Rightarrow> store_error + bytes option"
  ks_set :: "'s \<Rightarrow> str \<Rightarrow> bytes \<Rightarrow> (store_error + unit) \<times> 's"
  ks_delete :: "'s \<Rightarrow> str \<Rightarrow> (store_error + unit) \<times> 's"

subsection \<open>The store in memory\<close>

record memory_store =
  ms_entries :: "str \<rightharpoonup> bytes"
  ms_unavailable :: bool

definition ms_ensure :: "memory_store \<Rightarrow> store_error + unit" where
  "ms_ensure s =
     (if ms_unavailable s then Inl (SUnavailable (lit ''no keyring in this test'')) else Inr ())"

definition ms_get :: "memory_store \<Rightarrow> str \<Rightarrow> store_error + bytes option" where
  "ms_get s name = ebind (ms_ensure s) (\<lambda>_. Inr (ms_entries s name))"

definition ms_set :: "memory_store \<Rightarrow> str \<Rightarrow> bytes \<Rightarrow> (store_error + unit) \<times> memory_store" where
  "ms_set s name secret =
     (case ms_ensure s of
        Inl e \<Rightarrow> (Inl e, s)
      | Inr _ \<Rightarrow> (Inr (), s\<lparr>ms_entries := (ms_entries s)(name \<mapsto> secret)\<rparr>))"

definition ms_delete :: "memory_store \<Rightarrow> str \<Rightarrow> (store_error + unit) \<times> memory_store" where
  "ms_delete s name =
     (case ms_ensure s of
        Inl e \<Rightarrow> (Inl e, s)
      | Inr _ \<Rightarrow> (Inr (), s\<lparr>ms_entries := (ms_entries s)(name := None)\<rparr>))"

definition memory_key_store :: "memory_store key_store" where
  "memory_key_store = \<lparr>ks_get = ms_get, ks_set = ms_set, ks_delete = ms_delete\<rparr>"

subsection \<open>The contract\<close>

locale key_store_laws =
  fixes store :: "'s key_store"
  assumes get_after_set:
      "ks_set store s n b = (Inr (), s') \<Longrightarrow> ks_get store s' n = Inr (Some b)"
    and get_other_set:
      "ks_set store s n b = (r, s') \<Longrightarrow> m \<noteq> n \<Longrightarrow> ks_get store s' m = ks_get store s m"
    and get_after_delete:
      "ks_delete store s n = (Inr (), s') \<Longrightarrow> ks_get store s' n = Inr None"
    and get_other_delete:
      "ks_delete store s n = (r, s') \<Longrightarrow> m \<noteq> n \<Longrightarrow> ks_get store s' m = ks_get store s m"
    and set_failed: "ks_set store s n b = (Inl e, s') \<Longrightarrow> ks_get store s' m = ks_get store s m"
    and delete_failed: "ks_delete store s n = (Inl e, s') \<Longrightarrow> ks_get store s' m = ks_get store s m"
begin

lemma get_after_set_cases:
  "ks_set store s n b = (r, s') \<Longrightarrow>
     ks_get store s' m = ks_get store s m \<or> m = n \<and> ks_get store s' m = Inr (Some b)"
  using get_after_set get_other_set set_failed
  by (metis (full_types) obj_sumE old.unit.exhaust)

lemma get_after_delete_cases:
  "ks_delete store s n = (r, s') \<Longrightarrow>
     ks_get store s' m = ks_get store s m \<or> m = n \<and> ks_get store s' m = Inr None"
  using get_after_delete get_other_delete delete_failed
  by (metis (full_types) obj_sumE old.unit.exhaust)

end

lemmas memory_store_defs = memory_key_store_def ms_get_def ms_set_def ms_delete_def ms_ensure_def

interpretation mem: key_store_laws memory_key_store
  by unfold_locales (auto simp: memory_store_defs split: if_splits)

end
