(* ===== verification/Backoff.thy ===== *)
theory Backoff
  imports World
begin

text \<open>
  Waiting after wrong master passwords (\<open>crates/opensesh-vault/src/backoff.rs\<close>).

  The record \<open>backoff\<close> is the struct \<open>Backoff\<close>; \<open>failures\<close> is a \<open>u32\<close> and
  \<open>last_failure\<close> a \<open>u64\<close> (seconds), both as natural numbers. The saved form of
  \<open>vault-attempts.toml\<close> goes through the \<open>toml\<close> crate, which is a parameter: \<open>af_to_toml\<close>
  writes an \<open>attempts_file\<close> (\<open>None\<close>: it could not), \<open>af_from_toml\<close> reads the bytes of a
  file (\<open>None\<close>: not UTF-8 or not such a file).
\<close>

definition FREE_ATTEMPTS :: nat where
  "FREE_ATTEMPTS = 3"

definition FIRST_DELAY_SECS :: nat where
  "FIRST_DELAY_SECS = 5"

definition MAX_DELAY_SECS :: nat where
  "MAX_DELAY_SECS = 300"

record attempts_file =
  af_schema_version :: int
  af_failures :: nat
  af_last_failure :: nat

record backoff =
  bo_path :: "str option"
  bo_failures :: nat
  bo_last_failure :: nat

record attempts_codec =
  af_to_toml :: "attempts_file \<Rightarrow> bytes option"
  af_from_toml :: "bytes \<Rightarrow> attempts_file option"

text \<open>The comment line \<open>save\<close> writes before the table.\<close>

definition attempts_comment :: bytes where
  "attempts_comment =
     map of_char ''# Wrong master passwords in a row (the wait after them).'' @ [10]"

definition delay_after :: "nat \<Rightarrow> nat" where
  "delay_after failures =
     (if failures < FREE_ATTEMPTS then 0
      else let doublings = min (failures - FREE_ATTEMPTS) 16
           in min (push_bit doublings FIRST_DELAY_SECS) MAX_DELAY_SECS)"

definition backoff_load :: "attempts_codec \<Rightarrow> str option \<Rightarrow> 's world \<Rightarrow> backoff \<times> 's world" where
  "backoff_load codec path w =
     (let (text, w) = (case path of None \<Rightarrow> (Inl NotFound, w) | Some p \<Rightarrow> fs_read w p);
          saved = (case text of
                     Inl _ \<Rightarrow> None
                   | Inr bytes \<Rightarrow> af_from_toml codec bytes)
      in (case saved of
            None \<Rightarrow> \<lparr>bo_path = path, bo_failures = 0, bo_last_failure = 0\<rparr>
          | Some f \<Rightarrow> \<lparr>bo_path = path, bo_failures = af_failures f,
                       bo_last_failure = af_last_failure f\<rparr>, w))"

definition backoff_save :: "attempts_codec \<Rightarrow> backoff \<Rightarrow> 's world \<Rightarrow> 's world" where
  "backoff_save codec b w =
     (case bo_path b of
        None \<Rightarrow> w
      | Some p \<Rightarrow>
          (case af_to_toml codec
                  \<lparr>af_schema_version = 1, af_failures = bo_failures b,
                   af_last_failure = bo_last_failure b\<rparr> of
             None \<Rightarrow> w
           | Some body \<Rightarrow> snd (atomic_write w p (attempts_comment @ body))))"

definition backoff_wait ::
  "attempts_codec \<Rightarrow> backoff \<Rightarrow> nat \<Rightarrow> 's world \<Rightarrow> nat \<times> backoff \<times> 's world" where
  "backoff_wait codec b now w =
     (let delay = delay_after (bo_failures b)
      in if delay = 0 then (0, b, w)
         else let (b, w) =
                (if bo_last_failure b > now
                 then let b = b\<lparr>bo_last_failure := now\<rparr> in (b, backoff_save codec b w)
                 else (b, w))
              in (delay - (now - bo_last_failure b), b, w))"

definition backoff_failed ::
  "attempts_codec \<Rightarrow> backoff \<Rightarrow> nat \<Rightarrow> 's world \<Rightarrow> backoff \<times> 's world" where
  "backoff_failed codec b now w =
     (let b = b\<lparr>bo_failures := u32_sat_add (bo_failures b) 1, bo_last_failure := now\<rparr>
      in (b, backoff_save codec b w))"

definition backoff_succeeded :: "backoff \<Rightarrow> 's world \<Rightarrow> backoff \<times> 's world" where
  "backoff_succeeded b w =
     (if bo_failures b = 0 then (b, w)
      else (b\<lparr>bo_failures := 0, bo_last_failure := 0\<rparr>,
            case bo_path b of None \<Rightarrow> w | Some p \<Rightarrow> snd (remove_file w p)))"

text \<open>
  What guessing through the app costs. \<open>guess_run\<close> plays wrong passwords at the times
  \<open>ts\<close>, in order, in the way \<open>Vault::try_password\<close> does: a guess is taken only when
  \<open>wait\<close> is zero at its time. \<open>None\<close> means that some guess was refused.
\<close>

fun guess_run ::
  "attempts_codec \<Rightarrow> backoff \<Rightarrow> nat list \<Rightarrow> 's world \<Rightarrow> (backoff \<times> 's world) option" where
  "guess_run codec b [] w = Some (b, w)"
| "guess_run codec b (t # ts) w =
     (let (wait, b, w) = backoff_wait codec b t w
      in if wait > 0 then None
         else let (b, w) = backoff_failed codec b t w in guess_run codec b ts w)"

lemmas backoff_consts = FREE_ATTEMPTS_def FIRST_DELAY_SECS_def MAX_DELAY_SECS_def

subsection \<open>The delay\<close>

lemma push_bit_mono: "i \<le> j \<Longrightarrow> push_bit i (n::nat) \<le> push_bit j n"
  by (simp add: push_bit_eq_mult)

lemma delay_after_mono: "i \<le> j \<Longrightarrow> delay_after i \<le> delay_after j"
proof -
  assume "i \<le> j"
  then have "min (i - 3) 16 \<le> min (j - 3) (16::nat)" by simp
  then have "push_bit (min (i - 3) 16) 5 \<le> push_bit (min (j - 3) 16) (5::nat)"
    by (rule push_bit_mono)
  then show ?thesis
    using \<open>i \<le> j\<close> by (auto simp: delay_after_def backoff_consts Let_def min_def)
qed

lemma delay_after_le: "delay_after n \<le> MAX_DELAY_SECS"
  by (simp add: delay_after_def Let_def)

lemma delay_after_0_iff: "delay_after n = 0 \<longleftrightarrow> n < FREE_ATTEMPTS"
  by (auto simp: delay_after_def backoff_consts Let_def min_def push_bit_eq_mult)

lemma delay_after_9: "n \<ge> 9 \<Longrightarrow> delay_after n = MAX_DELAY_SECS"
proof -
  have "delay_after 9 = MAX_DELAY_SECS"
    by (simp add: delay_after_def backoff_consts push_bit_eq_mult)
  moreover assume "n \<ge> 9"
  ultimately show ?thesis
    using delay_after_mono [of 9 n] delay_after_le [of n] by simp
qed

text \<open>
  the wait after \<open>n\<close> wrong passwords in a row. The first three cost nothing; from the
  third on the wait is five seconds doubled for every further one, and never more than five
  minutes, which it is from the ninth on.
\<close>

theorem delay_after_schedule:
  "delay_after n =
     (if n < 3 then 0 else if n < 9 then 5 * 2 ^ (n - 3) else 300)"
proof (cases "n < 9")
  case True
  have "n - 3 \<le> 5" using True by simp
  then have "5 * 2 ^ (n - 3) \<le> (5 * 2 ^ 5 :: nat)"
    by (intro mult_le_mono2 power_increasing) auto
  with True show ?thesis
    by (auto simp: delay_after_def backoff_consts push_bit_eq_mult min_def mult.commute)
next
  case False
  then show ?thesis using delay_after_9 [of n] by (simp add: backoff_consts)
qed

subsection \<open>Waiting\<close>

lemma backoff_wait_result:
  "fst (backoff_wait codec b now w) =
     delay_after (bo_failures b) - (now - min (bo_last_failure b) now)"
  by (auto simp: backoff_wait_def Let_def min_def)

lemma backoff_wait_state:
  "fst (snd (backoff_wait codec b now w)) =
     (if delay_after (bo_failures b) = 0 then b
      else b\<lparr>bo_last_failure := min (bo_last_failure b) now\<rparr>)"
  by (auto simp: backoff_wait_def Let_def min_def)

lemma backoff_wait_zero:
  "fst (backoff_wait codec b now w) = 0 \<longleftrightarrow>
     delay_after (bo_failures b) = 0 \<or> bo_last_failure b + delay_after (bo_failures b) \<le> now"
  by (auto simp: backoff_wait_result min_def)

lemma backoff_wait_unchanged:
  "bo_last_failure b \<le> now \<Longrightarrow> snd (backoff_wait codec b now w) = (b, w)"
  by (auto simp: backoff_wait_def Let_def)

text \<open>
  what \<open>wait\<close> answers, and that it does not hold the user longer than the delay asks for:
  the answer is never more than the delay (a clock that went back restarts the wait, it does
  not prolong it), and asking again after that many seconds answers zero.
\<close>

theorem backoff_wait_ends:
  assumes "backoff_wait codec b now w = (secs, b', w')"
  shows "secs \<le> delay_after (bo_failures b) \<and> bo_failures b' = bo_failures b \<and>
    (now + secs \<le> later \<longrightarrow> fst (backoff_wait codec b' later w'') = 0)"
proof (intro conjI impI)
  have secs: "secs = delay_after (bo_failures b) - (now - min (bo_last_failure b) now)"
    using backoff_wait_result [of codec b now w] assms by simp
  then show "secs \<le> delay_after (bo_failures b)" by simp
  have b': "b' = (if delay_after (bo_failures b) = 0 then b
                  else b\<lparr>bo_last_failure := min (bo_last_failure b) now\<rparr>)"
    using backoff_wait_state [of codec b now w] assms by simp
  then show "bo_failures b' = bo_failures b" by simp
  assume "now + secs \<le> later"
  then show "fst (backoff_wait codec b' later w'') = 0"
    by (auto simp: backoff_wait_zero b' secs)
qed

theorem backoff_wait_ends_witness:
  "\<exists>secs b' w'. backoff_wait \<lparr>af_to_toml = \<lambda>_. None, af_from_toml = \<lambda>_. None\<rparr>
      \<lparr>bo_path = None, bo_failures = 4, bo_last_failure = 100\<rparr> 103
      \<lparr>files = Map.empty, faults = [], rng = [], ring = ()\<rparr> = (secs, b', w') \<and> secs = 7 \<and>
     fst (backoff_wait \<lparr>af_to_toml = \<lambda>_. None, af_from_toml = \<lambda>_. None\<rparr> b' 110
            \<lparr>files = Map.empty, faults = [], rng = [], ring = ()\<rparr>) = 0"
proof -
  let ?c = "\<lparr>af_to_toml = \<lambda>_. None, af_from_toml = \<lambda>_. None\<rparr> :: attempts_codec"
  let ?b = "\<lparr>bo_path = None, bo_failures = 4, bo_last_failure = 100\<rparr> :: backoff"
  let ?w = "\<lparr>files = Map.empty, faults = [], rng = [], ring = ()\<rparr> :: unit world"
  have run: "backoff_wait ?c ?b 103 ?w = (7, ?b, ?w)"
    by (simp add: backoff_wait_def delay_after_def backoff_consts push_bit_eq_mult)
  show ?thesis
    using run backoff_wait_ends [OF run, of 110 ?w] by auto
qed

subsection \<open>Persistence\<close>

lemma backoff_save_files:
  assumes "bo_path b = Some p" and "faults w = []"
    and "af_to_toml codec \<lparr>af_schema_version = 1, af_failures = bo_failures b,
           af_last_failure = bo_last_failure b\<rparr> = Some body"
  shows "files (backoff_save codec b w) p = Some (attempts_comment @ body)"
    and "faults (backoff_save codec b w) = []"
  using atomic_write_ok [OF assms(2), of p "attempts_comment @ body"] assms
  by (auto simp: backoff_save_def)

text \<open>
  a restart does not reset the wait. When the attempts file can be written and the TOML
  crate reads back what it wrote (with the comment line before it), loading the state after a
  wrong password gives the same number of failures and the same time.
\<close>

theorem backoff_survives_restart:
  assumes codec: "\<And>n t. \<exists>body.
        af_to_toml codec \<lparr>af_schema_version = 1, af_failures = n, af_last_failure = t\<rparr> = Some body \<and>
        af_from_toml codec (attempts_comment @ body) =
          Some \<lparr>af_schema_version = 1, af_failures = n, af_last_failure = t\<rparr>"
    and "bo_path b = Some p" and "faults w = []"
    and "backoff_failed codec b now w = (b', w')"
  shows "fst (backoff_load codec (Some p) w') = b'"
proof -
  let ?b = "b\<lparr>bo_failures := u32_sat_add (bo_failures b) 1, bo_last_failure := now\<rparr>"
  have b': "b' = ?b" and w': "w' = backoff_save codec ?b w"
    using assms(4) by (auto simp: backoff_failed_def Let_def)
  obtain body where body: "af_to_toml codec \<lparr>af_schema_version = 1, af_failures = bo_failures ?b,
      af_last_failure = bo_last_failure ?b\<rparr> = Some body"
    and reads: "af_from_toml codec (attempts_comment @ body) = Some \<lparr>af_schema_version = 1,
      af_failures = bo_failures ?b, af_last_failure = bo_last_failure ?b\<rparr>"
    using codec by blast
  have "files w' p = Some (attempts_comment @ body)" and "faults w' = []"
    using backoff_save_files [of ?b p w codec body] body assms(2,3) w' by simp_all
  then show ?thesis
    using reads assms(2) b' by (simp add: backoff_load_def fs_read_def)
qed

theorem backoff_survives_restart_witness:
  "\<exists>codec b p w b' w'.
     (\<forall>n t. \<exists>body.
        af_to_toml codec \<lparr>af_schema_version = 1, af_failures = n, af_last_failure = t\<rparr> = Some body \<and>
        af_from_toml codec (attempts_comment @ body) =
          Some \<lparr>af_schema_version = 1, af_failures = n, af_last_failure = t\<rparr>) \<and>
     bo_path b = Some p \<and> backoff_failed codec b 50 (w :: unit world) = (b', w') \<and>
     bo_failures b' = 8 \<and> fst (backoff_load codec (Some p) w') = b'"
proof -
  define c :: attempts_codec where
    "c = \<lparr>af_to_toml = \<lambda>f. Some (replicate (af_failures f) 1 @ 0 # replicate (af_last_failure f) 1),
          af_from_toml = \<lambda>bs.
            (let r = drop (length attempts_comment) bs; n = length (takeWhile (\<lambda>x. x = 1) r)
             in Some \<lparr>af_schema_version = 1, af_failures = n,
                      af_last_failure = length r - Suc n\<rparr>)\<rparr>"
  define b :: backoff where
    "b = \<lparr>bo_path = Some [112], bo_failures = 7, bo_last_failure = 9\<rparr>"
  define w :: "unit world" where
    "w = \<lparr>files = Map.empty, faults = [], rng = [], ring = ()\<rparr>"
  have unary: "takeWhile (\<lambda>x. x = 1) (replicate n (1::byte) @ 0 # xs) = replicate n 1" for n xs
    by (induction n) simp_all
  have codec: "\<exists>body.
        af_to_toml c \<lparr>af_schema_version = 1, af_failures = n, af_last_failure = t\<rparr> = Some body \<and>
        af_from_toml c (attempts_comment @ body) =
          Some \<lparr>af_schema_version = 1, af_failures = n, af_last_failure = t\<rparr>" for n t
    by (simp add: c_def Let_def unary)
  obtain b' w' where run: "backoff_failed c b 50 w = (b', w')" by force
  then have "bo_failures b' = 8"
    by (auto simp: backoff_failed_def u32_sat_add_def u32_max_def Let_def b_def)
  moreover have "fst (backoff_load c (Some [112]) w') = b'"
    by (rule backoff_survives_restart [OF codec _ _ run]) (simp_all add: b_def w_def)
  moreover have "bo_path b = Some [112]" by (simp add: b_def)
  ultimately show ?thesis
    using codec run by blast
qed

subsection \<open>The cost of guessing\<close>

lemma u32_sat_add_delay:
  "delay_after (u32_sat_add n 1) = delay_after (Suc n)"
  by (cases "n < u32_max") (auto simp: u32_sat_add_def u32_max_def delay_after_9 min_def)

text \<open>
  The failure count as the delays see it: \<open>u32\<close> saturation changes no delay, because the
  delay is at its maximum long before.
\<close>

lemma guess_run_step:
  assumes "guess_run codec b (t # ts) w = Some r"
  obtains b' w' where "guess_run codec b' ts w' = Some r"
    and "delay_after (bo_failures b) = 0 \<or> bo_last_failure b + delay_after (bo_failures b) \<le> t"
    and "bo_failures b' = u32_sat_add (bo_failures b) 1" and "bo_last_failure b' = t"
proof -
  obtain s b1 w1 where wait: "backoff_wait codec b t w = (s, b1, w1)" by (metis prod_cases3)
  obtain b2 w2 where failed: "backoff_failed codec b1 t w1 = (b2, w2)" by force
  have s: "s = 0" and run: "guess_run codec b2 ts w2 = Some r"
    using assms wait failed by (auto split: if_splits)
  have "bo_failures b1 = bo_failures b"
    using backoff_wait_state [of codec b t w] wait by (auto split: if_splits)
  then have "bo_failures b2 = u32_sat_add (bo_failures b) 1" and "bo_last_failure b2 = t"
    using failed by (auto simp: backoff_failed_def Let_def)
  moreover have "delay_after (bo_failures b) = 0 \<or>
      bo_last_failure b + delay_after (bo_failures b) \<le> t"
    using backoff_wait_zero [of codec b t w] wait s by simp
  ultimately show thesis using run that by blast
qed

lemma guess_run_gap:
  assumes "guess_run codec b ts w = Some r" and "i < length ts"
    and "delay_after (bo_failures b) = delay_after n"
    and "\<And>k. delay_after (u32_sat_add (bo_failures b) k) = delay_after (n + k)"
    and "FREE_ATTEMPTS \<le> n + i"
  shows "(if i = 0 then bo_last_failure b else ts ! (i - 1)) + delay_after (n + i) \<le> ts ! i"
  using assms
proof (induction ts arbitrary: b w n i)
  case (Cons t ts)
  obtain b' w' where run: "guess_run codec b' ts w' = Some r"
    and gap: "delay_after (bo_failures b) = 0 \<or> bo_last_failure b + delay_after (bo_failures b) \<le> t"
    and b': "bo_failures b' = u32_sat_add (bo_failures b) 1" "bo_last_failure b' = t"
    using guess_run_step [OF Cons.prems(1)] by metis
  show ?case
  proof (cases i)
    case 0
    with gap Cons.prems(3,5) show ?thesis by (auto simp: delay_after_0_iff)
  next
    case (Suc j)
    have sat: "u32_sat_add (bo_failures b') k = u32_sat_add (bo_failures b) (Suc k)" for k
      by (simp add: b' u32_sat_add_def min_def)
    then have "delay_after (u32_sat_add (bo_failures b') k) = delay_after (Suc n + k)" for k
      using Cons.prems(4) [of "Suc k"] by simp
    moreover have "delay_after (bo_failures b') = delay_after (Suc n)"
      using Cons.prems(4) [of 1] by (simp add: b')
    ultimately have "(if j = 0 then bo_last_failure b' else ts ! (j - 1)) + delay_after (Suc n + j)
        \<le> ts ! j"
      using Cons.IH [OF run, of j "Suc n"] Cons.prems(2,5) Suc by simp
    with Suc show ?thesis by (cases j) (auto simp: b')
  qed
qed simp

lemma delay_after_sat: "delay_after (u32_sat_add 0 k) = delay_after k"
  by (cases "k < 9") (auto simp: u32_sat_add_def u32_max_def delay_after_9 min_def)

text \<open>
  guessing through the app is slow. If a sequence of wrong passwords typed at the times
  \<open>ts\<close> is taken in full from a clean state, every guess from the fourth on comes at least
  its delay after the one before, so from the ninth guess on the guesses take five minutes
  each, whatever the clock or the file system does.
\<close>

theorem guessing_is_slow:
  assumes "guess_run codec \<lparr>bo_path = p, bo_failures = 0, bo_last_failure = 0\<rparr> ts w = Some r"
  shows "(3 \<le> i \<and> i < length ts \<longrightarrow> ts ! (i - 1) + delay_after i \<le> ts ! i) \<and>
    (9 + k < length ts \<longrightarrow> ts ! 8 + 300 * Suc k \<le> ts ! (9 + k))"
proof -
  have gap: "ts ! (j - 1) + delay_after j \<le> ts ! j" if "3 \<le> j" "j < length ts" for j
    using guess_run_gap [OF assms that(2), of 0] that
    by (auto simp: delay_after_sat backoff_consts split: if_splits)
  have "9 + k < length ts \<Longrightarrow> ts ! 8 + 300 * Suc k \<le> ts ! (9 + k)"
  proof (induction k)
    case 0
    then show ?case using gap [of 9] delay_after_9 [of 9] by (simp add: backoff_consts)
  next
    case (Suc k)
    then show ?case using gap [of "10 + k"] delay_after_9 [of "10 + k"]
      by (simp add: backoff_consts)
  qed
  with gap [of i] show ?thesis by blast
qed

theorem guessing_is_slow_witness:
  "\<exists>r. guess_run \<lparr>af_to_toml = \<lambda>_. None, af_from_toml = \<lambda>_. None\<rparr>
      \<lparr>bo_path = None, bo_failures = 0, bo_last_failure = 0\<rparr> [10, 11, 12, 17]
      \<lparr>files = Map.empty, faults = [], rng = [], ring = ()\<rparr> = Some r \<and>
     [10, 11, 12, 17] ! (3 - 1) + delay_after 3 \<le> [10, 11, 12, 17 :: nat] ! 3"
proof -
  let ?c = "\<lparr>af_to_toml = \<lambda>_. None, af_from_toml = \<lambda>_. None\<rparr> :: attempts_codec"
  let ?b = "\<lparr>bo_path = None, bo_failures = 0, bo_last_failure = 0\<rparr> :: backoff"
  let ?w = "\<lparr>files = Map.empty, faults = [], rng = [], ring = ()\<rparr> :: unit world"
  have run: "guess_run ?c ?b [10, 11, 12, 17] ?w =
      Some (\<lparr>bo_path = None, bo_failures = 4, bo_last_failure = 17\<rparr>, ?w)"
    by (simp add: backoff_wait_def backoff_failed_def backoff_save_def delay_after_def
        backoff_consts push_bit_eq_mult u32_sat_add_def u32_max_def Let_def)
  show ?thesis
    using run guessing_is_slow [OF run, of 3] by auto
qed

end
