(* ===== verification/Vault.thy ===== *)
theory Vault
  imports Key_Store Backoff
begin

text \<open>
  The vault (\<open>crates/opensesh-vault/src/vault.rs\<close>): the secrets of \<open>vault.bin\<close>, locked or
  unlocked, and who holds its key. An operation of \<open>impl Vault\<close> takes the environment (the
  cipher, the key store, the text of a ULID, the codec of the attempts file), the vault and the
  world, and gives its result with the new vault and the new world. The random generator and
  the failures of system calls are in the world; a new ULID is an argument of \<open>vault_insert\<close>.
\<close>

subsection \<open>The state\<close>

record 's vault_env =
  ve_crypto :: crypto
  ve_store :: "'s key_store"
  ve_ulid_text :: "nat \<Rightarrow> str"
  ve_codec :: attempts_codec

datatype status = StMissing | StUnreadable | StLocked | StUnlocked

datatype protection = ByKeyring | ByPassword

record unlocked =
  u_header :: header
  u_key :: key
  u_entries :: entries
  u_file :: bytes
  u_remembered :: bool

datatype problem = CouldNotRead io_error | BadHeader vault_error

datatype vstate = Missing | Unreadable problem | Locked header bytes | Unlocked unlocked

record vault =
  v_path :: "str option"
  v_backoff :: backoff
  v_state :: vstate

definition entry_name :: "'s vault_env \<Rightarrow> bytes \<Rightarrow> str" where
  "entry_name env vid = lit ''vault-'' @ ve_ulid_text env (from_be vid)"

definition vault_open ::
  "'s vault_env \<Rightarrow> str option \<Rightarrow> str option \<Rightarrow> 's world \<Rightarrow> vault \<times> 's world" where
  "vault_open env path attempts w =
     (let (state, w) =
        (case path of
           None \<Rightarrow> (Missing, w)
         | Some p \<Rightarrow>
             (case fs_read w p of
                (Inl NotFound, w) \<Rightarrow> (Missing, w)
              | (Inl e, w) \<Rightarrow> (Unreadable (CouldNotRead e), w)
              | (Inr bs, w) \<Rightarrow>
                  (case read_header bs of
                     Inr (h, _) \<Rightarrow> (Locked h bs, w)
                   | Inl e \<Rightarrow> (Unreadable (BadHeader e), w))));
          (b, w) = backoff_load (ve_codec env) attempts w
      in (\<lparr>v_path = path, v_backoff = b, v_state = state\<rparr>, w))"

fun vault_status :: "vstate \<Rightarrow> status" where
  "vault_status Missing = StMissing"
| "vault_status (Unreadable _) = StUnreadable"
| "vault_status (Locked _ _) = StLocked"
| "vault_status (Unlocked _) = StUnlocked"

fun vault_header :: "vstate \<Rightarrow> header option" where
  "vault_header (Locked h _) = Some h"
| "vault_header (Unlocked u) = Some (u_header u)"
| "vault_header _ = None"

definition vault_protection :: "vstate \<Rightarrow> protection option" where
  "vault_protection s =
     map_option (\<lambda>h. case h_holder h of HKeyring \<Rightarrow> ByKeyring | HPassword _ \<Rightarrow> ByPassword)
       (vault_header s)"

fun vault_remembered :: "vstate \<Rightarrow> bool" where
  "vault_remembered (Unlocked u) = u_remembered u"
| "vault_remembered _ = False"

definition keyring_name :: "'s vault_env \<Rightarrow> vstate \<Rightarrow> str option" where
  "keyring_name env s = map_option (\<lambda>h. entry_name env (h_vault_id h)) (vault_header s)"

definition vault_kdf_params :: "vstate \<Rightarrow> kdf_params option" where
  "vault_kdf_params s =
     Option.bind (vault_header s)
       (\<lambda>h. case h_holder h of HKeyring \<Rightarrow> None | HPassword slot \<Rightarrow> Some (ps_params slot))"

definition vault_wait :: "'s vault_env \<Rightarrow> vault \<Rightarrow> nat \<Rightarrow> 's world \<Rightarrow> nat \<times> vault \<times> 's world" where
  "vault_wait env v now w =
     (let (wait, b, w) = backoff_wait (ve_codec env) (v_backoff v) now w
      in (wait, v\<lparr>v_backoff := b\<rparr>, w))"

definition vault_failures :: "vault \<Rightarrow> nat" where
  "vault_failures v = bo_failures (v_backoff v)"

fun get_unlocked :: "vstate \<Rightarrow> vault_error + unlocked" where
  "get_unlocked (Unlocked u) = Inr u"
| "get_unlocked (Locked _ _) = Inl ELocked"
| "get_unlocked Missing = Inl EMissing"
| "get_unlocked (Unreadable _) = Inl EUnreadable"

subsection \<open>Writing\<close>

definition vault_write ::
  "'s vault_env \<Rightarrow> vault \<Rightarrow> header \<Rightarrow> key \<Rightarrow> entries \<Rightarrow> 's world \<Rightarrow>
   (vault_error + header \<times> bytes) \<times> 's world" where
  "vault_write env v h key es w =
     (case seal_file (ve_crypto env) h key es w of
        (Inl e, w) \<Rightarrow> (Inl e, w)
      | (Inr (h, bs), w) \<Rightarrow>
          (case v_path v of
             None \<Rightarrow> (Inr (h, bs), w)
           | Some p \<Rightarrow>
               (case atomic_write w p bs of
                  (Inl e, w) \<Rightarrow> (Inl (EWrite p e), w)
                | (Inr _, w) \<Rightarrow> (Inr (h, bs), w))))"

definition store_set :: "'s vault_env \<Rightarrow> 's world \<Rightarrow> str \<Rightarrow> bytes \<Rightarrow> (vault_error + unit) \<times> 's world" where
  "store_set env w name secret =
     (let (r, s) = ks_set (ve_store env) (ring w) name secret
      in (case r of Inl e \<Rightarrow> Inl (EKeyring e) | Inr _ \<Rightarrow> Inr (), w\<lparr>ring := s\<rparr>))"

definition store_delete :: "'s vault_env \<Rightarrow> 's world \<Rightarrow> str \<Rightarrow> (vault_error + unit) \<times> 's world" where
  "store_delete env w name =
     (let (r, s) = ks_delete (ve_store env) (ring w) name
      in (case r of Inl e \<Rightarrow> Inl (EKeyring e) | Inr _ \<Rightarrow> Inr (), w\<lparr>ring := s\<rparr>))"

subsection \<open>Creating and unlocking\<close>

definition vault_create ::
  "'s vault_env \<Rightarrow> vault \<Rightarrow> bytes option \<Rightarrow> kdf_params \<Rightarrow> 's world \<Rightarrow>
   (vault_error + unit) \<times> vault \<times> 's world" where
  "vault_create env v password params w =
     (if v_state v \<noteq> Missing then (Inl EExists, v, w)
      else case random_array 16 w of
        (None, w) \<Rightarrow> (Inl ERandom, v, w)
      | (Some vid, w) \<Rightarrow>
      (case random_array KEY_LEN w of
        (None, w) \<Rightarrow> (Inl ERandom, v, w)
      | (Some key, w) \<Rightarrow>
      (let (holder, w) =
         (case password of
            Some pw \<Rightarrow>
              (case make_password_slot (ve_crypto env) vid key pw params w of
                 (Inl e, w) \<Rightarrow> (Inl e, w)
               | (Inr slot, w) \<Rightarrow> (Inr (HPassword slot), w))
          | None \<Rightarrow>
              (case store_set env w (entry_name env vid) key of
                 (Inl e, w) \<Rightarrow> (Inl e, w)
               | (Inr _, w) \<Rightarrow> (Inr HKeyring, w)))
       in case holder of
            Inl e \<Rightarrow> (Inl e, v, w)
          | Inr holder \<Rightarrow>
              (case vault_write env v \<lparr>h_vault_id = vid, h_holder = holder,
                                       h_body_nonce = replicate NONCE_LEN 0\<rparr> key [] w of
                 (Inl e, w) \<Rightarrow>
                   (Inl e, v,
                    if password = None then snd (store_delete env w (entry_name env vid)) else w)
               | (Inr (h, bs), w) \<Rightarrow>
                   (Inr (),
                    v\<lparr>v_state := Unlocked \<lparr>u_header = h, u_key = key, u_entries = [], u_file = bs,
                                           u_remembered = False\<rparr>\<rparr>, w)))))"

definition unlock_with_keyring ::
  "'s vault_env \<Rightarrow> vault \<Rightarrow> 's world \<Rightarrow> (vault_error + bool) \<times> vault \<times> 's world" where
  "unlock_with_keyring env v w =
     (case v_state v of
        Unlocked _ \<Rightarrow> (Inr True, v, w)
      | Missing \<Rightarrow> (Inr False, v, w)
      | Unreadable _ \<Rightarrow> (Inr False, v, w)
      | Locked h bs \<Rightarrow>
          (case ks_get (ve_store env) (ring w) (entry_name env (h_vault_id h)) of
             Inl e \<Rightarrow> (Inl (EKeyring e), v, w)
           | Inr None \<Rightarrow> (Inr False, v, w)
           | Inr (Some stored) \<Rightarrow>
               (case key_from_slice stored of
                  None \<Rightarrow> (Inr False, v, w)
                | Some key \<Rightarrow>
                    (case open_file (ve_crypto env) bs key of
                       Inl EDecrypt \<Rightarrow> (Inr False, v, w)
                     | Inl e \<Rightarrow> (Inl e, v, w)
                     | Inr (_, es) \<Rightarrow>
                         (Inr True,
                          v\<lparr>v_state := Unlocked \<lparr>u_header = h, u_key = key, u_entries = es,
                              u_file = bs, u_remembered = (h_holder h \<noteq> HKeyring)\<rparr>\<rparr>, w)))))"

definition try_password ::
  "'s vault_env \<Rightarrow> vault \<Rightarrow> bytes \<Rightarrow> nat \<Rightarrow> 's world \<Rightarrow> (vault_error + key) \<times> vault \<times> 's world" where
  "try_password env v password now w =
     (case vault_header (v_state v) of
        None \<Rightarrow> (Inl EMissing, v, w)
      | Some h \<Rightarrow>
          if h_holder h = HKeyring then (Inl EWrongMode, v, w)
          else let (wait, b, w) = backoff_wait (ve_codec env) (v_backoff v) now w;
                   v = v\<lparr>v_backoff := b\<rparr>
               in if wait > 0 then (Inl (EWait wait), v, w)
                  else case unwrap_key (ve_crypto env) h password of
                         Inr key \<Rightarrow>
                           (let (b, w) = backoff_succeeded (v_backoff v) w
                            in (Inr key, v\<lparr>v_backoff := b\<rparr>, w))
                       | Inl EDecrypt \<Rightarrow>
                           (let (b, w) = backoff_failed (ve_codec env) (v_backoff v) now w;
                                (wait, b, w) = backoff_wait (ve_codec env) b now w
                            in (Inl (EWrongPassword wait), v\<lparr>v_backoff := b\<rparr>, w))
                       | Inl e \<Rightarrow> (Inl e, v, w))"

definition vault_unlock ::
  "'s vault_env \<Rightarrow> vault \<Rightarrow> bytes \<Rightarrow> nat \<Rightarrow> 's world \<Rightarrow> (vault_error + unit) \<times> vault \<times> 's world" where
  "vault_unlock env v password now w =
     (case v_state v of
        Unlocked _ \<Rightarrow> (Inr (), v, w)
      | Missing \<Rightarrow> (Inl EMissing, v, w)
      | Unreadable _ \<Rightarrow> (Inl EUnreadable, v, w)
      | Locked _ bs \<Rightarrow>
          (case try_password env v password now w of
             (Inl e, v, w) \<Rightarrow> (Inl e, v, w)
           | (Inr key, v, w) \<Rightarrow>
               (case open_file (ve_crypto env) bs key of
                  Inl EDecrypt \<Rightarrow> (Inl (EFormat ''the secrets don't match their key''), v, w)
                | Inl e \<Rightarrow> (Inl e, v, w)
                | Inr (h, es) \<Rightarrow>
                    (Inr (),
                     v\<lparr>v_state := Unlocked \<lparr>u_header = h, u_key = key, u_entries = es, u_file = bs,
                         u_remembered =
                           (ks_get (ve_store env) (ring w) (entry_name env (h_vault_id h)) =
                              Inr (Some key))\<rparr>\<rparr>, w))))"

definition vault_lock :: "vault \<Rightarrow> vault" where
  "vault_lock v =
     (case v_state v of
        Unlocked u \<Rightarrow> v\<lparr>v_state := Locked (u_header u) (u_file u)\<rparr>
      | _ \<Rightarrow> v)"

definition verify_password ::
  "'s vault_env \<Rightarrow> vault \<Rightarrow> bytes \<Rightarrow> nat \<Rightarrow> 's world \<Rightarrow> (vault_error + unit) \<times> vault \<times> 's world" where
  "verify_password env v password now w =
     (case get_unlocked (v_state v) of
        Inl e \<Rightarrow> (Inl e, v, w)
      | Inr u \<Rightarrow>
          (case try_password env v password now w of
             (Inl e, v, w) \<Rightarrow> (Inl e, v, w)
           | (Inr key, v, w) \<Rightarrow>
               (if key = u_key u then Inr ()
                else Inl (EFormat ''the master password opens another key''), v, w)))"

subsection \<open>Reading and changing secrets\<close>

definition vault_len :: "vault \<Rightarrow> nat" where
  "vault_len v = (case get_unlocked (v_state v) of Inl _ \<Rightarrow> 0 | Inr u \<Rightarrow> length (u_entries u))"

definition vault_ids :: "vault \<Rightarrow> vault_error + nat list" where
  "vault_ids v = ebind (get_unlocked (v_state v)) (\<lambda>u. Inr (map fst (u_entries u)))"

definition vault_get :: "vault \<Rightarrow> nat \<Rightarrow> vault_error + secret" where
  "vault_get v i =
     ebind (get_unlocked (v_state v)) (\<lambda>u.
       case bt_get (u_entries u) i of None \<Rightarrow> Inl (ENotFound i) | Some s \<Rightarrow> Inr s)"

text \<open>
  \<open>Vault::change\<close>: the closures the code passes never fail, so a change is a function on the
  secrets and the result of the call.
\<close>

definition vault_change ::
  "'s vault_env \<Rightarrow> vault \<Rightarrow> (entries \<Rightarrow> entries) \<Rightarrow> 'r \<Rightarrow> 's world \<Rightarrow>
   (vault_error + 'r) \<times> vault \<times> 's world" where
  "vault_change env v f result w =
     (case get_unlocked (v_state v) of
        Inl e \<Rightarrow> (Inl e, v, w)
      | Inr u \<Rightarrow>
          (let es = f (u_entries u)
           in case vault_write env v (u_header u) (u_key u) es w of
                (Inl e, w) \<Rightarrow> (Inl e, v, w)
              | (Inr (h, bs), w) \<Rightarrow>
                  (Inr result,
                   v\<lparr>v_state := Unlocked (u\<lparr>u_entries := es, u_header := h, u_file := bs\<rparr>)\<rparr>, w)))"

definition vault_insert ::
  "'s vault_env \<Rightarrow> vault \<Rightarrow> nat \<Rightarrow> secret \<Rightarrow> 's world \<Rightarrow> (vault_error + nat) \<times> vault \<times> 's world" where
  "vault_insert env v new_id s w =
     (if length (s_data s) > MAX_SECRET then (Inl (EFormat ''a secret is too large''), v, w)
      else vault_change env v (bt_insert new_id s) new_id w)"

definition vault_replace ::
  "'s vault_env \<Rightarrow> vault \<Rightarrow> nat \<Rightarrow> secret \<Rightarrow> 's world \<Rightarrow> (vault_error + unit) \<times> vault \<times> 's world" where
  "vault_replace env v i s w =
     (if length (s_data s) > MAX_SECRET then (Inl (EFormat ''a secret is too large''), v, w)
      else vault_change env v (bt_insert i s) () w)"

definition vault_retain ::
  "'s vault_env \<Rightarrow> vault \<Rightarrow> (nat \<Rightarrow> bool) \<Rightarrow> 's world \<Rightarrow> (vault_error + nat) \<times> vault \<times> 's world" where
  "vault_retain env v keep w =
     (case get_unlocked (v_state v) of
        Inl e \<Rightarrow> (Inl e, v, w)
      | Inr u \<Rightarrow>
          (let doomed = length (filter (\<lambda>i. \<not> keep i) (map fst (u_entries u)))
           in if doomed = 0 then (Inr 0, v, w)
              else vault_change env v (bt_retain keep) doomed w))"

definition vault_remove ::
  "'s vault_env \<Rightarrow> vault \<Rightarrow> nat list \<Rightarrow> 's world \<Rightarrow> (vault_error + nat) \<times> vault \<times> 's world" where
  "vault_remove env v ids w = vault_retain env v (\<lambda>i. i \<notin> set ids) w"

subsection \<open>Changing the protection\<close>

definition set_password ::
  "'s vault_env \<Rightarrow> vault \<Rightarrow> bytes \<Rightarrow> kdf_params \<Rightarrow> bool \<Rightarrow> 's world \<Rightarrow>
   (vault_error + unit) \<times> vault \<times> 's world" where
  "set_password env v password params remember w =
     (case get_unlocked (v_state v) of
        Inl e \<Rightarrow> (Inl e, v, w)
      | Inr u \<Rightarrow>
          (let vid = h_vault_id (u_header u); name = entry_name env vid; key = u_key u
           in case make_password_slot (ve_crypto env) vid key password params w of
                (Inl e, w) \<Rightarrow> (Inl e, v, w)
              | (Inr slot, w) \<Rightarrow>
                  (case (if remember then store_set env w name key else (Inr (), w)) of
                     (Inl e, w) \<Rightarrow> (Inl e, v, w)
                   | (Inr _, w) \<Rightarrow>
                       (case vault_write env v \<lparr>h_vault_id = vid, h_holder = HPassword slot,
                                h_body_nonce = replicate NONCE_LEN 0\<rparr> key (u_entries u) w of
                          (Inl e, w) \<Rightarrow> (Inl e, v, w)
                        | (Inr (h, bs), w) \<Rightarrow>
                            (let (forgotten, w) =
                               (if remember then (Inr (), w) else store_delete env w name)
                             in (forgotten,
                                 v\<lparr>v_state := Unlocked (u\<lparr>u_header := h, u_file := bs,
                                     u_remembered := remember \<or> isl forgotten\<rparr>)\<rparr>,
                                 w))))))"

definition change_password ::
  "'s vault_env \<Rightarrow> vault \<Rightarrow> bytes \<Rightarrow> bytes \<Rightarrow> kdf_params \<Rightarrow> nat \<Rightarrow> 's world \<Rightarrow>
   (vault_error + unit) \<times> vault \<times> 's world" where
  "change_password env v current new params now w =
     (case verify_password env v current now w of
        (Inl e, v, w) \<Rightarrow> (Inl e, v, w)
      | (Inr _, v, w) \<Rightarrow> set_password env v new params (vault_remembered (v_state v)) w)"

definition remove_password ::
  "'s vault_env \<Rightarrow> vault \<Rightarrow> bytes \<Rightarrow> nat \<Rightarrow> 's world \<Rightarrow> (vault_error + unit) \<times> vault \<times> 's world" where
  "remove_password env v current now w =
     (case verify_password env v current now w of
        (Inl e, v, w) \<Rightarrow> (Inl e, v, w)
      | (Inr _, v, w) \<Rightarrow>
          (case get_unlocked (v_state v) of
             Inl e \<Rightarrow> (Inl e, v, w)
           | Inr u \<Rightarrow>
               (let vid = h_vault_id (u_header u); key = u_key u
                in case store_set env w (entry_name env vid) key of
                     (Inl e, w) \<Rightarrow> (Inl e, v, w)
                   | (Inr _, w) \<Rightarrow>
                       (case vault_write env v \<lparr>h_vault_id = vid, h_holder = HKeyring,
                                h_body_nonce = replicate NONCE_LEN 0\<rparr> key (u_entries u) w of
                          (Inl e, w) \<Rightarrow> (Inl e, v, w)
                        | (Inr (h, bs), w) \<Rightarrow>
                            (Inr (),
                             v\<lparr>v_state := Unlocked (u\<lparr>u_header := h, u_file := bs,
                                 u_remembered := False\<rparr>)\<rparr>, w)))))"

definition set_remember ::
  "'s vault_env \<Rightarrow> vault \<Rightarrow> bool \<Rightarrow> 's world \<Rightarrow> (vault_error + unit) \<times> vault \<times> 's world" where
  "set_remember env v remember w =
     (case get_unlocked (v_state v) of
        Inl e \<Rightarrow> (Inl e, v, w)
      | Inr u \<Rightarrow>
          if h_holder (u_header u) = HKeyring then (Inl EWrongMode, v, w)
          else let name = entry_name env (h_vault_id (u_header u))
               in case (if remember then store_set env w name (u_key u)
                        else store_delete env w name) of
                    (Inl e, w) \<Rightarrow> (Inl e, v, w)
                  | (Inr _, w) \<Rightarrow>
                      (Inr (), v\<lparr>v_state := Unlocked (u\<lparr>u_remembered := remember\<rparr>)\<rparr>, w))"

definition vault_reset ::
  "'s vault_env \<Rightarrow> vault \<Rightarrow> 's world \<Rightarrow> (vault_error + unit) \<times> vault \<times> 's world" where
  "vault_reset env v w =
     (let w = (case keyring_name env (v_state v) of
                 None \<Rightarrow> w
               | Some name \<Rightarrow> snd (store_delete env w name));
          (removed, w) =
            (case v_path v of
               None \<Rightarrow> (Inr (), w)
             | Some p \<Rightarrow>
                 (case remove_file w p of
                    (Inr _, w) \<Rightarrow> (Inr (), w)
                  | (Inl NotFound, w) \<Rightarrow> (Inr (), w)
                  | (Inl e, w) \<Rightarrow> (Inl (EWrite p e), w)))
      in case removed of
           Inl e \<Rightarrow> (Inl e, v, w)
         | Inr _ \<Rightarrow>
             (let (b, w) = backoff_succeeded (v_backoff v) w
              in (Inr (), v\<lparr>v_backoff := b, v_state := Missing\<rparr>, w)))"

end
