(* ===== verification/Vault_Laws.thy ===== *)
theory Vault_Laws
  imports Vault
begin

text \<open>
  What the vault of \<open>Vault\<close> promises. \<open>vault_inv\<close> ties what an unlocked vault keeps in memory to
  the bytes it last wrote; \<open>vault_step\<close> runs any operation of \<open>impl Vault\<close>. The lemmas on
  \<open>vault_write\<close> say what is in memory, on disk and in the keyring after a write that may have
  failed at any point; the properties follow from them operation by operation.
\<close>

definition vault_inv :: "crypto \<Rightarrow> vstate \<Rightarrow> bool" where
  "vault_inv c s =
     (case s of
        Unlocked u \<Rightarrow>
          open_file c (u_file u) (u_key u) = Inr (u_header u, u_entries u) \<and>
          length (u_key u) = KEY_LEN
      | Locked h bs \<Rightarrow> (case read_header bs of Inl _ \<Rightarrow> False | Inr (h', _) \<Rightarrow> h' = h)
      | _ \<Rightarrow> True)"

datatype vault_op =
    OpCreate "bytes option" kdf_params
  | OpUnlockKeyring
  | OpUnlock bytes nat
  | OpLock
  | OpVerify bytes nat
  | OpWait nat
  | OpInsert nat secret
  | OpReplace nat secret
  | OpRetain "nat \<Rightarrow> bool"
  | OpRemove "nat list"
  | OpSetPassword bytes kdf_params bool
  | OpChangePassword bytes bytes kdf_params nat
  | OpRemovePassword bytes nat
  | OpSetRemember bool
  | OpReset

fun vault_step :: "'s vault_env \<Rightarrow> vault \<times> 's world \<Rightarrow> vault_op \<Rightarrow> vault \<times> 's world" where
  "vault_step env (v, w) (OpCreate pw params) = snd (vault_create env v pw params w)"
| "vault_step env (v, w) OpUnlockKeyring = snd (unlock_with_keyring env v w)"
| "vault_step env (v, w) (OpUnlock pw now) = snd (vault_unlock env v pw now w)"
| "vault_step env (v, w) OpLock = (vault_lock v, w)"
| "vault_step env (v, w) (OpVerify pw now) = snd (verify_password env v pw now w)"
| "vault_step env (v, w) (OpWait now) = snd (vault_wait env v now w)"
| "vault_step env (v, w) (OpInsert i s) = snd (vault_insert env v i s w)"
| "vault_step env (v, w) (OpReplace i s) = snd (vault_replace env v i s w)"
| "vault_step env (v, w) (OpRetain keep) = snd (vault_retain env v keep w)"
| "vault_step env (v, w) (OpRemove ids) = snd (vault_remove env v ids w)"
| "vault_step env (v, w) (OpSetPassword pw params rem) = snd (set_password env v pw params rem w)"
| "vault_step env (v, w) (OpChangePassword cur new params now) =
     snd (change_password env v cur new params now w)"
| "vault_step env (v, w) (OpRemovePassword cur now) = snd (remove_password env v cur now w)"
| "vault_step env (v, w) (OpSetRemember rem) = snd (set_remember env v rem w)"
| "vault_step env (v, w) OpReset = snd (vault_reset env v w)"

text \<open>What the operations answer, and the answers of a run of them.\<close>

datatype answer = ADone | AOpened bool | AId nat | ACount nat | ASeconds nat

fun vault_answer :: "'s vault_env \<Rightarrow> vault \<times> 's world \<Rightarrow> vault_op \<Rightarrow> vault_error + answer" where
  "vault_answer env (v, w) (OpCreate pw params) =
     map_sum id (\<lambda>_. ADone) (fst (vault_create env v pw params w))"
| "vault_answer env (v, w) OpUnlockKeyring = map_sum id AOpened (fst (unlock_with_keyring env v w))"
| "vault_answer env (v, w) (OpUnlock pw now) =
     map_sum id (\<lambda>_. ADone) (fst (vault_unlock env v pw now w))"
| "vault_answer env (v, w) OpLock = Inr ADone"
| "vault_answer env (v, w) (OpVerify pw now) =
     map_sum id (\<lambda>_. ADone) (fst (verify_password env v pw now w))"
| "vault_answer env (v, w) (OpWait now) = Inr (ASeconds (fst (vault_wait env v now w)))"
| "vault_answer env (v, w) (OpInsert i s) = map_sum id AId (fst (vault_insert env v i s w))"
| "vault_answer env (v, w) (OpReplace i s) =
     map_sum id (\<lambda>_. ADone) (fst (vault_replace env v i s w))"
| "vault_answer env (v, w) (OpRetain keep) = map_sum id ACount (fst (vault_retain env v keep w))"
| "vault_answer env (v, w) (OpRemove ids) = map_sum id ACount (fst (vault_remove env v ids w))"
| "vault_answer env (v, w) (OpSetPassword pw params rem) =
     map_sum id (\<lambda>_. ADone) (fst (set_password env v pw params rem w))"
| "vault_answer env (v, w) (OpChangePassword cur new params now) =
     map_sum id (\<lambda>_. ADone) (fst (change_password env v cur new params now w))"
| "vault_answer env (v, w) (OpRemovePassword cur now) =
     map_sum id (\<lambda>_. ADone) (fst (remove_password env v cur now w))"
| "vault_answer env (v, w) (OpSetRemember rem) =
     map_sum id (\<lambda>_. ADone) (fst (set_remember env v rem w))"
| "vault_answer env (v, w) OpReset = map_sum id (\<lambda>_. ADone) (fst (vault_reset env v w))"

fun vault_answers :: "'s vault_env \<Rightarrow> vault \<times> 's world \<Rightarrow> vault_op list \<Rightarrow> (vault_error + answer) list" where
  "vault_answers env c [] = []"
| "vault_answers env c (oper # ops) =
     vault_answer env c oper # vault_answers env (vault_step env c oper) ops"

text \<open>
  What the types of the code guarantee of an argument: an id is a \<open>Ulid\<close> (128 bits), and a
  caller names the two known kinds by their own constructors.
\<close>

definition entry_ok :: "nat \<Rightarrow> secret \<Rightarrow> bool" where
  "entry_ok i s \<longleftrightarrow> i < 2 ^ 128 \<and> s_kind s \<noteq> KOther 1 \<and> s_kind s \<noteq> KOther 2"

fun op_ok :: "vault_op \<Rightarrow> bool" where
  "op_ok (OpInsert i s) = entry_ok i s"
| "op_ok (OpReplace i s) = entry_ok i s"
| "op_ok _ = True"

subsection \<open>Writing\<close>

lemma seal_file_frame:
  "seal_file c h key es w = (r, w') \<Longrightarrow>
     files w' = files w \<and> ring w' = ring w \<and> faults w' = faults w"
  by (auto simp: seal_file_def Let_def split: prod.splits option.splits dest!: random_arrayD)

lemma seal_file_header:
  "seal_file c h key es w = (Inr (h', vf), w') \<Longrightarrow>
     h_vault_id h' = h_vault_id h \<and> h_holder h' = h_holder h"
  by (erule seal_file_Inr) simp

text \<open>
  A file \<open>vf\<close> is good for a header, a key and secrets when the key opens it to these secrets
  and to a header that differs at most in the body nonce.
\<close>

definition good_file :: "crypto \<Rightarrow> header \<Rightarrow> key \<Rightarrow> entries \<Rightarrow> bytes \<Rightarrow> bool" where
  "good_file c h key es vf \<longleftrightarrow>
     (case open_file c vf key of
        Inl _ \<Rightarrow> False
      | Inr (h', es') \<Rightarrow> es' = es \<and> h_vault_id h' = h_vault_id h \<and> h_holder h' = h_holder h)"

lemma vault_write_header:
  "vault_write env v h key es w = (Inr (h', vf), w') \<Longrightarrow>
     h_vault_id h' = h_vault_id h \<and> h_holder h' = h_holder h"
  by (auto simp: vault_write_def split: sum.splits option.splits prod.splits dest!: seal_file_header)

lemma vault_write_Inr:
  assumes "crypto_ok (ve_crypto env)" and "wf_header h" and "wf_entries es"
    and "vault_write env v h key es w = (Inr (h', vf), w')"
  shows "open_file (ve_crypto env) vf key = Inr (h', es)"
    and "h_vault_id h' = h_vault_id h" and "h_holder h' = h_holder h"
    and "ring w' = ring w"
    and "files w' = (case v_path v of None \<Rightarrow> files w | Some p \<Rightarrow> (files w)(p \<mapsto> vf))"
proof -
  obtain r w1 where sealing: "seal_file (ve_crypto env) h key es w = (r, w1)" by force
  with assms(4) have sealed: "seal_file (ve_crypto env) h key es w = (Inr (h', vf), w1)"
    by (auto simp: vault_write_def split: sum.splits option.splits prod.splits)
  then show "open_file (ve_crypto env) vf key = Inr (h', es)"
    and "h_vault_id h' = h_vault_id h" and "h_holder h' = h_holder h"
    using open_sealed_file [OF assms(1-3)] seal_file_header by blast+
  show "ring w' = ring w"
    using assms(4) sealed seal_file_frame [OF sealed]
    by (auto simp: vault_write_def split: sum.splits option.splits prod.splits
        dest: atomic_write_frame)
  show "files w' = (case v_path v of None \<Rightarrow> files w | Some p \<Rightarrow> (files w)(p \<mapsto> vf))"
    using assms(4) sealed seal_file_frame [OF sealed]
    by (auto simp: vault_write_def split: sum.splits option.splits prod.splits
        dest!: atomic_write_Inr)
qed

lemma vault_write_Inl:
  assumes "crypto_ok (ve_crypto env)" and "wf_header h" and "wf_entries es"
    and "vault_write env v h key es w = (Inl e, w')"
  shows "ring w' = ring w"
    and "files w' = files w \<or>
      (\<exists>p vf. v_path v = Some p \<and> files w' = (files w)(p \<mapsto> vf) \<and>
         good_file (ve_crypto env) h key es vf)"
proof -
  obtain r w1 where sealing: "seal_file (ve_crypto env) h key es w = (r, w1)" by force
  note frame = seal_file_frame [OF sealing]
  show "ring w' = ring w"
    using assms(4) sealing frame
    by (auto simp: vault_write_def split: sum.splits option.splits prod.splits
        dest: atomic_write_frame)
  show "files w' = files w \<or>
      (\<exists>p vf. v_path v = Some p \<and> files w' = (files w)(p \<mapsto> vf) \<and>
         good_file (ve_crypto env) h key es vf)"
  proof (cases r)
    case (Inl e')
    with assms(4) sealing frame show ?thesis by (auto simp: vault_write_def)
  next
    case (Inr hv)
    obtain h' vf where hv: "hv = (h', vf)" by force
    then have "good_file (ve_crypto env) h key es vf"
      using open_sealed_file [OF assms(1-3)] seal_file_header sealing Inr
      by (fastforce simp: good_file_def)
    with assms(4) sealing frame Inr hv show ?thesis
      by (auto simp: vault_write_def split: sum.splits option.splits prod.splits
          dest!: atomic_write_files)
  qed
qed

lemma vault_invD:
  assumes "vault_inv c (Unlocked u)"
  shows "open_file c (u_file u) (u_key u) = Inr (u_header u, u_entries u)"
    and "length (u_key u) = KEY_LEN" and "wf_header (u_header u)" and "wf_entries (u_entries u)"
  using assms open_file_wf by (auto simp: vault_inv_def)

lemma get_unlocked_Inr [simp]: "get_unlocked s = Inr u \<longleftrightarrow> s = Unlocked u"
  by (cases s) auto

lemma vault_inv_Missing [simp]: "vault_inv c Missing"
  by (simp add: vault_inv_def)

lemma vault_write_inv:
  assumes "crypto_ok (ve_crypto env)" and "wf_header h" and "wf_entries es" and "length key = KEY_LEN"
    and "vault_write env v h key es w = (Inr (h', vf), w')"
    and "u_header u = h'" and "u_key u = key" and "u_entries u = es" and "u_file u = vf"
  shows "vault_inv (ve_crypto env) (Unlocked u)"
  using vault_write_Inr(1) [OF assms(1-3,5)] assms(4,6-9) by (simp add: vault_inv_def)

subsection \<open>The invariant, operation by operation\<close>

lemma unwrap_key_length: "unwrap_key c h pw = Inr key \<Longrightarrow> length key = KEY_LEN"
  by (auto simp: unwrap_key_def key_from_slice_def split: holder.splits option.splits if_splits)

lemma try_password_state:
  assumes "try_password env v pw now w = (r, v', w')"
  shows "v_state v' = v_state v \<and> v_path v' = v_path v"
  using assms
  by (auto simp: try_password_def Let_def
      split: option.splits if_splits prod.splits sum.splits vault_error.splits)

lemma try_password_Inr:
  assumes "try_password env v pw now w = (Inr key, v', w')"
  obtains h where "vault_header (v_state v) = Some h" and "unwrap_key (ve_crypto env) h pw = Inr key"
    and "length key = KEY_LEN" and "v_state v' = v_state v" and "v_path v' = v_path v"
  using assms
  by (auto simp: try_password_def Let_def
      split: option.splits if_splits prod.splits sum.splits vault_error.splits
      dest: unwrap_key_length)

lemma verify_password_state:
  "verify_password env v pw now w = (r, v', w') \<Longrightarrow> v_state v' = v_state v \<and> v_path v' = v_path v"
  by (auto simp: verify_password_def split: sum.splits prod.splits dest!: try_password_state)

lemma wf_entries_insert:
  "wf_entries es \<Longrightarrow> entry_ok i s \<Longrightarrow> length (s_data s) \<le> MAX_SECRET \<Longrightarrow>
   wf_entries (bt_insert i s es)"
  using set_bt_insert [of i s es]
  by (auto simp: wf_entries_def wf_secret_def entry_ok_def bt.ok_insert)

lemma wf_entries_retain: "wf_entries es \<Longrightarrow> wf_entries (bt_retain keep es)"
  by (auto simp: wf_entries_def bt.ok_retain) (auto simp: bt_retain_def)

lemma wf_new_header:
  "length vid = 16 \<Longrightarrow> wf_holder holder \<Longrightarrow>
   wf_header \<lparr>h_vault_id = vid, h_holder = holder, h_body_nonce = replicate NONCE_LEN 0\<rparr>"
  by (simp add: wf_header_def)

lemma vault_change_inv:
  assumes "crypto_ok (ve_crypto env)" and "vault_inv (ve_crypto env) (v_state v)"
    and "\<And>es. wf_entries es \<Longrightarrow> wf_entries (f es)"
  shows "vault_inv (ve_crypto env) (v_state (fst (snd (vault_change env v f result w))))"
proof (cases "v_state v")
  case (Unlocked u)
  note wf = vault_invD [OF assms(2) [unfolded Unlocked]]
  show ?thesis
    using assms(2) Unlocked vault_write_inv [OF assms(1) wf(3) assms(3) [OF wf(4)] wf(2)]
    by (auto simp: vault_change_def Let_def split: sum.splits prod.splits)
qed (use assms(2) in \<open>simp_all add: vault_change_def\<close>)

lemma vault_create_inv:
  assumes "crypto_ok (ve_crypto env)" and "vault_inv (ve_crypto env) (v_state v)"
  shows "vault_inv (ve_crypto env) (v_state (fst (snd (vault_create env v pw params w))))"
  using assms(2)
  by (auto simp: vault_create_def Let_def wf_new_header wf_entries_def
      split: sum.splits prod.splits option.splits
      dest!: random_array_length make_password_slot_wf
      intro!: vault_write_inv [OF assms(1)])

lemma unlock_with_keyring_inv:
  assumes "vault_inv (ve_crypto env) (v_state v)"
  shows "vault_inv (ve_crypto env) (v_state (fst (snd (unlock_with_keyring env v w))))"
  using assms
  by (auto simp: unlock_with_keyring_def vault_inv_def key_from_slice_def
      split: vstate.splits sum.splits option.splits if_splits vault_error.splits prod.splits
      dest: open_file_wf)

lemma vault_unlock_inv:
  assumes "vault_inv (ve_crypto env) (v_state v)"
  shows "vault_inv (ve_crypto env) (v_state (fst (snd (vault_unlock env v pw now w))))"
proof (cases "v_state v")
  case (Locked h bs)
  obtain r v1 w1 where tried: "try_password env v pw now w = (r, v1, w1)" by (metis prod_cases3)
  show ?thesis
  proof (cases r)
    case (Inr key)
    with tried have "length key = KEY_LEN" "v_state v1 = v_state v"
      by (auto elim: try_password_Inr)
    with tried assms Inr Locked show ?thesis
      by (auto simp: vault_unlock_def vault_inv_def
          split: sum.splits vault_error.splits prod.splits)
  qed (use tried assms Locked try_password_state [OF tried] in \<open>simp add: vault_unlock_def\<close>)
qed (use assms in \<open>simp_all add: vault_unlock_def\<close>)

lemma vault_lock_inv:
  assumes "vault_inv c (v_state v)"
  shows "vault_inv c (v_state (vault_lock v))"
  using assms by (auto simp: vault_lock_def vault_inv_def split: vstate.splits dest!: open_file_wf)

lemma set_password_inv:
  assumes "crypto_ok (ve_crypto env)" and "vault_inv (ve_crypto env) (v_state v)"
  shows "vault_inv (ve_crypto env) (v_state (fst (snd (set_password env v pw params rem w))))"
proof (cases "v_state v")
  case (Unlocked u)
  note wf = vault_invD [OF assms(2) [unfolded Unlocked]]
  have "length (h_vault_id (u_header u)) = 16" using wf(3) by (simp add: wf_header_def)
  then show ?thesis
    using assms(2) Unlocked wf(2,4)
    by (cases rem) (auto simp: set_password_def Let_def wf_new_header
        split: sum.splits prod.splits dest!: make_password_slot_wf
        intro!: vault_write_inv [OF assms(1)])
qed (use assms(2) in \<open>simp_all add: set_password_def\<close>)

lemma change_password_inv:
  assumes "crypto_ok (ve_crypto env)" and "vault_inv (ve_crypto env) (v_state v)"
  shows "vault_inv (ve_crypto env) (v_state (fst (snd (change_password env v cur new params now w))))"
proof -
  obtain r v1 w1 where "verify_password env v cur now w = (r, v1, w1)" by (metis prod_cases3)
  with assms(2) verify_password_state [OF this] set_password_inv [OF assms(1), of v1]
  show ?thesis by (simp add: change_password_def split: sum.splits)
qed

lemma remove_password_inv:
  assumes "crypto_ok (ve_crypto env)" and "vault_inv (ve_crypto env) (v_state v)"
  shows "vault_inv (ve_crypto env) (v_state (fst (snd (remove_password env v cur now w))))"
proof -
  obtain r v1 w1 where verify: "verify_password env v cur now w = (r, v1, w1)" by (metis prod_cases3)
  note same = verify_password_state [OF verify]
  show ?thesis
  proof (cases "v_state v")
    case (Unlocked u)
    note wf = vault_invD [OF assms(2) [unfolded Unlocked]]
    have "length (h_vault_id (u_header u)) = 16" using wf(3) by (simp add: wf_header_def)
    then show ?thesis
      using assms(2) Unlocked wf(2,4) verify same
      by (auto simp: remove_password_def Let_def wf_new_header split: sum.splits prod.splits
          intro!: vault_write_inv [OF assms(1)])
  qed (use assms(2) verify same in \<open>auto simp: remove_password_def split: sum.splits\<close>)
qed

lemma set_remember_inv:
  assumes "vault_inv (ve_crypto env) (v_state v)"
  shows "vault_inv (ve_crypto env) (v_state (fst (snd (set_remember env v rem w))))"
  using assms
  by (auto simp: set_remember_def Let_def vault_inv_def split: sum.splits prod.splits if_splits)

lemma vault_reset_inv:
  assumes "vault_inv (ve_crypto env) (v_state v)"
  shows "vault_inv (ve_crypto env) (v_state (fst (snd (vault_reset env v w))))"
  using assms
  by (auto simp: vault_reset_def Let_def split: sum.splits prod.splits option.splits
      io_error.splits)

lemma verify_password_inv:
  assumes "vault_inv (ve_crypto env) (v_state v)"
  shows "vault_inv (ve_crypto env) (v_state (fst (snd (verify_password env v pw now w))))"
proof -
  obtain r v1 w1 where run: "verify_password env v pw now w = (r, v1, w1)" by (metis prod_cases3)
  show ?thesis using assms verify_password_state [OF run] run by simp
qed

lemma vault_store_inv:
  assumes "crypto_ok (ve_crypto env)" and "vault_inv (ve_crypto env) (v_state v)"
  shows "entry_ok i s \<Longrightarrow> vault_inv (ve_crypto env) (v_state (fst (snd (vault_insert env v i s w))))"
    and "entry_ok i s \<Longrightarrow> vault_inv (ve_crypto env) (v_state (fst (snd (vault_replace env v i s w))))"
    and "vault_inv (ve_crypto env) (v_state (fst (snd (vault_retain env v keep w))))"
  using assms(2)
  by (auto simp: vault_insert_def vault_replace_def vault_retain_def Let_def not_less
      split: sum.splits
      intro!: vault_change_inv [OF assms] wf_entries_insert wf_entries_retain)

lemma vault_wait_inv:
  assumes "vault_inv (ve_crypto env) (v_state v)"
  shows "vault_inv (ve_crypto env) (v_state (fst (snd (vault_wait env v now w))))"
  using assms by (simp add: vault_wait_def split: prod.splits)

lemmas vault_op_inv = vault_wait_inv vault_create_inv unlock_with_keyring_inv vault_unlock_inv vault_lock_inv
  set_password_inv change_password_inv remove_password_inv set_remember_inv vault_reset_inv
  verify_password_inv vault_store_inv

lemma vault_step_inv:
  assumes "crypto_ok (ve_crypto env)" and "vault_inv (ve_crypto env) (v_state (fst s))" and "op_ok oper"
  shows "vault_inv (ve_crypto env) (v_state (fst (vault_step env s oper)))"
proof -
  obtain v w where s: "s = (v, w)" by force
  have inv: "vault_inv (ve_crypto env) (v_state v)" using assms(2) s by simp
  show ?thesis
    using assms(3) inv unfolding s
    by (cases oper) (simp_all only: vault_step.simps op_ok.simps assms(1) vault_op_inv
        vault_remove_def fst_conv)
qed

interpretation vm: invariant_machine "vault_step env"
  "\<lambda>s. crypto_ok (ve_crypto env) \<and> vault_inv (ve_crypto env) (v_state (fst s))" op_ok
  for env :: "'s vault_env"
  by unfold_locales (simp add: vault_step_inv)

lemma vault_open_inv: "vault_inv c (v_state (fst (vault_open env path attempts w)))"
  by (auto simp: vault_open_def vault_inv_def Let_def
      split: option.splits sum.splits prod.splits io_error.splits)

subsection \<open>A sample vault\<close>

text \<open>
  A vault as \<open>create\<close> makes it in an empty folder, its key in the store in memory; the world has
  random draws left for what comes after.
\<close>

definition sample_env :: "memory_store vault_env" where
  "sample_env =
     \<lparr>ve_crypto = plain_crypto, ve_store = memory_key_store, ve_ulid_text = \<lambda>i. [i],
      ve_codec = \<lparr>af_to_toml = \<lambda>_. None, af_from_toml = \<lambda>_. None\<rparr>\<rparr>"

definition sample_vault :: vault where
  "sample_vault =
     \<lparr>v_path = Some [1], v_backoff = \<lparr>bo_path = None, bo_failures = 0, bo_last_failure = 0\<rparr>,
      v_state = Missing\<rparr>"

definition sample_start :: "bool list \<Rightarrow> memory_store world" where
  "sample_start fs =
     \<lparr>files = Map.empty, faults = [False, False, False, False, False] @ fs,
      rng = [replicate 16 7, replicate 32 9, replicate 24 1, replicate 16 2, replicate 24 3,
             replicate 24 4, replicate 24 5],
      ring = \<lparr>ms_entries = Map.empty, ms_unavailable = False\<rparr>\<rparr>"

lemma sample_env_simps [simp]:
  "ve_crypto sample_env = plain_crypto" "ve_store sample_env = memory_key_store"
  "ve_codec sample_env = \<lparr>af_to_toml = \<lambda>_. None, af_from_toml = \<lambda>_. None\<rparr>"
  by (simp_all add: sample_env_def)

lemma encode_payload_empty: "\<exists>payload. encode_payload [] = Inr payload"
  by (rule encode_payload_ok) (simp_all add: MAX_PAYLOAD_def)

lemma sample_create:
  obtains u w where "vault_create sample_env sample_vault None RECOMMENDED (sample_start fs) =
      (Inr (), sample_vault\<lparr>v_state := Unlocked u\<rparr>, w)"
    and "u_key u = replicate 32 9" and "u_entries u = []" and "h_vault_id (u_header u) = replicate 16 7"
    and "h_holder (u_header u) = HKeyring" and "u_remembered u = False"
    and "files w = [[1] \<mapsto> u_file u]" and "faults w = fs"
    and "rng w = [replicate 16 2, replicate 24 3, replicate 24 4, replicate 24 5]"
    and "ring w = \<lparr>ms_entries = [entry_name sample_env (replicate 16 7) \<mapsto> replicate 32 9],
                    ms_unavailable = False\<rparr>"
proof -
  let ?name = "entry_name sample_env (replicate 16 7)"
  define h where "h = \<lparr>h_vault_id = replicate 16 7, h_holder = HKeyring, h_body_nonce = replicate 24 1\<rparr>"
  obtain payload where payload: "encode_payload [] = Inr payload" using encode_payload_empty by blast
  obtain body where body: "c_encrypt plain_crypto (replicate 32 9) (replicate 24 1) (header_encode h)
      payload = Some body" by (simp add: plain_crypto_def)
  define u where "u = \<lparr>u_header = h, u_key = replicate 32 9, u_entries = [],
      u_file = header_encode h @ body, u_remembered = False\<rparr>"
  define w :: "memory_store world" where "w = \<lparr>files = [[1] \<mapsto> u_file u], faults = fs,
      rng = [replicate 16 2, replicate 24 3, replicate 24 4, replicate 24 5],
      ring = \<lparr>ms_entries = [?name \<mapsto> replicate 32 9], ms_unavailable = False\<rparr>\<rparr>"
  define ring1 where
    "ring1 = \<lparr>ms_entries = [?name \<mapsto> replicate 32 9], ms_unavailable = False\<rparr>"
  define w0 :: "memory_store world" where
    "w0 = \<lparr>files = Map.empty, faults = [False, False, False, False, False] @ fs,
           rng = replicate 24 1 # rng w, ring = ring1\<rparr>"
  have sealed: "seal_file plain_crypto (h\<lparr>h_body_nonce := replicate 24 0\<rparr>) (replicate 32 9) [] w0 =
      (Inr (h, u_file u), w0\<lparr>rng := rng w\<rparr>)"
    using payload body by (simp add: seal_file_def seal_def random_array_def w0_def u_def h_def
        vault_consts Let_def)
  have written: "atomic_write (w0\<lparr>rng := rng w\<rparr>) [1] (u_file u) = (Inr Written, w)"
    by (simp add: atomic_write_def fs_read_def next_fault_def w0_def w_def ring1_def Let_def)
  have stored: "store_set sample_env (w0\<lparr>ring := ring (sample_start fs)\<rparr>) ?name (replicate 32 9) =
      (Inr (), w0)"
    by (simp add: store_set_def memory_store_defs w0_def ring1_def sample_start_def)
  have "vault_create sample_env sample_vault None RECOMMENDED (sample_start fs) =
      (Inr (), sample_vault\<lparr>v_state := Unlocked u\<rparr>, w)"
    using sealed written stored
    by (simp add: vault_create_def sample_vault_def sample_start_def random_array_def
        vault_write_def vault_consts w0_def u_def h_def w_def)
  then show thesis
    by (rule that) (simp_all add: u_def w_def h_def)
qed

lemma sample_write:
  assumes "faults w = []" and "rng w = n # ns" and "length n = 24" and "encode_payload es = Inr payload"
    and "v_path v = Some p"
  shows "\<exists>h' vf. vault_write sample_env v h key es w =
    (Inr (h', vf), w\<lparr>rng := ns, files := (files w)(p \<mapsto> vf)\<rparr>)"
proof -
  obtain body where body: "c_encrypt plain_crypto key n (header_encode (h\<lparr>h_body_nonce := n\<rparr>)) payload
      = Some body" by (simp add: plain_crypto_def)
  let ?vf = "header_encode (h\<lparr>h_body_nonce := n\<rparr>) @ body"
  have sealed: "seal_file plain_crypto h key es w = (Inr (h\<lparr>h_body_nonce := n\<rparr>, ?vf), w\<lparr>rng := ns\<rparr>)"
    using assms body by (simp add: seal_file_def random_array_def seal_def Let_def vault_consts)
  obtain r where "atomic_write (w\<lparr>rng := ns\<rparr>) p ?vf =
      (Inr r, w\<lparr>rng := ns, files := (files w)(p \<mapsto> ?vf)\<rparr>)"
    using atomic_write_ok [of "w\<lparr>rng := ns\<rparr>" p ?vf] assms(1) by auto
  with sealed assms(5) show ?thesis by (simp add: vault_write_def)
qed

lemma sample_inv:
  assumes "vault_create sample_env sample_vault None RECOMMENDED w0 =
    (Inr (), sample_vault\<lparr>v_state := Unlocked u\<rparr>, w)"
  shows "vault_inv plain_crypto (Unlocked u)"
  using vault_create_inv [of sample_env sample_vault None RECOMMENDED w0] assms plain_crypto_ok
  by (simp add: sample_vault_def)

subsection \<open>The invariant of runs\<close>

text \<open>
  C2: memory and file never disagree. From opening the vault on, after any sequence of
  operations (creating, unlocking, locking, storing, removing, changing the protection,
  resetting), whatever system calls failed and whatever the keyring answered, an unlocked vault
  holds exactly the header and the secrets that its key opens in the bytes it last wrote, and a
  locked vault the header of its bytes.
\<close>

theorem vault_run_consistent:
  assumes "crypto_ok (ve_crypto env)" and "list_all op_ok ops"
  shows "vault_inv (ve_crypto env)
    (v_state (fst (foldl (vault_step env) (vault_open env path attempts w) ops)))"
  using vm.run_inv [of env "vault_open env path attempts w" ops] vault_open_inv assms by blast

theorem vault_run_consistent_witness:
  "list_all op_ok [OpCreate None RECOMMENDED, OpInsert 5 \<lparr>s_kind = KPassword, s_data = [1]\<rparr>, OpLock] \<and>
   vault_inv plain_crypto
     (v_state (fst (foldl (vault_step sample_env) (vault_open sample_env None None (sample_start []))
        [OpCreate None RECOMMENDED, OpInsert 5 \<lparr>s_kind = KPassword, s_data = [1]\<rparr>, OpLock])))"
  using vault_run_consistent [of sample_env
      "[OpCreate None RECOMMENDED, OpInsert 5 \<lparr>s_kind = KPassword, s_data = [1]\<rparr>, OpLock]"
      None None "sample_start []"] plain_crypto_ok
  by (simp add: entry_ok_def del: foldl_Cons)

subsection \<open>Changes are all or nothing\<close>

lemma vault_change_cases:
  assumes ok: "crypto_ok (ve_crypto env)" and inv: "vault_inv (ve_crypto env) (v_state v)"
    and u: "v_state v = Unlocked u" and p: "v_path v = Some p"
    and f: "\<And>es. wf_entries es \<Longrightarrow> wf_entries (f es)"
    and run: "vault_change env v f result w = (r, v', w')"
  shows "(\<exists>e. r = Inl e) \<and> v' = v \<and> (files w' = files w \<or> (\<exists>vf. files w' = (files w)(p \<mapsto> vf) \<and>
           good_file (ve_crypto env) (u_header u) (u_key u) (f (u_entries u)) vf)) \<or>
     r = Inr result \<and> (\<exists>h vf. v' = v\<lparr>v_state := Unlocked (u\<lparr>u_entries := f (u_entries u),
           u_header := h, u_file := vf\<rparr>)\<rparr> \<and> files w' = (files w)(p \<mapsto> vf) \<and>
           good_file (ve_crypto env) (u_header u) (u_key u) (f (u_entries u)) vf)"
proof -
  note wf = vault_invD [OF inv [unfolded u]]
  obtain wr w1 where wrote: "vault_write env v (u_header u) (u_key u) (f (u_entries u)) w = (wr, w1)"
    by force
  show ?thesis
  proof (cases wr)
    case (Inl e)
    then show ?thesis
      using vault_write_Inl(2) [OF ok wf(3) f [OF wf(4)] wrote [unfolded Inl]] wrote run u p
      by (auto simp: vault_change_def)
  next
    case (Inr hv)
    then obtain h vf where "wr = Inr (h, vf)" by (metis surj_pair)
    note eq = this
    note facts = vault_write_Inr [OF ok wf(3) f [OF wf(4)] wrote [unfolded eq]]
    have "good_file (ve_crypto env) (u_header u) (u_key u) (f (u_entries u)) vf"
      using facts by (simp add: good_file_def)
    moreover have "files w1 = (files w)(p \<mapsto> vf)" using facts p by simp
    moreover have "r = Inr result \<and> w' = w1 \<and> v' = v\<lparr>v_state := Unlocked
        (u\<lparr>u_entries := f (u_entries u), u_header := h, u_file := vf\<rparr>)\<rparr>"
      using wrote run u eq by (simp add: vault_change_def)
    ultimately show ?thesis by blast
  qed
qed

text \<open>
  C4: storing a secret is all or nothing. \<open>insert\<close> of a secret that is not too large into an
  unlocked vault either succeeds, and then the vault has the new secret next to all the others
  and the file on disk is the one it holds in memory; or it fails, and then the vault in memory
  is as before and the file on disk is the old one or one that the vault's key opens to the
  secrets with the new one. No other file changes.
\<close>

theorem vault_insert_all_or_nothing:
  assumes "crypto_ok (ve_crypto env)" and "vault_inv (ve_crypto env) (v_state v)"
    and "v_state v = Unlocked u" and "v_path v = Some p"
    and "entry_ok i s" and "length (s_data s) \<le> MAX_SECRET"
    and "vault_insert env v i s w = (r, v', w')"
  shows "(\<forall>q. q \<noteq> p \<longrightarrow> files w' q = files w q) \<and>
    (case r of
       Inr j \<Rightarrow> j = i \<and> vault_get v' i = Inr s \<and> (\<forall>j. j \<noteq> i \<longrightarrow> vault_get v' j = vault_get v j) \<and>
         (\<exists>u'. v_state v' = Unlocked u' \<and> u_key u' = u_key u \<and> files w' p = Some (u_file u'))
     | Inl e \<Rightarrow> v' = v \<and> (files w' p = files w p \<or>
         (\<exists>vf. files w' p = Some vf \<and>
            good_file (ve_crypto env) (u_header u) (u_key u) (bt_insert i s (u_entries u)) vf)))"
proof -
  have run: "vault_change env v (bt_insert i s) i w = (r, v', w')"
    using assms(6,7) by (simp add: vault_insert_def)
  have wf: "wf_entries es \<Longrightarrow> wf_entries (bt_insert i s es)" for es
    using assms(5,6) by (simp add: wf_entries_insert)
  have "bt_ok (u_entries u)"
    using vault_invD(4) [OF assms(2) [unfolded assms(3)]] by (simp add: wf_entries_def)
  then show ?thesis
    using vault_change_cases [OF assms(1-4) wf run] assms(3)
    by (auto simp: vault_get_def bt.lookup_insert)
qed

theorem vault_insert_all_or_nothing_witness:
  "\<exists>v w u p r v' w'. vault_inv plain_crypto (v_state v) \<and> v_state v = Unlocked u \<and>
     v_path v = Some p \<and>
     vault_insert sample_env v 5 \<lparr>s_kind = KPassword, s_data = [104, 105]\<rparr> w = (Inr r, v', w') \<and>
     vault_get v' 5 = Inr \<lparr>s_kind = KPassword, s_data = [104, 105]\<rparr>"
proof -
  let ?s = "\<lparr>s_kind = KPassword, s_data = [104, 105]\<rparr> :: secret"
  obtain u w where made: "vault_create sample_env sample_vault None RECOMMENDED (sample_start []) =
      (Inr (), sample_vault\<lparr>v_state := Unlocked u\<rparr>, w)"
    and "u_entries u = []" "faults w = []"
    "rng w = [replicate 16 2, replicate 24 3, replicate 24 4, replicate 24 5]"
    by (rule sample_create [of "[]"])
  let ?v = "sample_vault\<lparr>v_state := Unlocked u\<rparr>" and ?w = "w\<lparr>rng := tl (rng w)\<rparr>"
  obtain payload where payload: "encode_payload [(5, ?s)] = Inr payload"
    using encode_payload_ok [of "[(5, ?s)]"]
    by (auto simp: wf_secret_def entry_size_def MAX_PAYLOAD_def u32_max_def MAX_SECRET_def)
  obtain h vf w1 where "vault_write sample_env ?v (u_header u) (u_key u) [(5, ?s)] ?w =
      (Inr (h, vf), w1)"
    using sample_write [OF _ _ _ payload, of ?w "replicate 24 3" _ ?v "[1]" "u_header u" "u_key u"]
      \<open>faults w = []\<close> \<open>rng w = _\<close> by (auto simp: sample_vault_def)
  then obtain v' w' where run: "vault_insert sample_env ?v 5 ?s ?w = (Inr 5, v', w')"
    using \<open>u_entries u = []\<close>
    by (auto simp: vault_insert_def vault_change_def MAX_SECRET_def split: prod.splits)
  have inv: "vault_inv (ve_crypto sample_env) (v_state ?v)" using sample_inv [OF made] by simp
  have "vault_get v' 5 = Inr ?s"
    using vault_insert_all_or_nothing [OF _ inv _ _ _ _ run, of u "[1]"] plain_crypto_ok
    by (simp add: sample_vault_def entry_ok_def MAX_SECRET_def)
  moreover have "v_path ?v = Some [1]" by (simp add: sample_vault_def)
  ultimately show ?thesis
    using inv run by (intro exI [of _ ?v] exI [of _ ?w] exI [of _ u] exI) simp
qed

subsection \<open>Opening again\<close>

lemma set_password_Inr:
  assumes run: "set_password env v pw params rem w = (Inr (), v', w')"
  obtains u u' slot w1 where "v_state v = Unlocked u" and "v_state v' = Unlocked u'"
    and "u_key u' = u_key u" and "u_entries u' = u_entries u"
    and "h_vault_id (u_header u') = h_vault_id (u_header u)" and "h_holder (u_header u') = HPassword slot"
    and "make_password_slot (ve_crypto env) (h_vault_id (u_header u)) (u_key u) pw params w =
           (Inr slot, w1)"
    and "v_path v' = v_path v" and "v_backoff v' = v_backoff v"
proof -
  obtain u where u: "v_state v = Unlocked u"
    using run by (cases "v_state v") (auto simp: set_password_def)
  show thesis
    using run u
    by (cases rem) (auto simp: set_password_def Let_def split: prod.splits sum.splits
        dest!: vault_write_header intro!: that)
qed

lemma vault_unlock_Locked:
  assumes "v_state v = Locked h bs" and "unwrap_key (ve_crypto env) h pw = Inr key"
    and "open_file (ve_crypto env) bs key = Inr (h', es)"
    and "fst (backoff_wait (ve_codec env) (v_backoff v) now w) = 0"
  shows "\<exists>v' w' u. vault_unlock env v pw now w = (Inr (), v', w') \<and> v_state v' = Unlocked u \<and>
     u_key u = key \<and> u_entries u = es \<and> u_header u = h'"
proof -
  have "h_holder h \<noteq> HKeyring" using assms(2) by (auto simp: unwrap_key_def)
  with assms show ?thesis
    by (auto simp: vault_unlock_def try_password_def Let_def split: prod.splits)
qed

lemma sample_password:
  obtains u w u1 w1 where "vault_inv plain_crypto (Unlocked u)"
    and "set_password sample_env (sample_vault\<lparr>v_state := Unlocked u\<rparr>) [112, 119] RECOMMENDED False w
      = (Inr (), sample_vault\<lparr>v_state := Unlocked u1\<rparr>, w1)"
    and "vault_inv plain_crypto (Unlocked u1)" and "h_holder (u_header u1) \<noteq> HKeyring"
    and "unwrap_key plain_crypto (u_header u1) [112, 119] = Inr (u_key u1)"
    and "u_entries u1 = []" and "files w1 = [[1] \<mapsto> u_file u1]" and "faults w1 = []"
    and "rng w1 = [replicate 24 5]" and "ring w1 = \<lparr>ms_entries = Map.empty, ms_unavailable = False\<rparr>"
proof -
  obtain u w where made: "vault_create sample_env sample_vault None RECOMMENDED (sample_start []) =
      (Inr (), sample_vault\<lparr>v_state := Unlocked u\<rparr>, w)"
    and w: "u_entries u = []" "faults w = []" "u_key u = replicate 32 9" "files w = [[1] \<mapsto> u_file u]"
      "h_vault_id (u_header u) = replicate 16 7"
    "rng w = [replicate 16 2, replicate 24 3, replicate 24 4, replicate 24 5]"
    "ring w = \<lparr>ms_entries = [entry_name sample_env (replicate 16 7) \<mapsto> replicate 32 9],
                    ms_unavailable = False\<rparr>"
    by (rule sample_create [of "[]"])
  let ?v = "sample_vault\<lparr>v_state := Unlocked u\<rparr>" and ?w = "w\<lparr>rng := drop 2 (rng w)\<rparr>"
  let ?vid = "h_vault_id (u_header u)"
  obtain slot where slot: "make_password_slot plain_crypto ?vid (u_key u) [112, 119] RECOMMENDED w =
      (Inr slot, ?w)"
    using w by (simp add: make_password_slot_def random_array_def derive_key_def argon2_def seal_def
        plain_crypto_def kdf_is_valid_def RECOMMENDED_def vault_consts Let_def)
  obtain payload where payload: "encode_payload [] = Inr payload" using encode_payload_empty by blast
  let ?h = "\<lparr>h_vault_id = ?vid, h_holder = HPassword slot, h_body_nonce = replicate NONCE_LEN 0\<rparr>"
  obtain h vf where wrote: "vault_write sample_env ?v ?h (u_key u) [] ?w =
      (Inr (h, vf), ?w\<lparr>rng := [replicate 24 5], files := (files w)([1] \<mapsto> vf)\<rparr>)"
    using sample_write [OF _ _ _ payload, of ?w "replicate 24 4" "[replicate 24 5]" ?v "[1]" ?h "u_key u"] w
    by (auto simp: sample_vault_def)
  define u1 where "u1 = u\<lparr>u_header := h, u_file := vf, u_remembered := False\<rparr>"
  define w1 where "w1 = w\<lparr>rng := [replicate 24 5], files := [[1] \<mapsto> vf],
      ring := \<lparr>ms_entries = Map.empty, ms_unavailable = False\<rparr>\<rparr>"
  have set: "set_password sample_env ?v [112, 119] RECOMMENDED False w =
      (Inr (), sample_vault\<lparr>v_state := Unlocked u1\<rparr>, w1)"
    using w slot wrote
    by (simp add: set_password_def store_delete_def memory_store_defs Let_def u1_def w1_def)
  note inv = sample_inv [OF made]
  have inv1: "vault_inv plain_crypto (Unlocked u1)"
    using set_password_inv [of sample_env ?v "[112, 119]" RECOMMENDED False w] set inv plain_crypto_ok
    by simp
  have h: "h_vault_id h = ?vid" "h_holder h = HPassword slot"
    using vault_write_header [OF wrote] by simp_all
  have "unwrap_key plain_crypto h [112, 119] = Inr (u_key u)"
    by (rule unwrap_own_password [OF plain_crypto_ok _ slot]) (use h w(3) in \<open>simp_all add: KEY_LEN_def\<close>)
  then show thesis
    using that [OF inv set inv1] w h by (simp add: u1_def w1_def)
qed

text \<open>
  the master password opens the vault again. After \<open>set_password\<close> succeeded, locking the
  vault and unlocking it with that password, at any later time at which no wait is due and in
  any later world, succeeds and gives the same secrets and the same key.
\<close>

theorem password_opens_again:
  assumes ok: "crypto_ok (ve_crypto env)" and inv: "vault_inv (ve_crypto env) (v_state v)"
    and set: "set_password env v pw params rem w = (Inr (), v1, w1)"
    and wait: "fst (backoff_wait (ve_codec env) (v_backoff v) now w2) = 0"
  shows "\<exists>v2 w3 u u2. vault_unlock env (vault_lock v1) pw now w2 = (Inr (), v2, w3) \<and>
    v_state v = Unlocked u \<and> v_state v2 = Unlocked u2 \<and> u_entries u2 = u_entries u \<and>
    u_key u2 = u_key u"
proof -
  obtain u u1 slot w0 where u: "v_state v = Unlocked u" and u1: "v_state v1 = Unlocked u1"
    and same: "u_key u1 = u_key u" "u_entries u1 = u_entries u"
      "h_vault_id (u_header u1) = h_vault_id (u_header u)" "v_backoff v1 = v_backoff v"
    and holder: "h_holder (u_header u1) = HPassword slot"
    and slot: "make_password_slot (ve_crypto env) (h_vault_id (u_header u)) (u_key u) pw params w =
           (Inr slot, w0)"
    using set_password_Inr [OF set] by metis
  have inv1: "vault_inv (ve_crypto env) (Unlocked u1)"
    using set_password_inv [OF ok inv, of pw params rem w] set u1 by simp
  have locked: "v_state (vault_lock v1) = Locked (u_header u1) (u_file u1)"
    "v_backoff (vault_lock v1) = v_backoff v"
    using u1 same by (simp_all add: vault_lock_def)
  have key: "unwrap_key (ve_crypto env) (u_header u1) pw = Inr (u_key u1)"
    using unwrap_own_password [OF ok _ slot same(3) holder] vault_invD(2) [OF inv1] same(1) by simp
  show ?thesis
    using vault_unlock_Locked [OF locked(1) key vault_invD(1) [OF inv1], of now w2] wait locked(2)
      same(1,2) u by auto
qed

theorem password_opens_again_witness:
  "\<exists>v w v1 w1 u v2 w3 u2.
     set_password sample_env v [112, 119] RECOMMENDED False w = (Inr (), v1, w1) \<and>
     v_state v = Unlocked u \<and> vault_unlock sample_env (vault_lock v1) [112, 119] 100 w1 = (Inr (), v2, w3) \<and>
     v_state v2 = Unlocked u2 \<and> u_entries u2 = u_entries u"
proof -
  obtain u w u1 w1 where inv: "vault_inv plain_crypto (Unlocked u)"
    and set: "set_password sample_env (sample_vault\<lparr>v_state := Unlocked u\<rparr>) [112, 119] RECOMMENDED
      False w = (Inr (), sample_vault\<lparr>v_state := Unlocked u1\<rparr>, w1)"
    by (rule sample_password)
  let ?v = "sample_vault\<lparr>v_state := Unlocked u\<rparr>" and ?v1 = "sample_vault\<lparr>v_state := Unlocked u1\<rparr>"
  have "\<exists>v2 w3 u' u2. vault_unlock sample_env (vault_lock ?v1) [112, 119] 100 w1 = (Inr (), v2, w3) \<and>
      v_state ?v = Unlocked u' \<and> v_state v2 = Unlocked u2 \<and> u_entries u2 = u_entries u' \<and>
      u_key u2 = u_key u'"
    by (rule password_opens_again [OF _ _ set])
       (use plain_crypto_ok inv in \<open>simp_all add: backoff_wait_def sample_vault_def
          delay_after_def backoff_consts\<close>)
  with set show ?thesis by blast
qed

end
