(* ===== verification/Vault_Keys.thy ===== *)
theory Vault_Keys
  imports Vault_Laws
begin

text \<open>
  Who can open the vault. \<open>can_reopen\<close> says that the file on disk still opens with the key and,
  when its holder is the keyring, that the keyring has the key. The lemmas that need to know
  what the keyring answers are proved once in \<open>key_store_laws\<close>, for every store. The key is never lost by
  one operation that may fail after operations that did not; two may lose it
  (\<open>forget_after_failed_removal_loses_key\<close>). The last section is about the waits after wrong passwords.
\<close>

definition can_reopen :: "'s vault_env \<Rightarrow> key \<Rightarrow> str \<Rightarrow> 's world \<Rightarrow> bool" where
  "can_reopen env key p w =
     (case files w p of
        None \<Rightarrow> False
      | Some vf \<Rightarrow>
          (case open_file (ve_crypto env) vf key of
             Inl _ \<Rightarrow> False
           | Inr (h, _) \<Rightarrow>
               h_holder h = HKeyring \<longrightarrow>
               ks_get (ve_store env) (ring w) (entry_name env (h_vault_id h)) = Inr (Some key)))"

subsection \<open>What the waits leave alone\<close>

lemma backoff_save_frame [simp]:
  "ring (backoff_save codec b w) = ring w"
  "bo_path b \<noteq> Some p \<Longrightarrow> files (backoff_save codec b w) p = files w p"
  by (auto simp: backoff_save_def split: option.splits)

lemma backoff_frame:
  "backoff_wait codec b now w = (s, b', w') \<Longrightarrow>
     bo_path b' = bo_path b \<and> ring w' = ring w \<and> (bo_path b \<noteq> Some p \<longrightarrow> files w' p = files w p)"
  "backoff_failed codec b now w = (b', w') \<Longrightarrow>
     bo_path b' = bo_path b \<and> ring w' = ring w \<and> (bo_path b \<noteq> Some p \<longrightarrow> files w' p = files w p)"
  "backoff_succeeded b w = (b', w') \<Longrightarrow>
     bo_path b' = bo_path b \<and> ring w' = ring w \<and> (bo_path b \<noteq> Some p \<longrightarrow> files w' p = files w p)"
  by (auto simp: backoff_wait_def backoff_failed_def backoff_succeeded_def Let_def
      split: if_splits option.splits)

lemma try_password_frame:
  assumes "try_password env v pw now w = (r, v', w')" and "bo_path (v_backoff v) \<noteq> Some p"
  shows "bo_path (v_backoff v') \<noteq> Some p \<and> ring w' = ring w \<and> files w' p = files w p"
  using assms
  by (auto simp: try_password_def Let_def
      split: option.splits if_splits prod.splits sum.splits vault_error.splits
      dest!: backoff_frame [where p = p])

lemma verify_password_frame:
  assumes "verify_password env v pw now w = (r, v', w')" and "bo_path (v_backoff v) \<noteq> Some p"
  shows "bo_path (v_backoff v') \<noteq> Some p \<and> ring w' = ring w \<and> files w' p = files w p"
  using assms
  by (auto simp: verify_password_def split: sum.splits prod.splits dest!: try_password_frame)

lemma make_password_slot_frame:
  "make_password_slot c vid key pw params w = (r, w') \<Longrightarrow> ring w' = ring w \<and> files w' = files w"
  by (auto simp: make_password_slot_def Let_def split: prod.splits option.splits
      dest!: random_arrayD)

text \<open>The four ways an attempt on a locked vault goes, and what becomes of the count.\<close>

lemma vault_unlock_cases:
  fixes env :: "'s vault_env"
  assumes "v_state v = Locked h bs" and "h_holder h \<noteq> HKeyring"
    and "vault_unlock env v pw now w = (r, v1, w1)"
  obtains (waits) s where "r = Inl (EWait s)" and "v_state v1 = Locked h bs" and "0 < s"
      and "backoff_wait (ve_codec env) (v_backoff v) now w = (s, v_backoff v1, w1)"
  | (wrong) s b and wb wf :: "'s world" where "r = Inl (EWrongPassword s)" and "v_state v1 = Locked h bs"
      and "unwrap_key (ve_crypto env) h pw = Inl EDecrypt"
      and "backoff_wait (ve_codec env) b now wb = (s, v_backoff v1, wf)"
      and "fst (backoff_wait (ve_codec env) (v_backoff v) now w) = 0"
  | (other) e where "r = Inl e" and "file_error e" and "v_state v1 = Locked h bs"
      and "fst (backoff_wait (ve_codec env) (v_backoff v) now w) = 0"
      and "v_backoff v1 = fst (snd (backoff_wait (ve_codec env) (v_backoff v) now w)) \<or>
        delay_after (bo_failures (v_backoff v1)) = 0"
      and "unwrap_key (ve_crypto env) h pw \<noteq> Inl EDecrypt"
      and "\<And>key x. unwrap_key (ve_crypto env) h pw = Inr key \<Longrightarrow>
        open_file (ve_crypto env) bs key \<noteq> Inr x"
  | (right) key u where "r = Inr ()" and "v_state v1 = Unlocked u"
      and "unwrap_key (ve_crypto env) h pw = Inr key"
      and "open_file (ve_crypto env) bs key = Inr (u_header u, u_entries u)" and "u_key u = key"
      and "u_file u = bs"
      and "fst (backoff_wait (ve_codec env) (v_backoff v) now w) = 0"
proof -
  obtain wait b wb where run: "backoff_wait (ve_codec env) (v_backoff v) now w = (wait, b, wb)"
    by (metis prod_cases3)
  obtain b2 wf where failed: "backoff_failed (ve_codec env) b now wb = (b2, wf)" by force
  obtain wait2 b3 wg where again: "backoff_wait (ve_codec env) b2 now wf = (wait2, b3, wg)"
    by (metis prod_cases3)
  obtain b4 wh where succeeded: "backoff_succeeded b wb = (b4, wh)" by force
  have b4: "delay_after (bo_failures b4) = 0"
    using succeeded by (auto simp: backoff_succeeded_def delay_after_0_iff backoff_consts split: if_splits)
  show thesis
  proof (cases "0 < wait")
    case True
    then show thesis
      using assms run by (intro waits [of wait]) (auto simp: vault_unlock_def try_password_def)
  next
    case zero: False
    show thesis
    proof (cases "unwrap_key (ve_crypto env) h pw")
      case (Inl e)
      show thesis
      proof (cases "e = EDecrypt")
        case True
        then show thesis
          using assms run failed again zero Inl
          by (intro wrong [of wait2 b2 wf wg]) (auto simp: vault_unlock_def try_password_def)
      next
        case False
        then have "try_password env v pw now w = (Inl e, v\<lparr>v_backoff := b\<rparr>, wb)"
          using assms run zero Inl by (cases e) (auto simp: try_password_def)
        then show thesis
          using assms run zero Inl False unwrap_key_file_error [OF Inl]
          by (intro other [of e]) (auto simp: vault_unlock_def)
      qed
    next
      case (Inr key)
      have tried: "try_password env v pw now w = (Inr key, v\<lparr>v_backoff := b4\<rparr>, wh)"
        using assms run zero Inr succeeded by (auto simp: try_password_def)
      show thesis
      proof (cases "open_file (ve_crypto env) bs key")
        case (Inl e)
        define e' where "e' = (if e = EDecrypt then EFormat ''the secrets don't match their key'' else e)"
        have e': "file_error e'" using open_file_file_error [OF Inl] by (simp add: e'_def)
        have "vault_unlock env v pw now w = (Inl e', v\<lparr>v_backoff := b4\<rparr>, wh)"
          unfolding vault_unlock_def assms(1) vstate.case tried prod.case sum.case Inl e'_def
          by (cases e) simp_all
        then have "r = Inl e'" and "v1 = v\<lparr>v_backoff := b4\<rparr>" using assms(3) by simp_all
        then show thesis
          using e' assms(1) b4 run zero Inl Inr by (intro other [of e']) simp_all
      next
        case opened: (Inr x)
        obtain h' es where x: "x = (h', es)" by force
        define u where "u = \<lparr>u_header = h', u_key = key, u_entries = es, u_file = bs,
          u_remembered = (ks_get (ve_store env) (ring wh) (entry_name env (h_vault_id h')) = Inr (Some key))\<rparr>"
        show thesis
          by (rule right [of u key])
             (use assms(1,3) tried opened x run zero Inr in \<open>auto simp: vault_unlock_def u_def\<close>)
      qed
    qed
  qed
qed

subsection \<open>Writes keep the vault openable\<close>

lemma can_reopen_cong:
  "files w' p = files w p \<Longrightarrow> ring w' = ring w \<Longrightarrow> can_reopen env key p w' = can_reopen env key p w"
  unfolding can_reopen_def by presburger

lemma can_reopen_written:
  assumes "files w' p = Some vf" and "good_file (ve_crypto env) h key es vf"
    and "h_holder h = HKeyring \<Longrightarrow>
      ks_get (ve_store env) (ring w') (entry_name env (h_vault_id h)) = Inr (Some key)"
  shows "can_reopen env key p w'"
  using assms by (auto simp: can_reopen_def good_file_def split: sum.splits prod.splits)

lemma vault_write_can_reopen:
  assumes ok: "crypto_ok (ve_crypto env)" "wf_header h" "wf_entries es" and p: "v_path v = Some p"
    and run: "vault_write env v h key es w = (r, w')"
    and held: "h_holder h = HKeyring \<Longrightarrow>
      ks_get (ve_store env) (ring w) (entry_name env (h_vault_id h)) = Inr (Some key)"
    and before: "can_reopen env key p w"
  shows "can_reopen env key p w'"
proof (cases r)
  case (Inl e)
  note facts = vault_write_Inl [OF ok run [unfolded Inl]]
  from facts(2) show ?thesis
  proof
    assume "files w' = files w"
    then show ?thesis using can_reopen_cong [of w' p w env key] facts(1) before by simp
  next
    assume "\<exists>p vf. v_path v = Some p \<and> files w' = (files w)(p \<mapsto> vf) \<and>
      good_file (ve_crypto env) h key es vf"
    then obtain vf where "files w' p = Some vf" "good_file (ve_crypto env) h key es vf"
      using p by auto
    then show ?thesis using held facts(1) by (auto intro: can_reopen_written)
  qed
next
  case (Inr hv)
  obtain h' vf where "r = Inr (h', vf)" using Inr by (metis surj_pair)
  note facts = vault_write_Inr [OF ok run [unfolded this]]
  show ?thesis
    by (rule can_reopen_written [of w' p vf env h key es])
       (use facts p held in \<open>simp_all add: good_file_def\<close>)
qed

context key_store_laws
begin

lemma store_set_can_reopen:
  assumes "ve_store env = store" and "store_set env w name key = (r, w')" and "can_reopen env key p w"
  shows "can_reopen env key p w' \<and> files w' = files w \<and>
    (r = Inr () \<longrightarrow> ks_get store (ring w') name = Inr (Some key))"
proof -
  obtain kr s where set: "ks_set store (ring w) name key = (kr, s)" by force
  then have w': "w' = w\<lparr>ring := s\<rparr>" and r: "r = Inr () \<longleftrightarrow> kr = Inr ()"
    using assms(1,2) by (auto simp: store_set_def split: sum.splits)
  have "ks_get store s m = Inr (Some key)" if "ks_get store (ring w) m = Inr (Some key)" for m
    using get_after_set_cases [OF set, of m] that by auto
  then show ?thesis
    using assms(1,3) w' r get_after_set set
    by (auto simp: can_reopen_def split: option.splits sum.splits prod.splits)
qed

lemma set_password_can_reopen:
  assumes store: "ve_store env = store" and ok: "crypto_ok (ve_crypto env)"
    and inv: "vault_inv (ve_crypto env) (v_state v)" and p: "v_path v = Some p"
    and key: "\<And>u. v_state v = Unlocked u \<Longrightarrow> u_key u = key"
    and before: "can_reopen env key p w"
    and run: "set_password env v pw params rem w = (r, v', w')"
  shows "can_reopen env key p w'"
proof (cases "v_state v")
  case (Unlocked u)
  note wf = vault_invD [OF inv [unfolded Unlocked]]
  let ?vid = "h_vault_id (u_header u)"
  obtain sr w1 where slot: "make_password_slot (ve_crypto env) ?vid key pw params w = (sr, w1)" by force
  have w1: "can_reopen env key p w1"
    using before make_password_slot_frame [OF slot] can_reopen_cong by metis
  show ?thesis
  proof (cases sr)
    case (Inl e)
    with run Unlocked slot key w1 show ?thesis by (auto simp: set_password_def)
  next
    case (Inr slot')
    let ?h = "\<lparr>h_vault_id = ?vid, h_holder = HPassword slot', h_body_nonce = replicate NONCE_LEN 0\<rparr>"
    have wfh: "wf_header ?h"
      using wf(3) make_password_slot_wf [OF slot [unfolded Inr]]
      by (intro wf_new_header) (simp_all add: wf_header_def)
    obtain r2 w2 where set: "(if rem then store_set env w1 (entry_name env ?vid) key else (Inr (), w1))
        = (r2, w2)" by force
    have w2: "can_reopen env key p w2"
      using set w1 store_set_can_reopen [OF store _ w1] by (auto split: if_splits)
    obtain r3 w3 where wrote: "vault_write env v ?h key (u_entries u) w2 = (r3, w3)" by force
    have w3: "can_reopen env key p w3"
      using vault_write_can_reopen [OF ok wfh wf(4) p wrote _ w2] by simp
    show ?thesis
    proof (cases "\<exists>hv. r2 = Inr () \<and> \<not> rem \<and> r3 = Inr hv")
      case True
      then obtain h' vf where r3: "r3 = Inr (h', vf)" by (metis surj_pair)
      note facts = vault_write_Inr [OF ok wfh wf(4) wrote [unfolded r3]]
      have "files w' p = Some vf"
        using run Unlocked key slot Inr set wrote r3 True facts(5) p
        by (auto simp: set_password_def store_delete_def Let_def split: prod.splits)
      then show ?thesis
        by (rule can_reopen_written [where h = ?h and es = "u_entries u"])
           (use facts in \<open>simp_all add: good_file_def\<close>)
    next
      case False
      then have "w' = w3 \<or> w' = w2"
        using run Unlocked key slot Inr set wrote
        by (auto simp: set_password_def Let_def split: sum.splits prod.splits if_splits)
      with w2 w3 show ?thesis by blast
    qed
  qed
qed (use run before in \<open>auto simp: set_password_def\<close>)

lemma remove_password_can_reopen:
  assumes store: "ve_store env = store" and ok: "crypto_ok (ve_crypto env)"
    and inv: "vault_inv (ve_crypto env) (v_state v)" and p: "v_path v = Some p"
    and key: "\<And>u. v_state v = Unlocked u \<Longrightarrow> u_key u = key"
    and bo: "bo_path (v_backoff v) \<noteq> Some p" and before: "can_reopen env key p w"
    and run: "remove_password env v pw now w = (r, v', w')"
  shows "can_reopen env key p w'"
proof -
  obtain r1 v1 w1 where verify: "verify_password env v pw now w = (r1, v1, w1)" by (metis prod_cases3)
  note same = verify_password_state [OF verify] verify_password_frame [OF verify bo]
  have w1: "can_reopen env key p w1" using before same can_reopen_cong by metis
  show ?thesis
  proof (cases "\<exists>u. r1 = Inr () \<and> v_state v = Unlocked u")
    case True
    then obtain u where u: "r1 = Inr ()" "v_state v = Unlocked u" by blast
    note wf = vault_invD [OF inv [unfolded u]]
    let ?vid = "h_vault_id (u_header u)"
    let ?h = "\<lparr>h_vault_id = ?vid, h_holder = HKeyring, h_body_nonce = replicate NONCE_LEN 0\<rparr>"
    have wfh: "wf_header ?h" using wf(3) by (simp add: wf_header_def)
    obtain r2 w2 where set: "store_set env w1 (entry_name env ?vid) key = (r2, w2)" by force
    note stored = store_set_can_reopen [OF store set w1]
    obtain r3 w3 where wrote: "vault_write env v1 ?h key (u_entries u) w2 = (r3, w3)" by force
    show ?thesis
    proof (cases r2)
      case (Inl e)
      with run verify u same set key stored show ?thesis by (auto simp: remove_password_def)
    next
      case (Inr x)
      have "can_reopen env key p w3"
        using vault_write_can_reopen [OF ok wfh wf(4) _ wrote] stored Inr same p store by simp
      with run verify u same set key Inr wrote show ?thesis
        by (auto simp: remove_password_def Let_def split: sum.splits prod.splits)
    qed
  next
    case False
    with run verify same w1 show ?thesis
      by (cases "v_state v") (auto simp: remove_password_def split: sum.splits)
  qed
qed

lemma set_remember_can_reopen:
  assumes store: "ve_store env = store" and inv: "vault_inv (ve_crypto env) (v_state v)"
    and u: "v_state v = Unlocked u" and sync: "files w p = Some (u_file u)"
    and before: "can_reopen env (u_key u) p w" and run: "set_remember env v rem w = (r, v', w')"
  shows "can_reopen env (u_key u) p w'"
proof (cases "h_holder (u_header u) = HKeyring")
  case False
  note opens = vault_invD(1) [OF inv [unfolded u]]
  show ?thesis
  proof (cases rem)
    case True
    with run u False store_set_can_reopen [OF store _ before] show ?thesis
      by (auto simp: set_remember_def Let_def split: sum.splits prod.splits)
  next
    case forget: False
    with run u False sync have "files w' p = Some (u_file u)"
      by (auto simp: set_remember_def store_delete_def Let_def split: sum.splits prod.splits)
    with opens False show ?thesis by (simp add: can_reopen_def)
  qed
qed (use run u before in \<open>auto simp: set_remember_def\<close>)

lemma vault_change_can_reopen:
  assumes ok: "crypto_ok (ve_crypto env)" and inv: "vault_inv (ve_crypto env) (v_state v)"
    and p: "v_path v = Some p" and u: "v_state v = Unlocked u" and sync: "files w p = Some (u_file u)"
    and f: "\<And>es. wf_entries es \<Longrightarrow> wf_entries (f es)"
    and before: "can_reopen env (u_key u) p w"
  shows "can_reopen env (u_key u) p (snd (snd (vault_change env v f result w)))"
proof -
  note wf = vault_invD [OF inv [unfolded u]]
  obtain r1 w1 where wrote: "vault_write env v (u_header u) (u_key u) (f (u_entries u)) w = (r1, w1)"
    by force
  have "h_holder (u_header u) = HKeyring \<Longrightarrow>
      ks_get (ve_store env) (ring w) (entry_name env (h_vault_id (u_header u))) = Inr (Some (u_key u))"
    using before sync wf(1) by (simp add: can_reopen_def)
  then have "can_reopen env (u_key u) p w1"
    using vault_write_can_reopen [OF ok wf(3) f [OF wf(4)] p wrote _ before] by blast
  with u wrote show ?thesis
    by (auto simp: vault_change_def Let_def split: sum.splits prod.splits)
qed

lemma vault_step_can_reopen:
  assumes store: "ve_store env = store" and ok: "crypto_ok (ve_crypto env)"
    and inv: "vault_inv (ve_crypto env) (v_state v)" and p: "v_path v = Some p"
    and bo: "bo_path (v_backoff v) \<noteq> Some p"
    and u: "v_state v = Unlocked u" and sync: "files w p = Some (u_file u)"
    and before: "can_reopen env (u_key u) p w" and oper: "op_ok oper" "oper \<noteq> OpReset"
  shows "can_reopen env (u_key u) p (snd (vault_step env (v, w) oper))"
proof -
  note change = vault_change_can_reopen [OF ok inv p u sync _ before]
  note set = set_password_can_reopen [OF store ok inv p _ before]
  note remove = remove_password_can_reopen [OF store ok inv p _ bo before]
  note remember = set_remember_can_reopen [OF store inv u sync before]
  show ?thesis
  proof (cases oper)
    case (OpVerify pw now)
    obtain r v1 w1 where run: "verify_password env v pw now w = (r, v1, w1)" by (metis prod_cases3)
    with verify_password_frame [OF run bo] OpVerify before can_reopen_cong [of w1 p w]
    show ?thesis by simp
  next
    case (OpWait now)
    obtain s b w1 where run: "backoff_wait (ve_codec env) (v_backoff v) now w = (s, b, w1)"
      by (metis prod_cases3)
    with backoff_frame(1) [OF run, of p] bo OpWait before can_reopen_cong [of w1 p w]
    show ?thesis by (simp add: vault_wait_def)
  next
    case (OpChangePassword cur new params now)
    obtain r v1 w1 where run: "verify_password env v cur now w = (r, v1, w1)" by (metis prod_cases3)
    note same = verify_password_state [OF run] verify_password_frame [OF run bo]
    have w1: "can_reopen env (u_key u) p w1" using same before can_reopen_cong [of w1 p w] by simp
    obtain r2 v2 w2 where run2: "set_password env v1 new params (vault_remembered (v_state v1)) w1 =
        (r2, v2, w2)" by (metis prod_cases3)
    have "can_reopen env (u_key u) p w2"
      using set_password_can_reopen [OF store ok _ _ _ w1 run2] same inv p u by simp
    with run run2 w1 OpChangePassword show ?thesis
      by (auto simp: change_password_def split: sum.splits)
  next
    case (OpSetPassword pw params rem)
    with u set [of pw params rem] show ?thesis
      by (cases "set_password env v pw params rem w") auto
  next
    case (OpRemovePassword pw now)
    with u remove [of pw now] show ?thesis
      by (cases "remove_password env v pw now w") auto
  next
    case (OpSetRemember rem)
    with remember [of rem] show ?thesis by (cases "set_remember env v rem w") auto
  qed (use u before oper in \<open>auto simp: vault_create_def unlock_with_keyring_def
      vault_unlock_def vault_insert_def vault_replace_def vault_remove_def vault_retain_def Let_def
      not_less intro!: change wf_entries_insert wf_entries_retain\<close>)
qed

end

subsection \<open>A vault in step with its file\<close>

text \<open>
  The file on disk is the one the vault wrote or read last, and somebody can open it: the key is
  in the keyring when the keyring is its holder. \<open>create\<close> leaves such a state, and so does every
  operation that succeeds.
\<close>

definition vault_in_step :: "'s vault_env \<Rightarrow> str \<Rightarrow> vault \<times> 's world \<Rightarrow> bool" where
  "vault_in_step env p c \<longleftrightarrow>
     v_path (fst c) = Some p \<and> bo_path (v_backoff (fst c)) \<noteq> Some p \<and>
     vault_inv (ve_crypto env) (v_state (fst c)) \<and>
     (case v_state (fst c) of
        Unlocked u \<Rightarrow> files (snd c) p = Some (u_file u) \<and> can_reopen env (u_key u) p (snd c)
      | Locked h bs \<Rightarrow> files (snd c) p = Some bs \<and> (\<exists>key. can_reopen env key p (snd c))
      | _ \<Rightarrow> False)"

lemma answered_run: "map_sum id g (fst r) = Inr a \<Longrightarrow> snd r = c \<Longrightarrow> \<exists>x. r = (Inr x, c) \<and> a = g x"
  by (cases r; cases "fst r") auto

lemma change_in_step:
  assumes "crypto_ok (ve_crypto env)" and "vault_inv (ve_crypto env) (v_state v)"
    and "v_state v = Unlocked u" and "v_path v = Some p"
    and "\<And>es. wf_entries es \<Longrightarrow> wf_entries (f es)"
    and "map_sum id g (fst (vault_change env v f result w)) = Inr a"
    and "snd (vault_change env v f result w) = (v', w')"
  shows "\<exists>u'. v_state v' = Unlocked u' \<and> u_key u' = u_key u \<and> files w' p = Some (u_file u') \<and>
    v_path v' = Some p \<and> v_backoff v' = v_backoff v"
proof -
  obtain x where "vault_change env v f result w = (Inr x, v', w')"
    using answered_run [OF assms(6,7)] by blast
  from vault_change_cases [OF assms(1-5) this] assms(4) show ?thesis by auto
qed

lemma set_password_in_step:
  assumes "crypto_ok (ve_crypto env)" and "vault_inv (ve_crypto env) (v_state v)" and "v_path v = Some p"
    and run: "set_password env v pw params rem w = (Inr (), v', w')"
  shows "\<exists>u u'. v_state v = Unlocked u \<and> v_state v' = Unlocked u' \<and> u_key u' = u_key u \<and>
    files w' p = Some (u_file u') \<and> v_path v' = Some p \<and> v_backoff v' = v_backoff v"
proof -
  obtain u where u: "v_state v = Unlocked u" using set_password_Inr [OF run] by metis
  note wf = vault_invD [OF assms(2) [unfolded u]]
  have wfh: "wf_header \<lparr>h_vault_id = h_vault_id (u_header u), h_holder = HPassword slot,
      h_body_nonce = replicate NONCE_LEN 0\<rparr>"
    if "make_password_slot (ve_crypto env) (h_vault_id (u_header u)) (u_key u) pw params w = (Inr slot, w1)"
    for slot w1
    using wf(3) make_password_slot_wf [OF that] by (intro wf_new_header) (simp_all add: wf_header_def)
  show ?thesis
    using run u assms(3) vault_write_Inr(5) [OF assms(1) wfh wf(4)]
    by (cases rem) (auto simp: set_password_def store_delete_def Let_def split: prod.splits sum.splits)
qed

lemma remove_password_in_step:
  assumes "crypto_ok (ve_crypto env)" and "vault_inv (ve_crypto env) (v_state v)" and "v_path v = Some p"
    and bo: "bo_path (v_backoff v) \<noteq> Some p"
    and run: "remove_password env v pw now w = (Inr (), v', w')"
  shows "\<exists>u u'. v_state v = Unlocked u \<and> v_state v' = Unlocked u' \<and> u_key u' = u_key u \<and>
    files w' p = Some (u_file u') \<and> v_path v' = Some p \<and> bo_path (v_backoff v') \<noteq> Some p"
proof -
  obtain r1 v1 w1 where verify: "verify_password env v pw now w = (r1, v1, w1)" by (metis prod_cases3)
  note same = verify_password_state [OF verify] verify_password_frame [OF verify bo]
  obtain u where u: "v_state v = Unlocked u"
    using run verify same by (cases "v_state v") (auto simp: remove_password_def split: sum.splits)
  note wf = vault_invD [OF assms(2) [unfolded u]]
  have wfh: "wf_header \<lparr>h_vault_id = h_vault_id (u_header u), h_holder = HKeyring,
      h_body_nonce = replicate NONCE_LEN 0\<rparr>"
    using wf(3) by (simp add: wf_header_def)
  show ?thesis
    using run u verify same assms(3) vault_write_Inr(5) [OF assms(1) wfh wf(4)]
    by (auto simp: remove_password_def Let_def split: prod.splits sum.splits)
qed

lemma created_in_step_file:
  assumes "crypto_ok (ve_crypto env)" and "v_path v = Some p"
    and run: "vault_create env v pw params w = (Inr (), v', w')"
  shows "\<exists>u. v' = v\<lparr>v_state := Unlocked u\<rparr> \<and> files w' p = Some (u_file u)"
proof -
  have "wf_header \<lparr>h_vault_id = vid, h_holder = holder, h_body_nonce = replicate NONCE_LEN 0\<rparr>"
    if "length vid = 16" "wf_holder holder" for vid holder
    by (rule wf_new_header [OF that])
  then show ?thesis
    using run assms(2)
    by (auto simp: vault_create_def Let_def wf_entries_def split: sum.splits prod.splits option.splits if_splits
        dest!: random_array_length make_password_slot_wf vault_write_Inr(5) [OF assms(1), rotated 2])
qed

lemma v_state_update_eq [simp]: "v\<lparr>v_state := s\<rparr> = v\<lparr>v_state := s'\<rparr> \<longleftrightarrow> s = s'"
  by (cases v) simp

text \<open>What the operations do that need an open vault, when it is not open: nothing.\<close>

lemma closed_op:
  assumes "get_unlocked (v_state v) = Inl e"
  shows "fst (snd (vault_insert env v i x w)) = v \<and> snd (snd (vault_insert env v i x w)) = w"
    and "fst (snd (vault_replace env v i x w)) = v \<and> snd (snd (vault_replace env v i x w)) = w"
    and "vault_retain env v keep w = (Inl e, v, w)"
    and "vault_remove env v ids w = (Inl e, v, w)"
    and "verify_password env v pw now w = (Inl e, v, w)"
    and "set_password env v pw params rem w = (Inl e, v, w)"
    and "change_password env v cur pw params now w = (Inl e, v, w)"
    and "remove_password env v pw now w = (Inl e, v, w)"
    and "set_remember env v rem w = (Inl e, v, w)"
  using assms
  by (simp_all add: vault_insert_def vault_replace_def vault_retain_def vault_remove_def
      vault_change_def verify_password_def set_password_def change_password_def
      remove_password_def set_remember_def)

lemma locked_op_frame:
  assumes locked: "v_state v = Locked h bs" and "oper \<noteq> OpReset"
    and bo: "bo_path (v_backoff v) \<noteq> Some p" and run: "vault_step env (v, w) oper = (v', w')"
  shows "files w' p = files w p \<and> ring w' = ring w \<and> v_path v' = v_path v \<and>
    bo_path (v_backoff v') \<noteq> Some p"
proof -
  have closed: "get_unlocked (v_state v) = Inl ELocked" using locked by simp
  show ?thesis
  proof (cases oper)
    case (OpUnlock pw now)
    obtain r v1 w1 where tried: "try_password env v pw now w = (r, v1, w1)" by (metis prod_cases3)
    have "w' = w1 \<and> v_path v' = v_path v1 \<and> v_backoff v' = v_backoff v1"
      using run OpUnlock locked tried
      by (auto simp: vault_unlock_def split: sum.splits prod.splits vault_error.splits)
    with try_password_frame [OF tried bo] try_password_state [OF tried] show ?thesis by simp
  next
    case (OpWait now)
    obtain s b w1 where waited: "backoff_wait (ve_codec env) (v_backoff v) now w = (s, b, w1)"
      by (metis prod_cases3)
    with backoff_frame(1) [OF waited, of p] OpWait bo run show ?thesis by (auto simp: vault_wait_def)
  next
    case OpUnlockKeyring
    with run locked bo show ?thesis
      by (auto simp: unlock_with_keyring_def split: sum.splits option.splits prod.splits vault_error.splits)
  next
    case OpLock
    with run locked bo show ?thesis by (auto simp: vault_lock_def)
  next
    case (OpCreate pw params)
    with run locked bo show ?thesis by (auto simp: vault_create_def)
  qed (use assms closed_op [OF closed, where w = w and env = env] in
      \<open>simp_all add: prod_eq_iff [of _ "(v', w')"]\<close>)
qed

context key_store_laws
begin

lemma created_in_step:
  assumes store: "ve_store env = store" and ok: "crypto_ok (ve_crypto env)" and p: "v_path v = Some p"
    and bo: "bo_path (v_backoff v) \<noteq> Some p"
    and run: "vault_create env v pw params w = (Inr (), v', w')"
  shows "vault_in_step env p (v', w')"
proof -
  obtain u where u: "v' = v\<lparr>v_state := Unlocked u\<rparr>" "files w' p = Some (u_file u)"
    using created_in_step_file [OF ok p run] by blast
  have missing: "v_state v = Missing" using run by (auto simp: vault_create_def split: if_splits)
  have inv: "vault_inv (ve_crypto env) (Unlocked u)"
    using vault_create_inv [OF ok, of v pw params w] run u missing by simp
  note opens = vault_invD(1) [OF inv]
  have ring: "vault_write env v h k es w1 = (r, w2) \<Longrightarrow> ring w2 = ring w1" for h k es w1 r w2
    by (auto simp: vault_write_def split: prod.splits sum.splits option.splits
        dest!: seal_file_frame atomic_write_frame)
  have "ks_get (ve_store env) (ring w') (entry_name env (h_vault_id (u_header u))) = Inr (Some (u_key u))"
    if "h_holder (u_header u) = HKeyring"
  proof (cases pw)
    case None
    then show ?thesis
      using run u get_after_set store ring
      by (auto simp: vault_create_def store_set_def Let_def split: sum.splits prod.splits option.splits if_splits
          dest: vault_write_header)
  next
    case (Some pw')
    then show ?thesis
      using run u that
      by (auto simp: vault_create_def Let_def split: sum.splits prod.splits option.splits if_splits
          dest!: vault_write_header)
  qed
  then have "can_reopen env (u_key u) p w'" using u(2) opens by (simp add: can_reopen_def)
  with u p bo inv show ?thesis by (simp add: vault_in_step_def)
qed

lemma step_can_reopen:
  assumes store: "ve_store env = store" and ok: "crypto_ok (ve_crypto env)"
    and c: "vault_in_step env p c" and oper: "op_ok oper" "oper \<noteq> OpReset"
  shows "\<exists>key. (\<forall>u. v_state (fst c) = Unlocked u \<longrightarrow> u_key u = key) \<and>
    can_reopen env key p (snd (vault_step env c oper))"
proof -
  obtain v w where vw: "c = (v, w)" by force
  obtain v' w' where run: "vault_step env (v, w) oper = (v', w')" by force
  show ?thesis
  proof (cases "v_state v")
    case (Unlocked u)
    then show ?thesis
      using vault_step_can_reopen [OF store ok _ _ _ Unlocked, of p w oper] c oper vw
      by (auto simp: vault_in_step_def)
  next
    case (Locked h bs)
    with c vw obtain key where "can_reopen env key p w" "bo_path (v_backoff v) \<noteq> Some p"
      by (auto simp: vault_in_step_def)
    with locked_op_frame [OF Locked oper(2) _ run] run vw
    have "can_reopen env key p w'" using can_reopen_cong [of w' p w env key] by simp
    with Locked run vw show ?thesis by auto
  qed (use c vw in \<open>simp_all add: vault_in_step_def\<close>)
qed

lemma locked_in_step:
  assumes store: "ve_store env = store" and ok: "crypto_ok (ve_crypto env)"
    and c: "vault_in_step env p (v, w)" and locked: "v_state v = Locked h bs" and oper: "op_ok oper" "oper \<noteq> OpReset"
    and run: "vault_step env (v, w) oper = (v', w')"
  shows "vault_in_step env p (v', w')"
proof -
  obtain key where key: "can_reopen env key p w" and bo: "bo_path (v_backoff v) \<noteq> Some p"
    and disk: "files w p = Some bs" and p: "v_path v = Some p"
    using c locked by (auto simp: vault_in_step_def)
  note frame = locked_op_frame [OF locked oper(2) bo run]
  have reopen: "can_reopen env k p w' = can_reopen env k p w" for k
    using frame can_reopen_cong by blast
  have inv: "vault_inv (ve_crypto env) (v_state v')"
    using vault_step_inv [OF ok _ oper(1), of "(v, w)"] c run by (simp add: vault_in_step_def)
  obtain start where header: "read_header bs = Inr (h, start)"
    using c locked by (auto simp: vault_in_step_def vault_inv_def split: sum.splits prod.splits)
  have closed: "get_unlocked (v_state v) = Inl ELocked" using locked by simp
  have open_header: "open_file (ve_crypto env) bs k = Inr (h', es) \<Longrightarrow>
      h' = h \<and> open_file (ve_crypto env) bs k = Inr (h, es)" for k h' es
    using open_file_wf header by fastforce
  consider "v_state v' = Locked h bs" |
    u where "v_state v' = Unlocked u" "u_file u = bs" "u_header u = h"
      "open_file (ve_crypto env) bs (u_key u) = Inr (h, u_entries u)"
      "h_holder h = HKeyring \<Longrightarrow> ks_get store (ring w) (entry_name env (h_vault_id h)) = Inr (Some (u_key u))"
  proof (cases oper)
    case (OpUnlock pw now)
    show thesis
    proof (cases "h_holder h = HKeyring")
      case True
      then show thesis
        using OpUnlock locked run that(1) by (auto simp: vault_unlock_def try_password_def)
    next
      case False
      obtain r where "vault_unlock env v pw now w = (r, v', w')"
        using run OpUnlock by (cases "vault_unlock env v pw now w") auto
      with locked False show thesis
      proof (cases rule: vault_unlock_cases)
        case (right key u)
        then show thesis using that(2) [of u] False header open_file_wf by fastforce
      qed (use that(1) in auto)
    qed
  next
    case OpUnlockKeyring
    then have run: "snd (unlock_with_keyring env v w) = (v', w')" using run by simp
    show thesis
    proof (cases "\<exists>k h' es. ks_get store (ring w) (entry_name env (h_vault_id h)) = Inr (Some k) \<and>
        key_from_slice k = Some k \<and> open_file (ve_crypto env) bs k = Inr (h', es)")
      case True
      then obtain k h' es where k: "ks_get store (ring w) (entry_name env (h_vault_id h)) = Inr (Some k)"
          "key_from_slice k = Some k" "open_file (ve_crypto env) bs k = Inr (h', es)"
        by blast
      with run locked store open_header [OF k(3)] show thesis
        by (intro that(2)) (auto simp: unlock_with_keyring_def)
    next
      case False
      then have "v' = v"
        using run locked store
        by (auto simp: unlock_with_keyring_def key_from_slice_def
            split: sum.splits option.splits vault_error.splits if_splits)
      with locked that(1) show thesis by simp
    qed
  next
    case (OpWait now)
    then show thesis using run locked that(1) by (auto simp: vault_wait_def split: prod.splits)
  qed (use run locked that(1) oper closed_op [OF closed, where w = w and env = env] in
      \<open>simp_all add: prod_eq_iff [of _ "(v', w')"] vault_create_def vault_lock_def\<close>)
  then show ?thesis
  proof cases
    case 1
    with frame inv p bo disk key reopen show ?thesis by (auto simp: vault_in_step_def)
  next
    case (2 u)
    then have "can_reopen env (u_key u) p w" using disk store by (simp add: can_reopen_def)
    with 2 frame inv p bo disk reopen show ?thesis by (auto simp: vault_in_step_def)
  qed
qed

end

subsection \<open>The key is never lost\<close>

context key_store_laws
begin

lemma step_in_step:
  assumes store: "ve_store env = store" and ok: "crypto_ok (ve_crypto env)"
    and c: "vault_in_step env p c" and oper: "op_ok oper" "oper \<noteq> OpReset"
    and answered: "vault_answer env c oper = Inr a"
  shows "vault_in_step env p (vault_step env c oper)"
proof -
  obtain v w where vw: "c = (v, w)" by force
  obtain v' w' where run: "vault_step env (v, w) oper = (v', w')" by force
  show ?thesis
  proof (cases "v_state v")
    case (Locked h bs)
    with locked_in_step [OF store ok c [unfolded vw] _ oper run] run vw show ?thesis by simp
  next
    case (Unlocked u)
    have p: "v_path v = Some p" and bo: "bo_path (v_backoff v) \<noteq> Some p"
      and inv: "vault_inv (ve_crypto env) (v_state v)" and disk: "files w p = Some (u_file u)"
      and before: "can_reopen env (u_key u) p w"
      using c vw Unlocked by (auto simp: vault_in_step_def)
    have reopen: "can_reopen env (u_key u) p w'"
      using step_can_reopen [OF store ok c oper] vw run Unlocked by auto
    have inv': "vault_inv (ve_crypto env) (v_state v')"
      using vault_step_inv [OF ok _ oper(1), of "(v, w)"] inv run by simp
    note change = change_in_step [OF ok inv Unlocked p]
    have "v_path v' = Some p \<and> bo_path (v_backoff v') \<noteq> Some p \<and>
      ((\<exists>u'. v_state v' = Unlocked u' \<and> u_key u' = u_key u \<and> files w' p = Some (u_file u')) \<or>
       (\<exists>h. v_state v' = Locked h (u_file u) \<and> files w' p = Some (u_file u)))"
    proof (cases oper)
      case (OpInsert i x)
      with run answered vw p bo oper(1) show ?thesis
        using change [where f = "bt_insert i x" and result = i]
        by (fastforce simp: vault_insert_def not_less wf_entries_insert split: if_splits)
    next
      case (OpReplace i x)
      with run answered vw p bo oper(1) show ?thesis
        using change [where f = "bt_insert i x" and result = "()"]
        by (fastforce simp: vault_replace_def not_less wf_entries_insert split: if_splits)
    next
      case (OpRetain keep)
      with run answered vw p bo Unlocked disk show ?thesis
        using change [where g = ACount and f = "bt_retain keep"]
        by (fastforce simp: vault_retain_def wf_entries_retain Let_def split: if_splits)
    next
      case (OpRemove ids)
      with run answered vw p bo Unlocked disk show ?thesis
        using change [where g = ACount and f = "bt_retain (\<lambda>i. i \<notin> set ids)"]
        by (fastforce simp: vault_remove_def vault_retain_def wf_entries_retain Let_def split: if_splits)
    next
      case (OpSetPassword pw params rem)
      then have "set_password env v pw params rem w = (Inr (), v', w')"
        using answered_run run answered vw by fastforce
      from set_password_in_step [OF ok inv p this] bo Unlocked show ?thesis by auto
    next
      case (OpChangePassword cur new params now)
      obtain r v1 w1 where verify: "verify_password env v cur now w = (r, v1, w1)" by (metis prod_cases3)
      note same = verify_password_state [OF verify] verify_password_frame [OF verify bo]
      have "set_password env v1 new params (vault_remembered (v_state v1)) w1 = (Inr (), v', w')"
        using run answered vw OpChangePassword verify
          answered_run [of "\<lambda>_. ADone" "set_password env v1 new params (vault_remembered (v_state v1)) w1" a]
        by (cases r) (auto simp: change_password_def)
      from set_password_in_step [OF ok _ _ this] same inv p Unlocked show ?thesis by auto
    next
      case (OpRemovePassword cur now)
      then have "remove_password env v cur now w = (Inr (), v', w')"
        using answered_run run answered vw by fastforce
      from remove_password_in_step [OF ok inv p bo this] Unlocked show ?thesis by auto
    next
      case (OpVerify pw now)
      obtain r v1 w1 where verify: "verify_password env v pw now w = (r, v1, w1)" by (metis prod_cases3)
      note same = verify_password_state [OF verify] verify_password_frame [OF verify bo]
      with OpVerify run verify p Unlocked disk show ?thesis by auto
    next
      case (OpWait now)
      obtain s b w1 where waited: "backoff_wait (ve_codec env) (v_backoff v) now w = (s, b, w1)"
        by (metis prod_cases3)
      with backoff_frame(1) [OF waited, of p] OpWait bo run p Unlocked disk show ?thesis
        by (auto simp: vault_wait_def)
    next
      case (OpSetRemember rem)
      with run answered vw p bo Unlocked disk show ?thesis
        by (auto simp: set_remember_def store_set_def store_delete_def Let_def
            split: if_splits prod.splits sum.splits)
    qed (use run answered vw p bo Unlocked disk oper in \<open>auto simp: vault_create_def
        unlock_with_keyring_def vault_unlock_def vault_lock_def\<close>)
    with inv' reopen run vw show ?thesis by (auto simp: vault_in_step_def)
  qed (use c vw in \<open>simp_all add: vault_in_step_def\<close>)
qed

lemma run_in_step:
  assumes "ve_store env = store" and "crypto_ok (ve_crypto env)" and "vault_in_step env p c"
    and "list_all (\<lambda>oper. op_ok oper \<and> oper \<noteq> OpReset) ops"
    and "list_all (\<lambda>r. \<not> isl r) (vault_answers env c ops)"
  shows "vault_in_step env p (foldl (vault_step env) c ops)"
  using assms(3-5)
proof (induction ops arbitrary: c)
  case (Cons oper ops)
  then obtain a where "vault_answer env c oper = Inr a" by (auto simp: isl_def) (metis sumE)
  with Cons step_in_step [OF assms(1,2) Cons.prems(1), of oper a] show ?case by simp
qed simp

end

text \<open>
  C1: the vault can always be opened again after an operation that fails. Take a vault in step
  with its file (as \<open>create\<close> leaves it), with any keyring that keeps its contract, and any
  sequence of operations but \<open>reset\<close> that succeeded, locking and unlocking among them: the vault
  is still in step. Then one more operation, whichever of its system calls fail (also after
  the file was replaced) and whatever the keyring answers: afterwards some key opens the file
  on disk, for an unlocked vault its own, and if the keyring is the holder, it has that key.
  A second operation after one that failed is not covered, and can lose the key:
  \<open>forget_after_failed_removal_loses_key\<close>.
\<close>

theorem key_never_lost:
  assumes "key_store_laws (ve_store env)" and "crypto_ok (ve_crypto env)" and "vault_in_step env p c"
    and "list_all (\<lambda>oper. op_ok oper \<and> oper \<noteq> OpReset) (ops @ [oper])"
    and "list_all (\<lambda>r. \<not> isl r) (vault_answers env c ops)"
    and "foldl (vault_step env) c ops = (v, w)"
  shows "vault_in_step env p (v, w) \<and>
    (\<exists>key. (\<forall>u. v_state v = Unlocked u \<longrightarrow> key = u_key u) \<and>
       can_reopen env key p (snd (vault_step env (v, w) oper)))"
proof -
  have "vault_in_step env p (v, w)"
    using key_store_laws.run_in_step [OF assms(1) refl assms(2,3), of ops] assms(4-6) by simp
  with key_store_laws.step_can_reopen [OF assms(1) refl assms(2), of p "(v, w)" oper] assms(4)
  show ?thesis by auto
qed

text \<open>
  The witness: a vault as \<open>create\<close> made it, locked and opened with the keyring; then the change
  to a password fails after the file was replaced.
\<close>

theorem key_never_lost_witness:
  "\<exists>u w v1 w1. vault_in_step sample_env [1] (sample_vault\<lparr>v_state := Unlocked u\<rparr>, w) \<and>
     faults w = [False, True] \<and>
     foldl (vault_step sample_env) (sample_vault\<lparr>v_state := Unlocked u\<rparr>, w) [OpLock, OpUnlockKeyring] =
       (v1, w1) \<and>
     (\<exists>key. can_reopen sample_env key [1]
       (snd (vault_step sample_env (v1, w1) (OpSetPassword [112, 119] RECOMMENDED False))))"
proof -
  obtain u w where made: "vault_create sample_env sample_vault None RECOMMENDED
      (sample_start [False, True]) = (Inr (), sample_vault\<lparr>v_state := Unlocked u\<rparr>, w)"
    and w: "u_key u = replicate 32 9" "h_vault_id (u_header u) = replicate 16 7"
      "h_holder (u_header u) = HKeyring" "faults w = [False, True]"
      "ring w = \<lparr>ms_entries = [entry_name sample_env (replicate 16 7) \<mapsto> replicate 32 9],
                    ms_unavailable = False\<rparr>"
    by (rule sample_create)
  note opens = vault_invD(1) [OF sample_inv [OF made]]
  let ?c = "(sample_vault\<lparr>v_state := Unlocked u\<rparr>, w)"
  have start: "vault_in_step sample_env [1] ?c"
    using mem.created_in_step [OF _ _ _ _ made, of "[1]"] plain_crypto_ok by (simp add: sample_vault_def)
  have "list_all (\<lambda>r. \<not> isl r) (vault_answers sample_env ?c [OpLock, OpUnlockKeyring])"
    using opens w by (simp add: vault_lock_def unlock_with_keyring_def memory_store_defs
        key_from_slice_def vault_consts del: replicate_Suc)
  moreover obtain v1 w1 where run: "foldl (vault_step sample_env) ?c [OpLock, OpUnlockKeyring] = (v1, w1)"
    by force
  ultimately have "\<exists>key. can_reopen sample_env key [1]
       (snd (vault_step sample_env (v1, w1) (OpSetPassword [112, 119] RECOMMENDED False)))"
    using key_never_lost [OF _ _ start _ _ run, of "OpSetPassword [112, 119] RECOMMENDED False"]
      plain_crypto_ok mem.key_store_laws_axioms by auto
  with start w(4) run show ?thesis by blast
qed

text \<open>
  two operations can lose it. \<open>remove_password\<close> may replace the file, fail when it syncs
  the folder, and report the failure; the vault in memory then still has the password header
  while the file on disk names the keyring. Turning "remember" off afterwards succeeds and
  deletes the only copy of the key that the file on disk refers to.
\<close>

theorem forget_after_failed_removal_loses_key:
  "\<exists>u w e v1 w1 v2 w2.
     vault_inv plain_crypto (Unlocked u) \<and> files w [1] = Some (u_file u) \<and>
     can_reopen sample_env (u_key u) [1] w \<and>
     remove_password sample_env (sample_vault\<lparr>v_state := Unlocked u\<rparr>) [112, 119] 0 w =
       (Inl e, v1, w1) \<and>
     set_remember sample_env v1 False w1 = (Inr (), v2, w2) \<and>
     \<not> can_reopen sample_env (u_key u) [1] w2"
proof -
  obtain u' w' u w0 where
    "set_password sample_env (sample_vault\<lparr>v_state := Unlocked u'\<rparr>) [112, 119] RECOMMENDED False w' =
      (Inr (), sample_vault\<lparr>v_state := Unlocked u\<rparr>, w0)"
    and inv: "vault_inv plain_crypto (Unlocked u)"
    and holder: "h_holder (u_header u) \<noteq> HKeyring"
    and unwrap: "unwrap_key plain_crypto (u_header u) [112, 119] = Inr (u_key u)"
    and w0: "u_entries u = []" "files w0 = [[1] \<mapsto> u_file u]" "rng w0 = [replicate 24 5]"
      "ring w0 = \<lparr>ms_entries = Map.empty, ms_unavailable = False\<rparr>"
    by (rule sample_password)
  define v where "v = sample_vault\<lparr>v_state := Unlocked u\<rparr>"
  define w where "w = w0\<lparr>faults := [False, False, False, False, True]\<rparr>"
  let ?vid = "h_vault_id (u_header u)" and ?key = "u_key u"
  let ?name = "entry_name sample_env ?vid"
  define h where "h = \<lparr>h_vault_id = ?vid, h_holder = HKeyring, h_body_nonce = replicate NONCE_LEN 0\<rparr>"
  have v: "v_state v = Unlocked u" "v_path v = Some [1]" by (simp_all add: v_def sample_vault_def)
  have opens: "open_file plain_crypto (u_file u) ?key = Inr (u_header u, [])"
    using vault_invD(1) [OF inv] w0(1) by simp
  have before: "can_reopen sample_env ?key [1] w"
    using opens holder w0(2) by (simp add: can_reopen_def w_def)
  have verify: "verify_password sample_env v [112, 119] 0 w = (Inr (), v, w)"
    using v holder unwrap
    by (simp add: verify_password_def try_password_def backoff_wait_def delay_after_def
        backoff_consts backoff_succeeded_def v_def sample_vault_def)
  define w1 where "w1 = w\<lparr>ring := \<lparr>ms_entries = [?name \<mapsto> ?key], ms_unavailable = False\<rparr>\<rparr>"
  have stored: "store_set sample_env w ?name ?key = (Inr (), w1)"
    using w0(4) by (simp add: store_set_def memory_store_defs w1_def w_def)
  obtain h' vf where sealed: "seal_file plain_crypto h ?key [] w1 = (Inr (h', vf), w1\<lparr>rng := []\<rparr>)"
    using encode_payload_empty w0(3)
    by (auto simp: seal_file_def random_array_def seal_def plain_crypto_def Let_def vault_consts
        w1_def w_def)
  have h: "wf_header h" using vault_invD(3) [OF inv] by (simp add: h_def wf_header_def)
  have vf: "open_file plain_crypto vf ?key = Inr (h', [])" "h_holder h' = HKeyring" "h_vault_id h' = ?vid"
    using open_sealed_file [OF plain_crypto_ok h _ sealed] seal_file_header [OF sealed]
    by (simp_all add: wf_entries_def h_def)
  have "vf \<noteq> u_file u" using vf opens holder by auto
  then obtain w2 where written: "atomic_write (w1\<lparr>rng := []\<rparr>) [1] vf = (Inl OtherIo, w2)"
    and w2: "files w2 = [[1] \<mapsto> vf]" "ring w2 = ring w1"
    using w0(2) by (simp add: atomic_write_def fs_read_def next_fault_def w1_def w_def)
  have removed: "remove_password sample_env v [112, 119] 0 w = (Inl (EWrite [1] OtherIo), v, w2)"
    using verify v stored sealed written w0(1)
    by (simp add: remove_password_def vault_write_def Let_def h_def)
  let ?w3 = "w2\<lparr>ring := \<lparr>ms_entries = Map.empty, ms_unavailable = False\<rparr>\<rparr>"
  have forgot: "set_remember sample_env v False w2 = (Inr (), v\<lparr>v_state := Unlocked
      (u\<lparr>u_remembered := False\<rparr>)\<rparr>, ?w3)"
    using v holder w2 by (simp add: set_remember_def store_delete_def memory_store_defs w1_def Let_def)
  have "\<not> can_reopen sample_env ?key [1] ?w3"
    using vf w2 by (simp add: can_reopen_def memory_store_defs)
  moreover have "files w [1] = Some (u_file u)" using w0(2) by (simp add: w_def)
  ultimately show ?thesis
    using inv before removed forgot unfolding v_def by blast
qed

subsection \<open>The copy in the keyring\<close>

context key_store_laws
begin

lemma set_password_copy:
  assumes "ve_store env = store" and "set_password env v pw params rem w = (Inr (), v', w')"
  obtains u where "v_state v = Unlocked u" and "vault_remembered (v_state v') = rem"
    and "ks_get store (ring w') (entry_name env (h_vault_id (u_header u))) =
      Inr (if rem then Some (u_key u) else None)"
proof -
  obtain u where u: "v_state v = Unlocked u"
    using set_password_Inr [OF assms(2)] by metis
  have ring: "vault_write env v h k es w1 = (r, w2) \<Longrightarrow> ring w2 = ring w1" for h k es w1 r w2
    by (auto simp: vault_write_def split: prod.splits sum.splits option.splits
        dest!: seal_file_frame atomic_write_frame)
  show thesis
    using assms(2) u get_after_set get_after_delete ring
    by (intro that [OF u]; cases rem)
       (auto simp: set_password_def store_set_def store_delete_def assms(1) Let_def
        split: prod.splits sum.splits)
qed

end

text \<open>
  the keyring has a copy of the key exactly when the vault says so. After \<open>set_password\<close>
  succeeded, the entry of the vault in the keyring is its key with "remember", and is gone
  without; \<open>remembered\<close> answers accordingly.
\<close>

theorem set_password_keyring_copy:
  assumes "ve_store env = memory_key_store" and "v_state v = Unlocked u"
    and "set_password env v pw params rem w = (Inr (), v', w')"
  shows "vault_remembered (v_state v') = rem \<and>
    ms_get (ring w') (entry_name env (h_vault_id (u_header u))) =
      Inr (if rem then Some (u_key u) else None)"
  using mem.set_password_copy [OF assms(1,3)] assms(2)
  by (metis key_store.select_convs(1) memory_key_store_def vstate.inject(3))

theorem set_password_keyring_copy_witness:
  "\<exists>u w v' w'. set_password sample_env (sample_vault\<lparr>v_state := Unlocked u\<rparr>) [112, 119] RECOMMENDED
       False w = (Inr (), v', w') \<and>
     ms_get (ring w') (entry_name sample_env (h_vault_id (u_header u))) = Inr None"
proof -
  obtain u w u1 w1 where set: "set_password sample_env (sample_vault\<lparr>v_state := Unlocked u\<rparr>) [112, 119]
      RECOMMENDED False w = (Inr (), sample_vault\<lparr>v_state := Unlocked u1\<rparr>, w1)"
    by (rule sample_password)
  show ?thesis
    using set set_password_keyring_copy [OF _ _ set, of u] by auto
qed

subsection \<open>Wrong passwords\<close>

text \<open>
  while a wait is due no password is looked at. \<open>unlock\<close> on a locked vault protected by a
  password answers the same for any two passwords then, an error that says how long; the vault
  stays locked, and no failure is counted.
\<close>

theorem unlock_waits:
  assumes "v_state v = Locked h bs" and "h_holder h \<noteq> HKeyring"
    and "0 < fst (backoff_wait (ve_codec env) (v_backoff v) now w)"
  shows "vault_unlock env v pw now w = vault_unlock env v pw' now w \<and>
    fst (vault_unlock env v pw now w) =
      Inl (EWait (fst (backoff_wait (ve_codec env) (v_backoff v) now w))) \<and>
    v_state (fst (snd (vault_unlock env v pw now w))) = Locked h bs \<and>
    bo_failures (v_backoff (fst (snd (vault_unlock env v pw now w)))) = bo_failures (v_backoff v)"
proof -
  obtain wait b w1 where run: "backoff_wait (ve_codec env) (v_backoff v) now w = (wait, b, w1)"
    by (metis prod_cases3)
  have "bo_failures b = bo_failures (v_backoff v)"
    using backoff_wait_state [of "ve_codec env" "v_backoff v" now w] run by (auto split: if_splits)
  with assms run show ?thesis
    by (simp add: vault_unlock_def try_password_def)
qed

text \<open>
  what a password at the right time does. With no wait due, a wrong one is answered with
  the wait it brings (the delay after one more failure), counts, and leaves the vault locked;
  a right one, whose key opens the file, unlocks it and clears the count.
\<close>

theorem unlock_counts:
  assumes "v_state v = Locked h bs" and "h_holder h \<noteq> HKeyring"
    and "fst (backoff_wait (ve_codec env) (v_backoff v) now w) = 0"
    and "vault_unlock env v pw now w = (r, v', w')"
  shows "(unwrap_key (ve_crypto env) h pw = Inl EDecrypt \<longrightarrow>
      r = Inl (EWrongPassword (delay_after (bo_failures (v_backoff v) + 1))) \<and>
      v_state v' = Locked h bs \<and>
      bo_failures (v_backoff v') = u32_sat_add (bo_failures (v_backoff v)) 1) \<and>
    (\<forall>key h' es. unwrap_key (ve_crypto env) h pw = Inr key \<and>
        open_file (ve_crypto env) bs key = Inr (h', es) \<longrightarrow>
      r = Inr () \<and> bo_failures (v_backoff v') = 0 \<and>
      (\<exists>u. v_state v' = Unlocked u \<and> u_key u = key \<and> u_entries u = es))"
proof -
  obtain wait b w1 where run: "backoff_wait (ve_codec env) (v_backoff v) now w = (wait, b, w1)"
    by (metis prod_cases3)
  have b: "bo_failures b = bo_failures (v_backoff v)"
    using backoff_wait_state [of "ve_codec env" "v_backoff v" now w] run by (auto split: if_splits)
  obtain b2 w2 where failed: "backoff_failed (ve_codec env) b now w1 = (b2, w2)" by force
  obtain b3 w3 where succeeded: "backoff_succeeded b w1 = (b3, w3)" by force
  have b2: "bo_failures b2 = u32_sat_add (bo_failures (v_backoff v)) 1" "bo_last_failure b2 = now"
    using failed b by (auto simp: backoff_failed_def Let_def)
  obtain wait2 b4 w4 where again: "backoff_wait (ve_codec env) b2 now w2 = (wait2, b4, w4)"
    by (metis prod_cases3)
  have "wait2 = delay_after (bo_failures (v_backoff v) + 1)"
    using backoff_wait_result [of "ve_codec env" b2 now w2] again b2 u32_sat_add_delay by simp
  moreover have "bo_failures b4 = bo_failures b2"
    using backoff_wait_state [of "ve_codec env" b2 now w2] again by (auto split: if_splits)
  moreover have "bo_failures b3 = 0"
    using succeeded by (auto simp: backoff_succeeded_def split: if_splits)
  ultimately show ?thesis
    using assms run failed succeeded again b2
    by (auto simp: vault_unlock_def try_password_def)
qed

lemma backoff_wait_le_300: "fst (backoff_wait codec b now w) \<le> 300"
  using delay_after_le [of "bo_failures b"] by (simp add: backoff_wait_result backoff_consts)

lemma vault_unlock_wait:
  assumes "v_state v = Locked h bs" and "h_holder h \<noteq> HKeyring"
    and "vault_unlock env v pw now w = (r, v1, w1)" and "v_state v1 = Locked h bs"
    and "now + 300 \<le> later \<or>
      (\<exists>s. (r = Inl (EWait s) \<or> r = Inl (EWrongPassword s)) \<and> now + s \<le> later)"
  shows "fst (backoff_wait (ve_codec env) (v_backoff v1) later w2) = 0"
proof -
  have zero: "fst (backoff_wait (ve_codec env) b' later w2) = 0"
    if "backoff_wait (ve_codec env) b now w' = (s, b', w'')" and "now + 300 \<le> later \<or> now + s \<le> later"
    for b b' s w' w''
    using backoff_wait_ends [OF that(1), of later w2] that(2)
      backoff_wait_le_300 [of "ve_codec env" b now w'] that(1) by auto
  from assms(1-3) show ?thesis
  proof (cases rule: vault_unlock_cases)
    case (waits s)
    with zero [OF waits(4)] assms(5) show ?thesis by auto
  next
    case (wrong s b wb wf)
    with zero [OF wrong(4)] assms(5) show ?thesis by auto
  next
    case (other e)
    obtain s b' w' where run: "backoff_wait (ve_codec env) (v_backoff v) now w = (s, b', w')"
      by (metis prod_cases3)
    have "s = 0" using other(4) run by simp
    with other zero [OF run] run assms(5) show ?thesis by (auto simp: backoff_wait_zero)
  next
    case (right key u)
    with assms(4) show ?thesis by simp
  qed
qed

text \<open>
  C40: a wait ends, and then a password is looked at. Whatever \<open>unlock\<close> answered for a locked
  vault protected by a password, the wait it names is at most 300 seconds, also when the clock
  had been set back. If the vault is still locked then, an attempt 300 seconds later (or at
  the end of the wait that was named) is never told to wait: it is decided by the password
  alone. The right one, whose key opens the file, unlocks the vault with the secrets of the
  file; a wrong one is called wrong and names the next wait, again of at most 300 seconds.
\<close>

theorem password_looked_at_again:
  assumes "v_state v = Locked h bs" and "h_holder h \<noteq> HKeyring"
    and "vault_unlock env v pw now w = (r, v1, w1)"
    and "vault_unlock env v1 pw' later w2 = (r', v2, w3)"
  shows "(\<forall>s. r = Inl (EWait s) \<or> r = Inl (EWrongPassword s) \<longrightarrow> s \<le> 300 \<and> v_state v1 = Locked h bs) \<and>
    (v_state v1 = Locked h bs \<and>
       (now + 300 \<le> later \<or> (\<exists>s. (r = Inl (EWait s) \<or> r = Inl (EWrongPassword s)) \<and> now + s \<le> later)) \<longrightarrow>
     (\<forall>s. r' \<noteq> Inl (EWait s)) \<and>
     (unwrap_key (ve_crypto env) h pw' = Inl EDecrypt \<longrightarrow>
        v_state v2 = Locked h bs \<and> (\<exists>s. r' = Inl (EWrongPassword s) \<and> s \<le> 300)) \<and>
     (\<forall>key h' es. unwrap_key (ve_crypto env) h pw' = Inr key \<and>
        open_file (ve_crypto env) bs key = Inr (h', es) \<longrightarrow>
        r' = Inr () \<and> (\<exists>u. v_state v2 = Unlocked u \<and> u_key u = key \<and> u_entries u = es)))"
  (is "?named \<and> (?later \<longrightarrow> ?looked)")
proof
  from assms(1-3) show ?named
  proof (cases rule: vault_unlock_cases)
    case (waits s)
    with backoff_wait_le_300 [of "ve_codec env" "v_backoff v" now w] show ?thesis by simp
  next
    case (wrong s b wb wf)
    with backoff_wait_le_300 [of "ve_codec env" b now wb] show ?thesis by simp
  qed auto
  show "?later \<longrightarrow> ?looked"
  proof
    assume later: ?later
    then have zero: "fst (backoff_wait (ve_codec env) (v_backoff v1) later w2) = 0"
      using vault_unlock_wait [OF assms(1-3)] by blast
    from later have "v_state v1 = Locked h bs" by blast
    from this assms(2,4) show ?looked
    proof (cases rule: vault_unlock_cases)
      case (wrong s b wb wf)
      with backoff_wait_le_300 [of "ve_codec env" b later wb] show ?thesis by simp
    qed (use zero in auto)
  qed
qed

text \<open>A password vault, locked, as the witnesses of both use it.\<close>

lemma sample_locked:
  obtains h where "h_holder h \<noteq> HKeyring" and "unwrap_key plain_crypto h [0] = Inl EDecrypt"
proof -
  let ?slot = "\<lparr>ps_params = RECOMMENDED, ps_salt = replicate 16 0, ps_nonce = replicate 24 0,
      ps_wrapped = replicate 48 1\<rparr>"
  have plain_argon2: "c_params_ok plain_crypto p" "c_argon2 plain_crypto pw salt p = Some (take 32 (pw @ replicate 32 0))"
    for p pw salt by (simp_all add: plain_crypto_def)
  have params: "kdf_is_valid RECOMMENDED" by (simp add: kdf_is_valid_def RECOMMENDED_def)
  have zero: "sum_list (take 32 ([0] @ replicate 32 0)) = (0 :: byte)"
    by (simp add: take_Cons' sum_list_replicate)
  have "c_decrypt plain_crypto (take 32 ([0] @ replicate 32 0)) n aad (replicate 48 1) = None" for n aad
    unfolding plain_crypto_def crypto.select_convs zero by simp
  then have "unwrap_key plain_crypto \<lparr>h_vault_id = [], h_holder = HPassword ?slot, h_body_nonce = []\<rparr> [0] =
      Inl EDecrypt"
    using params
    by (simp add: unwrap_key_def derive_key_def argon2_def crypto_open_def plain_argon2
        del: replicate_Suc)
  then show thesis by (intro that) simp_all
qed

theorem unlock_waits_witness:
  "\<exists>h. fst (vault_unlock sample_env \<lparr>v_path = None, v_backoff = \<lparr>bo_path = None, bo_failures = 4,
       bo_last_failure = 100\<rparr>, v_state = Locked h []\<rparr> [0] 103 (sample_start [])) = Inl (EWait 7)"
proof -
  obtain h where "h_holder h \<noteq> HKeyring" "unwrap_key plain_crypto h [0] = Inl EDecrypt"
    by (rule sample_locked)
  let ?b = "\<lparr>bo_path = None, bo_failures = 4, bo_last_failure = 100\<rparr> :: backoff"
  let ?v = "\<lparr>v_path = None, v_backoff = ?b, v_state = Locked h []\<rparr>"
  have "backoff_wait (ve_codec sample_env) ?b 103 (sample_start []) = (7, ?b, sample_start [])"
    by (simp add: backoff_wait_def delay_after_def backoff_consts push_bit_eq_mult)
  then show ?thesis
    using unlock_waits [of ?v h "[]" sample_env 103 "sample_start []" "[0]" "[1]"]
      \<open>h_holder h \<noteq> HKeyring\<close> by auto
qed

theorem unlock_counts_witness:
  "\<exists>h v' w'. unwrap_key plain_crypto h [0] = Inl EDecrypt \<and>
     vault_unlock sample_env \<lparr>v_path = None, v_backoff = \<lparr>bo_path = None, bo_failures = 4,
       bo_last_failure = 100\<rparr>, v_state = Locked h []\<rparr> [0] 200 (sample_start []) =
     (Inl (EWrongPassword 20), v', w') \<and> bo_failures (v_backoff v') = 5"
proof -
  obtain h where h: "h_holder h \<noteq> HKeyring" "unwrap_key plain_crypto h [0] = Inl EDecrypt"
    by (rule sample_locked)
  let ?b = "\<lparr>bo_path = None, bo_failures = 4, bo_last_failure = 100\<rparr> :: backoff"
  let ?v = "\<lparr>v_path = None, v_backoff = ?b, v_state = Locked h []\<rparr>"
  have wait: "fst (backoff_wait (ve_codec sample_env) (v_backoff ?v) 200 (sample_start [])) = 0"
    by (simp add: backoff_wait_def delay_after_def backoff_consts push_bit_eq_mult)
  obtain r v' w' where run: "vault_unlock sample_env ?v [0] 200 (sample_start []) = (r, v', w')"
    by (metis prod_cases3)
  show ?thesis
    using unlock_counts [OF _ h(1) wait run, of "[]"] h(2) run
    by (auto simp: delay_after_def backoff_consts push_bit_eq_mult u32_sat_add_def u32_max_def)
qed

theorem password_looked_at_again_witness:
  "\<exists>h r v1 w1 r' v2 w3 s. unwrap_key plain_crypto h [0] = Inl EDecrypt \<and>
     vault_unlock sample_env \<lparr>v_path = None, v_backoff = \<lparr>bo_path = None, bo_failures = 40,
       bo_last_failure = 900\<rparr>, v_state = Locked h []\<rparr> [0] 200 (sample_start []) = (r, v1, w1) \<and>
     r = Inl (EWait 300) \<and>
     vault_unlock sample_env v1 [0] 500 w1 = (r', v2, w3) \<and> r' = Inl (EWrongPassword s)"
proof -
  obtain h where h: "h_holder h \<noteq> HKeyring" "unwrap_key plain_crypto h [0] = Inl EDecrypt"
    by (rule sample_locked)
  let ?b = "\<lparr>bo_path = None, bo_failures = 40, bo_last_failure = 900\<rparr> :: backoff"
  let ?v = "\<lparr>v_path = None, v_backoff = ?b, v_state = Locked h []\<rparr>"
  let ?v1 = "?v\<lparr>v_backoff := ?b\<lparr>bo_last_failure := 200\<rparr>\<rparr>"
  have first: "vault_unlock sample_env ?v [0] 200 (sample_start []) =
      (Inl (EWait 300), ?v1, sample_start [])"
    using h(1) by (simp add: vault_unlock_def try_password_def backoff_wait_def backoff_save_def
        delay_after_def backoff_consts push_bit_eq_mult)
  obtain r' v2 w3 where again: "vault_unlock sample_env ?v1 [0] 500 (sample_start []) = (r', v2, w3)"
    by (metis prod_cases3)
  have "\<exists>s. r' = Inl (EWrongPassword s)"
    using password_looked_at_again [OF _ h(1) first again, of "[]"] h(2) by (auto simp del: replicate_Suc)
  with first again h(2) show ?thesis by blast
qed

subsection \<open>Creating and restarting\<close>

text \<open>
  a vault that is there is never overwritten. If the file exists when the app starts, then
  opening it and asking for a new vault is refused, and the file stays as it is, whether it is
  a vault, garbage, or could not be read.
\<close>

theorem create_never_overwrites:
  assumes "files w p = Some bs" and "attempts \<noteq> Some p"
    and "vault_open env (Some p) attempts w = (v, w1)"
    and "vault_create env v pw params w1 = (r, v2, w2)"
  shows "r = Inl EExists \<and> v2 = v \<and> w2 = w1 \<and> files w2 p = Some bs"
proof -
  obtain rd w0 where read: "fs_read w p = (rd, w0)" by force
  have "rd \<noteq> Inl NotFound" "files w0 = files w"
    using assms(1) read by (auto simp: fs_read_def Let_def split: prod.splits if_splits
        dest: next_faultD)
  moreover have "files (snd (backoff_load (ve_codec env) attempts w0)) = files w0"
    by (auto simp: backoff_load_def Let_def fs_read_def split: option.splits prod.splits
        dest: next_faultD)
  ultimately have "v_state v \<noteq> Missing \<and> files w1 = files w"
    using assms(3) read
    by (auto simp: vault_open_def Let_def split: sum.splits prod.splits io_error.splits)
  with assms(1,4) show ?thesis by (simp add: vault_create_def)
qed

theorem create_never_overwrites_witness:
  "\<exists>v w1 r v2 w2.
     vault_open sample_env (Some [1]) None ((sample_start [])\<lparr>files := [[1] \<mapsto> [0, 0]]\<rparr>) = (v, w1) \<and>
     vault_create sample_env v None RECOMMENDED w1 = (r, v2, w2) \<and>
     r = Inl EExists \<and> files w2 [1] = Some [0, 0]"
proof -
  let ?w = "(sample_start [])\<lparr>files := [[1] \<mapsto> [0, 0]]\<rparr>"
  obtain v w1 where opened: "vault_open sample_env (Some [1]) None ?w = (v, w1)" by force
  obtain r v2 w2 where made: "vault_create sample_env v None RECOMMENDED w1 = (r, v2, w2)"
    by (metis prod_cases3)
  show ?thesis
    using create_never_overwrites [OF _ _ opened made, of "[0, 0]"] opened made by auto
qed

text \<open>
  the secrets survive a restart. When the file on disk is the one an unlocked vault wrote
  and the keyring has the key, opening the vault anew (with system calls that succeed) and
  unlocking it with the keyring gives the same key, header and secrets.
\<close>

theorem restart_opens_with_keyring:
  assumes "vault_inv (ve_crypto env) (Unlocked u)" and "files w p = Some (u_file u)" and "faults w = []"
    and "ks_get (ve_store env) (ring w) (entry_name env (h_vault_id (u_header u))) = Inr (Some (u_key u))"
    and "vault_open env (Some p) attempts w = (v, w1)"
  shows "\<exists>v' u'. unlock_with_keyring env v w1 = (Inr True, v', w1) \<and> v_state v' = Unlocked u' \<and>
    u_key u' = u_key u \<and> u_header u' = u_header u \<and> u_entries u' = u_entries u"
proof -
  note facts = vault_invD [OF assms(1)]
  obtain start where header: "read_header (u_file u) = Inr (u_header u, start)"
    using open_file_wf [OF facts(1)] by blast
  have "ring (snd (backoff_load (ve_codec env) attempts w)) = ring w"
    by (auto simp: backoff_load_def Let_def fs_read_def split: option.splits prod.splits
        dest: next_faultD)
  with assms(2,3,5) header have "v_state v = Locked (u_header u) (u_file u)" and "ring w1 = ring w"
    by (auto simp: vault_open_def fs_read_def Let_def split: prod.splits)
  with assms(4) facts(1,2) show ?thesis
    by (simp add: unlock_with_keyring_def key_from_slice_def)
qed

theorem restart_opens_with_keyring_witness:
  "\<exists>u w v w1 v' u'. vault_create sample_env sample_vault None RECOMMENDED (sample_start []) =
       (Inr (), sample_vault\<lparr>v_state := Unlocked u\<rparr>, w) \<and>
     vault_open sample_env (Some [1]) None w = (v, w1) \<and>
     unlock_with_keyring sample_env v w1 = (Inr True, v', w1) \<and> v_state v' = Unlocked u' \<and>
     u_entries u' = u_entries u"
proof -
  obtain u w where made: "vault_create sample_env sample_vault None RECOMMENDED
      (sample_start []) = (Inr (), sample_vault\<lparr>v_state := Unlocked u\<rparr>, w)"
    and w: "u_key u = replicate 32 9" "h_vault_id (u_header u) = replicate 16 7"
      "files w = [[1] \<mapsto> u_file u]" "faults w = []"
      "ring w = \<lparr>ms_entries = [entry_name sample_env (replicate 16 7) \<mapsto> replicate 32 9],
                    ms_unavailable = False\<rparr>"
    by (rule sample_create)
  obtain v w1 where opened: "vault_open sample_env (Some [1]) None w = (v, w1)" by force
  have "\<exists>v' u'. unlock_with_keyring sample_env v w1 = (Inr True, v', w1) \<and> v_state v' = Unlocked u' \<and>
    u_key u' = u_key u \<and> u_header u' = u_header u \<and> u_entries u' = u_entries u"
    by (rule restart_opens_with_keyring [OF _ _ _ _ opened])
       (use sample_inv [OF made] w in \<open>simp_all add: memory_store_defs\<close>)
  with made opened show ?thesis by blast
qed

end
