(* ===== verification/Vault_Spec.thy ===== *)
theory Vault_Spec
  imports Vault_Keys
begin

text \<open>
  What the vault is for, as an abstract machine: a safe that is not there, or whose file cannot be
  read, or that is closed, or open with a finite map of secrets in it. A closed safe knows which
  passwords give a key, and what each key finds inside. \<open>safe_step\<close> says what an operation may
  answer and what it then does to the safe; the vault in memory, with its files, keyring, keys and
  failing system calls, refines it through \<open>safe_of\<close>. The locale \<open>refinement\<close> carries the steps
  to whole runs.
\<close>

inductive spec_run :: "('a \<Rightarrow> 'e \<Rightarrow> 'r \<Rightarrow> 'a \<Rightarrow> bool) \<Rightarrow> 'a \<Rightarrow> ('e \<times> 'r) list \<Rightarrow> 'a \<Rightarrow> bool"
  for spec :: "'a \<Rightarrow> 'e \<Rightarrow> 'r \<Rightarrow> 'a \<Rightarrow> bool" where
  run_Nil: "spec_run spec a [] a"
| run_Cons: "spec a e r b \<Longrightarrow> spec_run spec b es d \<Longrightarrow> spec_run spec a ((e, r) # es) d"

locale refinement = invariant_machine step inv allowed
  for step :: "'c \<Rightarrow> 'e \<Rightarrow> 'c" and inv :: "'c \<Rightarrow> bool" and allowed :: "'e \<Rightarrow> bool" +
  fixes answers :: "'c \<Rightarrow> 'e list \<Rightarrow> 'r list"
    and abs :: "'c \<Rightarrow> 'a"
    and spec :: "'a \<Rightarrow> 'e \<Rightarrow> 'r \<Rightarrow> 'a \<Rightarrow> bool"
  assumes answers_Nil: "answers c [] = []"
    and answers_Cons: "\<exists>r. answers c (e # es) = r # answers (step c e) es \<and>
      (inv c \<longrightarrow> allowed e \<longrightarrow> spec (abs c) e r (abs (step c e)))"
begin

lemma run_refines:
  "inv c \<Longrightarrow> list_all allowed es \<Longrightarrow> spec_run spec (abs c) (zip es (answers c es)) (abs (foldl step c es))"
proof (induction es arbitrary: c)
  case (Cons e es)
  obtain r where "answers c (e # es) = r # answers (step c e) es" "spec (abs c) e r (abs (step c e))"
    using answers_Cons [of c e es] Cons.prems by auto
  moreover have "inv (step c e)" using step_inv Cons.prems by simp
  ultimately show ?case using Cons by (auto intro: spec_run.intros)
qed (simp add: spec_run.intros answers_Nil)

end

subsection \<open>The safe\<close>

datatype safe =
    NoSafe
  | BadFile
  | Closed "bytes \<Rightarrow> key option" "key \<Rightarrow> (nat \<rightharpoonup> secret) option"
  | Open key "bytes \<Rightarrow> key option" "nat \<rightharpoonup> secret"

text \<open>The complaint of an operation that needs the safe to be open, and the errors from outside.\<close>

fun complaint :: "safe \<Rightarrow> vault_error option" where
  "complaint NoSafe = Some EMissing"
| "complaint BadFile = Some EUnreadable"
| "complaint (Closed _ _) = Some ELocked"
| "complaint (Open _ _ _) = None"

fun needs_open :: "vault_op \<Rightarrow> bool" where
  "needs_open (OpInsert i x) = (length (s_data x) \<le> MAX_SECRET)"
| "needs_open (OpReplace i x) = (length (s_data x) \<le> MAX_SECRET)"
| "needs_open (OpCreate _ _) = False"
| "needs_open OpUnlockKeyring = False"
| "needs_open (OpUnlock _ _) = False"
| "needs_open OpLock = False"
| "needs_open (OpWait _) = False"
| "needs_open OpReset = False"
| "needs_open _ = True"

fun outside :: "vault_error \<Rightarrow> bool" where
  "outside (EKeyring _) = True"
| "outside (EWrite _ _) = True"
| "outside e = file_error e"

text \<open>
  What may happen. An operation that fails leaves the safe as it is, with one exception
  (\<open>password_kept\<close>): a new password is in force although the old copy of the key could not be
  deleted from the keyring. A wrong password opens nothing; a right one is refused only while a
  wait of at most 300 seconds is due.
\<close>

inductive safe_step :: "safe \<Rightarrow> vault_op \<Rightarrow> vault_error + answer \<Rightarrow> safe \<Rightarrow> bool" where
  not_open: "complaint s = Some e \<Longrightarrow> needs_open oper \<Longrightarrow> safe_step s oper (Inl e) s"
| exists: "s \<noteq> NoSafe \<Longrightarrow> safe_step s (OpCreate pw params) (Inl EExists) s"
| not_created: "outside e \<Longrightarrow> safe_step NoSafe (OpCreate pw params) (Inl e) NoSafe"
| created: "pws p = Some k \<Longrightarrow>
    safe_step NoSafe (OpCreate (Some p) params) (Inr ADone) (Open k pws Map.empty)"
| created_keyring: "safe_step NoSafe (OpCreate None params) (Inr ADone) (Open k Map.empty Map.empty)"
| unlock_none: "s = NoSafe \<or> s = BadFile \<Longrightarrow> complaint s = Some e \<Longrightarrow>
    safe_step s (OpUnlock pw now) (Inl e) s"
| unlock_open: "safe_step (Open k pws m) (OpUnlock pw now) (Inr ADone) (Open k pws m)"
| unlock_right: "pws pw = Some k \<Longrightarrow> inside k = Some m \<Longrightarrow>
    safe_step (Closed pws inside) (OpUnlock pw now) (Inr ADone) (Open k pws m)"
| unlock_waits: "0 < secs \<Longrightarrow> secs \<le> 300 \<Longrightarrow>
    safe_step (Closed pws inside) (OpUnlock pw now) (Inl (EWait secs)) (Closed pws inside)"
| unlock_wrong: "pws pw = None \<Longrightarrow> secs \<le> 300 \<Longrightarrow>
    safe_step (Closed pws inside) (OpUnlock pw now) (Inl (EWrongPassword secs)) (Closed pws inside)"
| unlock_damaged: "file_error e \<Longrightarrow> \<forall>k. pws pw = Some k \<longrightarrow> inside k = None \<Longrightarrow>
    safe_step (Closed pws inside) (OpUnlock pw now) (Inl e) (Closed pws inside)"
| keyring_open: "safe_step (Open k pws m) OpUnlockKeyring (Inr (AOpened True)) (Open k pws m)"
| keyring_opens: "inside k = Some m \<Longrightarrow>
    safe_step (Closed pws inside) OpUnlockKeyring (Inr (AOpened True)) (Open k pws m)"
| keyring_no_key: "complaint s \<noteq> None \<Longrightarrow> safe_step s OpUnlockKeyring (Inr (AOpened False)) s"
| keyring_fails: "outside e \<Longrightarrow>
    safe_step (Closed pws inside) OpUnlockKeyring (Inl e) (Closed pws inside)"
| locked: "inside k = Some m \<Longrightarrow> safe_step (Open k pws m) OpLock (Inr ADone) (Closed pws inside)"
| lock_again: "complaint s \<noteq> None \<Longrightarrow> safe_step s OpLock (Inr ADone) s"
| verified: "pws pw = Some k \<Longrightarrow>
    safe_step (Open k pws m) (OpVerify pw now) (Inr ADone) (Open k pws m)"
| not_verified: "oper = OpVerify pw now \<or> oper = OpChangePassword pw new params now \<or>
      oper = OpRemovePassword pw now \<Longrightarrow>
    0 < secs \<and> secs \<le> 300 \<and> e = EWait secs \<or> pws pw = None \<and> secs \<le> 300 \<and> e = EWrongPassword secs \<or>
      pws pw \<noteq> Some k \<and> file_error e \<Longrightarrow>
    safe_step (Open k pws m) oper (Inl e) (Open k pws m)"
| waits: "secs \<le> 300 \<Longrightarrow> safe_step s (OpWait now) (Inr (ASeconds secs)) s"
| too_large: "MAX_SECRET < length (s_data x) \<Longrightarrow> oper = OpInsert i x \<or> oper = OpReplace i x \<Longrightarrow>
    safe_step s oper (Inl (EFormat ''a secret is too large'')) s"
| inserted: "length (s_data x) \<le> MAX_SECRET \<Longrightarrow>
    safe_step (Open k pws m) (OpInsert i x) (Inr (AId i)) (Open k pws (m(i \<mapsto> x)))"
| replaced: "length (s_data x) \<le> MAX_SECRET \<Longrightarrow>
    safe_step (Open k pws m) (OpReplace i x) (Inr ADone) (Open k pws (m(i \<mapsto> x)))"
| not_stored: "outside e \<Longrightarrow> oper = OpInsert i x \<or> oper = OpReplace i x \<Longrightarrow>
    safe_step (Open k pws m) oper (Inl e) (Open k pws m)"
| retained: "safe_step (Open k pws m) (OpRetain keep) (Inr (ACount (card {i \<in> dom m. \<not> keep i})))
    (Open k pws (m |` {i. keep i}))"
| not_retained: "outside e \<Longrightarrow> i \<in> dom m \<Longrightarrow> \<not> keep i \<Longrightarrow>
    safe_step (Open k pws m) (OpRetain keep) (Inl e) (Open k pws m)"
| removed: "safe_step (Open k pws m) (OpRemove ids) (Inr (ACount (card (dom m \<inter> set ids))))
    (Open k pws (m |` (- set ids)))"
| not_removed: "outside e \<Longrightarrow> i \<in> dom m \<inter> set ids \<Longrightarrow>
    safe_step (Open k pws m) (OpRemove ids) (Inl e) (Open k pws m)"
| password_set: "pws' pw = Some k \<Longrightarrow>
    safe_step (Open k pws m) (OpSetPassword pw params rem) (Inr ADone) (Open k pws' m)"
| password_kept: "pws' pw = Some k \<Longrightarrow>
    safe_step (Open k pws m) (OpSetPassword pw params False) (Inl (EKeyring e)) (Open k pws' m)"
| password_not_set: "outside e \<Longrightarrow>
    safe_step (Open k pws m) (OpSetPassword pw params rem) (Inl e) (Open k pws m)"
| password_changed: "pws cur = Some k \<Longrightarrow>
    safe_step (Open k pws m) (OpSetPassword pw params rem) r s' \<Longrightarrow>
    safe_step (Open k pws m) (OpChangePassword cur pw params now) r s'"
| password_removed: "pws cur = Some k \<Longrightarrow>
    safe_step (Open k pws m) (OpRemovePassword cur now) (Inr ADone) (Open k Map.empty m)"
| password_not_removed: "pws cur = Some k \<Longrightarrow> outside e \<Longrightarrow>
    safe_step (Open k pws m) (OpRemovePassword cur now) (Inl e) (Open k pws m)"
| remembered: "safe_step (Open k pws m) (OpSetRemember rem) (Inr ADone) (Open k pws m)"
| not_remembered: "outside e \<Longrightarrow>
    safe_step (Open k pws m) (OpSetRemember rem) (Inl e) (Open k pws m)"
| emptied: "safe_step s OpReset (Inr ADone) NoSafe"
| not_emptied: "safe_step s OpReset (Inl (EWrite p e)) s"

subsection \<open>The safe a vault is\<close>

definition passwords_of :: "crypto \<Rightarrow> header \<Rightarrow> bytes \<Rightarrow> key option" where
  "passwords_of c h pw = (case unwrap_key c h pw of Inl _ \<Rightarrow> None | Inr k \<Rightarrow> Some k)"

definition inside_of :: "crypto \<Rightarrow> bytes \<Rightarrow> key \<Rightarrow> (nat \<rightharpoonup> secret) option" where
  "inside_of c bs k = (case open_file c bs k of Inl _ \<Rightarrow> None | Inr (_, es) \<Rightarrow> Some (bt_get es))"

definition safe_of :: "crypto \<Rightarrow> vstate \<Rightarrow> safe" where
  "safe_of c s =
     (case s of
        Missing \<Rightarrow> NoSafe
      | Unreadable _ \<Rightarrow> BadFile
      | Locked h bs \<Rightarrow> Closed (passwords_of c h) (inside_of c bs)
      | Unlocked u \<Rightarrow> Open (u_key u) (passwords_of c (u_header u)) (bt_get (u_entries u)))"

lemma safe_of_simps [simp]:
  "safe_of c Missing = NoSafe"
  "safe_of c (Unreadable q) = BadFile"
  "safe_of c (Locked h bs) = Closed (passwords_of c h) (inside_of c bs)"
  "safe_of c (Unlocked u) = Open (u_key u) (passwords_of c (u_header u)) (bt_get (u_entries u))"
  by (simp_all add: safe_of_def)

lemma complaint_safe_of: "complaint (safe_of c s) = (case get_unlocked s of Inl e \<Rightarrow> Some e | Inr _ \<Rightarrow> None)"
  by (cases s) simp_all

lemma passwords_of_cong:
  "h_vault_id h = h_vault_id h' \<Longrightarrow> h_holder h = h_holder h' \<Longrightarrow> passwords_of c h = passwords_of c h'"
  by (cases "h_holder h'") (simp_all add: passwords_of_def unwrap_key_def fun_eq_iff slot_prefix_cong [of h h'])

lemma passwords_of_keyring: "h_holder h = HKeyring \<Longrightarrow> passwords_of c h = Map.empty"
  by (simp add: passwords_of_def unwrap_key_def fun_eq_iff)

lemma outside_file_error: "file_error e \<Longrightarrow> outside e"
  by (cases e) simp_all

lemma bt_get_insert_map: "bt_get (bt_insert i x m) = (bt_get m)(i \<mapsto> x)"
  by (rule ext) (simp add: bt_get_insert)

lemma bt_get_retain_map: "bt_get (bt_retain keep m) = bt_get m |` {i. keep i}"
  by (rule ext) (simp add: bt_get_retain restrict_map_def)

lemma card_doomed:
  assumes "bt_ok m"
  shows "length (filter (\<lambda>i. \<not> keep i) (map fst m)) = card {i \<in> dom (bt_get m). \<not> keep i}"
proof -
  have "dom (bt_get m) = fst ` set m"
    by (simp add: dom_map_of_conv_image_fst)
  then have "{i \<in> dom (bt_get m). \<not> keep i} = set (filter (\<lambda>i. \<not> keep i) (map fst m))" by auto
  moreover have "distinct (filter (\<lambda>i. \<not> keep i) (map fst m))"
    using bt_ok_distinct [OF assms] by simp
  ultimately show ?thesis by (simp only: distinct_card)
qed

subsection \<open>Operation by operation\<close>

lemma vault_write_outside: "vault_write env v h key es w = (Inl e, w') \<Longrightarrow> outside e"
  by (auto simp: vault_write_def split: prod.splits sum.splits option.splits
      dest!: seal_file_file_error intro: outside_file_error)

lemma vault_change_cases_safe:
  assumes "v_state v = Unlocked u" and "vault_change env v f result w = (r, v', w')"
  shows "(\<exists>e. r = Inl e \<and> outside e \<and> v' = v) \<or>
    r = Inr result \<and> safe_of c (v_state v') =
      Open (u_key u) (passwords_of c (u_header u)) (bt_get (f (u_entries u)))"
proof -
  obtain r1 w1 where wrote: "vault_write env v (u_header u) (u_key u) (f (u_entries u)) w = (r1, w1)"
    by force
  show ?thesis
  proof (cases r1)
    case (Inl e)
    with assms wrote vault_write_outside [OF wrote [unfolded Inl]] show ?thesis
      by (auto simp: vault_change_def)
  next
    case (Inr x)
    then obtain h vf where x: "r1 = Inr (h, vf)" by (metis surj_pair)
    have "passwords_of c h = passwords_of c (u_header u)"
      using vault_write_header [OF wrote [unfolded x]] by (intro passwords_of_cong) simp_all
    with assms wrote x show ?thesis by (auto simp: vault_change_def)
  qed
qed

lemma store_step:
  assumes "oper = OpInsert i x \<or> oper = OpReplace i x"
  shows "safe_step (safe_of c (v_state v)) oper (vault_answer env (v, w) oper)
    (safe_of c (v_state (fst (vault_step env (v, w) oper))))"
proof (cases "MAX_SECRET < length (s_data x)")
  case True
  with assms too_large [OF True assms] show ?thesis
    by (auto simp: vault_insert_def vault_replace_def)
next
  case fits: False
  show ?thesis
  proof (cases "\<exists>u. v_state v = Unlocked u")
    case True
    then obtain u where u: "v_state v = Unlocked u" by blast
    obtain r v' w' where ins: "vault_change env v (bt_insert i x) i w = (r, v', w')" by (metis prod_cases3)
    obtain r2 v2 w2 where rep: "vault_change env v (bt_insert i x) () w = (r2, v2, w2)" by (metis prod_cases3)
    show ?thesis
      using assms fits u ins rep vault_change_cases_safe [OF u ins, of c] vault_change_cases_safe [OF u rep, of c]
      by (auto simp: vault_insert_def vault_replace_def bt_get_insert_map not_less
          intro: inserted replaced not_stored)
  next
    case False
    then obtain e where e: "get_unlocked (v_state v) = Inl e" by (cases "v_state v") auto
    have "safe_step (safe_of c (v_state v)) oper (Inl e) (safe_of c (v_state v))"
      using e fits assms by (intro not_open) (auto simp: complaint_safe_of)
    with e fits assms show ?thesis
      by (auto simp: vault_insert_def vault_replace_def vault_change_def)
  qed
qed

lemma retain_step:
  assumes "vault_inv c (v_state v)" and "c = ve_crypto env" and "v_state v = Unlocked u"
    and "vault_retain env v keep w = (r, v', w')"
  shows "(\<exists>e i. r = Inl e \<and> outside e \<and> v' = v \<and> i \<in> dom (bt_get (u_entries u)) \<and> \<not> keep i) \<or>
    r = Inr (card {i \<in> dom (bt_get (u_entries u)). \<not> keep i}) \<and>
    safe_of c (v_state v') = Open (u_key u) (passwords_of c (u_header u))
      (bt_get (u_entries u) |` {i. keep i})"
proof -
  let ?gone = "{i \<in> dom (bt_get (u_entries u)). \<not> keep i}"
  have ok: "bt_ok (u_entries u)"
    using vault_invD(4) [OF assms(1) [unfolded assms(3)]] by (simp add: wf_entries_def)
  note count = card_doomed [OF ok, of keep]
  have fin: "finite ?gone" by (simp add: finite_dom_map_of)
  show ?thesis
  proof (cases "card ?gone = 0")
    case True
    then have "?gone = {}" using fin by simp
    then have "bt_get (u_entries u) |` {i. keep i} = bt_get (u_entries u)"
      by (force simp: restrict_map_def fun_eq_iff dom_def)
    with True assms count show ?thesis by (auto simp: vault_retain_def)
  next
    case False
    then obtain i where "i \<in> dom (bt_get (u_entries u))" "\<not> keep i" using fin by auto
    moreover have "vault_change env v (bt_retain keep) (card ?gone) w = (r, v', w')"
      using assms(3,4) False unfolding vault_retain_def count [symmetric] by (simp add: Let_def)
    ultimately show ?thesis
      using vault_change_cases_safe [OF assms(3), of env "bt_retain keep" "card ?gone" w r v' w' c]
      by (auto simp: bt_get_retain_map)
  qed
qed

lemma guess_cases:
  assumes "v_state v = Unlocked u" and "verify_password env v pw now w = (r, v', w')"
  obtains (right) "r = Inr ()" "passwords_of (ve_crypto env) (u_header u) pw = Some (u_key u)"
  | (refused) e secs where "r = Inl e"
      "0 < secs \<and> secs \<le> 300 \<and> e = EWait secs \<or>
       passwords_of (ve_crypto env) (u_header u) pw = None \<and> secs \<le> 300 \<and> e = EWrongPassword secs \<or>
       passwords_of (ve_crypto env) (u_header u) pw \<noteq> Some (u_key u) \<and> file_error e"
proof (cases "h_holder (u_header u) = HKeyring")
  case True
  with assms passwords_of_keyring [OF True] refused show thesis
    by (auto simp: verify_password_def try_password_def)
next
  case False
  obtain wait b wb where run: "backoff_wait (ve_codec env) (v_backoff v) now w = (wait, b, wb)"
    by (metis prod_cases3)
  obtain b2 wf where failed: "backoff_failed (ve_codec env) b now wb = (b2, wf)" by force
  obtain wait2 b3 wg where again: "backoff_wait (ve_codec env) b2 now wf = (wait2, b3, wg)"
    by (metis prod_cases3)
  obtain b4 wh where succeeded: "backoff_succeeded b wb = (b4, wh)" by force
  have secs: "wait \<le> 300" "wait2 \<le> 300"
    using backoff_wait_le_300 [of "ve_codec env" "v_backoff v" now w]
      backoff_wait_le_300 [of "ve_codec env" b2 now wf] run again by simp_all
  show thesis
  proof (cases "0 < wait")
    case True
    with assms False run secs refused [of "EWait wait" wait] show thesis
      by (auto simp: verify_password_def try_password_def)
  next
    case zero: False
    show thesis
    proof (cases "unwrap_key (ve_crypto env) (u_header u) pw")
      case (Inl e)
      then have pws: "passwords_of (ve_crypto env) (u_header u) pw = None" by (simp add: passwords_of_def)
      have "r = Inl (if e = EDecrypt then EWrongPassword wait2 else e)"
        using assms False run failed again zero Inl
        by (cases e) (auto simp: verify_password_def try_password_def)
      with secs pws unwrap_key_file_error [OF Inl] refused [of _ wait2] show thesis by auto
    next
      case (Inr key)
      then have pws: "passwords_of (ve_crypto env) (u_header u) pw = Some key"
        by (simp add: passwords_of_def)
      with assms False run succeeded zero Inr right refused show thesis
        by (auto simp: verify_password_def try_password_def split: if_splits)
    qed
  qed
qed

lemma own_password:
  assumes "crypto_ok c" and "make_password_slot c (h_vault_id h) key pw params w = (Inr slot, w')"
    and "length key = KEY_LEN" and "h_holder h = HPassword slot"
  shows "passwords_of c h pw = Some key"
  using unwrap_own_password [OF assms(1,3,2) refl assms(4)] by (simp add: passwords_of_def)

lemma set_password_step:
  assumes "crypto_ok (ve_crypto env)" and "vault_inv (ve_crypto env) (v_state v)"
    and "v_state v = Unlocked u" and "set_password env v pw params rem w = (r, v', w')"
  shows "safe_step (safe_of (ve_crypto env) (v_state v)) (OpSetPassword pw params rem)
    (map_sum id (\<lambda>_. ADone) r) (safe_of (ve_crypto env) (v_state v'))"
proof -
  let ?c = "ve_crypto env" and ?vid = "h_vault_id (u_header u)" and ?key = "u_key u"
  note wf = vault_invD [OF assms(2) [unfolded assms(3)]]
  have same: "safe_step (safe_of ?c (v_state v)) (OpSetPassword pw params rem) (Inl e)
      (safe_of ?c (v_state v))" if "outside e" for e
    using password_not_set [OF that] assms(3) by simp
  obtain sr w1 where slot: "make_password_slot ?c ?vid ?key pw params w = (sr, w1)" by force
  show ?thesis
  proof (cases sr)
    case (Inl e)
    have "outside e" using make_password_slot_file_error slot Inl outside_file_error by blast
    from same [OF this] Inl assms slot show ?thesis by (auto simp: set_password_def)
  next
    case (Inr sl)
    let ?h = "\<lparr>h_vault_id = ?vid, h_holder = HPassword sl, h_body_nonce = replicate NONCE_LEN 0\<rparr>"
    obtain r2 w2 where stored: "(if rem then store_set env w1 (entry_name env ?vid) ?key
        else (Inr (), w1)) = (r2, w2)" by force
    show ?thesis
    proof (cases r2)
      case (Inl e)
      then have "outside e" using stored by (auto simp: store_set_def split: if_splits prod.splits sum.splits)
      from same [OF this] Inl assms slot Inr stored show ?thesis by (auto simp: set_password_def)
    next
      case (Inr x)
      obtain r3 w3 where wrote: "vault_write env v ?h ?key (u_entries u) w2 = (r3, w3)" by force
      show ?thesis
      proof (cases r3)
        case (Inl e)
        from same [OF vault_write_outside [OF wrote [unfolded Inl]]] Inl assms slot \<open>sr = Inr sl\<close> stored Inr wrote
        show ?thesis by (auto simp: set_password_def)
      next
        case written: (Inr y)
        then obtain h vf where y: "r3 = Inr (h, vf)" by (metis surj_pair)
        have "passwords_of ?c h pw = Some ?key"
          using unwrap_own_password [OF assms(1) wf(2) slot [unfolded \<open>sr = Inr sl\<close>], of h]
            vault_write_header [OF wrote [unfolded y]] by (simp add: passwords_of_def)
        with assms slot \<open>sr = Inr sl\<close> stored Inr wrote y password_set password_kept
        show ?thesis
          by (auto simp: set_password_def store_delete_def Let_def split: prod.splits sum.splits if_splits)
      qed
    qed
  qed
qed

lemma password_step:
  assumes "crypto_ok (ve_crypto env)" and "vault_inv (ve_crypto env) (v_state v)"
    and "v_state v = Unlocked u"
    and "oper = OpVerify pw now \<or> oper = OpChangePassword pw new params now \<or> oper = OpRemovePassword pw now"
  shows "safe_step (safe_of (ve_crypto env) (v_state v)) oper (vault_answer env (v, w) oper)
    (safe_of (ve_crypto env) (v_state (fst (vault_step env (v, w) oper))))"
proof -
  let ?c = "ve_crypto env"
  obtain r v1 w1 where verify: "verify_password env v pw now w = (r, v1, w1)" by (metis prod_cases3)
  note state = verify_password_state [OF verify]
  from assms(3) verify show ?thesis
  proof (cases rule: guess_cases)
    case (refused e secs)
    have "safe_step (safe_of ?c (v_state v)) oper (Inl e) (safe_of ?c (v_state v))"
      using not_verified [where pws = "passwords_of ?c (u_header u)", OF assms(4) refused(2)] assms(3) by simp
    with refused(1) verify state assms(4) show ?thesis
      by (auto simp: change_password_def remove_password_def)
  next
    case right
    consider "oper = OpVerify pw now" | "oper = OpChangePassword pw new params now" |
      "oper = OpRemovePassword pw now" using assms(4) by blast
    then show ?thesis
    proof cases
      case 1
      with right verify state assms(3) verified show ?thesis by simp
    next
      case 2
      obtain r2 v2 w2 where set: "set_password env v1 new params (vault_remembered (v_state v1)) w1 =
          (r2, v2, w2)" by (metis prod_cases3)
      have "safe_step (safe_of ?c (v_state v)) (OpSetPassword new params (vault_remembered (v_state v1)))
          (map_sum id (\<lambda>_. ADone) r2) (safe_of ?c (v_state v2))"
        using set_password_step [OF assms(1) _ _ set] assms(2,3) state by simp
      with password_changed right(2) 2 assms(3) verify set right(1) show ?thesis
        by (simp add: change_password_def)
    next
      case 3
      let ?vid = "h_vault_id (u_header u)"
      let ?h = "\<lparr>h_vault_id = ?vid, h_holder = HKeyring, h_body_nonce = replicate NONCE_LEN 0\<rparr>"
      have same: "safe_step (safe_of ?c (v_state v)) oper (Inl e) (safe_of ?c (v_state v))"
        if "outside e" for e
        using password_not_removed [where pws = "passwords_of ?c (u_header u)", OF right(2) that] 3 assms(3)
        by simp
      obtain r2 w2 where stored: "store_set env w1 (entry_name env ?vid) (u_key u) = (r2, w2)" by force
      obtain r3 w3 where wrote: "vault_write env v1 ?h (u_key u) (u_entries u) w2 = (r3, w3)" by force
      show ?thesis
      proof (cases r2)
        case (Inl e)
        then have "outside e" using stored by (auto simp: store_set_def split: prod.splits sum.splits)
        from same [OF this] Inl stored 3 verify right(1) state assms(3) show ?thesis
          by (simp add: remove_password_def)
      next
        case (Inr x)
        show ?thesis
        proof (cases r3)
          case (Inl e)
          from same [OF vault_write_outside [OF wrote [unfolded Inl]]] Inl Inr stored wrote 3 verify right(1)
            state assms(3)
          show ?thesis by (simp add: remove_password_def)
        next
          case written: (Inr y)
          then obtain h vf where y: "r3 = Inr (h, vf)" by (metis surj_pair)
          have "passwords_of ?c h = Map.empty"
            using vault_write_header [OF wrote [unfolded y]] by (intro passwords_of_keyring) simp
          with y Inr stored wrote 3 verify right state assms(3) password_removed
          show ?thesis by (simp add: remove_password_def)
        qed
      qed
    qed
  qed
qed

lemma create_step:
  assumes "crypto_ok (ve_crypto env)"
  shows "safe_step (safe_of (ve_crypto env) (v_state v)) (OpCreate pw params)
    (vault_answer env (v, w) (OpCreate pw params))
    (safe_of (ve_crypto env) (v_state (fst (vault_step env (v, w) (OpCreate pw params)))))"
proof (cases "v_state v = Missing")
  case False
  then have "safe_of (ve_crypto env) (v_state v) \<noteq> NoSafe" by (cases "v_state v") simp_all
  with False exists show ?thesis by (simp add: vault_create_def)
next
  case True
  let ?c = "ve_crypto env"
  obtain r v' w' where run: "vault_create env v pw params w = (r, v', w')" by (metis prod_cases3)
  have "safe_step NoSafe (OpCreate pw params) (map_sum id (\<lambda>_. ADone) r) (safe_of ?c (v_state v'))"
  proof (cases r)
    case (Inl e)
    have "v' = v" and "outside e"
      using run True Inl
      by (auto simp: vault_create_def store_set_def Let_def
          split: sum.splits prod.splits option.splits if_splits
          dest!: vault_write_outside make_password_slot_file_error intro: outside_file_error)
    with Inl True not_created show ?thesis by simp
  next
    case (Inr x)
    have "\<exists>u. v_state v' = Unlocked u \<and> u_entries u = [] \<and>
      (case pw of None \<Rightarrow> passwords_of ?c (u_header u) = Map.empty
       | Some p \<Rightarrow> passwords_of ?c (u_header u) p = Some (u_key u))"
      using run True Inr
      by (auto simp: vault_create_def Let_def passwords_of_keyring
          split: sum.splits prod.splits option.splits if_splits
          dest!: vault_write_header random_array_length intro: own_password [OF assms])
    then obtain u where u: "v_state v' = Unlocked u" "u_entries u = []"
      "case pw of None \<Rightarrow> passwords_of ?c (u_header u) = Map.empty
       | Some p \<Rightarrow> passwords_of ?c (u_header u) p = Some (u_key u)"
      by blast
    show ?thesis
      using Inr u by (cases pw) (auto intro: created created_keyring)
  qed
  with run True show ?thesis by simp
qed

lemma unlock_step:
  assumes "vault_inv (ve_crypto env) (v_state v)"
  shows "safe_step (safe_of (ve_crypto env) (v_state v)) (OpUnlock pw now)
    (vault_answer env (v, w) (OpUnlock pw now))
    (safe_of (ve_crypto env) (v_state (fst (vault_step env (v, w) (OpUnlock pw now)))))"
proof (cases "v_state v")
  case (Locked h bs)
  let ?c = "ve_crypto env"
  obtain r v1 w1 where run: "vault_unlock env v pw now w = (r, v1, w1)" by (metis prod_cases3)
  show ?thesis
  proof (cases "h_holder h = HKeyring")
    case True
    then have "safe_step (safe_of ?c (Locked h bs)) (OpUnlock pw now) (Inl EWrongMode) (safe_of ?c (Locked h bs))"
      by (simp add: unlock_damaged passwords_of_keyring)
    with True Locked show ?thesis by (simp add: vault_unlock_def try_password_def)
  next
    case False
    from Locked False run show ?thesis
    proof (cases rule: vault_unlock_cases)
      case (waits s)
      have "s \<le> 300" using backoff_wait_le_300 [of "ve_codec env" "v_backoff v" now w] waits by simp
      with waits Locked run unlock_waits show ?thesis by simp
    next
      case (wrong s b wb wf)
      have "s \<le> 300" using backoff_wait_le_300 [of "ve_codec env" b now wb] wrong by simp
      with wrong Locked run unlock_wrong show ?thesis by (simp add: passwords_of_def)
    next
      case (other e)
      then have "inside_of ?c bs k = None" if "passwords_of ?c h pw = Some k" for k
        using that by (cases "open_file ?c bs k") (auto simp: passwords_of_def inside_of_def split: sum.splits)
      with other Locked run unlock_damaged show ?thesis by simp
    next
      case (right key u)
      have "u_header u = h"
        using assms Locked open_file_wf [OF right(4)] by (auto simp: vault_inv_def)
      moreover have "passwords_of ?c h pw = Some key" "inside_of ?c bs key = Some (bt_get (u_entries u))"
        using right by (simp_all add: passwords_of_def inside_of_def)
      ultimately show ?thesis using right Locked run unlock_right by simp
    qed
  qed
qed (simp_all add: vault_unlock_def unlock_none unlock_open)

lemma keyring_step:
  assumes "vault_inv (ve_crypto env) (v_state v)"
  shows "safe_step (safe_of (ve_crypto env) (v_state v)) OpUnlockKeyring
    (vault_answer env (v, w) OpUnlockKeyring)
    (safe_of (ve_crypto env) (v_state (fst (vault_step env (v, w) OpUnlockKeyring))))"
proof (cases "v_state v")
  case (Locked h bs)
  let ?c = "ve_crypto env"
  have no: "safe_step (safe_of ?c (v_state v)) OpUnlockKeyring (Inr (AOpened False)) (safe_of ?c (v_state v))"
    and fails: "outside e \<Longrightarrow>
      safe_step (safe_of ?c (v_state v)) OpUnlockKeyring (Inl e) (safe_of ?c (v_state v))" for e
    using Locked by (simp_all add: keyring_no_key keyring_fails)
  show ?thesis
  proof (cases "ks_get (ve_store env) (ring w) (entry_name env (h_vault_id h))")
    case (Inl e)
    with Locked fails show ?thesis by (simp add: unlock_with_keyring_def)
  next
    case (Inr stored)
    show ?thesis
    proof (cases "Option.bind stored key_from_slice")
      case None
      with Inr Locked no show ?thesis
        by (cases stored) (simp_all add: unlock_with_keyring_def)
    next
      case (Some key)
      then obtain bytes where stored: "stored = Some bytes" "key_from_slice bytes = Some key"
        by (cases stored) auto
      show ?thesis
      proof (cases "open_file ?c bs key")
        case bad: (Inl e)
        have "outside e" using open_file_file_error [OF bad] by (rule outside_file_error)
        with bad Inr stored Locked no fails show ?thesis
          by (cases e) (simp_all add: unlock_with_keyring_def)
      next
        case opened: (Inr x)
        obtain h' es where x: "x = (h', es)" by force
        have "inside_of ?c bs key = Some (bt_get es)" using opened x by (simp add: inside_of_def)
        with opened x Inr stored Locked keyring_opens show ?thesis
          by (simp add: unlock_with_keyring_def)
      qed
    qed
  qed
qed (simp_all add: unlock_with_keyring_def keyring_no_key keyring_open)

lemma lock_step:
  assumes "vault_inv c (v_state v)"
  shows "safe_step (safe_of c (v_state v)) OpLock (Inr ADone) (safe_of c (v_state (vault_lock v)))"
proof (cases "v_state v")
  case (Unlocked u)
  have "inside_of c (u_file u) (u_key u) = Some (bt_get (u_entries u))"
    using vault_invD(1) [OF assms [unfolded Unlocked]] by (simp add: inside_of_def)
  with Unlocked locked show ?thesis by (simp add: vault_lock_def)
qed (simp_all add: vault_lock_def lock_again)

lemma reset_step:
  "safe_step (safe_of c (v_state v)) OpReset (map_sum id (\<lambda>_. ADone) (fst (vault_reset env v w)))
    (safe_of c (v_state (fst (snd (vault_reset env v w)))))"
  by (auto simp: vault_reset_def Let_def emptied not_emptied split: option.splits prod.splits sum.splits
      io_error.splits)

lemma remember_step:
  assumes "v_state v = Unlocked u"
  shows "safe_step (safe_of c (v_state v)) (OpSetRemember rem)
    (map_sum id (\<lambda>_. ADone) (fst (set_remember env v rem w)))
    (safe_of c (v_state (fst (snd (set_remember env v rem w)))))"
  using assms
  by (auto simp: set_remember_def store_set_def store_delete_def Let_def remembered not_remembered
      split: prod.splits sum.splits)

lemma closed_step:
  assumes "get_unlocked (v_state v) = Inl e" and "needs_open oper"
    and "\<forall>i x. oper \<noteq> OpInsert i x \<and> oper \<noteq> OpReplace i x"
  shows "safe_step (safe_of (ve_crypto env) (v_state v)) oper (vault_answer env (v, w) oper)
    (safe_of (ve_crypto env) (v_state (fst (vault_step env (v, w) oper))))"
proof -
  have "safe_step (safe_of (ve_crypto env) (v_state v)) oper (Inl e) (safe_of (ve_crypto env) (v_state v))"
    using assms by (intro not_open) (simp_all add: complaint_safe_of)
  then show ?thesis
    using closed_op [OF assms(1), where env = env and w = w] assms by (cases oper) simp_all
qed

lemma open_step:
  assumes "crypto_ok (ve_crypto env)" and "vault_inv (ve_crypto env) (v_state v)"
    and u: "v_state v = Unlocked u" and "needs_open oper"
    and "\<forall>i x. oper \<noteq> OpInsert i x \<and> oper \<noteq> OpReplace i x"
  shows "safe_step (safe_of (ve_crypto env) (v_state v)) oper (vault_answer env (v, w) oper)
    (safe_of (ve_crypto env) (v_state (fst (vault_step env (v, w) oper))))"
proof (cases oper)
  case (OpRetain keep)
  obtain r v' w' where run: "vault_retain env v keep w = (r, v', w')" by (metis prod_cases3)
  with retain_step [OF assms(2) refl u run] u OpRetain show ?thesis
    by (auto intro: retained not_retained [OF _ domI])
next
  case (OpRemove ids)
  obtain r v' w' where run: "vault_retain env v (\<lambda>i. i \<notin> set ids) w = (r, v', w')"
    by (metis prod_cases3)
  have "{i \<in> dom m. \<not> i \<notin> set ids} = dom m \<inter> set ids" "{i. i \<notin> set ids} = - set ids"
    for m :: "nat \<rightharpoonup> secret"
    by auto
  with retain_step [OF assms(2) refl u run] u OpRemove run show ?thesis
    by (auto simp: vault_remove_def intro: removed not_removed [OF _ IntI [OF domI]])
next
  case (OpSetPassword pw params rem)
  obtain r v' w' where run: "set_password env v pw params rem w = (r, v', w')" by (metis prod_cases3)
  with set_password_step [OF assms(1,2) u run] OpSetPassword show ?thesis by simp
next
  case (OpVerify pw now)
  then show ?thesis using password_step [OF assms(1,2) u] by blast
next
  case (OpChangePassword cur new params now)
  then show ?thesis using password_step [OF assms(1,2) u] by blast
next
  case (OpRemovePassword cur now)
  then show ?thesis using password_step [OF assms(1,2) u] by blast
next
  case (OpSetRemember rem)
  then show ?thesis using remember_step [OF u] by simp
qed (use assms in simp_all)

lemma vault_step_refines:
  assumes "crypto_ok (ve_crypto env)" and "vault_inv (ve_crypto env) (v_state v)"
  shows "safe_step (safe_of (ve_crypto env) (v_state v)) oper (vault_answer env (v, w) oper)
    (safe_of (ve_crypto env) (v_state (fst (vault_step env (v, w) oper))))"
proof (cases "(\<exists>i x. oper = OpInsert i x \<or> oper = OpReplace i x) \<or> \<not> needs_open oper")
  case True
  show ?thesis
  proof (cases oper)
    case (OpInsert i x)
    then show ?thesis using store_step by blast
  next
    case (OpReplace i x)
    then show ?thesis using store_step by blast
  next
    case (OpWait now)
    with backoff_wait_le_300 [of "ve_codec env" "v_backoff v" now w] waits show ?thesis
      by (auto simp: vault_wait_def split: prod.splits)
  next
    case (OpCreate pw params)
    then show ?thesis using create_step [OF assms(1)] by blast
  next
    case (OpUnlock pw now)
    then show ?thesis using unlock_step [OF assms(2)] by blast
  next
    case OpUnlockKeyring
    then show ?thesis using keyring_step [OF assms(2)] by blast
  next
    case OpLock
    then show ?thesis using lock_step [OF assms(2)] by simp
  next
    case OpReset
    then show ?thesis using reset_step [of _ v env w] by simp
  qed (use True in simp_all)
next
  case False
  show ?thesis
  proof (cases "v_state v")
    case (Unlocked u)
    with False open_step [OF assms Unlocked] show ?thesis by blast
  qed (use False in \<open>intro closed_step; simp\<close>)+
qed

interpretation vr: refinement "vault_step env"
  "\<lambda>s. crypto_ok (ve_crypto env) \<and> vault_inv (ve_crypto env) (v_state (fst s))" op_ok
  "vault_answers env" "\<lambda>s. safe_of (ve_crypto env) (v_state (fst s))" safe_step
  for env :: "'s vault_env"
proof (unfold_locales, goal_cases)
  case (2 s oper ops)
  then show ?case by (cases s) (auto intro: vault_step_refines)
qed simp

text \<open>
  C3: the vault refines the safe. Over any sequence of operations, with any failing system calls,
  keyring and cipher that decrypts what it encrypted, the answers and what can be seen of the
  secrets are as the abstract safe allows. A password opens the safe only if it gives a key that
  opens the file, and then shows exactly the secrets that are inside; a right password is refused
  only while a wait is due. Storing, replacing and deleting change the map of secrets as they
  answer, or fail and leave it; closing the open safe leaves its secrets inside for its key. A
  new password opens the safe afterwards, and no change of password or keyring copy touches a
  secret.
\<close>

theorem vault_refines_safe:
  assumes "crypto_ok (ve_crypto env)" and "vault_inv (ve_crypto env) (v_state v)" and "list_all op_ok ops"
  shows "spec_run safe_step (safe_of (ve_crypto env) (v_state v)) (zip ops (vault_answers env (v, w) ops))
    (safe_of (ve_crypto env) (v_state (fst (foldl (vault_step env) (v, w) ops))))"
  using vr.run_refines [of env "(v, w)" ops] assms by simp

theorem vault_refines_safe_witness:
  "spec_run safe_step NoSafe
     (zip [OpCreate None RECOMMENDED, OpInsert 5 \<lparr>s_kind = KPassword, s_data = [1]\<rparr>, OpLock]
        (vault_answers sample_env (sample_vault, sample_start [])
          [OpCreate None RECOMMENDED, OpInsert 5 \<lparr>s_kind = KPassword, s_data = [1]\<rparr>, OpLock]))
     (safe_of plain_crypto (v_state (fst (foldl (vault_step sample_env) (sample_vault, sample_start [])
        [OpCreate None RECOMMENDED, OpInsert 5 \<lparr>s_kind = KPassword, s_data = [1]\<rparr>, OpLock]))))"
  using vault_refines_safe [of sample_env sample_vault
      "[OpCreate None RECOMMENDED, OpInsert 5 \<lparr>s_kind = KPassword, s_data = [1]\<rparr>, OpLock]" "sample_start []"]
    plain_crypto_ok
  by (simp add: entry_ok_def sample_vault_def del: foldl_Cons zip_Cons_Cons vault_answers.simps)

end
