(* ===== verification/F64.thy ===== *)
theory F64
  imports Complex_Main "HOL-Library.Log_Nat"
begin

text \<open>
  Rust's \<open>f64\<close> as the code uses it: IEEE 754 binary64, rounding to nearest with ties to even,
  with infinities and NaN. A finite value is the rational number it stands for, so the two
  zeros are one value (no operation of the modelled code tells them apart). \<open>frnd\<close> rounds a
  rational; the arithmetic operations round the exact result and overflow to an infinity.

  The lemmas give what the geometry proofs need of rounding: it is monotone, leaves
  representable numbers alone, and so keeps a result between representable bounds.
\<close>

datatype f64 = Fin rat | PInf | NInf | NaN

subsection \<open>Rounding\<close>

definition round_even :: "rat \<Rightarrow> int" where
  "round_even q =
     (let n = \<lfloor>q\<rfloor>; d = q - of_int n
      in if d < 1/2 then n else if d > 1/2 then n + 1 else if even n then n else n + 1)"

text \<open>
  A non-negative number in units of the smallest positive \<open>f64\<close>, \<open>2 ^ -1074\<close>: with a bit length
  of \<open>53 + s\<close> its last \<open>s\<close> bits are rounded away.
\<close>

definition round_unit :: "rat \<Rightarrow> rat" where
  "round_unit z =
     (let s = floorlog 2 (nat \<lfloor>z\<rfloor>) - 53 in of_int (round_even (z / 2 ^ s)) * 2 ^ s)"

definition f64_scale :: rat where
  "f64_scale = 2 ^ 1074"

definition f64_limit :: rat where
  "f64_limit = 2 ^ 1024"

definition frnd :: "rat \<Rightarrow> rat" where
  "frnd x =
     (if x < 0 then - (round_unit (- x * f64_scale) / f64_scale)
      else round_unit (x * f64_scale) / f64_scale)"

definition fl :: "rat \<Rightarrow> f64" where
  "fl x = (let y = frnd x
           in if y \<ge> f64_limit then PInf else if y \<le> - f64_limit then NInf else Fin y)"

subsection \<open>Operations\<close>

fun is_finite :: "f64 \<Rightarrow> bool" where
  "is_finite (Fin _) = True"
| "is_finite _ = False"

fun f_neg :: "f64 \<Rightarrow> f64" where
  "f_neg (Fin x) = Fin (- x)"
| "f_neg PInf = NInf"
| "f_neg NInf = PInf"
| "f_neg NaN = NaN"

fun f_add :: "f64 \<Rightarrow> f64 \<Rightarrow> f64" where
  "f_add (Fin x) (Fin y) = fl (x + y)"
| "f_add NaN _ = NaN"
| "f_add _ NaN = NaN"
| "f_add PInf NInf = NaN"
| "f_add NInf PInf = NaN"
| "f_add PInf _ = PInf"
| "f_add _ PInf = PInf"
| "f_add NInf _ = NInf"
| "f_add _ NInf = NInf"

definition f_sub :: "f64 \<Rightarrow> f64 \<Rightarrow> f64" where
  "f_sub a b = f_add a (f_neg b)"

definition inf_of_sign :: "rat \<Rightarrow> f64" where
  "inf_of_sign x = (if x > 0 then PInf else if x < 0 then NInf else NaN)"

fun f_mul :: "f64 \<Rightarrow> f64 \<Rightarrow> f64" where
  "f_mul (Fin x) (Fin y) = fl (x * y)"
| "f_mul NaN _ = NaN"
| "f_mul _ NaN = NaN"
| "f_mul (Fin x) PInf = inf_of_sign x"
| "f_mul (Fin x) NInf = inf_of_sign (- x)"
| "f_mul PInf (Fin x) = inf_of_sign x"
| "f_mul NInf (Fin x) = inf_of_sign (- x)"
| "f_mul PInf PInf = PInf"
| "f_mul NInf NInf = PInf"
| "f_mul _ _ = NInf"

text \<open>
  Division; the code divides by a positive number only, so the sign of a zero divisor (which
  would choose between the infinities) does not matter and gives NaN here.
\<close>

fun f_div :: "f64 \<Rightarrow> f64 \<Rightarrow> f64" where
  "f_div (Fin x) (Fin y) = (if y = 0 then NaN else fl (x / y))"
| "f_div (Fin _) PInf = Fin 0"
| "f_div (Fin _) NInf = Fin 0"
| "f_div PInf (Fin y) = inf_of_sign y"
| "f_div NInf (Fin y) = inf_of_sign (- y)"
| "f_div _ _ = NaN"

fun f_lt :: "f64 \<Rightarrow> f64 \<Rightarrow> bool" where
  "f_lt NaN _ = False"
| "f_lt _ NaN = False"
| "f_lt (Fin x) (Fin y) = (x < y)"
| "f_lt NInf b = (b \<noteq> NInf)"
| "f_lt a PInf = (a \<noteq> PInf)"
| "f_lt _ _ = False"

fun f_eq :: "f64 \<Rightarrow> f64 \<Rightarrow> bool" where
  "f_eq NaN _ = False"
| "f_eq a b = (a = b)"

definition f_le :: "f64 \<Rightarrow> f64 \<Rightarrow> bool" where
  "f_le a b \<longleftrightarrow> f_lt a b \<or> f_eq a b"

text \<open>\<open>f64::min\<close> and \<open>f64::max\<close>: the other operand when one is NaN; \<open>f64::clamp\<close> keeps NaN.\<close>

definition f_min :: "f64 \<Rightarrow> f64 \<Rightarrow> f64" where
  "f_min a b = (if a = NaN then b else if b = NaN then a else if f_lt b a then b else a)"

definition f_max :: "f64 \<Rightarrow> f64 \<Rightarrow> f64" where
  "f_max a b = (if a = NaN then b else if b = NaN then a else if f_lt a b then b else a)"

definition f_clamp :: "f64 \<Rightarrow> f64 \<Rightarrow> f64 \<Rightarrow> f64" where
  "f_clamp x lo hi = (let x = (if f_lt x lo then lo else x) in if f_lt hi x then hi else x)"

fun f_abs :: "f64 \<Rightarrow> f64" where
  "f_abs (Fin x) = Fin \<bar>x\<bar>"
| "f_abs NInf = PInf"
| "f_abs x = x"

subsection \<open>Rounding is monotone\<close>

lemma round_even_of_int [simp]: "round_even (of_int n) = n"
  by (simp add: round_even_def)

lemma round_even_cases: "round_even q = \<lfloor>q\<rfloor> \<or> round_even q = \<lfloor>q\<rfloor> + 1"
  by (simp add: round_even_def Let_def)

lemma round_even_mono: "p \<le> q \<Longrightarrow> round_even p \<le> round_even q"
proof (cases "\<lfloor>p\<rfloor> = \<lfloor>q\<rfloor>")
  case True
  moreover assume "p \<le> q"
  ultimately show ?thesis by (auto simp: round_even_def Let_def)
next
  case False
  moreover assume "p \<le> q"
  ultimately have "\<lfloor>p\<rfloor> + 1 \<le> \<lfloor>q\<rfloor>" using floor_mono [of p q] by linarith
  then show ?thesis using round_even_cases [of p] round_even_cases [of q] by linarith
qed

lemma round_even_ge: "of_int n \<le> q \<Longrightarrow> n \<le> round_even q"
  using round_even_mono [of "of_int n" q] by simp

lemma round_even_le: "q \<le> of_int n \<Longrightarrow> round_even q \<le> n"
  using round_even_mono [of q "of_int n"] by simp

lemma floorlog_upper: "0 \<le> z \<Longrightarrow> z < 2 ^ floorlog 2 (nat \<lfloor>z\<rfloor>)" for z :: rat
proof -
  assume "0 \<le> z"
  have "nat \<lfloor>z\<rfloor> < 2 ^ floorlog 2 (nat \<lfloor>z\<rfloor>)"
    by (rule floorlog_leD) simp_all
  then have "\<lfloor>z\<rfloor> + 1 \<le> 2 ^ floorlog 2 (nat \<lfloor>z\<rfloor>)"
    using \<open>0 \<le> z\<close> by (simp add: nat_less_iff zless_imp_add1_zle)
  then have "of_int (\<lfloor>z\<rfloor> + 1) \<le> (2 ^ floorlog 2 (nat \<lfloor>z\<rfloor>) :: rat)"
    by (metis of_int_le_iff of_int_numeral of_int_power)
  then show ?thesis using floor_correct [of z] by simp
qed

lemma floorlog_lower: "0 < floorlog 2 (nat \<lfloor>z\<rfloor>) \<Longrightarrow> 2 ^ (floorlog 2 (nat \<lfloor>z\<rfloor>) - 1) \<le> z" for z :: rat
proof -
  let ?k = "floorlog 2 (nat \<lfloor>z\<rfloor>)"
  assume "0 < ?k"
  then have "2 ^ (?k - 1) \<le> nat \<lfloor>z\<rfloor>" by (intro floorlog_geD) simp_all
  then have "2 ^ (?k - 1) \<le> \<lfloor>z\<rfloor>" by (simp add: le_nat_iff nat_le_eq_zle [symmetric] le_nat_iff)
  then show ?thesis by (metis le_floor_iff of_int_numeral of_int_power)
qed

lemma round_unit_mono:
  assumes "0 \<le> z" and "z \<le> z'"
  shows "round_unit z \<le> round_unit z'"
proof -
  let ?k = "\<lambda>z::rat. floorlog 2 (nat \<lfloor>z\<rfloor>)"
  let ?s = "?k z - 53" and ?s' = "?k z' - 53"
  have "?k z \<le> ?k z'" using assms by (intro floorlog_mono nat_mono floor_mono)
  then have "?s \<le> ?s'" by simp
  show ?thesis
  proof (cases "?s = ?s'")
    case True
    have "round_even (z / 2 ^ ?s) \<le> round_even (z' / 2 ^ ?s)"
      using assms by (intro round_even_mono divide_right_mono) simp_all
    with True show ?thesis by (simp add: round_unit_def Let_def)
  next
    case False
    with \<open>?s \<le> ?s'\<close> have less: "?s + 1 \<le> ?s'" "?k z' = ?s' + 53" by simp_all
    have "(2 ^ ?k z :: rat) \<le> 2 ^ (53 + ?s)" by (rule power_increasing) simp_all
    then have "z \<le> 2 ^ (53 + ?s)" using floorlog_upper [OF assms(1)] by linarith
    then have "z / 2 ^ ?s \<le> of_int (2 ^ 53)" by (simp add: power_add divide_le_eq)
    then have "round_even (z / 2 ^ ?s) \<le> 2 ^ 53" by (rule round_even_le)
    then have "of_int (round_even (z / 2 ^ ?s)) \<le> (2 ^ 53 :: rat)"
      by (metis of_int_le_iff of_int_numeral of_int_power)
    then have "round_unit z \<le> 2 ^ 53 * 2 ^ ?s"
      unfolding round_unit_def Let_def by (rule mult_right_mono) simp
    also have "\<dots> = 2 ^ 52 * 2 ^ (?s + 1)" by simp
    also have "\<dots> \<le> 2 ^ 52 * 2 ^ ?s'"
      by (rule mult_left_mono, rule power_increasing) (use less in simp_all)
    also have "\<dots> \<le> round_unit z'"
    proof -
      have "2 ^ (?k z' - 1) \<le> z'" by (rule floorlog_lower) (use less in simp)
      also have "?k z' - 1 = 52 + ?s'" using less by simp
      finally have "of_int (2 ^ 52) \<le> z' / 2 ^ ?s'" by (simp add: power_add le_divide_eq)
      then have "2 ^ 52 \<le> round_even (z' / 2 ^ ?s')" by (rule round_even_ge)
      then have "2 ^ 52 \<le> (of_int (round_even (z' / 2 ^ ?s')) :: rat)"
        by (metis of_int_le_iff of_int_numeral of_int_power)
      then show ?thesis unfolding round_unit_def Let_def by (rule mult_right_mono) simp
    qed
    finally show ?thesis .
  qed
qed

subsection \<open>Representable numbers\<close>

text \<open>A whole number of units whose last \<open>s\<close> bits are zero, with \<open>s\<close> as rounding takes it, stays.\<close>

lemma round_unit_exact:
  assumes "n < 2 ^ (53 + s)" and "2 ^ s dvd n"
  shows "round_unit (of_nat n) = of_nat n"
proof -
  let ?s = "floorlog 2 (nat \<lfloor>of_nat n :: rat\<rfloor>) - 53"
  have "floorlog 2 n \<le> 53 + s" using assms(1) by (intro floorlog_leI) simp_all
  then have "2 ^ ?s dvd n" using assms(2) le_imp_power_dvd [of ?s s "2 :: nat"] by (auto intro: dvd_trans)
  then obtain m where m: "n = 2 ^ ?s * m" ..
  have "(of_nat n :: rat) / 2 ^ ?s = of_int (int m)" by (subst m) simp
  then have "round_unit (of_nat n) = of_int (int m) * 2 ^ ?s"
    unfolding round_unit_def Let_def by (simp only: round_even_of_int)
  then show ?thesis by (subst (2) m) simp
qed

lemma round_unit_nonneg: "0 \<le> z \<Longrightarrow> 0 \<le> round_unit z"
  unfolding round_unit_def Let_def by (simp add: round_even_ge)

lemma round_unit_idem:
  assumes "0 \<le> z"
  shows "round_unit (round_unit z) = round_unit z"
proof -
  let ?k = "floorlog 2 (nat \<lfloor>z\<rfloor>)"
  let ?s = "?k - 53" and ?m = "round_even (z / 2 ^ (?k - 53))"
  have "(2 ^ ?k :: rat) \<le> 2 ^ (53 + ?s)" by (rule power_increasing) simp_all
  then have "z \<le> 2 ^ (53 + ?s)" using floorlog_upper [OF assms] by linarith
  then have "z / 2 ^ ?s \<le> of_int (2 ^ 53)" by (simp add: power_add divide_le_eq)
  then have upper: "?m \<le> 2 ^ 53" by (rule round_even_le)
  have "0 \<le> ?m" using assms by (simp add: round_even_ge)
  define n where "n = nat ?m * 2 ^ ?s"
  have z: "round_unit z = of_nat n"
    using \<open>0 \<le> ?m\<close> by (simp add: round_unit_def Let_def n_def of_nat_mult)
  have "\<exists>s. n < 2 ^ (53 + s) \<and> 2 ^ s dvd n"
  proof (cases "?m = 2 ^ 53")
    case True
    then have "n = 2 ^ (53 + ?s)" by (simp add: n_def power_add nat_power_eq)
    moreover have "(2 :: nat) ^ (?s + 1) dvd 2 ^ (53 + ?s)" by (rule le_imp_power_dvd) simp
    ultimately show ?thesis by (intro exI [of _ "?s + 1"]) simp
  next
    case False
    with upper have "nat ?m < 2 ^ 53" using \<open>0 \<le> ?m\<close> by (simp add: nat_less_iff)
    then have "n < 2 ^ (53 + ?s)" by (simp add: n_def power_add)
    then show ?thesis by (intro exI [of _ ?s]) (simp add: n_def)
  qed
  then show ?thesis using round_unit_exact z by metis
qed

lemma f64_scale_pos [simp]: "0 < f64_scale" "f64_scale \<noteq> 0" "0 \<le> f64_scale"
  by (simp_all add: f64_scale_def)

lemma frnd_mono: "x \<le> y \<Longrightarrow> frnd x \<le> frnd y"
proof -
  assume "x \<le> y"
  have pos: "0 \<le> a \<Longrightarrow> a \<le> b \<Longrightarrow> round_unit (a * f64_scale) / f64_scale \<le> round_unit (b * f64_scale) / f64_scale"
    for a b by (intro divide_right_mono round_unit_mono mult_right_mono) simp_all
  have nonneg: "0 \<le> a \<Longrightarrow> 0 \<le> round_unit (a * f64_scale) / f64_scale" for a
    by (intro divide_nonneg_pos round_unit_nonneg) simp_all
  show ?thesis
    using \<open>x \<le> y\<close> pos [of x y] pos [of "- y" "- x"] nonneg [of y] nonneg [of "- x"]
    by (auto simp: frnd_def)
qed

lemma frnd_minus: "frnd (- x) = - frnd x"
proof -
  have "round_unit 0 = 0" by (simp add: round_unit_def Let_def round_even_def)
  then show ?thesis by (cases "x = 0") (auto simp: frnd_def)
qed

lemma frnd_idem [simp]: "frnd (frnd x) = frnd x"
proof -
  have pos: "frnd (frnd x) = frnd x" if "0 \<le> x" for x
  proof -
    have "\<not> round_unit (x * f64_scale) / f64_scale < 0"
      using that by (simp add: round_unit_nonneg not_less)
    then show ?thesis using that by (simp add: frnd_def round_unit_idem)
  qed
  show ?thesis
  proof (cases "0 \<le> x")
    case False
    then have "frnd (frnd (- x)) = frnd (- x)" by (intro pos) simp
    then show ?thesis by (simp add: frnd_minus)
  qed (rule pos)
qed

text \<open>Small fractions with a power of two below are exact.\<close>

lemma frnd_dyadic: "m < 2 ^ 53 \<Longrightarrow> j \<le> 1074 \<Longrightarrow> frnd (of_nat m / 2 ^ j) = of_nat m / 2 ^ j"
proof -
  assume "m < 2 ^ 53" and "j \<le> 1074"
  let ?s = "1074 - j"
  have scale: "f64_scale = 2 ^ ?s * 2 ^ j"
    using \<open>j \<le> 1074\<close> unfolding f64_scale_def by (simp only: power_add [symmetric] le_add_diff_inverse2)
  have scaled: "of_nat m / 2 ^ j * f64_scale = of_nat (m * 2 ^ ?s)"
    unfolding scale by simp
  have "round_unit (of_nat (m * 2 ^ ?s)) = of_nat (m * 2 ^ ?s)"
    by (rule round_unit_exact [where s = ?s]) (use \<open>m < 2 ^ 53\<close> in \<open>simp_all add: power_add\<close>)
  then have "round_unit (of_nat m / 2 ^ j * f64_scale) = of_nat m / 2 ^ j * f64_scale"
    by (simp only: scaled)
  moreover have "\<not> of_nat m / 2 ^ j < (0 :: rat)" by (simp add: not_less)
  ultimately show ?thesis by (simp only: frnd_def if_False) simp
qed

lemma frnd_simps [simp]: "frnd 0 = 0" "frnd 1 = 1" "frnd (1/2) = 1/2"
  using frnd_dyadic [of 0 0] frnd_dyadic [of 1 0] frnd_dyadic [of 1 1] by simp_all

lemma frnd_between:
  assumes "frnd a = a" and "frnd b = b" and "a \<le> x" and "x \<le> b"
  shows "a \<le> frnd x" and "frnd x \<le> b"
  using frnd_mono [OF assms(3)] frnd_mono [OF assms(4)] assms(1,2) by simp_all

text \<open>Results up to \<open>2 ^ 52\<close> do not overflow.\<close>

lemma fl_Fin: "\<bar>x\<bar> \<le> 2 ^ 52 \<Longrightarrow> fl x = Fin (frnd x)"
proof -
  assume "\<bar>x\<bar> \<le> 2 ^ 52"
  have "frnd (2 ^ 52) = 2 ^ 52" using frnd_dyadic [of "2 ^ 52" 0] by simp
  then have "- (2 ^ 52) \<le> frnd x \<and> frnd x \<le> 2 ^ 52"
    using frnd_between [of "- (2 ^ 52)" "2 ^ 52" x] \<open>\<bar>x\<bar> \<le> 2 ^ 52\<close>
    by (simp add: frnd_minus abs_le_iff)
  then show ?thesis by (simp add: fl_def f64_limit_def Let_def)
qed

text \<open>The values that an \<open>f64\<close> can have.\<close>

fun is_f64 :: "f64 \<Rightarrow> bool" where
  "is_f64 (Fin x) = (frnd x = x)"
| "is_f64 _ = True"

end
