(* ===== verification/Layout.thy ===== *)
theory Layout
  imports Prelude F64
begin

text \<open>
  The split tree of a tab (\<open>crates/opensesh-core/src/workspace/layout.rs\<close>): a binary tree whose
  leaves are panes. An operation that changes the tree in place gives the new tree with its
  result; a local function \<open>walk\<close> or \<open>find\<close> of a method is a function of its own here.
\<close>

subsection \<open>Data\<close>

type_synonym pane_id = int

definition MIN_RATIO :: f64 where "MIN_RATIO = fl (1/20)"
definition MAX_RATIO :: f64 where "MAX_RATIO = fl (19/20)"

datatype axis = Horizontal | Vertical

datatype direction = DLeft | DRight | DUp | DDown

fun dir_axis :: "direction \<Rightarrow> axis" where
  "dir_axis DLeft = Horizontal"
| "dir_axis DRight = Horizontal"
| "dir_axis DUp = Vertical"
| "dir_axis DDown = Vertical"

definition dir_forward :: "direction \<Rightarrow> bool" where
  "dir_forward d \<longleftrightarrow> d = DRight \<or> d = DDown"

datatype node = Pane pane_id | Split axis f64 node node

record rect =
  r_x :: f64
  r_y :: f64
  r_width :: f64
  r_height :: f64

definition RECT_UNIT :: rect where
  "RECT_UNIT = \<lparr>r_x = Fin 0, r_y = Fin 0, r_width = Fin 1, r_height = Fin 1\<rparr>"

fun rect_split :: "rect \<Rightarrow> axis \<Rightarrow> f64 \<Rightarrow> rect \<times> rect" where
  "rect_split r Horizontal ratio =
     (let first = f_mul (r_width r) ratio
      in (r\<lparr>r_width := first\<rparr>,
          r\<lparr>r_x := f_add (r_x r) first, r_width := f_sub (r_width r) first\<rparr>))"
| "rect_split r Vertical ratio =
     (let first = f_mul (r_height r) ratio
      in (r\<lparr>r_height := first\<rparr>,
          r\<lparr>r_y := f_add (r_y r) first, r_height := f_sub (r_height r) first\<rparr>))"

definition rect_center :: "rect \<Rightarrow> f64 \<times> f64" where
  "rect_center r =
     (f_add (r_x r) (f_div (r_width r) (Fin 2)), f_add (r_y r) (f_div (r_height r) (Fin 2)))"

record pane_rect =
  pr_pane :: pane_id
  pr_rect :: rect

record divider =
  d_path :: "bool list"
  d_axis :: axis
  d_area :: rect
  d_ratio :: f64

type_synonym layout = node

definition clamp_ratio :: "f64 \<Rightarrow> f64" where
  "clamp_ratio ratio = (if is_finite ratio then f_clamp ratio MIN_RATIO MAX_RATIO else Fin (1/2))"

subsection \<open>Building and reading\<close>

definition layout_single :: "pane_id \<Rightarrow> layout" where
  "layout_single p = Pane p"

fun fix_node :: "node \<Rightarrow> node" where
  "fix_node (Pane p) = Pane p"
| "fix_node (Split a ratio n m) = Split a (clamp_ratio ratio) (fix_node n) (fix_node m)"

fun panes :: "node \<Rightarrow> pane_id list" where
  "panes (Pane p) = [p]"
| "panes (Split _ _ n m) = panes n @ panes m"

definition from_node :: "node \<Rightarrow> string + layout" where
  "from_node tree =
     (let layout = fix_node tree; ps = panes layout
      in if length (remdups_adj (sort ps)) \<noteq> length ps
         then Inl ''a pane appears twice in the layout'' else Inr layout)"

definition layout_contains :: "layout \<Rightarrow> pane_id \<Rightarrow> bool" where
  "layout_contains l p \<longleftrightarrow> p \<in> set (panes l)"

subsection \<open>Splitting and closing\<close>

fun split_walk :: "node \<Rightarrow> pane_id \<Rightarrow> axis \<Rightarrow> pane_id \<Rightarrow> bool \<Rightarrow> bool \<times> node" where
  "split_walk (Pane p) target axis new after =
     (if p = target
      then let old = Pane target; added = Pane new;
               (n, m) = (if after then (old, added) else (added, old))
           in (True, Split axis (Fin (1/2)) n m)
      else (False, Pane p))"
| "split_walk (Split a ratio n m) target axis new after =
     (case split_walk n target axis new after of
        (True, n') \<Rightarrow> (True, Split a ratio n' m)
      | (False, n') \<Rightarrow>
          (let (done, m') = split_walk m target axis new after in (done, Split a ratio n' m')))"

definition layout_split :: "layout \<Rightarrow> pane_id \<Rightarrow> axis \<Rightarrow> pane_id \<Rightarrow> bool \<Rightarrow> bool \<times> layout" where
  "layout_split l target axis new after =
     (if layout_contains l new then (False, l) else split_walk l target axis new after)"

fun first_pane :: "node \<Rightarrow> pane_id" where
  "first_pane (Pane p) = p"
| "first_pane (Split _ _ n _) = first_pane n"

fun last_pane :: "node \<Rightarrow> pane_id" where
  "last_pane (Pane p) = p"
| "last_pane (Split _ _ _ m) = last_pane m"

fun close_walk :: "node \<Rightarrow> pane_id \<Rightarrow> pane_id option \<times> node" where
  "close_walk (Pane p) target = (None, Pane p)"
| "close_walk (Split a ratio n m) target =
     (if n = Pane target then (Some (first_pane m), m)
      else if m = Pane target then (Some (last_pane n), n)
      else case close_walk n target of
             (Some focus, n') \<Rightarrow> (Some focus, Split a ratio n' m)
           | (None, n') \<Rightarrow>
               (let (focus, m') = close_walk m target in (focus, Split a ratio n' m')))"

definition layout_close :: "layout \<Rightarrow> pane_id \<Rightarrow> pane_id option \<times> layout" where
  "layout_close l target = close_walk l target"

subsection \<open>Geometry\<close>

fun rects_walk :: "node \<Rightarrow> rect \<Rightarrow> pane_rect list" where
  "rects_walk (Pane p) area = [\<lparr>pr_pane = p, pr_rect = area\<rparr>]"
| "rects_walk (Split axis ratio n m) area =
     (let (a, b) = rect_split area axis ratio in rects_walk n a @ rects_walk m b)"

definition layout_rects :: "layout \<Rightarrow> pane_rect list" where
  "layout_rects l = rects_walk l RECT_UNIT"

fun dividers_walk :: "node \<Rightarrow> rect \<Rightarrow> bool list \<Rightarrow> divider list" where
  "dividers_walk (Pane p) area path = []"
| "dividers_walk (Split axis ratio n m) area path =
     (let (a, b) = rect_split area axis ratio
      in \<lparr>d_path = path, d_axis = axis, d_area = area, d_ratio = ratio\<rparr> #
         dividers_walk n a (path @ [False]) @ dividers_walk m b (path @ [True]))"

definition layout_dividers :: "layout \<Rightarrow> divider list" where
  "layout_dividers l = dividers_walk l RECT_UNIT []"

fun set_ratio :: "node \<Rightarrow> bool list \<Rightarrow> f64 \<Rightarrow> bool \<times> node" where
  "set_ratio (Pane p) path ratio = (False, Pane p)"
| "set_ratio (Split a old n m) [] ratio = (True, Split a (clamp_ratio ratio) n m)"
| "set_ratio (Split a old n m) (second # path) ratio =
     (if second
      then let (done, m') = set_ratio m path ratio in (done, Split a old n m')
      else let (done, n') = set_ratio n path ratio in (done, Split a old n' m))"

definition EPS :: f64 where
  "EPS = fl (1 / 10 ^ 9)"

definition overlap :: "f64 \<Rightarrow> f64 \<Rightarrow> f64 \<Rightarrow> f64 \<Rightarrow> f64" where
  "overlap a0 a1 b0 b1 = f_max (f_sub (f_min a1 b1) (f_max a0 b0)) (Fin 0)"

fun touches :: "direction \<Rightarrow> rect \<Rightarrow> rect \<Rightarrow> bool" where
  "touches DLeft origin rect =
     f_lt (f_abs (f_sub (f_add (r_x rect) (r_width rect)) (r_x origin))) EPS"
| "touches DRight origin rect =
     f_lt (f_abs (f_sub (f_add (r_x origin) (r_width origin)) (r_x rect))) EPS"
| "touches DUp origin rect =
     f_lt (f_abs (f_sub (f_add (r_y rect) (r_height rect)) (r_y origin))) EPS"
| "touches DDown origin rect =
     f_lt (f_abs (f_sub (f_add (r_y origin) (r_height origin)) (r_y rect))) EPS"

fun shared_edge :: "axis \<Rightarrow> rect \<Rightarrow> rect \<Rightarrow> f64" where
  "shared_edge Horizontal origin rect =
     overlap (r_y origin) (f_add (r_y origin) (r_height origin))
             (r_y rect) (f_add (r_y rect) (r_height rect))"
| "shared_edge Vertical origin rect =
     overlap (r_x origin) (f_add (r_x origin) (r_width origin))
             (r_x rect) (f_add (r_x rect) (r_width rect))"

definition candidate_of :: "direction \<Rightarrow> rect \<Rightarrow> pane_rect \<Rightarrow> (pane_id \<times> f64 \<times> f64) option" where
  "candidate_of direction origin r =
     (if \<not> touches direction origin (pr_rect r) then None
      else let shared = shared_edge (dir_axis direction) origin (pr_rect r)
           in if f_le shared EPS then None
              else let (cx, cy) = rect_center origin; (rx, ry) = rect_center (pr_rect r)
                   in Some (pr_pane r, shared,
                        f_add (f_abs (f_sub rx cx)) (f_abs (f_sub ry cy))))"

fun better :: "(pane_id \<times> f64 \<times> f64) option \<Rightarrow> pane_id \<times> f64 \<times> f64 \<Rightarrow> (pane_id \<times> f64 \<times> f64) option" where
  "better None candidate = Some candidate"
| "better (Some (p, s, d)) (q, s', d') =
     (if f_lt (f_add s' EPS) s \<or> (f_le (f_abs (f_sub s s')) EPS \<and> f_le d (f_add d' EPS))
      then Some (p, s, d) else Some (q, s', d'))"

definition layout_neighbor :: "layout \<Rightarrow> pane_id \<Rightarrow> direction \<Rightarrow> pane_id option" where
  "layout_neighbor l from direction =
     (let rects = layout_rects l
      in case find (\<lambda>r. pr_pane r = from) rects of
           None \<Rightarrow> None
         | Some r \<Rightarrow>
             map_option fst
               (foldl better None
                 (List.map_filter (candidate_of direction (pr_rect r))
                   (filter (\<lambda>r. pr_pane r \<noteq> from) rects))))"

fun resize_find ::
  "node \<Rightarrow> pane_id \<Rightarrow> direction \<Rightarrow> rect \<Rightarrow> bool list \<Rightarrow> (bool list \<times> rect) option \<Rightarrow>
   bool \<times> (bool list \<times> rect) option" where
  "resize_find (Pane p) pane direction area path best = (p = pane, best)"
| "resize_find (Split split ratio n m) pane direction area path best =
     (let (a, b) = rect_split area split ratio;
          (in_first, best) = resize_find n pane direction a (path @ [False]) best
      in if in_first
         then (True, if split = dir_axis direction \<and> dir_forward direction \<and> best = None
                     then Some (path, area) else best)
         else let (in_second, best) = resize_find m pane direction b (path @ [True]) best
              in (in_second,
                  if in_second \<and> split = dir_axis direction \<and> \<not> dir_forward direction \<and> best = None
                  then Some (path, area) else best))"

definition layout_resize :: "layout \<Rightarrow> pane_id \<Rightarrow> direction \<Rightarrow> f64 \<Rightarrow> bool \<times> layout" where
  "layout_resize l pane direction step =
     (case resize_find l pane direction RECT_UNIT [] None of
        (False, _) \<Rightarrow> (False, l)
      | (True, None) \<Rightarrow> (False, l)
      | (True, Some (path, area)) \<Rightarrow>
          (let size = (case dir_axis direction of
                         Horizontal \<Rightarrow> r_width area | Vertical \<Rightarrow> r_height area)
           in if f_le size (Fin 0) then (False, l)
              else let delta = f_mul (f_div step size)
                                 (if dir_forward direction then Fin 1 else Fin (- 1));
                       current = (case find (\<lambda>d. d_path d = path) (layout_dividers l) of
                                    None \<Rightarrow> Fin (1/2) | Some d \<Rightarrow> d_ratio d)
                   in set_ratio l path (f_add current delta)))"

subsection \<open>Rearranging\<close>

fun swap_walk :: "node \<Rightarrow> pane_id \<Rightarrow> pane_id \<Rightarrow> node" where
  "swap_walk (Pane p) a b = (if p = a then Pane b else if p = b then Pane a else Pane p)"
| "swap_walk (Split x ratio n m) a b = Split x ratio (swap_walk n a b) (swap_walk m a b)"

definition layout_swap :: "layout \<Rightarrow> pane_id \<Rightarrow> pane_id \<Rightarrow> bool \<times> layout" where
  "layout_swap l a b =
     (if a = b \<or> \<not> layout_contains l a \<or> \<not> layout_contains l b then (False, l)
      else (True, swap_walk l a b))"

fun equalize :: "node \<Rightarrow> node" where
  "equalize (Pane p) = Pane p"
| "equalize (Split a ratio n m) = Split a (Fin (1/2)) (equalize n) (equalize m)"

text \<open>\<open>map_panes\<close> takes an \<open>FnMut\<close>: the closure's state goes through the leaves in order.\<close>

fun map_panes :: "('s \<Rightarrow> pane_id \<Rightarrow> pane_id \<times> 's) \<Rightarrow> 's \<Rightarrow> node \<Rightarrow> node \<times> 's" where
  "map_panes f s (Pane p) = (let (q, s) = f s p in (Pane q, s))"
| "map_panes f s (Split a ratio n m) =
     (let (n', s) = map_panes f s n; (m', s) = map_panes f s m in (Split a ratio n' m', s))"

end
