(* ===== verification/Layout_Laws.thy ===== *)
theory Layout_Laws
  imports Layout
begin

text \<open>
  What the split tree promises: \<open>layout_inv\<close> is the module's own claim (every ratio within its
  bounds, every pane once) and \<open>layout_step\<close> runs any of its operations. Then what splitting,
  closing, swapping, moving a divider and looking for a neighbour do to the panes.
\<close>

fun ratios_ok :: "node \<Rightarrow> bool" where
  "ratios_ok (Pane _) = True"
| "ratios_ok (Split _ ratio n m) =
     (f_le MIN_RATIO ratio \<and> f_le ratio MAX_RATIO \<and> ratios_ok n \<and> ratios_ok m)"

definition layout_inv :: "layout \<Rightarrow> bool" where
  "layout_inv l \<longleftrightarrow> distinct (panes l) \<and> ratios_ok l"

datatype layout_op =
    OpSplit pane_id axis pane_id bool
  | OpClose pane_id
  | OpSetRatio "bool list" f64
  | OpResize pane_id direction f64
  | OpSwap pane_id pane_id
  | OpEqualize

fun layout_step :: "layout \<Rightarrow> layout_op \<Rightarrow> layout" where
  "layout_step l (OpSplit target axis new after) = snd (layout_split l target axis new after)"
| "layout_step l (OpClose target) = snd (layout_close l target)"
| "layout_step l (OpSetRatio path ratio) = snd (set_ratio l path ratio)"
| "layout_step l (OpResize pane direction step) = snd (layout_resize l pane direction step)"
| "layout_step l (OpSwap a b) = snd (layout_swap l a b)"
| "layout_step l OpEqualize = equalize l"

subsection \<open>Ratios\<close>

lemma ratio_values: "MIN_RATIO = Fin (frnd (1/20))" "MAX_RATIO = Fin (frnd (19/20))"
  by (simp_all add: MIN_RATIO_def MAX_RATIO_def fl_Fin)

lemma ratio_bounds:
  "0 \<le> frnd (1/20)" "frnd (1/20) \<le> 1/2" "1/2 \<le> frnd (19/20)" "frnd (19/20) \<le> 1"
  using frnd_between [of 0 "1/2" "1/20"] frnd_between [of "1/2" 1 "19/20"] by auto

lemma f_le_Fin [simp]: "f_le (Fin x) (Fin y) \<longleftrightarrow> x \<le> y"
  by (auto simp: f_le_def)

lemma f_le_between: "f_le (Fin a) r \<Longrightarrow> f_le r (Fin b) \<Longrightarrow> \<exists>q. r = Fin q \<and> a \<le> q \<and> q \<le> b"
  by (cases r) (auto simp: f_le_def)

lemma half_ok: "f_le MIN_RATIO (Fin (1/2)) \<and> f_le (Fin (1/2)) MAX_RATIO"
  unfolding ratio_values f_le_Fin using ratio_bounds by blast

lemma clamp_ratio_ok: "f_le MIN_RATIO (clamp_ratio r) \<and> f_le (clamp_ratio r) MAX_RATIO"
proof (cases r)
  case (Fin q)
  show ?thesis
    unfolding Fin clamp_ratio_def f_clamp_def Let_def ratio_values
    using ratio_bounds by (auto split: if_splits)
qed (use half_ok in \<open>simp_all add: clamp_ratio_def\<close>)

lemma clamp_ratio_fix: "f_le MIN_RATIO r \<Longrightarrow> f_le r MAX_RATIO \<Longrightarrow> clamp_ratio r = r"
  unfolding ratio_values
  by (auto simp: clamp_ratio_def f_clamp_def Let_def ratio_values dest!: f_le_between)

subsection \<open>Panes and ratios after each operation\<close>

lemma fix_node_panes [simp]: "panes (fix_node n) = panes n"
  by (induction n) auto

lemma fix_node_ratios [simp]: "ratios_ok (fix_node n)"
  by (induction n) (auto simp: clamp_ratio_ok)

lemma fix_node_id: "ratios_ok n \<Longrightarrow> fix_node n = n"
  by (induction n) (auto simp: clamp_ratio_fix)

lemma distinct_remdups_adj: "sorted xs \<Longrightarrow> distinct (remdups_adj xs)" for xs :: "'a::linorder list"
  by (induction xs rule: remdups_adj.induct) (auto simp: remdups_adj_set less_le)

lemma remdups_adj_sort_length:
  "length (remdups_adj (sort xs)) = length xs \<longleftrightarrow> distinct xs" for xs :: "'a::linorder list"
proof -
  have "length (remdups_adj (sort xs)) = card (set xs)"
    using distinct_card [OF distinct_remdups_adj [OF sorted_sort [of xs]]] by simp
  then show ?thesis using card_distinct [of xs] distinct_card [of xs] by auto
qed

lemma from_node_eq:
  "from_node n = (if distinct (panes n) then Inr (fix_node n)
     else Inl ''a pane appears twice in the layout'')"
  by (simp add: from_node_def Let_def remdups_adj_sort_length)

lemma from_node_inv: "from_node n = Inr l \<Longrightarrow> layout_inv l \<and> panes l = panes n"
  by (auto simp: from_node_eq layout_inv_def split: if_splits)

lemma split_walk_miss: "target \<notin> set (panes n) \<Longrightarrow> split_walk n target axis new after = (False, n)"
  by (induction n) auto

lemma split_walk_hit:
  "target \<in> set (panes n) \<Longrightarrow> \<exists>n' xs ys. split_walk n target axis new after = (True, n') \<and>
     panes n = xs @ target # ys \<and>
     panes n' = xs @ (if after then [target, new] else [new, target]) @ ys \<and>
     (ratios_ok n \<longrightarrow> ratios_ok n')"
proof (induction n)
  case (Pane p)
  then show ?case using half_ok by (cases after) (auto intro!: exI [of _ "[]"])
next
  case (Split a ratio n m)
  show ?case
  proof (cases "target \<in> set (panes n)")
    case True
    with Split.IH(1) obtain n' xs ys where "split_walk n target axis new after = (True, n')"
      "panes n = xs @ target # ys" "ratios_ok n \<longrightarrow> ratios_ok n'"
      "panes n' = xs @ (if after then [target, new] else [new, target]) @ ys" by blast
    then show ?thesis
      by (intro exI [of _ "Split a ratio n' m"] exI [of _ xs] exI [of _ "ys @ panes m"]) simp
  next
    case False
    with Split obtain m' xs ys where "split_walk m target axis new after = (True, m')"
      "panes m = xs @ target # ys" "ratios_ok m \<longrightarrow> ratios_ok m'"
      "panes m' = xs @ (if after then [target, new] else [new, target]) @ ys" by auto
    with False show ?thesis
      by (intro exI [of _ "Split a ratio n m'"] exI [of _ "panes n @ xs"] exI [of _ ys])
         (simp add: split_walk_miss)
  qed
qed

lemma layout_split_inv:
  assumes "layout_inv l"
  shows "layout_inv (snd (layout_split l target axis new after))"
proof (cases "new \<in> set (panes l) \<or> target \<notin> set (panes l)")
  case True
  with assms show ?thesis by (auto simp: layout_split_def layout_contains_def split_walk_miss)
next
  case False
  then obtain l' xs ys where "split_walk l target axis new after = (True, l')"
    "panes l = xs @ target # ys" "ratios_ok l \<longrightarrow> ratios_ok l'"
    "panes l' = xs @ (if after then [target, new] else [new, target]) @ ys"
    using split_walk_hit [of target l axis new after] by blast
  with assms False show ?thesis
    by (cases after) (auto simp: layout_split_def layout_contains_def layout_inv_def)
qed

subsection \<open>Closing\<close>

lemma panes_not_Nil [simp]: "panes n \<noteq> []"
  by (induction n) auto

lemma first_pane_hd: "first_pane n = hd (panes n)"
  by (induction n) auto

lemma last_pane_last: "last_pane n = last (panes n)"
  by (induction n) auto

lemma close_walk_miss: "target \<notin> set (panes n) \<Longrightarrow> close_walk n target = (None, n)"
  by (induction n) auto

text \<open>The focus goes to the next pane in reading order, or to the one before.\<close>

lemma close_walk_hit:
  assumes "target \<in> set (panes n)" and "n \<noteq> Pane target"
  shows "\<exists>focus n' xs ys. close_walk n target = (Some focus, n') \<and>
     panes n = xs @ target # ys \<and> panes n' = xs @ ys \<and>
     (ys \<noteq> [] \<and> focus = hd ys \<or> xs \<noteq> [] \<and> focus = last xs) \<and> (ratios_ok n \<longrightarrow> ratios_ok n')"
  using assms
proof (induction n)
  case (Split a ratio n m)
  consider "n = Pane target" | "n \<noteq> Pane target" "m = Pane target"
    | "n \<noteq> Pane target" "m \<noteq> Pane target" "target \<in> set (panes n)"
    | "n \<noteq> Pane target" "m \<noteq> Pane target" "target \<notin> set (panes n)" by blast
  then show ?case
  proof cases
    case 1
    then show ?thesis
      by (intro exI [of _ "first_pane m"] exI [of _ m] exI [of _ "[]"] exI [of _ "panes m"])
         (simp add: first_pane_hd)
  next
    case 2
    then show ?thesis
      by (intro exI [of _ "last_pane n"] exI [of _ n] exI [of _ "panes n"] exI [of _ "[]"])
         (simp add: last_pane_last)
  next
    case 3
    with Split.IH(1) obtain focus n' xs ys where "close_walk n target = (Some focus, n')"
      "panes n = xs @ target # ys" "panes n' = xs @ ys" "ratios_ok n \<longrightarrow> ratios_ok n'"
      "ys \<noteq> [] \<and> focus = hd ys \<or> xs \<noteq> [] \<and> focus = last xs" by blast
    with 3 show ?thesis
      by (intro exI [of _ focus] exI [of _ "Split a ratio n' m"] exI [of _ xs]
          exI [of _ "ys @ panes m"]) auto
  next
    case 4
    with Split obtain focus m' xs ys where "close_walk m target = (Some focus, m')"
      "panes m = xs @ target # ys" "panes m' = xs @ ys" "ratios_ok m \<longrightarrow> ratios_ok m'"
      "ys \<noteq> [] \<and> focus = hd ys \<or> xs \<noteq> [] \<and> focus = last xs" by auto
    with 4 show ?thesis
      by (intro exI [of _ focus] exI [of _ "Split a ratio n m'"] exI [of _ "panes n @ xs"]
          exI [of _ ys]) (auto simp: close_walk_miss)
  qed
qed simp

lemma layout_close_inv:
  assumes "layout_inv l"
  shows "layout_inv (snd (layout_close l target))"
proof (cases "target \<in> set (panes l) \<and> l \<noteq> Pane target")
  case True
  then obtain focus l' xs ys where "close_walk l target = (Some focus, l')"
    "panes l = xs @ target # ys" "panes l' = xs @ ys" "ratios_ok l \<longrightarrow> ratios_ok l'"
    using close_walk_hit [of target l] by blast
  with assms show ?thesis by (simp add: layout_close_def layout_inv_def)
next
  case False
  with assms show ?thesis by (auto simp: layout_close_def close_walk_miss)
qed

lemma close_split_walk:
  assumes "target \<in> set (panes n)" and "new \<notin> set (panes n)" and "distinct (panes n)"
  shows "close_walk (snd (split_walk n target axis new after)) new = (Some target, n)"
  using assms
proof (induction n)
  case (Split a ratio n m)
  show ?case
  proof (cases "target \<in> set (panes n)")
    case True
    obtain n' where walk: "split_walk n target axis new after = (True, n')"
      using split_walk_hit [OF True] by blast
    moreover have "close_walk n' new = (Some target, n)" using Split True walk by simp
    moreover have "n' \<noteq> Pane new" using calculation(2) by auto
    moreover have "m \<noteq> Pane new" using Split.prems(2) by auto
    ultimately show ?thesis by simp
  next
    case False
    then have "target \<in> set (panes m)" using Split.prems(1) by simp
    then obtain m' where walk: "split_walk m target axis new after = (True, m')"
      using split_walk_hit by blast
    moreover have "close_walk m' new = (Some target, m)"
      using Split walk \<open>target \<in> set (panes m)\<close> by simp
    moreover have "m' \<noteq> Pane new" using calculation(2) by auto
    moreover have "n \<noteq> Pane new" "close_walk n new = (None, n)"
      using Split.prems(2) close_walk_miss by auto
    ultimately show ?thesis using False by (simp add: split_walk_miss)
  qed
qed (auto simp: Let_def)

subsection \<open>Dividers and ratios\<close>

lemma set_ratio_panes [simp]: "panes (snd (set_ratio n path r)) = panes n"
  by (induction n path r rule: set_ratio.induct) (auto split: prod.splits)

lemma set_ratio_ok: "ratios_ok n \<Longrightarrow> ratios_ok (snd (set_ratio n path r))"
  by (induction n path r rule: set_ratio.induct) (auto simp: clamp_ratio_ok split: prod.splits)

text \<open>The ratio of the split at a path, when there is one.\<close>

fun ratio_at :: "node \<Rightarrow> bool list \<Rightarrow> f64 option" where
  "ratio_at (Pane _) path = None"
| "ratio_at (Split _ r n m) [] = Some r"
| "ratio_at (Split _ r n m) (second # path) = ratio_at (if second then m else n) path"

lemma ratio_at_ok: "ratios_ok n \<Longrightarrow> ratio_at n path = Some r \<Longrightarrow> f_le MIN_RATIO r \<and> f_le r MAX_RATIO"
  by (induction n path rule: ratio_at.induct) (auto split: if_splits)

lemma set_ratio_hit: "fst (set_ratio n path r) \<longleftrightarrow> ratio_at n path \<noteq> None"
  by (induction n path r rule: set_ratio.induct) (auto split: prod.splits)

lemma ratio_at_set_ratio:
  "ratio_at (snd (set_ratio n path r)) q =
     (if q = path \<and> ratio_at n path \<noteq> None then Some (clamp_ratio r) else ratio_at n q)"
proof (induction n path r arbitrary: q rule: set_ratio.induct)
  case (2 a old n m ratio)
  then show ?case by (cases q) auto
next
  case (3 a old n m second path ratio)
  then show ?case by (cases q) (auto split: prod.splits if_splits)
qed simp

lemma set_ratio_miss: "ratio_at n path = None \<Longrightarrow> set_ratio n path r = (False, n)"
  by (induction n path r rule: set_ratio.induct) auto

lemma dividers_walk_ratio:
  "(q, r) \<in> (\<lambda>d. (d_path d, d_ratio d)) ` set (dividers_walk n area path) \<longleftrightarrow>
     (\<exists>q'. q = path @ q' \<and> ratio_at n q' = Some r)"
proof (induction n arbitrary: area path)
  case (Split a ratio n m)
  obtain x y where "rect_split area a ratio = (x, y)" by force
  then have "(q, r) \<in> (\<lambda>d. (d_path d, d_ratio d)) ` set (dividers_walk (Split a ratio n m) area path) \<longleftrightarrow>
      q = path \<and> r = ratio \<or> (\<exists>q'. q = path @ False # q' \<and> ratio_at n q' = Some r) \<or>
      (\<exists>q'. q = path @ True # q' \<and> ratio_at m q' = Some r)"
    using Split.IH(1) [of x "path @ [False]"] Split.IH(2) [of y "path @ [True]"]
    by (simp add: image_Un Let_def)
  also have "\<dots> \<longleftrightarrow> (\<exists>q'. q = path @ q' \<and> ratio_at (Split a ratio n m) q' = Some r)"
  proof
    assume "\<exists>q'. q = path @ q' \<and> ratio_at (Split a ratio n m) q' = Some r"
    then obtain q' where q': "q = path @ q'" "ratio_at (Split a ratio n m) q' = Some r" by blast
    then show "q = path \<and> r = ratio \<or> (\<exists>q'. q = path @ False # q' \<and> ratio_at n q' = Some r) \<or>
      (\<exists>q'. q = path @ True # q' \<and> ratio_at m q' = Some r)"
      by (cases q') (auto split: if_splits)
  next
    assume "q = path \<and> r = ratio \<or> (\<exists>q'. q = path @ False # q' \<and> ratio_at n q' = Some r) \<or>
      (\<exists>q'. q = path @ True # q' \<and> ratio_at m q' = Some r)"
    then show "\<exists>q'. q = path @ q' \<and> ratio_at (Split a ratio n m) q' = Some r"
      by (elim disjE) (force intro: exI [of _ "[]"] exI [of _ "False # x" for x]
          exI [of _ "True # x" for x])+
  qed
  finally show ?case .
qed simp

lemma dividers_ratio:
  "(path, r) \<in> (\<lambda>d. (d_path d, d_ratio d)) ` set (layout_dividers l) \<longleftrightarrow> ratio_at l path = Some r"
  by (simp add: layout_dividers_def dividers_walk_ratio)

lemma find_divider:
  assumes "ratio_at l path = Some r"
  shows "\<exists>d. find (\<lambda>d. d_path d = path) (layout_dividers l) = Some d \<and> d_ratio d = r"
proof (cases "find (\<lambda>d. d_path d = path) (layout_dividers l)")
  case None
  then have "path \<notin> d_path ` set (layout_dividers l)" by (auto simp: find_None_iff)
  with assms dividers_ratio [of path r l] show ?thesis by force
next
  case (Some d)
  then have "(path, d_ratio d) \<in> (\<lambda>d. (d_path d, d_ratio d)) ` set (layout_dividers l)"
    by (auto simp: find_Some_iff)
  with assms dividers_ratio [of path "d_ratio d" l] Some show ?thesis by auto
qed

subsection \<open>Resizing\<close>

text \<open>
  The split that \<open>resize\<close> moves, without the accumulators: the innermost one along the axis of
  the direction that has the pane in its first child (moving forward) or second (backward).
\<close>

fun resize_target :: "node \<Rightarrow> pane_id \<Rightarrow> direction \<Rightarrow> bool list option" where
  "resize_target (Pane _) p d = None"
| "resize_target (Split a _ n m) p d =
     (if p \<in> set (panes n)
      then case resize_target n p d of
             Some path \<Rightarrow> Some (False # path)
           | None \<Rightarrow> if a = dir_axis d \<and> dir_forward d then Some [] else None
      else if p \<in> set (panes m)
      then case resize_target m p d of
             Some path \<Rightarrow> Some (True # path)
           | None \<Rightarrow> if a = dir_axis d \<and> \<not> dir_forward d then Some [] else None
      else None)"

lemma resize_find_target:
  "fst (resize_find n p d area path best) \<longleftrightarrow> p \<in> set (panes n)"
  "p \<notin> set (panes n) \<Longrightarrow> snd (resize_find n p d area path best) = best"
  "p \<in> set (panes n) \<Longrightarrow> map_option fst (snd (resize_find n p d area path best)) =
     (case best of Some b \<Rightarrow> Some (fst b) | None \<Rightarrow> map_option ((@) path) (resize_target n p d))"
proof (induction n arbitrary: area path best)
  case (Split a ratio n m)
  {
    case 1
    then show ?case using Split(1,4) by (simp add: Let_def split: prod.splits)
      (metis fst_conv)
  next
    case 2
    then show ?case
      using Split(1,2,4,5) by (simp add: Let_def split: prod.splits) (metis fst_conv snd_conv)
  next
    case 3
    obtain x y where rects: "rect_split area a ratio = (x, y)" by force
    obtain f1 b1 where first: "resize_find n p d x (path @ [False]) best = (f1, b1)" by force
    obtain f2 b2 where second: "resize_find m p d y (path @ [True]) best = (f2, b2)" by force
    show ?case
    proof (cases "p \<in> set (panes n)")
      case True
      have "map_option fst b1 = (case best of Some b \<Rightarrow> Some (fst b) |
          None \<Rightarrow> map_option ((@) (path @ [False])) (resize_target n p d))"
        using Split(3) [OF True, of x "path @ [False]" best] first by simp
      moreover have f1 using Split(1) [of x "path @ [False]" best] first True by simp
      ultimately show ?thesis
        using rects first True by (auto simp: Let_def split: option.splits)
    next
      case False
      then have "p \<in> set (panes m)" using 3 by simp
      then have "map_option fst b2 = (case best of Some b \<Rightarrow> Some (fst b) |
          None \<Rightarrow> map_option ((@) (path @ [True])) (resize_target m p d))"
        using Split(6) [of y "path @ [True]" best] second by simp
      moreover have "\<not> f1" "b1 = best"
        using Split(1,2) [of x "path @ [False]" best] first False by simp_all
      moreover have f2 using Split(4) [of y "path @ [True]" best] second \<open>p \<in> set (panes m)\<close> by simp
      ultimately show ?thesis
        using rects first second False \<open>p \<in> set (panes m)\<close>
        by (auto simp: Let_def split: option.splits)
    qed
  }
qed (auto split: option.splits)

lemma resize_target_at: "resize_target n p d = Some path \<Longrightarrow> \<exists>r. ratio_at n path = Some r"
  by (induction n arbitrary: path) (auto split: if_splits option.splits)

lemma resize_find_area:
  assumes "snd (resize_find n p d area path best) = Some (q, q_area)" and "best \<noteq> Some (q, q_area)"
  shows "\<exists>dv \<in> set (dividers_walk n area path). d_path dv = q \<and> d_area dv = q_area"
  using assms
proof (induction n arbitrary: area path best)
  case (Split a ratio n m)
  obtain x y where rects: "rect_split area a ratio = (x, y)" by force
  obtain f1 b1 where first: "resize_find n p d x (path @ [False]) best = (f1, b1)" by force
  obtain f2 b2 where second: "resize_find m p d y (path @ [True]) b1 = (f2, b2)" by force
  have cases: "b1 = Some (q, q_area) \<or> b2 = Some (q, q_area) \<or> (q, q_area) = (path, area)"
    using Split.prems(1) rects first second by (auto simp: Let_def split: if_splits)
  show ?case
  proof (cases "(q, q_area) = (path, area)")
    case False
    show ?thesis
    proof (cases "b1 = Some (q, q_area)")
      case True
      then have "\<exists>dv \<in> set (dividers_walk n x (path @ [False])). d_path dv = q \<and> d_area dv = q_area"
        using Split.IH(1) [of x "path @ [False]" best] first Split.prems(2) by simp
      with rects show ?thesis by auto
    next
      case b1: False
      with cases False have "b2 = Some (q, q_area)" by blast
      then have "\<exists>dv \<in> set (dividers_walk m y (path @ [True])). d_path dv = q \<and> d_area dv = q_area"
        using Split.IH(2) [of y "path @ [True]" b1] second b1 by simp
      with rects show ?thesis by auto
    qed
  qed (use rects in simp)
qed simp

lemma layout_resize_cases:
  "layout_resize l p d step = (False, l) \<or>
   (\<exists>path area r. resize_target l p d = Some path \<and> ratio_at l path = Some r \<and>
      (\<exists>dv \<in> set (layout_dividers l). d_path dv = path \<and> d_area dv = area) \<and>
      (let size = (case dir_axis d of Horizontal \<Rightarrow> r_width area | Vertical \<Rightarrow> r_height area)
       in \<not> f_le size (Fin 0) \<and>
          layout_resize l p d step = set_ratio l path
            (f_add r (f_mul (f_div step size) (if dir_forward d then Fin 1 else Fin (- 1))))))"
proof -
  obtain hit best where found: "resize_find l p d RECT_UNIT [] None = (hit, best)" by force
  show ?thesis
  proof (cases "hit \<and> best \<noteq> None")
    case True
    then obtain path area where best: "best = Some (path, area)" by auto
    have "p \<in> set (panes l)" using resize_find_target(1) [of l p d RECT_UNIT "[]" None] found True by simp
    then have target: "resize_target l p d = Some path"
      using resize_find_target(3) [of p l d RECT_UNIT "[]" None] found best
      by (auto simp: append_Nil [abs_def] option.map_id0 [unfolded id_def] split: option.splits)
    then obtain r where r: "ratio_at l path = Some r" using resize_target_at by blast
    have "\<exists>dv \<in> set (layout_dividers l). d_path dv = path \<and> d_area dv = area"
      using resize_find_area [of l p d RECT_UNIT "[]" None path area] found best
      by (simp add: layout_dividers_def)
    moreover obtain dv where "find (\<lambda>d. d_path d = path) (layout_dividers l) = Some dv" "d_ratio dv = r"
      using find_divider [OF r] by blast
    ultimately show ?thesis
      using found best True target r
      by (auto simp: layout_resize_def Let_def split: axis.splits)
  next
    case False
    then show ?thesis using found by (cases hit; cases best) (auto simp: layout_resize_def)
  qed
qed

subsection \<open>The invariant\<close>

lemma layout_resize_inv: "layout_inv l \<Longrightarrow> layout_inv (snd (layout_resize l p d step))"
  using layout_resize_cases [of l p d step] by (auto simp: layout_inv_def set_ratio_ok Let_def)

lemma swap_walk_panes:
  "panes (swap_walk n a b) = map (\<lambda>p. if p = a then b else if p = b then a else p) (panes n)"
  by (induction n) auto

lemma swap_walk_ratios [simp]: "ratios_ok (swap_walk n a b) = ratios_ok n"
  by (induction n) auto

lemma layout_swap_inv: "layout_inv l \<Longrightarrow> layout_inv (snd (layout_swap l a b))"
proof -
  have "inj_on (\<lambda>p. if p = a then b else if p = b then a else p) A" for A
    by (auto simp: inj_on_def split: if_splits)
  then show "layout_inv l \<Longrightarrow> ?thesis"
    by (auto simp: layout_swap_def layout_inv_def swap_walk_panes distinct_map)
qed

lemma equalize_inv: "layout_inv l \<Longrightarrow> layout_inv (equalize l)"
proof -
  have "panes (equalize n) = panes n \<and> ratios_ok (equalize n)" for n
    using half_ok by (induction n) auto
  then show "layout_inv l \<Longrightarrow> ?thesis" by (simp add: layout_inv_def)
qed

lemma set_ratio_inv: "layout_inv l \<Longrightarrow> layout_inv (snd (set_ratio l path r))"
  by (simp add: layout_inv_def set_ratio_ok)

interpretation lm: invariant_machine layout_step layout_inv "\<lambda>_. True"
proof
  fix l oper assume "layout_inv l"
  then show "layout_inv (layout_step l oper)"
    by (cases oper) (simp_all add: layout_split_inv layout_close_inv layout_resize_inv
        layout_swap_inv equalize_inv set_ratio_inv)
qed

text \<open>
  C14: every operation keeps the tree valid. From any tree read from a file or from QML that
  \<open>from_node\<close> accepts, after any sequence of splits, closes, ratio changes, resizes, swaps and
  equalizations, with any arguments (infinite and NaN ratios included), every pane appears once
  and every ratio is within \<open>MIN_RATIO\<close> and \<open>MAX_RATIO\<close>.
\<close>

theorem layout_run_valid:
  assumes "from_node tree = Inr l"
  shows "layout_inv (foldl layout_step l ops)"
  using lm.run_inv [of l ops] from_node_inv [OF assms] by (simp add: list_all_iff)

theorem layout_run_valid_witness:
  "from_node (Split Horizontal NaN (Pane 1) (Pane 2)) =
     Inr (Split Horizontal (Fin (1/2)) (Pane 1) (Pane 2)) \<and>
   layout_inv (foldl layout_step (Split Horizontal (Fin (1/2)) (Pane 1) (Pane 2))
     [OpSplit 2 Vertical 3 True, OpSetRatio [] PInf, OpClose 1])"
proof -
  have "from_node (Split Horizontal NaN (Pane 1) (Pane 2)) =
      Inr (Split Horizontal (Fin (1/2)) (Pane 1) (Pane 2))"
    by (simp add: from_node_def clamp_ratio_def)
  then show ?thesis using layout_run_valid by blast
qed

text \<open>
  \<open>from_node\<close> accepts exactly the trees with every pane once; it keeps the panes and their
  order, and keeps a tree that is valid already as it is, so saving and loading a layout
  changes nothing.
\<close>

theorem from_node_accepts:
  "((\<exists>l. from_node tree = Inr l) \<longleftrightarrow> distinct (panes tree)) \<and>
   (\<forall>l. from_node tree = Inr l \<longrightarrow> layout_inv l \<and> panes l = panes tree) \<and>
   (layout_inv tree \<longrightarrow> from_node tree = Inr tree)"
proof (intro conjI allI impI)
  show "(\<exists>l. from_node tree = Inr l) \<longleftrightarrow> distinct (panes tree)" by (simp add: from_node_eq)
  show "layout_inv tree \<Longrightarrow> from_node tree = Inr tree"
    by (simp add: from_node_eq layout_inv_def fix_node_id)
qed (use from_node_inv in blast)+

theorem from_node_accepts_witness:
  "layout_inv (Pane 4) \<and> from_node (Pane 4) = Inr (Pane 4)"
  using from_node_accepts [of "Pane 4"] by (simp add: layout_inv_def)

subsection \<open>Splitting and closing\<close>

text \<open>
  splitting puts the new pane right after (or right before) the target in reading order
  and moves no other pane; it is refused, changing nothing, exactly when the target is not in
  the tree or the new pane already is.
\<close>

theorem split_places_pane:
  "(target \<in> set (panes l) \<and> new \<notin> set (panes l) \<longrightarrow>
     (\<exists>l' xs ys. layout_split l target axis new after = (True, l') \<and> panes l = xs @ target # ys \<and>
        panes l' = xs @ (if after then [target, new] else [new, target]) @ ys)) \<and>
   (target \<notin> set (panes l) \<or> new \<in> set (panes l) \<longrightarrow>
      layout_split l target axis new after = (False, l))"
proof (intro conjI impI)
  assume "target \<in> set (panes l) \<and> new \<notin> set (panes l)"
  then show "\<exists>l' xs ys. layout_split l target axis new after = (True, l') \<and>
      panes l = xs @ target # ys \<and>
      panes l' = xs @ (if after then [target, new] else [new, target]) @ ys"
    using split_walk_hit [of target l axis new after]
    unfolding layout_split_def layout_contains_def by (simp only: if_False) blast
qed (auto simp: layout_split_def layout_contains_def split_walk_miss)

theorem split_places_pane_witness:
  "\<exists>l'. layout_split (Pane 1) 1 Vertical 2 False = (True, l') \<and> panes l' = [2, 1]"
  using split_places_pane [of 1 "Pane 1" 2 Vertical False] by (auto simp: Cons_eq_append_conv)

text \<open>
  closing removes the pane and only it, keeps the order of the others, and names as the
  next focus the pane right after it or right before it in reading order. It answers \<open>None\<close>,
  changing nothing, when the pane is not there or is the last one.
\<close>

theorem close_removes_pane:
  "(target \<in> set (panes l) \<and> l \<noteq> Pane target \<longrightarrow>
     (\<exists>focus l' xs ys. layout_close l target = (Some focus, l') \<and> panes l = xs @ target # ys \<and>
        panes l' = xs @ ys \<and> (ys \<noteq> [] \<and> focus = hd ys \<or> xs \<noteq> [] \<and> focus = last xs))) \<and>
   (target \<notin> set (panes l) \<or> l = Pane target \<longrightarrow> layout_close l target = (None, l))"
  using close_walk_hit [of target l] by (auto simp: layout_close_def close_walk_miss)

theorem close_removes_pane_witness:
  "\<exists>focus l'. layout_close (Split Vertical (Fin (1/2)) (Pane 1) (Pane 2)) 1 = (Some focus, l') \<and>
     panes l' = [2] \<and> focus = 2"
  using close_removes_pane [of 1 "Split Vertical (Fin (1/2)) (Pane 1) (Pane 2)"]
  by (auto simp: Cons_eq_append_conv)

text \<open>
  C15: closing a pane that was just split off gives the very tree there was before, and the
  focus back to the pane that was split.
\<close>

theorem close_undoes_split:
  assumes "distinct (panes l)" and "target \<in> set (panes l)" and "new \<notin> set (panes l)"
  shows "layout_close (snd (layout_split l target axis new after)) new = (Some target, l)"
  using close_split_walk [of target l new axis after] assms
  by (simp add: layout_close_def layout_split_def layout_contains_def)

theorem close_undoes_split_witness:
  "layout_close (snd (layout_split (Split Vertical (Fin (1/2)) (Pane 1) (Pane 2)) 2 Horizontal 3 True)) 3 =
     (Some 2, Split Vertical (Fin (1/2)) (Pane 1) (Pane 2))"
  using close_undoes_split [of "Split Vertical (Fin (1/2)) (Pane 1) (Pane 2)" 2 3 Horizontal True]
  by simp

text \<open>
  swapping two panes twice gives the tree back, and a swap exchanges just their two places.
\<close>

theorem swap_involutive:
  assumes "layout_swap l a b = (True, l')"
  shows "layout_swap l' a b = (True, l) \<and>
    panes l' = map (\<lambda>p. if p = a then b else if p = b then a else p) (panes l)"
proof -
  have "swap_walk (swap_walk n a b) a b = n" for n by (induction n) auto
  with assms show ?thesis
    by (auto simp: layout_swap_def layout_contains_def swap_walk_panes image_iff split: if_splits)
qed

theorem swap_involutive_witness:
  "layout_swap (Split Vertical (Fin (1/2)) (Pane 1) (Pane 2)) 1 2 =
     (True, Split Vertical (Fin (1/2)) (Pane 2) (Pane 1)) \<and>
   layout_swap (Split Vertical (Fin (1/2)) (Pane 2) (Pane 1)) 1 2 =
     (True, Split Vertical (Fin (1/2)) (Pane 1) (Pane 2))"
  using swap_involutive [of "Split Vertical (Fin (1/2)) (Pane 1) (Pane 2)" 1 2
      "Split Vertical (Fin (1/2)) (Pane 2) (Pane 1)"]
  by (simp add: layout_swap_def layout_contains_def)

subsection \<open>Moving dividers\<close>

definition divider_ratios :: "layout \<Rightarrow> (bool list \<times> f64) set" where
  "divider_ratios l = (\<lambda>d. (d_path d, d_ratio d)) ` set (layout_dividers l)"

text \<open>
  \<open>set_ratio\<close> answers true exactly for the paths that \<open>dividers\<close> lists; then the divider at
  that path has the clamped ratio, every other divider keeps its path and ratio, and no pane
  moves. For any other path nothing changes.
\<close>

theorem set_ratio_moves_one:
  assumes "set_ratio l path r = (hit, l')"
  shows "panes l' = panes l \<and> (hit \<longleftrightarrow> path \<in> fst ` divider_ratios l) \<and>
    (if hit then divider_ratios l' = {x \<in> divider_ratios l. fst x \<noteq> path} \<union> {(path, clamp_ratio r)} else l' = l)"
proof -
  have mem: "(q, x) \<in> divider_ratios l \<longleftrightarrow> ratio_at l q = Some x" for q x l
    by (simp add: divider_ratios_def dividers_ratio)
  have hit: "hit \<longleftrightarrow> ratio_at l path \<noteq> None" and l': "l' = snd (set_ratio l path r)"
    using set_ratio_hit [of l path r] assms by simp_all
  have "path \<in> fst ` divider_ratios l \<longleftrightarrow> ratio_at l path \<noteq> None"
    using mem [of path _ l] by force
  moreover have "divider_ratios l' = {x \<in> divider_ratios l. fst x \<noteq> path} \<union> {(path, clamp_ratio r)}" if hit
    using that hit ratio_at_set_ratio [of l path r] mem l' by (auto split: if_splits)
  moreover have "l' = l" if "\<not> hit" using that hit set_ratio_miss l' by simp
  ultimately show ?thesis using hit l' by simp
qed

theorem set_ratio_moves_one_witness:
  "set_ratio (Split Vertical (Fin (1/4)) (Pane 1) (Pane 2)) [] NaN =
     (True, Split Vertical (Fin (1/2)) (Pane 1) (Pane 2)) \<and>
   divider_ratios (Split Vertical (Fin (1/2)) (Pane 1) (Pane 2)) =
     {([], Fin (1/2))}"
proof -
  have run: "set_ratio (Split Vertical (Fin (1/4)) (Pane 1) (Pane 2)) [] NaN =
      (True, Split Vertical (Fin (1/2)) (Pane 1) (Pane 2))" by (simp add: clamp_ratio_def)
  show ?thesis
    using run set_ratio_moves_one [OF run]
    by (auto simp: divider_ratios_def layout_dividers_def Let_def clamp_ratio_def)
qed

text \<open>
  The order of the finite \<open>f64\<close> values is kept by rounding, adding a number of a known sign and
  clamping.
\<close>

lemma clamp_ratio_mono: "p \<le> q \<Longrightarrow> f_le (clamp_ratio (Fin p)) (clamp_ratio (Fin q))"
  unfolding clamp_ratio_def f_clamp_def Let_def ratio_values using ratio_bounds by auto

lemma clamp_ratio_add:
  assumes r: "f_le MIN_RATIO r" "f_le r MAX_RATIO" "is_f64 r" and x: "\<bar>x\<bar> \<le> 2 ^ 51"
  shows "0 \<le> x \<Longrightarrow> f_le r (clamp_ratio (f_add r (Fin x)))"
    and "x \<le> 0 \<Longrightarrow> f_le (clamp_ratio (f_add r (Fin x))) r"
proof -
  obtain q where q: "r = Fin q" "frnd (1/20) \<le> q" "q \<le> frnd (19/20)" "frnd q = q"
    using r f_le_between unfolding ratio_values by (metis is_f64.simps(1))
  then have sum: "f_add r (Fin x) = Fin (frnd (q + x))"
    using x ratio_bounds by (simp add: fl_Fin abs_le_iff)
  have r_fix: "clamp_ratio (Fin q) = r" using clamp_ratio_fix r(1,2) q(1) by simp
  show "f_le r (clamp_ratio (f_add r (Fin x)))" if "0 \<le> x"
    using clamp_ratio_mono [of q "frnd (q + x)"] frnd_mono [of q "q + x"] that q(4) r_fix sum by simp
  show "f_le (clamp_ratio (f_add r (Fin x))) r" if "x \<le> 0"
    using clamp_ratio_mono [of "frnd (q + x)" q] frnd_mono [of "q + x" q] that q(4) r_fix sum by simp
qed

lemma resize_delta:
  assumes "0 \<le> s" and "s \<le> 1" and "f_le (Fin (1 / 2 ^ 50)) z"
  obtains x where "0 \<le> x" and "x \<le> 2 ^ 50"
    and "f_mul (f_div (Fin s) z) (Fin 1) = Fin x" and "f_mul (f_div (Fin s) z) (Fin (- 1)) = Fin (- x)"
proof -
  have two: "frnd (2 ^ 50) = 2 ^ 50" using frnd_dyadic [of "2 ^ 50" 0] by simp
  obtain x where x: "f_div (Fin s) z = Fin x" "0 \<le> x" "x \<le> 2 ^ 50" "frnd x = x"
  proof (cases z)
    case (Fin a)
    have a: "1 / 2 ^ 50 \<le> a" using assms(3) Fin by simp
    then have pos: "0 < a" by (rule less_le_trans [rotated]) simp
    have "s / a \<le> 1 / (1 / 2 ^ 50)"
      using assms(1,2) a pos by (intro frac_le) simp_all
    then have "0 \<le> s / a" "s / a \<le> 2 ^ 50" using assms(1) pos by simp_all
    then show thesis
      using that [of "frnd (s / a)"] frnd_between [of 0 "2 ^ 50" "s / a"] two Fin pos
      by (simp add: fl_Fin abs_le_iff)
  qed (use that [of 0] assms(3) in \<open>simp_all add: f_le_def\<close>)
  then show thesis
    using that [of x] by (simp add: fl_Fin abs_le_iff frnd_minus)
qed

text \<open>
  \<open>resize\<close> grows the pane. When it answers true, it moved one divider: that of the innermost
  split along the axis which has the pane on the side the direction leaves from. For a step
  between 0 and 1 of the area, that split's first share does not shrink when the direction
  points right or down, and does not grow when it points left or up; every other ratio and
  all panes stay. (No split in the tree is narrower than \<open>2 ^ -50\<close> of the area: below
  that the quotient may overflow.)
\<close>

theorem resize_grows_pane:
  assumes "layout_inv l" and "\<forall>d \<in> set (layout_dividers l). is_f64 (d_ratio d)"
    and "\<forall>d \<in> set (layout_dividers l). f_le (Fin (1 / 2 ^ 50)) (r_width (d_area d)) \<and>
           f_le (Fin (1 / 2 ^ 50)) (r_height (d_area d))"
    and "0 \<le> s" and "s \<le> 1" and "layout_resize l p d (Fin s) = (True, l')"
  shows "\<exists>path r r'. resize_target l p d = Some path \<and> ratio_at l path = Some r \<and>
    ratio_at l' path = Some r' \<and> (if dir_forward d then f_le r r' else f_le r' r) \<and>
    (\<forall>q. q \<noteq> path \<longrightarrow> ratio_at l' q = ratio_at l q) \<and> panes l' = panes l"
proof -
  obtain path area r where target: "resize_target l p d = Some path" and r: "ratio_at l path = Some r"
    and "\<exists>dv \<in> set (layout_dividers l). d_path dv = path \<and> d_area dv = area"
    and run: "layout_resize l p d (Fin s) = set_ratio l path (f_add r (f_mul (f_div (Fin s)
        (case dir_axis d of Horizontal \<Rightarrow> r_width area | Vertical \<Rightarrow> r_height area))
        (if dir_forward d then Fin 1 else Fin (- 1))))"
    using layout_resize_cases [of l p d "Fin s"] assms(6) by (auto simp: Let_def)
  let ?size = "case dir_axis d of Horizontal \<Rightarrow> r_width area | Vertical \<Rightarrow> r_height area"
  have "f_le (Fin (1 / 2 ^ 50)) ?size"
    using assms(3) \<open>\<exists>dv \<in> _. _\<close> by (auto split: axis.splits)
  then obtain x where x: "0 \<le> x" "x \<le> 2 ^ 50"
    "f_mul (f_div (Fin s) ?size) (Fin 1) = Fin x" "f_mul (f_div (Fin s) ?size) (Fin (- 1)) = Fin (- x)"
    using resize_delta [OF assms(4,5)] by metis
  have "f_le MIN_RATIO r \<and> f_le r MAX_RATIO"
    using assms(1) ratio_at_ok [OF _ r] by (simp add: layout_inv_def)
  moreover have "is_f64 r" using assms(2) dividers_ratio [of path r l] r by auto
  ultimately have "if dir_forward d then f_le r (clamp_ratio (f_add r (Fin x)))
      else f_le (clamp_ratio (f_add r (Fin (- x)))) r"
    using clamp_ratio_add [of r x] clamp_ratio_add [of r "- x"] x(1,2) by (simp add: abs_le_iff)
  then show ?thesis
    using target r run x(3,4) assms(6) ratio_at_set_ratio [of l path] set_ratio_panes [of l path]
    by (cases "dir_forward d") (auto simp: prod_eq_iff)
qed

theorem resize_grows_pane_witness:
  "\<exists>l' r'. layout_resize (Split Horizontal (Fin (1/2)) (Pane 1) (Pane 2)) 1 DRight (Fin (1/4)) = (True, l') \<and>
     ratio_at l' [] = Some r' \<and> f_le (Fin (1/2)) r'"
proof -
  let ?l = "Split Horizontal (Fin (1/2)) (Pane 1) (Pane 2)"
  have inv: "layout_inv ?l" using half_ok by (simp add: layout_inv_def)
  have sizes: "f_le (Fin (1 / 2 ^ 50)) (Fin 1)" by simp
  obtain l' where run: "layout_resize ?l 1 DRight (Fin (1/4)) = (True, l')"
    by (simp add: layout_resize_def RECT_UNIT_def Let_def dir_forward_def split: prod.splits)
  show ?thesis
    using resize_grows_pane [OF inv _ _ _ _ run] run sizes
    by (auto simp: layout_dividers_def RECT_UNIT_def Let_def dir_forward_def)
qed

subsection \<open>Geometry\<close>

lemma rects_walk_panes: "map pr_pane (rects_walk n area) = panes n"
  by (induction n arbitrary: area) (auto split: prod.splits)

definition size_ok :: "f64 \<Rightarrow> bool" where
  "size_ok w \<longleftrightarrow> (case w of Fin a \<Rightarrow> 0 \<le> a \<and> a \<le> 1 \<and> frnd a = a | _ \<Rightarrow> False)"

lemma size_okE:
  assumes "size_ok w"
  obtains a where "w = Fin a" and "0 \<le> a" and "a \<le> 1" and "frnd a = a"
  using assms by (cases w) (auto simp: size_ok_def)

lemma split_sizes:
  assumes "size_ok w" and "f_le MIN_RATIO r" and "f_le r MAX_RATIO"
  shows "size_ok (f_mul w r)" and "size_ok (f_sub w (f_mul w r))" and "f_le (f_mul w r) w"
    and "f_le (f_sub w (f_mul w r)) w"
proof -
  obtain a where a: "w = Fin a" "0 \<le> a" "a \<le> 1" "frnd a = a" using assms(1) by (rule size_okE)
  obtain q where q: "r = Fin q" "frnd (1/20) \<le> q" "q \<le> frnd (19/20)"
    using assms(2,3) f_le_between unfolding ratio_values by metis
  have q01: "0 \<le> q" "q \<le> 1" using q ratio_bounds by linarith+
  define m where "m = frnd (a * q)"
  have prod: "0 \<le> a * q" "a * q \<le> a" using a q01 by (simp_all add: mult_left_le)
  have m: "0 \<le> m" "m \<le> a" "frnd m = m"
    using frnd_between [OF _ a(4) prod] by (simp_all add: m_def)
  have first: "f_mul w r = Fin m" using a q prod by (simp add: m_def fl_Fin abs_le_iff)
  have rest: "f_sub w (f_mul w r) = Fin (frnd (a - m))"
    unfolding first using a m by (simp add: f_sub_def fl_Fin abs_le_iff)
  have diff: "0 \<le> frnd (a - m)" "frnd (a - m) \<le> a"
    using frnd_between [OF _ a(4), of 0 "a - m"] m by simp_all
  show "size_ok (f_mul w r)" "f_le (f_mul w r) w"
    using first m a by (simp_all add: size_ok_def)
  show "size_ok (f_sub w (f_mul w r))" "f_le (f_sub w (f_mul w r)) w"
    unfolding rest using diff a by (simp_all add: size_ok_def)
qed

lemma rect_split_sizes:
  assumes "size_ok (r_width area)" "size_ok (r_height area)" "f_le MIN_RATIO r" "f_le r MAX_RATIO"
    and "rect_split area a r = (x, y)"
  shows "size_ok (r_width x) \<and> size_ok (r_height x) \<and> size_ok (r_width y) \<and> size_ok (r_height y)"
  using assms split_sizes [of "r_width area" r] split_sizes [of "r_height area" r]
  by (cases a) (auto simp: Let_def)

lemma rects_walk_sizes:
  assumes "ratios_ok n" and "size_ok (r_width area)" and "size_ok (r_height area)"
  shows "\<forall>r \<in> set (rects_walk n area). size_ok (r_width (pr_rect r)) \<and> size_ok (r_height (pr_rect r))"
  using assms
proof (induction n arbitrary: area)
  case (Split a ratio n m)
  obtain x y where xy: "rect_split area a ratio = (x, y)" by force
  have "size_ok (r_width x) \<and> size_ok (r_height x) \<and> size_ok (r_width y) \<and> size_ok (r_height y)"
    using rect_split_sizes [OF Split.prems(2,3) _ _ xy] Split.prems(1) by simp
  with Split.IH(1) [of x] Split.IH(2) [of y] Split.prems(1) xy show ?case by auto
qed simp

text \<open>
  \<open>rects\<close> gives each pane one area, in reading order, and with every rounding of \<open>f64\<close>
  no area of a valid tree gets a negative, infinite or NaN width or height, nor one above that
  of the whole tab.
\<close>

theorem rects_sizes:
  assumes "layout_inv l"
  shows "map pr_pane (layout_rects l) = panes l \<and>
    (\<forall>r \<in> set (layout_rects l). \<exists>w h. r_width (pr_rect r) = Fin w \<and> r_height (pr_rect r) = Fin h \<and>
       0 \<le> w \<and> w \<le> 1 \<and> 0 \<le> h \<and> h \<le> 1)"
proof -
  have "\<forall>r \<in> set (layout_rects l). size_ok (r_width (pr_rect r)) \<and> size_ok (r_height (pr_rect r))"
    unfolding layout_rects_def
    by (rule rects_walk_sizes) (use assms in \<open>simp_all add: layout_inv_def RECT_UNIT_def size_ok_def\<close>)
  then show ?thesis
    by (auto simp: layout_rects_def rects_walk_panes elim!: size_okE)
qed

theorem rects_sizes_witness:
  "layout_inv (Split Horizontal (Fin (1/2)) (Pane 1) (Pane 2)) \<and>
   map pr_pane (layout_rects (Split Horizontal (Fin (1/2)) (Pane 1) (Pane 2))) = [1, 2]"
proof -
  have inv: "layout_inv (Split Horizontal (Fin (1/2)) (Pane 1) (Pane 2))"
    using half_ok by (simp add: layout_inv_def)
  show ?thesis using inv rects_sizes [OF inv] by simp
qed

subsection \<open>Neighbours\<close>

lemma foldl_better:
  "foldl better best cs = Some c \<Longrightarrow> best = Some c \<or> c \<in> set cs"
proof (induction cs arbitrary: best)
  case (Cons x cs)
  have "better best x = best \<or> better best x = Some x"
    by (cases best; cases x) (auto split: if_splits)
  with Cons show ?case by force
qed simp

lemma foldl_better_None: "foldl better best cs = None \<longleftrightarrow> best = None \<and> cs = []"
proof (induction cs arbitrary: best)
  case (Cons x cs)
  have "better best x \<noteq> None" by (cases best; cases x) (auto split: if_splits)
  with Cons show ?case by simp
qed simp

lemma in_set_map_filter: "y \<in> set (List.map_filter f xs) \<longleftrightarrow> (\<exists>x \<in> set xs. f x = Some y)"
  by (induction xs) (auto simp: map_filter_simps split: option.splits)

lemma map_filter_Nil: "List.map_filter f xs = [] \<longleftrightarrow> (\<forall>x \<in> set xs. f x = None)"
  by (induction xs) (auto simp: map_filter_simps split: option.splits)

definition near :: "direction \<Rightarrow> rect \<Rightarrow> pane_id \<Rightarrow> pane_rect \<Rightarrow> bool" where
  "near d origin from r \<longleftrightarrow> touches d origin (pr_rect r) \<and>
     \<not> f_le (shared_edge (dir_axis d) origin (pr_rect r)) EPS \<and> pr_pane r \<noteq> from"

text \<open>
  a neighbour is another pane of the tree whose area touches the edge on that side and
  shares more than a point with it; and one is found whenever there is such a pane.
\<close>

theorem neighbor_touches:
  assumes "distinct (panes l)" and "\<lparr>pr_pane = from, pr_rect = origin\<rparr> \<in> set (layout_rects l)"
  shows "(\<forall>p. layout_neighbor l from d = Some p \<longrightarrow>
      p \<in> set (panes l) \<and> (\<exists>r \<in> set (layout_rects l). pr_pane r = p \<and> near d origin from r)) \<and>
    (layout_neighbor l from d = None \<longleftrightarrow> (\<forall>r \<in> set (layout_rects l). \<not> near d origin from r))"
proof -
  let ?rs = "layout_rects l"
  have panes: "map pr_pane ?rs = panes l" by (simp add: layout_rects_def rects_walk_panes)
  have "\<exists>r. find (\<lambda>r. pr_pane r = from) ?rs = Some r"
    using assms(2) by (auto simp: find_None_iff simp flip: not_None_eq)
  then obtain r where found: "find (\<lambda>r. pr_pane r = from) ?rs = Some r" by blast
  then have "r \<in> set ?rs" "pr_pane r = from" by (auto simp: find_Some_iff)
  moreover have "inj_on pr_pane (set ?rs)" using assms(1) panes by (metis distinct_map)
  ultimately have r: "pr_rect r = origin"
    using assms(2) by (metis inj_onD pane_rect.select_convs(1,2))
  let ?cs = "List.map_filter (candidate_of d origin) (filter (\<lambda>r. pr_pane r \<noteq> from) ?rs)"
  have eq: "layout_neighbor l from d = map_option fst (foldl better None ?cs)"
    using found r by (simp add: layout_neighbor_def)
  have cand: "candidate_of d origin x = None \<longleftrightarrow> \<not> (touches d origin (pr_rect x) \<and>
      \<not> f_le (shared_edge (dir_axis d) origin (pr_rect x)) EPS)" for x
    by (auto simp: candidate_of_def Let_def split: prod.splits)
  have cand_pane: "candidate_of d origin x = Some c \<Longrightarrow> fst c = pr_pane x" for x c
    by (auto simp: candidate_of_def Let_def split: if_splits prod.splits)
  have mem: "c \<in> set ?cs \<longleftrightarrow> (\<exists>x \<in> set ?rs. pr_pane x \<noteq> from \<and> candidate_of d origin x = Some c)" for c
    by (auto simp: in_set_map_filter)
  have "\<exists>x \<in> set ?rs. pr_pane x = p \<and> near d origin from x" if some: "layout_neighbor l from d = Some p" for p
  proof -
    obtain c where "foldl better None ?cs = Some c" "p = fst c"
      using some eq by auto
    then obtain x where "x \<in> set ?rs" "pr_pane x \<noteq> from" "candidate_of d origin x = Some c"
      using foldl_better [of None ?cs c] mem by auto
    with cand [of x] cand_pane [of x c] \<open>p = fst c\<close> show ?thesis by (auto simp: near_def)
  qed
  moreover have "layout_neighbor l from d = None \<longleftrightarrow> (\<forall>x \<in> set ?rs. \<not> near d origin from x)"
  proof -
    have "?cs = [] \<longleftrightarrow> (\<forall>x \<in> set ?rs. pr_pane x \<noteq> from \<longrightarrow> candidate_of d origin x = None)"
      by (auto simp: map_filter_Nil)
    then show ?thesis using cand eq by (auto simp: foldl_better_None near_def)
  qed
  moreover have "p \<in> set (panes l)" if "x \<in> set ?rs" "pr_pane x = p" for x p
    using that by (simp flip: panes) blast
  ultimately show ?thesis by blast
qed

lemma EPS_value: "EPS = Fin (frnd (1 / 10 ^ 9))" "0 < frnd (1 / 10 ^ 9)" "frnd (1 / 10 ^ 9) < 1"
proof -
  show "EPS = Fin (frnd (1 / 10 ^ 9))" by (simp add: EPS_def fl_Fin)
  have "frnd (1 / 2 ^ 30) = 1 / 2 ^ 30" using frnd_dyadic [of 1 30] by simp
  then have "1 / 2 ^ 30 \<le> frnd (1 / 10 ^ 9)" using frnd_mono [of "1 / 2 ^ 30" "1 / 10 ^ 9"] by simp
  then show "0 < frnd (1 / 10 ^ 9)" by (rule less_le_trans [rotated]) simp
  have "frnd (1 / 10 ^ 9) \<le> 1 / 2" using frnd_mono [of "1 / 10 ^ 9" "1 / 2"] by simp
  then show "frnd (1 / 10 ^ 9) < 1" by simp
qed

theorem neighbor_touches_witness:
  "\<exists>origin. \<lparr>pr_pane = 1, pr_rect = origin\<rparr> \<in>
       set (layout_rects (Split Horizontal (Fin (1/2)) (Pane 1) (Pane 2))) \<and>
     layout_neighbor (Split Horizontal (Fin (1/2)) (Pane 1) (Pane 2)) 1 DRight = Some 2"
proof -
  let ?l = "Split Horizontal (Fin (1/2)) (Pane 1) (Pane 2)"
  let ?a = "\<lparr>r_x = Fin 0, r_y = Fin 0, r_width = Fin (1/2), r_height = Fin 1\<rparr>"
  let ?b = "\<lparr>r_x = Fin (1/2), r_y = Fin 0, r_width = Fin (1/2), r_height = Fin 1\<rparr>"
  have rects: "layout_rects ?l = [\<lparr>pr_pane = 1, pr_rect = ?a\<rparr>, \<lparr>pr_pane = 2, pr_rect = ?b\<rparr>]"
    by (simp add: layout_rects_def RECT_UNIT_def f_sub_def fl_Fin Let_def)
  have near: "near DRight ?a 1 \<lparr>pr_pane = 2, pr_rect = ?b\<rparr>" "\<not> near DRight ?a 1 \<lparr>pr_pane = 1, pr_rect = ?a\<rparr>"
    unfolding near_def using EPS_value(2,3)
    by (simp_all add: EPS_value(1) overlap_def f_sub_def f_max_def f_min_def fl_Fin not_le
        flip: One_nat_def)
  have mem: "\<lparr>pr_pane = 1, pr_rect = ?a\<rparr> \<in> set (layout_rects ?l)" using rects by simp
  note facts = neighbor_touches [OF _ mem, of DRight]
  obtain p where "layout_neighbor ?l 1 DRight = Some p"
    using facts near(1) rects by (cases "layout_neighbor ?l 1 DRight") auto
  moreover have "p = 2"
    using calculation facts near(2) rects by auto
  ultimately show ?thesis using mem by blast
qed

end
