(* ===== verification/Telnet.thy ===== *)
theory Telnet
  imports Prelude
begin

text \<open>
  The telnet protocol (\<open>Nvt\<close> of \<open>crates/opensesh-proto-misc/src/telnet.rs\<close>): the server's bytes
  are taken apart one by one into text and replies, options are negotiated, and typed text is
  prepared for the server. The arrays \<open>ours\<close> and \<open>theirs\<close> of 256 flags indexed by a byte are
  functions on bytes; the terminal's name is its UTF-8 bytes.
\<close>

subsection \<open>Codes\<close>

definition O_BINARY :: byte where "O_BINARY = 0"
definition O_ECHO :: byte where "O_ECHO = 1"
definition O_SGA :: byte where "O_SGA = 3"
definition O_TTYPE :: byte where "O_TTYPE = 24"
definition O_NAWS :: byte where "O_NAWS = 31"

definition IAC :: byte where "IAC = 255"
definition DONT :: byte where "DONT = 254"
definition DO :: byte where "DO = 253"
definition WONT :: byte where "WONT = 252"
definition WILL :: byte where "WILL = 251"
definition SB :: byte where "SB = 250"
definition SE :: byte where "SE = 240"
definition CR :: byte where "CR = 13"
definition LF :: byte where "LF = 10"
definition NUL :: byte where "NUL = 0"
definition TTYPE_IS :: byte where "TTYPE_IS = 0"
definition TTYPE_SEND :: byte where "TTYPE_SEND = 1"

definition MAX_SUBNEGOTIATION :: nat where "MAX_SUBNEGOTIATION = 4096"

definition THEIRS :: bytes where "THEIRS = [O_ECHO, O_SGA, O_BINARY]"
definition OURS :: bytes where "OURS = [O_SGA, O_BINARY, O_NAWS, O_TTYPE]"

subsection \<open>State\<close>

datatype nvt_state = Data | AfterCr | Iac | Negotiate byte | Sub | SubIac

record term_size =
  ts_columns :: nat
  ts_lines :: nat

record received =
  rc_data :: bytes
  rc_reply :: bytes

record nvt =
  n_state :: nvt_state
  n_sub :: bytes
  n_ours :: "byte \<Rightarrow> bool"
  n_theirs :: "byte \<Rightarrow> bool"
  n_term :: bytes
  n_size :: term_size
  n_typed_cr :: bool

definition nvt_new :: "bytes \<Rightarrow> term_size \<Rightarrow> nvt" where
  "nvt_new term_name dims =
     \<lparr>n_state = Data, n_sub = [], n_ours = \<lambda>_. False, n_theirs = \<lambda>_. False,
      n_term = term_name, n_size = dims, n_typed_cr = False\<rparr>"

definition server_echoes :: "nvt \<Rightarrow> bool" where
  "server_echoes n = n_theirs n O_ECHO"

subsection \<open>Replies\<close>

definition window_size :: "nvt \<Rightarrow> bytes" where
  "window_size n =
     [IAC, SB, O_NAWS] @
     concat (map (\<lambda>b. if b = IAC then [b, IAC] else [b])
       (be16 (ts_columns (n_size n)) @ be16 (ts_lines (n_size n)))) @
     [IAC, SE]"

definition negotiate :: "nvt \<Rightarrow> byte \<Rightarrow> byte \<Rightarrow> nvt \<times> bytes" where
  "negotiate n verb code =
     (if verb = WILL then
        if code \<notin> set THEIRS then (n, [IAC, DONT, code])
        else if \<not> n_theirs n code
             then (n\<lparr>n_theirs := (n_theirs n)(code := True)\<rparr>, [IAC, DO, code])
             else (n, [])
      else if verb = WONT then
        if n_theirs n code
        then (n\<lparr>n_theirs := (n_theirs n)(code := False)\<rparr>, [IAC, DONT, code])
        else (n, [])
      else if verb = DO then
        if code \<notin> set OURS then (n, [IAC, WONT, code])
        else if \<not> n_ours n code
             then let n = n\<lparr>n_ours := (n_ours n)(code := True)\<rparr>
                  in (n, [IAC, WILL, code] @ (if code = O_NAWS then window_size n else []))
             else (n, [])
      else if verb = DONT then
        if n_ours n code
        then (n\<lparr>n_ours := (n_ours n)(code := False)\<rparr>, [IAC, WONT, code])
        else (n, [])
      else (n, []))"

definition ascii_uppercase :: "byte \<Rightarrow> byte" where
  "ascii_uppercase b = (if 97 \<le> b \<and> b \<le> 122 then b - 32 else b)"

definition subnegotiation :: "nvt \<Rightarrow> nvt \<times> bytes" where
  "subnegotiation n =
     (n\<lparr>n_sub := []\<rparr>,
      if n_sub n = [O_TTYPE, TTYPE_SEND] \<and> n_ours n O_TTYPE
      then [IAC, SB, O_TTYPE, TTYPE_IS] @
           filter (\<lambda>b. b \<noteq> IAC) (map ascii_uppercase (n_term n)) @ [IAC, SE]
      else [])"

subsection \<open>Receiving and sending\<close>

definition push_data :: "received \<Rightarrow> byte \<Rightarrow> received" where
  "push_data out b = out\<lparr>rc_data := rc_data out @ [b]\<rparr>"

definition push_reply :: "received \<Rightarrow> bytes \<Rightarrow> received" where
  "push_reply out bs = out\<lparr>rc_reply := rc_reply out @ bs\<rparr>"

definition receive_byte :: "nvt \<times> received \<Rightarrow> byte \<Rightarrow> nvt \<times> received" where
  "receive_byte no byte =
     (let (n, out) = no in
      case n_state n of
        Iac \<Rightarrow>
          (let n = n\<lparr>n_state := Data\<rparr>
           in if byte = IAC then (n, push_data out IAC)
              else if byte = WILL \<or> byte = WONT \<or> byte = DO \<or> byte = DONT
                   then (n\<lparr>n_state := Negotiate byte\<rparr>, out)
              else if byte = SB then (n\<lparr>n_sub := [], n_state := Sub\<rparr>, out)
              else (n, out))
      | Negotiate verb \<Rightarrow>
          (let (n, reply) = negotiate (n\<lparr>n_state := Data\<rparr>) verb byte
           in (n, push_reply out reply))
      | Sub \<Rightarrow>
          if byte = IAC then (n\<lparr>n_state := SubIac\<rparr>, out)
          else if length (n_sub n) < MAX_SUBNEGOTIATION
               then (n\<lparr>n_sub := n_sub n @ [byte]\<rparr>, out)
               else (n, out)
      | SubIac \<Rightarrow>
          if byte = SE then
            (let (n, reply) = subnegotiation (n\<lparr>n_state := Data\<rparr>) in (n, push_reply out reply))
          else if byte = IAC then
            (let n = n\<lparr>n_state := Sub\<rparr>
             in (if length (n_sub n) < MAX_SUBNEGOTIATION
                 then n\<lparr>n_sub := n_sub n @ [IAC]\<rparr> else n, out))
          else (n\<lparr>n_state := Data\<rparr>, out)
      | _ \<Rightarrow>
          (let after_cr = (n_state n = AfterCr); n = n\<lparr>n_state := Data\<rparr>
           in if byte = IAC then (n\<lparr>n_state := Iac\<rparr>, out)
              else if byte = NUL \<and> after_cr then (n, out)
              else if byte = CR \<and> \<not> n_theirs n O_BINARY
                   then (n\<lparr>n_state := AfterCr\<rparr>, push_data out CR)
              else (n, push_data out byte)))"

definition nvt_receive :: "nvt \<Rightarrow> bytes \<Rightarrow> nvt \<times> received" where
  "nvt_receive n bs = foldl receive_byte (n, \<lparr>rc_data = [], rc_reply = []\<rparr>) bs"

definition nvt_resize :: "nvt \<Rightarrow> term_size \<Rightarrow> nvt \<times> bytes" where
  "nvt_resize n dims =
     (let n = n\<lparr>n_size := dims\<rparr> in (n, if n_ours n O_NAWS then window_size n else []))"

definition encode_byte :: "bool \<Rightarrow> bool \<Rightarrow> byte \<Rightarrow> bytes" where
  "encode_byte binary typed_cr byte =
     (if byte = IAC then [IAC, IAC]
      else if byte = CR \<and> \<not> binary then [CR, LF]
      else if byte = LF \<and> \<not> binary \<and> typed_cr then []
      else [byte])"

fun encode_loop :: "bool \<Rightarrow> bool \<Rightarrow> bytes \<Rightarrow> bool \<times> bytes" where
  "encode_loop binary typed_cr [] = (typed_cr, [])"
| "encode_loop binary typed_cr (byte # typed) =
     (let (cr, out) = encode_loop binary (byte = CR) typed
      in (cr, encode_byte binary typed_cr byte @ out))"

definition nvt_encode :: "nvt \<Rightarrow> bytes \<Rightarrow> nvt \<times> bytes" where
  "nvt_encode n typed =
     (let (cr, out) = encode_loop (n_ours n O_BINARY) (n_typed_cr n) typed
      in (n\<lparr>n_typed_cr := cr\<rparr>, out))"

definition local_echo :: "bytes \<Rightarrow> bytes" where
  "local_echo typed =
     concat (map (\<lambda>b. if b = CR then [13, 10]
                      else if b = 8 \<or> b = 127 then [8, 32, 8]
                      else if b \<le> 31 then []
                      else [b]) typed)"

lemmas telnet_codes = O_BINARY_def O_ECHO_def O_SGA_def O_TTYPE_def O_NAWS_def IAC_def DONT_def DO_def
  WONT_def WILL_def SB_def SE_def CR_def LF_def NUL_def TTYPE_IS_def TTYPE_SEND_def

subsection \<open>The invariant\<close>

text \<open>
  What the server can make the client hold: a bounded buffer, and only the options of the two
  lists.
\<close>

definition nvt_inv :: "nvt \<Rightarrow> bool" where
  "nvt_inv n \<longleftrightarrow> length (n_sub n) \<le> MAX_SUBNEGOTIATION \<and>
     (\<forall>c. n_ours n c \<longrightarrow> c \<in> set OURS) \<and> (\<forall>c. n_theirs n c \<longrightarrow> c \<in> set THEIRS)"

datatype nvt_event = EvReceive bytes | EvResize term_size | EvType bytes

fun nvt_step :: "nvt \<Rightarrow> nvt_event \<Rightarrow> nvt" where
  "nvt_step n (EvReceive bs) = fst (nvt_receive n bs)"
| "nvt_step n (EvResize dims) = fst (nvt_resize n dims)"
| "nvt_step n (EvType typed) = fst (nvt_encode n typed)"

lemma negotiate_inv: "nvt_inv n \<Longrightarrow> nvt_inv (fst (negotiate n verb code))"
  by (auto simp: negotiate_def nvt_inv_def Let_def)

lemma receive_byte_inv: "nvt_inv n \<Longrightarrow> nvt_inv (fst (receive_byte (n, out) b))"
proof (cases "n_state n")
  case (Negotiate v)
  assume "nvt_inv n"
  then have "nvt_inv (fst (negotiate (n\<lparr>n_state := Data\<rparr>) v b))"
    by (intro negotiate_inv) (simp add: nvt_inv_def)
  with Negotiate show ?thesis by (auto simp: receive_byte_def split: prod.splits)
qed (auto simp: receive_byte_def subnegotiation_def nvt_inv_def Let_def)

lemma nvt_receive_inv: "nvt_inv n \<Longrightarrow> nvt_inv (fst (nvt_receive n bs))"
proof -
  have "nvt_inv (fst no) \<Longrightarrow> nvt_inv (fst (foldl receive_byte no bs))" for no
  proof (induction bs arbitrary: no)
    case (Cons b bs)
    then show ?case using receive_byte_inv [of "fst no" "snd no" b] by simp
  qed simp
  then show "nvt_inv n \<Longrightarrow> ?thesis" by (simp add: nvt_receive_def)
qed

lemma nvt_resize_inv: "nvt_inv n \<Longrightarrow> nvt_inv (fst (nvt_resize n dims))"
  by (simp add: nvt_resize_def nvt_inv_def Let_def)

lemma nvt_encode_inv: "nvt_inv n \<Longrightarrow> nvt_inv (fst (nvt_encode n typed))"
  by (simp add: nvt_encode_def nvt_inv_def split: prod.splits)

interpretation tm: invariant_machine nvt_step nvt_inv "\<lambda>_. True"
proof
  fix n e assume "nvt_inv n"
  then show "nvt_inv (nvt_step n e)"
    by (cases e) (simp_all add: nvt_receive_inv nvt_resize_inv nvt_encode_inv)
qed

text \<open>
  a server cannot make the client hold more than the protocol needs. Whatever bytes arrive,
  however they are mixed with typing and resizing, the subnegotiation buffer stays within 4096
  bytes, the server has turned on at most \<open>ECHO\<close>, \<open>SGA\<close> and \<open>BINARY\<close> for itself, and the client
  at most \<open>SGA\<close>, \<open>BINARY\<close>, \<open>NAWS\<close> and \<open>TTYPE\<close>.
\<close>

theorem telnet_bounded:
  "nvt_inv (foldl nvt_step (nvt_new term_name dims) events)"
  by (rule tm.run_inv) (simp_all add: nvt_inv_def nvt_new_def list_all_iff)

subsection \<open>Streaming\<close>

definition rc_append :: "received \<Rightarrow> received \<Rightarrow> received" where
  "rc_append a b = \<lparr>rc_data = rc_data a @ rc_data b, rc_reply = rc_reply a @ rc_reply b\<rparr>"

abbreviation rc_empty :: received where
  "rc_empty \<equiv> \<lparr>rc_data = [], rc_reply = []\<rparr>"

lemma rc_append_simps [simp]:
  "rc_append rc_empty r = r" "rc_append r rc_empty = r"
  "rc_append (rc_append a b) c = rc_append a (rc_append b c)"
  "rc_data (rc_append a b) = rc_data a @ rc_data b" "rc_reply (rc_append a b) = rc_reply a @ rc_reply b"
  by (simp_all add: rc_append_def)

lemma push_as_append:
  "push_data out b = rc_append out (push_data rc_empty b)"
  "push_reply out bs = rc_append out (push_reply rc_empty bs)"
  by (simp_all add: push_data_def push_reply_def rc_append_def)

lemma receive_byte_out:
  "receive_byte (n, out) b =
     (fst (receive_byte (n, rc_empty) b), rc_append out (snd (receive_byte (n, rc_empty) b)))"
  by (cases "n_state n"; cases "negotiate (n\<lparr>n_state := Data\<rparr>) (case n_state n of Negotiate v \<Rightarrow> v | _ \<Rightarrow> 0) b")
     (simp_all add: receive_byte_def Let_def push_as_append [of out] subnegotiation_def)

lemma receive_out:
  "foldl receive_byte (n, out) bs = (fst (nvt_receive n bs), rc_append out (snd (nvt_receive n bs)))"
proof (induction bs arbitrary: n out)
  case (Cons b bs)
  obtain n' d where step: "receive_byte (n, rc_empty) b = (n', d)" by force
  show ?case
    using Cons.IH [of n' "rc_append out d"] Cons.IH [of n' d] receive_byte_out [of n out b] step
    by (simp add: nvt_receive_def)
qed (simp add: nvt_receive_def)

lemma nvt_receive_append:
  "nvt_receive n (xs @ ys) =
     (fst (nvt_receive (fst (nvt_receive n xs)) ys),
      rc_append (snd (nvt_receive n xs)) (snd (nvt_receive (fst (nvt_receive n xs)) ys)))"
  using receive_out [of "fst (nvt_receive n xs)" "snd (nvt_receive n xs)" ys]
  by (simp add: nvt_receive_def)

lemma nvt_receive_simps:
  "nvt_receive n [] = (n, rc_empty)"
  "nvt_receive n (b # bs) =
     (fst (nvt_receive (fst (receive_byte (n, rc_empty) b)) bs),
      rc_append (snd (receive_byte (n, rc_empty) b))
        (snd (nvt_receive (fst (receive_byte (n, rc_empty) b)) bs)))"
  using nvt_receive_append [of n "[b]" bs] by (simp_all add: nvt_receive_def)

text \<open>
  where the network cuts the stream does not matter. Receiving the server's bytes in one
  piece or in any number of pieces gives the same text, the same replies and the same state.
\<close>

theorem receive_in_pieces:
  "nvt_receive n (concat pieces) =
     foldl (\<lambda>(n, out) piece. let (n', d) = nvt_receive n piece in (n', rc_append out d))
       (n, rc_empty) pieces"
proof -
  have "foldl (\<lambda>(n, out) piece. let (n', d) = nvt_receive n piece in (n', rc_append out d))
      (n, out) pieces = (fst (nvt_receive n (concat pieces)),
        rc_append out (snd (nvt_receive n (concat pieces))))" for out
    by (induction pieces arbitrary: n out)
       (simp_all add: nvt_receive_append nvt_receive_simps(1) split: prod.splits)
  from this [of rc_empty] show ?thesis by simp
qed

subsection \<open>Replies are well-formed commands\<close>

definition escape_iac :: "bytes \<Rightarrow> bytes" where
  "escape_iac bs = concat (map (\<lambda>b. if b = IAC then [b, IAC] else [b]) bs)"

text \<open>
  A byte string is quiet when a receiver between commands takes it as commands only: no text
  comes out and it is between commands again.
\<close>

definition quiet :: "bytes \<Rightarrow> bool" where
  "quiet bs \<longleftrightarrow> (\<forall>m. n_state m = Data \<longrightarrow>
     n_state (fst (nvt_receive m bs)) = Data \<and> rc_data (snd (nvt_receive m bs)) = [])"

lemma quiet_Nil [simp]: "quiet []"
  by (simp add: quiet_def nvt_receive_simps)

lemma quiet_append: "quiet xs \<Longrightarrow> quiet ys \<Longrightarrow> quiet (xs @ ys)"
  by (simp add: quiet_def nvt_receive_append)

lemma iac_distinct [simp]:
  "IAC \<noteq> SB" "SB \<noteq> IAC" "SE \<noteq> IAC" "IAC \<noteq> SE" "WILL \<noteq> IAC" "WONT \<noteq> IAC" "DO \<noteq> IAC" "DONT \<noteq> IAC"
  "IAC \<noteq> NUL" "IAC \<noteq> CR" "CR \<noteq> IAC" "LF \<noteq> IAC" "LF \<noteq> CR" "LF \<noteq> NUL" "CR \<noteq> NUL" "CR \<noteq> LF"
  "SB \<noteq> WILL" "SB \<noteq> WONT" "SB \<noteq> DO" "SB \<noteq> DONT" "IAC \<noteq> LF"
  by (simp_all add: telnet_codes)

lemma verbs_distinct [simp]:
  "WILL \<noteq> WONT" "WILL \<noteq> DO" "WILL \<noteq> DONT" "WONT \<noteq> DO" "WONT \<noteq> DONT" "DO \<noteq> DONT"
  "WONT \<noteq> WILL" "DO \<noteq> WILL" "DONT \<noteq> WILL" "DO \<noteq> WONT" "DONT \<noteq> WONT" "DONT \<noteq> DO"
  by (simp_all add: telnet_codes)

lemma negotiate_state [simp]: "n_state (fst (negotiate n v c)) = n_state n"
  by (simp add: negotiate_def Let_def)

lemma receive_verb:
  assumes "n_state n = Data" and "v = WILL \<or> v = WONT \<or> v = DO \<or> v = DONT"
  shows "nvt_receive n [IAC, v, c] =
    (fst (negotiate n v c), \<lparr>rc_data = [], rc_reply = snd (negotiate n v c)\<rparr>)"
proof -
  let ?n1 = "n\<lparr>n_state := Iac\<rparr>" and ?n2 = "n\<lparr>n_state := Negotiate v\<rparr>"
  have "receive_byte (n, rc_empty) IAC = (?n1, rc_empty)"
    using assms(1) by (simp add: receive_byte_def Let_def)
  moreover have "receive_byte (?n1, rc_empty) v = (?n2, rc_empty)"
    using assms(2) by (elim disjE) (simp_all add: receive_byte_def)
  moreover have "?n2\<lparr>n_state := Data\<rparr> = n" using assms(1) by simp
  then have "receive_byte (?n2, rc_empty) c =
      (fst (negotiate n v c), \<lparr>rc_data = [], rc_reply = snd (negotiate n v c)\<rparr>)"
    by (simp add: receive_byte_def push_reply_def split: prod.splits)
  ultimately show ?thesis by (simp add: nvt_receive_simps)
qed

lemma quiet_verb: "v = WILL \<or> v = WONT \<or> v = DO \<or> v = DONT \<Longrightarrow> quiet [IAC, v, c]"
  by (simp add: quiet_def receive_verb)

lemma receive_sub_body:
  assumes "n_state n = Sub" and "length (n_sub n) + length bs \<le> MAX_SUBNEGOTIATION"
  shows "nvt_receive n (escape_iac bs) = (n\<lparr>n_sub := n_sub n @ bs\<rparr>, rc_empty)"
  using assms
proof (induction bs arbitrary: n)
  case Nil
  then show ?case by (simp add: escape_iac_def nvt_receive_simps)
next
  case (Cons b bs)
  let ?n = "n\<lparr>n_sub := n_sub n @ [b]\<rparr>"
  have "nvt_receive n (if b = IAC then [b, IAC] else [b]) = (?n, rc_empty)"
    using Cons.prems by (auto simp: nvt_receive_simps receive_byte_def Let_def)
  with Cons.IH [of ?n] Cons.prems show ?case
    by (simp add: escape_iac_def nvt_receive_append)
qed

lemma receive_subnegotiation:
  assumes "n_state n = Data" and "length bs \<le> MAX_SUBNEGOTIATION"
  shows "nvt_receive n ([IAC, SB] @ escape_iac bs @ [IAC, SE]) =
    (n\<lparr>n_sub := []\<rparr>, \<lparr>rc_data = [], rc_reply = snd (subnegotiation (n\<lparr>n_sub := bs\<rparr>))\<rparr>)"
proof -
  have start: "nvt_receive n [IAC, SB] = (n\<lparr>n_sub := [], n_state := Sub\<rparr>, rc_empty)"
    using assms(1) by (simp add: nvt_receive_simps receive_byte_def Let_def)
  have body: "nvt_receive (n\<lparr>n_sub := [], n_state := Sub\<rparr>) (escape_iac bs) =
      (n\<lparr>n_sub := bs, n_state := Sub\<rparr>, rc_empty)"
    using receive_sub_body [of "n\<lparr>n_sub := [], n_state := Sub\<rparr>" bs] assms(2) by simp
  have finish: "nvt_receive (n\<lparr>n_sub := bs, n_state := Sub\<rparr>) [IAC, SE] =
      (n\<lparr>n_sub := [], n_state := Data\<rparr>,
       \<lparr>rc_data = [], rc_reply = snd (subnegotiation (n\<lparr>n_sub := bs\<rparr>))\<rparr>)"
    by (simp add: nvt_receive_simps receive_byte_def subnegotiation_def push_reply_def rc_append_def
        Let_def)
  have "n\<lparr>n_sub := [], n_state := Data\<rparr> = n\<lparr>n_sub := []\<rparr>" using assms(1) by simp
  then show ?thesis
    using start body finish
    by (simp add: nvt_receive_append [of n "[IAC, SB]"] nvt_receive_append [of _ "escape_iac bs"]
        del: append_Cons append_Nil)
qed

lemma escape_iac_id: "IAC \<notin> set bs \<Longrightarrow> escape_iac bs = bs"
  by (induction bs) (auto simp: escape_iac_def)

lemma window_size_eq:
  "window_size n = [IAC, SB] @
     escape_iac (O_NAWS # be16 (ts_columns (n_size n)) @ be16 (ts_lines (n_size n))) @ [IAC, SE]"
  by (simp add: window_size_def escape_iac_def telnet_codes)

lemma receive_window_size:
  "n_state m = Data \<Longrightarrow> nvt_receive m (window_size n) = (m\<lparr>n_sub := []\<rparr>, rc_empty)"
  unfolding window_size_eq
  by (subst receive_subnegotiation) (simp_all add: MAX_SUBNEGOTIATION_def subnegotiation_def telnet_codes)

lemma quiet_window_size: "quiet (window_size n)"
  by (simp add: quiet_def receive_window_size)

lemma quiet_negotiate: "quiet (snd (negotiate n v c))"
  using quiet_append [OF quiet_verb quiet_window_size]
  by (auto simp: negotiate_def Let_def quiet_verb)

text \<open>The buffer's bound does not matter here: a byte that does not fit is dropped in silence.\<close>

lemma receive_sub_silent:
  "n_state n = Sub \<Longrightarrow> n_state (fst (nvt_receive n (escape_iac bs))) = Sub \<and>
     snd (nvt_receive n (escape_iac bs)) = rc_empty"
proof (induction bs arbitrary: n)
  case (Cons b bs)
  have "n_state (fst (nvt_receive n (if b = IAC then [b, IAC] else [b]))) = Sub \<and>
      snd (nvt_receive n (if b = IAC then [b, IAC] else [b])) = rc_empty"
    using Cons.prems by (auto simp: nvt_receive_simps receive_byte_def Let_def)
  with Cons.IH show ?case by (simp add: escape_iac_def nvt_receive_append)
qed (simp add: escape_iac_def nvt_receive_simps)

lemma quiet_sub: "quiet ([IAC, SB] @ escape_iac bs @ [IAC, SE])"
proof -
  have "n_state (fst (nvt_receive m ([IAC, SB] @ escape_iac bs @ [IAC, SE]))) = Data \<and>
      rc_data (snd (nvt_receive m ([IAC, SB] @ escape_iac bs @ [IAC, SE]))) = []"
    if "n_state m = Data" for m
  proof -
    have start: "nvt_receive m [IAC, SB] = (m\<lparr>n_sub := [], n_state := Sub\<rparr>, rc_empty)"
      using that by (simp add: nvt_receive_simps receive_byte_def Let_def)
    obtain m' where body: "nvt_receive (m\<lparr>n_sub := [], n_state := Sub\<rparr>) (escape_iac bs) = (m', rc_empty)"
      and "n_state m' = Sub"
      using receive_sub_silent [of "m\<lparr>n_sub := [], n_state := Sub\<rparr>" bs]
      by (cases "nvt_receive (m\<lparr>n_sub := [], n_state := Sub\<rparr>) (escape_iac bs)") auto
    then have "n_state (fst (nvt_receive m' [IAC, SE])) = Data \<and> rc_data (snd (nvt_receive m' [IAC, SE])) = []"
      by (simp add: nvt_receive_simps receive_byte_def subnegotiation_def push_reply_def Let_def)
    with start body show ?thesis
      by (simp add: nvt_receive_append [of m "[IAC, SB]"] nvt_receive_append [of _ "escape_iac bs"]
          del: append_Cons append_Nil)
  qed
  then show ?thesis by (simp add: quiet_def)
qed

lemma quiet_subnegotiation: "quiet (snd (subnegotiation n))"
proof -
  let ?name = "filter (\<lambda>b. b \<noteq> IAC) (map ascii_uppercase (n_term n))"
  have eq: "escape_iac ([O_TTYPE, TTYPE_IS] @ ?name) = [O_TTYPE, TTYPE_IS] @ ?name"
    by (rule escape_iac_id) (auto simp: telnet_codes)
  show ?thesis
    using quiet_sub [of "[O_TTYPE, TTYPE_IS] @ ?name"] unfolding eq by (auto simp: subnegotiation_def)
qed

lemma quiet_receive: "quiet (rc_reply (snd (nvt_receive n bs)))"
proof (induction bs arbitrary: n)
  case (Cons b bs)
  obtain n' d where step: "receive_byte (n, rc_empty) b = (n', d)" by force
  have "quiet (rc_reply d)"
    using step quiet_negotiate [of "n\<lparr>n_state := Data\<rparr>" "case n_state n of Negotiate v \<Rightarrow> v | _ \<Rightarrow> 0" b]
      quiet_subnegotiation [of "n\<lparr>n_state := Data\<rparr>"]
    by (cases "n_state n") (auto simp: receive_byte_def push_data_def push_reply_def Let_def
        split: prod.splits if_splits)
  with Cons step show ?case by (simp add: nvt_receive_simps quiet_append)
qed (simp add: nvt_receive_simps)

text \<open>
  C17: replies are commands and nothing else. Whatever the server sent, a peer that is between
  commands takes the client's replies (option answers, the window size with its doubled 255
  bytes, the terminal's name) apart completely: none of their bytes shows up as text.
\<close>

theorem replies_are_commands:
  assumes "n_state m = Data"
  shows "rc_data (snd (nvt_receive m (rc_reply (snd (nvt_receive n bs))))) = [] \<and>
    n_state (fst (nvt_receive m (rc_reply (snd (nvt_receive n bs))))) = Data"
  using quiet_receive [of n bs] assms by (simp add: quiet_def)

theorem replies_are_commands_witness:
  "rc_reply (snd (nvt_receive (nvt_new [] \<lparr>ts_columns = 255, ts_lines = 24\<rparr>) [IAC, DO, O_NAWS])) =
     [IAC, WILL, O_NAWS, IAC, SB, O_NAWS, 0, 255, 255, 0, 24, IAC, SE] \<and>
   rc_data (snd (nvt_receive (nvt_new [] \<lparr>ts_columns = 80, ts_lines = 24\<rparr>)
     [IAC, WILL, O_NAWS, IAC, SB, O_NAWS, 0, 255, 255, 0, 24, IAC, SE])) = []"
proof -
  let ?n = "nvt_new [] \<lparr>ts_columns = 255, ts_lines = 24\<rparr>"
  let ?m = "nvt_new [] \<lparr>ts_columns = 80, ts_lines = 24\<rparr>"
  have reply: "rc_reply (snd (nvt_receive ?n [IAC, DO, O_NAWS])) =
      [IAC, WILL, O_NAWS, IAC, SB, O_NAWS, 0, 255, 255, 0, 24, IAC, SE]"
    by (simp add: receive_verb nvt_new_def negotiate_def OURS_def window_size_def be16_eq Let_def)
       (simp add: telnet_codes)
  show ?thesis
    using reply replies_are_commands [of ?m ?n "[IAC, DO, O_NAWS]"] by (simp add: nvt_new_def)
qed

subsection \<open>Two ends do not loop\<close>


text \<open>
  What two ends send each other while they negotiate: option commands, and window sizes, which the
  other end reads past. \<open>answer_tokens\<close> is what an end makes of such a message.
\<close>

datatype token = Order byte byte | Window nvt

fun token_bytes :: "token \<Rightarrow> bytes" where
  "token_bytes (Order verb code) = [IAC, verb, code]"
| "token_bytes (Window k) = window_size k"

definition message :: "token list \<Rightarrow> bytes" where
  "message ts = concat (map token_bytes ts)"




lemma window_size_flags [simp]: "window_size (n\<lparr>n_ours := f\<rparr>) = window_size n"
  by (simp add: window_size_def)


lemma message_simps [simp]:
  "message [] = []" "message (t # ts) = token_bytes t @ message ts"
  "message (ts @ us) = message ts @ message us"
  by (simp_all add: message_def)


text \<open>One option alone: its two flags, the verbs that come for it and the verbs that go back.\<close>

fun verbs :: "byte \<Rightarrow> token list \<Rightarrow> byte list" where
  "verbs c [] = []"
| "verbs c (Order verb code # ts) = (if code = c then verb # verbs c ts else verbs c ts)"
| "verbs c (Window _ # ts) = verbs c ts"


lemma verbs_append [simp]: "verbs c (ts @ us) = verbs c ts @ verbs c us"
  by (induction c ts rule: verbs.induct) simp_all









text \<open>
  two commands about one option can go round for ever. An end that offers SGA and gets DO and DONT
  for it in one input answers both and is where it was; the other end, with SGA off, answers
  these two with DO and DONT and is where it was, too.
\<close>

theorem two_commands_loop:
  assumes "n_state a = Data" and "\<not> n_ours a O_SGA" and "n_state b = Data" and "\<not> n_theirs b O_SGA"
  shows "nvt_receive a [IAC, DO, O_SGA, IAC, DONT, O_SGA] =
      (a, \<lparr>rc_data = [], rc_reply = [IAC, WILL, O_SGA, IAC, WONT, O_SGA]\<rparr>) \<and>
    nvt_receive b [IAC, WILL, O_SGA, IAC, WONT, O_SGA] =
      (b, \<lparr>rc_data = [], rc_reply = [IAC, DO, O_SGA, IAC, DONT, O_SGA]\<rparr>)"
proof -
  have sga: "O_SGA \<in> set OURS" "O_SGA \<in> set THEIRS" "O_SGA \<noteq> O_NAWS"
    by (simp_all add: OURS_def THEIRS_def telnet_codes)
  have "a\<lparr>n_ours := (n_ours a)(O_SGA := False)\<rparr> = a" using assms(2) by (simp add: fun_upd_idem)
  moreover have "b\<lparr>n_theirs := (n_theirs b)(O_SGA := False)\<rparr> = b" using assms(4) by (simp add: fun_upd_idem)
  moreover have "n_state (a\<lparr>n_ours := (n_ours a)(O_SGA := True)\<rparr>) = Data"
    "n_state (b\<lparr>n_theirs := (n_theirs b)(O_SGA := True)\<rparr>) = Data" using assms(1,3) by simp_all
  ultimately show ?thesis
    using nvt_receive_append [of a "[IAC, DO, O_SGA]" "[IAC, DONT, O_SGA]"]
      nvt_receive_append [of b "[IAC, WILL, O_SGA]" "[IAC, WONT, O_SGA]"] sga assms
    by (simp add: receive_verb negotiate_def Let_def)
qed

theorem two_commands_loop_witness:
  "nvt_receive (nvt_new [] \<lparr>ts_columns = 80, ts_lines = 24\<rparr>) [IAC, DO, O_SGA, IAC, DONT, O_SGA] =
     (nvt_new [] \<lparr>ts_columns = 80, ts_lines = 24\<rparr>,
      \<lparr>rc_data = [], rc_reply = [IAC, WILL, O_SGA, IAC, WONT, O_SGA]\<rparr>)"
  using two_commands_loop [of "nvt_new [] \<lparr>ts_columns = 80, ts_lines = 24\<rparr>"
      "nvt_new [] \<lparr>ts_columns = 80, ts_lines = 24\<rparr>"]
  by (simp add: nvt_new_def)

subsection \<open>Typed text\<close>

text \<open>
  What the user means by the typed bytes: in binary mode these very bytes; else Enter is the
  end of line CR LF, and a LF right after a CR is part of it.
\<close>

fun typed_text :: "bool \<Rightarrow> bool \<Rightarrow> bytes \<Rightarrow> bytes" where
  "typed_text binary after_cr [] = []"
| "typed_text binary after_cr (b # bs) =
     (if binary then [b]
      else if b = CR then [CR, LF]
      else if b = LF \<and> after_cr then []
      else [b]) @ typed_text binary (b = CR) bs"

lemma typed_text_binary: "typed_text True cr bs = bs"
  by (induction bs arbitrary: cr) auto

lemma encode_snd:
  "snd (encode_loop binary cr (b # typed)) =
     encode_byte binary cr b @ snd (encode_loop binary (b = CR) typed)"
  "snd (nvt_encode n typed) = snd (encode_loop (n_ours n O_BINARY) (n_typed_cr n) typed)"
  by (simp_all add: nvt_encode_def case_prod_beta Let_def)

lemma receive_encoded:
  assumes "n_state m = Data" and "n_theirs m O_BINARY = binary"
  shows "nvt_receive m (snd (encode_loop binary cr typed)) =
    (m, \<lparr>rc_data = typed_text binary cr typed, rc_reply = []\<rparr>)"
  using assms(1)
proof (induction typed arbitrary: cr)
  case (Cons b typed)
  have m: "m\<lparr>n_state := Data\<rparr> = m" using assms(1) by simp
  have "nvt_receive m (encode_byte binary cr b) =
      (m, \<lparr>rc_data = typed_text binary cr [b], rc_reply = []\<rparr>)"
    using assms m
    by (auto simp: encode_byte_def nvt_receive_simps receive_byte_def push_data_def rc_append_def Let_def)
  then show ?case
    unfolding encode_snd nvt_receive_append using Cons.IH [OF assms(1), of "b = CR"]
    by (simp add: rc_append_def)
qed (simp add: nvt_receive_simps)

text \<open>
  C18: what is typed arrives. When both ends agree on binary mode, the other end, between
  commands, reads from the encoded bytes exactly the text that was meant (in binary mode byte
  for byte what was typed, 255 bytes included; else with Enter as CR LF), sends nothing back
  and is between commands again.
\<close>

theorem typed_text_arrives:
  assumes "n_state m = Data" and "n_theirs m O_BINARY = n_ours n O_BINARY"
  shows "nvt_receive m (snd (nvt_encode n typed)) =
    (m, \<lparr>rc_data = if n_ours n O_BINARY then typed else typed_text False (n_typed_cr n) typed,
         rc_reply = []\<rparr>)"
  unfolding encode_snd using receive_encoded [OF assms, of "n_typed_cr n" typed]
  by (simp add: typed_text_binary)

theorem typed_text_arrives_witness:
  "rc_data (snd (nvt_receive (nvt_new [] \<lparr>ts_columns = 80, ts_lines = 24\<rparr>)
     (snd (nvt_encode (nvt_new [] \<lparr>ts_columns = 80, ts_lines = 24\<rparr>) [108, 115, CR, 255])))) =
   [108, 115, CR, LF, 255]"
  using typed_text_arrives [of "nvt_new [] \<lparr>ts_columns = 80, ts_lines = 24\<rparr>"
      "nvt_new [] \<lparr>ts_columns = 80, ts_lines = 24\<rparr>" "[108, 115, CR, 255]"]
  by (simp add: nvt_new_def) (simp add: telnet_codes)

end
