(* ===== verification/Toml.thy ===== *)
theory Toml
  imports Ordered_Map F64 "HOL-Library.List_Lexorder"
begin

text \<open>
  The values of the \<open>toml\<close> crate as the code sees them through its public types: \<open>toml::Value\<close>
  and \<open>toml::Table\<close>, a map with its keys in order (the crate's default, a \<open>BTreeMap\<close>). The
  parser and the printer are the crate's own and appear as parameters where they are called.
  A date is its text.
\<close>

datatype toml_value =
    VString str
  | VInteger int
  | VFloat f64
  | VBoolean bool
  | VDatetime str
  | VArray "toml_value list"
  | VTable "(str \<times> toml_value) list"

type_synonym table = "(str, toml_value) btree_map"

text \<open>Every table in a value has its keys in order and once.\<close>

fun toml_ok :: "toml_value \<Rightarrow> bool" where
  "toml_ok (VArray vs) = (\<forall>v \<in> set vs. toml_ok v)"
| "toml_ok (VTable t) = (bt_ok t \<and> (\<forall>(k, v) \<in> set t. toml_ok v))"
| "toml_ok _ = True"

definition table_ok :: "table \<Rightarrow> bool" where
  "table_ok t \<longleftrightarrow> toml_ok (VTable t)"

fun as_str :: "toml_value \<Rightarrow> str option" where
  "as_str (VString s) = Some s"
| "as_str _ = None"

fun as_array :: "toml_value \<Rightarrow> toml_value list option" where
  "as_array (VArray vs) = Some vs"
| "as_array _ = None"

fun as_table :: "toml_value \<Rightarrow> table option" where
  "as_table (VTable t) = Some t"
| "as_table _ = None"

fun as_integer :: "toml_value \<Rightarrow> int option" where
  "as_integer (VInteger i) = Some i"
| "as_integer _ = None"

fun as_bool :: "toml_value \<Rightarrow> bool option" where
  "as_bool (VBoolean b) = Some b"
| "as_bool _ = None"

text \<open>\<open>Value::get\<close> with a text key: \<open>None\<close> for anything but a table.\<close>

fun value_get :: "toml_value \<Rightarrow> str \<Rightarrow> toml_value option" where
  "value_get (VTable t) key = bt_get t key"
| "value_get _ key = None"

definition bt_remove :: "'k \<Rightarrow> ('k, 'v) btree_map \<Rightarrow> ('k, 'v) btree_map" where
  "bt_remove k m = bt_retain (\<lambda>k'. k' \<noteq> k) m"

subsection \<open>Tables as maps\<close>

lemma bt_get_remove: "bt_get (bt_remove k m) = (bt_get m)(k := None)"
  by (auto simp: bt_remove_def bt_get_retain fun_eq_iff)

lemma bt_ok_remove: "bt_ok m \<Longrightarrow> bt_ok (bt_remove k m)"
  by (simp add: bt_remove_def bt.ok_retain)

text \<open>Two ordered tables with the same entries are the same table.\<close>

lemma bt_ext: "bt_ok m \<Longrightarrow> bt_ok m' \<Longrightarrow> bt_get m = bt_get m' \<Longrightarrow> m = m'"
proof -
  assume ok: "bt_ok m" "bt_ok m'" and eq: "bt_get m = bt_get m'"
  have "set m = set m'"
    using map_of_inject_set [OF bt_ok_distinct [OF ok(1)] bt_ok_distinct [OF ok(2)]] eq by simp
  have keys: "map fst m = map fst m'"
    by (rule sorted_distinct_set_unique)
       (use ok \<open>set m = set m'\<close> in \<open>auto simp: bt_ok_def strict_sorted_iff\<close>)
  have "map snd m = map snd m'"
  proof (rule map_of_zip_inject)
    show "length (map snd m) = length (map fst m)" by simp
    show "length (map snd m') = length (map fst m)" unfolding keys by simp
    show "distinct (map fst m)" using ok(1) by (rule bt_ok_distinct)
    have "zip (map fst m) (map snd m') = m'" unfolding keys by (rule zip_map_fst_snd)
    then show "bt_get (zip (map fst m) (map snd m)) = bt_get (zip (map fst m) (map snd m'))"
      by (simp add: zip_map_fst_snd eq)
  qed
  with keys show "m = m'" by (metis zip_map_fst_snd)
qed

lemma bt_ok_ConsD: "bt_ok ((k, v) # m) \<Longrightarrow> bt_ok m \<and> bt_get m k = None"
  by (auto simp: bt_ok_Cons map_of_eq_None_iff)

end
