(* ===== verification/Texts.thy ===== *)
theory Texts
  imports Prelude
begin

text \<open>
  The parts of Rust's \<open>str\<close> that several components use: splitting at a character, joining with
  a separator, prefixes and suffixes, and decimal numbers as \<open>format!\<close> writes them.
\<close>

text \<open>\<open>[T]::join\<close> with a separator.\<close>

fun join_with :: "str \<Rightarrow> str list \<Rightarrow> str" where
  "join_with sep [] = []"
| "join_with sep [w] = w"
| "join_with sep (w # ws) = w @ sep @ join_with sep ws"

text \<open>\<open>str::split\<close> at a character: always at least one part.\<close>

fun split_on :: "uchar \<Rightarrow> str \<Rightarrow> str list" where
  "split_on c [] = [[]]"
| "split_on c (x # xs) =
     (if x = c then [] # split_on c xs
      else case split_on c xs of [] \<Rightarrow> [[x]] | p # ps \<Rightarrow> (x # p) # ps)"

text \<open>\<open>str::split_once\<close> and \<open>str::rsplit_once\<close> at a character.\<close>

definition split_at_char :: "uchar \<Rightarrow> str \<Rightarrow> (str \<times> str) option" where
  "split_at_char c s =
     (case dropWhile (\<lambda>x. x \<noteq> c) s of
        [] \<Rightarrow> None | _ # rest \<Rightarrow> Some (takeWhile (\<lambda>x. x \<noteq> c) s, rest))"

definition rsplit_once :: "uchar \<Rightarrow> str \<Rightarrow> (str \<times> str) option" where
  "rsplit_once c s = map_option (\<lambda>(a, b). (rev b, rev a)) (split_at_char c (rev s))"

definition strip_prefix :: "str \<Rightarrow> str \<Rightarrow> str option" where
  "strip_prefix prefix s =
     (if take (length prefix) s = prefix then Some (drop (length prefix) s) else None)"

definition strip_suffix :: "str \<Rightarrow> str \<Rightarrow> str option" where
  "strip_suffix suffix s = map_option rev (strip_prefix (rev suffix) (rev s))"

text \<open>A number as \<open>Display\<close> writes it.\<close>

fun decimal :: "nat \<Rightarrow> str" where
  "decimal n = (if n < 10 then [48 + n] else decimal (n div 10) @ [48 + n mod 10])"

declare decimal.simps [simp del]

definition starts_with :: "str \<Rightarrow> str \<Rightarrow> bool" where
  "starts_with s prefix \<longleftrightarrow> take (length prefix) s = prefix"

text \<open>\<open>str::split_once\<close>, at the first place where the separator starts.\<close>

fun split_once :: "str \<Rightarrow> str \<Rightarrow> (str \<times> str) option" where
  "split_once [] sep = (if sep = [] then Some ([], []) else None)"
| "split_once (c # s) sep =
     (if starts_with (c # s) sep then Some ([], drop (length sep) (c # s))
      else map_option (\<lambda>(a, b). (c # a, b)) (split_once s sep))"

text \<open>\<open>parse\<close> to an unsigned integer: digits, with a \<open>+\<close> in front or not, up to the largest one.\<close>

definition is_digit :: "uchar \<Rightarrow> bool" where
  "is_digit c \<longleftrightarrow> 48 \<le> c \<and> c \<le> 57"

definition parse_uint :: "nat \<Rightarrow> str \<Rightarrow> nat option" where
  "parse_uint most s =
     (let ds = (case s of [] \<Rightarrow> [] | c # cs \<Rightarrow> if c = 43 then cs else s);
          n = foldl (\<lambda>n d. 10 * n + (d - 48)) 0 ds
      in if ds \<noteq> [] \<and> list_all is_digit ds \<and> n \<le> most then Some n else None)"

text \<open>\<open>to_ascii_lowercase\<close> and \<open>eq_ignore_ascii_case\<close>.\<close>

definition to_ascii_lower :: "str \<Rightarrow> str" where
  "to_ascii_lower s = map (\<lambda>c. if 65 \<le> c \<and> c \<le> 90 then c + 32 else c) s"

definition eq_ignore_ascii_case :: "str \<Rightarrow> str \<Rightarrow> bool" where
  "eq_ignore_ascii_case a b \<longleftrightarrow> to_ascii_lower a = to_ascii_lower b"

text \<open>\<open>trim_end_matches\<close> of a character, and \<open>trim_start_matches\<close> of a text.\<close>

definition trim_end_char :: "uchar \<Rightarrow> str \<Rightarrow> str" where
  "trim_end_char c s = rev (dropWhile (\<lambda>x. x = c) (rev s))"

fun trim_start_text :: "nat \<Rightarrow> str \<Rightarrow> str \<Rightarrow> str" where
  "trim_start_text 0 pat s = s"
| "trim_start_text (Suc n) pat s = (case strip_prefix pat s of None \<Rightarrow> s | Some rest \<Rightarrow> trim_start_text n pat rest)"

definition trim_start_matches :: "str \<Rightarrow> str \<Rightarrow> str" where
  "trim_start_matches pat s = trim_start_text (length s) pat s"

text \<open>\<open>str::split_inclusive('\\n')\<close> and \<open>str::lines\<close>.\<close>

function split_inclusive :: "str \<Rightarrow> str list" where
  "split_inclusive [] = []"
| "split_inclusive (c # s) =
     (case dropWhile (\<lambda>x. x \<noteq> 10) (c # s) of
        [] \<Rightarrow> [c # s]
      | n # rest \<Rightarrow> (takeWhile (\<lambda>x. x \<noteq> 10) (c # s) @ [n]) # split_inclusive rest)"
  by pat_completeness auto

termination
proof (relation "measure length")
  fix c s n rest assume "dropWhile (\<lambda>x. x \<noteq> 10) (c # s) = (n::nat) # rest"
  then have "length (n # rest) \<le> length (c # s)" by (metis length_dropWhile_le)
  then show "(rest, c # s) \<in> measure length" by simp
qed simp

definition line_of :: "str \<Rightarrow> str" where
  "line_of l =
     (let l = (if l \<noteq> [] \<and> last l = 10 then butlast l else l)
      in if l \<noteq> [] \<and> last l = 13 then butlast l else l)"

definition str_lines :: "str \<Rightarrow> str list" where
  "str_lines s =
     map (\<lambda>l. if l \<noteq> [] \<and> last l = 10 then line_of l else l) (split_inclusive s)"

text \<open>\<open>str::split_whitespace\<close>: the runs of characters that are not white space.\<close>

fun split_where :: "(uchar \<Rightarrow> bool) \<Rightarrow> str \<Rightarrow> str list" where
  "split_where P [] = [[]]"
| "split_where P (x # xs) =
     (if P x then [] # split_where P xs
      else case split_where P xs of [] \<Rightarrow> [[x]] | p # ps \<Rightarrow> (x # p) # ps)"

definition split_whitespace :: "str \<Rightarrow> str list" where
  "split_whitespace s = filter (\<lambda>w. w \<noteq> []) (split_where is_whitespace s)"

subsection \<open>Lemmas\<close>

lemma join_with_Cons: "ws \<noteq> [] \<Longrightarrow> join_with sep (w # ws) = w @ sep @ join_with sep ws"
  by (cases ws) auto

lemma join_with_snoc: "ws \<noteq> [] \<Longrightarrow> join_with sep (ws @ [w]) = join_with sep ws @ sep @ w"
  by (induction ws rule: list_nonempty_induct) (auto simp: join_with_Cons)

lemma join_with_Nil_iff: "sep \<noteq> [] \<Longrightarrow> [] \<notin> set ws \<Longrightarrow> join_with sep ws = [] \<longleftrightarrow> ws = []"
  by (cases ws; cases "tl ws") auto

lemma hd_join_with: "ws \<noteq> [] \<Longrightarrow> hd ws \<noteq> [] \<Longrightarrow> hd (join_with sep ws) = hd (hd ws)"
  by (cases ws; cases "tl ws") auto

lemma split_on_not_Nil [simp]: "split_on c s \<noteq> []"
  by (cases s) (auto split: list.splits)

lemma split_on_none: "c \<notin> set s \<Longrightarrow> split_on c s = [s]"
  by (induction s) auto

lemma split_on_append: "split_on c (a @ c # b) = split_on c a @ split_on c b"
  by (induction a) (auto split: list.splits)

lemma split_on_parts: "\<forall>p \<in> set (split_on c s). c \<notin> set p"
  by (induction s) (auto split: list.splits)

lemma split_on_join:
  assumes "ps \<noteq> []" and "\<forall>p \<in> set ps. c \<notin> set p"
  shows "split_on c (join_with [c] ps) = ps"
  using assms
  by (induction ps rule: list_nonempty_induct) (auto simp: join_with_Cons split_on_none split_on_append)

lemma join_split_on: "join_with [c] (split_on c s) = s"
proof (induction s)
  case (Cons x s)
  obtain p ps where "split_on c s = p # ps" by (cases "split_on c s") auto
  with Cons show ?case by (cases ps) auto
qed simp

lemma split_at_char_at: "c \<notin> set a \<Longrightarrow> split_at_char c (a @ c # b) = Some (a, b)"
  by (induction a) (auto simp: split_at_char_def split: list.splits)

lemma split_at_char_none: "c \<notin> set s \<Longrightarrow> split_at_char c s = None"
proof -
  assume "c \<notin> set s"
  then have "dropWhile (\<lambda>x. x \<noteq> c) s = []" by (auto simp: dropWhile_eq_Nil_conv)
  then show ?thesis by (simp only: split_at_char_def list.case)
qed

lemma split_at_charD:
  assumes "split_at_char c s = Some (a, b)"
  shows "s = a @ c # b \<and> c \<notin> set a"
proof -
  obtain x where d: "dropWhile (\<lambda>x. x \<noteq> c) s = x # b" and a: "a = takeWhile (\<lambda>x. x \<noteq> c) s"
    using assms by (auto simp: split_at_char_def split: list.splits)
  have "x = c" using hd_dropWhile [of "\<lambda>x. x \<noteq> c" s] d by auto
  then show ?thesis using a d takeWhile_dropWhile_id [of "\<lambda>x. x \<noteq> c" s] set_takeWhileD by fastforce
qed

lemma rsplit_once_at: "c \<notin> set b \<Longrightarrow> rsplit_once c (a @ c # b) = Some (a, b)"
  using split_at_char_at [of c "rev b" "rev a"] by (simp add: rsplit_once_def)

lemma rsplit_once_none: "c \<notin> set s \<Longrightarrow> rsplit_once c s = None"
  by (simp add: rsplit_once_def split_at_char_none)

lemma rsplit_onceD:
  assumes "rsplit_once c s = Some (a, b)"
  shows "s = a @ c # b \<and> c \<notin> set b"
proof -
  have "split_at_char c (rev s) = Some (rev b, rev a)"
    using assms by (auto simp: rsplit_once_def)
  then have "rev s = rev b @ c # rev a \<and> c \<notin> set (rev b)" by (rule split_at_charD)
  then have "rev (rev s) = rev (rev b @ c # rev a)" "c \<notin> set b" by auto
  then show ?thesis by simp
qed

lemma decimal_digits: "x \<in> set (decimal n) \<Longrightarrow> 48 \<le> x \<and> x \<le> 57"
proof (induction n rule: decimal.induct)
  case (1 n)
  then show ?case by (cases "n < 10") (auto simp: decimal.simps [of n])
qed

lemma decimal_not_Nil [simp]: "decimal n \<noteq> []"
  by (subst decimal.simps) simp

lemma parse_uint_decimal: "n \<le> most \<Longrightarrow> parse_uint most (decimal n) = Some n"
proof -
  have v: "foldl (\<lambda>n d. 10 * n + (d - 48)) 0 (decimal n) = n"
  proof (induction n rule: decimal.induct)
    case (1 n)
    then show ?case by (cases "n < 10") (simp_all add: decimal.simps [of n])
  qed
  have d: "list_all is_digit (decimal n)" using decimal_digits by (auto simp: list_all_iff is_digit_def)
  have "hd (decimal n) \<noteq> 43" using decimal_digits [of "hd (decimal n)" n] by (auto simp: hd_in_set)
  then have "(case decimal n of [] \<Rightarrow> [] | c # cs \<Rightarrow> if c = 43 then cs else decimal n) = decimal n"
    by (cases "decimal n") auto
  with v d show "n \<le> most \<Longrightarrow> ?thesis" by (simp add: parse_uint_def)
qed

lemma decimal_inj: "decimal m = decimal n \<Longrightarrow> m = n"
proof -
  assume e: "decimal m = decimal n"
  have "parse_uint (max m n) (decimal m) = Some m" "parse_uint (max m n) (decimal n) = Some n"
    by (rule parse_uint_decimal, simp)+
  then show "m = n" unfolding e by simp
qed

text \<open>Lines that were written with a line feed each come back, but for a carriage return at their end.\<close>

definition drop_cr :: "str \<Rightarrow> str" where
  "drop_cr l = (if l \<noteq> [] \<and> last l = 13 then butlast l else l)"

lemma split_inclusive_line: "10 \<notin> set l \<Longrightarrow> split_inclusive (l @ 10 # s) = (l @ [10]) # split_inclusive s"
proof -
  assume l: "10 \<notin> set l"
  obtain c r where c: "l @ 10 # s = c # r" by (cases l) auto
  have "dropWhile (\<lambda>x. x \<noteq> 10) (l @ 10 # s) = 10 # s" "takeWhile (\<lambda>x. x \<noteq> 10) (l @ 10 # s) = l"
    using l by (induction l) auto
  then show ?thesis unfolding c by simp
qed

lemma str_lines_line: "10 \<notin> set l \<Longrightarrow> str_lines (l @ 10 # s) = drop_cr l # str_lines s"
  by (simp add: str_lines_def split_inclusive_line line_of_def drop_cr_def)

lemma str_lines_written:
  "\<forall>l \<in> set ls. 10 \<notin> set l \<Longrightarrow> str_lines (concat (map (\<lambda>l. l @ [10]) ls) @ s) = map drop_cr ls @ str_lines s"
  by (induction ls) (simp_all add: str_lines_line)

lemma str_lines_no_feed: "l \<in> set (str_lines s) \<Longrightarrow> 10 \<notin> set l"
proof (induction s rule: split_inclusive.induct)
  case (2 c s)
  show ?case
  proof (cases "dropWhile (\<lambda>x. x \<noteq> 10) (c # s)")
    case Nil
    then have n: "10 \<notin> set (c # s)" by (auto simp: dropWhile_eq_Nil_conv simp del: dropWhile.simps)
    then have "str_lines (c # s) = [c # s]"
      by (subst str_lines_def, subst split_inclusive.simps(2), subst Nil) (use n last_in_set [of "c # s"] in auto)
    then show ?thesis using 2(2) n by simp
  next
    case (Cons n rest)
    let ?l = "takeWhile (\<lambda>x. x \<noteq> 10) (c # s)"
    have "n = 10" using hd_dropWhile [of "\<lambda>x. x \<noteq> 10" "c # s"] Cons by (simp del: dropWhile.simps)
    then have e: "c # s = ?l @ 10 # rest" using takeWhile_dropWhile_id [of "\<lambda>x. x \<noteq> 10" "c # s"] Cons by metis
    have nl: "10 \<notin> set ?l" by (auto dest: set_takeWhileD)
    have "str_lines (c # s) = drop_cr ?l # str_lines rest" by (subst e) (rule str_lines_line [OF nl])
    then show ?thesis using 2(1) [OF Cons] 2(2) nl by (auto simp: drop_cr_def dest: in_set_butlastD split: if_splits)
  qed
qed (simp add: str_lines_def)

lemma trim_drop_cr: "trim (drop_cr l) = trim l"
proof (cases "l \<noteq> [] \<and> last l = 13")
  case True
  then obtain k where k: "l = k @ [13]" by (metis append_butlast_last_id)
  have w: "is_whitespace 13" by (simp add: is_whitespace_def)
  show ?thesis
  proof (cases "\<forall>x \<in> set k. is_whitespace x")
    case True
    then have "\<forall>x \<in> set (k @ [13]). is_whitespace x" using w by simp
    then have a: "dropWhile is_whitespace (k @ [13]) = []" by (simp only: dropWhile_eq_Nil_conv)
    have b: "dropWhile is_whitespace k = []" using True by (simp only: dropWhile_eq_Nil_conv)
    have "drop_cr l = k" by (simp add: drop_cr_def k)
    then show ?thesis unfolding trim_def k by (simp only: a b)
  next
    case False
    then have "dropWhile is_whitespace (k @ [13]) = dropWhile is_whitespace k @ [13]"
      by (auto intro: dropWhile_append1)
    then show ?thesis using w by (simp add: drop_cr_def trim_def k)
  qed
qed (auto simp: drop_cr_def)

lemma split_where_not_Nil [simp]: "split_where P s \<noteq> []"
  by (cases s) (auto split: list.splits)

lemma split_where_none: "\<forall>x \<in> set s. \<not> P x \<Longrightarrow> split_where P s = [s]"
  by (induction s) auto

lemma split_where_append: "P c \<Longrightarrow> split_where P (a @ c # b) = split_where P a @ split_where P b"
  by (induction a) (auto split: list.splits)

lemma split_whitespace_word:
  "\<forall>x \<in> set w. \<not> is_whitespace x \<Longrightarrow> w \<noteq> [] \<Longrightarrow> is_whitespace c \<Longrightarrow>
   split_whitespace (w @ c # s) = w # split_whitespace s"
  by (simp add: split_whitespace_def split_where_append split_where_none)

lemma split_whitespace_last: "\<forall>x \<in> set w. \<not> is_whitespace x \<Longrightarrow> w \<noteq> [] \<Longrightarrow> split_whitespace w = [w]"
  by (simp add: split_whitespace_def split_where_none)

end
