(* ===== verification/Sync_Merge.thy ===== *)
theory Sync_Merge
  imports Toml World Texts
begin

text \<open>
  Merging settings that changed on two computers (\<open>crates/opensesh-core/src/sync.rs\<close>): the
  three-way merge that a save runs when the file changed on disk (\<open>merge3\<close>), the differences
  between two versions and their resolution, and the texts of a Git conflict. A list of
  conflicts that the code fills through a reference is returned, in the order of the pushes.
  \<open>toml_codec\<close> is the crate's parser and printer on the bytes of a file (no table: not UTF-8, or
  not TOML). The lock file that keeps two instances apart is not modelled: a save is one step.
\<close>

subsection \<open>Comparing\<close>

text \<open>
  \<open>same\<close>: two NaN are the same; arrays and tables are compared through. The case of two tables
  looks every key of the first up in the second.
\<close>

fun same :: "toml_value \<Rightarrow> toml_value \<Rightarrow> bool"
  and same_items :: "toml_value list \<Rightarrow> toml_value list \<Rightarrow> bool"
  and same_entries :: "table \<Rightarrow> table \<Rightarrow> bool" where
  "same a b =
     (case a of
        VFloat x \<Rightarrow>
          (case b of VFloat y \<Rightarrow> f_eq x y \<or> (x = NaN \<and> y = NaN) | _ \<Rightarrow> False)
      | VArray xs \<Rightarrow>
          (case b of VArray ys \<Rightarrow> length xs = length ys \<and> same_items xs ys | _ \<Rightarrow> False)
      | VTable s \<Rightarrow>
          (case b of VTable t \<Rightarrow> length s = length t \<and> same_entries s t | _ \<Rightarrow> False)
      | _ \<Rightarrow> a = b)"
| "same_items [] ys = True"
| "same_items (x # xs) ys =
     (case ys of [] \<Rightarrow> True | y # ys \<Rightarrow> same x y \<and> same_items xs ys)"
| "same_entries [] t = True"
| "same_entries ((key, v) # s) t =
     ((case bt_get t key of None \<Rightarrow> False | Some other \<Rightarrow> same v other) \<and> same_entries s t)"

declare same.simps [simp del]

fun same_opt :: "toml_value option \<Rightarrow> toml_value option \<Rightarrow> bool" where
  "same_opt (Some a) (Some b) = same a b"
| "same_opt None None = True"
| "same_opt _ _ = False"

subsection \<open>Records\<close>

definition ID :: str where "ID = lit ''id''"
definition PATH :: str where "PATH = lit ''path''"
definition NAME :: str where "NAME = lit ''name''"

definition record_key :: "toml_value list list \<Rightarrow> str option" where
  "record_key arrays =
     (if list_all (\<lambda>items. items = []) arrays then None
      else find (\<lambda>key. list_all (list_all (\<lambda>item.
             Option.bind (value_get item key) as_str \<noteq> None)) arrays) [ID, PATH])"

definition str_at :: "toml_value \<Rightarrow> str \<Rightarrow> str" where
  "str_at item key =
     (case Option.bind (value_get item key) as_str of None \<Rightarrow> [] | Some s \<Rightarrow> s)"

definition record_id :: "toml_value \<Rightarrow> str \<Rightarrow> str" where
  "record_id item key = str_at item key"

definition record_name :: "toml_value \<Rightarrow> str" where
  "record_name item = str_at item NAME"

record conflict =
  cf_section :: str
  cf_id :: str
  cf_name :: str

definition plain_conflict :: "str \<Rightarrow> conflict" where
  "plain_conflict section = \<lparr>cf_section = section, cf_id = [], cf_name = []\<rparr>"

definition record_conflict :: "str \<Rightarrow> str \<Rightarrow> toml_value \<Rightarrow> conflict" where
  "record_conflict section key item =
     \<lparr>cf_section = section, cf_id = record_id item key, cf_name = record_name item\<rparr>"

text \<open>\<open>by_id\<close> collects into a \<open>HashMap\<close>: the last record with an id wins.\<close>

definition by_id :: "str \<Rightarrow> toml_value list \<Rightarrow> str \<rightharpoonup> toml_value" where
  "by_id key items = map_of (rev (map (\<lambda>item. (record_id item key, item)) items))"

subsection \<open>The three-way merge\<close>

text \<open>
  The second loop of \<open>merge_records\<close>: a record that only they have goes after the record it
  follows there, else first.
\<close>

fun find_position :: "('a \<Rightarrow> bool) \<Rightarrow> 'a list \<Rightarrow> nat option" where
  "find_position P [] = None"
| "find_position P (x # xs) = (if P x then Some 0 else map_option Suc (find_position P xs))"

fun find_map :: "('a \<Rightarrow> 'b option) \<Rightarrow> 'a list \<Rightarrow> 'b option" where
  "find_map f [] = None"
| "find_map f (x # xs) = (case f x of None \<Rightarrow> find_map f xs | Some y \<Rightarrow> Some y)"

definition insert_at :: "nat \<Rightarrow> 'a \<Rightarrow> 'a list \<Rightarrow> 'a list" where
  "insert_at i x xs = take i xs @ x # drop i xs"

definition place_record ::
  "str \<Rightarrow> toml_value list \<Rightarrow> toml_value \<Rightarrow> toml_value list \<Rightarrow> toml_value list" where
  "place_record key before item out =
     (let pos = (case find_map (\<lambda>b. find_position (\<lambda>placed. record_id placed key = record_id b key) out)
                       (rev before) of
                  None \<Rightarrow> 0 | Some position \<Rightarrow> position + 1)
      in insert_at pos item out)"

fun merge_their_records ::
  "str \<Rightarrow> str \<Rightarrow> (str \<rightharpoonup> toml_value) \<Rightarrow> str set \<Rightarrow> toml_value list \<Rightarrow> toml_value list \<Rightarrow>
   toml_value list \<Rightarrow> toml_value list \<times> conflict list" where
  "merge_their_records section key base_ids our_ids before [] out = (out, [])"
| "merge_their_records section key base_ids our_ids before (item # theirs) out =
     (if record_id item key \<in> our_ids
      then merge_their_records section key base_ids our_ids (before @ [item]) theirs out
      else case base_ids (record_id item key) of
             Some base_item \<Rightarrow>
               if same base_item item
               then merge_their_records section key base_ids our_ids (before @ [item]) theirs out
               else let (out, cs) = merge_their_records section key base_ids our_ids
                          (before @ [item]) theirs (place_record key before item out)
                    in (out, record_conflict section key item # cs)
           | None \<Rightarrow>
               merge_their_records section key base_ids our_ids (before @ [item]) theirs
                 (place_record key before item out))"

function merge_value ::
  "str \<Rightarrow> toml_value option \<Rightarrow> toml_value option \<Rightarrow> toml_value option \<Rightarrow>
   toml_value option \<times> conflict list"
and merge_tables :: "str \<Rightarrow> table option \<Rightarrow> table \<Rightarrow> table \<Rightarrow> table \<times> conflict list"
and merge_our_keys ::
  "str \<Rightarrow> table option \<Rightarrow> table \<Rightarrow> table \<Rightarrow> table \<Rightarrow> table \<times> conflict list"
and merge_their_keys ::
  "str \<Rightarrow> table option \<Rightarrow> table \<Rightarrow> table \<Rightarrow> table \<Rightarrow> table \<times> conflict list"
and merge_our_records ::
  "str \<Rightarrow> str \<Rightarrow> (str \<rightharpoonup> toml_value) \<Rightarrow> (str \<rightharpoonup> toml_value) \<Rightarrow> toml_value list \<Rightarrow> toml_value list \<Rightarrow>
   toml_value list \<times> conflict list" where
  "merge_value section base ours theirs =
     (if same_opt ours theirs \<or> same_opt theirs base then (ours, [])
      else if same_opt ours base then (theirs, [])
      else case (ours, theirs) of
             (Some (VTable us), Some (VTable ts)) \<Rightarrow>
               (let (m, cs) = merge_tables section (Option.bind base as_table) us ts
                in (Some (VTable m), cs))
           | (Some (VArray us), Some (VArray ts)) \<Rightarrow>
               (let base_items = (case Option.bind base as_array of None \<Rightarrow> [] | Some b \<Rightarrow> b)
                in case record_key [base_items, us, ts] of
                     Some key \<Rightarrow>
                       (let (out, cs) = merge_our_records section key (by_id key base_items)
                              (by_id key ts) us [];
                            (out, cs') = merge_their_records section key (by_id key base_items)
                              (set (map (\<lambda>item. record_id item key) us)) [] ts out
                        in (Some (VArray out), cs @ cs'))
                   | None \<Rightarrow> (Some (VArray us), [plain_conflict section]))
           | _ \<Rightarrow> (ours, [plain_conflict section]))"
| "merge_tables section base ours theirs =
     (let (out, cs) = merge_our_keys section base ours theirs [];
          (out, cs') = merge_their_keys section base ours theirs out
      in (out, cs @ cs'))"
| "merge_our_keys section base [] theirs out = (out, [])"
| "merge_our_keys section base ((key, v) # ours) theirs out =
     (let (merged, cs) = merge_value (if section = [] then key else section)
            (Option.bind base (\<lambda>b. bt_get b key)) (Some v) (bt_get theirs key);
          (out, cs') = merge_our_keys section base ours theirs
            (case merged of None \<Rightarrow> out | Some m \<Rightarrow> bt_insert key m out)
      in (out, cs @ cs'))"
| "merge_their_keys section base ours [] out = (out, [])"
| "merge_their_keys section base ours ((key, v) # theirs) out =
     (if bt_get ours key \<noteq> None then merge_their_keys section base ours theirs out
      else let (merged, cs) = merge_value (if section = [] then key else section)
                 (Option.bind base (\<lambda>b. bt_get b key)) None (Some v);
               (out, cs') = merge_their_keys section base ours theirs
                 (case merged of None \<Rightarrow> out | Some m \<Rightarrow> bt_insert key m out)
           in (out, cs @ cs'))"
| "merge_our_records section key base_ids their_ids [] out = (out, [])"
| "merge_our_records section key base_ids their_ids (item # ours) out =
     (let id = record_id item key; base_item = base_ids id;
          (added, cs) =
            (case their_ids id of
               Some their_item \<Rightarrow>
                 (let (merged, nested) = merge_value section base_item (Some item) (Some their_item)
                  in case merged of
                       Some m \<Rightarrow>
                         ([m], if nested \<noteq> [] then [record_conflict section key item] else [])
                     | None \<Rightarrow> ([], []))
             | None \<Rightarrow>
                 (case base_item of
                    None \<Rightarrow> ([item], [])
                  | Some b \<Rightarrow>
                      if same b item then ([], [])
                      else ([item], [record_conflict section key item])));
          (out, cs') = merge_our_records section key base_ids their_ids ours (out @ added)
      in (out, cs @ cs'))"
  by pat_completeness auto

termination
proof (relation "measures [\<lambda>x. case x of
      Inl (Inl (_, _, ours, _)) \<Rightarrow> (case ours of None \<Rightarrow> 0 | Some v \<Rightarrow> 3 * size v)
    | Inl (Inr (_, _, ours, _)) \<Rightarrow> 3 * size (VTable ours) - 1
    | Inr (Inl (_, _, ours, _, _)) \<Rightarrow> 3 * size (VTable ours) - 2
    | Inr (Inr (Inl (_, _, _, theirs, _))) \<Rightarrow> 1
    | Inr (Inr (Inr (_, _, _, _, ours, _))) \<Rightarrow> 3 * size (VArray ours) - 1,
    \<lambda>x. case x of Inr (Inr (Inl (_, _, _, theirs, _))) \<Rightarrow> length theirs | _ \<Rightarrow> 0]")
qed auto

record toml_codec =
  tc_parse :: "bytes \<Rightarrow> table option"
  tc_print :: "table \<Rightarrow> bytes option"

text \<open>\<open>merge3\<close>: \<open>None\<close> stands for its error, a text that is not TOML or a table that can't be printed.\<close>

definition merge3 :: "toml_codec \<Rightarrow> bytes \<Rightarrow> bytes \<Rightarrow> bytes \<Rightarrow> (bytes \<times> conflict list) option" where
  "merge3 codec base ours theirs =
     Option.bind (tc_parse codec base) (\<lambda>b.
     Option.bind (tc_parse codec ours) (\<lambda>us.
     Option.bind (tc_parse codec theirs) (\<lambda>ts.
       let (table, conflicts) = merge_tables [] (Some b) us ts
       in map_option (\<lambda>bs. (bs, conflicts)) (tc_print codec table))))"

subsection \<open>Saving\<close>

type_synonym baselines = "str \<rightharpoonup> bytes"

text \<open>
  \<open>write_merging\<close> on a path that ends in \<open>.toml\<close> (\<open>is_toml\<close> decides) and on any other; \<open>baselines\<close>
  holds what this instance last read or wrote.
\<close>

definition write_merging ::
  "toml_codec \<Rightarrow> (str \<Rightarrow> bool) \<Rightarrow> str \<Rightarrow> bytes \<Rightarrow> baselines \<Rightarrow> 's world \<Rightarrow>
   (io_error + write_outcome) \<times> baselines \<times> 's world" where
  "write_merging codec is_toml path bytes baselines w =
     (case baselines path of
        None \<Rightarrow> (let (r, w) = atomic_write w path bytes in (r, baselines, w))
      | Some base \<Rightarrow>
          (case fs_read w path of
             (Inl OtherIo, w) \<Rightarrow> (Inl OtherIo, baselines, w)
           | (current, w) \<Rightarrow>
               (let (out, merged) =
                  (case current of
                     Inl _ \<Rightarrow> (bytes, False)
                   | Inr cur \<Rightarrow>
                       if cur \<noteq> base \<and> cur \<noteq> bytes \<and> is_toml path
                       then case merge3 codec base bytes cur of
                              Some (result, _) \<Rightarrow> (result, True)
                            | None \<Rightarrow> (bytes, False)
                       else (bytes, False))
                in case atomic_write w path out of
                     (Inl e, w) \<Rightarrow> (Inl e, baselines, w)
                   | (Inr outcome, w) \<Rightarrow>
                       (Inr (if merged then Merged else outcome),
                        baselines(path \<mapsto> bytes), w))))"

subsection \<open>Conflicts\<close>

datatype change = OnlyHere | OnlyThere | Different

record difference =
  df_section :: str
  df_id :: str
  df_name :: str
  df_change :: change

datatype side = Here | There

definition record_differences :: "str \<Rightarrow> str \<Rightarrow> toml_value list \<Rightarrow> toml_value list \<Rightarrow> difference list" where
  "record_differences section key ours theirs =
     List.map_filter (\<lambda>item.
       let found = find (\<lambda>other. record_id other key = record_id item key) theirs;
           diff = \<lambda>c. Some \<lparr>df_section = section, df_id = record_id item key,
                             df_name = record_name item, df_change = c\<rparr>
       in case found of
            None \<Rightarrow> diff OnlyHere
          | Some other \<Rightarrow> if same other item then None else diff Different) ours @
     List.map_filter (\<lambda>item.
       if list_ex (\<lambda>other. record_id other key = record_id item key) ours then None
       else Some \<lparr>df_section = section, df_id = record_id item key, df_name = record_name item,
                  df_change = OnlyThere\<rparr>) theirs"

definition key_differences :: "table \<Rightarrow> table \<Rightarrow> str \<Rightarrow> difference list" where
  "key_differences here there key =
     (let ours = bt_get here key; theirs = bt_get there key;
          our_array = Option.bind ours as_array; their_array = Option.bind theirs as_array;
          record = (case (our_array, their_array) of
                      (Some us, Some ts) \<Rightarrow> record_key [us, ts]
                    | (Some items, None) \<Rightarrow> record_key [items]
                    | (None, Some items) \<Rightarrow> record_key [items]
                    | (None, None) \<Rightarrow> None)
      in if same_opt ours theirs then []
         else case record of
                None \<Rightarrow>
                  [\<lparr>df_section = key, df_id = [], df_name = [],
                    df_change = (case (ours, theirs) of
                                   (Some _, None) \<Rightarrow> OnlyHere
                                 | (None, Some _) \<Rightarrow> OnlyThere
                                 | _ \<Rightarrow> Different)\<rparr>]
              | Some rk \<Rightarrow>
                  record_differences key rk (case our_array of None \<Rightarrow> [] | Some a \<Rightarrow> a)
                    (case their_array of None \<Rightarrow> [] | Some a \<Rightarrow> a))"

definition differences :: "table \<Rightarrow> table \<Rightarrow> difference list" where
  "differences here there =
     (let keys = map fst here @ filter (\<lambda>key. bt_get here key = None) (map fst there)
      in concat (map (key_differences here there) keys))"

fun default_side :: "change \<Rightarrow> side" where
  "default_side OnlyThere = There"
| "default_side OnlyHere = Here"
| "default_side Different = Here"

definition section_array :: "table \<Rightarrow> str \<Rightarrow> toml_value list" where
  "section_array t section =
     (case Option.bind (bt_get t section) as_array of None \<Rightarrow> [] | Some items \<Rightarrow> items)"

definition difference_key :: "table \<Rightarrow> table \<Rightarrow> difference \<Rightarrow> str" where
  "difference_key here there d =
     (let has = \<lambda>key t. list_ex (\<lambda>item. record_id item key = df_id d) (section_array t (df_section d))
      in case find (\<lambda>key. has key here \<or> has key there) [ID, PATH] of
           None \<Rightarrow> ID | Some key \<Rightarrow> key)"

text \<open>What \<open>resolve\<close> does for one difference, on the table built so far.\<close>

definition resolve_one ::
  "table \<Rightarrow> table \<Rightarrow> (str \<times> str \<rightharpoonup> side) \<Rightarrow> table \<Rightarrow> difference \<Rightarrow> table" where
  "resolve_one here there choices out d =
     (let section = df_section d;
          wanted = (case choices (section, df_id d) of
                      None \<Rightarrow> default_side (df_change d) | Some s \<Rightarrow> s)
      in if df_id d = [] then
           (if wanted = There
            then case bt_get there section of
                   Some v \<Rightarrow> bt_insert section v out
                 | None \<Rightarrow> bt_remove section out
            else out)
         else
           let key = difference_key here there d;
               their_item = find (\<lambda>item. record_id item key = df_id d) (section_array there section);
               out = (if bt_get out section = None then bt_insert section (VArray []) out else out)
           in case bt_get out section of
                Some (VArray items) \<Rightarrow>
                  (case (wanted, find_position (\<lambda>item. record_id item key = df_id d) items,
                         their_item) of
                     (There, Some i, Some item) \<Rightarrow> bt_insert section (VArray (items[i := item])) out
                   | (There, Some i, None) \<Rightarrow>
                       bt_insert section (VArray (take i items @ drop (Suc i) items)) out
                   | (There, None, Some item) \<Rightarrow> bt_insert section (VArray (items @ [item])) out
                   | _ \<Rightarrow> out)
              | _ \<Rightarrow> out)"

definition resolve :: "table \<Rightarrow> table \<Rightarrow> (str \<times> str \<rightharpoonup> side) \<Rightarrow> table" where
  "resolve here there choices =
     foldl (resolve_one here there choices) here (differences here there)"

subsection \<open>Git and Syncthing\<close>

fun git_markers :: "bool \<Rightarrow> str list \<Rightarrow> bool" where
  "git_markers opened [] = False"
| "git_markers opened (line # ls) =
     (if starts_with line (lit ''<<<<<<<'') then git_markers True ls
      else if opened \<and> starts_with line (lit ''>>>>>>>'') then True
      else git_markers opened ls)"

definition has_git_markers :: "str \<Rightarrow> bool" where
  "has_git_markers s = git_markers False (str_lines s)"

datatype part = PAll | PHere | PBase | PThere

record sides =
  sd_here :: str
  sd_there :: str
  sd_base :: "str option"

record git_scan =
  gs_part :: part
  gs_here :: str
  gs_there :: str
  gs_base :: str
  gs_found :: bool
  gs_has_base :: bool

definition git_line :: "git_scan \<Rightarrow> str \<Rightarrow> git_scan" where
  "git_line g line =
     (let marker = \<lambda>p. starts_with line (lit p)
      in if gs_part g = PAll \<and> marker ''<<<<<<<'' then g\<lparr>gs_part := PHere, gs_found := True\<rparr>
         else if gs_part g = PHere \<and> marker ''|||||||'' then g\<lparr>gs_part := PBase, gs_has_base := True\<rparr>
         else if (gs_part g = PHere \<or> gs_part g = PBase) \<and> marker ''======='' then g\<lparr>gs_part := PThere\<rparr>
         else if gs_part g = PThere \<and> marker ''>>>>>>>'' then g\<lparr>gs_part := PAll\<rparr>
         else case gs_part g of
                PAll \<Rightarrow> g\<lparr>gs_here := gs_here g @ line, gs_there := gs_there g @ line,
                           gs_base := gs_base g @ line\<rparr>
              | PHere \<Rightarrow> g\<lparr>gs_here := gs_here g @ line\<rparr>
              | PBase \<Rightarrow> g\<lparr>gs_base := gs_base g @ line\<rparr>
              | PThere \<Rightarrow> g\<lparr>gs_there := gs_there g @ line\<rparr>)"

definition split_git_conflict :: "str \<Rightarrow> sides option" where
  "split_git_conflict s =
     (let g = foldl git_line \<lparr>gs_part = PAll, gs_here = [], gs_there = [], gs_base = [],
                              gs_found = False, gs_has_base = False\<rparr> (split_inclusive s)
      in if gs_found g
         then Some \<lparr>sd_here = gs_here g, sd_there = gs_there g,
                    sd_base = if gs_has_base g then Some (gs_base g) else None\<rparr>
         else None)"

definition syncthing_original :: "str \<Rightarrow> str option" where
  "syncthing_original name =
     map_option (\<lambda>(stem, rest).
       case split_once rest (lit ''.'') of
         Some (_, extension) \<Rightarrow> stem @ lit ''.'' @ extension
       | None \<Rightarrow> stem) (split_once name (lit ''.sync-conflict-''))"

end
