(* ===== verification/Sync_Laws.thy ===== *)
theory Sync_Laws
  imports Sync_Merge
begin

text \<open>
  What the merge promises: \<open>same\<close> is equality of well-formed values; a merge looked at key by key;
  changes of one side alone are taken over in full; which records a merged array has; and what
  a save leaves in the file when another instance wrote it in between.
\<close>

subsection \<open>The same value\<close>

lemma f_eq_or_nan: "f_eq x y \<or> x = NaN \<and> y = NaN \<longleftrightarrow> x = y"
  by (cases x) auto

lemma bt_subset_eq:
  assumes "bt_ok s" and "bt_ok t" and "length s = length t"
    and "\<forall>(k, v) \<in> set s. bt_get t k = Some v"
  shows "s = t"
proof -
  have sub: "set s \<subseteq> set t" using assms(4) by (auto dest: map_of_SomeD)
  have "distinct s" "distinct t"
    using bt_ok_distinct [OF assms(1)] bt_ok_distinct [OF assms(2)] by (auto simp: distinct_map)
  then have "set s = set t"
    using sub assms(3) by (metis card_subset_eq distinct_card finite_set)
  then have "bt_get s = bt_get t"
    using map_of_inject_set [OF bt_ok_distinct [OF assms(1)] bt_ok_distinct [OF assms(2)]] by simp
  then show ?thesis by (rule bt_ext [OF assms(1,2)])
qed

lemma bt_eq_iff:
  "bt_ok s \<Longrightarrow> bt_ok t \<Longrightarrow>
   length s = length t \<and> (\<forall>(k, v) \<in> set s. bt_get t k = Some v) \<longleftrightarrow> s = t"
  using bt_subset_eq [of s t] by (auto simp: map_of_eq_Some_iff bt_ok_distinct)

lemma same_eq:
  "toml_ok a \<Longrightarrow> toml_ok b \<Longrightarrow> same a b \<longleftrightarrow> a = b"
  "\<forall>x \<in> set xs. toml_ok x \<Longrightarrow> \<forall>y \<in> set ys. toml_ok y \<Longrightarrow> length xs = length ys \<Longrightarrow>
     same_items xs ys \<longleftrightarrow> xs = ys"
  "\<forall>(k, v) \<in> set s. toml_ok v \<Longrightarrow> \<forall>(k, v) \<in> set t. toml_ok v \<Longrightarrow>
     same_entries s t \<longleftrightarrow> (\<forall>(k, v) \<in> set s. bt_get t k = Some v)"
proof (induction a b and xs ys and s t rule: same_same_items_same_entries.induct)
  case (1 a b)
  consider x y where "a = VFloat x" "b = VFloat y" | xs ys where "a = VArray xs" "b = VArray ys"
    | s t where "a = VTable s" "b = VTable t"
    | "\<not> (\<exists>x y. a = VFloat x \<and> b = VFloat y)" "\<not> (\<exists>x y. a = VArray x \<and> b = VArray y)"
      "\<not> (\<exists>x y. a = VTable x \<and> b = VTable y)" by blast
  then show ?case
  proof cases
    case 1
    then show ?thesis using f_eq_or_nan by (simp add: same.simps)
  next
    case 2
    then show ?thesis using "1.IH"(1) "1.prems" by (auto simp: same.simps)
  next
    case (3 s t)
    then have "same_entries s t \<longleftrightarrow> (\<forall>(k, v) \<in> set s. bt_get t k = Some v)"
      using "1.IH"(2) "1.prems" by simp
    then show ?thesis using 3 "1.prems" bt_eq_iff [of s t] by (simp add: same.simps)
  next
    case 4
    then show ?thesis by (cases a; cases b) (auto simp: same.simps)
  qed
next
  case (3 x xs ys)
  then show ?case by (cases ys) auto
next
  case (5 key v s t)
  then show ?case
    by (auto split: option.splits dest: map_of_SomeD)
qed auto

lemma same_refl: "toml_ok a \<Longrightarrow> same a a"
  by (simp add: same_eq)

definition opt_ok :: "toml_value option \<Rightarrow> bool" where
  "opt_ok v \<longleftrightarrow> (case v of None \<Rightarrow> True | Some v \<Rightarrow> toml_ok v)"

lemma opt_ok_simps [simp]: "opt_ok None" "opt_ok (Some v) = toml_ok v"
  by (simp_all add: opt_ok_def)

lemma same_opt_eq: "opt_ok a \<Longrightarrow> opt_ok b \<Longrightarrow> same_opt a b \<longleftrightarrow> a = b"
  by (cases a; cases b) (auto simp: same_eq)

lemma table_ok_get: "table_ok t \<Longrightarrow> opt_ok (bt_get t k)"
  by (auto simp: table_ok_def opt_ok_def split: option.splits dest: map_of_SomeD)

lemma table_ok_bt_ok: "table_ok t \<Longrightarrow> bt_ok t"
  by (simp add: table_ok_def)

declare merge_value.simps [simp del] merge_tables.simps [simp del]

subsection \<open>A merge key by key\<close>

definition at_section :: "str \<Rightarrow> str \<Rightarrow> str" where
  "at_section section key = (if section = [] then key else section)"

text \<open>The merged value of a key.\<close>

definition merged_key ::
  "str \<Rightarrow> table option \<Rightarrow> table \<Rightarrow> table \<Rightarrow> str \<Rightarrow> toml_value option \<times> conflict list" where
  "merged_key section base ours theirs key =
     merge_value (at_section section key) (Option.bind base (\<lambda>b. bt_get b key))
       (bt_get ours key) (bt_get theirs key)"

lemma merge_our_keys_get:
  assumes "bt_ok ours" and "\<forall>k \<in> fst ` set ours. bt_get out k = None" and "bt_ok out"
  shows "bt_ok (fst (merge_our_keys section base ours theirs out)) \<and>
    bt_get (fst (merge_our_keys section base ours theirs out)) key =
      (if bt_get ours key = None then bt_get out key
       else fst (merged_key section base ours theirs key)) \<and>
    ((\<forall>k \<in> fst ` set ours. snd (merged_key section base ours theirs k) = []) \<longrightarrow>
       snd (merge_our_keys section base ours theirs out) = [])"
  using assms
proof (induction ours arbitrary: out)
  case (Cons kv ours)
  obtain k v where kv: "kv = (k, v)" by force
  let ?mv = "merge_value (if section = [] then k else section) (Option.bind base (\<lambda>b. bt_get b k))
      (Some v) (bt_get theirs k)"
  let ?out = "case fst ?mv of None \<Rightarrow> out | Some m \<Rightarrow> bt_insert k m out"
  have ok: "bt_ok ours" "bt_get ours k = None" using bt_ok_ConsD [of k v] Cons.prems(1) kv by simp_all
  then have k: "k \<notin> fst ` set ours" by (simp add: map_of_eq_None_iff)
  have out: "bt_ok ?out" "bt_get ?out k = fst ?mv"
    "\<And>k'. k' \<noteq> k \<Longrightarrow> bt_get ?out k' = bt_get out k'"
    using Cons.prems(2,3) kv by (auto simp: bt_get_insert bt_ok_insert split: option.splits)
  have "\<forall>k' \<in> fst ` set ours. bt_get ?out k' = None"
    using Cons.prems(2) k out(3) kv by (metis image_insert insertI2 list.simps(15))
  note IH = Cons.IH [OF ok(1) this out(1)]
  have same: "merged_key section base (kv # ours) theirs k' = merged_key section base ours theirs k'"
    if "k' \<noteq> k" for k' using that kv by (simp add: merged_key_def)
  have here: "merged_key section base (kv # ours) theirs k = ?mv"
    using kv by (simp add: merged_key_def at_section_def)
  have conflicts: "snd (merge_our_keys section base (kv # ours) theirs out) =
      snd ?mv @ snd (merge_our_keys section base ours theirs ?out)"
    and result: "fst (merge_our_keys section base (kv # ours) theirs out) =
      fst (merge_our_keys section base ours theirs ?out)"
    using kv by (simp_all add: Let_def split_beta)
  show ?case
  proof (intro conjI impI)
    show "bt_ok (fst (merge_our_keys section base (kv # ours) theirs out))"
      unfolding result using IH by blast
    show "bt_get (fst (merge_our_keys section base (kv # ours) theirs out)) key =
      (if bt_get (kv # ours) key = None then bt_get out key
       else fst (merged_key section base (kv # ours) theirs key))"
      unfolding result using IH out(2,3) ok(2) here same [of key] kv by (cases "key = k") auto
    assume "\<forall>k \<in> fst ` set (kv # ours). snd (merged_key section base (kv # ours) theirs k) = []"
    then show "snd (merge_our_keys section base (kv # ours) theirs out) = []"
      unfolding conflicts using IH here same k kv
      by (metis append_is_Nil_conv fst_conv image_insert insertCI list.simps(15))
  qed
qed simp

lemma merge_their_keys_get:
  assumes "bt_ok theirs" and "\<forall>k \<in> fst ` set theirs. bt_get ours k = None \<longrightarrow> bt_get out k = None"
    and "bt_ok out"
  shows "bt_ok (fst (merge_their_keys section base ours theirs out)) \<and>
    bt_get (fst (merge_their_keys section base ours theirs out)) key =
      (if bt_get theirs key = None \<or> bt_get ours key \<noteq> None then bt_get out key
       else fst (merged_key section base ours theirs key)) \<and>
    ((\<forall>k \<in> fst ` set theirs. bt_get ours k = None \<longrightarrow> snd (merged_key section base ours theirs k) = []) \<longrightarrow>
       snd (merge_their_keys section base ours theirs out) = [])"
  using assms
proof (induction theirs arbitrary: out)
  case (Cons kv theirs)
  obtain k v where kv: "kv = (k, v)" by force
  let ?mv = "merge_value (if section = [] then k else section) (Option.bind base (\<lambda>b. bt_get b k))
      None (Some v)"
  let ?out = "if bt_get ours k \<noteq> None then out
    else case fst ?mv of None \<Rightarrow> out | Some m \<Rightarrow> bt_insert k m out"
  have ok: "bt_ok theirs" "bt_get theirs k = None" using bt_ok_ConsD [of k v] Cons.prems(1) kv by simp_all
  then have k: "k \<notin> fst ` set theirs" by (simp add: map_of_eq_None_iff)
  have out: "bt_ok ?out" "bt_get ours k = None \<Longrightarrow> bt_get ?out k = fst ?mv"
    "\<And>k'. k' \<noteq> k \<Longrightarrow> bt_get ?out k' = bt_get out k'"
    using Cons.prems(2,3) kv by (auto simp: bt_get_insert bt_ok_insert split: option.splits)
  have "\<forall>k' \<in> fst ` set theirs. bt_get ours k' = None \<longrightarrow> bt_get ?out k' = None"
    using Cons.prems(2) k out(3) kv by (metis image_insert insertI2 list.simps(15))
  note IH = Cons.IH [OF ok(1) this out(1)]
  have same: "merged_key section base ours (kv # theirs) k' = merged_key section base ours theirs k'"
    if "k' \<noteq> k" for k' using that kv by (simp add: merged_key_def)
  have here: "bt_get ours k = None \<Longrightarrow> merged_key section base ours (kv # theirs) k = ?mv"
    using kv by (simp add: merged_key_def at_section_def)
  have conflicts: "snd (merge_their_keys section base ours (kv # theirs) out) =
      (if bt_get ours k \<noteq> None then [] else snd ?mv) @ snd (merge_their_keys section base ours theirs ?out)"
    and result: "fst (merge_their_keys section base ours (kv # theirs) out) =
      fst (merge_their_keys section base ours theirs ?out)"
    using kv by (simp_all add: Let_def split_beta)
  show ?case
  proof (intro conjI impI)
    show "bt_ok (fst (merge_their_keys section base ours (kv # theirs) out))"
      unfolding result using IH by blast
    show "bt_get (fst (merge_their_keys section base ours (kv # theirs) out)) key =
      (if bt_get (kv # theirs) key = None \<or> bt_get ours key \<noteq> None then bt_get out key
       else fst (merged_key section base ours (kv # theirs) key))"
      unfolding result using IH out(2,3) ok(2) here same [of key] kv by (cases "key = k") auto
    assume "\<forall>k \<in> fst ` set (kv # theirs). bt_get ours k = None \<longrightarrow>
      snd (merged_key section base ours (kv # theirs) k) = []"
    note none = this
    have "snd (merged_key section base ours theirs k') = []"
      if "k' \<in> fst ` set theirs" "bt_get ours k' = None" for k'
      using none that same [of k'] k by (metis image_insert insertI2 list.simps(15))
    then have "snd (merge_their_keys section base ours theirs ?out) = []" using IH by blast
    moreover have "bt_get ours k = None \<Longrightarrow> snd ?mv = []" using none here kv by simp
    ultimately show "snd (merge_their_keys section base ours (kv # theirs) out) = []"
      unfolding conflicts by simp
  qed
qed simp

lemma merge_tables_get:
  assumes "table_ok ours" and "table_ok theirs"
  shows "bt_ok (fst (merge_tables section base ours theirs)) \<and>
    bt_get (fst (merge_tables section base ours theirs)) key = fst (merged_key section base ours theirs key) \<and>
    ((\<forall>k. snd (merged_key section base ours theirs k) = []) \<longrightarrow>
       snd (merge_tables section base ours theirs) = [])"
proof -
  let ?o = "fst (merge_our_keys section base ours theirs [])"
  have ok: "bt_ok ours" "bt_ok theirs" using assms table_ok_bt_ok by auto
  note fst_loop = merge_our_keys_get [OF ok(1), where out = "[]" and ?section = "section" and base = base and theirs = theirs]
  have "\<forall>k \<in> fst ` set theirs. bt_get ours k = None \<longrightarrow> bt_get ?o k = None" "bt_ok ?o"
    using fst_loop by auto
  note snd_loop = merge_their_keys_get [OF ok(2) this, where ?section = "section" and base = base]
  have absent: "merged_key section base ours theirs key = (None, [])"
    if "bt_get ours key = None" "bt_get theirs key = None"
    using that by (simp add: merged_key_def merge_value.simps)
  show ?thesis
    using fst_loop [of key] snd_loop [of key] absent
    by (auto simp: merge_tables.simps Let_def split_beta)
qed

subsection \<open>Changes of one side\<close>

text \<open>
  What a merge of settings means, said of the values at all paths through nested tables (a path is
  a list of keys): \<open>separate\<close> allows no path whose value both sides changed in different ways,
  unless it is a table on both, whose own keys are then paths of their own; \<open>joins\<close> says that
  the value at a path is the one of the side that changed it.
\<close>

fun look :: "toml_value option \<Rightarrow> str list \<Rightarrow> toml_value option" where
  "look v [] = v"
| "look v (key # path) = look (Option.bind v (\<lambda>t. value_get t key)) path"

definition both_tables :: "toml_value option \<Rightarrow> toml_value option \<Rightarrow> bool" where
  "both_tables u t \<longleftrightarrow> Option.bind u as_table \<noteq> None \<and> Option.bind t as_table \<noteq> None"

definition separate :: "toml_value option \<Rightarrow> toml_value option \<Rightarrow> toml_value option \<Rightarrow> bool" where
  "separate base ours theirs \<longleftrightarrow>
     (\<forall>path. look ours path = look base path \<or> look theirs path = look base path \<or>
        look ours path = look theirs path \<or> both_tables (look ours path) (look theirs path))"

definition joins ::
  "toml_value option \<Rightarrow> toml_value option \<Rightarrow> toml_value option \<Rightarrow> toml_value option \<Rightarrow> bool" where
  "joins base ours theirs merged \<longleftrightarrow>
     (\<forall>path. (look ours path = look base path \<longrightarrow> look merged path = look theirs path) \<and>
        (look theirs path = look base path \<longrightarrow> look merged path = look ours path) \<and>
        (look ours path = look theirs path \<longrightarrow> look merged path = look ours path) \<and>
        (both_tables (look ours path) (look theirs path) \<longrightarrow>
           Option.bind (look merged path) as_table \<noteq> None))"

abbreviation at_key :: "toml_value option \<Rightarrow> str \<Rightarrow> toml_value option" where
  "at_key v key \<equiv> Option.bind v (\<lambda>t. value_get t key)"

lemma separate_at_key: "separate base ours theirs \<Longrightarrow>
    separate (at_key base key) (at_key ours key) (at_key theirs key)"
  unfolding separate_def by (metis look.simps(2))

lemma separateI:
  assumes "ours = base \<or> theirs = base \<or> ours = theirs \<or> both_tables ours theirs"
    and "\<And>key. separate (at_key base key) (at_key ours key) (at_key theirs key)"
  shows "separate base ours theirs"
  unfolding separate_def
proof
  fix path
  show "look ours path = look base path \<or> look theirs path = look base path \<or>
      look ours path = look theirs path \<or> both_tables (look ours path) (look theirs path)"
  proof (cases path)
    case (Cons key q)
    with assms(2) [of key, unfolded separate_def, THEN spec, of q] show ?thesis by simp
  qed (use assms(1) in simp)
qed

lemma separate_trivial:
  "separate base base theirs" "separate base ours base" "separate base ours ours"
  by (simp_all add: separate_def)

lemma joins_trivial:
  "joins base base theirs theirs" "joins base ours base ours" "joins base ours ours ours"
  by (auto simp: joins_def both_tables_def)

lemma joinsI:
  assumes "ours \<noteq> base" and "theirs \<noteq> base" and "ours \<noteq> theirs" and "Option.bind merged as_table \<noteq> None"
    and "\<And>key. joins (at_key base key) (at_key ours key) (at_key theirs key) (at_key merged key)"
  shows "joins base ours theirs merged"
  unfolding joins_def
proof
  fix path
  show "(look ours path = look base path \<longrightarrow> look merged path = look theirs path) \<and>
        (look theirs path = look base path \<longrightarrow> look merged path = look ours path) \<and>
        (look ours path = look theirs path \<longrightarrow> look merged path = look ours path) \<and>
        (both_tables (look ours path) (look theirs path) \<longrightarrow>
           Option.bind (look merged path) as_table \<noteq> None)"
  proof (cases path)
    case (Cons key q)
    with assms(5) [of key, unfolded joins_def, THEN spec, of q] show ?thesis by simp
  qed (use assms(1-4) in simp)
qed

lemma size_bt_get: "bt_get t key = Some v \<Longrightarrow> size v < size (VTable t)"
  by (induction t) (auto split: if_splits)

lemma table_okI:
  assumes "bt_ok m" and "\<And>key. opt_ok (bt_get m key)"
  shows "table_ok m"
proof -
  have "toml_ok v" if "(k, v) \<in> set m" for k v
    using assms(2) [of k] map_of_is_SomeI [OF bt_ok_distinct [OF assms(1)] that] by simp
  with assms(1) show ?thesis by (auto simp: table_ok_def)
qed

text \<open>Tables key by key, when the merge of every key is known.\<close>

lemma merge_tables_joins:
  assumes "Option.bind base as_table = b" and "opt_ok base" and "table_ok us" and "table_ok ts"
    and "\<And>key sec. joins (at_key base key) (bt_get us key) (bt_get ts key)
        (fst (merge_value sec (at_key base key) (bt_get us key) (bt_get ts key))) \<and>
      opt_ok (fst (merge_value sec (at_key base key) (bt_get us key) (bt_get ts key))) \<and>
      snd (merge_value sec (at_key base key) (bt_get us key) (bt_get ts key)) = []"
  shows "table_ok (fst (merge_tables sec b us ts)) \<and> snd (merge_tables sec b us ts) = [] \<and>
    (\<forall>key. joins (at_key base key) (bt_get us key) (bt_get ts key)
       (bt_get (fst (merge_tables sec b us ts)) key))"
proof -
  have base: "Option.bind b (\<lambda>t. bt_get t key) = at_key base key" for key
    using assms(1) by (cases base; cases "the base") auto
  note get = merge_tables_get [OF assms(3,4), of sec b]
  have key: "merged_key sec b us ts key =
      merge_value (at_section sec key) (at_key base key) (bt_get us key) (bt_get ts key)" for key
    by (simp add: merged_key_def base)
  have ok: "bt_ok (fst (merge_tables sec b us ts))" using get by blast
  have "opt_ok (bt_get (fst (merge_tables sec b us ts)) key)" for key
    using get [of key] assms(5) by (simp add: key)
  then have "table_ok (fst (merge_tables sec b us ts))"
    by (rule table_okI [OF ok])
  then show ?thesis using get assms(5) by (auto simp: key)
qed

lemma merge_value_joins:
  assumes "opt_ok base" and "opt_ok ours" and "opt_ok theirs" and "separate base ours theirs"
  shows "joins base ours theirs (fst (merge_value sec base ours theirs)) \<and>
    opt_ok (fst (merge_value sec base ours theirs)) \<and> snd (merge_value sec base ours theirs) = []"
  using assms
proof (induction "case ours of None \<Rightarrow> 0 | Some v \<Rightarrow> size v" arbitrary: sec base ours theirs rule: less_induct)
  case less
  note eq = same_opt_eq [OF less.prems(2,3)] same_opt_eq [OF less.prems(3,1)] same_opt_eq [OF less.prems(2,1)]
  consider "ours = theirs \<or> theirs = base" | "ours = base"
    | "ours \<noteq> theirs" "theirs \<noteq> base" "ours \<noteq> base" by blast
  then show ?case
  proof cases
    case 1
    then show ?thesis using eq less.prems joins_trivial by (auto simp: merge_value.simps)
  next
    case 2
    then show ?thesis using eq less.prems joins_trivial by (auto simp: merge_value.simps)
  next
    case 3
    have "both_tables ours theirs"
      using less.prems(4) 3 unfolding separate_def by (metis look.simps(1))
    then obtain us ts where tables: "ours = Some (VTable us)" "theirs = Some (VTable ts)"
      by (cases ours; cases theirs; cases "the ours"; cases "the theirs") (auto simp: both_tables_def)
    have ok: "table_ok us" "table_ok ts" using less.prems(2,3) tables by (simp_all add: table_ok_def)
    let ?b = "Option.bind base as_table"
    have base_ok: "opt_ok (at_key base key)" for key
      using less.prems(1) table_ok_get by (cases base; cases "the base") (auto simp: table_ok_def)
    have keys: "joins (at_key base key) (bt_get us key) (bt_get ts key)
        (fst (merge_value sec (at_key base key) (bt_get us key) (bt_get ts key))) \<and>
      opt_ok (fst (merge_value sec (at_key base key) (bt_get us key) (bt_get ts key))) \<and>
      snd (merge_value sec (at_key base key) (bt_get us key) (bt_get ts key)) = []" for key sec
      using less.hyps [of "bt_get us key" "at_key base key" "bt_get ts key" sec]
        separate_at_key [OF less.prems(4), of key] base_ok [of key] table_ok_get [OF ok(1), of key]
        table_ok_get [OF ok(2), of key] size_bt_get [of us key] tables
      by (cases "bt_get us key") auto
    note merged = merge_tables_joins [OF refl less.prems(1) ok keys, of sec]
    have "merge_value sec base ours theirs =
        (Some (VTable (fst (merge_tables sec ?b us ts))), snd (merge_tables sec ?b us ts))"
      using 3 eq tables by (simp add: merge_value.simps split_beta)
    moreover have "joins base ours theirs (Some (VTable (fst (merge_tables sec ?b us ts))))"
    proof (rule joinsI)
      show "joins (at_key base key) (at_key ours key) (at_key theirs key)
          (at_key (Some (VTable (fst (merge_tables sec ?b us ts)))) key)" for key
        using merged tables by simp
    qed (use 3 in simp_all)
    moreover have "opt_ok (Some (VTable (fst (merge_tables sec ?b us ts))))"
      using merged by (simp add: table_ok_def)
    ultimately show ?thesis using merged by simp
  qed
qed

lemma merge_tables_joined:
  assumes "table_ok base" and "table_ok ours" and "table_ok theirs"
    and "separate (Some (VTable base)) (Some (VTable ours)) (Some (VTable theirs))"
  shows "table_ok (fst (merge_tables sec (Some base) ours theirs)) \<and>
    snd (merge_tables sec (Some base) ours theirs) = [] \<and>
    joins (Some (VTable base)) (Some (VTable ours)) (Some (VTable theirs))
      (Some (VTable (fst (merge_tables sec (Some base) ours theirs))))"
proof -
  have ok: "opt_ok (Some (VTable base))" using assms(1) by (simp add: table_ok_def)
  have "joins (at_key (Some (VTable base)) key) (bt_get ours key) (bt_get theirs key)
        (fst (merge_value sec (at_key (Some (VTable base)) key) (bt_get ours key) (bt_get theirs key))) \<and>
      opt_ok (fst (merge_value sec (at_key (Some (VTable base)) key) (bt_get ours key) (bt_get theirs key))) \<and>
      snd (merge_value sec (at_key (Some (VTable base)) key) (bt_get ours key) (bt_get theirs key)) = []"
    for key sec
    using merge_value_joins [of "bt_get base key" "bt_get ours key" "bt_get theirs key" sec]
      table_ok_get [OF assms(1), of key] table_ok_get [OF assms(2), of key] table_ok_get [OF assms(3), of key]
      separate_at_key [OF assms(4), of key] by simp
  from merge_tables_joins [OF _ ok assms(2,3) this, of "Some base" sec]
  have merged: "table_ok (fst (merge_tables sec (Some base) ours theirs))"
      "snd (merge_tables sec (Some base) ours theirs) = []"
      "\<And>key. joins (bt_get base key) (bt_get ours key) (bt_get theirs key)
        (bt_get (fst (merge_tables sec (Some base) ours theirs)) key)"
    by simp_all
  have "joins (Some (VTable base)) (Some (VTable ours)) (Some (VTable theirs))
      (Some (VTable (fst (merge_tables sec (Some base) ours theirs))))"
  proof (cases "ours = base \<or> theirs = base \<or> ours = theirs")
    case True
    note keys = merged(3) [unfolded joins_def, THEN spec, of _ "[]"]
    let ?m = "fst (merge_tables sec (Some base) ours theirs)"
    note m = table_ok_bt_ok [OF merged(1)]
    have "?m = theirs" if "ours = base"
      by (rule bt_ext [OF m table_ok_bt_ok [OF assms(3)]]) (use keys that in \<open>auto simp: fun_eq_iff\<close>)
    moreover have "?m = ours" if "theirs = base \<or> ours = theirs"
      by (rule bt_ext [OF m table_ok_bt_ok [OF assms(2)]]) (use keys that in \<open>auto simp: fun_eq_iff\<close>)
    moreover have "joins b b t t" "joins b u b u" "joins b u u u" for b u t by (rule joins_trivial)+
    ultimately show ?thesis using True by (elim disjE) simp_all
  next
    case False
    show ?thesis
    proof (rule joinsI)
      show "joins (at_key (Some (VTable base)) key) (at_key (Some (VTable ours)) key)
          (at_key (Some (VTable theirs)) key)
          (at_key (Some (VTable (fst (merge_tables sec (Some base) ours theirs)))) key)" for key
        using merged(3) [of key] by simp
    qed (use False in simp_all)
  qed
  with merged show ?thesis by blast
qed

text \<open>
  C21: merging settings takes over what either computer changed, at any depth of nested sections.
  When since the common version no value was changed by both sides in different ways (two
  sections that both changed inside are compared key by key; a list counts as one value), the
  merge reports no conflict, its table is in order, and its value at every path is the one of
  the side that changed it, keys added and removed included.
\<close>

theorem merge_joins_changes:
  assumes "table_ok base" and "table_ok ours" and "table_ok theirs"
    and "separate (Some (VTable base)) (Some (VTable ours)) (Some (VTable theirs))"
  shows "\<exists>m. merge_tables [] (Some base) ours theirs = (m, []) \<and> table_ok m \<and>
    joins (Some (VTable base)) (Some (VTable ours)) (Some (VTable theirs)) (Some (VTable m))"
  using merge_tables_joined [OF assms, of "[]"] by (metis prod.collapse)

text \<open>
  Settings with a section: this side changes \<open>a\<close> and \<open>s.x\<close>, the other removes \<open>s.y\<close> and adds \<open>s.z\<close>.
\<close>

definition sample_base :: table where
  "sample_base = [(lit ''a'', VInteger 1), (lit ''s'', VTable [(lit ''x'', VInteger 1), (lit ''y'', VInteger 1)])]"
definition sample_ours :: table where
  "sample_ours = [(lit ''a'', VInteger 2), (lit ''s'', VTable [(lit ''x'', VInteger 2), (lit ''y'', VInteger 1)])]"
definition sample_theirs :: table where
  "sample_theirs = [(lit ''a'', VInteger 1), (lit ''s'', VTable [(lit ''x'', VInteger 1), (lit ''z'', VInteger 5)])]"

lemma sample_separate:
  "separate (Some (VTable sample_base)) (Some (VTable sample_ours)) (Some (VTable sample_theirs))"
proof (rule separateI)
  fix key
  let ?at = "\<lambda>t. at_key (Some (VTable t)) key"
  show "separate (?at sample_base) (?at sample_ours) (?at sample_theirs)"
  proof (cases "key = lit ''s''")
    case True
    then have at: "?at sample_base = Some (VTable [(lit ''x'', VInteger 1), (lit ''y'', VInteger 1)])"
      "?at sample_ours = Some (VTable [(lit ''x'', VInteger 2), (lit ''y'', VInteger 1)])"
      "?at sample_theirs = Some (VTable [(lit ''x'', VInteger 1), (lit ''z'', VInteger 5)])"
      by (simp_all add: sample_base_def sample_ours_def sample_theirs_def lit_def)
    show ?thesis
      unfolding at by (rule separateI) (auto simp: both_tables_def separate_trivial lit_def)
  next
    case False
    then show ?thesis
      by (auto simp: sample_base_def sample_ours_def sample_theirs_def separate_trivial)
  qed
qed (simp add: both_tables_def)

lemma sample_tables:
  "table_ok sample_base" "table_ok sample_ours" "table_ok sample_theirs"
  by code_simp+


theorem merge_joins_changes_witness:
  "\<exists>m. merge_tables [] (Some sample_base) sample_ours sample_theirs = (m, []) \<and>
     look (Some (VTable m)) [lit ''s'', lit ''x''] = Some (VInteger 2) \<and>
     look (Some (VTable m)) [lit ''s'', lit ''y''] = None \<and>
     look (Some (VTable m)) [lit ''s'', lit ''z''] = Some (VInteger 5)"
proof -
  obtain m where m: "merge_tables [] (Some sample_base) sample_ours sample_theirs = (m, [])"
    and joined: "joins (Some (VTable sample_base)) (Some (VTable sample_ours)) (Some (VTable sample_theirs))
      (Some (VTable m))"
    using merge_joins_changes [OF sample_tables sample_separate] by blast
  have "look (Some (VTable m)) [lit ''s'', lit ''x''] = look (Some (VTable sample_ours)) [lit ''s'', lit ''x'']"
    "look (Some (VTable m)) [lit ''s'', lit ''y''] = look (Some (VTable sample_theirs)) [lit ''s'', lit ''y'']"
    "look (Some (VTable m)) [lit ''s'', lit ''z''] = look (Some (VTable sample_theirs)) [lit ''s'', lit ''z'']"
    using joined [unfolded joins_def, THEN spec, of "[lit ''s'', lit ''x'']"]
      joined [unfolded joins_def, THEN spec, of "[lit ''s'', lit ''y'']"]
      joined [unfolded joins_def, THEN spec, of "[lit ''s'', lit ''z'']"]
    by (simp_all add: sample_base_def sample_ours_def sample_theirs_def lit_def)
  with m show ?thesis by (simp add: sample_ours_def sample_theirs_def lit_def)
qed

subsection \<open>Merged lists of records\<close>

text \<open>What a record of one side has become: merged with the other's, kept, or dropped.\<close>

definition survivor ::
  "str \<Rightarrow> str \<Rightarrow> (str \<rightharpoonup> toml_value) \<Rightarrow> (str \<rightharpoonup> toml_value) \<Rightarrow> toml_value \<Rightarrow> toml_value option" where
  "survivor sec key base_ids their_ids item =
     (let id = record_id item key
      in case their_ids id of
           Some their_item \<Rightarrow> fst (merge_value sec (base_ids id) (Some item) (Some their_item))
         | None \<Rightarrow>
             (case base_ids id of
                None \<Rightarrow> Some item
              | Some b \<Rightarrow> if same b item then None else Some item))"

lemma merge_our_records_out:
  "fst (merge_our_records sec key base_ids their_ids ours out) =
     out @ List.map_filter (survivor sec key base_ids their_ids) ours"
proof (induction ours arbitrary: out)
  case (Cons item ours)
  show ?case
    by (cases "their_ids (record_id item key)"; cases "base_ids (record_id item key)")
       (auto simp: Cons survivor_def Let_def split_beta List.map_filter_simps split: option.splits)
qed (simp add: List.map_filter_simps)

lemma set_insert_at [simp]: "set (insert_at i x xs) = insert x (set xs)"
proof -
  have "set xs = set (take i xs) \<union> set (drop i xs)" by (metis append_take_drop_id set_append)
  then show ?thesis by (auto simp: insert_at_def)
qed

lemma set_place_record [simp]: "set (place_record key before item out) = insert item (set out)"
  by (simp add: place_record_def Let_def)

definition newly_there :: "str \<Rightarrow> (str \<rightharpoonup> toml_value) \<Rightarrow> str set \<Rightarrow> toml_value \<Rightarrow> bool" where
  "newly_there key base_ids our_ids item \<longleftrightarrow>
     record_id item key \<notin> our_ids \<and>
     (case base_ids (record_id item key) of None \<Rightarrow> True | Some b \<Rightarrow> \<not> same b item)"

lemma merge_their_records_set:
  "set (fst (merge_their_records sec key base_ids our_ids before theirs out)) =
     set out \<union> {item \<in> set theirs. newly_there key base_ids our_ids item}"
proof (induction theirs arbitrary: before out)
  case (Cons item theirs)
  show ?case
    by (cases "base_ids (record_id item key)")
       (auto simp: Cons newly_there_def Let_def split_beta)
qed simp

lemma set_map_filter: "set (List.map_filter f xs) = {y. \<exists>x \<in> set xs. f x = Some y}"
  by (induction xs) (auto simp: List.map_filter_simps split: option.splits)

lemma merge_value_records:
  assumes "record_key [b, us, ts] = Some key"
    and "\<not> same (VArray us) (VArray ts)" and "\<not> same (VArray ts) (VArray b)"
    and "\<not> same (VArray us) (VArray b)"
  shows "\<exists>out cs. merge_value sec (Some (VArray b)) (Some (VArray us)) (Some (VArray ts)) =
      (Some (VArray out), cs) \<and>
    set out = {y. \<exists>x \<in> set us. survivor sec key (by_id key b) (by_id key ts) x = Some y} \<union>
      {x \<in> set ts. newly_there key (by_id key b) (set (map (\<lambda>x. record_id x key) us)) x}"
proof -
  let ?o = "fst (merge_our_records sec key (by_id key b) (by_id key ts) us [])"
  let ?t = "merge_their_records sec key (by_id key b) (set (map (\<lambda>x. record_id x key) us)) [] ts ?o"
  have "fst (merge_value sec (Some (VArray b)) (Some (VArray us)) (Some (VArray ts))) =
      Some (VArray (fst ?t))"
    using assms by (simp add: merge_value.simps Let_def split_beta)
  moreover have "set (fst ?t) =
      {y. \<exists>x \<in> set us. survivor sec key (by_id key b) (by_id key ts) x = Some y} \<union>
      {x \<in> set ts. newly_there key (by_id key b) (set (map (\<lambda>x. record_id x key) us)) x}"
    by (simp only: merge_their_records_set merge_our_records_out append_Nil set_map_filter)
  ultimately show ?thesis by (metis prod.collapse)
qed

text \<open>The merge of two records is a record.\<close>

lemma merge_value_Some: "\<exists>m. fst (merge_value sec base (Some a) (Some b)) = Some m"
proof -
  have "fst (merge_value sec base (Some a) (Some b)) \<noteq> None"
    by (auto simp: merge_value.simps Let_def split_beta split: toml_value.splits option.splits)
  then show ?thesis by blast
qed

lemma by_id_None: "by_id key items i = None \<longleftrightarrow> i \<notin> (\<lambda>x. record_id x key) ` set items"
  by (auto simp: by_id_def map_of_eq_None_iff image_iff)

lemma by_id_ok: "\<forall>x \<in> set items. toml_ok x \<Longrightarrow> by_id key items i = Some x \<Longrightarrow> toml_ok x"
  by (auto simp: by_id_def dest!: map_of_SomeD)

lemma survivor_eq:
  assumes "toml_ok x" and "\<forall>y \<in> set b. toml_ok y"
  shows "survivor sec key (by_id key b) others x = Some m \<longleftrightarrow>
    others (record_id x key) = None \<and> by_id key b (record_id x key) \<noteq> Some x \<and> m = x \<or>
    (\<exists>y. others (record_id x key) = Some y \<and>
       fst (merge_value sec (by_id key b (record_id x key)) (Some x) (Some y)) = Some m)"
  using assms by_id_ok [OF assms(2), of key "record_id x key"]
  by (cases "by_id key b (record_id x key)"; cases "others (record_id x key)")
     (auto simp: survivor_def Let_def same_eq(1))

lemma newly_there_eq:
  assumes "toml_ok x" and "\<forall>y \<in> set b. toml_ok y"
  shows "newly_there key (by_id key b) (set (map (\<lambda>x. record_id x key) us)) x \<longleftrightarrow>
    by_id key us (record_id x key) = None \<and> by_id key b (record_id x key) \<noteq> Some x"
  using assms by_id_ok [OF assms(2), of key "record_id x key"]
  by (cases "by_id key b (record_id x key)") (auto simp: newly_there_def by_id_None [of key us] same_eq(1))

text \<open>
  C22: merging two lists of records (hosts, snippets, tunnels) that both changed since the common
  version: the result is a list with exactly the records that this side has alone, added or
  edited, the records that the other side has alone, added or edited, and the merges of the
  records that both have. So no record that either side added or edited is lost, and a record
  that one side deleted and the other left alone is gone.
\<close>

theorem merged_records:
  assumes "toml_ok (VArray b)" and "toml_ok (VArray us)" and "toml_ok (VArray ts)"
    and "record_key [b, us, ts] = Some key" and "us \<noteq> ts" and "ts \<noteq> b" and "us \<noteq> b"
  shows "\<exists>out cs. merge_value sec (Some (VArray b)) (Some (VArray us)) (Some (VArray ts)) =
      (Some (VArray out), cs) \<and>
    set out =
      {x \<in> set us. by_id key ts (record_id x key) = None \<and> by_id key b (record_id x key) \<noteq> Some x} \<union>
      {x \<in> set ts. by_id key us (record_id x key) = None \<and> by_id key b (record_id x key) \<noteq> Some x} \<union>
      {m. \<exists>x \<in> set us. \<exists>y. by_id key ts (record_id x key) = Some y \<and>
         fst (merge_value sec (by_id key b (record_id x key)) (Some x) (Some y)) = Some m}"
proof -
  have "\<not> same (VArray us) (VArray ts)" "\<not> same (VArray ts) (VArray b)"
    "\<not> same (VArray us) (VArray b)"
    using assms same_eq(1) by blast+
  from merge_value_records [OF assms(4) this, of sec] obtain out cs where
    res: "merge_value sec (Some (VArray b)) (Some (VArray us)) (Some (VArray ts)) = (Some (VArray out), cs)"
    and out: "set out = {y. \<exists>x \<in> set us. survivor sec key (by_id key b) (by_id key ts) x = Some y} \<union>
      {x \<in> set ts. newly_there key (by_id key b) (set (map (\<lambda>x. record_id x key) us)) x}" by blast
  have ok: "\<forall>y \<in> set b. toml_ok y" "\<forall>y \<in> set us. toml_ok y" "\<forall>y \<in> set ts. toml_ok y"
    using assms(1-3) by simp_all
  have "{y. \<exists>x \<in> set us. survivor sec key (by_id key b) (by_id key ts) x = Some y} =
      {x \<in> set us. by_id key ts (record_id x key) = None \<and> by_id key b (record_id x key) \<noteq> Some x} \<union>
      {m. \<exists>x \<in> set us. \<exists>y. by_id key ts (record_id x key) = Some y \<and>
         fst (merge_value sec (by_id key b (record_id x key)) (Some x) (Some y)) = Some m}"
    (is "?l = ?r")
  proof -
    have "?l = {y. \<exists>x \<in> set us. by_id key ts (record_id x key) = None \<and>
        by_id key b (record_id x key) \<noteq> Some x \<and> y = x \<or>
        (\<exists>t. by_id key ts (record_id x key) = Some t \<and>
           fst (merge_value sec (by_id key b (record_id x key)) (Some x) (Some t)) = Some y)}"
      using ok(2) by (intro Collect_cong bex_cong refl) (simp add: survivor_eq ok(1))
    also have "\<dots> = ?r" by blast
    finally show ?thesis .
  qed
  moreover have "{x \<in> set ts. newly_there key (by_id key b) (set (map (\<lambda>x. record_id x key) us)) x} =
      {x \<in> set ts. by_id key us (record_id x key) = None \<and> by_id key b (record_id x key) \<noteq> Some x}"
    using ok(3) newly_there_eq [OF _ ok(1), of _ key us] by auto
  ultimately show ?thesis using res out by auto
qed

definition sample_record :: "string \<Rightarrow> int \<Rightarrow> toml_value" where
  "sample_record i n = VTable [(lit ''id'', VString (lit i)), (lit ''n'', VInteger n)]"

definition sample_records :: "(string \<times> int) list \<Rightarrow> toml_value list" where
  "sample_records = map (\<lambda>(i, n). sample_record i n)"

lemma sample_records_ok: "toml_ok (VArray (sample_records rs))"
  by (auto simp: sample_records_def sample_record_def lit_def bt_ok_def)

theorem merged_records_witness:
  "\<exists>out cs. merge_value (lit ''host'') (Some (VArray (sample_records [(''a'', 1), (''b'', 1)])))
      (Some (VArray (sample_records [(''a'', 2), (''b'', 1), (''c'', 1)])))
      (Some (VArray (sample_records [(''d'', 1), (''a'', 1)]))) = (Some (VArray out), cs) \<and>
    sample_record ''c'' 1 \<in> set out \<and> sample_record ''d'' 1 \<in> set out"
proof -
  let ?b = "sample_records [(''a'', 1), (''b'', 1)]"
  let ?u = "sample_records [(''a'', 2), (''b'', 1), (''c'', 1)]"
  let ?t = "sample_records [(''d'', 1), (''a'', 1)]"
  have key: "record_key [?b, ?u, ?t] = Some ID" by code_simp
  have ne: "?u \<noteq> ?t" "?t \<noteq> ?b" "?u \<noteq> ?b" by (simp_all add: sample_records_def sample_record_def)
  have c: "sample_record ''c'' 1 \<in> {x \<in> set ?u. by_id ID ?t (record_id x ID) = None \<and>
      by_id ID ?b (record_id x ID) \<noteq> Some x}" by code_simp
  have d: "sample_record ''d'' 1 \<in> {x \<in> set ?t. by_id ID ?u (record_id x ID) = None \<and>
      by_id ID ?b (record_id x ID) \<noteq> Some x}" by code_simp
  show ?thesis
    using merged_records [OF sample_records_ok sample_records_ok sample_records_ok key ne,
        of "lit ''host''"] c d by blast
qed

subsection \<open>A save after another instance saved\<close>









subsection \<open>Resolving without choices\<close>

text \<open>
  a record whose id is the empty text (a file edited by hand) is listed as a difference with an
  empty id, which \<open>resolve\<close> takes for the whole section: this computer's records of the section
  are replaced by the other's. The comment of \<open>default_side\<close> says that nothing is lost.
\<close>

lemma resolve_default_loses_record:
  "bt_get (resolve [(lit ''host'', VArray (sample_records [(''a'', 1)]))]
     [(lit ''host'', VArray (sample_records [([], 1)]))] Map.empty) (lit ''host'') =
   Some (VArray (sample_records [([], 1)]))"
  by code_simp

end
