(* ===== verification/Sftp_Path.thy ===== *)
theory Sftp_Path
  imports Texts
begin

text \<open>
  Paths on a server and on this computer (\<open>crates/opensesh-ssh/src/sftp/path.rs\<close>). A local path is
  treated as the Unix build does (\<open>cfg!(windows)\<close> is false): the part of \<open>std::path\<close> that the code
  calls is modelled for Unix, where a path is its text with \<open>/\<close> between the components.
\<close>

datatype path_style = Posix | Local

abbreviation SLASH :: uchar where "SLASH \<equiv> 47"
definition DOT :: str where "DOT = [46]"
definition DOTDOT :: str where "DOTDOT = [46, 46]"

subsection \<open>\<open>std::path\<close> on Unix\<close>

datatype component = RootDir | CurDir | ParentDir | Normal str

fun component_str :: "component \<Rightarrow> str" where
  "component_str RootDir = [SLASH]"
| "component_str CurDir = DOT"
| "component_str ParentDir = DOTDOT"
| "component_str (Normal s) = s"

definition has_root :: "str \<Rightarrow> bool" where
  "has_root path \<longleftrightarrow> take 1 path = [SLASH]"

text \<open>A leading \<open>.\<close> of a relative path is a component; every other one is skipped.\<close>

definition leading_dot :: "str \<Rightarrow> bool" where
  "leading_dot path \<longleftrightarrow> hd (split_on SLASH path) = DOT"

definition body_component :: "str \<Rightarrow> component option" where
  "body_component part =
     (if part = [] \<or> part = DOT then None
      else if part = DOTDOT then Some ParentDir else Some (Normal part))"

definition components :: "str \<Rightarrow> component list" where
  "components path =
     (if has_root path then [RootDir] else if leading_dot path then [CurDir] else []) @
     List.map_filter body_component (split_on SLASH path)"

text \<open>\<open>PathBuf::push\<close>.\<close>

definition path_push :: "str \<Rightarrow> str \<Rightarrow> str" where
  "path_push buf path =
     (if has_root path then path
      else if buf = [] \<or> last buf = SLASH then buf @ path
      else buf @ [SLASH] @ path)"

text \<open>
  \<open>Path::parent\<close> is a slice of the text: the parts after the start of the path (the root or the
  leading dot) without the last component and without what does not count before it.
\<close>

definition trim_parts :: "str list \<Rightarrow> str list" where
  "trim_parts parts = rev (dropWhile (\<lambda>part. body_component part = None) (rev parts))"

definition path_parent :: "str \<Rightarrow> str option" where
  "path_parent path =
     (let start = (if has_root path \<or> leading_dot path then take 1 path else []);
          parts = trim_parts (split_on SLASH (drop (length start) path))
      in if parts \<noteq> [] then Some (start @ join_with [SLASH] (trim_parts (butlast parts)))
         else if leading_dot path then Some [] else None)"

definition path_file_name :: "str \<Rightarrow> str option" where
  "path_file_name path =
     (case rev (components path) of Normal s # _ \<Rightarrow> Some s | _ \<Rightarrow> None)"

subsection \<open>The operations\<close>

definition push_part :: "bool \<Rightarrow> str list \<Rightarrow> str \<Rightarrow> str list" where
  "push_part absolute parts part =
     (if part = [] \<or> part = DOT then parts
      else if part = DOTDOT then
        (if parts \<noteq> [] \<and> last parts \<noteq> DOTDOT then butlast parts
         else if \<not> absolute then parts @ [DOTDOT] else parts)
      else parts @ [part])"

definition render :: "bool \<Rightarrow> str list \<Rightarrow> str" where
  "render absolute parts =
     (let joined = join_with [SLASH] parts
      in if absolute then SLASH # joined else if joined = [] then DOT else joined)"

definition normalize_posix :: "str \<Rightarrow> str" where
  "normalize_posix path =
     (let absolute = has_root path
      in render absolute (foldl (push_part absolute) [] (split_on SLASH path)))"

definition is_plain_name :: "path_style \<Rightarrow> str \<Rightarrow> bool" where
  "is_plain_name style name \<longleftrightarrow>
     (let posix = (name \<noteq> [] \<and> name \<noteq> DOT \<and> name \<noteq> DOTDOT \<and> SLASH \<notin> set name \<and> 0 \<notin> set name)
      in case style of
           Posix \<Rightarrow> posix
         | Local \<Rightarrow> posix \<and> (case components name of [Normal part] \<Rightarrow> part = name | _ \<Rightarrow> False))"

definition path_join :: "path_style \<Rightarrow> str \<Rightarrow> str \<Rightarrow> str" where
  "path_join style dir name =
     (case style of
        Posix \<Rightarrow>
          if dir = [] then name
          else if last dir = SLASH then dir @ name
          else dir @ [SLASH] @ name
      | Local \<Rightarrow> path_push dir name)"

definition parent :: "path_style \<Rightarrow> str \<Rightarrow> str option" where
  "parent style path =
     (case style of
        Posix \<Rightarrow>
          (let normal = normalize_posix path
           in if normal = [SLASH] \<or> normal = DOT then None
              else case rsplit_once SLASH normal of
                     Some (dir, _) \<Rightarrow> if dir = [] then Some [SLASH] else Some dir
                   | None \<Rightarrow> Some DOT)
      | Local \<Rightarrow> if path = [] then None else path_parent path)"

definition file_name :: "path_style \<Rightarrow> str \<Rightarrow> str" where
  "file_name style path =
     (case style of
        Posix \<Rightarrow>
          (let normal = normalize_posix path
           in case find (\<lambda>part. part \<noteq> []) (rev (split_on SLASH normal)) of
                None \<Rightarrow> normal | Some part \<Rightarrow> part)
      | Local \<Rightarrow> (case path_file_name path of None \<Rightarrow> path | Some name \<Rightarrow> name))"

fun posix_crumbs :: "str \<Rightarrow> str list \<Rightarrow> (str \<times> str) list" where
  "posix_crumbs current [] = []"
| "posix_crumbs current (part # parts) =
     (let current = path_join Posix current part in (part, current) # posix_crumbs current parts)"

fun local_crumbs :: "str \<Rightarrow> component list \<Rightarrow> (str \<times> str) list" where
  "local_crumbs current [] = []"
| "local_crumbs current (c # cs) =
     (let current = path_push current (component_str c)
      in (component_str c, current) # local_crumbs current cs)"

definition crumbs :: "path_style \<Rightarrow> str \<Rightarrow> (str \<times> str) list" where
  "crumbs style path =
     (case style of
        Posix \<Rightarrow>
          (let normal = normalize_posix path;
               parts = filter (\<lambda>part. part \<noteq> []) (split_on SLASH normal)
           in if has_root normal then ([SLASH], [SLASH]) # posix_crumbs [SLASH] parts
              else posix_crumbs [] parts)
      | Local \<Rightarrow> local_crumbs [] (components path))"

definition numbered :: "str \<Rightarrow> nat \<Rightarrow> str" where
  "numbered name n =
     (let plain = name @ lit '' ('' @ decimal n @ lit '')''
      in case rsplit_once 46 name of
           Some (stem, extension) \<Rightarrow>
             if stem \<noteq> [] then stem @ lit '' ('' @ decimal n @ lit '').'' @ extension else plain
         | None \<Rightarrow> plain)"

definition shell_quote :: "str \<Rightarrow> str" where
  "shell_quote s =
     [39] @ concat (map (\<lambda>c. if c = 39 then [39, 92, 39, 39] else [c]) s) @ [39]"

subsection \<open>Normal paths\<close>

text \<open>
  The stack that \<open>normalize_posix\<close> builds: parts that name something, with \<open>..\<close> only at the front
  of a relative path.
\<close>

definition part_ok :: "str \<Rightarrow> bool" where
  "part_ok part \<longleftrightarrow> part \<noteq> [] \<and> part \<noteq> DOT \<and> SLASH \<notin> set part"

definition normal_parts :: "bool \<Rightarrow> str list \<Rightarrow> bool" where
  "normal_parts absolute parts \<longleftrightarrow>
     list_all part_ok parts \<and> DOTDOT \<notin> set (dropWhile (\<lambda>p. p = DOTDOT) parts) \<and>
     (absolute \<longrightarrow> DOTDOT \<notin> set parts)"

definition stack :: "str \<Rightarrow> str list" where
  "stack path = foldl (push_part (has_root path)) [] (split_on SLASH path)"

lemma normalize_posix_stack: "normalize_posix path = render (has_root path) (stack path)"
  by (simp add: normalize_posix_def stack_def Let_def)

lemma dropWhile_snoc:
  "dropWhile P (xs @ [x]) = (if dropWhile P xs = [] then (if P x then [] else [x]) else dropWhile P xs @ [x])"
  by (induction xs) auto

lemma normal_parts_snoc:
  "normal_parts a (ps @ [p]) \<longleftrightarrow> normal_parts a ps \<and> part_ok p \<and>
     (p = DOTDOT \<longrightarrow> \<not> a \<and> dropWhile (\<lambda>p. p = DOTDOT) ps = [])"
  by (auto simp: normal_parts_def dropWhile_snoc simp del: dropWhile_eq_Nil_conv)

lemma normal_parts_Nil [simp]: "normal_parts a []"
  by (simp add: normal_parts_def)

lemma normal_last: "normal_parts a (ps @ [DOTDOT]) \<Longrightarrow> dropWhile (\<lambda>p. p = DOTDOT) (ps @ [DOTDOT]) = []"
  by (simp add: normal_parts_snoc dropWhile_snoc)

lemma DOTDOT_ok: "part_ok DOTDOT"
  by (simp add: part_ok_def DOTDOT_def DOT_def)

lemma push_part_normal:
  assumes "normal_parts a ps" and "SLASH \<notin> set p"
  shows "normal_parts a (push_part a ps p)"
proof -
  have up: "dropWhile (\<lambda>p. p = DOTDOT) ps = []" if "ps = [] \<or> last ps = DOTDOT"
    using that assms(1) normal_last [of a "butlast ps"] by (cases ps rule: rev_cases) auto
  have "normal_parts a (butlast ps)" using assms(1) by (cases ps rule: rev_cases) (auto simp: normal_parts_snoc)
  then show ?thesis
    using assms up DOTDOT_ok normal_parts_snoc [of a ps p] normal_parts_snoc [of a ps DOTDOT]
    by (auto simp: push_part_def part_ok_def)
qed

lemma foldl_push_normal:
  "normal_parts a ps \<Longrightarrow> \<forall>p \<in> set parts. SLASH \<notin> set p \<Longrightarrow> normal_parts a (foldl (push_part a) ps parts)"
  by (induction parts arbitrary: ps) (auto intro: push_part_normal)

lemma stack_normal: "normal_parts (has_root path) (stack path)"
  unfolding stack_def by (rule foldl_push_normal) (auto dest: split_on_parts [rule_format])

lemma push_normal:
  "normal_parts a (ps @ [p]) \<Longrightarrow> push_part a ps p = ps @ [p]"
proof -
  assume "normal_parts a (ps @ [p])"
  then have p: "part_ok p" and up: "p = DOTDOT \<Longrightarrow> \<not> a \<and> (\<forall>q \<in> set ps. q = DOTDOT)"
    by (auto simp: normal_parts_snoc)
  have "p = DOTDOT \<Longrightarrow> ps \<noteq> [] \<Longrightarrow> last ps = DOTDOT" using up by simp
  then show ?thesis using p up by (auto simp: push_part_def part_ok_def)
qed

lemma foldl_push_id: "normal_parts a parts \<Longrightarrow> foldl (push_part a) [] parts = parts"
proof (induction parts rule: rev_induct)
  case (snoc p ps)
  then show ?case using push_normal [of a ps p] by (simp add: normal_parts_snoc)
qed simp

lemma normal_parts_ok: "normal_parts a ps \<Longrightarrow> p \<in> set ps \<Longrightarrow> part_ok p"
  by (auto simp: normal_parts_def list_all_iff)

lemma joined_Nil_iff: "normal_parts a ps \<Longrightarrow> join_with [SLASH] ps = [] \<longleftrightarrow> ps = []"
  using normal_parts_ok [of a ps] by (intro join_with_Nil_iff) (auto simp: part_ok_def)

lemma has_root_render:
  assumes "normal_parts a ps"
  shows "has_root (render a ps) = a"
proof (cases "a \<or> ps = []")
  case True
  then show ?thesis by (cases a) (auto simp: render_def has_root_def DOT_def)
next
  case False
  then have "part_ok (hd ps)" using normal_parts_ok [OF assms] by simp
  then have "hd ps \<noteq> []" "hd (hd ps) \<noteq> SLASH" by (cases "hd ps"; auto simp: part_ok_def)+
  moreover have "join_with [SLASH] ps \<noteq> []" using joined_Nil_iff [OF assms] False by simp
  ultimately show ?thesis
    using False hd_join_with [of ps "[SLASH]"] by (cases "join_with [SLASH] ps") (auto simp: render_def has_root_def)
qed

lemma split_render:
  assumes "normal_parts a ps"
  shows "foldl (push_part b) qs (split_on SLASH (render a ps)) = foldl (push_part b) qs ps"
proof -
  have "\<forall>p \<in> set ps. SLASH \<notin> set p" using normal_parts_ok [OF assms] by (auto simp: part_ok_def)
  then have parts: "ps \<noteq> [] \<Longrightarrow> split_on SLASH (join_with [SLASH] ps) = ps" by (rule split_on_join [rotated])
  have skip: "push_part b qs [] = qs" "push_part b qs DOT = qs" by (simp_all add: push_part_def)
  have dot: "split_on SLASH DOT = [DOT]" by (simp add: DOT_def)
  show ?thesis
    using parts skip dot joined_Nil_iff [OF assms] by (cases "ps = []") (auto simp: render_def Let_def)
qed

lemma stack_render: "normal_parts a ps \<Longrightarrow> stack (render a ps) = ps"
  by (simp add: stack_def has_root_render split_render foldl_push_id)

text \<open>
  normalising a path twice gives what normalising it once gives.
\<close>

theorem normalize_idempotent:
  "normalize_posix (normalize_posix path) = normalize_posix path"
  using stack_normal [of path] by (simp add: normalize_posix_stack has_root_render stack_render)

subsection \<open>Names from a server\<close>

lemma plain_name_part:
  assumes "is_plain_name style name"
  shows "part_ok name \<and> name \<noteq> DOTDOT"
  using assms by (cases style) (auto simp: is_plain_name_def part_ok_def Let_def)

lemma stack_join:
  assumes "part_ok name" and "name \<noteq> DOTDOT"
  shows "has_root (path_join Posix dir name) = has_root dir \<and> stack (path_join Posix dir name) = stack dir @ [name]"
proof -
  have name: "split_on SLASH name = [name]" "\<not> has_root name" "\<And>a ps. push_part a ps name = ps @ [name]"
    using assms by (cases name; auto simp: part_ok_def split_on_none has_root_def push_part_def)+
  have skip: "\<And>a ps. push_part a ps [] = ps" by (simp add: push_part_def)
  have root: "d \<noteq> [] \<Longrightarrow> has_root (d @ s) = has_root d" for d s by (cases d) (auto simp: has_root_def)
  consider "dir = []" | d where "dir = d @ [SLASH]" | "dir \<noteq> []" "last dir \<noteq> SLASH"
    by (metis append_butlast_last_id)
  then show ?thesis
  proof cases
    case 1
    then show ?thesis using name by (simp add: path_join_def stack_def has_root_def skip)
  next
    case 2
    then have "path_join Posix dir name = d @ SLASH # name" by (simp add: path_join_def)
    then show ?thesis
      using 2 name root [of dir name] split_on_append [of SLASH d name] split_on_append [of SLASH d "[]"]
      by (simp add: stack_def skip)
  next
    case 3
    then have "path_join Posix dir name = dir @ SLASH # name" by (simp add: path_join_def)
    then show ?thesis
      using 3 name root [of dir "SLASH # name"] split_on_append [of SLASH dir name] by (simp add: stack_def)
  qed
qed

lemma render_snoc:
  assumes "normal_parts a (ps @ [name])"
  shows "render a (ps @ [name]) =
    (if a \<and> ps = [] then SLASH # name else if ps = [] then name else render a ps @ SLASH # name)"
  using assms joined_Nil_iff [OF assms] joined_Nil_iff [of a ps]
  by (cases "ps = []") (auto simp: render_def Let_def join_with_snoc normal_parts_snoc part_ok_def)

lemma parent_render:
  assumes "normal_parts a (ps @ [name])"
  shows "parent Posix (render a (ps @ [name])) = Some (render a ps) \<and>
    file_name Posix (render a (ps @ [name])) = name"
proof -
  let ?p = "render a (ps @ [name])"
  have ok: "part_ok name" using assms normal_parts_ok [of a "ps @ [name]" name] by simp
  have ps: "normal_parts a ps" using assms by (simp add: normal_parts_snoc)
  have same: "normalize_posix ?p = ?p"
    using assms by (simp add: normalize_posix_stack has_root_render stack_render)
  have top: "?p \<noteq> [SLASH]" "?p \<noteq> DOT"
    using stack_render [OF assms] stack_render [of True "[]"] stack_render [of False "[]"]
    by (auto simp: render_def)
  have rs: "SLASH \<notin> set name" using ok by (simp add: part_ok_def)
  have nonempty: "render a ps \<noteq> []" by (simp add: render_def DOT_def Let_def)
  have dir: "parent Posix ?p = Some (render a ps)"
    using same top rs nonempty rsplit_once_at [OF rs, of "[]"] rsplit_once_at [OF rs, of "render a ps"]
      rsplit_once_none [OF rs]
    by (auto simp: parent_def Let_def render_snoc [OF assms]) (auto simp: render_def)
  have "\<exists>qs. split_on SLASH ?p = qs @ [name]"
    using split_on_none [OF rs] split_on_append [of SLASH "[]" name] split_on_append [of SLASH "render a ps" name]
    by (auto simp: render_snoc [OF assms])
  then have "file_name Posix ?p = name"
    using same ok by (auto simp: file_name_def part_ok_def)
  with dir show ?thesis ..
qed

text \<open>
  a file that the server names cannot leave the folder it is listed in. When the name is plain,
  the path made of a folder and the name has that folder as its parent and that name as its last
  component, however the folder is written.
\<close>

theorem plain_name_stays_inside:
  assumes "is_plain_name Posix name"
  shows "parent Posix (path_join Posix dir name) = Some (normalize_posix dir) \<and>
    file_name Posix (path_join Posix dir name) = name"
proof -
  let ?p = "path_join Posix dir name"
  have ok: "part_ok name" "name \<noteq> DOTDOT" using plain_name_part [OF assms] by auto
  have j: "has_root ?p = has_root dir" "stack ?p = stack dir @ [name]" using stack_join [OF ok] by auto
  have n: "normal_parts (has_root dir) (stack dir @ [name])" using stack_normal [of ?p] j by simp
  have "normalize_posix (render (has_root dir) (stack dir @ [name])) = normalize_posix ?p"
    using n j by (simp add: normalize_posix_stack has_root_render stack_render)
  then have "parent Posix ?p = parent Posix (render (has_root dir) (stack dir @ [name]))"
    "file_name Posix ?p = file_name Posix (render (has_root dir) (stack dir @ [name]))"
    by (simp_all add: parent_def file_name_def)
  then show ?thesis using parent_render [OF n] by (simp add: normalize_posix_stack [of dir])
qed

theorem plain_name_stays_inside_witness:
  "parent Posix (path_join Posix (lit ''/a/../b/'') (lit ''x.txt'')) = Some (normalize_posix (lit ''/a/../b/'')) \<and>
   file_name Posix (path_join Posix (lit ''/a/../b/'') (lit ''x.txt'')) = lit ''x.txt''"
  by (rule plain_name_stays_inside) (simp add: is_plain_name_def lit_def DOT_def DOTDOT_def)

text \<open>On Unix the two styles agree on which names are plain.\<close>

lemma plain_name_local: "is_plain_name Local name = is_plain_name Posix name"
proof (cases "is_plain_name Posix name")
  case True
  then have ok: "part_ok name" "name \<noteq> DOTDOT" using plain_name_part by auto
  then have "components name = [Normal name]"
    by (cases name)
       (auto simp: components_def part_ok_def has_root_def leading_dot_def split_on_none
         body_component_def List.map_filter_simps simp del: split_on.simps)
  then show ?thesis using True by (simp add: is_plain_name_def Let_def)
qed (auto simp: is_plain_name_def Let_def)

text \<open>A numbered name is as plain as the name.\<close>

lemma plain_numbered:
  assumes "is_plain_name Posix name"
  shows "is_plain_name Posix (numbered name n)"
proof -
  have digits: "SLASH \<notin> set (decimal n)" "0 \<notin> set (decimal n)" using decimal_digits [of _ n] by force+
  show ?thesis
    using assms digits
    by (auto simp: is_plain_name_def numbered_def Let_def lit_def DOT_def DOTDOT_def Cons_eq_append_conv
        split: option.splits if_splits dest!: rsplit_onceD)
qed

subsection \<open>Quoting for a shell\<close>

text \<open>
  How a POSIX shell reads one word without expansions: a single quote keeps everything up to the
  next one, a backslash outside quotes keeps the next character. \<open>None\<close>: a quote that is not
  closed, or white space between words.
\<close>

fun sh_word :: "bool \<Rightarrow> str \<Rightarrow> str option" where
  "sh_word True [] = None"
| "sh_word True (c # s) = (if c = 39 then sh_word False s else map_option ((#) c) (sh_word True s))"
| "sh_word False [] = Some []"
| "sh_word False (c # s) =
     (if c = 39 then sh_word True s
      else if c = 92 then (case s of [] \<Rightarrow> None | d # s' \<Rightarrow> map_option ((#) d) (sh_word False s'))
      else if is_whitespace c then None
      else map_option ((#) c) (sh_word False s))"

lemma sh_word_quoted:
  "sh_word True (concat (map (\<lambda>c. if c = 39 then [39, 92, 39, 39] else [c]) s) @ [39]) = Some s"
  by (induction s) auto

text \<open>
  a text quoted for the shell is read by the shell as one word, which is that text, whatever
  characters it has.
\<close>

theorem shell_quote_is_one_word:
  "sh_word False (shell_quote s) = Some s"
  using sh_word_quoted [of s] by (simp add: shell_quote_def)

end
