(* ===== verification/Tunnels.thy ===== *)
theory Tunnels
  imports Toml Texts
begin

text \<open>
  Tunnels in \<open>tunnels.toml\<close> (\<open>crates/opensesh-core/src/tunnels.rs\<close>) and what the engine forwards for
  one (\<open>forward_of\<close> in \<open>crates/opensesh-app/src/tunnels.rs\<close>). A closure that removes a key from the
  table and may push a warning is a function on the pair of the table and the warnings so far.
  \<open>toml_text\<close> is the toml crate: its parser, with the text of its error, and its printer.
\<close>

datatype tunnel_kind = KLocal | KRemote | KDynamic

record tunnel =
  tn_id :: str
  tn_name :: str
  tn_kind :: tunnel_kind
  tn_host :: str
  tn_target :: str
  tn_bind_address :: str
  tn_bind_port :: nat
  tn_destination_host :: str
  tn_destination_port :: nat
  tn_tied :: bool
  tn_autostart :: bool
  tn_reconnect :: bool
  tn_extra :: table

record warning =
  wn_key :: str
  wn_message :: str

definition SCHEMA_VERSION :: int where "SCHEMA_VERSION = 1"
definition MAX_TEXT :: nat where "MAX_TEXT = 255"

definition TUNNELS_FILE :: str where "TUNNELS_FILE = lit ''tunnels.toml''"

definition HEADER :: str where
  "HEADER = lit ''# OpenSesh tunnels (port forwarding). OpenSesh rewrites this file when a tunnel'' @ [10] @
     lit ''# is changed in the app: comments are not kept.'' @ [10]"

fun kind_as_str :: "tunnel_kind \<Rightarrow> str" where
  "kind_as_str KLocal = lit ''local''"
| "kind_as_str KRemote = lit ''remote''"
| "kind_as_str KDynamic = lit ''dynamic''"

definition kind_parse :: "str \<Rightarrow> tunnel_kind option" where
  "kind_parse s =
     (if s = lit ''local'' then Some KLocal
      else if s = lit ''remote'' then Some KRemote
      else if s = lit ''dynamic'' then Some KDynamic
      else None)"

definition valid_address :: "str \<Rightarrow> bool" where
  "valid_address s \<longleftrightarrow> byte_len s \<le> MAX_TEXT \<and> \<not> list_ex (\<lambda>c. is_whitespace c \<or> is_control c) s"

definition tunnel_problem :: "tunnel \<Rightarrow> str option" where
  "tunnel_problem t =
     (if trim (tn_host t) = [] \<and> trim (tn_target t) = [] then Some (lit ''no host to go through'')
      else if tn_tied t \<and> trim (tn_host t) = []
      then Some (lit ''a tunnel tied to a host needs a saved host'')
      else if \<not> valid_address (tn_bind_address t)
      then Some (lit ''the listening address is not valid'')
      else if tn_kind t \<noteq> KDynamic \<and>
              (trim (tn_destination_host t) = [] \<or> \<not> valid_address (tn_destination_host t))
      then Some (lit ''the destination host is not valid'')
      else if tn_kind t \<noteq> KDynamic \<and> tn_destination_port t = 0
      then Some (lit ''the destination port must be 1 to 65535'')
      else if length (tn_name t) > MAX_TEXT \<or> list_ex is_control (tn_name t)
      then Some (lit ''the name is too long or has control characters'')
      else None)"

subsection \<open>Reading a tunnel\<close>

text \<open>\<open>Value::type_str\<close> of the toml crate.\<close>

fun type_str :: "toml_value \<Rightarrow> str" where
  "type_str (VString _) = lit ''string''"
| "type_str (VInteger _) = lit ''integer''"
| "type_str (VFloat _) = lit ''float''"
| "type_str (VBoolean _) = lit ''boolean''"
| "type_str (VDatetime _) = lit ''datetime''"
| "type_str (VArray _) = lit ''array''"
| "type_str (VTable _) = lit ''table''"

definition tunnel_key :: "nat \<Rightarrow> str \<Rightarrow> str" where
  "tunnel_key index name =
     lit ''tunnel['' @ decimal index @ lit '']'' @ (if name = [] then [] else lit ''.'' @ name)"

definition warn :: "nat \<Rightarrow> str \<Rightarrow> str \<Rightarrow> warning" where
  "warn index name message = \<lparr>wn_key = tunnel_key index name, wn_message = message\<rparr>"

type_synonym reading = "table \<times> warning list"

definition take_text :: "nat \<Rightarrow> str \<Rightarrow> reading \<Rightarrow> str \<times> reading" where
  "take_text index name r =
     (let t = bt_remove name (fst r)
      in case bt_get (fst r) name of
           None \<Rightarrow> ([], t, snd r)
         | Some (VString v) \<Rightarrow>
             if byte_len v \<le> MAX_TEXT then (trim v, t, snd r)
             else ([], t, snd r @ [warn index name (lit ''too long; ignored'')])
         | Some other \<Rightarrow>
             ([], t, snd r @ [warn index name (lit ''expected a string, found '' @ type_str other)]))"

definition take_port :: "nat \<Rightarrow> str \<Rightarrow> reading \<Rightarrow> nat \<times> reading" where
  "take_port index name r =
     (let t = bt_remove name (fst r)
      in case bt_get (fst r) name of
           None \<Rightarrow> (0, t, snd r)
         | Some (VInteger v) \<Rightarrow>
             if 0 \<le> v \<and> v \<le> 65535 then (nat v, t, snd r)
             else (0, t, snd r @ [warn index name (lit ''must be 0 to 65535; ignored'')])
         | Some other \<Rightarrow>
             (0, t, snd r @ [warn index name (lit ''expected a number, found '' @ type_str other)]))"

definition take_flag :: "nat \<Rightarrow> str \<Rightarrow> bool \<Rightarrow> reading \<Rightarrow> bool \<times> reading" where
  "take_flag index name fallback r =
     (let t = bt_remove name (fst r)
      in case bt_get (fst r) name of
           None \<Rightarrow> (fallback, t, snd r)
         | Some (VBoolean v) \<Rightarrow> (v, t, snd r)
         | Some other \<Rightarrow>
             (fallback, t,
              snd r @ [warn index name (lit ''expected true or false, found '' @ type_str other)]))"

definition DEFAULT_BIND :: str where "DEFAULT_BIND = lit ''127.0.0.1''"

definition from_table :: "table \<Rightarrow> nat \<Rightarrow> warning list \<Rightarrow> tunnel option \<times> warning list" where
  "from_table table index warnings =
     (let (id, r) = take_text index (lit ''id'') (table, warnings)
      in if id = [] \<or> list_ex is_control id
         then (None, snd r @ [warn index (lit ''id'') (lit ''missing or not valid; the tunnel is skipped'')])
         else let (kind_text, r) = take_text index (lit ''kind'') r
              in case kind_parse kind_text of
                   None \<Rightarrow> (None, snd r @ [warn index (lit ''kind'')
                     (lit ''expected local, remote or dynamic; the tunnel is skipped'')])
                 | Some kind \<Rightarrow>
                     (let (name, r) = take_text index (lit ''name'') r;
                          (host, r) = take_text index (lit ''host'') r;
                          (target, r) = take_text index (lit ''target'') r;
                          (bind_address, r) =
                            (if bt_get (fst r) (lit ''bind_address'') \<noteq> None
                             then take_text index (lit ''bind_address'') r
                             else (DEFAULT_BIND, r));
                          (bind_port, r) = take_port index (lit ''bind_port'') r;
                          (destination_host, r) = take_text index (lit ''destination_host'') r;
                          (destination_port, r) = take_port index (lit ''destination_port'') r;
                          (tied, r) = take_flag index (lit ''tied'') False r;
                          (autostart, r) = take_flag index (lit ''autostart'') False r;
                          (reconnect, r) = take_flag index (lit ''reconnect'') True r;
                          t = \<lparr>tn_id = id, tn_name = name, tn_kind = kind, tn_host = host,
                               tn_target = target, tn_bind_address = bind_address,
                               tn_bind_port = bind_port, tn_destination_host = destination_host,
                               tn_destination_port = destination_port, tn_tied = tied,
                               tn_autostart = autostart, tn_reconnect = reconnect, tn_extra = fst r\<rparr>
                      in case tunnel_problem t of
                           Some problem \<Rightarrow>
                             (None, snd r @ [warn index [] (problem @ lit ''; the tunnel is skipped'')])
                         | None \<Rightarrow> (Some t, snd r)))"

subsection \<open>Writing a tunnel\<close>

definition put_text :: "str \<Rightarrow> str \<Rightarrow> table \<Rightarrow> table" where
  "put_text name v t = bt_insert name (VString v) t"

definition put_if :: "bool \<Rightarrow> (table \<Rightarrow> table) \<Rightarrow> table \<Rightarrow> table" where
  "put_if b f t = (if b then f t else t)"

definition to_table :: "tunnel \<Rightarrow> table" where
  "to_table t =
     (let table = put_text (lit ''id'') (tn_id t) (tn_extra t);
          table = put_if (tn_name t \<noteq> []) (put_text (lit ''name'') (tn_name t)) table;
          table = put_text (lit ''kind'') (kind_as_str (tn_kind t)) table;
          table = put_if (tn_host t \<noteq> []) (put_text (lit ''host'') (tn_host t)) table;
          table = put_if (tn_target t \<noteq> []) (put_text (lit ''target'') (tn_target t)) table;
          table = put_text (lit ''bind_address'') (tn_bind_address t) table;
          table = bt_insert (lit ''bind_port'') (VInteger (int (tn_bind_port t))) table;
          table = put_if (tn_kind t \<noteq> KDynamic) (\<lambda>table.
            bt_insert (lit ''destination_port'') (VInteger (int (tn_destination_port t)))
              (put_text (lit ''destination_host'') (tn_destination_host t) table)) table;
          table = bt_insert (lit ''tied'') (VBoolean (tn_tied t)) table;
          table = bt_insert (lit ''autostart'') (VBoolean (tn_autostart t)) table
      in bt_insert (lit ''reconnect'') (VBoolean (tn_reconnect t)) table)"

subsection \<open>The file\<close>

record tunnels_file =
  tf_tunnels :: "tunnel list"
  tf_extra :: table
  tf_read_only :: bool

definition no_tunnels :: tunnels_file where
  "no_tunnels = \<lparr>tf_tunnels = [], tf_extra = [], tf_read_only = False\<rparr>"

record toml_text =
  tt_parse :: "str \<Rightarrow> str + table"
  tt_show :: "table \<Rightarrow> str"

text \<open>The loop of \<open>from_toml_str\<close> over the entries, with their indices.\<close>

fun read_entries ::
  "nat \<Rightarrow> toml_value list \<Rightarrow> tunnel list \<Rightarrow> warning list \<Rightarrow> tunnel list \<times> warning list" where
  "read_entries index [] tunnels warnings = (tunnels, warnings)"
| "read_entries index (entry # entries) tunnels warnings =
     (case entry of
        VTable table \<Rightarrow>
          (case from_table table index warnings of
             (Some t, warnings) \<Rightarrow>
               if list_ex (\<lambda>seen. tn_id seen = tn_id t) tunnels
               then read_entries (Suc index) entries tunnels
                 (warnings @ [warn index (lit ''id'') (lit ''used twice; the second is skipped'')])
               else read_entries (Suc index) entries (tunnels @ [t]) warnings
           | (None, warnings) \<Rightarrow> read_entries (Suc index) entries tunnels warnings)
      | other \<Rightarrow>
          read_entries (Suc index) entries tunnels
            (warnings @ [warn index [] (lit ''expected a table, found '' @ type_str other)]))"

definition from_toml_str :: "toml_text \<Rightarrow> str \<Rightarrow> tunnels_file \<times> warning list" where
  "from_toml_str toml s =
     (case tt_parse toml s of
        Inl error \<Rightarrow>
          (no_tunnels\<lparr>tf_read_only := True\<rparr>,
           [\<lparr>wn_key = TUNNELS_FILE, wn_message = lit ''not valid TOML: '' @ error\<rparr>])
      | Inr doc \<Rightarrow>
          (let version = (case Option.bind (bt_get doc (lit ''schema_version'')) as_integer of
                            None \<Rightarrow> SCHEMA_VERSION | Some v \<Rightarrow> v);
               doc = bt_remove (lit ''schema_version'') doc;
               entries = bt_get doc (lit ''tunnel'');
               doc = bt_remove (lit ''tunnel'') doc;
               (tunnels, warnings) =
                 (case entries of
                    None \<Rightarrow> ([], [])
                  | Some (VArray entries) \<Rightarrow> read_entries 0 entries [] []
                  | Some other \<Rightarrow>
                      ([], [\<lparr>wn_key = lit ''tunnel'',
                             wn_message = lit ''expected an array of tables, found '' @ type_str other\<rparr>]))
           in (\<lparr>tf_tunnels = tunnels, tf_extra = doc, tf_read_only = version > SCHEMA_VERSION\<rparr>,
               warnings)))"

definition to_toml_string :: "toml_text \<Rightarrow> tunnels_file \<Rightarrow> str" where
  "to_toml_string toml f =
     (let doc = bt_insert (lit ''schema_version'') (VInteger SCHEMA_VERSION) (tf_extra f);
          doc = bt_insert (lit ''tunnel'') (VArray (map (\<lambda>t. VTable (to_table t)) (tf_tunnels f))) doc
      in HEADER @ [10] @ tt_show toml doc)"

text \<open>What \<open>sync::read_to_string\<close> found: the text, no file, or an error with its message.\<close>

datatype read_result = ReadText str | ReadMissing | ReadError str

definition load_file :: "toml_text \<Rightarrow> read_result \<Rightarrow> tunnels_file \<times> warning list" where
  "load_file toml r =
     (case r of
        ReadText s \<Rightarrow> from_toml_str toml s
      | ReadMissing \<Rightarrow> (no_tunnels, [])
      | ReadError error \<Rightarrow>
          (no_tunnels\<lparr>tf_read_only := True\<rparr>,
           [\<lparr>wn_key = TUNNELS_FILE, wn_message = lit ''could not read the file: '' @ error\<rparr>]))"

definition tunnels_get :: "tunnels_file \<Rightarrow> str \<Rightarrow> tunnel option" where
  "tunnels_get f wanted = find (\<lambda>t. tn_id t = wanted) (tf_tunnels f)"

subsection \<open>What is forwarded\<close>

record endpoint =
  ep_host :: str
  ep_port :: nat

datatype forward = FLocal endpoint endpoint | FDynamic endpoint | FRemote endpoint endpoint

definition unbracketed :: "str \<Rightarrow> str" where
  "unbracketed address =
     (case Option.bind (strip_prefix (lit ''['') address) (strip_suffix (lit '']'')) of
        None \<Rightarrow> address | Some a \<Rightarrow> a)"

definition forward_of :: "tunnel \<Rightarrow> forward" where
  "forward_of t =
     (let here = \<lambda>address. if address = [] \<or> address = lit ''*'' then lit ''0.0.0.0'' else unbracketed address;
          to = \<lparr>ep_host = unbracketed (tn_destination_host t), ep_port = tn_destination_port t\<rparr>
      in case tn_kind t of
           KLocal \<Rightarrow> FLocal \<lparr>ep_host = here (tn_bind_address t), ep_port = tn_bind_port t\<rparr> to
         | KDynamic \<Rightarrow> FDynamic \<lparr>ep_host = here (tn_bind_address t), ep_port = tn_bind_port t\<rparr>
         | KRemote \<Rightarrow>
             FRemote \<lparr>ep_host = (if tn_bind_address t = lit ''*'' then [] else unbracketed (tn_bind_address t)),
                      ep_port = tn_bind_port t\<rparr> to)"

subsection \<open>Reading back what was written\<close>

definition known_keys :: "str list" where
  "known_keys = map lit [''id'', ''kind'', ''name'', ''host'', ''target'', ''bind_address'', ''bind_port'',
     ''destination_host'', ''destination_port'', ''tied'', ''autostart'', ''reconnect'']"

definition text_ok :: "str \<Rightarrow> bool" where
  "text_ok s \<longleftrightarrow> byte_len s \<le> MAX_TEXT \<and> trim s = s"

definition tunnel_ok :: "tunnel \<Rightarrow> bool" where
  "tunnel_ok t \<longleftrightarrow>
     list_all text_ok [tn_id t, tn_name t, tn_host t, tn_target t, tn_bind_address t, tn_destination_host t] \<and>
     tn_id t \<noteq> [] \<and> \<not> list_ex is_control (tn_id t) \<and> tn_bind_port t \<le> 65535 \<and>
     tn_destination_port t \<le> 65535 \<and> tunnel_problem t = None \<and> bt_ok (tn_extra t) \<and>
     list_all (\<lambda>k. bt_get (tn_extra t) k = None) known_keys"

text \<open>A dynamic tunnel has no destination: it is not written.\<close>

definition stored :: "tunnel \<Rightarrow> tunnel" where
  "stored t = (if tn_kind t = KDynamic then t\<lparr>tn_destination_host := [], tn_destination_port := 0\<rparr> else t)"

lemma text_ok_Nil [simp]: "text_ok []"
  by (simp add: text_ok_def byte_len_def trim_def)

lemma kind_parse_as_str: "kind_parse (kind_as_str k) = Some k"
  by (cases k) (simp_all add: kind_parse_def)

lemma text_ok_kind: "text_ok (kind_as_str k)"
proof -
  have "byte_len (kind_as_str k) \<le> MAX_TEXT" by (cases k) (simp_all add: byte_len_def utf8_len_def lit_def MAX_TEXT_def)
  moreover have "trim (kind_as_str k) = kind_as_str k"
    by (rule trim_fix; cases k) (simp_all add: lit_def is_whitespace_def)
  ultimately show ?thesis by (simp add: text_ok_def)
qed

lemma take_text_written:
  "text_ok v \<Longrightarrow> bt_get t name = (if b then Some (VString v) else None) \<Longrightarrow> (\<not> b \<Longrightarrow> v = []) \<Longrightarrow>
   take_text index name (t, ws) = (v, bt_remove name t, ws)"
  by (auto simp: take_text_def text_ok_def)

lemma take_port_written:
  "n \<le> 65535 \<Longrightarrow> bt_get t name = (if b then Some (VInteger (int n)) else None) \<Longrightarrow> (\<not> b \<Longrightarrow> n = 0) \<Longrightarrow>
   take_port index name (t, ws) = (n, bt_remove name t, ws)"
  by (auto simp: take_port_def)

lemma take_flag_written:
  "bt_get t name = Some (VBoolean v) \<Longrightarrow> take_flag index name d (t, ws) = (v, bt_remove name t, ws)"
  by (auto simp: take_flag_def)

lemma put_text_get [simp]: "bt_get (put_text name v t) = (bt_get t)(name \<mapsto> VString v)"
  by (simp add: put_text_def bt_get_insert)

lemma put_if_get: "bt_get (put_if b f t) k = (if b then bt_get (f t) k else bt_get t k)"
  by (simp add: put_if_def)

lemma put_ok [simp]:
  "bt_ok t \<Longrightarrow> bt_ok (put_text name v t)" "bt_ok t \<Longrightarrow> bt_ok (f t) \<Longrightarrow> bt_ok (put_if b f t)"
  by (simp_all add: put_text_def put_if_def bt_ok_insert)

lemma to_table_ok: "bt_ok (tn_extra t) \<Longrightarrow> bt_ok (to_table t)"
  by (simp add: to_table_def bt_ok_insert)

lemma to_table_get:
  "bt_get (to_table t) k =
     (if k = lit ''reconnect'' then Some (VBoolean (tn_reconnect t))
      else if k = lit ''autostart'' then Some (VBoolean (tn_autostart t))
      else if k = lit ''tied'' then Some (VBoolean (tn_tied t))
      else if k = lit ''destination_port'' \<and> tn_kind t \<noteq> KDynamic
      then Some (VInteger (int (tn_destination_port t)))
      else if k = lit ''destination_host'' \<and> tn_kind t \<noteq> KDynamic
      then Some (VString (tn_destination_host t))
      else if k = lit ''bind_port'' then Some (VInteger (int (tn_bind_port t)))
      else if k = lit ''bind_address'' then Some (VString (tn_bind_address t))
      else if k = lit ''target'' \<and> tn_target t \<noteq> [] then Some (VString (tn_target t))
      else if k = lit ''host'' \<and> tn_host t \<noteq> [] then Some (VString (tn_host t))
      else if k = lit ''kind'' then Some (VString (kind_as_str (tn_kind t)))
      else if k = lit ''name'' \<and> tn_name t \<noteq> [] then Some (VString (tn_name t))
      else if k = lit ''id'' then Some (VString (tn_id t))
      else bt_get (tn_extra t) k)"
  by (simp add: to_table_def bt_get_insert put_if_get Let_def)

lemma bt_get_remove_at: "bt_get (bt_remove k m) k' = (if k' = k then None else bt_get m k')"
  by (simp add: bt_get_remove)

text \<open>A written table without the keys that were taken so far.\<close>

definition taken :: "tunnel \<Rightarrow> string list \<Rightarrow> table" where
  "taken t ks = foldl (\<lambda>m k. bt_remove (lit k) m) (to_table t) ks"

lemma taken_Nil: "taken t [] = to_table t"
  by (simp add: taken_def)

lemma taken_snoc: "taken t (ks @ [k]) = bt_remove (lit k) (taken t ks)"
  by (simp add: taken_def)

lemma taken_get: "bt_get (taken t ks) (lit k) = (if k \<in> set ks then None else bt_get (to_table t) (lit k))"
  by (induction ks rule: rev_induct) (auto simp: taken_Nil taken_snoc bt_get_remove_at)

lemma taken_other: "k \<notin> lit ` set ks \<Longrightarrow> bt_get (taken t ks) k = bt_get (to_table t) k"
  by (induction ks rule: rev_induct) (auto simp: taken_Nil taken_snoc bt_get_remove_at)

lemma taken_ok: "bt_ok (tn_extra t) \<Longrightarrow> bt_ok (taken t ks)"
  by (induction ks rule: rev_induct) (auto simp: taken_Nil taken_snoc bt_ok_remove to_table_ok)

definition key_order :: "string list" where
  "key_order = [''id'', ''kind'', ''name'', ''host'', ''target'', ''bind_address'', ''bind_port'',
     ''destination_host'', ''destination_port'', ''tied'', ''autostart'', ''reconnect'']"

text \<open>The table after the first \<open>i\<close> keys were taken, in the order in which \<open>from_table\<close> takes them.\<close>

definition stage :: "tunnel \<Rightarrow> nat \<Rightarrow> table" where
  "stage t i = taken t (take i key_order)"

lemma key_order_distinct: "distinct key_order"
  by (simp add: key_order_def)

lemma stage_get:
  assumes "i < length key_order"
  shows "bt_get (stage t i) (lit (key_order ! i)) = bt_get (to_table t) (lit (key_order ! i))"
proof -
  have "key_order ! i \<notin> set (take i key_order)"
    using assms key_order_distinct by (auto simp: in_set_conv_nth nth_eq_iff_index_eq)
  then show ?thesis by (simp add: stage_def taken_get)
qed

lemma stage_Suc:
  "i < length key_order \<Longrightarrow> stage t (Suc i) = bt_remove (lit (key_order ! i)) (stage t i)"
  by (simp add: stage_def take_Suc_conv_app_nth taken_snoc)

lemma take_text_stage:
  assumes "i < length key_order" and "key_order ! i = n" and "text_ok v"
    and "bt_get (to_table t) (lit n) = Some (VString v) \<or> v = [] \<and> bt_get (to_table t) (lit n) = None"
  shows "take_text index (lit n) (stage t i, ws) = (v, stage t (Suc i), ws)"
  using assms(3,4) stage_get [OF assms(1), of t] stage_Suc [OF assms(1), of t]
  unfolding assms(2) by (auto simp: take_text_def text_ok_def)

lemma take_port_stage:
  assumes "i < length key_order" and "key_order ! i = n" and "v \<le> 65535"
    and "bt_get (to_table t) (lit n) = Some (VInteger (int v)) \<or> v = 0 \<and> bt_get (to_table t) (lit n) = None"
  shows "take_port index (lit n) (stage t i, ws) = (v, stage t (Suc i), ws)"
  using assms(3,4) stage_get [OF assms(1), of t] stage_Suc [OF assms(1), of t]
  unfolding assms(2) by (auto simp: take_port_def)

lemma take_flag_stage:
  assumes "i < length key_order" and "key_order ! i = n"
    and "bt_get (to_table t) (lit n) = Some (VBoolean v)"
  shows "take_flag index (lit n) d (stage t i, ws) = (v, stage t (Suc i), ws)"
  using assms(3) stage_get [OF assms(1), of t] stage_Suc [OF assms(1), of t]
  unfolding assms(2) by (auto simp: take_flag_def)

lemma extra_left:
  assumes "bt_ok (tn_extra t)" and "list_all (\<lambda>k. bt_get (tn_extra t) k = None) known_keys"
  shows "taken t key_order = tn_extra t"
proof (rule bt_ext)
  show "bt_ok (taken t key_order)" using assms(1) by (rule taken_ok)
  have keys: "lit ` set key_order = set known_keys" by (auto simp: key_order_def known_keys_def)
  have "bt_get (taken t key_order) k = bt_get (tn_extra t) k" for k
  proof (cases "k \<in> set known_keys")
    case True
    then obtain n where "k = lit n" "n \<in> set key_order" using keys by blast
    then show ?thesis using True assms(2) by (simp add: taken_get list_all_iff)
  next
    case False
    then show ?thesis
      using taken_other [of k key_order t] keys by (simp add: to_table_get known_keys_def)
  qed
  then show "bt_get (taken t key_order) = bt_get (tn_extra t)" by blast
qed (rule assms(1))

lemma tunnel_problem_stored: "tunnel_problem (stored t) = tunnel_problem t"
  by (auto simp: stored_def tunnel_problem_def)

lemma from_to_table:
  assumes "tunnel_ok t"
  shows "from_table (to_table t) index ws = (Some (stored t), ws)"
proof -
  note ok = assms [unfolded tunnel_ok_def]
  have absent: "bt_get (tn_extra t) (lit ''name'') = None" "bt_get (tn_extra t) (lit ''host'') = None"
    "bt_get (tn_extra t) (lit ''target'') = None" "bt_get (tn_extra t) (lit ''destination_host'') = None"
    "bt_get (tn_extra t) (lit ''destination_port'') = None"
    using ok by (simp_all add: list_all_iff known_keys_def)
  let ?host = "tn_destination_host (stored t)" and ?port = "tn_destination_port (stored t)"
  have texts: "text_ok (tn_id t)" "text_ok (tn_name t)" "text_ok (tn_host t)" "text_ok (tn_target t)"
    "text_ok (tn_bind_address t)" "text_ok ?host" "tn_bind_port t \<le> 65535" "?port \<le> 65535"
    using ok by (simp_all add: stored_def)
  have first: "to_table t = stage t 0" by (simp add: stage_def taken_Nil)
  have left: "stage t 12 = tn_extra t"
    using extra_left [of t] ok by (simp add: stage_def key_order_def)
  note written = key_order_def to_table_get absent stored_def
  have s0: "take_text index (lit ''id'') (stage t 0, ws) = (tn_id t, stage t 1, ws)"
    using take_text_stage [of 0 "''id''" "tn_id t" t index ws] texts by (simp add: written)
  have s1: "take_text index (lit ''kind'') (stage t 1, ws) = (kind_as_str (tn_kind t), stage t 2, ws)"
    using take_text_stage [of 1 "''kind''" "kind_as_str (tn_kind t)" t index ws] text_ok_kind by (simp add: written numeral_2_eq_2)
  have s2: "take_text index (lit ''name'') (stage t 2, ws) = (tn_name t, stage t 3, ws)"
    using take_text_stage [of 2 "''name''" "tn_name t" t index ws] texts by (simp add: written)
  have s3: "take_text index (lit ''host'') (stage t 3, ws) = (tn_host t, stage t 4, ws)"
    using take_text_stage [of 3 "''host''" "tn_host t" t index ws] texts by (simp add: written)
  have s4: "take_text index (lit ''target'') (stage t 4, ws) = (tn_target t, stage t 5, ws)"
    using take_text_stage [of 4 "''target''" "tn_target t" t index ws] texts by (simp add: written)
  have s5: "take_text index (lit ''bind_address'') (stage t 5, ws) = (tn_bind_address t, stage t 6, ws)"
    using take_text_stage [of 5 "''bind_address''" "tn_bind_address t" t index ws] texts by (simp add: written)
  have s6: "take_port index (lit ''bind_port'') (stage t 6, ws) = (tn_bind_port t, stage t 7, ws)"
    using take_port_stage [of 6 "''bind_port''" "tn_bind_port t" t index ws] texts by (simp add: written)
  have s7: "take_text index (lit ''destination_host'') (stage t 7, ws) = (?host, stage t 8, ws)"
    using take_text_stage [of 7 "''destination_host''" "?host" t index ws] texts by (simp add: written)
  have s8: "take_port index (lit ''destination_port'') (stage t 8, ws) = (?port, stage t 9, ws)"
    using take_port_stage [of 8 "''destination_port''" "?port" t index ws] texts by (simp add: written)
  have s9: "take_flag index (lit ''tied'') False (stage t 9, ws) = (tn_tied t, stage t 10, ws)"
    using take_flag_stage [of 9 "''tied''" t "tn_tied t" index False ws] texts by (simp add: written)
  have s10: "take_flag index (lit ''autostart'') False (stage t 10, ws) = (tn_autostart t, stage t 11, ws)"
    using take_flag_stage [of 10 "''autostart''" t "tn_autostart t" index False ws] texts by (simp add: written)
  have s11: "take_flag index (lit ''reconnect'') True (stage t 11, ws) = (tn_reconnect t, stage t 12, ws)"
    using take_flag_stage [of 11 "''reconnect''" t "tn_reconnect t" index True ws] texts by (simp add: written)
  have present: "bt_get (stage t 5) (lit ''bind_address'') \<noteq> None"
    using stage_get [of 5 t] by (simp add: written)
  have problem: "tunnel_problem (stored t) = None" using ok tunnel_problem_stored by simp
  have eta: "\<lparr>tn_id = tn_id t, tn_name = tn_name t, tn_kind = tn_kind t, tn_host = tn_host t,
      tn_target = tn_target t, tn_bind_address = tn_bind_address t, tn_bind_port = tn_bind_port t,
      tn_destination_host = ?host, tn_destination_port = ?port, tn_tied = tn_tied t,
      tn_autostart = tn_autostart t, tn_reconnect = tn_reconnect t, tn_extra = tn_extra t\<rparr> = stored t"
    by (simp add: stored_def)
  show ?thesis
    using ok present
    by (simp add: from_table_def first s0 s1 s2 s3 s4 s5 s6 s7 s8 s9 s10 s11 kind_parse_as_str left eta problem
        del: One_nat_def)
qed

subsection \<open>The file\<close>

definition file_ok :: "tunnels_file \<Rightarrow> bool" where
  "file_ok f \<longleftrightarrow> list_all tunnel_ok (tf_tunnels f) \<and> distinct (map tn_id (tf_tunnels f)) \<and>
     bt_ok (tf_extra f) \<and> bt_get (tf_extra f) (lit ''schema_version'') = None \<and>
     bt_get (tf_extra f) (lit ''tunnel'') = None"

definition file_table :: "tunnels_file \<Rightarrow> table" where
  "file_table f =
     bt_insert (lit ''tunnel'') (VArray (map (\<lambda>t. VTable (to_table t)) (tf_tunnels f)))
       (bt_insert (lit ''schema_version'') (VInteger SCHEMA_VERSION) (tf_extra f))"

lemma stored_id [simp]: "tn_id (stored t) = tn_id t"
  by (simp add: stored_def)

lemma read_written_entries:
  assumes "list_all tunnel_ok ts" and "distinct (map tn_id (seen @ ts))"
  shows "read_entries index (map (\<lambda>t. VTable (to_table t)) ts) seen ws = (seen @ map stored ts, ws)"
  using assms
proof (induction ts arbitrary: index seen)
  case (Cons t ts)
  have "\<not> list_ex (\<lambda>s. tn_id s = tn_id t) seen" using Cons.prems(2) by (auto simp: list_ex_iff image_iff)
  moreover have "distinct (map tn_id ((seen @ [stored t]) @ ts))" using Cons.prems(2) by simp
  ultimately show ?case
    using Cons.IH [of "seen @ [stored t]" "Suc index"] Cons.prems(1) from_to_table by simp
qed simp

lemma file_table_rest:
  assumes "file_ok f"
  shows "bt_remove (lit ''tunnel'') (bt_remove (lit ''schema_version'') (file_table f)) = tf_extra f"
  by (rule bt_ext)
     (use assms in \<open>auto simp: file_ok_def file_table_def bt_ok_remove bt_ok_insert bt_get_remove bt_get_insert fun_eq_iff\<close>)

text \<open>
  what is written to \<open>tunnels.toml\<close> is read back: every usable tunnel comes back with all its
  settings and unknown keys, in order and with no warning (a dynamic tunnel without the
  destination it does not have), and so do the unknown keys of the file. The toml crate reads
  back the table that it printed under the header.
\<close>

theorem tunnels_file_roundtrip:
  assumes "file_ok f"
    and "tt_parse toml (HEADER @ [10] @ tt_show toml (file_table f)) = Inr (file_table f)"
  shows "from_toml_str toml (to_toml_string toml f) =
    (\<lparr>tf_tunnels = map stored (tf_tunnels f), tf_extra = tf_extra f, tf_read_only = False\<rparr>, [])"
proof -
  have out: "to_toml_string toml f = HEADER @ [10] @ tt_show toml (file_table f)"
    by (simp add: to_toml_string_def file_table_def)
  have get: "bt_get (file_table f) (lit ''schema_version'') = Some (VInteger SCHEMA_VERSION)"
    "bt_get (bt_remove (lit ''schema_version'') (file_table f)) (lit ''tunnel'') =
       Some (VArray (map (\<lambda>t. VTable (to_table t)) (tf_tunnels f)))"
    by (simp_all add: file_table_def bt_get_insert bt_get_remove)
  have "read_entries 0 (map (\<lambda>t. VTable (to_table t)) (tf_tunnels f)) [] [] = (map stored (tf_tunnels f), [])"
    using read_written_entries [of "tf_tunnels f" "[]" 0 "[]"] assms(1) by (simp add: file_ok_def)
  then show ?thesis
    using assms(2) get file_table_rest [OF assms(1)] by (simp add: out from_toml_str_def)
qed

definition sample_tunnel :: tunnel where
  "sample_tunnel = \<lparr>tn_id = lit ''01J'', tn_name = lit ''db'', tn_kind = KLocal, tn_host = lit ''h'',
     tn_target = [], tn_bind_address = lit ''127.0.0.1'', tn_bind_port = 5432,
     tn_destination_host = lit ''db.internal'', tn_destination_port = 5432, tn_tied = False,
     tn_autostart = True, tn_reconnect = True, tn_extra = [(lit ''colour'', VInteger 3)]\<rparr>"

definition sample_tunnels :: tunnels_file where
  "sample_tunnels = \<lparr>tf_tunnels = [sample_tunnel], tf_extra = [], tf_read_only = False\<rparr>"

lemma sample_tunnels_ok: "file_ok sample_tunnels"
  by (simp add: file_ok_def sample_tunnels_def sample_tunnel_def tunnel_ok_def text_ok_def byte_len_def
      utf8_len_def lit_def MAX_TEXT_def trim_def is_whitespace_def is_control_def tunnel_problem_def
      valid_address_def known_keys_def bt_ok_def)

theorem tunnels_file_roundtrip_witness:
  "from_toml_str \<lparr>tt_parse = \<lambda>_. Inr (file_table sample_tunnels), tt_show = \<lambda>_. []\<rparr>
     (to_toml_string \<lparr>tt_parse = \<lambda>_. Inr (file_table sample_tunnels), tt_show = \<lambda>_. []\<rparr> sample_tunnels) =
   (\<lparr>tf_tunnels = [sample_tunnel], tf_extra = [], tf_read_only = False\<rparr>, [])"
  using tunnels_file_roundtrip [OF sample_tunnels_ok,
      where toml = "\<lparr>tt_parse = \<lambda>_. Inr (file_table sample_tunnels), tt_show = \<lambda>_. []\<rparr>"]
  by (simp add: sample_tunnels_def sample_tunnel_def stored_def)

subsection \<open>An address that is ignored\<close>

definition bad_bind_table :: table where
  "bad_bind_table = [(lit ''bind_address'', VInteger 5), (lit ''host'', VString (lit ''h'')),
     (lit ''id'', VString (lit ''01J'')), (lit ''kind'', VString (lit ''dynamic''))]"

text \<open>
  a \<open>bind_address\<close> of the wrong type (or too long) is reported as ignored, but the tunnel does not
  get the address that a missing key gives, \<open>127.0.0.1\<close>: it gets the empty address, and listens on
  every interface of this computer.
\<close>

theorem ignored_bind_address_listens_everywhere:
  "snd (from_table bad_bind_table 0 []) =
     [warn 0 (lit ''bind_address'') (lit ''expected a string, found integer'')] \<and>
   map_option forward_of (fst (from_table bad_bind_table 0 [])) =
     Some (FDynamic \<lparr>ep_host = lit ''0.0.0.0'', ep_port = 0\<rparr>) \<and>
   map_option forward_of (fst (from_table (bt_remove (lit ''bind_address'') bad_bind_table) 0 [])) =
     Some (FDynamic \<lparr>ep_host = lit ''127.0.0.1'', ep_port = 0\<rparr>)"
  by (simp add: from_table_def bad_bind_table_def take_text_def take_port_def take_flag_def bt_remove_def
      bt_retain_def byte_len_def utf8_len_def MAX_TEXT_def trim_def is_whitespace_def is_control_def
      kind_parse_def tunnel_problem_def valid_address_def DEFAULT_BIND_def forward_of_def unbracketed_def
      strip_prefix_def lit_def)

subsection \<open>What can be read\<close>

lemma byte_len_append: "byte_len (a @ b) = byte_len a + byte_len b"
  by (simp add: byte_len_def)

lemma byte_len_trim: "byte_len (trim s) \<le> byte_len s"
proof -
  have drop: "byte_len (dropWhile P x) \<le> byte_len x" for P x
    by (metis byte_len_append le_add2 takeWhile_dropWhile_id)
  have rev: "byte_len (rev x) = byte_len x" for x
    by (induction x) (simp_all add: byte_len_def)
  show ?thesis unfolding trim_def by (metis drop rev le_trans)
qed

lemma take_textD:
  "take_text i n r = (v, r') \<Longrightarrow> text_ok v \<and> fst r' = bt_remove n (fst r)"
  using byte_len_trim
  by (auto simp: take_text_def text_ok_def Let_def byte_len_def trim_def [of "[]"] split: option.splits toml_value.splits if_splits
      intro: le_trans)

lemma take_portD: "take_port i n r = (v, r') \<Longrightarrow> v \<le> 65535 \<and> fst r' = bt_remove n (fst r)"
  by (auto simp: take_port_def Let_def split: option.splits toml_value.splits if_splits)

lemma take_flagD: "take_flag i n d r = (v, r') \<Longrightarrow> fst r' = bt_remove n (fst r)"
  by (auto simp: take_flag_def Let_def split: option.splits toml_value.splits if_splits)

lemma take_bindD:
  assumes "(if bt_get (fst r) n \<noteq> None then take_text i n r else (DEFAULT_BIND, r)) = (v, r')"
    and "bt_ok (fst r)"
  shows "text_ok v \<and> bt_ok (fst r') \<and> bt_get (fst r') = (bt_get (fst r))(n := None)"
proof (cases "bt_get (fst r) n = None")
  case True
  moreover have "text_ok DEFAULT_BIND"
    by (simp add: text_ok_def DEFAULT_BIND_def byte_len_def utf8_len_def MAX_TEXT_def trim_def lit_def is_whitespace_def)
  ultimately show ?thesis using assms by (auto simp: fun_upd_idem)
next
  case False
  then show ?thesis using assms take_textD [of i n r v r'] by (auto simp: bt_ok_remove bt_get_remove)
qed

text \<open>
  whatever table stands in the file, a tunnel that is read from it is usable: it has no problem,
  its id and texts are within bounds and trimmed, its ports are ports, and its unknown keys are
  apart from the known ones.
\<close>

theorem read_tunnel_usable:
  assumes "bt_ok table" and "from_table table index ws = (Some t, ws')"
  shows "tunnel_ok t"
proof -
  obtain id r0 where e0: "take_text index (lit ''id'') (table, ws) = (id, r0)" by (rule prod.exhaust)
  obtain kt r1 where e1: "take_text index (lit ''kind'') r0 = (kt, r1)" by (rule prod.exhaust)
  obtain name r2 where e2: "take_text index (lit ''name'') r1 = (name, r2)" by (rule prod.exhaust)
  obtain host r3 where e3: "take_text index (lit ''host'') r2 = (host, r3)" by (rule prod.exhaust)
  obtain target r4 where e4: "take_text index (lit ''target'') r3 = (target, r4)" by (rule prod.exhaust)
  obtain ba r5 where e5: "(if bt_get (fst r4) (lit ''bind_address'') \<noteq> None
      then take_text index (lit ''bind_address'') r4 else (DEFAULT_BIND, r4)) = (ba, r5)" by (rule prod.exhaust)
  obtain bp r6 where e6: "take_port index (lit ''bind_port'') r5 = (bp, r6)" by (rule prod.exhaust)
  obtain dh r7 where e7: "take_text index (lit ''destination_host'') r6 = (dh, r7)" by (rule prod.exhaust)
  obtain dp r8 where e8: "take_port index (lit ''destination_port'') r7 = (dp, r8)" by (rule prod.exhaust)
  obtain ti r9 where e9: "take_flag index (lit ''tied'') False r8 = (ti, r9)" by (rule prod.exhaust)
  obtain au r10 where e10: "take_flag index (lit ''autostart'') False r9 = (au, r10)" by (rule prod.exhaust)
  obtain re r11 where e11: "take_flag index (lit ''reconnect'') True r10 = (re, r11)" by (rule prod.exhaust)
  have id: "id \<noteq> []" "\<not> list_ex is_control id"
    using assms(2) by (auto simp: from_table_def e0 split: if_splits)
  obtain kind where kind: "kind_parse kt = Some kind"
    using assms(2) id by (auto simp: from_table_def e0 e1 split: option.splits)
  define u where "u = \<lparr>tn_id = id, tn_name = name, tn_kind = kind, tn_host = host, tn_target = target,
      tn_bind_address = ba, tn_bind_port = bp, tn_destination_host = dh, tn_destination_port = dp,
      tn_tied = ti, tn_autostart = au, tn_reconnect = re, tn_extra = fst r11\<rparr>"
  have result: "from_table table index ws =
      (case tunnel_problem u of
         Some problem \<Rightarrow> (None, snd r11 @ [warn index [] (problem @ lit ''; the tunnel is skipped'')])
       | None \<Rightarrow> (Some u, snd r11))"
    unfolding from_table_def e0 Let_def split e1 e2 e3 e4 e5 e6 e7 e8 e9 e10 e11 u_def
    using id kind by simp
  then have t: "t = u" "tunnel_problem u = None" using assms(2) by (auto split: option.splits)
  note texts = take_textD [OF e0, THEN conjunct1] take_textD [OF e2, THEN conjunct1]
    take_textD [OF e3, THEN conjunct1] take_textD [OF e4, THEN conjunct1] take_textD [OF e7, THEN conjunct1]
    take_portD [OF e6, THEN conjunct1] take_portD [OF e8, THEN conjunct1]
  note tables1 = take_textD [OF e0, THEN conjunct2] take_textD [OF e1, THEN conjunct2]
    take_textD [OF e2, THEN conjunct2] take_textD [OF e3, THEN conjunct2] take_textD [OF e4, THEN conjunct2]
  note tables2 = take_portD [OF e6, THEN conjunct2] take_textD [OF e7, THEN conjunct2]
    take_portD [OF e8, THEN conjunct2] take_flagD [OF e9] take_flagD [OF e10] take_flagD [OF e11]
  have "bt_ok (fst r4)" unfolding tables1 using assms(1) by (simp add: bt_ok_remove)
  note bind = take_bindD [OF e5 this]
  have ok: "bt_ok (fst r11)" unfolding tables2 using bind by (simp add: bt_ok_remove)
  have first: "\<forall>k \<in> lit ` {''id'', ''kind'', ''name'', ''host'', ''target''}. bt_get (fst r4) k = None"
    unfolding tables1 by (simp add: bt_get_remove_at)
  have "\<forall>k \<in> lit ` {''id'', ''kind'', ''name'', ''host'', ''target'', ''bind_address''}. bt_get (fst r5) k = None"
    using bind first by simp
  then have "list_all (\<lambda>k. bt_get (fst r11) k = None) known_keys"
    unfolding tables2 by (simp add: known_keys_def bt_get_remove_at)
  then show ?thesis
    using texts bind ok id t by (simp add: tunnel_ok_def u_def)
qed

theorem read_tunnel_usable_witness: "tunnel_ok (stored sample_tunnel)"
proof (rule read_tunnel_usable)
  have ok: "tunnel_ok sample_tunnel" using sample_tunnels_ok by (simp add: file_ok_def sample_tunnels_def)
  then show "from_table (to_table sample_tunnel) 0 [] = (Some (stored sample_tunnel), [])"
    by (rule from_to_table)
  show "bt_ok (to_table sample_tunnel)" using ok by (intro to_table_ok) (simp add: tunnel_ok_def)
qed

end
