(* ===== verification/Utf8.thy ===== *)
theory Utf8
  imports Prelude
begin

text \<open>
  UTF-8 as the standard library has it, for the components that write texts as bytes or read them
  back: the encoding, \<open>String::from_utf8_lossy\<close> and \<open>str::from_utf8\<close>, and that a text comes back.
\<close>

text \<open>A character in UTF-8.\<close>

definition utf8_char :: "uchar \<Rightarrow> bytes" where
  "utf8_char c =
     (if c < 128 then [word_of_nat c]
      else if c < 2048 then [word_of_nat (192 + c div 64), word_of_nat (128 + c mod 64)]
      else if c < 65536
      then [word_of_nat (224 + c div 4096), word_of_nat (128 + c div 64 mod 64), word_of_nat (128 + c mod 64)]
      else [word_of_nat (240 + c div 262144), word_of_nat (128 + c div 4096 mod 64),
            word_of_nat (128 + c div 64 mod 64), word_of_nat (128 + c mod 64)])"

definition utf8 :: "str \<Rightarrow> bytes" where
  "utf8 s = concat (map utf8_char s)"

text \<open>\<open>String::from_utf8_lossy\<close>: the longest start of a character that cannot go on is one U+FFFD.\<close>

definition cont :: "byte \<Rightarrow> bool" where
  "cont b \<longleftrightarrow> 128 \<le> b \<and> b < 192"

definition second_ok :: "byte \<Rightarrow> byte \<Rightarrow> bool" where
  "second_ok a b \<longleftrightarrow>
     (if a = 224 then 160 \<le> b \<and> b < 192
      else if a = 237 then 128 \<le> b \<and> b < 160
      else if a = 240 then 144 \<le> b \<and> b < 192
      else if a = 244 then 128 \<le> b \<and> b < 144
      else cont b)"

definition low6 :: "byte \<Rightarrow> nat" where
  "low6 b = unat b mod 64"

fun from_utf8_lossy :: "bytes \<Rightarrow> str" where
  "from_utf8_lossy [] = []"
| "from_utf8_lossy (a # bs) =
     (if a < 128 then unat a # from_utf8_lossy bs
      else if 194 \<le> a \<and> a < 224 then
        (case bs of
           b # bs' \<Rightarrow>
             if cont b then (unat a mod 32 * 64 + low6 b) # from_utf8_lossy bs'
             else 65533 # from_utf8_lossy bs
         | [] \<Rightarrow> [65533])
      else if 224 \<le> a \<and> a < 240 then
        (case bs of
           b # bs' \<Rightarrow>
             if second_ok a b then
               (case bs' of
                  c # bs'' \<Rightarrow>
                    if cont c
                    then (unat a mod 16 * 4096 + low6 b * 64 + low6 c) # from_utf8_lossy bs''
                    else 65533 # from_utf8_lossy bs'
                | [] \<Rightarrow> [65533])
             else 65533 # from_utf8_lossy bs
         | [] \<Rightarrow> [65533])
      else if 240 \<le> a \<and> a < 245 then
        (case bs of
           b # bs' \<Rightarrow>
             if second_ok a b then
               (case bs' of
                  c # bs'' \<Rightarrow>
                    if cont c then
                      (case bs'' of
                         d # bs''' \<Rightarrow>
                           if cont d
                           then (unat a mod 8 * 262144 + low6 b * 4096 + low6 c * 64 + low6 d) #
                                from_utf8_lossy bs'''
                           else 65533 # from_utf8_lossy bs''
                       | [] \<Rightarrow> [65533])
                    else 65533 # from_utf8_lossy bs'
                | [] \<Rightarrow> [65533])
             else 65533 # from_utf8_lossy bs
         | [] \<Rightarrow> [65533])
      else 65533 # from_utf8_lossy bs)"

declare from_utf8_lossy.simps(2) [simp del]

lemma length_utf8_char: "length (utf8_char c) = utf8_len c"
  by (simp add: utf8_char_def utf8_len_def)

lemma length_utf8: "length (utf8 s) = byte_len s"
  by (induction s) (simp_all add: length_utf8_char byte_len_def utf8_def)

lemma utf8_simps [simp]: "utf8 [] = []" "utf8 (c # cs) = utf8_char c @ utf8 cs" "utf8 (a @ b) = utf8 a @ utf8 b"
  by (simp_all add: utf8_def)

lemma utf8_ascii: "c < 128 \<Longrightarrow> utf8_char c = [word_of_nat c]"
  by (simp add: utf8_char_def)

text \<open>\<open>str::from_utf8\<close>: a text whose encoding is those bytes.\<close>

definition from_utf8 :: "bytes \<Rightarrow> str option" where
  "from_utf8 bs = (if utf8 (from_utf8_lossy bs) = bs then Some (from_utf8_lossy bs) else None)"

text \<open>The scalar values: the code points a \<open>char\<close> can have.\<close>

definition scalar :: "uchar \<Rightarrow> bool" where
  "scalar c \<longleftrightarrow> c < 55296 \<or> 57344 \<le> c \<and> c < 1114112"

lemma unat_of_nat_byte: "n < 256 \<Longrightarrow> unat (word_of_nat n :: byte) = n"
  by (simp add: unat_of_nat take_bit_nat_def)

text \<open>The tests of the decoder as tests of numbers.\<close>

lemma cont_unat: "cont b \<longleftrightarrow> 128 \<le> unat b \<and> unat b < 192"
  by (simp add: cont_def word_le_nat_alt word_less_nat_alt)

lemma second_ok_unat:
  "second_ok a b \<longleftrightarrow>
     (if unat a = 224 then 160 \<le> unat b \<and> unat b < 192
      else if unat a = 237 then 128 \<le> unat b \<and> unat b < 160
      else if unat a = 240 then 144 \<le> unat b \<and> unat b < 192
      else if unat a = 244 then 128 \<le> unat b \<and> unat b < 144
      else 128 \<le> unat b \<and> unat b < 192)"
  by (simp add: second_ok_def cont_unat word_le_nat_alt word_less_nat_alt word_unat_eq_iff)

lemmas byte_tests = cont_unat second_ok_unat low6_def word_le_nat_alt word_less_nat_alt unat_of_nat_byte

lemma lossy2:
  assumes "unat a = 192 + p" "2 \<le> p" "p < 32" "unat b = 128 + q" "q < 64"
  shows "from_utf8_lossy (a # b # bs) = (p * 64 + q) # from_utf8_lossy bs"
  using assms by (simp add: from_utf8_lossy.simps(2) byte_tests mod_add_left_eq [symmetric])

lemma lossy3:
  assumes "unat a = 224 + p" "p < 16" "unat b = 128 + q" "q < 64" "unat c = 128 + r" "r < 64"
    and "second_ok a b"
  shows "from_utf8_lossy (a # b # c # bs) = (p * 4096 + q * 64 + r) # from_utf8_lossy bs"
  using assms by (simp add: from_utf8_lossy.simps(2) byte_tests(1,3-5) mod_add_left_eq [symmetric])

lemma lossy4:
  assumes "unat a = 240 + p" "p < 5" "unat b = 128 + q" "q < 64" "unat c = 128 + r" "r < 64"
    and "unat d = 128 + t" "t < 64" and "second_ok a b"
  shows "from_utf8_lossy (a # b # c # d # bs) = (p * 262144 + q * 4096 + r * 64 + t) # from_utf8_lossy bs"
  using assms by (simp add: from_utf8_lossy.simps(2) byte_tests(1,3-5) mod_add_left_eq [symmetric])

text \<open>A number in groups of six bits.\<close>

lemma sextets:
  fixes c :: nat
  shows "c div 4096 * 4096 + c div 64 mod 64 * 64 + c mod 64 = c"
    and "c div 262144 * 262144 + c div 4096 mod 64 * 4096 + c div 64 mod 64 * 64 + c mod 64 = c"
proof -
  have d: "c div 4096 = c div 64 div 64" "c div 262144 = c div 4096 div 64"
    by (simp_all add: div_mult2_eq [symmetric])
  note m = div_mult_mod_eq [of c 64] div_mult_mod_eq [of "c div 64" 64] div_mult_mod_eq [of "c div 4096" 64]
  show "c div 4096 * 4096 + c div 64 mod 64 * 64 + c mod 64 = c" using d(1) m(1,2) by linarith
  then show "c div 262144 * 262144 + c div 4096 mod 64 * 4096 + c div 64 mod 64 * 64 + c mod 64 = c"
    using d(2) m(3) by linarith
qed

lemma mod_in_block:
  fixes m k n b :: nat
  assumes "m * k \<le> n" and "n < m * k + b" and "b \<le> m"
  shows "n mod m < b"
proof -
  obtain r where "n = m * k + r" using assms(1) le_Suc_ex by blast
  then show ?thesis using assms(2,3) by simp
qed

lemma unat_cont: "unat (word_of_nat (128 + n mod 64) :: byte) = 128 + n mod 64"
  by (rule unat_of_nat_byte) simp

text \<open>The second byte of an encoded character is one that its first byte allows.\<close>

lemma second_ok3:
  assumes "scalar c" and "2048 \<le> c" and "c < 65536"
    and a: "unat (a :: byte) = 224 + c div 4096"
  shows "second_ok a (word_of_nat (128 + c div 64 mod 64))"
proof -
  have "c div 4096 = 0 \<Longrightarrow> 32 \<le> c div 64 mod 64" using assms(2) by simp
  moreover have "c div 64 mod 64 < 32" if "c div 4096 = 13"
  proof -
    have "c < 57344" "53248 \<le> c" using that by linarith+
    then have "c < 55296" using assms(1) by (simp add: scalar_def)
    then show ?thesis using \<open>53248 \<le> c\<close> by (intro mod_in_block [where k = 13]) auto
  qed
  ultimately show ?thesis using assms(2,3) unfolding second_ok_unat a unat_cont by auto
qed

lemma second_ok4:
  assumes "65536 \<le> c" and "c < 1114112" and a: "unat (a :: byte) = 240 + c div 262144"
  shows "second_ok a (word_of_nat (128 + c div 4096 mod 64))"
proof -
  have "c div 262144 = 0 \<Longrightarrow> 16 \<le> c div 4096 mod 64" using assms(1) by simp
  moreover have "c div 4096 mod 64 < 16" if "c div 262144 = 4"
    using that assms(2) by (intro mod_in_block [where k = 4]) auto
  ultimately show ?thesis using assms(1) unfolding second_ok_unat a unat_cont by auto
qed

lemma from_utf8_lossy_char:
  assumes "scalar c"
  shows "from_utf8_lossy (utf8_char c @ bs) = c # from_utf8_lossy bs"
proof -
  consider "c < 128" | "128 \<le> c" "c < 2048" | "2048 \<le> c" "c < 65536" | "65536 \<le> c" "c < 1114112"
    using assms unfolding scalar_def by linarith
  then show ?thesis
  proof cases
    case 1
    then show ?thesis by (simp add: utf8_char_def from_utf8_lossy.simps(2) byte_tests)
  next
    case 2
    have "unat (word_of_nat (192 + c div 64) :: byte) = 192 + c div 64"
      by (rule unat_of_nat_byte) (use 2 in simp)
    with 2 show ?thesis by (simp add: utf8_char_def lossy2 unat_cont del: of_nat_add)
  next
    case 3
    have a: "unat (word_of_nat (224 + c div 4096) :: byte) = 224 + c div 4096"
      by (rule unat_of_nat_byte) (use 3 in simp)
    with second_ok3 [OF assms 3 a] sextets(1) [of c] 3 show ?thesis
      by (simp add: utf8_char_def lossy3 unat_cont del: of_nat_add)
  next
    case 4
    have a: "unat (word_of_nat (240 + c div 262144) :: byte) = 240 + c div 262144"
      by (rule unat_of_nat_byte) (use 4 in simp)
    have "c div 262144 < 5" using 4 by simp
    with a second_ok4 [OF 4 a] sextets(2) [of c] 4 show ?thesis
      by (simp add: utf8_char_def lossy4 unat_cont del: of_nat_add)
  qed
qed

lemma from_utf8_lossy_utf8: "list_all scalar s \<Longrightarrow> from_utf8_lossy (utf8 s) = s"
  by (induction s) (simp_all add: from_utf8_lossy_char)

lemma from_utf8_utf8: "list_all scalar s \<Longrightarrow> from_utf8 (utf8 s) = Some s"
  by (simp add: from_utf8_def from_utf8_lossy_utf8)

text \<open>A byte below 128 is a character of its own.\<close>

lemma utf8_char_low: "b \<in> set (utf8_char c) \<Longrightarrow> scalar c \<Longrightarrow> unat b < 128 \<Longrightarrow> c = unat b"
proof -
  assume b: "b \<in> set (utf8_char c)" "unat b < 128" "scalar c"
  have hi: "128 \<le> unat (word_of_nat (128 + n mod 64) :: byte)" for n by (simp only: unat_cont)
  have lead: "128 \<le> unat (word_of_nat n :: byte)" if "128 \<le> n" "n < 256" for n using that by (simp only: unat_of_nat_byte)
  have "c < 1114112" using b(3) by (auto simp: scalar_def)
  then have l: "c < 2048 \<Longrightarrow> 192 + c div 64 < 256" "c < 65536 \<Longrightarrow> 224 + c div 4096 < 256" "240 + c div 262144 < 256"
    by simp_all
  show ?thesis
    using b hi [of c] hi [of "c div 64"] hi [of "c div 4096"] lead [of "192 + c div 64"] lead [of "224 + c div 4096"]
      lead [of "240 + c div 262144"] l
    by (auto simp: utf8_char_def unat_of_nat_byte simp del: of_nat_add split: if_splits)
qed

text \<open>What the decoder gives are scalar values.\<close>

lemma scalar3:
  assumes "224 \<le> unat a" and "unat a < 240" and "second_ok a b"
  shows "scalar (unat a mod 16 * 4096 + low6 b * 64 + low6 c)"
proof -
  obtain p where p: "unat a = 224 + p" "p < 16" using assms(1,2) le_Suc_ex by fastforce
  have l: "low6 b < 64" "low6 c < 64" by (simp_all add: low6_def)
  have m: "unat a mod 16 = p" using p by (simp add: mod_add_left_eq [symmetric])
  have s: "low6 b < 32" if "p = 13"
  proof -
    have "128 \<le> unat b" "unat b < 160" using assms(3) p that by (simp_all add: second_ok_unat)
    then show ?thesis unfolding low6_def by (intro mod_in_block [where k = 2]) auto
  qed
  consider "p < 13" | "p = 13" | "14 \<le> p" by linarith
  then show ?thesis unfolding m scalar_def using l s p(2) by cases linarith+
qed

lemma scalar4:
  assumes "240 \<le> unat a" and "unat a < 245" and "second_ok a b"
  shows "scalar (unat a mod 8 * 262144 + low6 b * 4096 + low6 c * 64 + low6 d)"
proof -
  obtain p where p: "unat a = 240 + p" "p < 5" using assms(1,2) le_Suc_ex by fastforce
  have l: "low6 b < 64" "low6 c < 64" "low6 d < 64" by (simp_all add: low6_def)
  have m: "unat a mod 8 = p" using p by (simp add: mod_add_left_eq [symmetric])
  have s: "low6 b < 16" if "p = 4"
  proof -
    have "128 \<le> unat b" "unat b < 144" using assms(3) p that by (simp_all add: second_ok_unat)
    then show ?thesis unfolding low6_def by (intro mod_in_block [where k = 2]) auto
  qed
  have t: "16 \<le> low6 b" if "p = 0"
  proof -
    have "144 \<le> unat b" "unat b < 192" using assms(3) p that by (simp_all add: second_ok_unat)
    then obtain k where "unat b = 128 + k" "16 \<le> k" "k < 64" using le_Suc_ex [of 144 "unat b"] by auto
    then show ?thesis by (simp add: low6_def mod_add_left_eq [symmetric])
  qed
  consider "p = 0" | "0 < p" "p < 4" | "p = 4" using p by linarith
  then show ?thesis unfolding m scalar_def using l s t by cases linarith+
qed

lemma list_all_if: "(c \<Longrightarrow> list_all Q x) \<Longrightarrow> (\<not> c \<Longrightarrow> list_all Q y) \<Longrightarrow> list_all Q (if c then x else y)"
  by simp

lemma list_all_case:
  "(xs = [] \<Longrightarrow> list_all Q x) \<Longrightarrow> (\<And>b bs. xs = b # bs \<Longrightarrow> list_all Q (f b bs)) \<Longrightarrow>
   list_all Q (case xs of [] \<Rightarrow> x | b # bs \<Rightarrow> f b bs)"
  by (cases xs) auto

lemma list_all_ConsI: "Q x \<Longrightarrow> list_all Q xs \<Longrightarrow> list_all Q (x # xs)"
  by simp

lemma from_utf8_lossy_scalar: "list_all scalar (from_utf8_lossy bs)"
proof (induction "length bs" arbitrary: bs rule: less_induct)
  case less
  have r: "scalar 65533" by (simp add: scalar_def)
  show ?case
  proof (cases bs)
    case (Cons a s)
    have "unat a mod 32 * 64 + low6 b < 55296" for b
    proof -
      have "unat a mod 32 < 32" "low6 b < 64" by (simp_all add: low6_def)
      then show ?thesis by linarith
    qed
    then have two: "scalar (unat a mod 32 * 64 + low6 b)" for b by (simp add: scalar_def)
    have "unat a < 256" using unsigned_less [of a] by simp
    then have one: "scalar (unat a)" by (simp add: scalar_def)
    have IH: "list_all scalar (from_utf8_lossy x)" if "length x < length bs" for x using less that by blast
    have n: "224 \<le> a \<longleftrightarrow> 224 \<le> unat a" "a < 240 \<longleftrightarrow> unat a < 240" "240 \<le> a \<longleftrightarrow> 240 \<le> unat a" "a < 245 \<longleftrightarrow> unat a < 245"
      by (simp_all add: word_le_nat_alt word_less_nat_alt)
    show ?thesis
      unfolding Cons from_utf8_lossy.simps(2)
      by (intro list_all_if list_all_case list_all_ConsI;
          (rule r | rule one | rule two | rule scalar3; simp only: n | rule scalar4; simp only: n
            | rule IH; simp add: Cons | simp only: list.pred_inject))
  qed simp
qed

lemma from_utf8_scalar: "from_utf8 bs = Some s \<Longrightarrow> list_all scalar s \<and> utf8 s = bs"
  using from_utf8_lossy_scalar [of bs] by (auto simp: from_utf8_def split: if_splits)

end
