(* ===== verification/Socks.thy ===== *)
theory Socks
  imports Texts Utf8
begin

text \<open>
  The SOCKS5 server of dynamic forwarding (\<open>crates/opensesh-ssh/src/tunnel/socks.rs\<close>). The stream is
  what the client sent and has not been read, what was answered, and which of the writes to come
  fail; a read of more than is left fails, as it does when the connection closes. The texts of
  addresses are the standard library's: dotted decimal, RFC 5952 for IPv6, and \<open>from_utf8_lossy\<close>
  for a name.
\<close>

datatype socks_error = Version byte | NoMethod | Command byte | AddressType byte | Io

datatype socks_reply =
    Succeeded | GeneralFailure | NotAllowed | HostUnreachable | ConnectionRefused
  | CommandNotSupported | AddressTypeNotSupported

fun reply_code :: "socks_reply \<Rightarrow> byte" where
  "reply_code Succeeded = 0"
| "reply_code GeneralFailure = 1"
| "reply_code NotAllowed = 2"
| "reply_code HostUnreachable = 4"
| "reply_code ConnectionRefused = 5"
| "reply_code CommandNotSupported = 7"
| "reply_code AddressTypeNotSupported = 8"

record stream =
  incoming :: bytes
  sent :: bytes
  write_faults :: "bool list"

definition read_exact :: "nat \<Rightarrow> stream \<Rightarrow> (socks_error + bytes) \<times> stream" where
  "read_exact n s =
     (if length (incoming s) < n then (Inl Io, s\<lparr>incoming := []\<rparr>)
      else (Inr (take n (incoming s)), s\<lparr>incoming := drop n (incoming s)\<rparr>))"

definition write_all :: "bytes \<Rightarrow> stream \<Rightarrow> (socks_error + unit) \<times> stream" where
  "write_all bs s =
     (case write_faults s of
        True # fs \<Rightarrow> (Inl Io, s\<lparr>write_faults := fs\<rparr>)
      | False # fs \<Rightarrow> (Inr (), s\<lparr>write_faults := fs, sent := sent s @ bs\<rparr>)
      | [] \<Rightarrow> (Inr (), s\<lparr>sent := sent s @ bs\<rparr>))"

text \<open>Rust's \<open>?\<close> on the outcome of an operation of the stream.\<close>

definition sbind :: "(socks_error + 'a) \<times> stream \<Rightarrow> ('a \<Rightarrow> stream \<Rightarrow> (socks_error + 'b) \<times> stream) \<Rightarrow>
    (socks_error + 'b) \<times> stream" where
  "sbind m f = (case m of (Inl e, s) \<Rightarrow> (Inl e, s) | (Inr a, s) \<Rightarrow> f a s)"

subsection \<open>Addresses as text\<close>

definition ipv4_text :: "bytes \<Rightarrow> str" where
  "ipv4_text octets = join_with (lit ''.'') (map (\<lambda>b. decimal (unat b)) octets)"

fun hex :: "nat \<Rightarrow> str" where
  "hex n =
     (let digit = \<lambda>d. if d < 10 then 48 + d else 87 + d
      in if n < 16 then [digit n] else hex (n div 16) @ [digit (n mod 16)])"

declare hex.simps [simp del]

fun segments :: "bytes \<Rightarrow> nat list" where
  "segments (a # b # bs) = (256 * unat a + unat b) # segments bs"
| "segments _ = []"

text \<open>The longest run of zero segments, the first of them: its start and length.\<close>

fun zero_runs :: "nat \<Rightarrow> nat list \<Rightarrow> nat \<times> nat \<Rightarrow> nat \<times> nat \<Rightarrow> nat \<times> nat" where
  "zero_runs i [] current longest = longest"
| "zero_runs i (x # xs) current longest =
     (if x = 0 then
        let current = (if snd current = 0 then (i, 1) else (fst current, snd current + 1));
            longest = (if snd longest < snd current then current else longest)
        in zero_runs (i + 1) xs current longest
      else zero_runs (i + 1) xs (0, 0) longest)"

definition hextets :: "nat list \<Rightarrow> str" where
  "hextets xs = join_with (lit '':'') (map hex xs)"

definition ipv6_text :: "bytes \<Rightarrow> str" where
  "ipv6_text octets =
     (let segs = segments octets
      in if take 5 segs = [0, 0, 0, 0, 0] \<and> segs ! 5 = 65535
         then lit ''::ffff:'' @ ipv4_text (drop 12 octets)
         else case zero_runs 0 segs (0, 0) (0, 0) of
                (start, n) \<Rightarrow>
                  if n > 1 then hextets (take start segs) @ lit ''::'' @ hextets (drop (start + n) segs)
                  else hextets segs)"

subsection \<open>The server\<close>

definition socks_reply :: "socks_reply \<Rightarrow> stream \<Rightarrow> (socks_error + unit) \<times> stream" where
  "socks_reply r s = write_all [5, reply_code r, 0, 1, 0, 0, 0, 0, 0, 0] s"

text \<open>The \<open>match\<close> on the address type.\<close>

definition read_host :: "byte \<Rightarrow> stream \<Rightarrow> (socks_error + str) \<times> stream" where
  "read_host kind s =
     (if kind = 1 then sbind (read_exact 4 s) (\<lambda>octets s. (Inr (ipv4_text octets), s))
      else if kind = 3 then
        sbind (read_exact 1 s) (\<lambda>len s.
        sbind (read_exact (unat (hd len)) s) (\<lambda>name s. (Inr (from_utf8_lossy name), s)))
      else if kind = 4 then sbind (read_exact 16 s) (\<lambda>octets s. (Inr (ipv6_text octets), s))
      else sbind (socks_reply AddressTypeNotSupported s) (\<lambda>_ s. (Inl (AddressType kind), s)))"

definition socks_accept :: "stream \<Rightarrow> (socks_error + str \<times> nat) \<times> stream" where
  "socks_accept s =
     sbind (read_exact 2 s) (\<lambda>head s.
     if head ! 0 \<noteq> 5 then (Inl (Version (head ! 0)), s)
     else sbind (read_exact (unat (head ! 1)) s) (\<lambda>methods s.
     if 0 \<notin> set methods then sbind (write_all [5, 255] s) (\<lambda>_ s. (Inl NoMethod, s))
     else sbind (write_all [5, 0] s) (\<lambda>_ s.
     sbind (read_exact 4 s) (\<lambda>request s.
     if request ! 0 \<noteq> 5 then (Inl (Version (request ! 0)), s)
     else sbind (read_host (request ! 3) s) (\<lambda>host s.
     sbind (read_exact 2 s) (\<lambda>port s.
     if request ! 1 \<noteq> 1
     then sbind (socks_reply CommandNotSupported s) (\<lambda>_ s. (Inl (Command (request ! 1)), s))
     else (Inr (host, from_be port), s)))))))"

subsection \<open>Clients\<close>

text \<open>What a client sends: a greeting with its methods, and a request for an address.\<close>

datatype socks_address = V4 bytes | DomainName bytes | V6 bytes

fun address_ok :: "socks_address \<Rightarrow> bool" where
  "address_ok (V4 octets) = (length octets = 4)"
| "address_ok (DomainName name) = (length name < 256)"
| "address_ok (V6 octets) = (length octets = 16)"

fun encode_address :: "socks_address \<Rightarrow> bytes" where
  "encode_address (V4 octets) = 1 # octets"
| "encode_address (DomainName name) = 3 # word_of_nat (length name) # name"
| "encode_address (V6 octets) = 4 # octets"

fun address_text :: "socks_address \<Rightarrow> str" where
  "address_text (V4 octets) = ipv4_text octets"
| "address_text (DomainName name) = from_utf8_lossy name"
| "address_text (V6 octets) = ipv6_text octets"

definition greeting :: "bytes \<Rightarrow> bytes" where
  "greeting methods = 5 # word_of_nat (length methods) # methods"

definition request :: "byte \<Rightarrow> byte \<Rightarrow> socks_address \<Rightarrow> nat \<Rightarrow> bytes" where
  "request cmd reserved addr port = 5 # cmd # reserved # encode_address addr @ be16 port"

lemma sbind_simps [simp]: "sbind (Inl e, s) f = (Inl e, s)" "sbind (Inr a, s) f = f a s"
  by (simp_all add: sbind_def)

lemma read_exact_append [simp]:
  "length bs = n \<Longrightarrow> read_exact n (s\<lparr>incoming := bs @ rest\<rparr>) = (Inr bs, s\<lparr>incoming := rest\<rparr>)"
  by (simp add: read_exact_def)

lemma sbind_Inr:
  "sbind m f = (Inr b, s') \<Longrightarrow> \<exists>a s. m = (Inr a, s) \<and> f a s = (Inr b, s')"
  by (auto simp: sbind_def split: prod.splits sum.splits)

lemma read_exact_Inr:
  "read_exact n s = (Inr bs, s') \<Longrightarrow>
     length bs = n \<and> incoming s = bs @ incoming s' \<and> sent s' = sent s"
  by (auto simp: read_exact_def split: if_splits)

lemma write_all_Inr:
  "write_all bs s = (Inr u, s') \<Longrightarrow> sent s' = sent s @ bs \<and> incoming s' = incoming s"
  by (auto simp: write_all_def split: list.splits bool.splits)

lemma read_host_Inr:
  assumes "read_host kind s = (Inr host, s')"
  shows "kind \<in> {1, 3, 4} \<and> sent s' = sent s"
  using assms
  by (auto simp: read_host_def split: if_splits dest!: sbind_Inr read_exact_Inr)

lemma unat_length [simp]: "n < 256 \<Longrightarrow> unat (word_of_nat n :: byte) = n"
  by (simp add: unat_of_nat)

lemma read_exact_eq:
  "incoming s = bs @ rest \<Longrightarrow> length bs = n \<Longrightarrow> read_exact n s = (Inr bs, s\<lparr>incoming := rest\<rparr>)"
  by (simp add: read_exact_def)

lemma read_host_address:
  assumes "address_ok addr" and "incoming s = tl (encode_address addr) @ rest"
  shows "read_host (hd (encode_address addr)) s = (Inr (address_text addr), s\<lparr>incoming := rest\<rparr>)"
proof (cases addr)
  case (DomainName name)
  have "read_exact 1 s = (Inr [word_of_nat (length name)], s\<lparr>incoming := name @ rest\<rparr>)"
    using assms DomainName by (intro read_exact_eq) auto
  then show ?thesis using assms DomainName by (simp add: read_host_def)
qed (use assms read_exact_eq in \<open>simp_all add: read_host_def\<close>)

lemma accept_greeting:
  assumes "length methods < 256" and "0 \<in> set methods" and "write_faults s = []"
    and "incoming s = greeting methods @ rest"
  shows "sbind (read_exact 2 s) (\<lambda>head s.
     if head ! 0 \<noteq> 5 then (Inl (Version (head ! 0)), s)
     else sbind (read_exact (unat (head ! 1)) s) (\<lambda>methods s.
     if 0 \<notin> set methods then sbind (write_all [5, 255] s) (\<lambda>_ s. (Inl NoMethod, s))
     else sbind (write_all [5, 0] s) (\<lambda>_ s. k s))) =
   k (s\<lparr>incoming := rest, sent := sent s @ [5, 0]\<rparr>)"
proof -
  have "read_exact 2 s = (Inr [5, word_of_nat (length methods)], s\<lparr>incoming := methods @ rest\<rparr>)"
    using assms(4) by (intro read_exact_eq) (auto simp: greeting_def)
  then show ?thesis using assms(1-3) by (simp add: write_all_def)
qed

lemma socks_request:
  assumes "length methods < 256" and "0 \<in> set methods" and "address_ok addr" and "port < 65536"
    and "write_faults s = []"
    and "incoming s = greeting methods @ request cmd reserved addr port @ rest"
  shows "socks_accept s =
    (let s' = s\<lparr>incoming := rest, sent := sent s @ [5, 0]\<rparr>
     in if cmd = 1 then (Inr (address_text addr, port), s')
        else (Inl (Command cmd), snd (socks_reply CommandNotSupported s')))"
proof -
  let ?s = "s\<lparr>incoming := request cmd reserved addr port @ rest, sent := sent s @ [5, 0]\<rparr>"
  let ?s1 = "?s\<lparr>incoming := tl (encode_address addr) @ be16 port @ rest\<rparr>"
  have enc: "encode_address addr = hd (encode_address addr) # tl (encode_address addr)" by (cases addr) auto
  have req: "read_exact 4 ?s = (Inr [5, cmd, reserved, hd (encode_address addr)], ?s1)"
    using enc by (subst read_exact_eq [of _ "[5, cmd, reserved, hd (encode_address addr)]"])
      (auto simp: request_def)
  have host: "read_host (hd (encode_address addr)) ?s1 =
      (Inr (address_text addr), ?s1\<lparr>incoming := be16 port @ rest\<rparr>)"
    using assms(3) by (rule read_host_address) simp
  have port: "read_exact 2 (?s1\<lparr>incoming := be16 port @ rest\<rparr>) = (Inr (be16 port), ?s1\<lparr>incoming := rest\<rparr>)"
    by (subst read_exact_eq [of _ "be16 port"]) auto
  have port_val: "from_be (be16 port) = port" using assms(4) by simp
  show ?thesis
    unfolding socks_accept_def accept_greeting [OF assms(1,2,5,6)]
    using assms(5) req host port by (simp add: port_val socks_reply_def write_all_def)
qed

text \<open>
  a client that offers no authentication among its methods and asks to connect is served: the
  server answers the greeting, reports exactly the address (IPv4, IPv6 or a name, as text) and the
  port that the client encoded, and leaves what the client sent after its request in the stream.
  Any other command is answered with "not supported" and turned away.
\<close>

theorem socks_serves_connect:
  assumes "length methods < 256" and "0 \<in> set methods" and "address_ok addr" and "port < 65536"
  shows "socks_accept \<lparr>incoming = greeting methods @ request cmd reserved addr port @ rest, sent = [],
      write_faults = []\<rparr> =
    (if cmd = 1
     then (Inr (address_text addr, port), \<lparr>incoming = rest, sent = [5, 0], write_faults = []\<rparr>)
     else (Inl (Command cmd),
       \<lparr>incoming = rest, sent = [5, 0, 5, 7, 0, 1, 0, 0, 0, 0, 0, 0], write_faults = []\<rparr>))"
  by (subst socks_request [OF assms]) (auto simp: socks_reply_def write_all_def)

theorem socks_serves_connect_witness:
  "socks_accept \<lparr>incoming = greeting [2, 0] @ request 1 0 (V4 [127, 0, 0, 1]) 8080 @ [42], sent = [],
      write_faults = []\<rparr> =
    (Inr (lit ''127.0.0.1'', 8080), \<lparr>incoming = [42], sent = [5, 0], write_faults = []\<rparr>)"
  using socks_serves_connect [of "[2, 0]" "V4 [127, 0, 0, 1]" 8080 1 0 "[42]"]
  by (simp add: ipv4_text_def lit_def decimal.simps)

lemma socks_accept_Inr:
  assumes "socks_accept s = (Inr (host, port), s')"
  obtains head s1 methods s2 u s3 req s4 s5 p where
    "read_exact 2 s = (Inr head, s1)" "head ! 0 = 5"
    "read_exact (unat (head ! 1)) s1 = (Inr methods, s2)" "0 \<in> set methods"
    "write_all [5, 0] s2 = (Inr u, s3)"
    "read_exact 4 s3 = (Inr req, s4)" "req ! 0 = 5" "req ! 1 = 1"
    "read_host (req ! 3) s4 = (Inr host, s5)"
    "read_exact 2 s5 = (Inr p, s')" "port = from_be p"
proof -
  have inv: "\<exists>head s1. read_exact 2 s = (Inr head, s1) \<and> head ! 0 = 5 \<and>
    (\<exists>methods s2. read_exact (unat (head ! 1)) s1 = (Inr methods, s2) \<and> 0 \<in> set methods \<and>
    (\<exists>u s3. write_all [5, 0] s2 = (Inr u, s3) \<and>
    (\<exists>req s4. read_exact 4 s3 = (Inr req, s4) \<and> req ! 0 = 5 \<and> req ! 1 = 1 \<and>
    (\<exists>s5. read_host (req ! 3) s4 = (Inr host, s5) \<and>
    (\<exists>p. read_exact 2 s5 = (Inr p, s') \<and> port = from_be p)))))"
    using assms unfolding socks_accept_def
    by (auto split: if_splits dest!: sbind_Inr)
  then show ?thesis using that by blast
qed

text \<open>
  the server connects only on behalf of SOCKS5 clients that need no authentication and ask for
  CONNECT: whatever bytes arrive and whichever answers fail to be sent, an accepted request had
  version 5 twice, a method 0, the command 1, and only the greeting's answer was sent.
\<close>

theorem socks_accepts_only_connect:
  assumes "socks_accept s = (Inr (host, port), s')"
  shows "\<exists>n methods reserved kind rest. incoming s = 5 # n # methods @ [5, 1, reserved, kind] @ rest \<and>
    unat n = length methods \<and> 0 \<in> set methods \<and> kind \<in> {1, 3, 4} \<and> port < 65536 \<and>
    sent s' = sent s @ [5, 0]"
proof -
  obtain head s1 methods s2 u s3 req s4 s5 p where
    head: "read_exact 2 s = (Inr head, s1)" "head ! 0 = 5"
    and methods: "read_exact (unat (head ! 1)) s1 = (Inr methods, s2)" "0 \<in> set methods"
    and answer: "write_all [5, 0] s2 = (Inr u, s3)"
    and req: "read_exact 4 s3 = (Inr req, s4)" "req ! 0 = 5" "req ! 1 = 1"
    and host: "read_host (req ! 3) s4 = (Inr host, s5)"
    and port: "read_exact 2 s5 = (Inr p, s')" "port = from_be p"
    using assms by (rule socks_accept_Inr)
  have h: "head = [5, head ! 1]"
    using read_exact_Inr [OF head(1)] head(2) by (auto simp: length_Suc_conv numeral_2_eq_2)
  have r: "req = [5, 1, req ! 2, req ! 3]"
    using read_exact_Inr [OF req(1)] req(2,3) by (auto simp: length_Suc_conv eval_nat_numeral)
  have "incoming s = head @ methods @ req @ incoming s4"
    using read_exact_Inr [OF head(1)] read_exact_Inr [OF methods(1)] read_exact_Inr [OF req(1)]
      write_all_Inr [OF answer] by simp
  then have "incoming s = 5 # head ! 1 # methods @ [5, 1, req ! 2, req ! 3] @ incoming s4"
    using h r by (metis append_Cons append_Nil)
  moreover have "port < 65536"
    using from_be_less [of p] read_exact_Inr [OF port(1)] port(2) by simp
  moreover have "sent s' = sent s @ [5, 0]"
    using read_exact_Inr [OF head(1)] read_exact_Inr [OF methods(1)] read_exact_Inr [OF req(1)]
      write_all_Inr [OF answer] read_host_Inr [OF host] read_exact_Inr [OF port(1)] by simp
  ultimately show ?thesis
    using methods(2) read_exact_Inr [OF methods(1)] read_host_Inr [OF host]
    by (intro exI [of _ "head ! 1"] exI [of _ methods] exI [of _ "req ! 2"] exI [of _ "req ! 3"]
        exI [of _ "incoming s4"]) simp
qed

theorem socks_accepts_only_connect_witness:
  "\<exists>n methods reserved kind rest.
    greeting [0] @ request 1 0 (V4 [127, 0, 0, 1]) 80 = 5 # n # methods @ [5, 1, reserved, kind] @ rest \<and>
    unat n = length methods \<and> 0 \<in> set methods \<and> kind \<in> {1, 3, 4}"
  using socks_accepts_only_connect [OF socks_request [of "[0]" "V4 [127, 0, 0, 1]" 80
      "\<lparr>incoming = greeting [0] @ request 1 0 (V4 [127, 0, 0, 1]) 80, sent = [], write_faults = []\<rparr>" 1 0 "[]",
      simplified]]
  by fastforce

end
