(* ===== verification/Command_Line.thy ===== *)
theory Command_Line
  imports Texts
begin

text \<open>
  Command lines as text (\<open>crates/opensesh-core/src/command_line.rs\<close>): splitting a line into words
  and writing words as a line. The loop of \<open>split\<close> is \<open>split_char\<close> over the characters, on the
  four variables it keeps.
\<close>

datatype split_error = Unclosed uchar | EmptyLine

record splitting =
  sp_words :: "str list"
  sp_word :: str
  sp_in_word :: bool
  sp_quote :: "uchar option"

abbreviation DQUOTE :: uchar where "DQUOTE \<equiv> 34"
abbreviation SQUOTE :: uchar where "SQUOTE \<equiv> 39"

definition split_char :: "splitting \<Rightarrow> uchar \<Rightarrow> splitting" where
  "split_char s c =
     (case sp_quote s of
        Some open \<Rightarrow>
          if c = open then s\<lparr>sp_quote := None\<rparr> else s\<lparr>sp_word := sp_word s @ [c]\<rparr>
      | None \<Rightarrow>
          if c = DQUOTE \<or> c = SQUOTE then s\<lparr>sp_quote := Some c, sp_in_word := True\<rparr>
          else if is_whitespace c then
            (if sp_in_word s
             then s\<lparr>sp_words := sp_words s @ [sp_word s], sp_word := [], sp_in_word := False\<rparr>
             else s)
          else s\<lparr>sp_word := sp_word s @ [c], sp_in_word := True\<rparr>)"

definition split_start :: splitting where
  "split_start = \<lparr>sp_words = [], sp_word = [], sp_in_word = False, sp_quote = None\<rparr>"

definition split_line :: "str \<Rightarrow> split_error + str list" where
  "split_line line =
     (let s = foldl split_char split_start line
      in case sp_quote s of
           Some open \<Rightarrow> Inl (Unclosed open)
         | None \<Rightarrow>
             (let words = (if sp_in_word s then sp_words s @ [sp_word s] else sp_words s)
              in if words = [] then Inl EmptyLine else Inr words))"

definition join_word :: "str \<Rightarrow> str" where
  "join_word word =
     (if word \<noteq> [] \<and> \<not> list_ex (\<lambda>c. is_whitespace c \<or> c = DQUOTE \<or> c = SQUOTE) word then word
      else if DQUOTE \<in> set word then SQUOTE # word @ [SQUOTE]
      else DQUOTE # word @ [DQUOTE])"

definition join_line :: "str list \<Rightarrow> str" where
  "join_line words = join_with (lit '' '') (map join_word words)"

subsection \<open>Reading back what was joined\<close>

lemma split_plain:
  assumes "sp_quote s = None" and "\<forall>c \<in> set w. \<not> is_whitespace c \<and> c \<noteq> DQUOTE \<and> c \<noteq> SQUOTE"
  shows "foldl split_char s w = (if w = [] then s else s\<lparr>sp_word := sp_word s @ w, sp_in_word := True\<rparr>)"
  using assms by (induction w arbitrary: s) (auto simp: split_char_def)

lemma split_quoted:
  assumes "sp_quote s = Some q" and "q \<notin> set w"
  shows "foldl split_char s w = s\<lparr>sp_word := sp_word s @ w\<rparr>"
  using assms by (induction w arbitrary: s) (auto simp: split_char_def)

lemma split_in_quotes:
  assumes "sp_quote s = None" and "q = DQUOTE \<or> q = SQUOTE" and "q \<notin> set w"
  shows "foldl split_char s (q # w @ [q]) = s\<lparr>sp_word := sp_word s @ w, sp_in_word := True\<rparr>"
proof -
  have "split_char s q = s\<lparr>sp_quote := Some q, sp_in_word := True\<rparr>"
    using assms(1,2) by (auto simp: split_char_def)
  then show ?thesis
    using assms(1) split_quoted [OF _ assms(3)] by (simp add: split_char_def)
qed

definition one_kind :: "str \<Rightarrow> bool" where
  "one_kind word \<longleftrightarrow> DQUOTE \<notin> set word \<or> SQUOTE \<notin> set word"

lemma split_join_word:
  assumes "sp_quote s = None" and "one_kind w"
  shows "foldl split_char s (join_word w) = s\<lparr>sp_word := sp_word s @ w, sp_in_word := True\<rparr>"
  using assms split_plain [OF assms(1), of w] split_in_quotes [OF assms(1)]
  by (auto simp: join_word_def one_kind_def list_ex_iff)

lemma split_join_words:
  assumes "ws \<noteq> []" and "list_all one_kind ws"
  shows "foldl split_char (split_start\<lparr>sp_words := done\<rparr>) (join_line ws) =
    split_start\<lparr>sp_words := done @ butlast ws, sp_word := last ws, sp_in_word := True\<rparr>"
  using assms
proof (induction ws arbitrary: "done" rule: list_nonempty_induct)
  case (single w)
  then show ?case using split_join_word by (simp add: join_line_def split_start_def)
next
  case (cons w ws)
  have step: "foldl split_char (split_start\<lparr>sp_words := done\<rparr>) (join_word w) =
      split_start\<lparr>sp_words := done, sp_word := w, sp_in_word := True\<rparr>"
    using split_join_word [of "split_start\<lparr>sp_words := done\<rparr>" w] cons.prems
    by (simp add: split_start_def)
  have space: "split_char (split_start\<lparr>sp_words := done, sp_word := w, sp_in_word := True\<rparr>) 32 =
      split_start\<lparr>sp_words := done @ [w]\<rparr>"
    by (simp add: split_char_def split_start_def is_whitespace_def)
  have line: "join_line (w # ws) = join_word w @ 32 # join_line ws"
    using cons.hyps by (simp add: join_line_def join_with_Cons lit_def)
  show ?case
    unfolding line using step space cons.IH [of "done @ [w]"] cons.prems cons.hyps by simp
qed

text \<open>
  a command line made of words splits back into exactly those words, empty words and words
  with white space included, as long as there is a word and no word has both kinds of quotes.
\<close>

theorem join_split_roundtrip:
  assumes "words \<noteq> []" and "list_all one_kind words"
  shows "split_line (join_line words) = Inr words"
  using split_join_words [OF assms, of "[]"] assms(1)
  by (simp add: split_line_def split_start_def)

theorem join_split_roundtrip_witness:
  "split_line (join_line [lit ''C:'', [], lit ''a b'', [34, 32]]) = Inr [lit ''C:'', [], lit ''a b'', [34, 32]]"
  by (rule join_split_roundtrip) (simp_all add: one_kind_def lit_def)

text \<open>
  A word with both kinds of quotes has no such line: the one that \<open>join\<close> writes is refused. The
  comment of \<open>join\<close> promises a line that splits back into the words.
\<close>

lemma join_split_both_quotes: "split_line (join_line [[34, 39]]) = Inl (Unclosed 39)"
  by (simp add: split_line_def join_line_def join_word_def split_char_def split_start_def)

end
