(* ===== verification/Rdp_Frame.thy ===== *)
theory Rdp_Frame
  imports Prelude
begin

text \<open>
  The remote screen shared between an RDP session and the window
  (\<open>crates/opensesh-rdp-protocol/src/frame.rs\<close>): RGBA pixels and the rectangles that changed since
  the window last took them. Widths and positions are \<open>u16\<close> values; the sums that the code makes in
  \<open>u32\<close> and \<open>usize\<close> do not wrap, and \<open>to_u16\<close> is its saturating conversion. The counter
  \<open>generation\<close> is a natural number.
\<close>

record rect16 =
  r_x :: nat
  r_y :: nat
  r_width :: nat
  r_height :: nat

definition rect_ok :: "rect16 \<Rightarrow> bool" where
  "rect_ok r \<longleftrightarrow> r_x r \<le> u16_max \<and> r_y r \<le> u16_max \<and> r_width r \<le> u16_max \<and> r_height r \<le> u16_max"

definition rect_right :: "rect16 \<Rightarrow> nat" where
  "rect_right r = r_x r + r_width r"

definition rect_bottom :: "rect16 \<Rightarrow> nat" where
  "rect_bottom r = r_y r + r_height r"

definition to_u16 :: "nat \<Rightarrow> nat" where
  "to_u16 n = (if n \<le> u16_max then n else u16_max)"

definition rect_union :: "rect16 \<Rightarrow> rect16 \<Rightarrow> rect16" where
  "rect_union a b =
     (let x = min (r_x a) (r_x b); y = min (r_y a) (r_y b);
          right = max (rect_right a) (rect_right b); bottom = max (rect_bottom a) (rect_bottom b)
      in \<lparr>r_x = x, r_y = y, r_width = to_u16 (right - x), r_height = to_u16 (bottom - y)\<rparr>)"

definition rect_overlaps :: "rect16 \<Rightarrow> rect16 \<Rightarrow> bool" where
  "rect_overlaps a b \<longleftrightarrow>
     r_x a \<le> rect_right b \<and> r_x b \<le> rect_right a \<and> r_y a \<le> rect_bottom b \<and> r_y b \<le> rect_bottom a"

definition MAX_DIRTY :: nat where "MAX_DIRTY = 64"

record frame =
  f_width :: nat
  f_height :: nat
  f_pixels :: bytes
  f_dirty :: "rect16 list"
  f_generation :: nat

definition frame_default :: frame where
  "frame_default = \<lparr>f_width = 0, f_height = 0, f_pixels = [], f_dirty = [], f_generation = 0\<rparr>"

definition frame_resize :: "frame \<Rightarrow> nat \<Rightarrow> nat \<Rightarrow> frame" where
  "frame_resize f width height =
     f\<lparr>f_width := width, f_height := height, f_pixels := replicate (width * height * 4) 0,
       f_generation := f_generation f + 1,
       f_dirty := [\<lparr>r_x = 0, r_y = 0, r_width = width, r_height = height\<rparr>]\<rparr>"

text \<open>The closure of \<open>iter_mut().find\<close>: the first rectangle that overlaps is replaced by the union.\<close>

fun merge_first :: "rect16 \<Rightarrow> rect16 list \<Rightarrow> rect16 list option" where
  "merge_first rect [] = None"
| "merge_first rect (d # ds) =
     (if rect_overlaps d rect then Some (rect_union d rect # ds)
      else map_option ((#) d) (merge_first rect ds))"

definition frame_mark :: "frame \<Rightarrow> rect16 \<Rightarrow> frame" where
  "frame_mark f rect =
     (if r_width rect = 0 \<or> r_height rect = 0 then f
      else case merge_first rect (f_dirty f) of
             Some dirty \<Rightarrow> f\<lparr>f_dirty := dirty\<rparr>
           | None \<Rightarrow>
               if length (f_dirty f) < MAX_DIRTY then f\<lparr>f_dirty := f_dirty f @ [rect]\<rparr>
               else f\<lparr>f_dirty := [foldl rect_union rect (f_dirty f)]\<rparr>)"

text \<open>\<open>slice::get\<close> with a range.\<close>

definition slice_get :: "'a list \<Rightarrow> nat \<Rightarrow> nat \<Rightarrow> 'a list option" where
  "slice_get xs a b = (if a \<le> b \<and> b \<le> length xs then Some (take (b - a) (drop a xs)) else None)"

text \<open>\<open>to.copy_from_slice(from)\<close> when both ranges exist.\<close>

definition copy_span :: "bytes \<Rightarrow> nat \<Rightarrow> nat \<Rightarrow> bytes option \<Rightarrow> bytes" where
  "copy_span pixels a b src =
     (case (slice_get pixels a b, src) of (Some _, Some s) \<Rightarrow> splice pixels a s | _ \<Rightarrow> pixels)"

definition frame_copy_from :: "frame \<Rightarrow> bytes \<Rightarrow> rect16 \<Rightarrow> frame" where
  "frame_copy_from f source rect =
     (let width = f_width f; stride = width * 4
      in if length source < length (f_pixels f) then f
         else let x = min (r_x rect) width;
                  right = min (r_x rect + r_width rect) width;
                  bottom = min (r_y rect + r_height rect) (f_height f)
              in if right \<le> x then f
                 else frame_mark (f\<lparr>f_pixels := foldl (\<lambda>pixels row.
                        copy_span pixels (row * stride + x * 4) (row * stride + right * 4)
                          (slice_get source (row * stride + x * 4) (row * stride + right * 4)))
                      (f_pixels f) [r_y rect ..< bottom]\<rparr>) rect)"

definition frame_copy_rect :: "frame \<Rightarrow> rect16 \<Rightarrow> bytes \<Rightarrow> frame" where
  "frame_copy_rect f rect rgba =
     (let width = f_width f; from_stride = r_width rect * 4; x = r_x rect;
          right = min (x + r_width rect) width
      in if right \<le> x \<or> length rgba < from_stride * r_height rect then f
         else let bottom = min (r_y rect + r_height rect) (f_height f)
              in frame_mark (f\<lparr>f_pixels := foldl (\<lambda>pixels row.
                      let index = row - r_y rect
                      in copy_span pixels (row * width * 4 + x * 4) (row * width * 4 + right * 4)
                           (slice_get rgba (index * from_stride) (index * from_stride + (right - x) * 4)))
                    (f_pixels f) [r_y rect ..< bottom]\<rparr>) rect)"

definition take_dirty :: "frame \<Rightarrow> rect16 list \<times> frame" where
  "take_dirty f = (f_dirty f, f\<lparr>f_dirty := []\<rparr>)"

subsection \<open>Covering\<close>

text \<open>
  A pixel of a screen of at most 65535 by 65535 pixels is covered by a rectangle when it is in
  it. The byte \<open>k\<close> of the pixels belongs to the pixel \<open>k div 4\<close> in reading order.
\<close>

definition covers :: "rect16 \<Rightarrow> nat \<Rightarrow> nat \<Rightarrow> bool" where
  "covers r px py \<longleftrightarrow> r_x r \<le> px \<and> px < rect_right r \<and> r_y r \<le> py \<and> py < rect_bottom r"

definition covered :: "rect16 list \<Rightarrow> nat \<Rightarrow> nat \<Rightarrow> bool" where
  "covered rs width k \<longleftrightarrow> list_ex (\<lambda>r. covers r (k div 4 mod width) (k div 4 div width)) rs"

lemma interval_union:
  "x \<le> p \<and> p < r \<or> x' \<le> p \<and> p < r' \<Longrightarrow> p < u16_max \<Longrightarrow>
   min x x' \<le> p \<and> p < min x x' + to_u16 (max r r' - min x x')"
  by (auto simp: to_u16_def min_def max_def)

lemma covers_union:
  assumes "covers a px py \<or> covers b px py" and "px < u16_max" and "py < u16_max"
  shows "covers (rect_union a b) px py"
proof -
  have "r_x a \<le> px \<and> px < rect_right a \<or> r_x b \<le> px \<and> px < rect_right b"
    "r_y a \<le> py \<and> py < rect_bottom a \<or> r_y b \<le> py \<and> py < rect_bottom b"
    using assms(1) unfolding covers_def by blast+
  from interval_union [OF this(1) assms(2)] interval_union [OF this(2) assms(3)]
  show ?thesis by (simp add: covers_def rect_union_def Let_def rect_right_def rect_bottom_def)
qed

lemma covered_merge_first:
  assumes "merge_first rect ds = Some ds'" and "px < u16_max" and "py < u16_max"
    and "covers rect px py \<or> list_ex (\<lambda>r. covers r px py) ds"
  shows "list_ex (\<lambda>r. covers r px py) ds'"
  using assms by (induction ds arbitrary: ds') (auto simp: covers_union split: if_splits)

lemma covers_foldl_union:
  "covers rect px py \<or> list_ex (\<lambda>r. covers r px py) ds \<Longrightarrow> px < u16_max \<Longrightarrow> py < u16_max \<Longrightarrow>
   covers (foldl rect_union rect ds) px py"
  by (induction ds arbitrary: rect) (auto simp: covers_union)

lemma frame_mark_covers:
  assumes "covers rect px py \<or> list_ex (\<lambda>r. covers r px py) (f_dirty f)"
    and "px < u16_max" and "py < u16_max"
  shows "list_ex (\<lambda>r. covers r px py) (f_dirty (frame_mark f rect))"
proof (cases "r_width rect = 0 \<or> r_height rect = 0")
  case True
  then have "\<not> covers rect px py" by (auto simp: covers_def rect_right_def rect_bottom_def)
  then show ?thesis using True assms(1) by (simp add: frame_mark_def)
next
  case False
  then show ?thesis
    using assms covered_merge_first [of rect "f_dirty f"] covers_foldl_union [of rect px py "f_dirty f"]
    by (auto simp: frame_mark_def split: option.splits)
qed

lemma frame_mark_frame [simp]:
  "f_pixels (frame_mark f r) = f_pixels f" "f_width (frame_mark f r) = f_width f"
  "f_height (frame_mark f r) = f_height f"
  by (auto simp: frame_mark_def split: option.splits)

subsection \<open>Copying\<close>

lemma length_copy_span:
  assumes "\<forall>s. src = Some s \<longrightarrow> length s = b - a"
  shows "length (copy_span pixels a b src) = length pixels"
  using assms by (auto simp: copy_span_def slice_get_def split: option.splits if_splits)

lemma copy_span_outside:
  assumes "\<forall>s. src = Some s \<longrightarrow> length s = b - a" and "k < a \<or> b \<le> k" and "k < length pixels"
  shows "copy_span pixels a b src ! k = pixels ! k"
  using assms
  by (auto simp: copy_span_def slice_get_def splice_def nth_append split: option.splits if_splits)

lemma copy_rows_outside:
  assumes "\<And>row s. src row = Some s \<Longrightarrow> length s = b row - a row"
    and "\<forall>row \<in> set rows. k < a row \<or> b row \<le> k" and "k < length pixels"
  shows "foldl (\<lambda>pixels row. copy_span pixels (a row) (b row) (src row)) pixels rows ! k = pixels ! k"
  using assms(2,3)
proof (induction rows arbitrary: pixels)
  case (Cons row rows)
  have len: "\<forall>s. src row = Some s \<longrightarrow> length s = b row - a row" using assms(1) by blast
  show ?case
    using Cons.IH [of "copy_span pixels (a row) (b row) (src row)"] Cons.prems
      copy_span_outside [OF len, of k pixels] length_copy_span [OF len, of pixels] by simp
qed simp

lemma length_copy_rows:
  assumes "\<And>row s. src row = Some s \<Longrightarrow> length s = b row - a row"
  shows "length (foldl (\<lambda>pixels row. copy_span pixels (a row) (b row) (src row)) pixels rows) = length pixels"
proof (induction rows arbitrary: pixels)
  case (Cons row rows)
  have "\<forall>s. src row = Some s \<longrightarrow> length s = b row - a row" using assms by blast
  then show ?case using Cons length_copy_span by simp
qed simp

definition frame_ok :: "frame \<Rightarrow> bool" where
  "frame_ok f \<longleftrightarrow> f_width f \<le> u16_max \<and> f_height f \<le> u16_max \<and>
     length (f_pixels f) = f_width f * f_height f * 4"

lemma frame_pixel:
  assumes "frame_ok f" and "k < length (f_pixels f)"
  shows "k div 4 mod f_width f < u16_max \<and> k div 4 div f_width f < u16_max"
proof -
  have p: "k div 4 < f_height f * f_width f"
    using assms by (simp add: frame_ok_def less_mult_imp_div_less mult.commute)
  then have "0 < f_width f" by (cases "f_width f") auto
  moreover have "k div 4 div f_width f < f_height f" using p by (rule less_mult_imp_div_less)
  ultimately show ?thesis
    using assms(1) less_le_trans [OF mod_less_divisor [of "f_width f" "k div 4"]]
    by (auto simp: frame_ok_def)
qed

subsection \<open>The session and the window\<close>

text \<open>
  The window keeps its own copy of the pixels (its textures) and copies the rectangles it takes;
  after a change of size it makes its textures again, and then every pixel is in a rectangle.
\<close>

datatype frame_op =
    FResize nat nat
  | FCopyFrom bytes rect16
  | FCopyRect rect16 bytes
  | FMark rect16
  | FDraw

definition draw :: "frame \<Rightarrow> bytes \<Rightarrow> bytes" where
  "draw f seen =
     map (\<lambda>k. if covered (fst (take_dirty f)) (f_width f) k \<or> length seen \<le> k
              then f_pixels f ! k else seen ! k) [0 ..< length (f_pixels f)]"

fun frame_step :: "frame \<times> bytes \<Rightarrow> frame_op \<Rightarrow> frame \<times> bytes" where
  "frame_step (f, seen) (FResize w h) = (frame_resize f w h, seen)"
| "frame_step (f, seen) (FCopyFrom src r) = (frame_copy_from f src r, seen)"
| "frame_step (f, seen) (FCopyRect r rgba) = (frame_copy_rect f r rgba, seen)"
| "frame_step (f, seen) (FMark r) = (frame_mark f r, seen)"
| "frame_step (f, seen) FDraw = (snd (take_dirty f), draw f seen)"

text \<open>Sizes and rectangles are \<open>u16\<close> values.\<close>

fun frame_op_ok :: "frame_op \<Rightarrow> bool" where
  "frame_op_ok (FResize w h) = (w \<le> u16_max \<and> h \<le> u16_max)"
| "frame_op_ok (FCopyFrom src r) = rect_ok r"
| "frame_op_ok (FCopyRect r rgba) = rect_ok r"
| "frame_op_ok (FMark r) = rect_ok r"
| "frame_op_ok FDraw = True"

text \<open>Every byte that the window has wrong is in a rectangle that it has yet to take.\<close>

definition in_step :: "frame \<times> bytes \<Rightarrow> bool" where
  "in_step s \<longleftrightarrow> (case s of (f, seen) \<Rightarrow> frame_ok f \<and>
     (\<forall>k < length (f_pixels f). covered (f_dirty f) (f_width f) k \<or>
        k < length seen \<and> seen ! k = f_pixels f ! k))"

lemma in_step_change:
  assumes "in_step (f, seen)" and "length pixels = length (f_pixels f)"
    and "\<And>k. k < length pixels \<Longrightarrow> pixels ! k \<noteq> f_pixels f ! k \<Longrightarrow>
      covers rect (k div 4 mod f_width f) (k div 4 div f_width f)"
  shows "in_step (frame_mark (f\<lparr>f_pixels := pixels\<rparr>) rect, seen)"
proof -
  let ?f = "f\<lparr>f_pixels := pixels\<rparr>"
  have ok: "frame_ok f" using assms(1) by (simp add: in_step_def)
  have "covered (f_dirty (frame_mark ?f rect)) (f_width f) k \<or> k < length seen \<and> seen ! k = pixels ! k"
    if k: "k < length pixels" for k
  proof -
    have small: "k div 4 mod f_width f < u16_max" "k div 4 div f_width f < u16_max"
      using frame_pixel [OF ok, of k] k assms(2) by auto
    have old: "covered (f_dirty f) (f_width f) k \<or> k < length seen \<and> seen ! k = f_pixels f ! k"
      using assms(1,2) k by (simp add: in_step_def)
    show ?thesis
      using frame_mark_covers [of rect _ _ ?f, OF _ small] assms(3) [OF k] old
      unfolding covered_def by fastforce
  qed
  then show ?thesis using ok assms(2) by (simp add: in_step_def frame_ok_def)
qed

lemma length_slice_get: "slice_get xs a b = Some s \<Longrightarrow> length s = b - a"
  by (auto simp: slice_get_def split: if_splits)

lemma rows_changed:
  assumes "\<And>row s. src row = Some s \<Longrightarrow> length s = right * 4 - x * 4" and "right \<le> f_width f"
    and "x \<ge> r_x rect" and "right \<le> rect_right rect" and "bottom \<le> rect_bottom rect"
    and "k < length (f_pixels f)"
    and "foldl (\<lambda>pixels row. copy_span pixels (row * f_width f * 4 + x * 4)
        (row * f_width f * 4 + right * 4) (src row)) (f_pixels f) [r_y rect ..< bottom] ! k \<noteq> f_pixels f ! k"
  shows "covers rect (k div 4 mod f_width f) (k div 4 div f_width f)"
proof -
  have "\<not> (\<forall>row \<in> set [r_y rect ..< bottom].
      k < row * f_width f * 4 + x * 4 \<or> row * f_width f * 4 + right * 4 \<le> k)"
    using copy_rows_outside [of src "\<lambda>row. row * f_width f * 4 + right * 4"
        "\<lambda>row. row * f_width f * 4 + x * 4" "[r_y rect ..< bottom]" k "f_pixels f"] assms(1,6,7) by auto
  then obtain row where row: "r_y rect \<le> row" "row < bottom"
    "row * f_width f * 4 + x * 4 \<le> k" "k < row * f_width f * 4 + right * 4"
    by (auto simp: not_less)
  show ?thesis
    using byte_in_row [OF row(3,4) assms(2)] row(1,2) assms(3-5) by (auto simp: covers_def)
qed

lemma frame_copy_from_in_step:
  assumes "in_step (f, seen)"
  shows "in_step (frame_copy_from f source rect, seen)"
proof -
  let ?x = "min (r_x rect) (f_width f)" and ?r = "min (r_x rect + r_width rect) (f_width f)"
  let ?b = "min (r_y rect + r_height rect) (f_height f)"
  let ?src = "\<lambda>row. slice_get source (row * f_width f * 4 + ?x * 4) (row * f_width f * 4 + ?r * 4)"
  let ?p = "foldl (\<lambda>pixels row. copy_span pixels (row * f_width f * 4 + ?x * 4)
      (row * f_width f * 4 + ?r * 4) (?src row)) (f_pixels f) [r_y rect ..< ?b]"
  have len: "length s = ?r * 4 - ?x * 4" if "?src row = Some s" for row s
    using length_slice_get [OF that] by simp
  have result: "frame_copy_from f source rect =
      (if length source < length (f_pixels f) \<or> ?r \<le> ?x then f else frame_mark (f\<lparr>f_pixels := ?p\<rparr>) rect)"
    by (simp add: frame_copy_from_def Let_def mult.assoc)
  have step: "in_step (frame_mark (f\<lparr>f_pixels := ?p\<rparr>) rect, seen)" if "?x < ?r"
  proof (rule in_step_change [OF assms])
    show pixels: "length ?p = length (f_pixels f)" by (rule length_copy_rows) (use len in auto)
    fix k assume k: "k < length ?p" "?p ! k \<noteq> f_pixels f ! k"
    show "covers rect (k div 4 mod f_width f) (k div 4 div f_width f)"
    proof (rule rows_changed [of ?src ?r ?x f rect ?b k])
      show "r_x rect \<le> ?x" using \<open>?x < ?r\<close> by auto
    qed (use len k pixels in \<open>auto simp: rect_right_def rect_bottom_def\<close>)
  qed
  show ?thesis
  proof (cases "length source < length (f_pixels f) \<or> ?r \<le> ?x")
    case True
    then show ?thesis using assms by (simp only: result if_True)
  next
    case False
    then have "?x < ?r" by linarith
    from step [OF this] show ?thesis using False by (simp only: result if_False)
  qed
qed

lemma frame_copy_rect_in_step:
  assumes "in_step (f, seen)"
  shows "in_step (frame_copy_rect f rect rgba, seen)"
proof -
  let ?x = "r_x rect" and ?r = "min (r_x rect + r_width rect) (f_width f)"
  let ?b = "min (r_y rect + r_height rect) (f_height f)"
  let ?src = "\<lambda>row. slice_get rgba ((row - r_y rect) * (r_width rect * 4))
      ((row - r_y rect) * (r_width rect * 4) + (?r - ?x) * 4)"
  let ?p = "foldl (\<lambda>pixels row. copy_span pixels (row * f_width f * 4 + ?x * 4)
      (row * f_width f * 4 + ?r * 4) (?src row)) (f_pixels f) [r_y rect ..< ?b]"
  have len: "length s = ?r * 4 - ?x * 4" if "?src row = Some s" for row s
    using length_slice_get [OF that] by (simp add: diff_mult_distrib)
  have result: "frame_copy_rect f rect rgba =
      (if ?r \<le> ?x \<or> length rgba < r_width rect * 4 * r_height rect then f
       else frame_mark (f\<lparr>f_pixels := ?p\<rparr>) rect)"
    by (simp add: frame_copy_rect_def Let_def)
  have "in_step (frame_mark (f\<lparr>f_pixels := ?p\<rparr>) rect, seen)"
  proof (rule in_step_change [OF assms])
    show pixels: "length ?p = length (f_pixels f)" by (rule length_copy_rows) (use len in auto)
    fix k assume k: "k < length ?p" "?p ! k \<noteq> f_pixels f ! k"
    show "covers rect (k div 4 mod f_width f) (k div 4 div f_width f)"
      by (rule rows_changed [of ?src ?r ?x f rect ?b k])
         (use len k pixels in \<open>auto simp: rect_right_def rect_bottom_def\<close>)
  qed
  then show ?thesis using result assms by simp
qed

lemma frame_resize_in_step:
  assumes "w \<le> u16_max" and "h \<le> u16_max"
  shows "in_step (frame_resize f w h, seen)"
proof -
  have "k div 4 mod w < w \<and> k div 4 div w < h" if "k < w * h * 4" for k
  proof -
    have "k div 4 < h * w" using that by (simp add: less_mult_imp_div_less mult.commute)
    moreover from this have "0 < w" by (cases w) auto
    ultimately show ?thesis using less_mult_imp_div_less by simp
  qed
  then show ?thesis
    using assms
    by (auto simp: in_step_def frame_resize_def frame_ok_def covered_def covers_def rect_right_def
        rect_bottom_def)
qed

lemma frame_mark_in_step: "in_step (f, seen) \<Longrightarrow> in_step (frame_mark f rect, seen)"
  using in_step_change [of f seen "f_pixels f" rect] by simp

lemma draw_complete: "in_step (f, seen) \<Longrightarrow> draw f seen = f_pixels f"
  by (rule nth_equalityI) (auto simp: in_step_def draw_def take_dirty_def)

lemma frame_step_in_step:
  assumes "in_step s" and "frame_op_ok op"
  shows "in_step (frame_step s op)"
proof (cases s)
  case (Pair f seen)
  have "frame_ok f" using assms(1) Pair by (simp add: in_step_def)
  then have "in_step (snd (take_dirty f), f_pixels f)"
    by (simp add: in_step_def take_dirty_def frame_ok_def)
  then show ?thesis
    using assms Pair
    by (cases op) (simp_all add: frame_copy_from_in_step frame_copy_rect_in_step frame_resize_in_step
        frame_mark_in_step draw_complete)
qed

interpretation fm: invariant_machine frame_step in_step frame_op_ok
  by unfold_locales (rule frame_step_in_step)

text \<open>
  C25: the window misses no change of the remote screen. After any sequence of changes of size,
  updates (also ones outside the screen or with too few bytes) and earlier drawings, drawing only
  the rectangles marked as changed gives the window exactly the pixels of the screen, although
  rectangles are merged and their sizes are cut to 16 bits.
\<close>

theorem window_misses_nothing:
  assumes "list_all frame_op_ok ops" and "foldl frame_step (frame_default, []) ops = (f, seen)"
  shows "draw f seen = f_pixels f"
proof (rule draw_complete)
  have "in_step (frame_default, [])" by (simp add: in_step_def frame_default_def frame_ok_def)
  from fm.run_inv [OF this assms(1)] show "in_step (f, seen)" using assms(2) by simp
qed

definition sample_ops :: "frame_op list" where
  "sample_ops = [FResize 2 1, FDraw,
     FCopyRect \<lparr>r_x = 1, r_y = 0, r_width = 3, r_height = 1\<rparr> [1, 2, 3, 4, 5, 6, 7, 8, 9, 10, 11, 12]]"

lemma sample_run:
  "f_pixels (fst (foldl frame_step (frame_default, []) sample_ops)) = [0, 0, 0, 0, 1, 2, 3, 4]"
  by (simp add: sample_ops_def frame_resize_def frame_default_def take_dirty_def frame_copy_rect_def
      copy_span_def slice_get_def splice_def eval_nat_numeral)

theorem window_misses_nothing_witness:
  "draw (fst (foldl frame_step (frame_default, []) sample_ops))
     (snd (foldl frame_step (frame_default, []) sample_ops)) = [0, 0, 0, 0, 1, 2, 3, 4]"
proof -
  have "list_all frame_op_ok sample_ops" by (simp add: sample_ops_def u16_max_def rect_ok_def)
  from window_misses_nothing [OF this, of "fst (foldl frame_step (frame_default, []) sample_ops)"
      "snd (foldl frame_step (frame_default, []) sample_ops)"]
  show ?thesis using sample_run by simp
qed

end
