(* ===== verification/Vnc_Canvas.thy ===== *)
theory Vnc_Canvas
  imports Prelude
begin

text \<open>
  The framebuffer of a VNC session (\<open>crates/opensesh-vnc/src/canvas.rs\<close>) and three decoders that draw
  into it (\<open>crates/opensesh-vnc/src/decode.rs\<close>): Raw, CopyRect and Hextile. A slice out of range and
  a chunk size of zero are \<open>Panic\<close>. The reader is the list of the bytes to come; one that ends
  early is the error \<open>VIo\<close>. Additions of \<open>u16\<close> positions wrap as in a release build.
\<close>

record area =
  a_x :: nat
  a_y :: nat
  a_width :: nat
  a_height :: nat

definition area_pixels :: "area \<Rightarrow> nat" where
  "area_pixels a = a_width a * a_height a"

record canvas =
  c_width :: nat
  c_height :: nat
  c_rgba :: bytes

text \<open>
  \<open>VncError\<close>. The texts of the errors that the client words itself are constructors of
  \<open>protocol_error\<close> and \<open>unsupported\<close>, one a message.
\<close>

datatype protocol_error =
    Outside area nat nat | BadSubrect
  | TooBig | EndedEarly | ZlibError
  | ZrleTooBig | ZrleEarly | ZrlePalette | ZrleType byte
  | TightPalette | TightFilter byte | TightType nat | JpegError | JpegSize "nat \<times> nat" area
  | NotVnc | DesktopTooBig nat nat | CursorTooBig | NotAsked int | UnknownMessage byte

datatype unsupported =
    SecurityType nat | SecurityTypes bytes | VeNCryptVersion byte byte | VeNCryptRefused
  | NoSubtype | SubtypeRefused | NameTooLong

datatype vnc_error =
    VIo | VProtocol protocol_error | VUnsupported unsupported | VAuth str | VRefused str | VTimeout

definition canvas_resize :: "canvas \<Rightarrow> nat \<Rightarrow> nat \<Rightarrow> canvas" where
  "canvas_resize c width height =
     c\<lparr>c_width := width, c_height := height,
       c_rgba := concat (replicate (width * height) [0, 0, 0, 255])\<rparr>"

definition canvas_new :: "nat \<Rightarrow> nat \<Rightarrow> canvas" where
  "canvas_new width height = canvas_resize \<lparr>c_width = 0, c_height = 0, c_rgba = []\<rparr> width height"

definition canvas_check :: "canvas \<Rightarrow> area \<Rightarrow> (vnc_error, unit) outcome" where
  "canvas_check c a =
     (if a_x a + a_width a \<le> c_width c \<and> a_y a + a_height a \<le> c_height c then Ok ()
      else Err (VProtocol (Outside a (c_width c) (c_height c))))"

definition canvas_offset :: "canvas \<Rightarrow> nat \<Rightarrow> nat \<Rightarrow> nat" where
  "canvas_offset c x y = (y * c_width c + x) * 4"

text \<open>\<open>rgba[start..start + line.len()]\<close> overwritten with a line.\<close>

definition write_row :: "nat \<Rightarrow> bytes \<Rightarrow> canvas \<Rightarrow> (vnc_error, canvas) outcome" where
  "write_row start line c =
     (if start + length line \<le> length (c_rgba c) then Ok (c\<lparr>c_rgba := splice (c_rgba c) start line\<rparr>)
      else Panic)"

text \<open>One line after the other, at the rows from \<open>row\<close> on of an area.\<close>

fun write_rows :: "area \<Rightarrow> nat \<Rightarrow> bytes list \<Rightarrow> canvas \<Rightarrow> (vnc_error, canvas) outcome" where
  "write_rows a row [] c = Ok c"
| "write_rows a row (line # lines) c =
     obind (write_row (canvas_offset c (a_x a) (u16_add (a_y a) row)) line c)
       (write_rows a (row + 1) lines)"

definition fill :: "canvas \<Rightarrow> area \<Rightarrow> bytes \<Rightarrow> (vnc_error, canvas) outcome" where
  "fill c a rgb =
     write_rows a 0 (replicate (a_height a) (concat (replicate (a_width a) (take 3 rgb @ [255])))) c"

text \<open>\<open>chunks_exact\<close>: panics for a size of zero; what is left over is dropped.\<close>

function chunks :: "nat \<Rightarrow> 'a list \<Rightarrow> 'a list list" where
  "chunks n xs = (if n = 0 \<or> length xs < n then [] else take n xs # chunks n (drop n xs))"
  by pat_completeness auto

termination
  by (relation "measure (\<lambda>(n, xs). length xs)") auto

declare chunks.simps [simp del]

definition chunks_exact :: "nat \<Rightarrow> 'a list \<Rightarrow> ('e, 'a list list) outcome" where
  "chunks_exact n xs = (if n = 0 then Panic else Ok (chunks n xs))"

text \<open>A line of pixels with its fourth bytes set: from three bytes a pixel, or from four.\<close>

definition opaque3 :: "bytes \<Rightarrow> bytes" where
  "opaque3 line = concat (map (\<lambda>p. p @ [255]) (chunks 3 line))"

definition opaque4 :: "bytes \<Rightarrow> bytes" where
  "opaque4 line = concat (map (\<lambda>p. take 3 p @ [255]) (chunks 4 line))"

definition put_rgb :: "canvas \<Rightarrow> area \<Rightarrow> bytes \<Rightarrow> (vnc_error, canvas) outcome" where
  "put_rgb c a rgb =
     obind (chunks_exact (a_width a * 3) rgb) (\<lambda>lines.
       write_rows a 0 (map opaque3 (take (a_height a) lines)) c)"

definition put_rgbx :: "canvas \<Rightarrow> area \<Rightarrow> bytes \<Rightarrow> (vnc_error, canvas) outcome" where
  "put_rgbx c a rgbx =
     obind (chunks_exact (a_width a * 4) rgbx) (\<lambda>lines.
       write_rows a 0 (map opaque4 (take (a_height a) lines)) c)"

fun read_rows :: "canvas \<Rightarrow> area \<Rightarrow> nat \<Rightarrow> nat \<Rightarrow> (vnc_error, bytes) outcome" where
  "read_rows c a row 0 = Ok []"
| "read_rows c a row (Suc n) =
     (let start = canvas_offset c (a_x a) (u16_add (a_y a) row)
      in if start + a_width a * 4 \<le> length (c_rgba c)
         then obind (read_rows c a (row + 1) n) (\<lambda>rest.
                Ok (take (a_width a * 4) (drop start (c_rgba c)) @ rest))
         else Panic)"

definition canvas_read :: "canvas \<Rightarrow> area \<Rightarrow> (vnc_error, bytes) outcome" where
  "canvas_read c a = read_rows c a 0 (a_height a)"

definition canvas_copy :: "canvas \<Rightarrow> nat \<times> nat \<Rightarrow> area \<Rightarrow> (vnc_error, canvas) outcome" where
  "canvas_copy c from a =
     obind (canvas_read c (a\<lparr>a_x := fst from, a_y := snd from\<rparr>)) (put_rgbx c a)"

subsection \<open>The decoders\<close>

definition read_bytes :: "nat \<Rightarrow> bytes \<Rightarrow> (vnc_error, bytes \<times> bytes) outcome" where
  "read_bytes n input = (if length input < n then Err VIo else Ok (take n input, drop n input))"

definition read_pixel :: "bytes \<Rightarrow> (vnc_error, bytes \<times> bytes) outcome" where
  "read_pixel input = obind (read_bytes 4 input) (\<lambda>(p, input). Ok (take 3 p, input))"

definition read_u8 :: "bytes \<Rightarrow> (vnc_error, byte \<times> bytes) outcome" where
  "read_u8 input = obind (read_bytes 1 input) (\<lambda>(b, input). Ok (hd b, input))"

definition raw :: "bytes \<Rightarrow> canvas \<Rightarrow> area \<Rightarrow> (vnc_error, canvas \<times> bytes) outcome" where
  "raw input c a =
     obind (read_bytes (area_pixels a * 4) input) (\<lambda>(pixels, input).
     obind (put_rgbx c a pixels) (\<lambda>c. Ok (c, input)))"

definition copy_rect :: "bytes \<Rightarrow> canvas \<Rightarrow> area \<Rightarrow> (vnc_error, canvas \<times> bytes) outcome" where
  "copy_rect input c a =
     obind (read_bytes 2 input) (\<lambda>(x, input).
     obind (read_bytes 2 input) (\<lambda>(y, input).
     obind (canvas_check c (a\<lparr>a_x := from_be x, a_y := from_be y\<rparr>)) (\<lambda>_.
     obind (canvas_copy c (from_be x, from_be y) a) (\<lambda>c. Ok (c, input)))))"

text \<open>One subrectangle of a Hextile tile, and all of them.\<close>

definition subrect ::
  "bool \<Rightarrow> bytes \<Rightarrow> area \<Rightarrow> bytes \<Rightarrow> canvas \<Rightarrow> (vnc_error, canvas \<times> bytes) outcome" where
  "subrect coloured foreground tile input c =
     obind (if coloured then read_pixel input else Ok (foreground, input)) (\<lambda>(colour, input).
     obind (read_u8 input) (\<lambda>(xy, input).
     obind (read_u8 input) (\<lambda>(wh, input).
       let x = unat xy div 16; y = unat xy mod 16;
           w = unat wh div 16 + 1; h = unat wh mod 16 + 1
       in if x + w > a_width tile \<or> y + h > a_height tile then Err (VProtocol BadSubrect)
          else obind (fill c \<lparr>a_x = u16_add (a_x tile) x, a_y = u16_add (a_y tile) y,
                              a_width = w, a_height = h\<rparr> colour) (\<lambda>c. Ok (c, input)))))"

fun subrects ::
  "nat \<Rightarrow> bool \<Rightarrow> bytes \<Rightarrow> area \<Rightarrow> bytes \<Rightarrow> canvas \<Rightarrow> (vnc_error, canvas \<times> bytes) outcome" where
  "subrects 0 coloured foreground tile input c = Ok (c, input)"
| "subrects (Suc n) coloured foreground tile input c =
     obind (subrect coloured foreground tile input c)
       (\<lambda>(c, input). subrects n coloured foreground tile input c)"

record hextile_state =
  ht_background :: bytes
  ht_foreground :: bytes
  ht_canvas :: canvas
  ht_input :: bytes

definition bit_set :: "byte \<Rightarrow> nat \<Rightarrow> bool" where
  "bit_set flags n \<longleftrightarrow> odd (unat flags div 2 ^ n)"

definition hextile_tile :: "area \<Rightarrow> hextile_state \<Rightarrow> (vnc_error, hextile_state) outcome" where
  "hextile_tile tile s =
     obind (read_u8 (ht_input s)) (\<lambda>(flags, input).
       if bit_set flags 0 then
         obind (raw input (ht_canvas s) tile) (\<lambda>(c, input). Ok (s\<lparr>ht_canvas := c, ht_input := input\<rparr>))
       else
         obind (if bit_set flags 1 then read_pixel input else Ok (ht_background s, input)) (\<lambda>(background, input).
         obind (fill (ht_canvas s) tile background) (\<lambda>c.
         obind (if bit_set flags 2 then read_pixel input else Ok (ht_foreground s, input)) (\<lambda>(foreground, input).
           let s = s\<lparr>ht_background := background, ht_foreground := foreground\<rparr>
           in if \<not> bit_set flags 3 then Ok (s\<lparr>ht_canvas := c, ht_input := input\<rparr>)
              else obind (read_u8 input) (\<lambda>(count, input).
                   obind (subrects (unat count) (bit_set flags 4) foreground tile input c) (\<lambda>(c, input).
                     Ok (s\<lparr>ht_canvas := c, ht_input := input\<rparr>)))))))"

text \<open>\<open>(0..n).step_by(16)\<close>.\<close>

definition step_by16 :: "nat \<Rightarrow> nat list" where
  "step_by16 n = map (\<lambda>i. 16 * i) [0 ..< div_ceil n 16]"

definition hextile_tiles :: "area \<Rightarrow> area list" where
  "hextile_tiles a =
     concat (map (\<lambda>top. map (\<lambda>left.
       \<lparr>a_x = u16_add (a_x a) left, a_y = u16_add (a_y a) top,
        a_width = min (a_width a - left) 16, a_height = min (a_height a - top) 16\<rparr>)
       (step_by16 (a_width a))) (step_by16 (a_height a)))"

fun hextile_run :: "area list \<Rightarrow> hextile_state \<Rightarrow> (vnc_error, hextile_state) outcome" where
  "hextile_run [] s = Ok s"
| "hextile_run (tile # tiles) s = obind (hextile_tile tile s) (hextile_run tiles)"

definition hextile :: "bytes \<Rightarrow> canvas \<Rightarrow> area \<Rightarrow> (vnc_error, canvas \<times> bytes) outcome" where
  "hextile input c a =
     obind (hextile_run (hextile_tiles a)
              \<lparr>ht_background = [0, 0, 0], ht_foreground = [0, 0, 0], ht_canvas = c, ht_input = input\<rparr>)
       (\<lambda>s. Ok (ht_canvas s, ht_input s))"

subsection \<open>Drawing inside an area\<close>

definition canvas_ok :: "canvas \<Rightarrow> bool" where
  "canvas_ok c \<longleftrightarrow> c_width c \<le> u16_max \<and> c_height c \<le> u16_max \<and>
     length (c_rgba c) = c_width c * c_height c * 4"

definition inside :: "area \<Rightarrow> nat \<Rightarrow> nat \<Rightarrow> bool" where
  "inside a px py \<longleftrightarrow> a_x a \<le> px \<and> px < a_x a + a_width a \<and> a_y a \<le> py \<and> py < a_y a + a_height a"

definition fits :: "canvas \<Rightarrow> area \<Rightarrow> bool" where
  "fits c a \<longleftrightarrow> a_x a + a_width a \<le> c_width c \<and> a_y a + a_height a \<le> c_height c"

lemma canvas_check_Ok: "canvas_check c a = Ok () \<longleftrightarrow> fits c a"
  by (simp add: canvas_check_def fits_def)

text \<open>\<open>c'\<close> is \<open>c\<close> drawn on inside the area only.\<close>

definition drawn :: "area \<Rightarrow> canvas \<Rightarrow> canvas \<Rightarrow> bool" where
  "drawn a c c' \<longleftrightarrow> canvas_ok c' \<and> c_width c' = c_width c \<and> c_height c' = c_height c \<and>
     (\<forall>k < length (c_rgba c). \<not> inside a (k div 4 mod c_width c) (k div 4 div c_width c) \<longrightarrow>
        c_rgba c' ! k = c_rgba c ! k)"

lemma drawn_refl: "canvas_ok c \<Longrightarrow> drawn a c c"
  by (simp add: drawn_def)

lemma drawn_trans:
  assumes "drawn a c c'" and "drawn a c' c''" and "canvas_ok c"
  shows "drawn a c c''"
  using assms by (auto simp: drawn_def canvas_ok_def)

definition contains :: "area \<Rightarrow> area \<Rightarrow> bool" where
  "contains a b \<longleftrightarrow> a_x a \<le> a_x b \<and> a_x b + a_width b \<le> a_x a + a_width a \<and>
     a_y a \<le> a_y b \<and> a_y b + a_height b \<le> a_y a + a_height a"

lemma drawn_mono: "drawn b c c' \<Longrightarrow> contains a b \<Longrightarrow> drawn a c c'"
  by (auto simp: drawn_def contains_def inside_def)

lemma fits_mono: "fits c a \<Longrightarrow> contains a b \<Longrightarrow> fits c b"
  by (auto simp: fits_def contains_def)

text \<open>A row of an area that fits lies in the buffer.\<close>

lemma row_fits:
  assumes "canvas_ok c" and "fits c a" and "row < a_height a"
  shows "canvas_offset c (a_x a) (u16_add (a_y a) row) = (a_y a + row) * c_width c * 4 + a_x a * 4"
    and "canvas_offset c (a_x a) (u16_add (a_y a) row) + a_width a * 4 \<le> length (c_rgba c)"
proof -
  let ?s = "canvas_offset c (a_x a) (u16_add (a_y a) row)"
  have y: "u16_add (a_y a) row = a_y a + row" "a_y a + row < c_height c"
    using assms by (auto simp: canvas_ok_def fits_def u16_max_def)
  then show s: "?s = (a_y a + row) * c_width c * 4 + a_x a * 4"
    by (simp add: canvas_offset_def algebra_simps)
  have "(a_y a + row) * c_width c * 4 + (a_x a + a_width a) * 4 \<le> (a_y a + row + 1) * c_width c * 4"
    using assms(2) by (simp add: fits_def)
  also have "\<dots> \<le> c_height c * c_width c * 4" using y(2) by (intro mult_le_mono1) simp
  finally show "?s + a_width a * 4 \<le> length (c_rgba c)"
    using s assms(1) by (simp add: canvas_ok_def mult.commute)
qed

lemma write_row_drawn:
  assumes "canvas_ok c" and "fits c a" and "row < a_height a" and "length line = a_width a * 4"
  shows "\<exists>c'. write_row (canvas_offset c (a_x a) (u16_add (a_y a) row)) line c = Ok c' \<and> drawn a c c'"
proof -
  let ?s = "canvas_offset c (a_x a) (u16_add (a_y a) row)"
  note s = row_fits(1) [OF assms(1-3)]
  have e: "?s + length line = (a_y a + row) * c_width c * 4 + (a_x a + a_width a) * 4"
    using s assms(4) by simp
  have fit: "?s + length line \<le> length (c_rgba c)" using row_fits(2) [OF assms(1-3)] assms(4) by simp
  let ?c = "c\<lparr>c_rgba := splice (c_rgba c) ?s line\<rparr>"
  have "splice (c_rgba c) ?s line ! k = c_rgba c ! k"
    if k: "k < length (c_rgba c)" "\<not> inside a (k div 4 mod c_width c) (k div 4 div c_width c)" for k
  proof (rule nth_splice_out [OF fit _ k(1)], rule ccontr)
    assume "\<not> (k < ?s \<or> ?s + length line \<le> k)"
    then have "(a_y a + row) * c_width c * 4 + a_x a * 4 \<le> k"
      "k < (a_y a + row) * c_width c * 4 + (a_x a + a_width a) * 4" using s e by auto
    from byte_in_row [OF this] k(2) show False using assms(2,3) by (auto simp: inside_def fits_def)
  qed
  then have "drawn a c ?c" using assms(1) fit by (simp add: drawn_def canvas_ok_def)
  then show ?thesis using fit by (simp add: write_row_def)
qed

lemma write_rows_drawn:
  assumes "canvas_ok c" and "fits c a" and "row + length lines \<le> a_height a"
    and "\<forall>line \<in> set lines. length line = a_width a * 4"
  shows "\<exists>c'. write_rows a row lines c = Ok c' \<and> drawn a c c'"
  using assms
proof (induction lines arbitrary: row c)
  case (Cons line lines)
  obtain c1 where c1: "write_row (canvas_offset c (a_x a) (u16_add (a_y a) row)) line c = Ok c1" "drawn a c c1"
    using write_row_drawn [OF Cons.prems(1,2), of row line] Cons.prems(3,4) by auto
  have "canvas_ok c1" "fits c1 a" using c1(2) Cons.prems(2) by (simp_all add: drawn_def fits_def)
  with Cons.IH [of c1 "row + 1"] Cons.prems(3,4) obtain c2 where
    "write_rows a (row + 1) lines c1 = Ok c2" "drawn a c1 c2" by auto
  then show ?case using c1 drawn_trans [OF c1(2) _ Cons.prems(1)] by auto
qed (simp add: drawn_refl)

lemma length_concat_replicate: "length (concat (replicate n xs)) = n * length xs"
  by (induction n) auto

lemma fill_drawn:
  assumes "canvas_ok c" and "fits c a" and "length rgb = 3"
  shows "\<exists>c'. fill c a rgb = Ok c' \<and> drawn a c c'"
  unfolding fill_def
  by (rule write_rows_drawn) (use assms in \<open>auto simp: length_concat_replicate\<close>)

lemma length_chunks: "0 < n \<Longrightarrow> length (chunks n xs) = length xs div n"
proof (induction n xs rule: chunks.induct)
  case (1 n xs)
  show ?case
  proof (cases "length xs < n")
    case True
    then show ?thesis by (subst chunks.simps) simp
  next
    case False
    then have "length (chunks n xs) = Suc ((length xs - n) div n)"
      using 1 by (subst chunks.simps) simp
    then show ?thesis using False 1(2) by (simp add: le_div_geq)
  qed
qed

lemma length_chunk: "c \<in> set (chunks n xs) \<Longrightarrow> length c = n"
proof (induction n xs rule: chunks.induct)
  case (1 n xs)
  then show ?case by (cases "n = 0 \<or> length xs < n") (auto simp: chunks.simps [of n xs])
qed

lemma length_opaque4: "length line = 4 * n \<Longrightarrow> length (opaque4 line) = 4 * n"
proof -
  assume len: "length line = 4 * n"
  have "length (concat (map (\<lambda>p. take 3 p @ [255]) ps)) = 4 * length ps"
    if "\<forall>p \<in> set ps. length p = 4" for ps :: "bytes list"
    using that by (induction ps) auto
  then show ?thesis using len length_chunk [of _ 4 line] by (simp add: opaque4_def length_chunks)
qed

lemma put_rgbx_drawn:
  assumes "canvas_ok c" and "fits c a" and "0 < a_width a"
  shows "\<exists>c'. put_rgbx c a bytes = Ok c' \<and> drawn a c c'"
proof -
  have "\<forall>line \<in> set (map opaque4 (take (a_height a) (chunks (a_width a * 4) bytes))). length line = a_width a * 4"
    using length_chunk [of _ "a_width a * 4" bytes] length_opaque4 [of _ "a_width a"]
    by (auto simp: mult.commute dest!: in_set_takeD)
  with assms write_rows_drawn [OF assms(1,2), of 0 "map opaque4 (take (a_height a) (chunks (a_width a * 4) bytes))"]
  show ?thesis by (simp add: put_rgbx_def chunks_exact_def)
qed

lemma read_rows_Ok:
  assumes "canvas_ok c" and "fits c a" and "row + n \<le> a_height a"
  shows "\<exists>bs. read_rows c a row n = Ok bs"
  using assms(3)
proof (induction n arbitrary: row)
  case (Suc n)
  then show ?case using Suc.IH [of "row + 1"] row_fits(2) [OF assms(1,2), of row] by (auto simp: Let_def)
qed simp

lemma canvas_copy_drawn:
  assumes "canvas_ok c" and "fits c a" and "fits c (a\<lparr>a_x := fst from, a_y := snd from\<rparr>)" and "0 < a_width a"
  shows "\<exists>c'. canvas_copy c from a = Ok c' \<and> drawn a c c'"
proof -
  obtain bs where "canvas_read c (a\<lparr>a_x := fst from, a_y := snd from\<rparr>) = Ok bs"
    using read_rows_Ok [OF assms(1,3), of 0 "a_height a"] by (auto simp: canvas_read_def)
  then show ?thesis using put_rgbx_drawn [OF assms(1,2,4)] by (simp add: canvas_copy_def)
qed

subsection \<open>Outcomes that do not panic\<close>

definition safely :: "('a \<Rightarrow> bool) \<Rightarrow> ('e, 'a) outcome \<Rightarrow> bool" where
  "safely P r \<longleftrightarrow> (case r of Ok x \<Rightarrow> P x | Err _ \<Rightarrow> True | Panic \<Rightarrow> False)"

lemma safely_simps [simp]: "safely P (Ok x) = P x" "safely P (Err e)" "\<not> safely P Panic"
  by (simp_all add: safely_def)

lemma safely_obind: "safely Q m \<Longrightarrow> (\<And>a. Q a \<Longrightarrow> safely P (f a)) \<Longrightarrow> safely P (obind m f)"
  by (cases m) auto

lemma safely_ExOk: "\<exists>x. m = Ok x \<and> P x \<Longrightarrow> safely P m"
  by auto

lemma read_bytes_safely: "safely (\<lambda>(bs, rest). length bs = n) (read_bytes n input)"
  by (simp add: read_bytes_def)

lemma read_pixel_safely: "safely (\<lambda>(bs, rest). length bs = 3) (read_pixel input)"
  unfolding read_pixel_def by (rule safely_obind [OF read_bytes_safely]) auto

lemma read_u8_safely: "safely (\<lambda>_. True) (read_u8 input)"
  unfolding read_u8_def by (rule safely_obind [OF read_bytes_safely]) auto

lemma raw_safely:
  assumes "canvas_ok c" and "fits c a" and "0 < a_width a"
  shows "safely (\<lambda>(c', rest). drawn a c c') (raw input c a)"
  unfolding raw_def
proof (rule safely_obind [OF read_bytes_safely])
  fix r show "safely (\<lambda>(c', rest). drawn a c c') (case r of (pixels, input) \<Rightarrow>
      obind (put_rgbx c a pixels) (\<lambda>c. Ok (c, input)))"
    using put_rgbx_drawn [OF assms, of "fst r"] by (cases r) auto
qed

lemma copy_rect_safely:
  assumes "canvas_ok c" and "fits c a" and "0 < a_width a"
  shows "safely (\<lambda>(c', rest). drawn a c c') (copy_rect input c a)"
  unfolding copy_rect_def split_beta
proof (rule safely_obind [OF read_bytes_safely], rule safely_obind [OF read_bytes_safely], goal_cases)
  case (1 x y)
  let ?x = "from_be (fst x)" and ?y = "from_be (fst y)"
  show ?case
    using canvas_copy_drawn [OF assms(1,2), of "(?x, ?y)"] assms(3)
      canvas_check_Ok [of c "a\<lparr>a_x := ?x, a_y := ?y\<rparr>"]
    by (cases "canvas_check c (a\<lparr>a_x := ?x, a_y := ?y\<rparr>)") (auto simp: canvas_check_def split: if_splits)
qed

lemma subrect_safely:
  assumes "canvas_ok c" and "fits c tile" and "length foreground = 3"
  shows "safely (\<lambda>(c', rest). drawn tile c c') (subrect coloured foreground tile input c)"
  unfolding subrect_def split_beta
proof (rule safely_obind [where Q = "\<lambda>p. length (fst p) = 3"], goal_cases)
  case 1
  then show ?case using read_pixel_safely [of input] assms(3) by (simp add: split_beta')
next
  case (2 colour)
  show ?case
  proof (rule safely_obind [OF read_u8_safely], rule safely_obind [OF read_u8_safely], goal_cases)
    case (1 xy wh)
    let ?x = "unat (fst xy) div 16" and ?y = "unat (fst xy) mod 16"
    let ?w = "unat (fst wh) div 16 + 1" and ?h = "unat (fst wh) mod 16 + 1"
    let ?a = "\<lparr>a_x = u16_add (a_x tile) ?x, a_y = u16_add (a_y tile) ?y, a_width = ?w, a_height = ?h\<rparr>"
    show ?case
    proof (cases "?x + ?w > a_width tile \<or> ?y + ?h > a_height tile")
      case False
      then have "u16_add (a_x tile) ?x = a_x tile + ?x" "u16_add (a_y tile) ?y = a_y tile + ?y"
        using assms(1,2) by (auto simp: fits_def canvas_ok_def u16_max_def)
      then have sub: "contains tile ?a" using False by (auto simp: contains_def)
      obtain c' where "fill c ?a (fst colour) = Ok c'" "drawn ?a c c'"
        using fill_drawn [OF assms(1) fits_mono [OF assms(2) sub] 2] by blast
      then show ?thesis using False drawn_mono [OF _ sub] by (simp add: Let_def)
    qed (simp add: Let_def)
  qed
qed

lemma subrects_safely:
  assumes "canvas_ok c" and "fits c tile" and "length foreground = 3"
  shows "safely (\<lambda>(c', rest). drawn tile c c') (subrects n coloured foreground tile input c)"
  using assms(1,2)
proof (induction n arbitrary: input c)
  case (Suc n)
  show ?case
    unfolding subrects.simps split_beta
  proof (rule safely_obind [OF subrect_safely [OF Suc.prems assms(3)]], goal_cases)
    case (1 p)
    then have d: "drawn tile c (fst p)" by (simp add: split_beta)
    then have "canvas_ok (fst p)" "fits (fst p) tile" using Suc.prems(2) by (simp_all add: drawn_def fits_def)
    from Suc.IH [OF this, of "snd p"] show ?case
      using drawn_trans [OF d _ Suc.prems(1)]
      by (cases "subrects n coloured foreground tile (snd p) (fst p)") (auto simp: split_beta')
  qed
qed (simp add: drawn_refl)

lemma step_by16_less: "left \<in> set (step_by16 n) \<Longrightarrow> left < n"
proof -
  assume "left \<in> set (step_by16 n)"
  then obtain i where "left = 16 * i" "i < (n + 15) div 16" by (auto simp: step_by16_def div_ceil_def)
  then show ?thesis by linarith
qed

lemma hextile_tiles_inside:
  assumes "canvas_ok c" and "fits c a" and "tile \<in> set (hextile_tiles a)"
  shows "contains a tile \<and> 0 < a_width tile"
proof -
  obtain top left where tl: "top \<in> set (step_by16 (a_height a))" "left \<in> set (step_by16 (a_width a))"
    and t: "tile = \<lparr>a_x = u16_add (a_x a) left, a_y = u16_add (a_y a) top,
        a_width = min (a_width a - left) 16, a_height = min (a_height a - top) 16\<rparr>"
    using assms(3) by (auto simp: hextile_tiles_def)
  have less: "left < a_width a" "top < a_height a" using tl step_by16_less by auto
  then have "u16_add (a_x a) left = a_x a + left" "u16_add (a_y a) top = a_y a + top"
    using assms(1,2) by (auto simp: fits_def canvas_ok_def u16_max_def)
  then show ?thesis using t less by (auto simp: contains_def)
qed

definition tile_ok :: "area \<Rightarrow> canvas \<Rightarrow> hextile_state \<Rightarrow> bool" where
  "tile_ok a c s \<longleftrightarrow> drawn a c (ht_canvas s) \<and> length (ht_background s) = 3 \<and> length (ht_foreground s) = 3"

lemma drawn_within:
  assumes "canvas_ok c" and "contains a tile" and "drawn a c c'" and "drawn tile c' c''"
  shows "drawn a c c''"
  using drawn_trans [OF assms(3) drawn_mono [OF assms(4,2)] assms(1)] .

text \<open>The end of a tile: its subrectangles, when it has any.\<close>

lemma tile_subrects_safely:
  assumes "canvas_ok c" and "fits c a" and "contains a tile" and "drawn a c c'"
    and "length b = 3" and "length f = 3"
  shows "safely (tile_ok a c) (let s = s\<lparr>ht_background := b, ht_foreground := f\<rparr>
    in if \<not> subs then Ok (s\<lparr>ht_canvas := c', ht_input := input\<rparr>)
       else obind (read_u8 input) (\<lambda>p.
            obind (subrects (unat (fst p)) coloured f tile (snd p) c') (\<lambda>x.
              Ok (s\<lparr>ht_canvas := fst x, ht_input := snd x\<rparr>))))"
proof (cases subs)
  case True
  have ok: "canvas_ok c'" "fits c' tile"
    using assms(4) fits_mono [OF assms(2,3)] by (simp_all add: drawn_def fits_def)
  have "safely (tile_ok a c) (obind (read_u8 input) (\<lambda>p.
      obind (subrects (unat (fst p)) coloured f tile (snd p) c') (\<lambda>x.
        Ok (s\<lparr>ht_background := b, ht_foreground := f, ht_canvas := fst x, ht_input := snd x\<rparr>))))"
    by (rule safely_obind [OF read_u8_safely], rule safely_obind [OF subrects_safely [OF ok assms(6)]])
       (use assms(5,6) drawn_within [OF assms(1,3,4)] in \<open>auto simp: tile_ok_def\<close>)
  then show ?thesis using True by simp
qed (use assms(4-6) in \<open>simp add: tile_ok_def\<close>)

lemma hextile_tile_safely:
  assumes "canvas_ok c" and "fits c a" and "contains a tile" and "0 < a_width tile" and "tile_ok a c s"
  shows "safely (tile_ok a c) (hextile_tile tile s)"
proof -
  let ?c = "ht_canvas s"
  have ok: "canvas_ok ?c" "fits ?c tile" and d: "drawn a c ?c"
    and bg: "length (ht_background s) = 3" "length (ht_foreground s) = 3"
    using assms(5) fits_mono [OF assms(2,3)] by (auto simp: tile_ok_def drawn_def fits_def)
  note keep = drawn_within [OF assms(1,3) d]
  show ?thesis
    unfolding hextile_tile_def split_beta
  proof (rule safely_obind [OF read_u8_safely], goal_cases)
    case (1 m)
    have "safely (tile_ok a c) (obind (raw (snd m) ?c tile)
        (\<lambda>x. Ok (s\<lparr>ht_canvas := fst x, ht_input := snd x\<rparr>)))"
      by (rule safely_obind [OF raw_safely [OF ok assms(4)]]) (use keep bg in \<open>auto simp: tile_ok_def\<close>)
    moreover have "safely (tile_ok a c)
        (obind (if bit_set (fst m) 1 then read_pixel (snd m) else Ok (ht_background s, snd m)) (\<lambda>p.
         obind (fill ?c tile (fst p)) (\<lambda>c'.
         obind (if bit_set (fst m) 2 then read_pixel (snd p) else Ok (ht_foreground s, snd p)) (\<lambda>q.
           let s = s\<lparr>ht_background := fst p, ht_foreground := fst q\<rparr>
           in if \<not> bit_set (fst m) 3 then Ok (s\<lparr>ht_canvas := c', ht_input := snd q\<rparr>)
              else obind (read_u8 (snd q)) (\<lambda>r.
                   obind (subrects (unat (fst r)) (bit_set (fst m) 4) (fst q) tile (snd r) c') (\<lambda>x.
                     Ok (s\<lparr>ht_canvas := fst x, ht_input := snd x\<rparr>)))))))"
    proof (rule safely_obind [where Q = "\<lambda>p. length (fst p) = 3"], goal_cases)
      case 1
      then show ?case using read_pixel_safely [of "snd m"] bg(1) by (simp add: split_beta')
    next
      case (2 p)
      from fill_drawn [OF ok 2] have "safely (drawn tile ?c) (fill ?c tile (fst p))" by (rule safely_ExOk)
      then show ?case
      proof (rule safely_obind, rule_tac safely_obind [where Q = "\<lambda>q. length (fst q) = 3"], goal_cases)
        case (1 c')
        then show ?case using read_pixel_safely [of "snd p"] bg(2) by (simp add: split_beta')
      next
        case (2 c' q)
        show ?case by (rule tile_subrects_safely [OF assms(1-3) keep [OF 2(1)]]) (use 2 \<open>length (fst p) = 3\<close> in auto)
      qed
    qed
    ultimately show ?case by simp
  qed
qed

lemma hextile_run_safely:
  assumes "canvas_ok c" and "fits c a" and "\<forall>tile \<in> set tiles. contains a tile \<and> 0 < a_width tile"
    and "tile_ok a c s"
  shows "safely (tile_ok a c) (hextile_run tiles s)"
  using assms(3,4)
proof (induction tiles arbitrary: s)
  case (Cons tile tiles)
  show ?case
    unfolding hextile_run.simps
    by (rule safely_obind [OF hextile_tile_safely [OF assms(1,2)]]) (use Cons in auto)
qed simp

lemma hextile_safely:
  assumes "canvas_ok c" and "fits c a"
  shows "safely (\<lambda>(c', rest). drawn a c c') (hextile input c a)"
  unfolding hextile_def
  by (rule safely_obind [OF hextile_run_safely [OF assms]])
     (use hextile_tiles_inside [OF assms] drawn_refl [OF assms(1)] in \<open>auto simp: tile_ok_def\<close>)

lemma canvas_new_ok: "w \<le> u16_max \<Longrightarrow> h \<le> u16_max \<Longrightarrow> canvas_ok (canvas_new w h)"
  by (simp add: canvas_ok_def canvas_new_def canvas_resize_def length_concat_replicate)

text \<open>
  a Raw rectangle of width zero passes the check of the canvas and panics the session: its
  pixels are split into lines of zero bytes.
\<close>

theorem raw_zero_width_panics:
  assumes "a_width a = 0" and "fits c a"
  shows "canvas_check c a = Ok () \<and> raw input c a = Panic"
  using assms by (simp add: canvas_check_Ok raw_def read_bytes_def area_pixels_def put_rgbx_def chunks_exact_def)

theorem raw_zero_width_panics_witness:
  "raw [] (canvas_new 3 3) \<lparr>a_x = 1, a_y = 1, a_width = 0, a_height = 1\<rparr> = Panic"
  using raw_zero_width_panics [of "\<lparr>a_x = 1, a_y = 1, a_width = 0, a_height = 1\<rparr>" "canvas_new 3 3" "[]"]
  by (simp add: fits_def canvas_new_def canvas_resize_def)

end
