(* ===== verification/Vnc_Decode.thy ===== *)
theory Vnc_Decode
  imports Vnc_Canvas
begin

text \<open>
  The decoders of VNC's compressed rectangles (\<open>crates/opensesh-vnc/src/decode.rs\<close>): the zlib
  streams of a connection, ZRLE, Tight with its palette and gradient filters, and the cursor.

  The crates behind them are the record \<open>codecs\<close>: a zlib stream (new, reset, one call of
  \<open>decompress_vec\<close> with the room left in the vector), the capacity a vector is given when it has to
  hold a number of bytes, and the JPEG decoder. What \<open>decompress_vec\<close> reads is part of its input and what
  it writes fits the vector's capacity, so \<open>decompress_vec\<close> below cuts a codec's answer to that; a
  vector asked for room has at least that much.
\<close>

record 'z codecs =
  z_new :: 'z
  z_reset :: "'z \<Rightarrow> 'z"
  z_run :: "'z \<Rightarrow> bytes \<Rightarrow> nat \<Rightarrow> ('z \<times> bool \<times> nat \<times> bytes) option"
  v_grow :: "nat \<Rightarrow> nat \<Rightarrow> nat"
  jpeg_decode :: "bytes \<Rightarrow> (bytes \<times> (nat \<times> nat) option) option"

definition with_capacity :: "'z codecs \<Rightarrow> nat \<Rightarrow> nat" where
  "with_capacity z n = max n (v_grow z 0 n)"

definition reserve :: "'z codecs \<Rightarrow> nat \<Rightarrow> nat \<Rightarrow> nat \<Rightarrow> nat" where
  "reserve z len cap additional =
     (if len + additional \<le> cap then cap else max (len + additional) (v_grow z cap (len + additional)))"

definition decompress_vec :: "'z codecs \<Rightarrow> 'z \<Rightarrow> bytes \<Rightarrow> nat \<Rightarrow> ('z \<times> bool \<times> nat \<times> bytes) option" where
  "decompress_vec z s input room =
     map_option (\<lambda>(s, ended, n, w). (s, ended, min n (length input), take room w)) (z_run z s input room)"

subsection \<open>Inflating\<close>

definition enough :: "nat option \<Rightarrow> bytes \<Rightarrow> bool" where
  "enough expected out \<longleftrightarrow> (case expected of Some n \<Rightarrow> n \<le> length out | None \<Rightarrow> False)"

definition more_room :: "'z codecs \<Rightarrow> nat \<Rightarrow> bytes \<Rightarrow> nat \<Rightarrow> nat" where
  "more_room z limit out cap =
     (if length out = cap
      then reserve z (length out) cap (min (max (length out) 4096) (limit + 1 - length out))
      else cap)"

lemma more_room_grows:
  "length out = cap \<Longrightarrow> \<not> limit < length out \<Longrightarrow> cap < more_room z limit out cap"
  by (auto simp: more_room_def reserve_def)

lemma decompress_vec_bounds:
  "decompress_vec z s input room = Some (s', ended, n, written) \<Longrightarrow>
   n \<le> length input \<and> length written \<le> room"
  by (auto simp: decompress_vec_def)

function inflate_loop ::
  "'z codecs \<Rightarrow> bytes \<Rightarrow> nat option \<Rightarrow> nat \<Rightarrow> 'z \<Rightarrow> nat \<Rightarrow> bytes \<Rightarrow> nat
     \<Rightarrow> (vnc_error, bytes \<times> 'z) outcome" where
  "inflate_loop z input expected limit s consumed out cap =
     (if enough expected out then Ok (out, s)
      else if length out = cap \<and> limit < length out then Err (VProtocol TooBig)
      else case decompress_vec z s (drop consumed input) (more_room z limit out cap - length out) of
             None \<Rightarrow> Err (VProtocol ZlibError)
           | Some (s', ended, n, written) \<Rightarrow>
               if ended \<or> n = 0 \<and> written = [] then Ok (out @ written, s')
               else inflate_loop z input expected limit s' (min (consumed + n) (length input))
                      (out @ written) (more_room z limit out cap))"
  by pat_completeness auto

termination
proof (relation "measures [\<lambda>(z, input, expected, limit, s, consumed, out, cap). limit + 1 - cap,
    \<lambda>(z, input, expected, limit, s, consumed, out, cap). cap - length out,
    \<lambda>(z, input, expected, limit, s, consumed, out, cap). length input - consumed]", goal_cases)
  case (2 z input expected limit s consumed out cap p s' q ended r n written)
  let ?cap = "more_room z limit out cap"
  have b: "n \<le> length input - consumed" "length written \<le> ?cap - length out"
    using decompress_vec_bounds [of z s "drop consumed input" "?cap - length out" s' ended n written] 2 by auto
  show ?case
  proof (cases "length out = cap")
    case True
    then have "\<not> limit < length out" using 2 by auto
    with more_room_grows [OF True this, of z] True have "limit + 1 - ?cap < limit + 1 - cap" by linarith
    then show ?thesis by simp
  next
    case False
    then have "?cap = cap" by (simp add: more_room_def)
    moreover have "n \<noteq> 0 \<or> written \<noteq> []" using 2 by auto
    ultimately show ?thesis using b by (cases written) auto
  qed
qed auto

declare inflate_loop.simps [simp del]

definition inflate ::
  "'z codecs \<Rightarrow> 'z \<Rightarrow> bytes \<Rightarrow> nat option \<Rightarrow> nat \<Rightarrow> (vnc_error, bytes \<times> 'z) outcome" where
  "inflate z s input expected limit =
     (let asked = (case expected of Some n \<Rightarrow> n | None \<Rightarrow> length input * 4)
      in obind (inflate_loop z input expected limit s 0 [] (with_capacity z (max (min asked limit) 64)))
           (\<lambda>(out, s). case expected of
              Some n \<Rightarrow> if length out < n then Err (VProtocol EndedEarly) else Ok (take n out, s)
            | None \<Rightarrow> if limit < length out then Err (VProtocol TooBig) else Ok (out, s)))"

lemma inflate_loop_no_panic: "inflate_loop z input expected limit s consumed out cap \<noteq> Panic"
proof (induction z input expected limit s consumed out cap rule: inflate_loop.induct)
  case (1 z input expected limit s consumed out cap)
  show ?case
    by (subst inflate_loop.simps) (auto split: option.splits simp: 1)
qed

text \<open>What comes out has the length expected, or at most the limit.\<close>

lemma inflate_safely:
  "safely (\<lambda>(out, s'). case expected of Some n \<Rightarrow> length out = n | None \<Rightarrow> length out \<le> limit)
     (inflate z s input expected limit)"
  unfolding inflate_def Let_def
proof (rule safely_obind [where Q = "\<lambda>_. True"], goal_cases)
  case 1
  show ?case unfolding safely_def
    by (auto simp: inflate_loop_no_panic split: outcome.split)
next
  case (2 p)
  show ?case by (cases p; cases expected) auto
qed

subsection \<open>ZRLE\<close>

text \<open>\<open>Bytes\<close>: a slice read from the front.\<close>

definition slice_take :: "nat \<Rightarrow> bytes \<Rightarrow> (vnc_error, bytes \<times> bytes) outcome" where
  "slice_take n input =
     (if length input < n then Err (VProtocol ZrleEarly) else Ok (take n input, drop n input))"

definition slice_byte :: "bytes \<Rightarrow> (vnc_error, byte \<times> bytes) outcome" where
  "slice_byte input = obind (slice_take 1 input) (\<lambda>(b, input). Ok (b ! 0, input))"

definition cpixel :: "bytes \<Rightarrow> (vnc_error, bytes \<times> bytes) outcome" where
  "cpixel input = slice_take 3 input"

fun run_from :: "nat \<Rightarrow> bytes \<Rightarrow> (vnc_error, nat \<times> bytes) outcome" where
  "run_from n [] = Err (VProtocol ZrleEarly)"
| "run_from n (b # input) = (if b \<noteq> 255 then Ok (n + unat b, input) else run_from (n + unat b) input)"

definition run_length :: "bytes \<Rightarrow> (vnc_error, nat \<times> bytes) outcome" where
  "run_length = run_from 1"

fun cpixels :: "nat \<Rightarrow> bytes \<Rightarrow> (vnc_error, bytes list \<times> bytes) outcome" where
  "cpixels 0 input = Ok ([], input)"
| "cpixels (Suc n) input =
     obind (cpixel input) (\<lambda>(p, input). obind (cpixels n input) (\<lambda>(ps, input). Ok (p # ps, input)))"

text \<open>The positions of an area, row after row, and the bytes of each joined until one fails.\<close>

definition positions :: "nat \<Rightarrow> nat \<Rightarrow> (nat \<times> nat) list" where
  "positions w h = concat (map (\<lambda>y. map (\<lambda>x. (x, y)) [0 ..< w]) [0 ..< h])"

fun gather :: "('p \<Rightarrow> ('e, 'b list) outcome) \<Rightarrow> 'p list \<Rightarrow> ('e, 'b list) outcome" where
  "gather f [] = Ok []"
| "gather f (p # ps) = obind (f p) (\<lambda>b. obind (gather f ps) (\<lambda>bs. Ok (b @ bs)))"

definition palette_bits :: "nat \<Rightarrow> nat" where
  "palette_bits n = (if n = 2 then 1 else if n = 3 \<or> n = 4 then 2 else 4)"

definition packed_pixel ::
  "nat \<Rightarrow> nat \<Rightarrow> bytes list \<Rightarrow> bytes \<Rightarrow> nat \<times> nat \<Rightarrow> (vnc_error, bytes) outcome" where
  "packed_pixel bits row palette packed = (\<lambda>(x, y).
     let bit = x * bits; i = y * row + bit div 8
     in if length packed \<le> i \<or> 8 < bits + bit mod 8 then Panic
        else let index = unat (packed ! i) div 2 ^ (8 - bits - bit mod 8) mod 2 ^ bits
             in if index < length palette then Ok (palette ! index) else Err (VProtocol ZrlePalette))"

text \<open>One run of a tile: a pixel and its length, or an index into a palette with its top bit set
  when a length follows.\<close>

definition tile_run :: "bytes list option \<Rightarrow> bytes \<Rightarrow> (vnc_error, (bytes \<times> nat) \<times> bytes) outcome" where
  "tile_run palette input =
     (case palette of
        None \<Rightarrow> obind (cpixel input) (\<lambda>(colour, input).
                obind (run_length input) (\<lambda>(n, input). Ok ((colour, n), input)))
      | Some ps \<Rightarrow> obind (slice_byte input) (\<lambda>(index, input).
          if unat index mod 128 < length ps then
            obind (if 128 \<le> unat index then run_length input else Ok (1, input)) (\<lambda>(n, input).
              Ok ((ps ! (unat index mod 128), n), input))
          else Err (VProtocol ZrlePalette)))"

lemma run_from_shorter: "run_from n input = Ok (m, rest) \<Longrightarrow> length rest < length input \<and> n \<le> m"
  by (induction n input rule: run_from.induct) (fastforce split: if_splits)+

lemma tile_run_shorter: "tile_run palette input = Ok (r, rest) \<Longrightarrow> length rest < length input"
  by (auto simp: tile_run_def cpixel_def slice_byte_def slice_take_def run_length_def
    split: option.splits if_splits dest!: run_from_shorter)

function tile_runs ::
  "bytes list option \<Rightarrow> nat \<Rightarrow> bytes \<Rightarrow> bytes \<Rightarrow> (vnc_error, bytes \<times> bytes) outcome" where
  "tile_runs palette pixels rgb input =
     (if length rgb < pixels * 3 then
        obind (tile_run palette input) (\<lambda>(r, rest).
          tile_runs palette pixels
            (rgb @ concat (replicate (min (snd r) (pixels - length rgb div 3)) (fst r))) rest)
      else Ok (rgb, input))"
  by pat_completeness auto

termination
  by (relation "measure (\<lambda>(palette, pixels, rgb, input). length input)") (auto dest: tile_run_shorter)

declare tile_runs.simps [simp del]

definition packed_tile :: "nat \<Rightarrow> bytes \<Rightarrow> canvas \<Rightarrow> area \<Rightarrow> (vnc_error, canvas \<times> bytes) outcome" where
  "packed_tile n input c tile =
     obind (cpixels n input) (\<lambda>(palette, input).
       let bits = palette_bits n; row = div_ceil (a_width tile * bits) 8
       in obind (slice_take (row * a_height tile) input) (\<lambda>(packed, input).
          obind (gather (packed_pixel bits row palette packed) (positions (a_width tile) (a_height tile))) (\<lambda>rgb.
          obind (put_rgb c tile rgb) (\<lambda>c. Ok (c, input)))))"

definition runs_tile ::
  "bytes list option \<Rightarrow> bytes \<Rightarrow> canvas \<Rightarrow> area \<Rightarrow> (vnc_error, canvas \<times> bytes) outcome" where
  "runs_tile palette input c tile =
     obind (tile_runs palette (area_pixels tile) [] input) (\<lambda>(rgb, input).
     obind (put_rgb c tile rgb) (\<lambda>c. Ok (c, input)))"

definition zrle_tile :: "bytes \<Rightarrow> canvas \<Rightarrow> area \<Rightarrow> (vnc_error, canvas \<times> bytes) outcome" where
  "zrle_tile input c tile =
     obind (slice_byte input) (\<lambda>(kind, input).
       if kind = 0 then
         obind (slice_take (area_pixels tile * 3) input) (\<lambda>(rgb, input).
         obind (put_rgb c tile rgb) (\<lambda>c. Ok (c, input)))
       else if kind = 1 then
         obind (cpixel input) (\<lambda>(colour, input). obind (fill c tile colour) (\<lambda>c. Ok (c, input)))
       else if 2 \<le> kind \<and> kind \<le> 16 then packed_tile (unat kind) input c tile
       else if kind = 128 then runs_tile None input c tile
       else if 130 \<le> kind then
         obind (cpixels (unat kind - 128) input) (\<lambda>(palette, input). runs_tile (Some palette) input c tile)
       else Err (VProtocol (ZrleType kind)))"

definition zrle_tiles :: "area \<Rightarrow> area list" where
  "zrle_tiles a =
     concat (map (\<lambda>row. map (\<lambda>left.
       \<lparr>a_x = u16_add (a_x a) (64 * left), a_y = u16_add (a_y a) (64 * row),
        a_width = min (a_width a - 64 * left) 64, a_height = min (a_height a - 64 * row) 64\<rparr>)
       [0 ..< div_ceil (a_width a) 64]) [0 ..< div_ceil (a_height a) 64])"

fun zrle_run :: "area list \<Rightarrow> bytes \<Rightarrow> canvas \<Rightarrow> (vnc_error, canvas) outcome" where
  "zrle_run [] input c = Ok c"
| "zrle_run (tile # tiles) input c = obind (zrle_tile input c tile) (\<lambda>(c, input). zrle_run tiles input c)"

definition MAX_COMPRESSED :: nat where
  "MAX_COMPRESSED = 64 * 2 ^ 20"

record 'z decoders =
  d_zrle :: 'z
  d_tight :: "'z list"

definition decoders_default :: "'z codecs \<Rightarrow> 'z decoders" where
  "decoders_default z = \<lparr>d_zrle = z_new z, d_tight = replicate 4 (z_new z)\<rparr>"

definition zrle ::
  "'z codecs \<Rightarrow> 'z decoders \<Rightarrow> bytes \<Rightarrow> canvas \<Rightarrow> area
     \<Rightarrow> (vnc_error, (canvas \<times> 'z decoders) \<times> bytes) outcome" where
  "zrle z d input c a =
     obind (read_bytes 4 input) (\<lambda>(n, input).
       if MAX_COMPRESSED < from_be n then Err (VProtocol ZrleTooBig)
       else obind (read_bytes (from_be n) input) (\<lambda>(compressed, input).
         let tiles = div_ceil (a_width a) 64 * div_ceil (a_height a) 64; limit = area_pixels a * 3 + tiles
         in obind (inflate z (d_zrle d) compressed None limit) (\<lambda>(bytes, s).
            obind (zrle_run (zrle_tiles a) bytes c) (\<lambda>c. Ok ((c, d\<lparr>d_zrle := s\<rparr>), input)))))"

subsection \<open>Tight\<close>

definition read_compact :: "bytes \<Rightarrow> (vnc_error, nat \<times> bytes) outcome" where
  "read_compact input =
     obind (read_u8 input) (\<lambda>(first, input).
       if unat first < 128 then Ok (unat first, input)
       else obind (read_u8 input) (\<lambda>(second, input).
         if unat second < 128 then Ok (unat first mod 128 + unat second * 128, input)
         else obind (read_u8 input) (\<lambda>(third, input).
           Ok (unat first mod 128 + unat second mod 128 * 128 + unat third * 16384, input))))"

definition tight_data ::
  "'z codecs \<Rightarrow> 'z decoders \<Rightarrow> bytes \<Rightarrow> nat \<Rightarrow> nat \<Rightarrow> (vnc_error, (bytes \<times> 'z decoders) \<times> bytes) outcome" where
  "tight_data z d input stream n =
     (if n < 12 then obind (read_bytes n input) (\<lambda>(bytes, input). Ok ((bytes, d), input))
      else obind (read_compact input) (\<lambda>(compressed_length, input).
           obind (read_bytes compressed_length input) (\<lambda>(compressed, input).
             if length (d_tight d) \<le> stream then Panic
             else obind (inflate z (d_tight d ! stream) compressed (Some n) n) (\<lambda>(bytes, s).
               Ok ((bytes, d\<lparr>d_tight := (d_tight d)[stream := s]\<rparr>), input)))))"

definition tight_pixel ::
  "nat \<Rightarrow> nat \<Rightarrow> bytes \<Rightarrow> bytes \<Rightarrow> nat \<times> nat \<Rightarrow> (vnc_error, bytes) outcome" where
  "tight_pixel colours row palette indices = (\<lambda>(x, y).
     let i = (if colours = 2 then y * div_ceil row 8 + x div 8 else y * row + x)
     in if length indices \<le> i then Panic
        else let b = unat (indices ! i);
                 index = (if colours = 2 then b div 2 ^ (7 - x mod 8) mod 2 else b)
             in if index * 3 + 3 \<le> length palette then Ok (take 3 (drop (index * 3) palette))
                else Err (VProtocol TightPalette))"

text \<open>Tight's gradient filter undone: a read past the end, and a width of zero, are panics.\<close>

definition peek :: "bytes \<Rightarrow> bool \<Rightarrow> nat \<Rightarrow> (vnc_error, int) outcome" where
  "peek out wanted k = (if \<not> wanted then Ok 0 else if k < length out then Ok (uint (out ! k)) else Panic)"

definition gradient_byte :: "nat \<Rightarrow> bytes \<Rightarrow> nat \<Rightarrow> byte \<Rightarrow> (vnc_error, byte) outcome" where
  "gradient_byte width out index v =
     (if width = 0 then Panic
      else let pixel = index div 3; x = pixel mod width; y = pixel div width; component = index mod 3
           in obind (peek out (0 < x) ((y * width + (x - 1)) * 3 + component)) (\<lambda>left.
              obind (peek out (0 < y) (((y - 1) * width + x) * 3 + component)) (\<lambda>above.
              obind (peek out (0 < x \<and> 0 < y) (((y - 1) * width + (x - 1)) * 3 + component)) (\<lambda>corner.
                Ok (v + word_of_int (max 0 (min 255 (left + above - corner))))))))"

fun gradient_from :: "nat \<Rightarrow> bytes \<Rightarrow> nat \<Rightarrow> bytes \<Rightarrow> (vnc_error, bytes) outcome" where
  "gradient_from width out index [] = Ok out"
| "gradient_from width out index (v # vs) =
     obind (gradient_byte width out index v) (\<lambda>b. gradient_from width (out[index := b]) (index + 1) vs)"

definition gradient :: "bytes \<Rightarrow> nat \<Rightarrow> (vnc_error, bytes) outcome" where
  "gradient vs width = gradient_from width (replicate (length vs) 0) 0 vs"

definition jpeg :: "'z codecs \<Rightarrow> bytes \<Rightarrow> area \<Rightarrow> (vnc_error, bytes) outcome" where
  "jpeg z picture a =
     (case jpeg_decode z picture of
        None \<Rightarrow> Err (VProtocol JpegError)
      | Some (pixels, info) \<Rightarrow>
          let sides = (case info of Some s \<Rightarrow> s | None \<Rightarrow> (0, 0))
          in if sides \<noteq> (a_width a, a_height a) \<or> length pixels \<noteq> area_pixels a * 4
             then Err (VProtocol (JpegSize sides a)) else Ok pixels)"

text \<open>The three filters, and the whole rectangle.\<close>

definition tight_copy ::
  "'z codecs \<Rightarrow> 'z decoders \<Rightarrow> bytes \<Rightarrow> canvas \<Rightarrow> area \<Rightarrow> nat
     \<Rightarrow> (vnc_error, (canvas \<times> 'z decoders) \<times> bytes) outcome" where
  "tight_copy z d input c a stream =
     obind (tight_data z d input stream (area_pixels a * 3)) (\<lambda>((bytes, d), input).
     obind (put_rgb c a bytes) (\<lambda>c. Ok ((c, d), input)))"

definition tight_palette ::
  "'z codecs \<Rightarrow> 'z decoders \<Rightarrow> bytes \<Rightarrow> canvas \<Rightarrow> area \<Rightarrow> nat
     \<Rightarrow> (vnc_error, (canvas \<times> 'z decoders) \<times> bytes) outcome" where
  "tight_palette z d input c a stream =
     obind (read_u8 input) (\<lambda>(b, input).
       let colours = unat b + 1; row = a_width a
       in obind (read_bytes (colours * 3) input) (\<lambda>(palette, input).
          obind (tight_data z d input stream
                   (if colours = 2 then div_ceil row 8 * a_height a else area_pixels a)) (\<lambda>((bytes, d), input).
          obind (gather (tight_pixel colours row palette bytes) (positions row (a_height a))) (\<lambda>rgb.
          obind (put_rgb c a rgb) (\<lambda>c. Ok ((c, d), input))))))"

definition tight_gradient ::
  "'z codecs \<Rightarrow> 'z decoders \<Rightarrow> bytes \<Rightarrow> canvas \<Rightarrow> area \<Rightarrow> nat
     \<Rightarrow> (vnc_error, (canvas \<times> 'z decoders) \<times> bytes) outcome" where
  "tight_gradient z d input c a stream =
     obind (tight_data z d input stream (area_pixels a * 3)) (\<lambda>((bytes, d), input).
     obind (gradient bytes (a_width a)) (\<lambda>rgb.
     obind (put_rgb c a rgb) (\<lambda>c. Ok ((c, d), input))))"

definition tight_basic ::
  "'z codecs \<Rightarrow> 'z decoders \<Rightarrow> bytes \<Rightarrow> canvas \<Rightarrow> area \<Rightarrow> nat
     \<Rightarrow> (vnc_error, (canvas \<times> 'z decoders) \<times> bytes) outcome" where
  "tight_basic z d input c a kind =
     obind (if odd (kind div 4) then read_u8 input else Ok (0, input)) (\<lambda>(flt, input).
       if flt = 0 then tight_copy z d input c a (kind mod 4)
       else if flt = 1 then tight_palette z d input c a (kind mod 4)
       else if flt = 2 then tight_gradient z d input c a (kind mod 4)
       else Err (VProtocol (TightFilter flt)))"

definition reset_streams :: "'z codecs \<Rightarrow> byte \<Rightarrow> 'z decoders \<Rightarrow> 'z decoders" where
  "reset_streams z control d =
     d\<lparr>d_tight := map (\<lambda>(bit, s). if bit_set control bit then z_reset z s else s)
                    (enumerate 0 (d_tight d))\<rparr>"

definition tight ::
  "'z codecs \<Rightarrow> 'z decoders \<Rightarrow> bytes \<Rightarrow> canvas \<Rightarrow> area
     \<Rightarrow> (vnc_error, (canvas \<times> 'z decoders) \<times> bytes) outcome" where
  "tight z d input c a =
     obind (read_u8 input) (\<lambda>(control, input).
       let d = reset_streams z control d; kind = unat control div 16
       in if kind = 8 then
            obind (read_bytes 3 input) (\<lambda>(colour, input).
            obind (fill c a colour) (\<lambda>c. Ok ((c, d), input)))
          else if kind = 9 then
            obind (read_compact input) (\<lambda>(n, input).
            obind (read_bytes n input) (\<lambda>(picture, input).
            obind (jpeg z picture a) (\<lambda>rgba.
            obind (put_rgbx c a rgba) (\<lambda>c. Ok ((c, d), input)))))
          else if kind < 8 then tight_basic z d input c a kind
          else Err (VProtocol (TightType kind)))"

subsection \<open>The cursor\<close>

record cursor =
  cu_width :: nat
  cu_height :: nat
  cu_hot_x :: nat
  cu_hot_y :: nat
  cu_rgba :: bytes

definition cursor_pixel :: "nat \<Rightarrow> bytes \<Rightarrow> bytes \<Rightarrow> nat \<times> nat \<Rightarrow> (vnc_error, bytes) outcome" where
  "cursor_pixel width pixels bits = (\<lambda>(x, y).
     let i = (y * width + x) * 4; j = y * div_ceil width 8 + x div 8
     in if length bits \<le> j \<or> length pixels \<le> i + 2 then Panic
        else Ok [pixels ! i, pixels ! (i + 1), pixels ! (i + 2),
                 if odd (unat (bits ! j) div 2 ^ (7 - x mod 8)) then 255 else 0])"

definition read_cursor :: "bytes \<Rightarrow> area \<Rightarrow> (vnc_error, cursor \<times> bytes) outcome" where
  "read_cursor input a =
     obind (read_bytes (area_pixels a * 4) input) (\<lambda>(pixels, input).
     obind (read_bytes (div_ceil (a_width a) 8 * a_height a) input) (\<lambda>(bits, input).
     obind (gather (cursor_pixel (a_width a) pixels bits) (positions (a_width a) (a_height a))) (\<lambda>rgba.
       Ok (\<lparr>cu_width = a_width a, cu_height = a_height a, cu_hot_x = a_x a, cu_hot_y = a_y a,
            cu_rgba = rgba\<rparr>, input))))"

subsection \<open>No decoder panics, and each draws inside its rectangle\<close>

lemma length_opaque3: "length line = 3 * n \<Longrightarrow> length (opaque3 line) = 4 * n"
proof -
  assume len: "length line = 3 * n"
  have "length (concat (map (\<lambda>p. p @ [255]) ps)) = 4 * length ps"
    if "\<forall>p \<in> set ps. length p = 3" for ps :: "bytes list"
    using that by (induction ps) auto
  then show ?thesis using len length_chunk [of _ 3 line] by (simp add: opaque3_def length_chunks)
qed

lemma put_rgb_drawn:
  assumes "canvas_ok c" and "fits c a" and "0 < a_width a"
  shows "\<exists>c'. put_rgb c a bytes = Ok c' \<and> drawn a c c'"
proof -
  let ?lines = "map opaque3 (take (a_height a) (chunks (a_width a * 3) bytes))"
  have "\<forall>line \<in> set ?lines. length line = a_width a * 4"
    using length_chunk [of _ "a_width a * 3" bytes] length_opaque3 [of _ "a_width a"]
    by (auto simp: mult.commute dest!: in_set_takeD)
  with assms write_rows_drawn [OF assms(1,2), of 0 ?lines]
  show ?thesis by (simp add: put_rgb_def chunks_exact_def)
qed

lemma in_positions: "(x, y) \<in> set (positions w h) \<longleftrightarrow> x < w \<and> y < h"
  by (force simp: positions_def)

lemma length_positions [simp]: "length (positions w h) = w * h"
  by (induction h) (simp_all add: positions_def algebra_simps)

lemma gather_safely:
  assumes "\<forall>p \<in> set ps. safely (\<lambda>b. length b = n) (f p)"
  shows "safely (\<lambda>bs. length bs = length ps * n) (gather f ps)"
  using assms
proof (induction ps)
  case (Cons p ps)
  show ?case
    unfolding gather.simps
  proof (rule safely_obind [where Q = "\<lambda>b. length b = n"], goal_cases)
    case 1
    show ?case using Cons.prems by simp
  next
    case (2 b)
    then show ?case using Cons by (cases "gather f ps") auto
  qed
qed simp

lemma row_index:
  fixes y row j h :: nat
  assumes "j < row" and "y < h"
  shows "y * row + j < row * h"
proof -
  have "y * row + j < (y + 1) * row" using assms(1) by simp
  also have "\<dots> \<le> h * row" using assms(2) by (intro mult_le_mono1) simp
  finally show ?thesis by (simp add: mult.commute)
qed

lemma packed_index: "x < w \<Longrightarrow> 0 < bits \<Longrightarrow> x * bits div 8 < div_ceil (w * bits) 8"
proof -
  assume "x < w" "0 < bits"
  then have "x * bits < w * bits" by simp
  moreover have "a div 8 < (b + 7) div 8" if "a < b" for a b :: nat using that by linarith
  ultimately show ?thesis by (simp add: div_ceil_def del: mult_less_cancel2)
qed

lemma palette_bits_fit: "palette_bits n + x * palette_bits n mod 8 \<le> 8" "0 < palette_bits n"
  by (auto simp: palette_bits_def mod_mult2_eq) presburger+

lemma packed_pixel_safely:
  assumes "x < w" and "y < h" and "length packed = div_ceil (w * palette_bits n) 8 * h"
    and "\<forall>p \<in> set palette. length p = 3"
  shows "safely (\<lambda>b. length b = 3)
    (packed_pixel (palette_bits n) (div_ceil (w * palette_bits n) 8) palette packed (x, y))"
  using row_index [OF packed_index [OF assms(1) palette_bits_fit(2) [of n]] assms(2)]
    palette_bits_fit(1) [of n x] assms(3,4)
  by (simp add: packed_pixel_def Let_def)

lemma slice_take_safely: "safely (\<lambda>(bs, rest). length bs = n) (slice_take n input)"
  by (simp add: slice_take_def)

lemma slice_byte_safely: "safely (\<lambda>_. True) (slice_byte input)"
  unfolding slice_byte_def by (rule safely_obind [OF slice_take_safely]) auto

lemma cpixels_safely: "safely (\<lambda>(ps, rest). \<forall>p \<in> set ps. length p = 3) (cpixels n input)"
proof (induction n arbitrary: input)
  case (Suc n)
  show ?case
    unfolding cpixels.simps cpixel_def
  proof (rule safely_obind [OF slice_take_safely], goal_cases)
    case (1 p)
    then show ?case using Suc.IH [of "snd p"] by (cases "cpixels n (snd p)") (auto simp: split_beta')
  qed
qed simp

lemma run_from_no_panic: "run_from n input \<noteq> Panic"
  by (induction n input rule: run_from.induct) auto

lemma tile_run_safely: "safely (\<lambda>_. True) (tile_run palette input)"
proof -
  have r: "safely (\<lambda>_. True) (run_length i)" for i
    using run_from_no_panic [of 1 i] by (simp add: run_length_def safely_def split: outcome.split)
  show ?thesis
    unfolding tile_run_def cpixel_def
    by (cases palette)
       (auto simp: split_beta' r intro!: safely_obind [OF slice_take_safely] safely_obind [OF slice_byte_safely]
          safely_obind [OF r])
qed

lemma tile_runs_safely: "safely (\<lambda>_. True) (tile_runs palette pixels rgb input)"
proof (induction palette pixels rgb input rule: tile_runs.induct)
  case (1 palette pixels rgb input)
  show ?case
  proof (cases "tile_run palette input")
    case (Ok p)
    then show ?thesis using 1 by (subst tile_runs.simps) (simp add: split_beta')
  qed (use tile_run_safely [of palette input] in \<open>subst tile_runs.simps, simp\<close>)+
qed

lemma put_rgb_safely:
  assumes "canvas_ok c" and "fits c a" and "0 < a_width a"
  shows "safely (\<lambda>p. drawn a c (fst p)) (obind (put_rgb c a bytes) (\<lambda>c. Ok (c, x)))"
  using put_rgb_drawn [OF assms, of bytes] by auto

lemma packed_tile_safely:
  assumes "canvas_ok c" and "fits c a" and "0 < a_width a"
  shows "safely (\<lambda>p. drawn a c (fst p)) (packed_tile n input c a)"
  unfolding packed_tile_def split_beta Let_def
proof (rule safely_obind [OF cpixels_safely], rule safely_obind [OF slice_take_safely], goal_cases)
  case (1 p q)
  let ?px = "packed_pixel (palette_bits n) (div_ceil (a_width a * palette_bits n) 8) (fst p) (fst q)"
  have "safely (\<lambda>bs. length bs = length (positions (a_width a) (a_height a)) * 3)
      (gather ?px (positions (a_width a) (a_height a)))"
    by (rule gather_safely)
       (use 1 packed_pixel_safely in \<open>auto simp: in_positions split_beta\<close>)
  then show ?case by (rule safely_obind) (rule put_rgb_safely [OF assms])
qed

lemma runs_tile_safely:
  assumes "canvas_ok c" and "fits c a" and "0 < a_width a"
  shows "safely (\<lambda>p. drawn a c (fst p)) (runs_tile palette input c a)"
  unfolding runs_tile_def split_beta
  by (rule safely_obind [OF tile_runs_safely]) (rule put_rgb_safely [OF assms])

lemma fill_safely:
  assumes "canvas_ok c" and "fits c a" and "length rgb = 3"
  shows "safely (\<lambda>p. drawn a c (fst p)) (obind (fill c a rgb) (\<lambda>c. Ok (c, x)))"
  using fill_drawn [OF assms] by auto

lemma zrle_tile_safely:
  assumes "canvas_ok c" and "fits c a" and "0 < a_width a"
  shows "safely (\<lambda>p. drawn a c (fst p)) (zrle_tile input c a)"
  unfolding zrle_tile_def
proof (rule safely_obind [OF slice_byte_safely], goal_cases)
  case (1 k)
  note put = put_rgb_safely [OF assms] and fl = fill_safely [OF assms(1,2)]
  show ?case
    unfolding split_beta cpixel_def
    by (auto intro!: safely_obind [OF slice_take_safely] put fl packed_tile_safely runs_tile_safely assms
        safely_obind [OF cpixels_safely])
qed

lemma zrle_tiles_inside:
  assumes "canvas_ok c" and "fits c a" and "tile \<in> set (zrle_tiles a)"
  shows "contains a tile \<and> 0 < a_width tile"
proof -
  have less: "64 * i < n" if "i < div_ceil n 64" for i n using that by (simp add: div_ceil_def)
  obtain row left where t: "tile = \<lparr>a_x = u16_add (a_x a) (64 * left), a_y = u16_add (a_y a) (64 * row),
        a_width = min (a_width a - 64 * left) 64, a_height = min (a_height a - 64 * row) 64\<rparr>"
    and tl: "64 * left < a_width a" "64 * row < a_height a"
    using assms(3) less by (auto simp: zrle_tiles_def)
  then have "u16_add (a_x a) (64 * left) = a_x a + 64 * left" "u16_add (a_y a) (64 * row) = a_y a + 64 * row"
    using assms(1,2) by (auto simp: fits_def canvas_ok_def u16_max_def)
  then show ?thesis using t tl by (auto simp: contains_def)
qed

lemma zrle_run_safely:
  assumes "canvas_ok c" and "fits c a" and "\<forall>tile \<in> set tiles. contains a tile \<and> 0 < a_width tile"
    and "drawn a c c1"
  shows "safely (drawn a c) (zrle_run tiles input c1)"
  using assms(3,4)
proof (induction tiles arbitrary: input c1)
  case (Cons tile tiles)
  have ok: "canvas_ok c1" "fits c1 tile" "0 < a_width tile"
    using Cons.prems fits_mono [OF assms(2), of tile] by (auto simp: drawn_def fits_def)
  show ?case
    unfolding zrle_run.simps
  proof (rule safely_obind [OF zrle_tile_safely [OF ok]], goal_cases)
    case (1 p)
    then have "drawn a c (fst p)" using drawn_within [OF assms(1)] Cons.prems by auto
    then show ?case using Cons by (simp add: split_beta)
  qed
qed simp

lemma zrle_safely:
  assumes "canvas_ok c" and "fits c a"
  shows "safely (\<lambda>p. drawn a c (fst (fst p)) \<and> d_tight (snd (fst p)) = d_tight d) (zrle z d input c a)"
  unfolding zrle_def split_beta
proof (rule safely_obind [OF read_bytes_safely], goal_cases)
  case (1 n)
  have run: "safely (drawn a c) (zrle_run (zrle_tiles a) bytes c)" for bytes
    by (rule zrle_run_safely [OF assms]) (use zrle_tiles_inside [OF assms] drawn_refl [OF assms(1)] in auto)
  show ?case
    by (auto simp: Let_def split_beta
      intro!: safely_obind [OF read_bytes_safely] safely_obind [OF inflate_safely] safely_obind [OF run])
qed

subsubsection \<open>Tight\<close>

lemma read_compact_safely: "safely (\<lambda>_. True) (read_compact input)"
  unfolding read_compact_def split_beta by (auto intro!: safely_obind [OF read_u8_safely])

lemma tight_data_safely:
  assumes "stream < length (d_tight d)"
  shows "safely (\<lambda>p. length (fst (fst p)) = n \<and> length (d_tight (snd (fst p))) = length (d_tight d))
    (tight_data z d input stream n)"
proof -
  have r: "safely (\<lambda>p. length (fst p) = n) (read_bytes n input)"
    using read_bytes_safely [of n input] by (simp add: split_beta')
  have i: "safely (\<lambda>p. length (fst p) = n) (inflate z s bytes (Some n) n)" for s bytes
    using inflate_safely [where expected = "Some n" and limit = n] by (simp add: split_beta')
  show ?thesis
    unfolding tight_data_def split_beta
    using assms by (auto intro!: safely_obind [OF r] safely_obind [OF read_compact_safely]
      safely_obind [OF read_bytes_safely] safely_obind [OF i])
qed

lemma length_take_drop: "k + n \<le> length xs \<Longrightarrow> length (take n (drop k xs)) = n"
  by simp

lemma tight_pixel_safely:
  assumes "x < w" and "y < h"
    and "length indices = (if colours = 2 then div_ceil w 8 * h else w * h)"
  shows "safely (\<lambda>b. length b = 3) (tight_pixel colours w palette indices (x, y))"
  using row_index [OF packed_index [OF assms(1), of 1] assms(2)] row_index [OF assms(1,2)] assms(3)
  by (simp add: tight_pixel_def Let_def length_take_drop del: length_take length_drop)

lemma gradient_below:
  fixes x y w c i :: nat
  assumes "(y * w + x) * 3 + c = i"
  shows "(y * w + (x - 1)) * 3 + c \<le> i" "((y - 1) * w + x) * 3 + c \<le> i"
    "((y - 1) * w + (x - 1)) * 3 + c \<le> i"
proof -
  have "(y - 1) * w \<le> y * w" by (intro mult_le_mono1) simp
  then show "(y * w + (x - 1)) * 3 + c \<le> i" "((y - 1) * w + x) * 3 + c \<le> i"
    "((y - 1) * w + (x - 1)) * 3 + c \<le> i"
    unfolding assms [symmetric] by (intro add_right_mono mult_le_mono1 add_mono; simp)+
qed

lemma peek_Ok: "k \<le> i \<Longrightarrow> i < length out \<Longrightarrow> \<exists>v. peek out wanted k = Ok v"
  by (auto simp: peek_def)

lemma gradient_byte_Ok:
  assumes "0 < width" and "index < length out"
  shows "\<exists>b. gradient_byte width out index v = Ok b"
proof -
  define x y where xy: "x = index div 3 mod width" "y = index div 3 div width"
  have "(y * width + x) * 3 + index mod 3 = index"
    unfolding xy by (simp only: div_mult_mod_eq)
  note below = gradient_below [OF this, THEN peek_Ok, OF assms(2)]
  obtain l a c where "peek out (0 < x) ((y * width + (x - 1)) * 3 + index mod 3) = Ok l"
    "peek out (0 < y) (((y - 1) * width + x) * 3 + index mod 3) = Ok a"
    "peek out (0 < x \<and> 0 < y) (((y - 1) * width + (x - 1)) * 3 + index mod 3) = Ok c"
    using below(1) [of "0 < x"] below(2) [of "0 < y"] below(3) [of "0 < x \<and> 0 < y"] by blast
  then have "gradient_byte width out index v = Ok (v + word_of_int (max 0 (min 255 (l + a - c))))"
    using assms(1) unfolding gradient_byte_def Let_def xy by simp
  then show ?thesis by blast
qed

lemma gradient_from_Ok:
  assumes "0 < width" and "index + length vs \<le> length out"
  shows "\<exists>bs. gradient_from width out index vs = Ok bs \<and> length bs = length out"
  using assms(2)
proof (induction vs arbitrary: index out)
  case (Cons v vs)
  obtain b where "gradient_byte width out index v = Ok b"
    using gradient_byte_Ok [OF assms(1), of index out v] Cons.prems by auto
  then show ?case using Cons.IH [of "index + 1" "out[index := b]"] Cons.prems by simp
qed simp

lemma gradient_safely: "0 < width \<Longrightarrow> safely (\<lambda>bs. length bs = length vs) (gradient vs width)"
  using gradient_from_Ok [of width 0 vs "replicate (length vs) 0"] by (auto simp: gradient_def)

definition tight_ok :: "area \<Rightarrow> canvas \<Rightarrow> nat \<Rightarrow> (canvas \<times> 'z decoders) \<times> bytes \<Rightarrow> bool" where
  "tight_ok a c n p \<longleftrightarrow> drawn a c (fst (fst p)) \<and> length (d_tight (snd (fst p))) = n"

lemma put_tight_safely:
  assumes "canvas_ok c" and "fits c a" and "0 < a_width a" and "length (d_tight d) = n"
  shows "safely (tight_ok a c n) (obind (put_rgb c a bytes) (\<lambda>c. Ok ((c, d), input)))"
  using put_rgb_drawn [OF assms(1-3), of bytes] assms(4) by (auto simp: tight_ok_def)

lemma put_rgbx_tight_safely:
  assumes "canvas_ok c" and "fits c a" and "0 < a_width a" and "length (d_tight d) = n"
  shows "safely (tight_ok a c n) (obind (put_rgbx c a bytes) (\<lambda>c. Ok ((c, d), input)))"
  using put_rgbx_drawn [OF assms(1-3), of bytes] assms(4) by (auto simp: tight_ok_def)

lemma fill_tight_safely:
  assumes "canvas_ok c" and "fits c a" and "length rgb = 3" and "length (d_tight d) = n"
  shows "safely (tight_ok a c n) (obind (fill c a rgb) (\<lambda>c. Ok ((c, d), input)))"
  using fill_drawn [OF assms(1-3)] assms(4) by (auto simp: tight_ok_def)

lemma tight_copy_safely:
  assumes "canvas_ok c" and "fits c a" and "0 < a_width a" and "length (d_tight d) = 4"
  shows "safely (tight_ok a c 4) (tight_copy z d input c a (kind mod 4))"
  unfolding tight_copy_def split_beta
  by (rule safely_obind [OF tight_data_safely]) (use assms put_tight_safely in auto)

lemma tight_gradient_safely:
  assumes "canvas_ok c" and "fits c a" and "0 < a_width a" and "length (d_tight d) = 4"
  shows "safely (tight_ok a c 4) (tight_gradient z d input c a (kind mod 4))"
  unfolding tight_gradient_def split_beta
  by (rule safely_obind [OF tight_data_safely], use assms in simp, rule safely_obind [OF gradient_safely])
     (use assms put_tight_safely in auto)

lemma tight_palette_safely:
  assumes "canvas_ok c" and "fits c a" and "0 < a_width a" and "length (d_tight d) = 4"
  shows "safely (tight_ok a c 4) (tight_palette z d input c a (kind mod 4))"
  unfolding tight_palette_def split_beta Let_def
proof (rule safely_obind [OF read_u8_safely], rule safely_obind [OF read_bytes_safely],
    rule safely_obind [OF tight_data_safely], goal_cases)
  case (2 b palette p)
  have "safely (\<lambda>bs. length bs = length (positions (a_width a) (a_height a)) * 3)
      (gather (tight_pixel (unat (fst b) + 1) (a_width a) (fst palette) (fst (fst p)))
        (positions (a_width a) (a_height a)))"
    by (rule gather_safely)
       (use 2 in \<open>auto simp: in_positions area_pixels_def intro!: tight_pixel_safely [where h = "a_height a"] split: if_splits\<close>)
  then show ?case by (rule safely_obind) (use 2 assms put_tight_safely in auto)
qed (use assms in simp)

lemma tight_basic_safely:
  assumes "canvas_ok c" and "fits c a" and "0 < a_width a" and "length (d_tight d) = 4"
  shows "safely (tight_ok a c 4) (tight_basic z d input c a kind)"
  unfolding tight_basic_def split_beta
proof (rule safely_obind [where Q = "\<lambda>_. True"], goal_cases)
  case 1
  show ?case using read_u8_safely [of input] by simp
next
  case (2 p)
  show ?case
    using tight_copy_safely [OF assms] tight_palette_safely [OF assms] tight_gradient_safely [OF assms] by simp
qed

lemma jpeg_safely: "safely (\<lambda>_. True) (jpeg z picture a)"
  by (auto simp: jpeg_def Let_def split: option.split)

lemma tight_safely:
  assumes "canvas_ok c" and "fits c a" and "0 < a_width a" and "length (d_tight d) = 4"
  shows "safely (tight_ok a c 4) (tight z d input c a)"
  unfolding tight_def split_beta Let_def
proof (rule safely_obind [OF read_u8_safely], goal_cases)
  case (1 k)
  let ?d = "reset_streams z (fst k) d"
  have len: "length (d_tight ?d) = 4" using assms(4) by (simp add: reset_streams_def)
  have fl: "safely (tight_ok a c 4) (obind (read_bytes 3 (snd k)) (\<lambda>p.
      obind (fill c a (fst p)) (\<lambda>c. Ok ((c, ?d), snd p))))"
    by (rule safely_obind [OF read_bytes_safely])
       (use fill_tight_safely [OF assms(1,2) _ len] in \<open>auto simp: split_beta\<close>)
  have jp: "safely (tight_ok a c 4) (obind (read_compact (snd k)) (\<lambda>n. obind (read_bytes (fst n) (snd n)) (\<lambda>p.
      obind (jpeg z (fst p) a) (\<lambda>rgba. obind (put_rgbx c a rgba) (\<lambda>c. Ok ((c, ?d), snd p))))))"
    by (rule safely_obind [OF read_compact_safely], rule safely_obind [OF read_bytes_safely],
        rule safely_obind [OF jpeg_safely])
       (rule put_rgbx_tight_safely [OF assms(1-3) len])
  show ?case using fl jp tight_basic_safely [OF assms(1-3) len] by simp
qed

lemma cursor_pixel_safely:
  assumes "x < w" and "y < h" and "length pixels = w * h * 4" and "length bits = div_ceil w 8 * h"
  shows "safely (\<lambda>b. length b = 4) (cursor_pixel w pixels bits (x, y))"
proof -
  have "(y * w + x + 1) * 4 \<le> w * h * 4" using row_index [OF assms(1,2)] by (intro mult_le_mono1) simp
  then have "(y * w + x) * 4 + 2 < length pixels" using assms(3) by simp
  then show ?thesis
    using row_index [OF packed_index [OF assms(1), of 1] assms(2)] assms(4)
    by (simp add: cursor_pixel_def Let_def)
qed

lemma read_cursor_safely:
  "safely (\<lambda>p. length (cu_rgba (fst p)) = area_pixels a * 4) (read_cursor input a)"
  unfolding read_cursor_def split_beta
proof (rule safely_obind [OF read_bytes_safely], rule safely_obind [OF read_bytes_safely], goal_cases)
  case (1 p q)
  have "safely (\<lambda>bs. length bs = length (positions (a_width a) (a_height a)) * 4)
      (gather (cursor_pixel (a_width a) (fst p) (fst q)) (positions (a_width a) (a_height a)))"
    by (rule gather_safely)
       (use 1 in \<open>auto simp: in_positions area_pixels_def intro!: cursor_pixel_safely [where h = "a_height a"]\<close>)
  then show ?case by (rule safely_obind) (simp add: area_pixels_def)
qed

subsection \<open>The gradient filter\<close>

text \<open>
  The filter a server applies: each byte less what its neighbours in the picture predict.
\<close>

definition predicted :: "nat \<Rightarrow> bytes \<Rightarrow> nat \<Rightarrow> byte" where
  "predicted width picture index =
     (let pixel = index div 3; x = pixel mod width; y = pixel div width; component = index mod 3;
          v = (\<lambda>x y. uint (picture ! ((y * width + x) * 3 + component)));
          left = (if 0 < x then v (x - 1) y else 0);
          above = (if 0 < y then v x (y - 1) else 0);
          corner = (if 0 < x \<and> 0 < y then v (x - 1) (y - 1) else 0)
      in word_of_int (max 0 (min 255 (left + above - corner))))"

definition gradient_filter :: "nat \<Rightarrow> bytes \<Rightarrow> bytes" where
  "gradient_filter width picture = map (\<lambda>i. picture ! i - predicted width picture i) [0 ..< length picture]"

text \<open>What was undone so far is all that the next byte needs.\<close>

lemma peek_prefix:
  assumes "wanted \<Longrightarrow> k < index" and "index < length picture" and "length out = length picture"
    and "\<forall>k < index. out ! k = picture ! k"
  shows "peek out wanted k = Ok (if wanted then uint (picture ! k) else 0)"
  using assms by (auto simp: peek_def)

lemma gradient_byte_filter:
  assumes "0 < width" and "index < length picture" and "length out = length picture"
    and "\<forall>k < index. out ! k = picture ! k"
  shows "gradient_byte width out index (v - predicted width picture index) = Ok v"
proof -
  define x y where xy: "x = index div 3 mod width" "y = index div 3 div width"
  have i: "(y * width + x) * 3 + index mod 3 = index"
    unfolding xy by (simp only: div_mult_mod_eq)
  have less: "(y * width + (x - 1)) * 3 + index mod 3 < index" if "0 < x"
    by (subst (2) i [symmetric]) (use that in simp)
  have less': "((y - 1) * width + z) * 3 + index mod 3 < index" if "0 < y" "z \<le> x" for z
  proof -
    have "(y - 1) * width < y * width" using that(1) assms(1) by simp
    with that(2) have "(y - 1) * width + z < y * width + x" by linarith
    then show ?thesis by (subst (2) i [symmetric]) simp
  qed
  have l: "peek out (0 < x) ((y * width + (x - 1)) * 3 + index mod 3) =
      Ok (if 0 < x then uint (picture ! ((y * width + (x - 1)) * 3 + index mod 3)) else 0)"
    by (rule peek_prefix [OF _ assms(2-4)]) (rule less)
  have a: "peek out (0 < y) (((y - 1) * width + x) * 3 + index mod 3) =
      Ok (if 0 < y then uint (picture ! (((y - 1) * width + x) * 3 + index mod 3)) else 0)"
    by (rule peek_prefix [OF _ assms(2-4)]) (rule less', simp_all)
  have c: "peek out (0 < x \<and> 0 < y) (((y - 1) * width + (x - 1)) * 3 + index mod 3) =
      Ok (if 0 < x \<and> 0 < y then uint (picture ! (((y - 1) * width + (x - 1)) * 3 + index mod 3)) else 0)"
    by (rule peek_prefix [OF _ assms(2-4)]) (rule less', simp_all)
  show ?thesis
    using assms(1) l a c unfolding gradient_byte_def predicted_def Let_def xy
    by (simp only: obind.simps if_False refl less_irrefl) simp
qed

lemma gradient_from_filter:
  assumes "0 < width"
  shows "index + n = length picture \<Longrightarrow> length out = length picture \<Longrightarrow> \<forall>k < index. out ! k = picture ! k \<Longrightarrow>
    gradient_from width out index (map (\<lambda>i. picture ! i - predicted width picture i) [index ..< length picture])
      = Ok picture"
proof (induction n arbitrary: index out)
  case 0
  then show ?case by (simp add: list_eq_iff_nth_eq)
next
  case (Suc n)
  let ?out = "out[index := picture ! index]"
  have "gradient_from width ?out (index + 1)
      (map (\<lambda>i. picture ! i - predicted width picture i) [index + 1 ..< length picture]) = Ok picture"
    by (rule Suc.IH) (use Suc.prems in \<open>auto simp: nth_list_update less_Suc_eq\<close>)
  with gradient_byte_filter [OF assms, of index picture out "picture ! index"] Suc.prems
  show ?case by (simp add: upt_conv_Cons)
qed

text \<open>
  Tight's gradient filter is undone. A picture of whole rows, filtered the way a server filters
  it, comes back byte for byte, whatever the wrap-around of the differences.
\<close>

theorem gradient_undoes_filter:
  assumes "0 < width"
  shows "gradient (gradient_filter width picture) width = Ok picture"
  using gradient_from_filter [OF assms, of 0 "length picture" picture "replicate (length picture) 0"]
  by (simp add: gradient_def gradient_filter_def)

theorem gradient_undoes_filter_witness:
  "gradient (gradient_filter 2 [250, 3, 9, 4, 0, 255, 1, 2, 3, 255, 255, 0]) 2
     = Ok [250, 3, 9, 4, 0, 255, 1, 2, 3, 255, 255, 0]"
  by (rule gradient_undoes_filter) simp

end
