(* ===== verification/Vnc_Messages.thy ===== *)
theory Vnc_Messages
  imports "HOL-Library.AList" Texts Utf8 Vnc_Decode
begin

text \<open>
  What a VNC client reads and writes (\<open>crates/opensesh-vnc/src\<close>): the version line and the messages
  of \<open>messages.rs\<close>, the keysyms of \<open>keysym.rs\<close> with the keys held down, and the security types of
  \<open>security.rs\<close>. Readers take the bytes to come, as the decoders do; the messages are lists of bytes.
\<close>

subsection \<open>The version\<close>

datatype rfb_version = V3_3 | V3_7 | V3_8

text \<open>\<open>text.get(a..b)\<close> counts bytes and is \<open>None\<close> inside a character.\<close>

fun take_bytes :: "nat \<Rightarrow> str \<Rightarrow> str option" where
  "take_bytes n s =
     (if n = 0 then Some []
      else case s of
        [] \<Rightarrow> None
      | c # cs \<Rightarrow> if utf8_len c \<le> n then map_option (Cons c) (take_bytes (n - utf8_len c) cs) else None)"

fun drop_bytes :: "nat \<Rightarrow> str \<Rightarrow> str option" where
  "drop_bytes n s =
     (if n = 0 then Some s
      else case s of
        [] \<Rightarrow> None
      | c # cs \<Rightarrow> if utf8_len c \<le> n then drop_bytes (n - utf8_len c) cs else None)"

declare take_bytes.simps [simp del] drop_bytes.simps [simp del]

definition str_get :: "str \<Rightarrow> nat \<Rightarrow> nat \<Rightarrow> str option" where
  "str_get s a b = Option.bind (drop_bytes a s) (take_bytes (b - a))"

definition version_from_server :: "bytes \<Rightarrow> (vnc_error, rfb_version) outcome" where
  "version_from_server line =
     (let s = (case from_utf8 line of Some s \<Rightarrow> s | None \<Rightarrow> []);
          parse = (\<lambda>a b. Option.bind (str_get s a b) (parse_uint u32_max))
      in case (parse 4 7, parse 8 11) of
           (Some major, Some minor) \<Rightarrow>
             if str_get s 0 4 = Some (lit ''RFB '') \<and> str_get s 11 12 = Some [10] then
               Ok (if major = 3 \<and> minor = 7 then V3_7
                   else if major = 3 \<and> 8 \<le> minor \<or> 4 \<le> major then V3_8
                   else V3_3)
             else Err (VProtocol NotVnc)
         | _ \<Rightarrow> Err (VProtocol NotVnc))"

fun version_line :: "rfb_version \<Rightarrow> bytes" where
  "version_line V3_3 = utf8 (lit ''RFB 003.003'' @ [10])"
| "version_line V3_7 = utf8 (lit ''RFB 003.007'' @ [10])"
| "version_line V3_8 = utf8 (lit ''RFB 003.008'' @ [10])"

subsection \<open>Strings, Latin-1 and the server's init\<close>

definition VNC_MAX_TEXT :: nat where
  "VNC_MAX_TEXT = 2 ^ 20"

text \<open>The rest of a text that is too long, read in pieces and dropped.\<close>

function skip_rest :: "nat \<Rightarrow> bytes \<Rightarrow> (vnc_error, bytes) outcome" where
  "skip_rest rest input =
     (if rest = 0 then Ok input
      else obind (read_bytes (min rest 4096) input) (\<lambda>(_, input). skip_rest (rest - min rest 4096) input))"
  by pat_completeness auto

termination
  by (relation "measure fst") auto

declare skip_rest.simps [simp del]

definition read_capped :: "nat \<Rightarrow> bytes \<Rightarrow> (vnc_error, bytes \<times> bytes) outcome" where
  "read_capped n input =
     obind (read_bytes (min n VNC_MAX_TEXT) input) (\<lambda>(kept, input).
     obind (skip_rest (n - length kept) input) (\<lambda>input. Ok (kept, input)))"

definition read_string :: "bytes \<Rightarrow> (vnc_error, str \<times> bytes) outcome" where
  "read_string input =
     obind (read_bytes 4 input) (\<lambda>(n, input).
     obind (read_capped (from_be n) input) (\<lambda>(kept, input). Ok (from_utf8_lossy kept, input)))"

definition from_latin1 :: "bytes \<Rightarrow> str" where
  "from_latin1 bs = map unat bs"

fun unix_breaks :: "str \<Rightarrow> str" where
  "unix_breaks (c # d # cs) = (if c = 13 \<and> d = 10 then 10 # unix_breaks cs else c # unix_breaks (d # cs))"
| "unix_breaks cs = cs"

definition to_latin1 :: "str \<Rightarrow> bytes" where
  "to_latin1 s = map (\<lambda>c. if c < 256 then word_of_nat c else 63) (unix_breaks s)"

record server_init =
  si_width :: nat
  si_height :: nat
  si_name :: str

definition read_server_init :: "bytes \<Rightarrow> (vnc_error, server_init \<times> bytes) outcome" where
  "read_server_init input =
     obind (read_bytes 2 input) (\<lambda>(w, input).
     obind (read_bytes 2 input) (\<lambda>(h, input).
     obind (read_bytes 16 input) (\<lambda>(_, input).
     obind (read_string input) (\<lambda>(name, input).
       Ok (\<lparr>si_width = from_be w, si_height = from_be h, si_name = name\<rparr>, input)))))"

subsection \<open>What the client sends\<close>

definition set_pixel_format :: bytes where
  "set_pixel_format = [0, 0, 0, 0, 32, 24, 0, 1, 0, 255, 0, 255, 0, 255, 0, 8, 16, 0, 0, 0]"

text \<open>\<open>uN::try_from(..).unwrap_or(0)\<close> and \<open>i32::to_be_bytes\<close>.\<close>

definition or_zero :: "nat \<Rightarrow> nat \<Rightarrow> nat" where
  "or_zero k n = (if n < 256 ^ k then n else 0)"

definition be_i32 :: "int \<Rightarrow> bytes" where
  "be_i32 i = be 4 (nat (i mod 2 ^ 32))"

definition set_encodings :: "int list \<Rightarrow> bytes" where
  "set_encodings es = [2, 0] @ be 2 (or_zero 2 (length es)) @ concat (map be_i32 es)"

definition update_request :: "bool \<Rightarrow> nat \<Rightarrow> nat \<Rightarrow> bytes" where
  "update_request incremental width height =
     [3, of_bool incremental, 0, 0, 0, 0] @ be 2 width @ be 2 height"

definition key_event :: "nat \<Rightarrow> bool \<Rightarrow> bytes" where
  "key_event keysym down = [4, of_bool down, 0, 0] @ be 4 keysym"

definition pointer_event :: "byte \<Rightarrow> nat \<Rightarrow> nat \<Rightarrow> bytes" where
  "pointer_event buttons x y = [5, buttons] @ be 2 x @ be 2 y"

definition client_cut_text :: "str \<Rightarrow> bytes" where
  "client_cut_text s = [6, 0, 0, 0] @ be 4 (or_zero 4 (length (to_latin1 s))) @ to_latin1 s"

definition set_desktop_size :: "nat \<Rightarrow> nat \<Rightarrow> nat \<Rightarrow> bytes" where
  "set_desktop_size width height screen =
     [251, 0] @ be 2 width @ be 2 height @ [1, 0] @ be 4 screen @ [0, 0, 0, 0] @
     be 2 width @ be 2 height @ be 4 0"

subsection \<open>Keysyms\<close>

definition SPECIAL :: "(int \<times> nat) list" where
  "SPECIAL =
    [(0x01000000, 0xff1b), (0x01000001, 0xff09), (0x01000002, 0xfe20), (0x01000003, 0xff08),
     (0x01000004, 0xff0d), (0x01000005, 0xff8d), (0x01000006, 0xff63), (0x01000007, 0xffff),
     (0x01000008, 0xff13), (0x01000009, 0xff61), (0x0100000a, 0xff15), (0x0100000b, 0xff0b),
     (0x01000010, 0xff50), (0x01000011, 0xff57), (0x01000012, 0xff51), (0x01000013, 0xff52),
     (0x01000014, 0xff53), (0x01000015, 0xff54), (0x01000016, 0xff55), (0x01000017, 0xff56),
     (0x01000020, 0xffe1), (0x01000021, 0xffe3), (0x01000022, 0xffe7), (0x01000023, 0xffe9),
     (0x01000024, 0xffe5), (0x01000025, 0xff7f), (0x01000026, 0xff14), (0x01000053, 0xffeb),
     (0x01000054, 0xffec), (0x01000055, 0xff67), (0x01001103, 0xfe03)]"

definition QT_F1 :: int where "QT_F1 = 0x01000030"
definition QT_F35 :: int where "QT_F35 = 0x01000052"

definition keysym_of_char :: "uchar \<Rightarrow> nat" where
  "keysym_of_char c =
     (if 0x20 \<le> c \<and> c \<le> 0x7e \<or> 0xa0 \<le> c \<and> c \<le> 0xff then c else 0x01000000 + c)"

text \<open>The key itself, for one that typed a control character or nothing; letters in lower case.\<close>

definition key_itself :: "int \<Rightarrow> nat option" where
  "key_itself qt_key =
     (if 0x41 \<le> qt_key \<and> qt_key \<le> 0x5a then Some (nat qt_key + 0x20)
      else if 0x20 \<le> qt_key \<and> qt_key \<le> 0x7e \<or> 0xa0 \<le> qt_key \<and> qt_key \<le> 0xff then Some (nat qt_key)
      else None)"

definition keysym :: "int \<Rightarrow> str \<Rightarrow> nat option" where
  "keysym qt_key s =
     (case map_of SPECIAL qt_key of
        Some k \<Rightarrow> Some k
      | None \<Rightarrow>
          if QT_F1 \<le> qt_key \<and> qt_key \<le> QT_F35 then Some (0xffbe + nat (qt_key - QT_F1))
          else case s of
            [c] \<Rightarrow> if \<not> is_control c then Some (keysym_of_char c) else key_itself qt_key
          | _ \<Rightarrow> key_itself qt_key)"

text \<open>
  The keys held down. The hash map is its list of entries, a key once; \<open>drain\<close> gives them in some
  order, so only the set of what it gives matters.
\<close>

type_synonym pressed = "((int \<times> nat) \<times> nat) list"

definition press :: "int \<Rightarrow> nat \<Rightarrow> str \<Rightarrow> pressed \<Rightarrow> nat option \<times> pressed" where
  "press qt_key native s down =
     (case keysym qt_key s of
        None \<Rightarrow> (None, down)
      | Some k \<Rightarrow> (Some k, AList.update (qt_key, native) k down))"

definition release :: "int \<Rightarrow> nat \<Rightarrow> str \<Rightarrow> pressed \<Rightarrow> nat option \<times> pressed" where
  "release qt_key native s down =
     (case map_of down (qt_key, native) of
        Some k \<Rightarrow> (Some k, AList.delete (qt_key, native) down)
      | None \<Rightarrow> (keysym qt_key s, down))"

definition release_all :: "pressed \<Rightarrow> nat list \<times> pressed" where
  "release_all down = (map snd down, [])"

subsection \<open>Security types\<close>

definition NONE :: byte where "NONE = 1"
definition VNC_AUTH :: byte where "VNC_AUTH = 2"
definition VENCRYPT :: byte where "VENCRYPT = 19"

definition X509_NONE :: nat where "X509_NONE = 260"
definition X509_VNC :: nat where "X509_VNC = 261"
definition X509_PLAIN :: nat where "X509_PLAIN = 262"

datatype security_choice = NoAuth | VncAuth | VeNCrypt

definition choose_security :: "bytes \<Rightarrow> (vnc_error, byte \<times> security_choice) outcome" where
  "choose_security offered =
     (case find (\<lambda>(kind, _). kind \<in> set offered) [(VENCRYPT, VeNCrypt), (VNC_AUTH, VncAuth), (NONE, NoAuth)] of
        Some picked \<Rightarrow> Ok picked
      | None \<Rightarrow> Err (VUnsupported (SecurityTypes offered)))"

definition choose_vencrypt :: "nat list \<Rightarrow> (vnc_error, nat) outcome" where
  "choose_vencrypt offered =
     (case find (\<lambda>subtype. subtype \<in> set offered) [X509_PLAIN, X509_VNC, X509_NONE] of
        Some subtype \<Rightarrow> Ok subtype
      | None \<Rightarrow> Err (VUnsupported NoSubtype))"

definition reverse_bits :: "byte \<Rightarrow> byte" where
  "reverse_bits b =
     word_of_nat (sum_list (map (\<lambda>i. if odd (unat b div 2 ^ i) then 2 ^ (7 - i) else 0) [0 ..< 8]))"

text \<open>The cipher is a parameter: a key of eight bytes and a block of eight.\<close>

definition vnc_key :: "str \<Rightarrow> bytes" where
  "vnc_key password = (let bs = map reverse_bits (take 8 (utf8 password)) in bs @ replicate (8 - length bs) 0)"

definition vnc_response :: "(bytes \<Rightarrow> bytes \<Rightarrow> bytes) \<Rightarrow> str \<Rightarrow> bytes \<Rightarrow> bytes" where
  "vnc_response des password challenge = concat (map (des (vnc_key password)) (chunks 8 challenge))"

subsection \<open>Texts and versions come back\<close>

lemma skip_rest_read_bytes: "skip_rest n input = obind (read_bytes n input) (\<lambda>(_, input). Ok input)"
proof (induction n input rule: skip_rest.induct)
  case (1 n input)
  show ?case
    by (subst skip_rest.simps) (use 1 in \<open>auto simp: read_bytes_def min_def\<close>)
qed

lemma read_capped_eq:
  "read_capped n input =
     obind (read_bytes n input) (\<lambda>(bs, input). Ok (take VNC_MAX_TEXT bs, input))"
  by (auto simp: read_capped_def skip_rest_read_bytes read_bytes_def min_def)

text \<open>A text read from the network is never longer than the cap, however long it says it is.\<close>

lemma read_string_bounded:
  assumes "read_string input = Ok (s, rest)"
  shows "\<exists>kept. s = from_utf8_lossy kept \<and> length kept \<le> VNC_MAX_TEXT"
  using assms by (auto simp: read_string_def read_capped_eq)

lemma unix_breaks_id: "(\<forall>a b. s \<noteq> a @ [13, 10] @ b) \<Longrightarrow> unix_breaks s = s"
proof (induction s rule: unix_breaks.induct)
  case (1 c d cs)
  have "\<not> (c = 13 \<and> d = 10)" using "1.prems" [rule_format, of "[]" cs] by auto
  moreover have "\<forall>a b. d # cs \<noteq> a @ [13, 10] @ b"
    using "1.prems" [rule_format, of "c # a" b for a b] by auto
  ultimately show ?case using "1.IH"(2) by simp
qed auto

lemma latin1_roundtrip:
  assumes "\<forall>a b. s \<noteq> a @ [13, 10] @ b" and "\<forall>c \<in> set s. c < 256"
  shows "from_latin1 (to_latin1 s) = s"
  using assms(2) unfolding to_latin1_def from_latin1_def unix_breaks_id [OF assms(1)]
  by (induction s) (auto simp: unat_of_nat_byte)

text \<open>A server that echoes the client's version line is taken at that version.\<close>

lemma version_roundtrip: "version_from_server (version_line v) = Ok v"
proof -
  have get: "str_get s a b = Some (take (b - a) (drop a s))"
    if "\<forall>c \<in> set s. c < 128" "a \<le> b" "b \<le> length s" for s a b
  proof -
    have d: "drop_bytes a s = Some (drop a s)" if "\<forall>c \<in> set s. c < 128" "a \<le> length s" for a and s :: str
      using that
      by (induction a s rule: drop_bytes.induct)
         (subst drop_bytes.simps, auto simp: utf8_len_def drop_Cons' split: list.split)
    have t: "take_bytes a s = Some (take a s)" if "\<forall>c \<in> set s. c < 128" "a \<le> length s" for a and s :: str
      using that
      by (induction a s rule: take_bytes.induct)
         (subst take_bytes.simps, auto simp: utf8_len_def take_Cons' split: list.split)
    have "\<forall>c \<in> set (drop a s). c < 128" using that(1) by (auto dest: in_set_dropD)
    then show ?thesis using that d [of s a] t [of "drop a s" "b - a"] by (simp add: str_get_def)
  qed
  have dec: "from_utf8 (utf8 (lit t @ [10])) = Some (lit t @ [10])" if "list_all scalar (lit t)" for t
    by (rule from_utf8_utf8) (use that in \<open>simp add: scalar_def\<close>)
  show ?thesis
    by (cases v)
       (simp_all only: version_line.simps version_from_server_def, (subst dec; simp add: lit_def scalar_def
         get parse_uint_def is_digit_def u32_max_def)+)
qed

subsection \<open>Keys that go up\<close>

datatype key_input = KeyDown int nat str | KeyUp int nat str

fun key_of :: "key_input \<Rightarrow> int \<times> nat" where
  "key_of (KeyDown k n s) = (k, n)"
| "key_of (KeyUp k n s) = (k, n)"

fun key_step :: "pressed \<Rightarrow> key_input \<Rightarrow> pressed" where
  "key_step down (KeyDown k n s) = snd (press k n s down)"
| "key_step down (KeyUp k n s) = snd (release k n s down)"

lemma key_step_other: "key_of e \<noteq> k \<Longrightarrow> map_of (key_step down e) k = map_of down k"
  by (cases e) (auto simp: press_def release_def update_conv' delete_conv' split: option.splits)

lemma key_steps_other:
  "\<forall>e \<in> set es. key_of e \<noteq> k \<Longrightarrow> map_of (foldl key_step down es) k = map_of down k"
  by (induction es arbitrary: down) (simp_all add: key_step_other)

text \<open>
  a key goes up with the keysym it went down with. Whatever other keys did meanwhile, and
  whatever text comes with the release (another layer, a modifier let go first), the release sends
  the keysym of the press and the key is no longer held.
\<close>

theorem release_sends_pressed:
  assumes "press k n s down = (Some pressed, down1)" and "\<forall>e \<in> set es. key_of e \<noteq> (k, n)"
  shows "fst (release k n s' (foldl key_step down1 es)) = Some pressed \<and>
    map_of (snd (release k n s' (foldl key_step down1 es))) (k, n) = None"
proof -
  have "map_of down1 (k, n) = Some pressed"
    using assms(1) by (auto simp: press_def update_conv' split: option.splits)
  then have "map_of (foldl key_step down1 es) (k, n) = Some pressed" using key_steps_other [OF assms(2)] by simp
  then show ?thesis by (simp add: release_def delete_conv')
qed

theorem release_sends_pressed_witness:
  "fst (release 0x41 38 (lit ''a'') (foldl key_step (snd (press 0x41 38 (lit ''A'') []))
     [KeyUp 0x01000020 50 []])) = Some 0x41"
  using release_sends_pressed [of "0x41" 38 "lit ''A''" "[]" "0x41" "snd (press 0x41 38 (lit ''A'') [])"
      "[KeyUp 0x01000020 50 []]" "lit ''a''"]
  by (simp add: press_def keysym_def SPECIAL_def QT_F1_def QT_F35_def lit_def is_control_def
    keysym_of_char_def split: option.splits)

end
