(* ===== verification/Vnc_Handshake.thy ===== *)
theory Vnc_Handshake
  imports Vnc_Messages
begin

text \<open>
  The handshake of a VNC connection (\<open>handshake\<close> and \<open>security_result\<close> of
  \<open>crates/opensesh-vnc/src/client.rs\<close>, and the exchanges of \<open>security.rs\<close>). A connection is the bytes
  to come, which of the writes to come fail, whether TLS is on, and the log of what was handed to
  the network and of the questions about a certificate. Three parts are parameters: the DES cipher,
  the TLS upgrade (from the bytes to come to the server's certificate and the bytes inside TLS, or a
  failure) and the answer the app gives about a certificate.
\<close>

datatype net_event = Sent bool bytes | Asked bytes bool

record conn =
  cn_in :: bytes
  cn_faults :: "bool list"
  cn_tls :: bool
  cn_log :: "net_event list"

type_synonym 'a net = "conn \<Rightarrow> (vnc_error, 'a) outcome \<times> conn"

definition give :: "'a \<Rightarrow> 'a net" where
  "give a s = (Ok a, s)"

definition fail :: "vnc_error \<Rightarrow> 'a net" where
  "fail e s = (Err e, s)"

definition cbind :: "'a net \<Rightarrow> ('a \<Rightarrow> 'b net) \<Rightarrow> 'b net" where
  "cbind m f s = (case m s of (Ok a, s) \<Rightarrow> f a s | (Err e, s) \<Rightarrow> (Err e, s) | (Panic, s) \<Rightarrow> (Panic, s))"

definition lift :: "(vnc_error, 'a) outcome \<Rightarrow> 'a net" where
  "lift r s = (r, s)"

definition receive :: "(bytes \<Rightarrow> (vnc_error, 'a \<times> bytes) outcome) \<Rightarrow> 'a net" where
  "receive rd s =
     (case rd (cn_in s) of
        Ok (a, rest) \<Rightarrow> (Ok a, s\<lparr>cn_in := rest\<rparr>)
      | Err e \<Rightarrow> (Err e, s)
      | Panic \<Rightarrow> (Panic, s))"

definition transmit :: "bytes \<Rightarrow> unit net" where
  "transmit bs s =
     (if cn_faults s \<noteq> [] \<and> hd (cn_faults s) then Err VIo else Ok (),
      s\<lparr>cn_faults := tl (cn_faults s), cn_log := cn_log s @ [Sent (cn_tls s) bs]\<rparr>)"

definition receive_u8 :: "byte net" where
  "receive_u8 = receive read_u8"

definition receive_u32 :: "nat net" where
  "receive_u32 = cbind (receive (read_bytes 4)) (\<lambda>bs. give (from_be bs))"

subsection \<open>Security exchanges\<close>

definition vnc_auth :: "(bytes \<Rightarrow> bytes \<Rightarrow> bytes) \<Rightarrow> str \<Rightarrow> unit net" where
  "vnc_auth des password =
     cbind (receive (read_bytes 16)) (\<lambda>challenge. transmit (vnc_response des password challenge))"

fun receive_u32s :: "nat \<Rightarrow> nat list net" where
  "receive_u32s 0 = give []"
| "receive_u32s (Suc n) = cbind receive_u32 (\<lambda>k. cbind (receive_u32s n) (\<lambda>ks. give (k # ks)))"

definition vencrypt_negotiate :: "nat net" where
  "vencrypt_negotiate =
     cbind receive_u8 (\<lambda>major.
     cbind receive_u8 (\<lambda>minor.
     if major = 0 \<and> minor < 2 then fail (VUnsupported (VeNCryptVersion major minor))
     else cbind (transmit [0, 2]) (\<lambda>_.
     cbind receive_u8 (\<lambda>refused.
     if refused \<noteq> 0 then fail (VUnsupported VeNCryptRefused)
     else cbind receive_u8 (\<lambda>count.
     cbind (receive_u32s (unat count)) (\<lambda>offered.
     cbind (lift (choose_vencrypt offered)) (\<lambda>subtype.
     cbind (transmit (be 4 subtype)) (\<lambda>_.
     cbind receive_u8 (\<lambda>accepted.
     if accepted \<noteq> 1 then fail (VUnsupported SubtypeRefused) else give subtype)))))))))"

definition plain_login :: "str \<Rightarrow> str \<Rightarrow> unit net" where
  "plain_login user password =
     (let u = utf8 user; p = utf8 password
      in if u32_max < length u \<or> u32_max < length p then fail (VUnsupported NameTooLong)
         else transmit (be 4 (length u) @ be 4 (length p) @ u @ p))"

text \<open>The reason is read from a 3.8 server only, and one that cannot be read is an empty one.\<close>

definition receive_reason :: "str net" where
  "receive_reason s =
     (case receive read_string s of (Ok reason, s) \<Rightarrow> (Ok reason, s) | (Err e, s) \<Rightarrow> (Ok [], s) | (Panic, s) \<Rightarrow> (Panic, s))"

definition security_result :: "rfb_version \<Rightarrow> unit net" where
  "security_result version =
     cbind receive_u32 (\<lambda>code.
     if code = 0 then give ()
     else cbind (if version = V3_8 then receive_reason else give []) (\<lambda>reason.
       fail (VAuth (if reason = [] then lit ''the server refused the password'' else reason))))"

subsection \<open>The handshake\<close>

record settings =
  st_user :: str
  st_shared :: bool
  st_read_only :: bool
  st_quality :: "nat option"
  st_compression :: nat

definition MAX_SIDE :: nat where "MAX_SIDE = 8192"

definition pick_security :: "rfb_version \<Rightarrow> security_choice net" where
  "pick_security version =
     (if version = V3_3 then
        cbind receive_u32 (\<lambda>kind.
          if kind = 0 then cbind (receive read_string) (\<lambda>reason. fail (VRefused reason))
          else if kind = 1 then give NoAuth
          else if kind = 2 then give VncAuth
          else fail (VUnsupported (SecurityType kind)))
      else
        cbind receive_u8 (\<lambda>count.
          if count = 0 then cbind (receive read_string) (\<lambda>reason. fail (VRefused reason))
          else cbind (receive (read_bytes (unat count))) (\<lambda>offered.
               cbind (lift (choose_security offered)) (\<lambda>(kind, choice).
               cbind (transmit [kind]) (\<lambda>_. give choice)))))"

definition tls_start :: "(bytes \<Rightarrow> (bytes \<times> bytes) option) \<Rightarrow> bytes net" where
  "tls_start upgrade s =
     (case upgrade (cn_in s) of
        None \<Rightarrow> (Err VIo, s)
      | Some (der, plain) \<Rightarrow> (Ok der, s\<lparr>cn_in := plain, cn_tls := True\<rparr>))"

definition ask :: "(bytes \<Rightarrow> bool) \<Rightarrow> bytes \<Rightarrow> bool net" where
  "ask decide der s = (Ok (decide der), s\<lparr>cn_log := cn_log s @ [Asked der (decide der)]\<rparr>)"

definition vencrypt_open ::
  "(bytes \<Rightarrow> (bytes \<times> bytes) option) \<Rightarrow> (bytes \<Rightarrow> bool) \<Rightarrow> nat net" where
  "vencrypt_open upgrade decide =
     cbind vencrypt_negotiate (\<lambda>subtype.
     cbind (tls_start upgrade) (\<lambda>der.
     cbind (ask decide der) (\<lambda>yes.
     if \<not> yes then fail (VRefused (lit ''the server's certificate wasn't accepted'')) else give subtype)))"

definition vencrypt_login ::
  "(bytes \<Rightarrow> bytes \<Rightarrow> bytes) \<Rightarrow> settings \<Rightarrow> str \<Rightarrow> rfb_version \<Rightarrow> nat \<Rightarrow> unit net" where
  "vencrypt_login des settings password version subtype =
     cbind (if subtype = X509_PLAIN then plain_login (st_user settings) password
            else if subtype = X509_VNC then vnc_auth des password
            else give ()) (\<lambda>_. security_result version)"

definition authenticate ::
  "(bytes \<Rightarrow> bytes \<Rightarrow> bytes) \<Rightarrow> (bytes \<Rightarrow> (bytes \<times> bytes) option) \<Rightarrow> (bytes \<Rightarrow> bool) \<Rightarrow> settings \<Rightarrow> str
     \<Rightarrow> rfb_version \<Rightarrow> security_choice \<Rightarrow> unit net" where
  "authenticate des upgrade decide settings password version choice =
     (case choice of
        NoAuth \<Rightarrow> if version = V3_8 then security_result version else give ()
      | VncAuth \<Rightarrow> cbind (vnc_auth des password) (\<lambda>_. security_result version)
      | VeNCrypt \<Rightarrow> cbind (vencrypt_open upgrade decide) (vencrypt_login des settings password version))"

text \<open>The client's init, then the server's.\<close>

definition start_session :: "settings \<Rightarrow> server_init net" where
  "start_session settings =
     cbind (transmit [of_bool (st_shared settings)]) (\<lambda>_.
     cbind (receive read_server_init) (\<lambda>init.
     if MAX_SIDE < si_width init \<or> MAX_SIDE < si_height init
     then fail (VProtocol (DesktopTooBig (si_width init) (si_height init))) else give init))"

definition handshake ::
  "(bytes \<Rightarrow> bytes \<Rightarrow> bytes) \<Rightarrow> (bytes \<Rightarrow> (bytes \<times> bytes) option) \<Rightarrow> (bytes \<Rightarrow> bool) \<Rightarrow> settings \<Rightarrow> str
     \<Rightarrow> (rfb_version \<times> server_init \<times> bool) net" where
  "handshake des upgrade decide settings password =
     cbind (receive (read_bytes 12)) (\<lambda>line.
     cbind (lift (version_from_server line)) (\<lambda>version.
     cbind (transmit (version_line version)) (\<lambda>_.
     cbind (pick_security version) (\<lambda>choice.
     cbind (authenticate des upgrade decide settings password version choice) (\<lambda>_.
     cbind (start_session settings) (\<lambda>init.
     give (version, init, choice = VeNCrypt)))))))"

subsection \<open>Inside TLS nothing is sent in clear\<close>

fun in_clear :: "net_event \<Rightarrow> bool" where
  "in_clear (Sent tls bs) \<longleftrightarrow> \<not> tls"
| "in_clear (Asked der yes) \<longleftrightarrow> False"

definition clear_of :: "conn \<Rightarrow> net_event list" where
  "clear_of s = filter in_clear (cn_log s)"

definition hidden :: "'a net \<Rightarrow> bool" where
  "hidden m \<longleftrightarrow> (\<forall>s. cn_tls s \<longrightarrow> cn_tls (snd (m s)) \<and> clear_of (snd (m s)) = clear_of s)"

lemma hidden_cbind: "hidden m \<Longrightarrow> (\<And>a. hidden (f a)) \<Longrightarrow> hidden (cbind m f)"
  unfolding hidden_def cbind_def by (fastforce split: prod.splits outcome.splits)

lemma hidden_give [simp]: "hidden (give a)" "hidden (fail e)" "hidden (lift r)" "hidden (receive rd)"
    "hidden (transmit bs)" "hidden receive_reason"
  by (auto simp: hidden_def give_def fail_def lift_def receive_def transmit_def receive_reason_def clear_of_def
    split: outcome.splits prod.splits)

lemma hidden_receive [simp]: "hidden receive_u8" "hidden receive_u32"
  by (auto simp: receive_u8_def receive_u32_def intro!: hidden_cbind)

lemma hidden_if: "hidden a \<Longrightarrow> hidden b \<Longrightarrow> hidden (if p then a else b)"
  by simp

lemmas hidden_intros = hidden_cbind hidden_if

lemma hidden_login: "hidden (vencrypt_login des settings password version subtype)"
  unfolding vencrypt_login_def plain_login_def vnc_auth_def security_result_def Let_def
  by (intro hidden_intros) simp_all

lemma hidden_start: "hidden (start_session settings)"
  unfolding start_session_def by (intro hidden_intros) simp_all

lemma cbind_cong: "m s = m' s \<Longrightarrow> cbind m f s = cbind m' f s"
  by (simp add: cbind_def)

text \<open>What a connection that chose VeNCrypt does up to the app's consent does not know the password.\<close>

lemma vencrypt_open_opens:
  assumes "vencrypt_open upgrade decide s = (Ok subtype, s')"
  shows "cn_tls s'"
proof -
  have "cn_tls s2" if "cbind (tls_start upgrade) (\<lambda>der. cbind (ask decide der) (\<lambda>yes.
      if \<not> yes then fail e else give k)) s1 = (Ok a, s2)" for e k s1 and a :: nat and s2
    using that by (auto simp: cbind_def tls_start_def ask_def fail_def give_def
      split: prod.splits outcome.splits option.splits if_splits)
  then show ?thesis
    using assms unfolding vencrypt_open_def
    by (subst (asm) cbind_def) (auto split: prod.splits outcome.splits)
qed

text \<open>The whole handshake for a server that offers VeNCrypt.\<close>

lemma pick_vencrypt:
  assumes "version \<noteq> V3_3" and "cn_in s = word_of_nat (length offered) # offered @ rest" and "VENCRYPT \<in> set offered"
    and "length offered < 256"
  shows "pick_security version s = cbind (transmit [VENCRYPT]) (\<lambda>_. give VeNCrypt) (s\<lparr>cn_in := rest\<rparr>)"
proof -
  have "unat (word_of_nat (length offered) :: byte) = length offered" using assms(4) by (rule unat_of_nat_byte)
  moreover have "(word_of_nat (length offered) :: byte) \<noteq> 0"
    using assms(3,4) calculation by (cases offered) (auto simp del: of_nat_Suc)
  ultimately show ?thesis
    using assms
    by (simp add: pick_security_def cbind_def receive_u8_def receive_def read_u8_def read_bytes_def lift_def
      choose_security_def)
qed

lemma cbind_assoc: "cbind (cbind m f) g = cbind m (\<lambda>a. cbind (f a) g)"
  by (rule ext) (auto simp: cbind_def split: prod.splits outcome.splits)

text \<open>Two computations that start alike are related when what follows is, and failures are.\<close>

lemma cbind_related:
  assumes "\<And>a s'. m s = (Ok a, s') \<Longrightarrow> R (f a s') (g a s')"
    and "\<And>e s. R (Err e, s) (Err e, s)" and "\<And>s. R (Panic, s) (Panic, s)"
  shows "R (cbind m f s) (cbind m g s)"
  using assms by (auto simp: cbind_def split: prod.splits outcome.splits)

definition finish_vencrypt ::
  "(bytes \<Rightarrow> bytes \<Rightarrow> bytes) \<Rightarrow> settings \<Rightarrow> str \<Rightarrow> rfb_version \<Rightarrow> nat \<Rightarrow> (rfb_version \<times> server_init \<times> bool) net" where
  "finish_vencrypt des settings password version subtype =
     cbind (vencrypt_login des settings password version subtype) (\<lambda>_.
     cbind (start_session settings) (\<lambda>init. give (version, init, True)))"

lemma hidden_finish: "hidden (finish_vencrypt des settings password version subtype)"
  unfolding finish_vencrypt_def by (intro hidden_cbind hidden_login hidden_start) simp

lemma handshake_related:
  assumes server: "cn_in s = line @ word_of_nat (length offered) # offered @ rest" "length line = 12"
      "version_from_server line = Ok version" "version \<noteq> V3_3" "VENCRYPT \<in> set offered" "length offered < 256"
    and fails: "\<And>e s. R (Err e, s) (Err e, s)" "\<And>s. R (Panic, s) (Panic, s)"
    and after: "\<And>subtype s1 s2. vencrypt_open upgrade decide s1 = (Ok subtype, s2) \<Longrightarrow>
      R (finish_vencrypt des settings p version subtype s2) (finish_vencrypt des settings q version subtype s2)"
  shows "R (handshake des upgrade decide settings p s) (handshake des upgrade decide settings q s)"
  unfolding handshake_def
proof (rule cbind_related [where R = R, OF _ fails], rule cbind_related [where R = R, OF _ fails], rule cbind_related [where R = R, OF _ fails],
    rule cbind_related [where R = R, OF _ fails], goal_cases)
  case (1 line' s1 version' s2 u s3 choice s4)
  have v: "version' = version" "s2 = s\<lparr>cn_in := word_of_nat (length offered) # offered @ rest\<rparr>"
    using 1(1,2) server(1-3) by (auto simp: receive_def read_bytes_def lift_def)
  have s3: "cn_in s3 = word_of_nat (length offered) # offered @ rest"
    using 1(3) v by (auto simp: transmit_def)
  have c: "choice = VeNCrypt"
    using 1(4) pick_vencrypt [OF server(4) s3 server(5,6)]
    by (auto simp: v(1) cbind_def transmit_def give_def split: if_splits)
  show ?case
    unfolding authenticate_def c v(1) security_choice.case cbind_assoc
    by (rule cbind_related [where R = R, OF _ fails])
       (use after in \<open>simp add: finish_vencrypt_def\<close>)
qed

text \<open>
  C28: VeNCrypt guards the password. When the server offers VeNCrypt, what the client sends in
  clear is the same for any two passwords: a password goes inside TLS only. And when the app does not
  accept the certificate, everything the client does is the same for any two passwords, and the
  handshake does not succeed: nothing secret is sent before the app says yes.
\<close>

theorem vencrypt_guards_password:
  assumes "cn_in s = line @ word_of_nat (length offered) # offered @ rest" and "length line = 12"
    and "version_from_server line = Ok version" and "version \<noteq> V3_3"
    and "VENCRYPT \<in> set offered" and "length offered < 256"
  shows "clear_of (snd (handshake des upgrade decide settings p s)) =
         clear_of (snd (handshake des upgrade decide settings q s)) \<and>
    ((\<forall>der. \<not> decide der) \<longrightarrow>
       handshake des upgrade decide settings p s = handshake des upgrade decide settings q s \<and>
       (\<forall>r. fst (handshake des upgrade decide settings p s) \<noteq> Ok r))"
proof (rule conjI)
  show "clear_of (snd (handshake des upgrade decide settings p s)) =
         clear_of (snd (handshake des upgrade decide settings q s))"
    by (rule handshake_related [OF assms, where R = "\<lambda>x y. clear_of (snd x) = clear_of (snd y)"])
       (use hidden_finish [unfolded hidden_def] in \<open>auto dest!: vencrypt_open_opens\<close>)
next
  have no: "vencrypt_open upgrade decide s' \<noteq> (Ok subtype, f)" if "\<forall>der. \<not> decide der" for s' subtype f
    using that by (auto simp: vencrypt_open_def cbind_def ask_def fail_def give_def
      split: prod.splits outcome.splits if_splits)
  show "(\<forall>der. \<not> decide der) \<longrightarrow>
       handshake des upgrade decide settings p s = handshake des upgrade decide settings q s \<and>
       (\<forall>r. fst (handshake des upgrade decide settings p s) \<noteq> Ok r)"
    by (intro impI, rule handshake_related [OF assms, where R = "\<lambda>x y. x = y \<and> (\<forall>r. fst x \<noteq> Ok r)"])
       (use no in auto)
qed

theorem vencrypt_guards_password_witness:
  "handshake (\<lambda>key block. block) (\<lambda>bs. Some ([7], bs)) (\<lambda>der. False)
      \<lparr>st_user = [], st_shared = True, st_read_only = False, st_quality = None, st_compression = 6\<rparr> (lit ''secret'')
      \<lparr>cn_in = version_line V3_8 @ [1, 19, 0, 2, 0, 1, 0, 0, 1, 6, 1], cn_faults = [], cn_tls = False, cn_log = []\<rparr> =
   handshake (\<lambda>key block. block) (\<lambda>bs. Some ([7], bs)) (\<lambda>der. False)
      \<lparr>st_user = [], st_shared = True, st_read_only = False, st_quality = None, st_compression = 6\<rparr> (lit ''other'')
      \<lparr>cn_in = version_line V3_8 @ [1, 19, 0, 2, 0, 1, 0, 0, 1, 6, 1], cn_faults = [], cn_tls = False, cn_log = []\<rparr>"
  using vencrypt_guards_password [of
      "\<lparr>cn_in = version_line V3_8 @ [1, 19, 0, 2, 0, 1, 0, 0, 1, 6, 1], cn_faults = [], cn_tls = False, cn_log = []\<rparr>"
      "version_line V3_8" "[19]" "[0, 2, 0, 1, 0, 0, 1, 6, 1]" V3_8 "\<lambda>key block. block" "\<lambda>bs. Some ([7], bs)" "\<lambda>der. False"
      "\<lparr>st_user = [], st_shared = True, st_read_only = False, st_quality = None, st_compression = 6\<rparr>"
      "lit ''secret''" "lit ''other''"]
    version_roundtrip [of V3_8]
  by (simp add: VENCRYPT_def lit_def utf8_char_def)

end
