(* ===== verification/Vnc_Session.thy ===== *)
theory Vnc_Session
  imports Vnc_Handshake
begin

text \<open>
  A VNC session (\<open>run\<close>, \<open>read_loop\<close> and \<open>resize\<close> of \<open>crates/opensesh-vnc/src/client.rs\<close>). The reader is
  a function of the bytes the server sends: one message after the other, its updates and its answers
  recorded in the session. \<open>se_takes\<close> is how many more updates the app takes before it is gone. The
  loop runs until it fails or the app is gone; \<open>read_loop z n\<close> is its first \<open>n\<close> messages. The writer's
  side is a step for each thing its \<open>select!\<close> can get.
\<close>

datatype update = USize nat nat | UPixels area bytes | UCursor cursor | UClipboard str

record 'z session =
  se_canvas :: canvas
  se_decoders :: "'z decoders"
  se_out :: "update list"
  se_takes :: nat
  se_writes :: "bytes list"
  se_resizable :: bool
  se_screen :: nat

definition MAX_CURSOR :: nat where "MAX_CURSOR = 256"

definition RAW :: int where "RAW = 0"
definition COPY_RECT :: int where "COPY_RECT = 1"
definition HEXTILE :: int where "HEXTILE = 5"
definition TIGHT :: int where "TIGHT = 7"
definition ZRLE :: int where "ZRLE = 16"
definition CURSOR :: int where "CURSOR = - 239"
definition DESKTOP_SIZE :: int where "DESKTOP_SIZE = - 223"
definition LAST_RECT :: int where "LAST_RECT = - 224"
definition EXTENDED_DESKTOP_SIZE :: int where "EXTENDED_DESKTOP_SIZE = - 308"
definition QUALITY_0 :: int where "QUALITY_0 = - 32"
definition COMPRESS_0 :: int where "COMPRESS_0 = - 256"

lemmas encoding_defs = RAW_def COPY_RECT_def HEXTILE_def TIGHT_def ZRLE_def CURSOR_def DESKTOP_SIZE_def
  LAST_RECT_def EXTENDED_DESKTOP_SIZE_def

text \<open>\<open>out.send\<close>: whether the app took it.\<close>

definition deliver :: "update \<Rightarrow> 'z session \<Rightarrow> bool \<times> 'z session" where
  "deliver u s =
     (if se_takes s = 0 then (False, s) else (True, s\<lparr>se_takes := se_takes s - 1, se_out := se_out s @ [u]\<rparr>))"

definition resize_session :: "'z session \<Rightarrow> nat \<Rightarrow> nat \<Rightarrow> (vnc_error, 'z session) outcome" where
  "resize_session s width height =
     (if MAX_SIDE < width \<or> MAX_SIDE < height then Err (VProtocol (DesktopTooBig width height))
      else Ok (snd (deliver (USize width height) (s\<lparr>se_canvas := canvas_resize (se_canvas s) width height\<rparr>))))"

definition read_i32 :: "bytes \<Rightarrow> (vnc_error, int \<times> bytes) outcome" where
  "read_i32 input = obind (read_bytes 4 input) (\<lambda>(bs, input).
     Ok (if from_be bs < 2 ^ 31 then int (from_be bs) else int (from_be bs) - 2 ^ 32, input))"

definition read_area :: "bytes \<Rightarrow> (vnc_error, area \<times> bytes) outcome" where
  "read_area input =
     obind (read_bytes 2 input) (\<lambda>(x, input).
     obind (read_bytes 2 input) (\<lambda>(y, input).
     obind (read_bytes 2 input) (\<lambda>(w, input).
     obind (read_bytes 2 input) (\<lambda>(h, input).
       Ok (\<lparr>a_x = from_be x, a_y = from_be y, a_width = from_be w, a_height = from_be h\<rparr>, input)))))"

definition decode_rect ::
  "'z codecs \<Rightarrow> int \<Rightarrow> 'z decoders \<Rightarrow> bytes \<Rightarrow> canvas \<Rightarrow> area
     \<Rightarrow> (vnc_error, (canvas \<times> 'z decoders) \<times> bytes) outcome" where
  "decode_rect z encoding d input c a =
     (if encoding = RAW then obind (raw input c a) (\<lambda>(c, input). Ok ((c, d), input))
      else if encoding = COPY_RECT then obind (copy_rect input c a) (\<lambda>(c, input). Ok ((c, d), input))
      else if encoding = HEXTILE then obind (hextile input c a) (\<lambda>(c, input). Ok ((c, d), input))
      else if encoding = ZRLE then zrle z d input c a
      else tight z d input c a)"

text \<open>How a rectangle ends: the next one follows, it was the last, or the app is gone.\<close>

datatype flow = Continue | Break | Return

definition pixels_rect ::
  "'z codecs \<Rightarrow> int \<Rightarrow> 'z session \<Rightarrow> bytes \<Rightarrow> area \<Rightarrow> (vnc_error, (flow \<times> 'z session) \<times> bytes) outcome" where
  "pixels_rect z encoding s input a =
     obind (canvas_check (se_canvas s) a) (\<lambda>_.
     obind (decode_rect z encoding (se_decoders s) input (se_canvas s) a) (\<lambda>((c, d), input).
       let s = s\<lparr>se_canvas := c, se_decoders := d\<rparr>
       in if 0 < a_width a \<and> 0 < a_height a then
            obind (canvas_read c a) (\<lambda>rgba.
              let (took, s) = deliver (UPixels a rgba) s
              in Ok ((if took then Continue else Return, s), input))
          else Ok ((Continue, s), input)))"

definition cursor_rect :: "'z session \<Rightarrow> bytes \<Rightarrow> area \<Rightarrow> (vnc_error, (flow \<times> 'z session) \<times> bytes) outcome" where
  "cursor_rect s input a =
     (if MAX_CURSOR < a_width a \<or> MAX_CURSOR < a_height a then Err (VProtocol CursorTooBig)
      else obind (read_cursor input a) (\<lambda>(cursor, input).
        Ok ((Continue, if 0 < a_width a \<and> 0 < a_height a then snd (deliver (UCursor cursor) s) else s), input)))"

text \<open>The screens of an extended desktop size: the first one's id, if there is one.\<close>

fun read_screens :: "nat \<Rightarrow> bytes \<Rightarrow> (vnc_error, nat list \<times> bytes) outcome" where
  "read_screens 0 input = Ok ([], input)"
| "read_screens (Suc n) input =
     obind (read_bytes 4 input) (\<lambda>(screen, input).
     obind (read_bytes 12 input) (\<lambda>(_, input).
     obind (read_screens n input) (\<lambda>(screens, input). Ok (from_be screen # screens, input))))"

definition extended_size ::
  "'z session \<Rightarrow> bool \<Rightarrow> bytes \<Rightarrow> area \<Rightarrow> (vnc_error, ('z session \<times> bool) \<times> bytes) outcome" where
  "extended_size s full input a =
     obind (read_u8 input) (\<lambda>(count, input).
     obind (read_bytes 3 input) (\<lambda>(_, input).
     obind (read_screens (unat count) input) (\<lambda>(screens, input).
       let s = s\<lparr>se_screen := (case screens of [] \<Rightarrow> se_screen s | screen # _ \<Rightarrow> screen), se_resizable := True\<rparr>
       in if a_y a = 0 \<and> (a_width a, a_height a) \<noteq> (c_width (se_canvas s), c_height (se_canvas s))
          then obind (resize_session s (a_width a) (a_height a)) (\<lambda>s. Ok ((s, True), input))
          else Ok ((s, full), input))))"

definition server_rect ::
  "'z codecs \<Rightarrow> 'z session \<Rightarrow> bool \<Rightarrow> bytes \<Rightarrow> (vnc_error, (flow \<times> 'z session \<times> bool) \<times> bytes) outcome" where
  "server_rect z s full input =
     obind (read_area input) (\<lambda>(a, input).
     obind (read_i32 input) (\<lambda>(encoding, input).
       if encoding \<in> {RAW, COPY_RECT, HEXTILE, ZRLE, TIGHT} then
         obind (pixels_rect z encoding s input a) (\<lambda>((fl, s), input). Ok ((fl, s, full), input))
       else if encoding = CURSOR then
         obind (cursor_rect s input a) (\<lambda>((fl, s), input). Ok ((fl, s, full), input))
       else if encoding = DESKTOP_SIZE then
         obind (resize_session s (a_width a) (a_height a)) (\<lambda>s. Ok ((Continue, s, True), input))
       else if encoding = EXTENDED_DESKTOP_SIZE then
         obind (extended_size s full input a) (\<lambda>((s, full), input). Ok ((Continue, s, full), input))
       else if encoding = LAST_RECT then Ok ((Break, s, full), input)
       else Err (VProtocol (NotAsked encoding))))"

fun rects ::
  "'z codecs \<Rightarrow> nat \<Rightarrow> 'z session \<Rightarrow> bool \<Rightarrow> bytes
     \<Rightarrow> (vnc_error, (flow \<times> 'z session \<times> bool) \<times> bytes) outcome" where
  "rects z 0 s full input = Ok ((Continue, s, full), input)"
| "rects z (Suc n) s full input =
     obind (server_rect z s full input) (\<lambda>(r, input).
       if fst r = Continue then rects z n (fst (snd r)) (snd (snd r)) input else Ok (r, input))"

text \<open>One message from the server; \<open>True\<close> when the app is gone and the loop ends.\<close>

definition server_message :: "'z codecs \<Rightarrow> 'z session \<Rightarrow> bytes \<Rightarrow> (vnc_error, (bool \<times> 'z session) \<times> bytes) outcome" where
  "server_message z s input =
     obind (read_u8 input) (\<lambda>(kind, input).
       if kind = 0 then
         obind (read_bytes 1 input) (\<lambda>(_, input).
         obind (read_bytes 2 input) (\<lambda>(count, input).
         obind (rects z (from_be count) s False input) (\<lambda>((fl, s, full), input).
           if fl = Return then Ok ((True, s), input)
           else Ok ((False, s\<lparr>se_writes := se_writes s @
                  [update_request (\<not> full) (c_width (se_canvas s)) (c_height (se_canvas s))]\<rparr>), input))))
       else if kind = 1 then
         obind (read_bytes 5 input) (\<lambda>(header, input).
         obind (read_bytes (from_be (drop 3 header) * 6) input) (\<lambda>(_, input). Ok ((False, s), input)))
       else if kind = 2 \<or> kind = 150 then Ok ((False, s), input)
       else if kind = 3 then
         obind (read_bytes 3 input) (\<lambda>(_, input).
         obind (read_i32 input) (\<lambda>(n, input).
         obind (read_capped (nat \<bar>n\<bar>) input) (\<lambda>(bs, input).
           Ok ((False, if 0 \<le> n then snd (deliver (UClipboard (from_latin1 bs)) s) else s), input))))
       else if kind = 248 then
         obind (read_bytes 7 input) (\<lambda>(_, input).
         obind (read_u8 input) (\<lambda>(n, input).
         obind (read_bytes (unat n) input) (\<lambda>(_, input). Ok ((False, s), input))))
       else Err (VProtocol (UnknownMessage kind)))"

fun read_loop :: "'z codecs \<Rightarrow> nat \<Rightarrow> 'z session \<Rightarrow> bytes \<Rightarrow> (vnc_error, (bool \<times> 'z session) \<times> bytes) outcome" where
  "read_loop z 0 s input = Ok ((False, s), input)"
| "read_loop z (Suc n) s input =
     obind (server_message z s input) (\<lambda>(r, input).
       if fst r then Ok (r, input) else read_loop z n (snd r) input)"

definition session_start :: "'z codecs \<Rightarrow> server_init \<Rightarrow> nat \<Rightarrow> 'z session" where
  "session_start z init takes =
     \<lparr>se_canvas = canvas_new (si_width init) (si_height init), se_decoders = decoders_default z, se_out = [],
      se_takes = takes, se_writes = [], se_resizable = False, se_screen = 0\<rparr>"

subsection \<open>The writer\<close>

datatype vnc_input = IKey nat bool | IPointer byte nat nat | IClipboard str | IResize nat nat

text \<open>
  What the writer's loop gets: word that the server takes new sizes, a message of the reader's, or
  an input of the app's; with what it reads of the shared state, the screen's id and whether the
  server takes new sizes. A failed write ends the loop, as the end of the list does.
\<close>

datatype run_event = EReady nat | EWrite bytes | EInput vnc_input bool nat

record writer =
  w_pending :: "(nat \<times> nat) option"
  w_sent :: "bytes list"

definition encodings :: "settings \<Rightarrow> int list" where
  "encodings st =
     [COPY_RECT, TIGHT, ZRLE, HEXTILE, RAW, CURSOR, DESKTOP_SIZE, EXTENDED_DESKTOP_SIZE, LAST_RECT,
      COMPRESS_0 + int (min (st_compression st) 9)] @
     (case st_quality st of None \<Rightarrow> [] | Some quality \<Rightarrow> [QUALITY_0 + int (min quality 9)])"

definition first_writes :: "settings \<Rightarrow> server_init \<Rightarrow> bytes list" where
  "first_writes st init =
     [set_pixel_format, set_encodings (encodings st), update_request False (si_width init) (si_height init)]"

fun is_resize :: "vnc_input \<Rightarrow> bool" where
  "is_resize (IResize w h) = True"
| "is_resize _ = False"

definition write_out :: "bytes \<Rightarrow> writer \<Rightarrow> writer" where
  "write_out m w = w\<lparr>w_sent := w_sent w @ [m]\<rparr>"

fun run_step :: "settings \<Rightarrow> writer \<Rightarrow> run_event \<Rightarrow> writer" where
  "run_step st w (EReady screen) =
     (case w_pending w of
        None \<Rightarrow> w
      | Some (width, height) \<Rightarrow> write_out (set_desktop_size width height screen) (w\<lparr>w_pending := None\<rparr>))"
| "run_step st w (EWrite m) = write_out m w"
| "run_step st w (EInput i resizable screen) =
     (if st_read_only st \<and> \<not> is_resize i then w
      else case i of
        IKey k down \<Rightarrow> write_out (key_event k down) w
      | IPointer buttons x y \<Rightarrow> write_out (pointer_event buttons x y) w
      | IClipboard s \<Rightarrow> write_out (client_cut_text s) w
      | IResize width height \<Rightarrow>
          if \<not> resizable then w\<lparr>w_pending := Some (width, height)\<rparr>
          else write_out (set_desktop_size width height screen) w)"

definition writer_start :: writer where
  "writer_start = \<lparr>w_pending = None, w_sent = []\<rparr>"

subsection \<open>What a session keeps, whatever the server sends\<close>

fun update_ok :: "update \<Rightarrow> bool" where
  "update_ok (USize w h) = (w \<le> MAX_SIDE \<and> h \<le> MAX_SIDE)"
| "update_ok (UPixels a rgba) =
     (a_x a + a_width a \<le> MAX_SIDE \<and> a_y a + a_height a \<le> MAX_SIDE \<and> length rgba = area_pixels a * 4)"
| "update_ok (UCursor c) =
     (cu_width c \<le> MAX_CURSOR \<and> cu_height c \<le> MAX_CURSOR \<and> length (cu_rgba c) = cu_width c * cu_height c * 4)"
| "update_ok (UClipboard s) = (length s \<le> VNC_MAX_TEXT)"

definition session_ok :: "'z session \<Rightarrow> bool" where
  "session_ok s \<longleftrightarrow> canvas_ok (se_canvas s) \<and> c_width (se_canvas s) \<le> MAX_SIDE \<and> c_height (se_canvas s) \<le> MAX_SIDE \<and>
     length (d_tight (se_decoders s)) = 4 \<and> list_all update_ok (se_out s) \<and> (\<forall>m \<in> set (se_writes s). hd m = 3)"

lemma deliver_ok: "session_ok s \<Longrightarrow> update_ok u \<Longrightarrow> session_ok (snd (deliver u s))"
  by (simp add: session_ok_def deliver_def)

lemma canvas_resize_ok:
  "w \<le> MAX_SIDE \<Longrightarrow> h \<le> MAX_SIDE \<Longrightarrow> canvas_ok (canvas_resize c w h)"
  by (simp add: canvas_ok_def canvas_resize_def length_concat_replicate MAX_SIDE_def u16_max_def)

lemma resize_session_ok: "session_ok s \<Longrightarrow> resize_session s w h = Ok s' \<Longrightarrow> session_ok s'"
  by (auto simp: resize_session_def split: if_splits intro!: deliver_ok)
     (simp add: session_ok_def canvas_resize_ok, simp add: canvas_resize_def)

lemma read_rows_length: "read_rows c a row n = Ok bs \<Longrightarrow> length bs = n * (a_width a * 4)"
  by (induction n arbitrary: row bs) (auto simp: Let_def split: if_splits)

lemma canvas_read_length: "canvas_read c a = Ok bs \<Longrightarrow> length bs = area_pixels a * 4"
  by (auto simp: canvas_read_def area_pixels_def dest!: read_rows_length)

text \<open>A rectangle of width zero that is decoded at all leaves the canvas drawn on inside itself.\<close>

lemma put_zero_width: "a_width a = 0 \<Longrightarrow> put_rgb c a bs = Panic" "a_width a = 0 \<Longrightarrow> put_rgbx c a bs = Panic"
  by (simp_all add: put_rgb_def put_rgbx_def chunks_exact_def)

lemma tight_basic_zero_width: "a_width a = 0 \<Longrightarrow> tight_basic z d input c a kind \<noteq> Ok p"
  by (auto simp: tight_basic_def tight_copy_def tight_palette_def tight_gradient_def Let_def put_zero_width
    split: if_splits)

lemma tight_zero_width:
  assumes "canvas_ok c" and "fits c a" and "a_width a = 0" and "length (d_tight d) = 4"
    and "tight z d input c a = Ok p"
  shows "tight_ok a c 4 p"
proof -
  obtain k rgb rest c' where fl: "fill c a rgb = Ok c'" "length rgb = 3" "p = ((c', reset_streams z k d), rest)"
    using assms(3,5)
    by (auto simp: tight_def Let_def put_zero_width read_bytes_def tight_basic_zero_width [OF assms(3)]
      split: if_splits)
  then show ?thesis
    using fill_drawn [OF assms(1,2) fl(2)] assms(4) by (simp add: tight_ok_def reset_streams_def)
qed

text \<open>The five encodings that carry pixels.\<close>

definition decoded_ok :: "area \<Rightarrow> canvas \<Rightarrow> (canvas \<times> 'z decoders) \<times> bytes \<Rightarrow> bool" where
  "decoded_ok a c p \<longleftrightarrow> drawn a c (fst (fst p)) \<and> length (d_tight (snd (fst p))) = 4"

lemma decoded_ok_tight: "decoded_ok a c = tight_ok a c 4"
  by (rule ext) (simp add: decoded_ok_def tight_ok_def)

lemma decode_rect_safely:
  assumes "canvas_ok c" and "fits c a" and "0 < a_width a" and "length (d_tight d) = 4"
  shows "safely (decoded_ok a c) (decode_rect z encoding d input c a)"
proof -
  have wrap: "safely (decoded_ok a c) (obind m (\<lambda>(c, input). Ok ((c, d), input)))"
    if "safely (\<lambda>(c', rest). drawn a c c') m" for m :: "(vnc_error, canvas \<times> bytes) outcome"
    by (rule safely_obind [OF that]) (use assms(4) in \<open>auto simp: decoded_ok_def\<close>)
  have z: "safely (decoded_ok a c) (zrle z d input c a)"
    using zrle_safely [OF assms(1,2), of d z input] assms(4)
    by (auto simp: safely_def decoded_ok_def split: outcome.splits)
  have t: "safely (decoded_ok a c) (tight z d input c a)"
    using tight_safely [OF assms, of z input] by (simp only: decoded_ok_tight)
  show ?thesis
    using wrap [OF raw_safely [OF assms(1-3)]] wrap [OF copy_rect_safely [OF assms(1-3)]]
      wrap [OF hextile_safely [OF assms(1,2)]] z t by (simp add: decode_rect_def)
qed

lemma decode_rect_ok:
  assumes "canvas_ok c" and "fits c a" and "length (d_tight d) = 4" and "decode_rect z encoding d input c a = Ok p"
  shows "decoded_ok a c p"
proof (cases "0 < a_width a")
  case True
  then show ?thesis using decode_rect_safely [OF assms(1,2) True assms(3), of z encoding input] assms(4) by simp
next
  case False
  then have w: "a_width a = 0" by simp
  note un = decode_rect_def raw_def copy_rect_def canvas_copy_def put_zero_width [OF w]
  consider "encoding = HEXTILE" | "encoding = ZRLE" | "encoding \<notin> {RAW, COPY_RECT, HEXTILE, ZRLE}"
    using assms(4) by (cases "encoding \<in> {RAW, COPY_RECT}") (auto simp: un encoding_defs split: if_splits)
  then show ?thesis
  proof cases
    case 1
    then have "obind (hextile input c a) (\<lambda>(c, input). Ok ((c, d), input)) = Ok p"
      using assms(4) by (simp add: decode_rect_def encoding_defs)
    then show ?thesis
      using assms(3) hextile_safely [OF assms(1,2), of input] by (auto simp: decoded_ok_def)
  next
    case 2
    then show ?thesis
      using assms(3,4) zrle_safely [OF assms(1,2), of d z input] by (auto simp: decode_rect_def decoded_ok_def encoding_defs)
  next
    case 3
    then show ?thesis
      using assms(4) tight_zero_width [OF assms(1,2) w assms(3), of z input p]
      by (auto simp: decode_rect_def decoded_ok_def tight_ok_def)
  qed
qed

lemma drawn_session_ok:
  assumes "session_ok s" and "decoded_ok a (se_canvas s) ((c, d), rest)"
  shows "session_ok (s\<lparr>se_canvas := c, se_decoders := d\<rparr>)"
  using assms by (simp add: session_ok_def decoded_ok_def drawn_def)

lemma pixels_rect_ok:
  assumes "session_ok s" and "pixels_rect z encoding s input a = Ok ((fl, s'), rest)"
  shows "session_ok s'"
proof -
  let ?c = "se_canvas s" and ?d = "se_decoders s"
  have fit: "fits ?c a" using assms(2) by (auto simp: pixels_rect_def canvas_check_Ok)
  obtain c d rest' where dec: "decode_rect z encoding ?d input ?c a = Ok ((c, d), rest')"
    using assms(2) by (auto simp: pixels_rect_def)
  have "decoded_ok a ?c ((c, d), rest')"
    using assms(1) decode_rect_ok [OF _ fit _ dec] by (simp add: session_ok_def)
  then have ok: "session_ok (s\<lparr>se_canvas := c, se_decoders := d\<rparr>)" by (rule drawn_session_ok [OF assms(1)])
  have "update_ok (UPixels a rgba)" if "canvas_read c a = Ok rgba" for rgba
    using canvas_read_length [OF that] fit assms(1) by (auto simp: session_ok_def fits_def)
  then show ?thesis
    using assms(2) dec ok deliver_ok [OF ok]
    by (auto simp: pixels_rect_def Let_def split_beta split: if_splits)
qed

lemma cursor_rect_ok:
  assumes "session_ok s" and "cursor_rect s input a = Ok ((fl, s'), rest)"
  shows "session_ok s'"
proof -
  have "update_ok (UCursor c)" if "read_cursor input a = Ok (c, r)" "\<not> MAX_CURSOR < a_width a" "\<not> MAX_CURSOR < a_height a"
    for c r
  proof -
    have "cu_width c = a_width a" "cu_height c = a_height a" using that(1) by (auto simp: read_cursor_def)
    then show ?thesis using that read_cursor_safely [of a input] by (simp add: area_pixels_def)
  qed
  then show ?thesis using assms deliver_ok [OF assms(1)] by (auto simp: cursor_rect_def split: if_splits)
qed

lemma extended_size_ok:
  assumes "session_ok s" and "extended_size s full input a = Ok ((s', full'), rest)"
  shows "session_ok s'"
proof -
  have "session_ok (s\<lparr>se_screen := k, se_resizable := True\<rparr>)" "session_ok (s\<lparr>se_resizable := True\<rparr>)" for k
    using assms(1) by (simp_all add: session_ok_def)
  then show ?thesis
    using assms(2) by (auto simp: extended_size_def Let_def split: if_splits list.splits intro: resize_session_ok)
qed

lemma rect_keeps_ok:
  assumes "session_ok s" and "server_rect z s full input = Ok ((fl, s', full'), rest)"
  shows "session_ok s'"
  using assms(2) pixels_rect_ok [OF assms(1)] cursor_rect_ok [OF assms(1)] resize_session_ok [OF assms(1)]
    extended_size_ok [OF assms(1)] assms(1)
  unfolding server_rect_def by (auto split: if_splits)

lemma rects_keep_ok:
  "session_ok s \<Longrightarrow> rects z n s full input = Ok ((fl, s', full'), rest) \<Longrightarrow> session_ok s'"
proof (induction n arbitrary: s full input)
  case (Suc n)
  show ?case
    using Suc.prems(2) by (auto split: if_splits intro: Suc.IH rect_keeps_ok [OF Suc.prems(1)])
qed simp

lemma read_capped_length: "read_capped n input = Ok (bs, rest) \<Longrightarrow> length bs \<le> VNC_MAX_TEXT"
  by (auto simp: read_capped_eq)

lemma server_message_ok:
  assumes "session_ok s" and "server_message z s input = Ok ((gone, s'), rest)"
  shows "session_ok s'"
proof -
  have wr: "session_ok (s1\<lparr>se_writes := se_writes s1 @ [update_request i w h]\<rparr>)" if "session_ok s1"
    for s1 :: "'a session" and i w h
    using that by (auto simp: session_ok_def update_request_def)
  have clip: "session_ok (snd (deliver (UClipboard (from_latin1 bs)) s))" if "read_capped n i = Ok (bs, r)"
    for bs n i r
    by (rule deliver_ok [OF assms(1)]) (use read_capped_length [OF that] in \<open>simp add: from_latin1_def\<close>)
  show ?thesis
    using assms(2) rects_keep_ok [OF assms(1)] wr clip assms(1)
    unfolding server_message_def by (auto split: if_splits)
qed

lemma read_loop_ok:
  "session_ok s \<Longrightarrow> read_loop z n s input = Ok ((gone, s'), rest) \<Longrightarrow> session_ok s'"
proof (induction n arbitrary: s input)
  case (Suc n)
  show ?case
    using Suc.prems(2) by (auto split: if_splits intro: Suc.IH server_message_ok [OF Suc.prems(1)])
qed simp

lemma session_start_ok:
  "si_width init \<le> MAX_SIDE \<Longrightarrow> si_height init \<le> MAX_SIDE \<Longrightarrow> session_ok (session_start z init takes)"
  using canvas_resize_ok [of "si_width init" "si_height init"]
  by (simp add: session_ok_def session_start_def canvas_new_def decoders_default_def)
     (simp add: canvas_resize_def)

lemma pixels_rect_no_panic:
  assumes "session_ok s" and "fits (se_canvas s) a"
    and "safely (decoded_ok a (se_canvas s)) (decode_rect z encoding (se_decoders s) input (se_canvas s) a)"
  shows "pixels_rect z encoding s input a \<noteq> Panic"
proof -
  let ?c = "se_canvas s"
  have check: "canvas_check ?c a = Ok ()" using assms(2) by (simp add: canvas_check_Ok)
  have "safely (\<lambda>_. True) (pixels_rect z encoding s input a)"
    unfolding pixels_rect_def check obind.simps
  proof (rule safely_obind [OF assms(3)], goal_cases)
    case (1 p)
    then obtain c' d' rest where p: "p = ((c', d'), rest)" "drawn a ?c c'" by (cases p) (auto simp: decoded_ok_def)
    then obtain bs where "canvas_read c' a = Ok bs"
      using read_rows_Ok [of c' a 0 "a_height a"] assms(2) by (auto simp: canvas_read_def drawn_def fits_def)
    then show ?case using p by (simp add: Let_def split_beta deliver_def)
  qed
  then show ?thesis by auto
qed

lemma pixels_rect_panic:
  assumes "session_ok s" and "pixels_rect z encoding s input a = Panic"
  shows "a_width a = 0 \<and> encoding \<noteq> HEXTILE \<and> encoding \<noteq> ZRLE"
proof -
  let ?c = "se_canvas s" and ?d = "se_decoders s"
  have fit: "fits ?c a"
    using assms(2) canvas_check_Ok [of ?c a] by (auto simp: pixels_rect_def canvas_check_def split: if_splits)
  have c: "canvas_ok ?c" "length (d_tight ?d) = 4" using assms(1) by (simp_all add: session_ok_def)
  have unsafe: "\<not> safely (decoded_ok a ?c) (decode_rect z encoding ?d input ?c a)"
    using pixels_rect_no_panic [OF assms(1) fit] assms(2) by blast
  have "safely (decoded_ok a ?c) (decode_rect z HEXTILE ?d input ?c a)"
    using hextile_safely [OF c(1) fit, of input] c(2)
    by (cases "hextile input ?c a") (auto simp: decode_rect_def encoding_defs decoded_ok_def)
  moreover have "safely (decoded_ok a ?c) (decode_rect z ZRLE ?d input ?c a)"
    using zrle_safely [OF c(1) fit, of ?d z input] c(2)
    by (cases "zrle z ?d input ?c a") (auto simp: decode_rect_def encoding_defs decoded_ok_def)
  ultimately show ?thesis using unsafe decode_rect_safely [OF c(1) fit _ c(2), of z encoding input] by auto
qed

text \<open>
  C26: a rectangle of pixels is drawn inside itself. For any rectangle in any of the five encodings,
  whatever bytes the server sends and whatever the zlib and JPEG libraries make of them, decoding
  fails, or the canvas keeps its size and differs from the old one only inside the rectangle. It
  panics only for a rectangle of width zero in Raw, CopyRect or Tight (where it does:
  \<open>raw_zero_width_panics\<close>).
\<close>

theorem rect_draws_inside:
  assumes "session_ok s"
  shows "case pixels_rect z encoding s input a of
      Ok ((fl, s'), rest) \<Rightarrow> drawn a (se_canvas s) (se_canvas s') \<and> session_ok s'
    | Err e \<Rightarrow> True
    | Panic \<Rightarrow> a_width a = 0 \<and> encoding \<noteq> HEXTILE \<and> encoding \<noteq> ZRLE"
proof (cases "pixels_rect z encoding s input a")
  case (Ok r)
  obtain fl s' rest where r: "r = ((fl, s'), rest)" by (metis prod.collapse)
  let ?c = "se_canvas s"
  have fit: "canvas_check ?c a = outcome.Ok ()"
    using Ok by (cases "canvas_check ?c a") (auto simp: pixels_rect_def)
  obtain p where p: "decode_rect z encoding (se_decoders s) input ?c a = outcome.Ok p"
    using Ok fit by (cases "decode_rect z encoding (se_decoders s) input ?c a") (auto simp: pixels_rect_def)
  obtain c d rest2 where cd: "p = ((c, d), rest2)" by (metis prod.collapse)
  have "decoded_ok a ?c p"
    using assms p fit by (intro decode_rect_ok) (simp_all add: session_ok_def canvas_check_Ok)
  moreover have "se_canvas s' = c"
    using Ok unfolding pixels_rect_def fit p r cd
    by (cases "canvas_read c a") (auto simp: Let_def deliver_def split: if_splits)
  ultimately show ?thesis using pixels_rect_ok [OF assms Ok [unfolded r]] Ok r cd by (simp add: decoded_ok_def)
qed (use pixels_rect_panic [OF assms] in simp_all)

text \<open>A codec that decodes nothing, and a small session with it.\<close>

definition no_codecs :: "unit codecs" where
  "no_codecs = \<lparr>z_new = (), z_reset = id, z_run = \<lambda>s bs n. None, v_grow = \<lambda>cap n. n, jpeg_decode = \<lambda>bs. None\<rparr>"

definition small_init :: server_init where
  "small_init = \<lparr>si_width = 3, si_height = 3, si_name = []\<rparr>"

lemma small_ok: "session_ok (session_start no_codecs small_init 5)"
  by (rule session_start_ok) (simp_all add: small_init_def MAX_SIDE_def)

theorem rect_draws_inside_witness:
  "case pixels_rect no_codecs TIGHT (session_start no_codecs small_init 5) [0x80, 9, 8, 7]
      \<lparr>a_x = 1, a_y = 1, a_width = 2, a_height = 1\<rparr> of
      Ok ((fl, s'), rest) \<Rightarrow> drawn \<lparr>a_x = 1, a_y = 1, a_width = 2, a_height = 1\<rparr>
        (se_canvas (session_start no_codecs small_init 5)) (se_canvas s') \<and> session_ok s'
    | Err e \<Rightarrow> True | Panic \<Rightarrow> False"
  using rect_draws_inside [OF small_ok, where z = no_codecs and encoding = TIGHT and input = "[0x80, 9, 8, 7]"
      and a = "\<lparr>a_x = 1, a_y = 1, a_width = 2, a_height = 1\<rparr>"]
  by (auto split: outcome.splits)

text \<open>
  C27: a session keeps its shape. From the start of a session, after any number of messages and
  whatever bytes the server sends, the desktop is at most 8192 pixels a side with four bytes a pixel,
  the four Tight streams are there, and everything handed to the app is well formed: sizes within the
  limit, pictures inside the desktop's limit with four bytes a pixel, cursors at most 256 a side,
  clipboard texts within the cap. The reader answers with update requests only.
\<close>

theorem session_keeps_shape:
  assumes "si_width init \<le> MAX_SIDE" and "si_height init \<le> MAX_SIDE"
    and "read_loop z n (session_start z init takes) input = Ok ((gone, s), rest)"
  shows "session_ok s"
  using read_loop_ok [OF session_start_ok [OF assms(1,2)] assms(3)] .

lemma canvas_resize_sides [simp]: "c_width (canvas_resize c w h) = w" "c_height (canvas_resize c w h) = h"
  by (simp_all add: canvas_resize_def)

theorem session_keeps_shape_witness:
  "\<exists>s. read_loop no_codecs 1 (session_start no_codecs small_init 5)
       [0, 0, 0, 1, 0, 0, 0, 0, 0, 2, 0, 1, 255, 255, 255, 33] = Ok ((False, s), []) \<and>
     c_width (se_canvas s) = 2 \<and> session_ok s"
proof -
  have "\<exists>s. read_loop no_codecs 1 (session_start no_codecs small_init 5)
      [0, 0, 0, 1, 0, 0, 0, 0, 0, 2, 0, 1, 255, 255, 255, 33] = Ok ((False, s), []) \<and> c_width (se_canvas s) = 2"
    by (simp add: server_message_def read_u8_def read_bytes_def from_be_def server_rect_def read_area_def read_i32_def
      encoding_defs resize_session_def MAX_SIDE_def deliver_def)
  then obtain s where run: "read_loop no_codecs 1 (session_start no_codecs small_init 5)
      [0, 0, 0, 1, 0, 0, 0, 0, 0, 2, 0, 1, 255, 255, 255, 33] = Ok ((False, s), [])" "c_width (se_canvas s) = 2" by blast
  have "session_ok s" by (rule session_keeps_shape [OF _ _ run(1)]) (simp_all add: small_init_def MAX_SIDE_def)
  then show ?thesis using run by blast
qed

subsection \<open>What a writer sends\<close>

text \<open>The messages that carry no input: the formats, the requests for updates and sizes.\<close>

definition no_input :: "bytes \<Rightarrow> bool" where
  "no_input m \<longleftrightarrow> hd m \<in> {0, 2, 3, 251}"

lemma first_writes_no_input: "m \<in> set (first_writes st init) \<Longrightarrow> no_input m"
  by (auto simp: first_writes_def no_input_def set_pixel_format_def set_encodings_def update_request_def)

definition quiet_event :: "settings \<Rightarrow> run_event \<Rightarrow> bool" where
  "quiet_event st e \<longleftrightarrow> st_read_only st \<and> (case e of EWrite m \<Rightarrow> no_input m | _ \<Rightarrow> True)"

definition quiet_writer :: "writer \<Rightarrow> bool" where
  "quiet_writer w \<longleftrightarrow> (\<forall>m \<in> set (w_sent w). no_input m)"

lemma run_step_no_input: "quiet_writer w \<Longrightarrow> quiet_event st e \<Longrightarrow> quiet_writer (run_step st w e)"
proof (cases e)
  case (EInput i resizable screen)
  then show "quiet_writer w \<Longrightarrow> quiet_event st e \<Longrightarrow> ?thesis"
    by (cases i) (auto simp: quiet_writer_def quiet_event_def write_out_def no_input_def set_desktop_size_def)
qed (auto simp: quiet_writer_def quiet_event_def write_out_def no_input_def set_desktop_size_def split: option.splits)

interpretation quiet: invariant_machine "run_step st" quiet_writer "quiet_event st" for st
  by unfold_locales (rule run_step_no_input)

text \<open>
  C29: a read-only session sends no input and no clipboard. Whatever the app asks for, whenever
  the server allows new sizes, and whatever the server sends: with the reader's answers and the
  session's first messages in the queue, every message written sets a format, asks for an update or
  asks for a size.
\<close>

theorem read_only_sends_no_input:
  assumes "st_read_only st" and "si_width init \<le> MAX_SIDE" and "si_height init \<le> MAX_SIDE"
    and "read_loop z n (session_start z init takes) input = Ok ((gone, s), rest)"
    and "\<forall>m. EWrite m \<in> set events \<longrightarrow> m \<in> set (first_writes st init) \<union> set (se_writes s)"
  shows "list_all no_input (w_sent (foldl (run_step st) writer_start events))"
proof -
  have "\<forall>m \<in> set (se_writes s). no_input m"
    using read_loop_ok [OF session_start_ok [OF assms(2,3)] assms(4)] by (auto simp: session_ok_def no_input_def)
  then have ok: "no_input m" if "EWrite m \<in> set events" for m
    using assms(5) that first_writes_no_input [of m st init] by blast
  then have "list_all (quiet_event st) events"
    using assms(1) by (auto simp: list_all_iff quiet_event_def split: run_event.splits)
  from quiet.run_inv [OF _ this, of writer_start] show ?thesis
    by (simp add: quiet_writer_def writer_start_def list_all_iff)
qed

theorem read_only_sends_no_input_witness:
  "list_all no_input (w_sent (foldl
       (run_step \<lparr>st_user = [], st_shared = True, st_read_only = True, st_quality = None, st_compression = 6\<rparr>)
       writer_start [EWrite set_pixel_format, EInput (IKey 97 True) True 0, EInput (IResize 800 600) True 3]))"
  by (rule read_only_sends_no_input [where init = small_init and z = no_codecs and n = 0 and takes = 5
        and input = "[]" and gone = False and s = "session_start no_codecs small_init 5" and rest = "[]"])
     (simp_all add: small_init_def MAX_SIDE_def first_writes_def)

end
