(* ===== verification/Vnc_Drive.thy ===== *)
theory Vnc_Drive
  imports Vnc_Session
begin

text \<open>
  What the app's messages send to a VNC server (\<open>inputs_of\<close>, \<open>Pointer\<close> and \<open>disconnected\<close> of
  \<open>crates/opensesh-vnc/src/drive.rs\<close>). The keys held are a list without duplicates, for the hash set.
\<close>

datatype button = BLeft | BMiddle | BRight | BBack | BForward

datatype control =
    Disconnect | Keysym nat bool | Unicode uchar bool | Move nat nat | Button button bool
  | Wheel int int | ReleaseAll | CtrlAltDel | Resize nat nat
  | Connect | CertificateAnswer bool | ScanKey byte bool bool | Locks bool bool bool | Reconnect

datatype to_helper = Password str | Clipboard str | Control control

record pointer =
  p_x :: nat
  p_y :: nat
  p_buttons :: byte

record drive =
  dr_pointer :: pointer
  dr_keys :: "nat list"
  dr_password :: str

definition pointer_input :: "pointer \<Rightarrow> vnc_input" where
  "pointer_input p = IPointer (p_buttons p) (p_x p) (p_y p)"

definition wheel :: "pointer \<Rightarrow> byte \<Rightarrow> vnc_input list" where
  "wheel p b = [IPointer (or (p_buttons p) b) (p_x p) (p_y p), pointer_input p]"

fun button_bit :: "button \<Rightarrow> byte option" where
  "button_bit BLeft = Some 1"
| "button_bit BMiddle = Some 2"
| "button_bit BRight = Some 4"
| "button_bit BBack = None"
| "button_bit BForward = None"

definition wheel_steps :: "pointer \<Rightarrow> int \<Rightarrow> byte \<Rightarrow> byte \<Rightarrow> vnc_input list" where
  "wheel_steps p amount positive negative =
     (if amount = 0 then []
      else concat (replicate (nat (max 1 (min 20 (\<bar>amount\<bar> div 120))))
             (wheel p (if 0 < amount then positive else negative))))"

definition CTRL_ALT_DEL :: "nat list" where
  "CTRL_ALT_DEL = [0xffe3, 0xffe9, 0xffff]"

definition set_buttons :: "byte \<Rightarrow> drive \<Rightarrow> drive" where
  "set_buttons b s = s\<lparr>dr_pointer := (dr_pointer s)\<lparr>p_buttons := b\<rparr>\<rparr>"

fun control_inputs :: "control \<Rightarrow> drive \<Rightarrow> vnc_input option list \<times> drive" where
  "control_inputs Disconnect s = ([None], s)"
| "control_inputs (Keysym k down) s =
     ([Some (IKey k down)],
      s\<lparr>dr_keys := (if down then List.insert k (dr_keys s) else removeAll k (dr_keys s))\<rparr>)"
| "control_inputs (Unicode c down) s = ([Some (IKey (keysym_of_char c) down)], s)"
| "control_inputs (Move x y) s =
     (let s = s\<lparr>dr_pointer := (dr_pointer s)\<lparr>p_x := x, p_y := y\<rparr>\<rparr>
      in ([Some (pointer_input (dr_pointer s))], s))"
| "control_inputs (Button b down) s =
     (case button_bit b of
        None \<Rightarrow> ([], s)
      | Some b \<Rightarrow>
          let held = p_buttons (dr_pointer s);
              s = set_buttons (if down then or held b else and held (not b)) s
          in ([Some (pointer_input (dr_pointer s))], s))"
| "control_inputs (Wheel vertical horizontal) s =
     (map Some (wheel_steps (dr_pointer s) vertical 8 16 @ wheel_steps (dr_pointer s) horizontal 64 32), s)"
| "control_inputs ReleaseAll s =
     (let ups = map (\<lambda>k. Some (IKey k False)) (dr_keys s); s = s\<lparr>dr_keys := []\<rparr>
      in if p_buttons (dr_pointer s) \<noteq> 0
         then let s = set_buttons 0 s in (ups @ [Some (pointer_input (dr_pointer s))], s)
         else (ups, s))"
| "control_inputs CtrlAltDel s =
     (map (\<lambda>k. Some (IKey k True)) CTRL_ALT_DEL @ map (\<lambda>k. Some (IKey k False)) (rev CTRL_ALT_DEL), s)"
| "control_inputs (Resize w h) s = ([Some (IResize w h)], s)"
| "control_inputs _ s = ([], s)"

fun inputs_of :: "bool \<Rightarrow> to_helper \<Rightarrow> drive \<Rightarrow> vnc_input option list \<times> drive" where
  "inputs_of clipboard (Password p) s = ([], s\<lparr>dr_password := p\<rparr>)"
| "inputs_of clipboard (Clipboard t) s = (if clipboard then [Some (IClipboard t)] else [], s)"
| "inputs_of clipboard (Control c) s = control_inputs c s"

text \<open>Why a connection ended, as the app's state says it.\<close>

fun disconnected_code :: "vnc_error \<Rightarrow> str" where
  "disconnected_code (VAuth _) = lit ''auth''"
| "disconnected_code (VRefused _) = lit ''refused''"
| "disconnected_code VTimeout = lit ''timeout''"
| "disconnected_code VIo = lit ''network''"
| "disconnected_code (VUnsupported _) = lit ''unsupported''"
| "disconnected_code (VProtocol _) = lit ''protocol''"

subsection \<open>What the server holds down\<close>

text \<open>The server's side of the inputs: the keys down and the buttons down.\<close>

record remote =
  rm_keys :: "nat set"
  rm_buttons :: byte

fun remote_step :: "remote \<Rightarrow> vnc_input option \<Rightarrow> remote" where
  "remote_step r (Some (IKey k True)) = r\<lparr>rm_keys := insert k (rm_keys r)\<rparr>"
| "remote_step r (Some (IKey k False)) = r\<lparr>rm_keys := rm_keys r - {k}\<rparr>"
| "remote_step r (Some (IPointer b x y)) = r\<lparr>rm_buttons := b\<rparr>"
| "remote_step r _ = r"

definition drive_step :: "bool \<Rightarrow> drive \<times> remote \<Rightarrow> to_helper \<Rightarrow> drive \<times> remote" where
  "drive_step clipboard sr m =
     (let (is, s) = inputs_of clipboard m (fst sr) in (s, foldl remote_step (snd sr) is))"

text \<open>The drive knows every key and every button the server holds.\<close>

definition tracked :: "drive \<times> remote \<Rightarrow> bool" where
  "tracked sr \<longleftrightarrow> rm_keys (snd sr) \<subseteq> set (dr_keys (fst sr)) \<and> rm_buttons (snd sr) = p_buttons (dr_pointer (fst sr))"

fun types_no_character :: "to_helper \<Rightarrow> bool" where
  "types_no_character (Control (Unicode c down)) = (\<not> down)"
| "types_no_character _ = True"

lemma remote_wheel:
  "foldl remote_step r (map Some (wheel_steps p amount positive negative)) =
     (if amount = 0 then r else r\<lparr>rm_buttons := p_buttons p\<rparr>)"
proof -
  have "foldl remote_step r (map Some (concat (replicate n (wheel p b)))) =
      (if n = 0 then r else r\<lparr>rm_buttons := p_buttons p\<rparr>)" for n b
    by (induction n arbitrary: r) (auto simp: wheel_def pointer_input_def)
  then show ?thesis by (simp add: wheel_steps_def)
qed

lemma remote_ups: "foldl remote_step r (map (\<lambda>k. Some (IKey k False)) ks) = r\<lparr>rm_keys := rm_keys r - set ks\<rparr>"
proof (induction ks arbitrary: r)
  case (Cons k ks)
  have "rm_keys r - {k} - set ks = rm_keys r - set (k # ks)" by auto
  then show ?case by (simp add: Cons.IH del: set_simps)
qed simp

lemma drive_step_tracked:
  assumes "tracked sr" and "types_no_character m"
  shows "tracked (drive_step clipboard sr m)"
proof (cases m)
  case (Control c)
  then show ?thesis
    using assms
    by (cases c)
       (auto simp: drive_step_def tracked_def Let_def pointer_input_def set_buttons_def remote_wheel remote_ups
         CTRL_ALT_DEL_def split: option.splits bool.splits)
qed (use assms in \<open>auto simp: drive_step_def tracked_def\<close>)

interpretation dm: invariant_machine "drive_step clipboard" tracked types_no_character for clipboard
  by unfold_locales (rule drive_step_tracked)

definition drive_start :: "drive \<times> remote" where
  "drive_start =
     (\<lparr>dr_pointer = \<lparr>p_x = 0, p_y = 0, p_buttons = 0\<rparr>, dr_keys = [], dr_password = []\<rparr>,
      \<lparr>rm_keys = {}, rm_buttons = 0\<rparr>)"

text \<open>
  letting go of everything lets go of everything. After any messages of the app's that type
  no character by its code point (keys by keysym, buttons, wheel steps, Ctrl+Alt+Del, new sizes, the
  clipboard), \<open>ReleaseAll\<close> leaves the server with no key and no button down.
\<close>

theorem release_all_releases:
  assumes "list_all types_no_character messages"
  shows "snd (foldl (drive_step clipboard) drive_start (messages @ [Control ReleaseAll]))
    = \<lparr>rm_keys = {}, rm_buttons = 0\<rparr>"
proof -
  let ?sr = "foldl (drive_step clipboard) drive_start messages"
  have "tracked ?sr" using dm.run_inv [OF _ assms, of drive_start] by (simp add: drive_start_def tracked_def)
  then have "rm_keys (snd ?sr) - set (dr_keys (fst ?sr)) = {}"
    "rm_buttons (snd ?sr) = p_buttons (dr_pointer (fst ?sr))" by (auto simp: tracked_def)
  then show ?thesis
    by (cases "snd ?sr") (simp add: drive_step_def Let_def remote_ups pointer_input_def set_buttons_def)
qed

theorem release_all_releases_witness:
  "snd (foldl (drive_step True) drive_start
      ([Control (Keysym 97 True), Control (Button BLeft True), Control (Wheel 240 0)] @ [Control ReleaseAll]))
     = \<lparr>rm_keys = {}, rm_buttons = 0\<rparr>"
  by (rule release_all_releases) simp

text \<open>A character typed by its code point stays down, whatever \<open>ReleaseAll\<close> does.\<close>

lemma unicode_not_released:
  "rm_keys (snd (foldl (drive_step clipboard) drive_start [Control (Unicode 228 True), Control ReleaseAll])) = {228}"
  by (simp add: drive_step_def drive_start_def keysym_of_char_def)

end
