(* ===== verification/Terminal_Input.thy ===== *)
theory Terminal_Input
  imports Texts Utf8
begin

text \<open>
  What a terminal writes to its program for a paste, a change of focus and the mouse
  (\<open>crates/opensesh-term/src/input\<close>, \<open>paste.rs\<close> and \<open>mouse.rs\<close>). The engine's \<open>TermMode\<close> is a record of
  the flags that are asked for. The loop of \<open>encode_paste\<close> works on byte positions of the UTF-8
  form of the text and copies runs of it, as the code does.
\<close>

record term_mode =
  tm_bracketed_paste :: bool
  tm_focus_in_out :: bool
  tm_mouse_motion :: bool
  tm_mouse_drag :: bool
  tm_mouse_report_click :: bool
  tm_sgr_mouse :: bool
  tm_utf8_mouse :: bool
  tm_alt_screen :: bool
  tm_alternate_scroll :: bool
  tm_app_cursor :: bool
  tm_app_keypad :: bool
  tm_line_feed_new_line :: bool

record input_modes =
  im_term :: term_mode
  im_x10_mouse :: bool

record modifiers =
  md_shift :: bool
  md_ctrl :: bool
  md_alt :: bool
  md_meta :: bool

subsection \<open>Paste and focus\<close>

definition PASTE_START :: bytes where "PASTE_START = [27, 91, 50, 48, 48, 126]"
definition PASTE_END :: bytes where "PASTE_END = [27, 91, 50, 48, 49, 126]"

definition byte_range :: "bytes \<Rightarrow> nat \<Rightarrow> nat \<Rightarrow> bytes" where
  "byte_range bs a b = take (b - a) (drop a bs)"

text \<open>
  The \<open>while let\<close> loop: the byte position of the next character, where the run of unchanged text
  starts, the characters to come and the output so far.
\<close>

fun paste_loop :: "bytes \<Rightarrow> nat \<Rightarrow> nat \<Rightarrow> str \<Rightarrow> bytes \<Rightarrow> bytes \<times> nat" where
  "paste_loop bs index run_start [] out = (out, run_start)"
| "paste_loop bs index run_start (c # cs) out =
     (if c = 9 \<or> \<not> is_control c then paste_loop bs (index + utf8_len c) run_start cs out
      else if c = 13 then
        (case cs of
           d # ds \<Rightarrow>
             if d = 10
             then paste_loop bs (index + 2) (index + 2) ds (out @ byte_range bs run_start index @ [13])
             else paste_loop bs (index + utf8_len c) (index + utf8_len c) cs
                    (out @ byte_range bs run_start index @ [13])
         | [] \<Rightarrow> (out @ byte_range bs run_start index @ [13], index + utf8_len c))
      else paste_loop bs (index + utf8_len c) (index + utf8_len c) cs
             (out @ byte_range bs run_start index @ (if c = 10 then [13] else [])))"

definition encode_paste :: "str \<Rightarrow> input_modes \<Rightarrow> bytes" where
  "encode_paste s modes =
     (let bracketed = tm_bracketed_paste (im_term modes);
          start = (if bracketed then PASTE_START else []);
          (out, run_start) = paste_loop (utf8 s) 0 0 s start;
          out = out @ drop run_start (utf8 s)
      in if length out = length start then []
         else if bracketed then out @ PASTE_END else out)"

definition is_bracketed :: "input_modes \<Rightarrow> bool" where
  "is_bracketed modes = tm_bracketed_paste (im_term modes)"

definition encode_focus :: "bool \<Rightarrow> input_modes \<Rightarrow> bytes option" where
  "encode_focus focused modes =
     (if \<not> tm_focus_in_out (im_term modes) then None
      else Some (if focused then [27, 91, 73] else [27, 91, 79]))"

subsection \<open>Mouse\<close>

datatype mouse_button =
    MLeft | MMiddle | MRight | WheelUp | WheelDown | WheelLeft | WheelRight | MNone

datatype mouse_action = MPress | MRelease | MMove

record mouse_input =
  mi_action :: mouse_action
  mi_button :: mouse_button
  mi_column :: nat
  mi_row :: nat
  mi_mods :: modifiers

datatype mouse_protocol = X10 | Normal | ButtonEvent | AnyEvent

definition mouse_protocol_of :: "input_modes \<Rightarrow> mouse_protocol option" where
  "mouse_protocol_of modes =
     (let t = im_term modes
      in if im_x10_mouse modes then Some X10
         else if tm_mouse_motion t then Some AnyEvent
         else if tm_mouse_drag t then Some ButtonEvent
         else if tm_mouse_report_click t then Some Normal
         else None)"

definition mouse_reporting_active :: "input_modes \<Rightarrow> modifiers \<Rightarrow> bool" where
  "mouse_reporting_active modes mods \<longleftrightarrow> mouse_protocol_of modes \<noteq> None \<and> \<not> md_shift mods"

fun button_code :: "mouse_button \<Rightarrow> nat option" where
  "button_code MLeft = Some 0"
| "button_code MMiddle = Some 1"
| "button_code MRight = Some 2"
| "button_code WheelUp = Some 64"
| "button_code WheelDown = Some 65"
| "button_code WheelLeft = Some 66"
| "button_code WheelRight = Some 67"
| "button_code MNone = None"

definition modifier_bits :: "modifiers \<Rightarrow> nat" where
  "modifier_bits m = 4 * of_bool (md_shift m) + 8 * of_bool (md_alt m) + 16 * of_bool (md_ctrl m)"

text \<open>The code of an event and whether it is a release.\<close>

definition event_code :: "mouse_protocol \<Rightarrow> bool \<Rightarrow> mouse_input \<Rightarrow> (nat \<times> bool) option" where
  "event_code protocol sgr input =
     (let button = button_code (mi_button input); modifiers = modifier_bits (mi_mods input)
      in if protocol = X10 then
           (case (mi_action input, button) of
              (MPress, Some b) \<Rightarrow> if b \<le> 2 then Some (b, False) else None
            | _ \<Rightarrow> None)
         else
           (case mi_action input of
              MPress \<Rightarrow> map_option (\<lambda>b. (b + modifiers, False)) button
            | MRelease \<Rightarrow>
                (case button of
                   Some b \<Rightarrow> if b \<le> 2 then Some ((if sgr then b else 3) + modifiers, True) else None
                 | None \<Rightarrow> None)
            | MMove \<Rightarrow>
                (case button of
                   Some b \<Rightarrow>
                     if b \<le> 2 \<and> (protocol = ButtonEvent \<or> protocol = AnyEvent)
                     then Some (32 + b + modifiers, False) else None
                 | None \<Rightarrow> if protocol = AnyEvent then Some (32 + 3 + modifiers, False) else None)))"

text \<open>\<open>push_decimal\<close>: the digits are collected from the last on.\<close>

fun last_digits :: "nat \<Rightarrow> nat list" where
  "last_digits n = (n mod 10) # (if n div 10 = 0 then [] else last_digits (n div 10))"

declare last_digits.simps [simp del]

definition push_decimal :: "bytes \<Rightarrow> nat \<Rightarrow> bytes" where
  "push_decimal out n = out @ rev (map (\<lambda>d. word_of_nat (48 + d)) (last_digits n))"

definition push_legacy :: "bytes \<Rightarrow> nat \<Rightarrow> bool \<Rightarrow> bytes option" where
  "push_legacy out v wide =
     (if wide \<and> v \<ge> 128 then
        (if v > 2047 then None
         else Some (out @ [word_of_nat (192 + v div 64), word_of_nat (128 + v mod 64)]))
      else if v \<le> 255 then Some (out @ [word_of_nat v]) else None)"

definition encode_mouse :: "mouse_input \<Rightarrow> input_modes \<Rightarrow> bytes option" where
  "encode_mouse input modes =
     Option.bind (mouse_protocol_of modes) (\<lambda>protocol.
       let sgr = tm_sgr_mouse (im_term modes)
       in Option.bind (event_code protocol sgr input) (\<lambda>(code, release).
            let column = mi_column input + 1; row = mi_row input + 1
            in if sgr then
                 let out = push_decimal [27, 91, 60] code @ [59];
                     out = push_decimal out column @ [59];
                     out = push_decimal out row
                 in Some (out @ [if release then 109 else 77])
               else
                 let wide = tm_utf8_mouse (im_term modes)
                 in Option.bind (push_legacy [27, 91, 77] (32 + code) wide) (\<lambda>out.
                    Option.bind (push_legacy out (32 + column) wide) (\<lambda>out.
                    push_legacy out (32 + row) wide))))"

definition MAX_ALTERNATE_SCROLL_LINES :: nat where "MAX_ALTERNATE_SCROLL_LINES = 1000"

definition alternate_scroll :: "int \<Rightarrow> input_modes \<Rightarrow> bytes option" where
  "alternate_scroll ls modes =
     (let t = im_term modes
      in if ls = 0 \<or> \<not> (tm_alt_screen t \<and> tm_alternate_scroll t) \<or> mouse_protocol_of modes \<noteq> None then None
         else let final_byte = (if ls > 0 then 65 else 66);
                  introducer = (if tm_app_cursor t then 79 else 91);
                  count = min (nat \<bar>ls\<bar>) MAX_ALTERNATE_SCROLL_LINES
              in Some (concat (replicate count [27, introducer, final_byte])))"

subsection \<open>What a paste sends\<close>

text \<open>The rule of the module's documentation, on characters.\<close>

fun sanitise :: "bool \<Rightarrow> str \<Rightarrow> str" where
  "sanitise after_cr [] = []"
| "sanitise after_cr (c # cs) =
     (if c = 13 then 13 # sanitise True cs
      else if c = 10 then (if after_cr then [] else [13]) @ sanitise False cs
      else (if is_control c \<and> c \<noteq> 9 then [] else [c]) @ sanitise False cs)"

lemma byte_range_mid: "byte_range (a @ b @ c) (length a) (length a + length b) = b"
  by (simp add: byte_range_def)

lemma sanitise_no_lf: "\<nexists>ds. cs = 10 # ds \<Longrightarrow> sanitise b cs = sanitise False cs"
  by (cases cs) auto

lemma paste_loop_sanitises:
  assumes "bs = a @ utf8 run @ utf8 cs" and "index = length a + length (utf8 run)" and "start = length a"
  shows "fst (paste_loop bs index start cs out) @ drop (snd (paste_loop bs index start cs out)) bs =
    out @ utf8 run @ utf8 (sanitise False cs)"
  using assms
proof (induction cs arbitrary: a run out index start rule: length_induct)
  case (1 cs)
  have IH: "bs = a @ utf8 run @ utf8 ds \<Longrightarrow> i = length a + length (utf8 run) \<Longrightarrow> st = length a \<Longrightarrow>
      length ds < length cs \<Longrightarrow>
      fst (paste_loop bs i st ds out) @ drop (snd (paste_loop bs i st ds out)) bs =
      out @ utf8 run @ utf8 (sanitise False ds)" for a run out i st ds
    using 1(1) by blast
  have cut: "byte_range bs start index = utf8 run" using 1(2-4) byte_range_mid by simp
  show ?case
  proof (cases cs)
    case (Cons c ds)
    consider (keep) "c = 9 \<or> \<not> is_control c" | (crlf) es where "c = 13" "ds = 10 # es"
      | (cr) "c = 13" "\<nexists>es. ds = 10 # es" | (other) "is_control c" "c \<noteq> 9" "c \<noteq> 13"
      by blast
    then show ?thesis
    proof cases
      case keep
      then have "c \<noteq> 13" "c \<noteq> 10" by (auto simp: is_control_def)
      then show ?thesis
        using keep Cons IH [of a "run @ [c]" ds "index + utf8_len c" start out] 1(2-4)
        by (auto simp: length_utf8_char)
    next
      case crlf
      then show ?thesis
        using Cons IH [of "a @ utf8 run @ [13, 10]" "[]" es "index + 2" "index + 2" "out @ utf8 run @ [13]"]
          1(2-4) cut by (simp add: utf8_ascii is_control_def)
    next
      case cr
      have step: "paste_loop bs index start cs out =
          paste_loop bs (index + 1) (index + 1) ds (out @ utf8 run @ [13])"
        using cr Cons cut by (cases ds) (auto simp: is_control_def utf8_len_def)
      show ?thesis
        using cr Cons IH [of "a @ utf8 run @ [13]" "[]" ds "index + 1" "index + 1" "out @ utf8 run @ [13]"]
          1(2-4) sanitise_no_lf [OF cr(2), of True]
        unfolding step by (simp add: utf8_ascii)
    next
      case other
      then show ?thesis
        using Cons IH [of "a @ utf8 run @ utf8_char c" "[]" ds "index + utf8_len c" "index + utf8_len c"
            "out @ utf8 run @ (if c = 10 then [13] else [])"] 1(2-4) cut
        by (auto simp: length_utf8_char utf8_ascii)
    qed
  qed (use 1(2-4) in simp)
qed

lemma paste_is_sanitised:
  "encode_paste s modes =
     (let body = utf8 (sanitise False s)
      in if body = [] then []
         else if tm_bracketed_paste (im_term modes) then PASTE_START @ body @ PASTE_END
         else body)"
proof -
  let ?start = "if tm_bracketed_paste (im_term modes) then PASTE_START else []"
  have loop: "fst (paste_loop (utf8 s) 0 0 s ?start) @ drop (snd (paste_loop (utf8 s) 0 0 s ?start)) (utf8 s) =
      ?start @ utf8 (sanitise False s)"
    using paste_loop_sanitises [of "utf8 s" "[]" "[]" s 0 0 ?start] by simp
  show ?thesis unfolding encode_paste_def Let_def split_beta loop by simp
qed

text \<open>
  the fast copying of runs sends what the simple rule says. A paste is its text with every line
  break (CR LF, LF or CR) as one CR and without the other control characters but tabs, in UTF-8,
  between the two markers when the program asked for them; nothing is sent when nothing is left.
\<close>

theorem encode_paste_sanitises:
  "encode_paste s modes =
     (let body = utf8 (sanitise False s)
      in if body = [] then []
         else if tm_bracketed_paste (im_term modes) then PASTE_START @ body @ PASTE_END
         else body)"
  by (rule paste_is_sanitised)

lemma sanitise_chars: "c \<in> set (sanitise b s) \<Longrightarrow> c = 9 \<or> c = 13 \<or> \<not> is_control c"
  by (induction b s rule: sanitise.induct) (auto split: if_splits)

lemma byte_not_esc: "n < 256 \<Longrightarrow> n \<noteq> 27 \<Longrightarrow> word_of_nat n \<noteq> (27 :: byte)"
proof
  assume n: "n < 256" "n \<noteq> 27" and eq: "word_of_nat n = (27 :: byte)"
  have "unat (word_of_nat n :: byte) = n" using n(1) by (simp add: unat_of_nat)
  moreover have "unat (27 :: byte) = 27" by simp
  ultimately show False using eq n(2) by simp
qed

lemma utf8_char_no_esc:
  assumes "c \<noteq> 27" and "c < 1114112"
  shows "27 \<notin> set (utf8_char c)"
proof -
  have high: "word_of_nat n \<noteq> (27 :: byte)" if "128 \<le> n" "n < 256" for n
    using that by (intro byte_not_esc) auto
  have parts: "27 \<noteq> (word_of_nat (128 + c mod 64) :: byte)" "27 \<noteq> (word_of_nat (128 + c div 64 mod 64) :: byte)"
    "27 \<noteq> (word_of_nat (128 + c div 4096 mod 64) :: byte)"
    by (rule not_sym [OF high]; simp)+
  have lead: "c < 2048 \<Longrightarrow> 27 \<noteq> (word_of_nat (192 + c div 64) :: byte)"
    "c < 65536 \<Longrightarrow> 27 \<noteq> (word_of_nat (224 + c div 4096) :: byte)"
    "27 \<noteq> (word_of_nat (240 + c div 262144) :: byte)"
    using assms(2) by (intro not_sym [OF high]; linarith)+
  show ?thesis
    using parts lead assms not_sym [OF byte_not_esc [of c]]
    by (simp add: utf8_char_def del: of_nat_add)
qed

text \<open>
  C37: a pasted text cannot end its own paste or smuggle a control sequence into the program: in what
  is sent for any text, an escape byte stands only at the start of the two markers, and the text
  between them has no control character but tabs and carriage returns.
\<close>

theorem paste_cannot_escape:
  assumes "list_all (\<lambda>c. c < 1114112) s" and "encode_paste s modes \<noteq> []"
  shows "\<exists>body. encode_paste s modes =
      (if tm_bracketed_paste (im_term modes) then PASTE_START @ utf8 body @ PASTE_END else utf8 body) \<and>
    27 \<notin> set (utf8 body) \<and> list_all (\<lambda>c. c = 9 \<or> c = 13 \<or> \<not> is_control c) body"
proof (intro exI conjI)
  let ?b = "sanitise False s"
  have sub: "set (sanitise b t) \<subseteq> insert 13 (set t)" for b t
    by (induction b t rule: sanitise.induct) auto
  show "encode_paste s modes =
      (if tm_bracketed_paste (im_term modes) then PASTE_START @ utf8 ?b @ PASTE_END else utf8 ?b)"
    using paste_is_sanitised [of s modes] assms(2) by (auto simp: Let_def split: if_splits)
  have "27 \<notin> set (utf8_char c)" if "c \<in> set ?b" for c
  proof (rule utf8_char_no_esc)
    show "c \<noteq> 27" using sanitise_chars [OF that] by (auto simp: is_control_def)
    show "c < 1114112" using assms(1) sub [of False s] that by (auto simp: list_all_iff)
  qed
  then show "27 \<notin> set (utf8 ?b)" by (auto simp: utf8_def)
  show "list_all (\<lambda>c. c = 9 \<or> c = 13 \<or> \<not> is_control c) ?b"
    using sanitise_chars by (auto simp: list_all_iff)
qed

definition sample_modes :: input_modes where
  "sample_modes = \<lparr>im_term = \<lparr>tm_bracketed_paste = True, tm_focus_in_out = False,
      tm_mouse_motion = True, tm_mouse_drag = False, tm_mouse_report_click = False, tm_sgr_mouse = True,
      tm_utf8_mouse = False, tm_alt_screen = False, tm_alternate_scroll = False, tm_app_cursor = False,
      tm_app_keypad = False, tm_line_feed_new_line = False\<rparr>,
      im_x10_mouse = False\<rparr>"

theorem paste_cannot_escape_witness:
  "\<exists>body. encode_paste [27, 91, 97] sample_modes = PASTE_START @ utf8 body @ PASTE_END \<and> 27 \<notin> set (utf8 body)"
proof -
  have "encode_paste [27, 91, 97] sample_modes \<noteq> []"
    by (simp add: paste_is_sanitised is_control_def utf8_char_def PASTE_START_def sample_modes_def)
  with paste_cannot_escape [of "[27, 91, 97]" sample_modes] show ?thesis by (auto simp: sample_modes_def)
qed

subsection \<open>Mouse reports read back\<close>

text \<open>How a program reads an SGR report: code, column, row, and whether it is a release.\<close>

definition number_of :: "bytes \<Rightarrow> nat" where
  "number_of bs = foldl (\<lambda>n b. 10 * n + (unat b - 48)) 0 bs"

definition read_sgr :: "bytes \<Rightarrow> nat \<times> nat \<times> nat \<times> bool" where
  "read_sgr bs =
     (let body = butlast (drop 3 bs);
          rest = drop 1 (dropWhile (\<lambda>b. b \<noteq> 59) body)
      in (number_of (takeWhile (\<lambda>b. b \<noteq> 59) body), number_of (takeWhile (\<lambda>b. b \<noteq> 59) rest),
          number_of (drop 1 (dropWhile (\<lambda>b. b \<noteq> 59) rest)), last bs = 109))"

lemma last_digits_less: "d \<in> set (last_digits n) \<Longrightarrow> d < 10"
proof (induction n rule: last_digits.induct)
  case (1 n)
  then show ?case by (cases "n div 10 = 0") (auto simp: last_digits.simps [of n])
qed

definition digits :: "nat \<Rightarrow> bytes" where
  "digits n = rev (map (\<lambda>d. word_of_nat (48 + d)) (last_digits n))"

lemma push_decimal_digits: "push_decimal out n = out @ digits n"
  by (simp add: push_decimal_def digits_def)

lemma unat_digit: "d < 10 \<Longrightarrow> unat (word_of_nat (48 + d) :: byte) = 48 + d"
  by (subst unat_of_nat) simp

lemma digits_no_semicolon: "b \<in> set (digits n) \<Longrightarrow> b \<noteq> 59"
  using last_digits_less unat_digit by (fastforce simp: digits_def simp del: of_nat_add)

lemma number_of_digits: "number_of (digits n) = n"
proof (induction n rule: last_digits.induct)
  case (1 n)
  have snoc: "number_of (bs @ [b]) = 10 * number_of bs + (unat b - 48)" for bs b
    by (simp add: number_of_def)
  have d: "digits n = (if n div 10 = 0 then [] else digits (n div 10)) @ [word_of_nat (48 + n mod 10)]"
    by (simp add: digits_def last_digits.simps [of n] del: of_nat_add)
  have last: "unat (word_of_nat (48 + n mod 10) :: byte) - 48 = n mod 10" by (subst unat_digit) auto
  show ?case
  proof (cases "n div 10 = 0")
    case True
    then have "digits n = [] @ [word_of_nat (48 + n mod 10)]" using d by simp
    then have "number_of (digits n) = n mod 10" using snoc [of "[]"] last by (simp add: number_of_def)
    then show ?thesis using True by simp
  next
    case False
    then have "digits n = digits (n div 10) @ [word_of_nat (48 + n mod 10)]" using d by simp
    then have "number_of (digits n) = 10 * (n div 10) + n mod 10"
      using snoc last 1 [OF False] by simp
    then show ?thesis by simp
  qed
qed

lemma takeWhile_digits:
  "takeWhile (\<lambda>b. b \<noteq> 59) (digits n @ 59 # rest) = digits n"
  "dropWhile (\<lambda>b. b \<noteq> 59) (digits n @ 59 # rest) = 59 # rest"
  using digits_no_semicolon [of _ n]
  by (auto simp: takeWhile_append2 dropWhile_append2)

text \<open>
  a program that asked for SGR mouse reports reads the event back from them: the code of the
  button and the modifiers, the one-based column and row of any size, and whether it is a release.
\<close>

theorem sgr_report_readable:
  assumes "mouse_protocol_of modes = Some protocol" and "tm_sgr_mouse (im_term modes)"
    and "event_code protocol True input = Some (code, release)"
  shows "map_option read_sgr (encode_mouse input modes) =
    Some (code, mi_column input + 1, mi_row input + 1, release)"
proof -
  let ?body = "digits code @ 59 # digits (mi_column input + 1) @ 59 # digits (mi_row input + 1)"
  have report: "encode_mouse input modes = Some ([27, 91, 60] @ ?body @ [if release then 109 else 77])"
    using assms by (simp add: encode_mouse_def push_decimal_digits Let_def)
  have "read_sgr ([27, 91, 60] @ ?body @ [if release then 109 else 77]) =
      (code, mi_column input + 1, mi_row input + 1, release)"
    by (simp only: read_sgr_def Let_def)
       (simp add: takeWhile_digits number_of_digits butlast_append)
  then show ?thesis using report by simp
qed

definition sample_release :: mouse_input where
  "sample_release = \<lparr>mi_action = MRelease, mi_button = MRight, mi_column = 299, mi_row = 4,
     mi_mods = \<lparr>md_shift = False, md_ctrl = True, md_alt = False, md_meta = False\<rparr>\<rparr>"

theorem sgr_report_readable_witness:
  "map_option read_sgr (encode_mouse sample_release sample_modes) = Some (18, 300, 5, True)"
proof -
  have "mouse_protocol_of sample_modes = Some AnyEvent" "tm_sgr_mouse (im_term sample_modes)"
    "event_code AnyEvent True sample_release = Some (18, True)"
    by (simp_all add: sample_modes_def sample_release_def mouse_protocol_of_def event_code_def modifier_bits_def)
  from sgr_report_readable [OF this] show ?thesis by (simp add: sample_release_def)
qed

end
