(* ===== verification/Terminal_Keys.thy ===== *)
theory Terminal_Keys
  imports Terminal_Input
begin

unbundle bit_operations_syntax

text \<open>
  The keyboard of a terminal (\<open>crates/opensesh-term/src/input/keys.rs\<close>): Qt's key events as keys, the
  platform's quirks, and the bytes a key press sends. A Qt key is an \<open>i32\<close> (an integer here), Qt's
  modifiers are a \<open>u32\<close>.
\<close>

subsection \<open>Qt's constants\<close>

definition KEY_SPACE :: int where "KEY_SPACE = 0x20"
definition KEY_ASTERISK :: int where "KEY_ASTERISK = 0x2a"
definition KEY_PLUS :: int where "KEY_PLUS = 0x2b"
definition KEY_COMMA :: int where "KEY_COMMA = 0x2c"
definition KEY_MINUS :: int where "KEY_MINUS = 0x2d"
definition KEY_PERIOD :: int where "KEY_PERIOD = 0x2e"
definition KEY_SLASH :: int where "KEY_SLASH = 0x2f"
definition KEY_0 :: int where "KEY_0 = 0x30"
definition KEY_9 :: int where "KEY_9 = 0x39"
definition KEY_EQUAL :: int where "KEY_EQUAL = 0x3d"
definition KEY_ESCAPE :: int where "KEY_ESCAPE = 0x01000000"
definition KEY_TAB :: int where "KEY_TAB = 0x01000001"
definition KEY_BACKTAB :: int where "KEY_BACKTAB = 0x01000002"
definition KEY_BACKSPACE :: int where "KEY_BACKSPACE = 0x01000003"
definition KEY_RETURN :: int where "KEY_RETURN = 0x01000004"
definition KEY_ENTER :: int where "KEY_ENTER = 0x01000005"
definition KEY_INSERT :: int where "KEY_INSERT = 0x01000006"
definition KEY_DELETE :: int where "KEY_DELETE = 0x01000007"
definition KEY_CLEAR :: int where "KEY_CLEAR = 0x0100000b"
definition KEY_HOME :: int where "KEY_HOME = 0x01000010"
definition KEY_END :: int where "KEY_END = 0x01000011"
definition KEY_LEFT :: int where "KEY_LEFT = 0x01000012"
definition KEY_UP :: int where "KEY_UP = 0x01000013"
definition KEY_RIGHT :: int where "KEY_RIGHT = 0x01000014"
definition KEY_DOWN :: int where "KEY_DOWN = 0x01000015"
definition KEY_PAGE_UP :: int where "KEY_PAGE_UP = 0x01000016"
definition KEY_PAGE_DOWN :: int where "KEY_PAGE_DOWN = 0x01000017"
definition KEY_SHIFT :: int where "KEY_SHIFT = 0x01000020"
definition KEY_SCROLL_LOCK :: int where "KEY_SCROLL_LOCK = 0x01000026"
definition KEY_F1 :: int where "KEY_F1 = 0x01000030"
definition KEY_F24 :: int where "KEY_F24 = 0x01000047"
definition KEY_F35 :: int where "KEY_F35 = 0x01000052"
definition KEY_SUPER_L :: int where "KEY_SUPER_L = 0x01000053"
definition KEY_SUPER_R :: int where "KEY_SUPER_R = 0x01000054"
definition KEY_MENU :: int where "KEY_MENU = 0x01000055"
definition KEY_HYPER_L :: int where "KEY_HYPER_L = 0x01000056"
definition KEY_HYPER_R :: int where "KEY_HYPER_R = 0x01000057"
definition KEY_ALT_GR :: int where "KEY_ALT_GR = 0x01001103"
definition KEY_MULTI_KEY :: int where "KEY_MULTI_KEY = 0x01001120"
definition KEY_MODE_SWITCH :: int where "KEY_MODE_SWITCH = 0x0100117e"
definition KEY_DEAD_FIRST :: int where "KEY_DEAD_FIRST = 0x01001250"
definition KEY_DEAD_LAST :: int where "KEY_DEAD_LAST = 0x01001293"
definition SHIFT_MODIFIER :: "32 word" where "SHIFT_MODIFIER = 0x02000000"
definition CONTROL_MODIFIER :: "32 word" where "CONTROL_MODIFIER = 0x04000000"
definition ALT_MODIFIER :: "32 word" where "ALT_MODIFIER = 0x08000000"
definition META_MODIFIER :: "32 word" where "META_MODIFIER = 0x10000000"
definition KEYPAD_MODIFIER :: "32 word" where "KEYPAD_MODIFIER = 0x20000000"
definition GROUP_SWITCH_MODIFIER :: "32 word" where "GROUP_SWITCH_MODIFIER = 0x40000000"

lemmas qt_keys =
  KEY_SPACE_def KEY_ASTERISK_def KEY_PLUS_def KEY_COMMA_def KEY_MINUS_def
  KEY_PERIOD_def KEY_SLASH_def KEY_0_def KEY_9_def KEY_EQUAL_def
  KEY_ESCAPE_def KEY_TAB_def KEY_BACKTAB_def KEY_BACKSPACE_def KEY_RETURN_def
  KEY_ENTER_def KEY_INSERT_def KEY_DELETE_def KEY_CLEAR_def KEY_HOME_def
  KEY_END_def KEY_LEFT_def KEY_UP_def KEY_RIGHT_def KEY_DOWN_def
  KEY_PAGE_UP_def KEY_PAGE_DOWN_def KEY_SHIFT_def KEY_SCROLL_LOCK_def KEY_F1_def
  KEY_F24_def KEY_F35_def KEY_SUPER_L_def KEY_SUPER_R_def KEY_MENU_def
  KEY_HYPER_L_def KEY_HYPER_R_def KEY_ALT_GR_def KEY_MULTI_KEY_def KEY_MODE_SWITCH_def
  KEY_DEAD_FIRST_def KEY_DEAD_LAST_def

lemmas qt_modifiers =
  SHIFT_MODIFIER_def CONTROL_MODIFIER_def ALT_MODIFIER_def META_MODIFIER_def
  KEYPAD_MODIFIER_def GROUP_SWITCH_MODIFIER_def

subsection \<open>Keys\<close>

datatype keypad_key = Digit nat | Multiply | Add | Separator | Subtract | Decimal | Divide | Equal

definition digit_byte :: "nat \<Rightarrow> nat" where
  "digit_byte d = min d 9"

fun keypad_char :: "keypad_key \<Rightarrow> uchar" where
  "keypad_char (Digit d) = 48 + digit_byte d"
| "keypad_char Multiply = 42"
| "keypad_char Add = 43"
| "keypad_char Separator = 44"
| "keypad_char Subtract = 45"
| "keypad_char Decimal = 46"
| "keypad_char Divide = 47"
| "keypad_char Equal = 61"

fun vt220_final :: "keypad_key \<Rightarrow> byte" where
  "vt220_final (Digit d) = word_of_nat (112 + digit_byte d)"
| "vt220_final Multiply = 106"
| "vt220_final Add = 107"
| "vt220_final Separator = 108"
| "vt220_final Subtract = 109"
| "vt220_final Decimal = 110"
| "vt220_final Divide = 111"
| "vt220_final Equal = 88"

datatype term_key =
    KEnter | KeypadEnter | KTab | KBacktab | KBackspace | KEscape | KUp | KDown | KLeft | KRight
  | KHome | KEnd | KBegin | KPageUp | KPageDown | KInsert | KDelete | KMenu | KF nat
  | Keypad keypad_key | Character "uchar option" | KIgnored

definition FUNCTION_KEY_CODES :: "nat list" where
  "FUNCTION_KEY_CODES = [15, 17, 18, 19, 20, 21, 23, 24, 25, 26, 28, 29, 31, 32, 33, 34, 42, 43, 44, 45]"

definition keypad_key_of :: "int \<Rightarrow> keypad_key option" where
  "keypad_key_of k =
     (if KEY_0 \<le> k \<and> k \<le> KEY_9 then Some (Digit (nat (k - KEY_0)))
      else if k = KEY_ASTERISK then Some Multiply
      else if k = KEY_PLUS then Some Add
      else if k = KEY_COMMA then Some Separator
      else if k = KEY_MINUS then Some Subtract
      else if k = KEY_PERIOD then Some Decimal
      else if k = KEY_SLASH then Some Divide
      else if k = KEY_EQUAL then Some Equal
      else None)"

definition key_char :: "int \<Rightarrow> uchar option" where
  "key_char k = (if KEY_SPACE \<le> k \<and> k < KEY_ESCAPE \<and> scalar (nat k) then Some (nat k) else None)"

definition NAMED_KEYS :: "(int \<times> term_key) list" where
  "NAMED_KEYS =
     [(KEY_ESCAPE, KEscape), (KEY_TAB, KTab), (KEY_BACKTAB, KBacktab), (KEY_BACKSPACE, KBackspace),
      (KEY_RETURN, KEnter), (KEY_ENTER, KeypadEnter), (KEY_INSERT, KInsert), (KEY_DELETE, KDelete),
      (KEY_CLEAR, KBegin), (KEY_HOME, KHome), (KEY_END, KEnd), (KEY_LEFT, KLeft), (KEY_UP, KUp),
      (KEY_RIGHT, KRight), (KEY_DOWN, KDown), (KEY_PAGE_UP, KPageUp), (KEY_PAGE_DOWN, KPageDown),
      (KEY_MENU, KMenu)]"

definition ignored_key :: "int \<Rightarrow> bool" where
  "ignored_key k \<longleftrightarrow>
     KEY_SHIFT \<le> k \<and> k \<le> KEY_SCROLL_LOCK \<or>
     k \<in> {KEY_SUPER_L, KEY_SUPER_R, KEY_HYPER_L, KEY_HYPER_R, KEY_ALT_GR, KEY_MULTI_KEY, KEY_MODE_SWITCH} \<or>
     KEY_DEAD_FIRST \<le> k \<and> k \<le> KEY_DEAD_LAST"

definition key_from_qt :: "int \<Rightarrow> bool \<Rightarrow> term_key" where
  "key_from_qt k keypad =
     (case map_of NAMED_KEYS k of
        Some named \<Rightarrow> named
      | None \<Rightarrow>
          (if KEY_F1 \<le> k \<and> k \<le> KEY_F24 then KF (nat (k - KEY_F1 + 1))
           else if ignored_key k then KIgnored
           else if keypad
           then (case keypad_key_of k of Some p \<Rightarrow> Keypad p | None \<Rightarrow> Character (key_char k))
           else Character (key_char k)))"

definition has_bit :: "32 word \<Rightarrow> 32 word \<Rightarrow> bool" where
  "has_bit ms b \<longleftrightarrow> ms AND b \<noteq> 0"

definition modifiers_from_qt :: "32 word \<Rightarrow> modifiers" where
  "modifiers_from_qt ms =
     (let alt_gr = has_bit ms GROUP_SWITCH_MODIFIER
      in \<lparr>md_shift = has_bit ms SHIFT_MODIFIER,
          md_ctrl = has_bit ms CONTROL_MODIFIER \<and> \<not> alt_gr,
          md_alt = has_bit ms ALT_MODIFIER \<and> \<not> alt_gr,
          md_meta = has_bit ms META_MODIFIER\<rparr>)"

record term_key_input =
  ki_key :: term_key
  ki_mods :: modifiers
  ki_text :: str

definition alt_code_digit :: "int \<Rightarrow> 32 word \<Rightarrow> bool \<Rightarrow> bool" where
  "alt_code_digit k ms windows \<longleftrightarrow>
     windows \<and> KEY_0 \<le> k \<and> k \<le> KEY_9 \<and> has_bit ms KEYPAD_MODIFIER \<and> has_bit ms ALT_MODIFIER \<and>
     \<not> has_bit ms (CONTROL_MODIFIER OR GROUP_SWITCH_MODIFIER)"

fun single_char :: "str \<Rightarrow> uchar option" where
  "single_char [c] = Some c"
| "single_char _ = None"

definition ascii_letter :: "uchar \<Rightarrow> bool" where
  "ascii_letter c \<longleftrightarrow> 65 \<le> c \<and> c \<le> 90 \<or> 97 \<le> c \<and> c \<le> 122"

definition is_alt_gr_text :: "str \<Rightarrow> bool" where
  "is_alt_gr_text s \<longleftrightarrow>
     (case single_char s of
        None \<Rightarrow> False
      | Some c \<Rightarrow> \<not> is_control c \<and> c \<noteq> 32 \<and> \<not> (ascii_letter c \<or> is_digit c))"

definition char_to_lower :: "uchar \<Rightarrow> uchar" where
  "char_to_lower c = (if 65 \<le> c \<and> c \<le> 90 then c + 32 else c)"

definition char_to_upper :: "uchar \<Rightarrow> uchar" where
  "char_to_upper c = (if 97 \<le> c \<and> c \<le> 122 then c - 32 else c)"

definition no_modifiers :: modifiers where
  "no_modifiers = \<lparr>md_shift = False, md_ctrl = False, md_alt = False, md_meta = False\<rparr>"

definition windows_alt_gr :: "term_key \<Rightarrow> str \<Rightarrow> modifiers \<Rightarrow> modifiers" where
  "windows_alt_gr k s mods =
     (if (case k of Character _ \<Rightarrow> True | Keypad _ \<Rightarrow> True | _ \<Rightarrow> False) \<and> md_ctrl mods \<and> md_alt mods \<and> is_alt_gr_text s
      then mods\<lparr>md_ctrl := False, md_alt := False\<rparr> else mods)"

definition windows_alt_letter :: "term_key \<Rightarrow> modifiers \<Rightarrow> str \<Rightarrow> str" where
  "windows_alt_letter k mods s =
     (case (k, single_char s) of
        (Character (Some letter), Some typed) \<Rightarrow>
          if md_alt mods \<and> \<not> md_ctrl mods \<and> ascii_letter letter \<and> char_to_lower typed = char_to_lower letter
          then [if md_shift mods then char_to_upper typed else char_to_lower typed]
          else s
      | _ \<Rightarrow> s)"

definition translate_qt :: "int \<Rightarrow> 32 word \<Rightarrow> str \<Rightarrow> bool \<Rightarrow> term_key_input" where
  "translate_qt k ms s windows =
     (if alt_code_digit k ms windows
      then \<lparr>ki_key = KIgnored, ki_mods = modifiers_from_qt ms, ki_text = []\<rparr>
      else let key = key_from_qt k (has_bit ms KEYPAD_MODIFIER);
               mods = (if windows then windows_alt_gr key s (modifiers_from_qt ms) else modifiers_from_qt ms)
           in \<lparr>ki_key = key, ki_mods = mods, ki_text = (if windows then windows_alt_letter key mods s else s)\<rparr>)"

subsection \<open>What a key sends\<close>

record key_options =
  ko_backspace_sends_ctrl_h :: bool
  ko_alt_sends_escape :: bool
  ko_delete_sends_del :: bool
  ko_vt220_keypad :: bool

definition default_key_options :: key_options where
  "default_key_options =
     \<lparr>ko_backspace_sends_ctrl_h = False, ko_alt_sends_escape = True, ko_delete_sends_del = False,
      ko_vt220_keypad = False\<rparr>"

definition ctrl_byte :: "uchar \<Rightarrow> byte option" where
  "ctrl_byte c =
     (if ascii_letter c then Some (word_of_nat c AND 0x1f)
      else if c \<in> {64, 32, 50, 96} then Some 0
      else if c \<in> {91, 51, 123} then Some 0x1b
      else if c \<in> {92, 52, 124} then Some 0x1c
      else if c \<in> {93, 53, 125} then Some 0x1d
      else if c \<in> {94, 54, 126} then Some 0x1e
      else if c \<in> {95, 55, 47} then Some 0x1f
      else if c \<in> {56, 63} then Some 0x7f
      else None)"

definition with_esc :: "bool \<Rightarrow> bytes \<Rightarrow> bytes" where
  "with_esc esc bs = (if esc then 27 # bs else bs)"

definition ss3 :: "byte \<Rightarrow> bytes" where
  "ss3 final = [27, 79, final]"

definition csi_modified :: "byte \<Rightarrow> nat \<Rightarrow> bytes" where
  "csi_modified final parameter = push_decimal [27, 91, 49, 59] parameter @ [final]"

definition modifier_parameter :: "modifiers \<Rightarrow> nat" where
  "modifier_parameter m =
     1 + of_bool (md_shift m) + 2 * of_bool (md_alt m) + 4 * of_bool (md_ctrl m) + 8 * of_bool (md_meta m)"

definition cursor_key :: "byte \<Rightarrow> modifiers \<Rightarrow> term_mode \<Rightarrow> bytes" where
  "cursor_key final mods t =
     (let parameter = modifier_parameter mods
      in if parameter > 1 then csi_modified final parameter
         else if tm_app_cursor t then ss3 final
         else [27, 91, final])"

definition tilde_key :: "nat \<Rightarrow> modifiers \<Rightarrow> bytes" where
  "tilde_key code mods =
     (let parameter = modifier_parameter mods;
          out = push_decimal [27, 91] code
      in (if parameter > 1 then push_decimal (out @ [59]) parameter else out) @ [126])"

definition function_key :: "nat \<Rightarrow> modifiers \<Rightarrow> bytes option" where
  "function_key number mods =
     (if 1 \<le> number \<and> number \<le> 4 then
        let final = word_of_nat (80 + (number - 1)); parameter = modifier_parameter mods
        in Some (if parameter > 1 then csi_modified final parameter else ss3 final)
      else if 5 \<le> number \<and> number \<le> 24 then Some (tilde_key (FUNCTION_KEY_CODES ! (number - 5)) mods)
      else None)"

definition lone_control :: "str \<Rightarrow> byte option" where
  "lone_control s =
     (case single_char s of Some c \<Rightarrow> if c < 32 \<or> c = 127 then Some (word_of_nat c) else None | None \<Rightarrow> None)"

definition newline_bytes :: "term_mode \<Rightarrow> bytes" where
  "newline_bytes t = (if tm_line_feed_new_line t then [13, 10] else [13])"

definition vt220_keypad :: "term_mode \<Rightarrow> key_options \<Rightarrow> bool" where
  "vt220_keypad t options \<longleftrightarrow> ko_vt220_keypad options \<and> tm_app_keypad t"

definition encode_character :: "uchar option \<Rightarrow> str \<Rightarrow> modifiers \<Rightarrow> key_options \<Rightarrow> bytes option" where
  "encode_character key s mods options =
     (let esc = md_alt mods \<and> ko_alt_sends_escape options;
          control = (case Option.bind key ctrl_byte of Some b \<Rightarrow> Some b | None \<Rightarrow> lone_control s)
      in case (md_ctrl mods, control) of
           (True, Some b) \<Rightarrow> Some (with_esc esc [b])
         | _ \<Rightarrow>
             (case (case key of
                      Some c \<Rightarrow> if s = [] \<and> md_ctrl mods \<and> 33 \<le> c \<and> c \<le> 126 then Some [c]
                                 else if s = [] then None else Some s
                    | None \<Rightarrow> if s = [] then None else Some s) of
                None \<Rightarrow> None
              | Some s \<Rightarrow> Some (with_esc (esc \<and> single_char s \<noteq> None) (utf8 s))))"

definition encode_key :: "term_key_input \<Rightarrow> input_modes \<Rightarrow> key_options \<Rightarrow> bytes option" where
  "encode_key input modes options =
     (let mods = ki_mods input; t = im_term modes; esc = md_alt mods \<and> ko_alt_sends_escape options
      in case ki_key input of
           KIgnored \<Rightarrow> None
         | KEnter \<Rightarrow> Some (with_esc esc (newline_bytes t))
         | KeypadEnter \<Rightarrow> Some (if vt220_keypad t options then ss3 77 else with_esc esc (newline_bytes t))
         | KTab \<Rightarrow> Some (if md_shift mods then with_esc esc [27, 91, 90] else with_esc esc [9])
         | KBacktab \<Rightarrow> Some (with_esc esc [27, 91, 90])
         | KBackspace \<Rightarrow>
             Some (with_esc esc (if ko_backspace_sends_ctrl_h options \<noteq> md_ctrl mods then [8] else [127]))
         | KEscape \<Rightarrow> Some (with_esc esc [27])
         | KUp \<Rightarrow> Some (cursor_key 65 mods t)
         | KDown \<Rightarrow> Some (cursor_key 66 mods t)
         | KRight \<Rightarrow> Some (cursor_key 67 mods t)
         | KLeft \<Rightarrow> Some (cursor_key 68 mods t)
         | KHome \<Rightarrow> Some (cursor_key 72 mods t)
         | KEnd \<Rightarrow> Some (cursor_key 70 mods t)
         | KBegin \<Rightarrow> Some (cursor_key 69 mods t)
         | KInsert \<Rightarrow> Some (tilde_key 2 mods)
         | KDelete \<Rightarrow>
             Some (if ko_delete_sends_del options \<and> mods = no_modifiers then [127] else tilde_key 3 mods)
         | KPageUp \<Rightarrow> Some (tilde_key 5 mods)
         | KPageDown \<Rightarrow> Some (tilde_key 6 mods)
         | KMenu \<Rightarrow> Some (tilde_key 29 mods)
         | KF number \<Rightarrow> function_key number mods
         | Keypad k \<Rightarrow>
             (if vt220_keypad t options then Some (ss3 (vt220_final k))
              else encode_character (Some (keypad_char k))
                     (if ki_text input = [] then [keypad_char k] else ki_text input) mods options)
         | Character c \<Rightarrow> encode_character c (ki_text input) mods options)"

definition terminal_wants_shortcut :: "term_key \<Rightarrow> modifiers \<Rightarrow> bool" where
  "terminal_wants_shortcut k mods \<longleftrightarrow>
     (case k of KF number \<Rightarrow> 1 \<le> number \<and> number \<le> 24 \<and> number \<noteq> 11 | _ \<Rightarrow> False) \<and>
     \<not> md_ctrl mods \<and> \<not> md_alt mods"

subsection \<open>Sequences read back\<close>

text \<open>
  How a program reads the sequence of a key: its last byte, the number in front of a tilde, and the
  modifier parameter (1 where there is none).
\<close>

definition digit_code :: "byte \<Rightarrow> bool" where
  "digit_code b \<longleftrightarrow> 48 \<le> b \<and> b \<le> 57"

definition sequence_key :: "byte \<Rightarrow> bytes \<Rightarrow> nat \<Rightarrow> byte \<times> nat \<times> nat" where
  "sequence_key final ds parameter = (final, if final = 126 then number_of ds else 0, parameter)"

definition read_sequence :: "bytes \<Rightarrow> (byte \<times> nat \<times> nat) option" where
  "read_sequence bs =
     (let ds = takeWhile digit_code (drop 2 bs); rest = dropWhile digit_code (drop 2 bs);
          ps = takeWhile digit_code (tl rest); final = dropWhile digit_code (tl rest)
      in if take 2 bs = [27, 79] \<and> length bs = 3 then Some (sequence_key (bs ! 2) [] 1)
         else if take 2 bs \<noteq> [27, 91] then None
         else if length rest = 1 then Some (sequence_key (hd rest) ds 1)
         else if rest \<noteq> [] \<and> hd rest = 59 \<and> length final = 1 then Some (sequence_key (hd final) ds (number_of ps))
         else None)"

text \<open>What identifies a key of the table in the header of the file: its last byte and its number.\<close>

fun key_id :: "term_key \<Rightarrow> (byte \<times> nat) option" where
  "key_id KUp = Some (65, 0)"
| "key_id KDown = Some (66, 0)"
| "key_id KRight = Some (67, 0)"
| "key_id KLeft = Some (68, 0)"
| "key_id KHome = Some (72, 0)"
| "key_id KEnd = Some (70, 0)"
| "key_id KBegin = Some (69, 0)"
| "key_id KInsert = Some (126, 2)"
| "key_id KDelete = Some (126, 3)"
| "key_id KPageUp = Some (126, 5)"
| "key_id KPageDown = Some (126, 6)"
| "key_id KMenu = Some (126, 29)"
| "key_id (KF n) =
     (if 1 \<le> n \<and> n \<le> 4 then Some (word_of_nat (79 + n), 0)
      else if 5 \<le> n \<and> n \<le> 24 then Some (126, FUNCTION_KEY_CODES ! (n - 5))
      else None)"
| "key_id _ = None"

lemma digit_code_digits: "b \<in> set (digits n) \<Longrightarrow> digit_code b"
proof -
  assume "b \<in> set (digits n)"
  then obtain d where d: "d < 10" "b = word_of_nat (48 + d)"
    using last_digits_less by (auto simp: digits_def simp del: of_nat_add)
  then show ?thesis using unat_digit [OF d(1)] by (simp add: digit_code_def word_le_nat_alt del: of_nat_add)
qed

lemma digits_prefix:
  assumes "\<not> digit_code c"
  shows "takeWhile digit_code (digits n @ c # rest) = digits n" "dropWhile digit_code (digits n @ c # rest) = c # rest"
  using digit_code_digits [of _ n] assms by (auto simp: takeWhile_append2 dropWhile_append2)

lemma not_digits: "\<not> digit_code 59" "\<not> digit_code 126"
  by (simp_all add: digit_code_def)

lemma read_one_number:
  "\<not> digit_code final \<Longrightarrow> read_sequence (27 # 91 # digits n @ [final]) = Some (sequence_key final (digits n) 1)"
  using digits_prefix [of final n "[]"] by (simp add: read_sequence_def)

lemma read_two_numbers:
  "\<not> digit_code final \<Longrightarrow>
   read_sequence (27 # 91 # digits n @ 59 # digits m @ [final]) = Some (sequence_key final (digits n) m)"
  using digits_prefix [OF not_digits(1), of n] digits_prefix [of final m "[]"]
  by (simp add: read_sequence_def number_of_digits)

lemma read_csi_modified:
  "\<not> digit_code final \<Longrightarrow> final \<noteq> 126 \<Longrightarrow> read_sequence (csi_modified final n) = Some (final, 0, n)"
proof -
  assume f: "\<not> digit_code final" "final \<noteq> 126"
  have c: "csi_modified final n = 27 # 91 # digits 1 @ 59 # digits n @ [final]"
    by (simp add: csi_modified_def push_decimal_digits digits_def last_digits.simps)
  show ?thesis unfolding c read_two_numbers [OF f(1)] using f(2) by (simp add: sequence_key_def)
qed

lemma read_tilde_key: "read_sequence (tilde_key code mods) = Some (126, code, modifier_parameter mods)"
proof (cases "modifier_parameter mods > 1")
  case True
  then have t: "tilde_key code mods = 27 # 91 # digits code @ 59 # digits (modifier_parameter mods) @ [126]"
    by (simp add: tilde_key_def push_decimal_digits)
  show ?thesis unfolding t read_two_numbers [OF not_digits(2)] by (simp add: sequence_key_def number_of_digits)
next
  case False
  then have "modifier_parameter mods = 1" and t: "tilde_key code mods = 27 # 91 # digits code @ [126]"
    by (simp_all add: modifier_parameter_def tilde_key_def push_decimal_digits)
  then show ?thesis unfolding t read_one_number [OF not_digits(2)] by (simp add: sequence_key_def number_of_digits)
qed

lemma read_plain:
  "\<not> digit_code final \<Longrightarrow> final \<noteq> 126 \<Longrightarrow> read_sequence [27, 91, final] = Some (final, 0, 1)"
  "final \<noteq> 126 \<Longrightarrow> read_sequence (ss3 final) = Some (final, 0, 1)"
  by (simp_all add: read_sequence_def ss3_def sequence_key_def)

lemma modifier_parameter_1: "\<not> 1 < modifier_parameter mods \<longleftrightarrow> modifier_parameter mods = 1"
  by (auto simp: modifier_parameter_def)

lemma read_cursor_key:
  assumes "\<not> digit_code final" "final \<noteq> 126"
  shows "read_sequence (cursor_key final mods t) = Some (final, 0, modifier_parameter mods)"
  using assms read_csi_modified [OF assms] read_plain modifier_parameter_1 [of mods]
  by (auto simp: cursor_key_def Let_def)

lemma modifier_parameter_inj: "modifier_parameter m = modifier_parameter m' \<Longrightarrow> m = m'"
  by (cases m; cases m')
     (auto simp: modifier_parameter_def of_bool_def split: if_splits)

text \<open>Whether Delete sends its one byte instead of a sequence.\<close>

definition plain_delete :: "term_key \<Rightarrow> modifiers \<Rightarrow> key_options \<Rightarrow> bool" where
  "plain_delete k mods options \<longleftrightarrow> k = KDelete \<and> ko_delete_sends_del options \<and> mods = no_modifiers"

lemma key_sequence_readable:
  assumes "key_id k = Some (final, n)" and "\<not> plain_delete k mods options"
  shows "\<exists>bs. encode_key \<lparr>ki_key = k, ki_mods = mods, ki_text = s\<rparr> modes options = Some bs \<and>
    read_sequence bs = Some (final, n, modifier_parameter mods)"
proof (cases k)
  case (KF m)
  then consider "1 \<le> m" "m \<le> 4" | "5 \<le> m" "m \<le> 24" using assms(1) by (auto split: if_splits)
  then show ?thesis
  proof cases
    case 1
    then have m: "m \<in> {1, 2, 3, 4}" by auto
    then have d: "\<not> digit_code (word_of_nat (80 + (m - 1)))" "word_of_nat (80 + (m - 1)) \<noteq> (126 :: byte)"
        "word_of_nat (80 + (m - 1)) = (word_of_nat (79 + m) :: byte)"
      by (auto simp: digit_code_def)
    then show ?thesis
      using 1 assms(1) KF read_csi_modified [OF d(1,2)] read_plain(2) [OF d(2)] modifier_parameter_1 [of mods]
      by (auto simp: encode_key_def function_key_def Let_def simp del: of_nat_add)
  next
    case 2
    then show ?thesis using assms(1) KF by (auto simp: encode_key_def function_key_def read_tilde_key)
  qed
qed (use assms read_cursor_key in \<open>auto simp: encode_key_def read_tilde_key digit_code_def plain_delete_def\<close>)

lemma function_codes_distinct: "distinct FUNCTION_KEY_CODES" "length FUNCTION_KEY_CODES = 20"
  by (simp_all add: FUNCTION_KEY_CODES_def)

lemma function_code_small: "i < 20 \<Longrightarrow> FUNCTION_KEY_CODES ! i \<notin> {2, 3, 5, 6} \<and> (FUNCTION_KEY_CODES ! i = 29 \<longleftrightarrow> i = 11)"
proof -
  assume "i < 20"
  then have "i \<in> set [0..<20]" by simp
  moreover have "\<forall>i \<in> set [0..<20]. FUNCTION_KEY_CODES ! i \<notin> {2, 3, 5, 6} \<and> (FUNCTION_KEY_CODES ! i = 29 \<longleftrightarrow> i = 11)"
    by (simp add: FUNCTION_KEY_CODES_def upt_rec)
  ultimately show ?thesis by blast
qed

lemma key_id_function:
  assumes "key_id (KF n) = Some x" and "key_id k = Some x"
  shows "k = KF n \<or> k = KMenu \<and> n = 16"
proof (cases "n \<le> 4")
  case True
  then have n: "n \<in> {1, 2, 3, 4}" "x = (word_of_nat (79 + n), 0)" using assms(1) by (auto split: if_splits)
  show ?thesis
  proof (cases k)
    case (KF m)
    then have "m \<le> 4" using assms(2) n by (auto split: if_splits)
    then have "m \<in> {1, 2, 3, 4}" using assms(2) KF by (auto split: if_splits)
    then show ?thesis using assms(2) KF n by auto
  qed (use assms(2) n in auto)
next
  case False
  then have n: "5 \<le> n" "n \<le> 24" "x = (126, FUNCTION_KEY_CODES ! (n - 5))" using assms(1) by (auto split: if_splits)
  have c: "FUNCTION_KEY_CODES ! (n - 5) \<notin> {2, 3, 5, 6}" "FUNCTION_KEY_CODES ! (n - 5) = 29 \<longleftrightarrow> n - 5 = 11"
    using function_code_small [of "n - 5"] n by auto
  show ?thesis
  proof (cases k)
    case (KF m)
    show ?thesis
    proof (cases "m \<le> 4")
      case True
      then have "m \<in> {1, 2, 3, 4}" using assms(2) KF by (auto split: if_splits)
      then show ?thesis using assms(2) KF n by auto
    next
      case False
      then have "FUNCTION_KEY_CODES ! (m - 5) = FUNCTION_KEY_CODES ! (n - 5)" "5 \<le> m" "m \<le> 24"
        using assms(2) KF n by (auto split: if_splits)
      then have "m - 5 = n - 5" using nth_eq_iff_index_eq [OF function_codes_distinct(1)] n function_codes_distinct(2) by simp
      then show ?thesis using KF n \<open>5 \<le> m\<close> by simp
    qed
  qed (use assms(2) n c in auto)
qed

definition key_of_id :: "byte \<times> nat \<Rightarrow> term_key option" where
  "key_of_id x =
     map_of [((65, 0), KUp), ((66, 0), KDown), ((67, 0), KRight), ((68, 0), KLeft), ((72, 0), KHome), ((70, 0), KEnd),
       ((69, 0), KBegin), ((126, 2), KInsert), ((126, 3), KDelete), ((126, 5), KPageUp), ((126, 6), KPageDown),
       ((126, 29), KMenu)] x"

lemma key_of_key_id: "key_id k = Some x \<Longrightarrow> \<forall>n. k \<noteq> KF n \<Longrightarrow> key_of_id x = Some k"
  by (cases k) (auto simp: key_of_id_def)

lemma key_id_inj:
  assumes "key_id k = Some x" and "key_id k' = Some x"
  shows "k = k' \<or> {k, k'} = {KMenu, KF 16}"
proof (cases "\<exists>n. k = KF n \<or> k' = KF n")
  case True
  then show ?thesis using assms key_id_function by blast
next
  case False
  then show ?thesis using assms key_of_key_id [of k x] key_of_key_id [of k' x] by simp
qed

lemma plain_delete_alone:
  "plain_delete k mods options \<Longrightarrow>
   encode_key \<lparr>ki_key = k, ki_mods = mods, ki_text = s\<rparr> modes options = Some [127] \<and> read_sequence [127] = None"
  by (simp add: plain_delete_def encode_key_def read_sequence_def)

lemma key_sequences_apart:
  assumes "key_id k \<noteq> None" and "key_id k' \<noteq> None"
    and "encode_key \<lparr>ki_key = k, ki_mods = mods, ki_text = s\<rparr> modes options =
      encode_key \<lparr>ki_key = k', ki_mods = mods', ki_text = s'\<rparr> modes options"
  shows "mods = mods' \<and> (k = k' \<or> {k, k'} = {KMenu, KF 16})"
proof -
  obtain x y where x: "key_id k = Some x" and y: "key_id k' = Some y" using assms(1,2) by auto
  have readable: "plain_delete k mods options \<or>
      (\<exists>bs. encode_key \<lparr>ki_key = k, ki_mods = mods, ki_text = s\<rparr> modes options = Some bs \<and>
        read_sequence bs = Some (fst x, snd x, modifier_parameter mods))" if "key_id k = Some x" for k x mods s
    using key_sequence_readable [of k "fst x" "snd x" mods options s modes] that by auto
  show ?thesis
  proof (cases "plain_delete k mods options \<or> plain_delete k' mods' options")
    case True
    then have "plain_delete k mods options \<and> plain_delete k' mods' options"
      using readable [OF x, of mods s] readable [OF y, of mods' s'] assms(3) plain_delete_alone by fastforce
    then show ?thesis by (simp add: plain_delete_def)
  next
    case False
    then have "x = y" "modifier_parameter mods = modifier_parameter mods'"
      using readable [OF x, of mods s] readable [OF y, of mods' s'] assms(3) by (auto intro: prod_eqI)
    then show ?thesis using key_id_inj x y modifier_parameter_inj by blast
  qed
qed

lemma special_key_id:
  "k \<in> {KUp, KDown, KRight, KLeft, KHome, KEnd, KBegin, KInsert, KDelete, KPageUp, KPageDown, KMenu} \<union> KF ` {1..24} \<Longrightarrow>
   key_id k \<noteq> None"
  by auto

lemma menu_is_f16:
  "encode_key \<lparr>ki_key = KF 16, ki_mods = mods, ki_text = s\<rparr> modes options =
   encode_key \<lparr>ki_key = KMenu, ki_mods = mods, ki_text = s'\<rparr> modes options"
  by (simp add: encode_key_def function_key_def FUNCTION_KEY_CODES_def)

text \<open>
  C30: keys can be told apart. Two presses of arrows, Home, End, Begin, Insert, Delete, Page Up and Down,
  Menu and F1 to F24 send the same bytes exactly when they are the same key with the same
  modifiers, in every mode and with every option, Delete that sends its one byte included; with
  one exception, which the table of the code has: Menu and F16 send the same (\<open>CSI 29 ~\<close>).
\<close>

theorem key_sequences_distinct:
  assumes "k \<in> {KUp, KDown, KRight, KLeft, KHome, KEnd, KBegin, KInsert, KDelete, KPageUp, KPageDown, KMenu} \<union> KF ` {1..24}"
    and "k' \<in> {KUp, KDown, KRight, KLeft, KHome, KEnd, KBegin, KInsert, KDelete, KPageUp, KPageDown, KMenu} \<union> KF ` {1..24}"
  shows "encode_key \<lparr>ki_key = k, ki_mods = mods, ki_text = s\<rparr> modes options =
      encode_key \<lparr>ki_key = k', ki_mods = mods', ki_text = s'\<rparr> modes options \<longleftrightarrow>
    mods = mods' \<and> (k = k' \<or> k = KMenu \<and> k' = KF 16 \<or> k = KF 16 \<and> k' = KMenu)"
proof
  assume "mods = mods' \<and> (k = k' \<or> k = KMenu \<and> k' = KF 16 \<or> k = KF 16 \<and> k' = KMenu)"
  moreover have "encode_key \<lparr>ki_key = k, ki_mods = mods, ki_text = s\<rparr> modes options =
      encode_key \<lparr>ki_key = k, ki_mods = mods, ki_text = s'\<rparr> modes options"
    using assms(1) by (auto simp: encode_key_def)
  ultimately show "encode_key \<lparr>ki_key = k, ki_mods = mods, ki_text = s\<rparr> modes options =
      encode_key \<lparr>ki_key = k', ki_mods = mods', ki_text = s'\<rparr> modes options"
    using menu_is_f16 [of mods s modes options s'] menu_is_f16 [of mods s' modes options s] by auto
next
  assume "encode_key \<lparr>ki_key = k, ki_mods = mods, ki_text = s\<rparr> modes options =
      encode_key \<lparr>ki_key = k', ki_mods = mods', ki_text = s'\<rparr> modes options"
  from key_sequences_apart [OF special_key_id special_key_id this] assms
  show "mods = mods' \<and> (k = k' \<or> k = KMenu \<and> k' = KF 16 \<or> k = KF 16 \<and> k' = KMenu)"
    by (auto simp: doubleton_eq_iff)
qed

lemma key_sequences_distinct_witness:
  "encode_key \<lparr>ki_key = KF 15, ki_mods = no_modifiers, ki_text = []\<rparr> sample_modes default_key_options \<noteq>
     encode_key \<lparr>ki_key = KMenu, ki_mods = no_modifiers, ki_text = []\<rparr> sample_modes default_key_options"
  by (subst key_sequences_distinct) simp_all

subsection \<open>AltGr\<close>

text \<open>
  a character typed with AltGr on Windows arrives as itself. Windows reports AltGr as Ctrl and
  Alt; a key that gave one printable character which is no letter, digit or blank then sends that
  character and neither a control byte nor an escape, with or without the AltGr option of Qt.
\<close>

theorem alt_gr_text_arrives:
  assumes "has_bit ms CONTROL_MODIFIER" and "has_bit ms ALT_MODIFIER" and "is_alt_gr_text s"
    and "key_from_qt k (has_bit ms KEYPAD_MODIFIER) = Character c"
  shows "encode_key (translate_qt k ms s True) modes options = Some (utf8 s)"
proof -
  have "ms AND (CONTROL_MODIFIER OR GROUP_SWITCH_MODIFIER) \<noteq> 0"
  proof
    assume "ms AND (CONTROL_MODIFIER OR GROUP_SWITCH_MODIFIER) = 0"
    then have "(ms AND (CONTROL_MODIFIER OR GROUP_SWITCH_MODIFIER)) AND CONTROL_MODIFIER = 0" by simp
    then have "ms AND CONTROL_MODIFIER = 0"
      by (simp add: and.assoc CONTROL_MODIFIER_def GROUP_SWITCH_MODIFIER_def)
    then show False using assms(1) by (simp add: has_bit_def)
  qed
  then have a: "\<not> alt_code_digit k ms True" by (simp add: alt_code_digit_def has_bit_def)
  let ?mods = "windows_alt_gr (Character c) s (modifiers_from_qt ms)"
  have m: "\<not> md_ctrl ?mods" "\<not> md_alt ?mods"
    using assms(1-3) by (auto simp: windows_alt_gr_def modifiers_from_qt_def Let_def)
  have "windows_alt_letter (Character c) ?mods s = s"
    using m by (auto simp: windows_alt_letter_def split: option.splits)
  moreover have "s \<noteq> []" using assms(3) by (auto simp: is_alt_gr_text_def)
  ultimately show ?thesis using m
    by (auto simp: translate_qt_def a assms(4) encode_key_def encode_character_def with_esc_def Let_def split: option.splits)
qed

theorem alt_gr_text_arrives_witness:
  "encode_key (translate_qt 64 (CONTROL_MODIFIER OR ALT_MODIFIER) [64] True) sample_modes default_key_options = Some [64]"
proof -
  have "key_from_qt 64 (has_bit (CONTROL_MODIFIER OR ALT_MODIFIER) KEYPAD_MODIFIER) = Character (Some 64)"
    by (simp add: key_from_qt_def NAMED_KEYS_def qt_keys ignored_key_def keypad_key_of_def key_char_def scalar_def
        has_bit_def qt_modifiers)
  then have "encode_key (translate_qt 64 (CONTROL_MODIFIER OR ALT_MODIFIER) [64] True) sample_modes default_key_options =
      Some (utf8 [64])"
    by (intro alt_gr_text_arrives) (simp_all add: has_bit_def qt_modifiers is_alt_gr_text_def is_control_def ascii_letter_def is_digit_def)
  then show ?thesis by (simp add: utf8_ascii)
qed

end
