(* ===== verification/Osc.thy ===== *)
theory Osc
  imports Texts Utf8
begin

text \<open>
  What the terminal reads beside its engine (\<open>crates/opensesh-term/src/osc.rs\<close>): the limiter that caps
  the strings of operating system commands before any parser sees them, what the side parser keeps of
  the sequences the engine drops, and the directory a shell reports (OSC 7). The tokenizer is another
  crate's: the side parser is its callbacks. The name of this machine is a parameter.
\<close>

definition MAX_OSC_PAYLOAD :: nat where "MAX_OSC_PAYLOAD = 4096"
definition MAX_OSC_STRING :: nat where "MAX_OSC_STRING = 8 * 1024"
definition MAX_OSC52_STRING :: nat where "MAX_OSC52_STRING = 1024 * 1024"

subsection \<open>The limiter\<close>

record osc_limiter =
  ol_escape :: bool
  ol_osc :: "nat option"
  ol_prefix :: bytes
  ol_clipboard :: bool

definition limiter_default :: osc_limiter where
  "limiter_default = \<lparr>ol_escape = False, ol_osc = None, ol_prefix = [0, 0, 0], ol_clipboard = False\<rparr>"

definition set_clipboard :: "bool \<Rightarrow> osc_limiter \<Rightarrow> osc_limiter" where
  "set_clipboard allowed l = l\<lparr>ol_clipboard := allowed\<rparr>"

definition osc_limit :: "osc_limiter \<Rightarrow> nat" where
  "osc_limit l = (if ol_clipboard l \<and> ol_prefix l = [53, 50, 59] then MAX_OSC52_STRING else MAX_OSC_STRING)"

definition keep :: "osc_limiter \<Rightarrow> byte \<Rightarrow> bool \<times> osc_limiter" where
  "keep l b =
     (case ol_osc l of
        Some n \<Rightarrow>
          if b = 7 \<or> b = 24 \<or> b = 26 then (True, l\<lparr>ol_osc := None\<rparr>)
          else if b = 27 then (True, l\<lparr>ol_osc := None, ol_escape := True\<rparr>)
          else let l = l\<lparr>ol_prefix := (ol_prefix l)[n := b], ol_osc := Some (n + 1)\<rparr> in (n < osc_limit l, l)
      | None \<Rightarrow>
          (True, if ol_escape l \<and> b = 93
                 then l\<lparr>ol_osc := Some 0, ol_prefix := [0, 0, 0], ol_escape := False\<rparr>
                 else l\<lparr>ol_escape := (b = 27)\<rparr>))"

text \<open>The loop of \<open>filter\<close>: the input, the position, the bytes to come and the output once one is dropped.\<close>

fun filter_loop :: "bytes \<Rightarrow> nat \<Rightarrow> bytes \<Rightarrow> bytes option \<Rightarrow> osc_limiter \<Rightarrow> bytes option \<times> osc_limiter" where
  "filter_loop input index [] out l = (out, l)"
| "filter_loop input index (b # bs) out l =
     (let (kept, l) = keep l b;
          out = (case out of
                   Some xs \<Rightarrow> Some (if kept then xs @ [b] else xs)
                 | None \<Rightarrow> if kept then None else Some (take index input))
      in filter_loop input (index + 1) bs out l)"

definition osc_filter :: "osc_limiter \<Rightarrow> bytes \<Rightarrow> bytes option \<times> osc_limiter" where
  "osc_filter l input = filter_loop input 0 input None l"

text \<open>What the parsers get: the input itself when every byte passes.\<close>

definition parsed :: "osc_limiter \<Rightarrow> bytes \<Rightarrow> bytes \<times> osc_limiter" where
  "parsed l input = (let (out, l) = osc_filter l input in (case out of Some xs \<Rightarrow> xs | None \<Rightarrow> input, l))"

subsection \<open>The side parser\<close>

record side_state =
  sd_x10_mouse :: bool
  sd_engine_mouse_hidden :: bool
  sd_synchronized :: bool
  sd_working_directory :: "str option"
  sd_shell_directory :: "str option"
  sd_enquiries :: nat

definition side_default :: side_state where
  "side_default = \<lparr>sd_x10_mouse = False, sd_engine_mouse_hidden = False, sd_synchronized = False,
     sd_working_directory = None, sd_shell_directory = None, sd_enquiries = 0\<rparr>"

definition hex_value :: "byte \<Rightarrow> byte option" where
  "hex_value b =
     (if 48 \<le> b \<and> b \<le> 57 then Some (b - 48)
      else if 97 \<le> b \<and> b \<le> 102 then Some (b - 97 + 10)
      else if 65 \<le> b \<and> b \<le> 70 then Some (b - 65 + 10)
      else None)"

fun percent_decode :: "bytes \<Rightarrow> bytes option" where
  "percent_decode [] = Some []"
| "percent_decode (b # bs) =
     (if b = 37 then
        (case bs of
           h # l # bs \<Rightarrow>
             (case (hex_value h, hex_value l) of
                (Some high, Some low) \<Rightarrow> map_option (Cons (16 * high + low)) (percent_decode bs)
              | _ \<Rightarrow> None)
         | _ \<Rightarrow> None)
      else map_option (Cons b) (percent_decode bs))"

definition is_local_host :: "str \<Rightarrow> str option \<Rightarrow> bool" where
  "is_local_host host hostname \<longleftrightarrow>
     host = [] \<or> eq_ignore_ascii_case host (lit ''localhost'') \<or>
     (case hostname of
        None \<Rightarrow> False
      | Some local \<Rightarrow>
          let short = (\<lambda>name. hd (split_on 46 name))
          in eq_ignore_ascii_case host local \<or>
             46 \<notin> set local \<and> eq_ignore_ascii_case (short host) local \<or>
             46 \<notin> set host \<and> eq_ignore_ascii_case host (short local))"

text \<open>\<open>file://\<close> taken off, and the rest cut where its path starts. The build is the Unix one, where a
  drive path is left as it is.\<close>

definition osc7_parts :: "bytes \<Rightarrow> (bytes \<times> bytes) option" where
  "osc7_parts payload =
     (let scheme = utf8 (lit ''file://'')
      in if take (length scheme) payload = scheme \<and> 47 \<in> set (drop (length scheme) payload)
         then Some (takeWhile (\<lambda>b. b \<noteq> 47) (drop (length scheme) payload),
                    dropWhile (\<lambda>b. b \<noteq> 47) (drop (length scheme) payload))
         else None)"

definition decode_path :: "bytes \<Rightarrow> str option" where
  "decode_path bs =
     (case Option.bind (percent_decode bs) from_utf8 of
        None \<Rightarrow> None
      | Some path \<Rightarrow> if list_ex is_control path then None else Some path)"

definition parse_osc7 :: "bytes \<Rightarrow> str option \<Rightarrow> str option" where
  "parse_osc7 payload hostname =
     (case osc7_parts payload of
        None \<Rightarrow> None
      | Some (host, path) \<Rightarrow>
          (case from_utf8 host of
             None \<Rightarrow> None
           | Some host \<Rightarrow> if \<not> is_local_host host hostname then None else decode_path path))"

definition parse_osc7_path :: "bytes \<Rightarrow> str option" where
  "parse_osc7_path payload = (case osc7_parts payload of None \<Rightarrow> None | Some (host, path) \<Rightarrow> decode_path path)"

definition usize_max :: nat where "usize_max = 2 ^ 64 - 1"

definition side_execute :: "byte \<Rightarrow> side_state \<Rightarrow> side_state" where
  "side_execute b s = (if b = 5 then s\<lparr>sd_enquiries := min (sd_enquiries s + 1) usize_max\<rparr> else s)"

fun join_bytes :: "byte \<Rightarrow> bytes list \<Rightarrow> bytes" where
  "join_bytes sep [] = []"
| "join_bytes sep [p] = p"
| "join_bytes sep (p # ps) = p @ sep # join_bytes sep ps"

definition osc_dispatch :: "str option \<Rightarrow> bytes list \<Rightarrow> side_state \<Rightarrow> side_state" where
  "osc_dispatch hostname params s =
     (case params of
        [] \<Rightarrow> s
      | first # rest \<Rightarrow>
          if first \<noteq> [55] \<or> rest = [] then s
          else if MAX_OSC_PAYLOAD + 1 < sum_list (map (\<lambda>p. length p + 1) rest) then s
          else let payload = join_bytes 59 rest;
                   s = (case parse_osc7 payload hostname of Some path \<Rightarrow> s\<lparr>sd_working_directory := Some path\<rparr> | None \<Rightarrow> s)
               in case parse_osc7_path payload of Some path \<Rightarrow> s\<lparr>sd_shell_directory := Some path\<rparr> | None \<Rightarrow> s)"

definition private_mode :: "bool \<Rightarrow> side_state \<Rightarrow> nat list \<Rightarrow> side_state" where
  "private_mode on s param =
     (case param of
        [] \<Rightarrow> s
      | n # _ \<Rightarrow>
          if n = 9 then s\<lparr>sd_x10_mouse := on, sd_engine_mouse_hidden := True\<rparr>
          else if n = 1000 \<or> n = 1002 \<or> n = 1003
          then s\<lparr>sd_x10_mouse := False, sd_engine_mouse_hidden := False\<rparr>
          else if n = 2026 then s\<lparr>sd_synchronized := on\<rparr>
          else s)"

definition csi_dispatch :: "nat list list \<Rightarrow> bytes \<Rightarrow> bool \<Rightarrow> uchar \<Rightarrow> side_state \<Rightarrow> side_state" where
  "csi_dispatch params intermediates ignore action s =
     (if ignore \<or> intermediates \<noteq> [63] \<or> action \<notin> {104, 108} then s
      else foldl (private_mode (action = 104)) s params)"

definition esc_dispatch :: "bytes \<Rightarrow> byte \<Rightarrow> side_state \<Rightarrow> side_state" where
  "esc_dispatch intermediates b s =
     (if intermediates = [] \<and> b = 99
      then s\<lparr>sd_x10_mouse := False, sd_engine_mouse_hidden := False, sd_synchronized := False\<rparr> else s)"

definition end_synchronized :: "side_state \<Rightarrow> side_state" where
  "end_synchronized s = s\<lparr>sd_synchronized := False\<rparr>"

definition take_working_directory :: "side_state \<Rightarrow> str option \<times> side_state" where
  "take_working_directory s = (sd_working_directory s, s\<lparr>sd_working_directory := None\<rparr>)"

definition take_shell_directory :: "side_state \<Rightarrow> str option \<times> side_state" where
  "take_shell_directory s = (sd_shell_directory s, s\<lparr>sd_shell_directory := None\<rparr>)"

definition take_enquiries :: "side_state \<Rightarrow> nat \<times> side_state" where
  "take_enquiries s = (sd_enquiries s, s\<lparr>sd_enquiries := 0\<rparr>)"

subsection \<open>The limiter, byte by byte\<close>

fun kept :: "osc_limiter \<Rightarrow> bytes \<Rightarrow> bytes" where
  "kept l [] = []"
| "kept l (b # bs) = (if fst (keep l b) then [b] else []) @ kept (snd (keep l b)) bs"

definition after :: "osc_limiter \<Rightarrow> bytes \<Rightarrow> osc_limiter" where
  "after l bs = foldl (\<lambda>l b. snd (keep l b)) l bs"

lemma after_simps [simp]: "after l [] = l" "after l (b # bs) = after (snd (keep l b)) bs"
    "after l (as @ bs) = after (after l as) bs"
  by (simp_all add: after_def)

lemma kept_append: "kept l (as @ bs) = kept l as @ kept (after l as) bs"
  by (induction as arbitrary: l) simp_all

lemma filter_loop_Some: "filter_loop input index bs (Some xs) l = (Some (xs @ kept l bs), after l bs)"
  by (induction bs arbitrary: index xs l) (simp_all add: Let_def split_beta)

lemma filter_loop_None:
  "input = take index input @ bs \<Longrightarrow> index \<le> length input \<Longrightarrow>
   (case filter_loop input index bs None l of (out, l') \<Rightarrow>
      (case out of Some xs \<Rightarrow> xs | None \<Rightarrow> input) = take index input @ kept l bs \<and> l' = after l bs)"
proof (induction bs arbitrary: index l)
  case (Cons b bs)
  have next_take: "take (index + 1) input = take index input @ [b]" "index + 1 \<le> length input"
  proof -
    have "length input = index + length (b # bs)" using Cons.prems by (metis length_append length_take min.absorb2)
    moreover have "drop index input = b # bs" using Cons.prems by (metis append_take_drop_id same_append_eq)
    ultimately show "take (index + 1) input = take index input @ [b]" "index + 1 \<le> length input"
      by (auto simp: take_Suc_conv_app_nth hd_drop_conv_nth [symmetric])
  qed
  show ?case
  proof (cases "fst (keep l b)")
    case True
    then show ?thesis
      using Cons.IH [of "index + 1" "snd (keep l b)"] Cons.prems(1) next_take by (simp add: Let_def split_beta)
  next
    case False
    then show ?thesis by (simp add: Let_def split_beta filter_loop_Some)
  qed
qed simp

lemma parsed_kept: "parsed l input = (kept l input, after l input)"
  using filter_loop_None [of input 0 input l] by (simp add: parsed_def osc_filter_def Let_def split_beta prod_eq_iff)

text \<open>
  the limiter works on any chunking. The bytes of a stream that come in pieces, each filtered
  as it arrives, are the bytes of the whole stream filtered at once.
\<close>

theorem limiter_in_pieces:
  "foldl (\<lambda>(out, l) chunk. let (xs, l) = parsed l chunk in (out @ xs, l)) ([], l) chunks = parsed l (concat chunks)"
proof -
  have "foldl (\<lambda>(out, l) chunk. let (xs, l) = parsed l chunk in (out @ xs, l)) (out, l) chunks =
      (out @ kept l (concat chunks), after l (concat chunks))" for out
    by (induction chunks arbitrary: out l) (simp_all add: parsed_kept kept_append)
  then show ?thesis by (simp add: parsed_kept)
qed

subsection \<open>What the limiter lets through\<close>

text \<open>
  The strings of a stream, read the way a terminal does: from \<open>ESC ]\<close> to BEL, CAN, SUB or ESC, the
  last one as far as it got; and the stream without what is in its strings.
\<close>

definition ends_string :: "byte \<Rightarrow> bool" where
  "ends_string b \<longleftrightarrow> b = 7 \<or> b = 24 \<or> b = 26 \<or> b = 27"

fun osc_strings :: "bool \<Rightarrow> bytes option \<Rightarrow> bytes \<Rightarrow> bytes list" where
  "osc_strings escape None [] = []"
| "osc_strings escape (Some p) [] = [p]"
| "osc_strings escape None (b # bs) =
     (if escape \<and> b = 93 then osc_strings False (Some []) bs else osc_strings (b = 27) None bs)"
| "osc_strings escape (Some p) (b # bs) =
     (if ends_string b then p # osc_strings (b = 27) None bs else osc_strings escape (Some (p @ [b])) bs)"

fun outside_strings :: "bool \<Rightarrow> bool \<Rightarrow> bytes \<Rightarrow> bytes" where
  "outside_strings escape inside [] = []"
| "outside_strings escape False (b # bs) = b # outside_strings (b = 27) (escape \<and> b = 93) bs"
| "outside_strings escape True (b # bs) =
     (if ends_string b then b # outside_strings (b = 27) False bs else outside_strings escape True bs)"

definition string_limit :: "bool \<Rightarrow> bytes \<Rightarrow> nat" where
  "string_limit clipboard p = (if clipboard \<and> take 3 p = [53, 50, 59] then MAX_OSC52_STRING else MAX_OSC_STRING)"

definition cap :: "bool \<Rightarrow> bytes \<Rightarrow> bytes" where
  "cap clipboard p = take (string_limit clipboard p) p"

definition in_string :: "bool \<Rightarrow> bytes \<Rightarrow> osc_limiter \<Rightarrow> bool" where
  "in_string clipboard p l \<longleftrightarrow> ol_clipboard l = clipboard \<and> \<not> ol_escape l \<and> ol_osc l = Some (length p) \<and>
     ol_prefix l = take 3 (p @ [0, 0, 0])"

lemma string_limit_ge: "8192 \<le> string_limit clipboard p"
  by (simp add: string_limit_def MAX_OSC52_STRING_def MAX_OSC_STRING_def)

lemma string_limit_snoc: "3 \<le> length p \<Longrightarrow> string_limit clipboard (p @ [b]) = string_limit clipboard p"
  by (simp add: string_limit_def)

lemma prefix_full: "take 3 (q @ [0, 0, 0]) = [53, 50, 59] \<longleftrightarrow> take 3 q = [53, 50, 59 :: byte]"
proof -
  consider "3 \<le> length q" | "q = []" | x where "q = [x]" | x y where "q = [x, y]"
    by (cases q; cases "tl q"; cases "tl (tl q)") auto
  then show ?thesis by cases auto
qed

lemma prefix_step:
  "(take 3 (p @ [0, 0, 0]))[length p := b] = take 3 ((p @ [b]) @ [0, 0, 0 :: byte])"
proof -
  consider "3 \<le> length p" | "p = []" | x where "p = [x]" | x y where "p = [x, y]"
    by (cases p; cases "tl p"; cases "tl (tl p)") auto
  then show ?thesis by cases (simp_all add: list_update_beyond numeral_3_eq_3)
qed

lemma keep_in_string:
  assumes "in_string clipboard p l" and "\<not> ends_string b"
  shows "in_string clipboard (p @ [b]) (snd (keep l b))"
    and "fst (keep l b) \<longleftrightarrow> length p < string_limit clipboard (p @ [b])"
  using assms prefix_step [of p b] prefix_full [of "p @ [b]"]
  by (auto simp: in_string_def ends_string_def keep_def Let_def osc_limit_def string_limit_def)

lemma cap_step:
  "cap clipboard (p @ [b]) =
     cap clipboard p @ (if length p < string_limit clipboard (p @ [b]) then [b] else [])"
proof (cases "3 \<le> length p")
  case True
  then show ?thesis by (simp add: cap_def string_limit_snoc)
next
  case False
  then show ?thesis
    using string_limit_ge [of clipboard "p @ [b]"] string_limit_ge [of clipboard p] by (simp add: cap_def)
qed

lemma keep_end:
  assumes "in_string clipboard p l" and "ends_string b"
  shows "fst (keep l b)" and "ol_osc (snd (keep l b)) = None" and "ol_escape (snd (keep l b)) = (b = 27)"
    and "ol_clipboard (snd (keep l b)) = clipboard"
  using assms by (auto simp: in_string_def ends_string_def keep_def)

lemma keep_outside:
  assumes "ol_osc l = None" and "ol_clipboard l = clipboard"
  shows "fst (keep l b)"
    and "ol_escape l \<and> b = 93 \<Longrightarrow> in_string clipboard [] (snd (keep l b))"
    and "\<not> (ol_escape l \<and> b = 93) \<Longrightarrow> ol_osc (snd (keep l b)) = None \<and> ol_escape (snd (keep l b)) = (b = 27) \<and>
      ol_clipboard (snd (keep l b)) = clipboard"
  using assms by (auto simp: keep_def in_string_def)

text \<open>The strings and the rest, from any point of a stream on.\<close>

lemma kept_strings:
  "(ol_osc l = None \<longrightarrow> ol_clipboard l = clipboard \<longrightarrow>
      osc_strings (ol_escape l) None (kept l bs) = map (cap clipboard) (osc_strings (ol_escape l) None bs) \<and>
      outside_strings (ol_escape l) False (kept l bs) = outside_strings (ol_escape l) False bs) \<and>
   (in_string clipboard p l \<longrightarrow>
      osc_strings False (Some (cap clipboard p)) (kept l bs) = map (cap clipboard) (osc_strings False (Some p) bs) \<and>
      outside_strings False True (kept l bs) = outside_strings False True bs)"
proof (induction bs arbitrary: l p)
  case (Cons b bs)
  let ?l = "snd (keep l b)"
  show ?case
  proof (intro conjI impI, goal_cases)
    case 1
    note k = keep_outside [OF 1]
    show ?case using Cons.IH [of ?l "[]"] k by (cases "ol_escape l \<and> b = 93") (auto simp: cap_def)
  next
    case 2
    note k = keep_outside [OF 2]
    show ?case using Cons.IH [of ?l "[]"] k by (cases "ol_escape l \<and> b = 93") (auto simp: cap_def)
  next
    case 3
    show ?case
    proof (cases "ends_string b")
      case True
      then show ?thesis using Cons.IH [of ?l "[]"] keep_end [OF 3 True] by simp
    next
      case False
      note k = keep_in_string [OF 3 False]
      show ?thesis using Cons.IH [of ?l "p @ [b]"] k cap_step [of clipboard p b] False
        by (simp split: if_splits)
    qed
  next
    case 4
    show ?case
    proof (cases "ends_string b")
      case True
      then show ?thesis using Cons.IH [of ?l "[]"] keep_end [OF 4 True] by simp
    next
      case False
      then show ?thesis using Cons.IH [of ?l "p @ [b]"] keep_in_string [OF 4 False] by simp
    qed
  qed
qed simp

text \<open>
  the limiter caps every string and nothing else. In what it passes on, each string of an
  operating system command is the one that came in, cut at the limit (8 KiB, or 1 MiB for a clipboard
  string when programs may set the clipboard), and every byte outside the strings is there, their
  ends included.
\<close>

theorem limiter_caps_strings:
  assumes "l = set_clipboard clipboard limiter_default"
  shows "osc_strings False None (fst (parsed l input)) = map (cap clipboard) (osc_strings False None input) \<and>
    outside_strings False False (fst (parsed l input)) = outside_strings False False input \<and>
    (\<forall>p \<in> set (osc_strings False None (fst (parsed l input))). length p \<le> string_limit clipboard p)"
proof -
  have "ol_osc l = None" "ol_clipboard l = clipboard" "\<not> ol_escape l"
    using assms by (simp_all add: limiter_default_def set_clipboard_def)
  with kept_strings [of l clipboard input] have both:
    "osc_strings False None (kept l input) = map (cap clipboard) (osc_strings False None input)"
    "outside_strings False False (kept l input) = outside_strings False False input" by auto
  moreover have "length (cap clipboard p) \<le> string_limit clipboard (cap clipboard p)" for p
    using string_limit_ge [of clipboard p] by (simp add: cap_def string_limit_def)
  ultimately show ?thesis by (auto simp: parsed_kept)
qed

theorem limiter_caps_strings_witness:
  "osc_strings False None (fst (parsed (set_clipboard False limiter_default) [104, 27, 93, 48, 59, 120, 7, 105]))
     = map (cap False) [[48, 59, 120]] \<and> outside_strings False False [104, 27, 93, 48, 59, 120, 7, 105] = [104, 27, 93, 7, 105]"
  using limiter_caps_strings [of "set_clipboard False limiter_default" False "[104, 27, 93, 48, 59, 120, 7, 105]"]
  by (simp add: ends_string_def)

subsection \<open>Directories\<close>

text \<open>The way a shell writes a path in a URL: bytes that are safe as they are, the others as \<open>%XX\<close>.\<close>

definition hex_digit :: "nat \<Rightarrow> byte" where
  "hex_digit n = word_of_nat (if n < 10 then 48 + n else 55 + n)"

fun percent_encode :: "(byte \<Rightarrow> bool) \<Rightarrow> bytes \<Rightarrow> bytes" where
  "percent_encode safe [] = []"
| "percent_encode safe (b # bs) =
     (if safe b then [b] else [37, hex_digit (unat b div 16), hex_digit (unat b mod 16)]) @ percent_encode safe bs"

lemma hex_value_digit: "n < 16 \<Longrightarrow> hex_value (hex_digit n) = Some (word_of_nat n)"
proof -
  have "\<forall>n \<in> set [0 ..< 16]. hex_value (hex_digit n) = Some (word_of_nat n)"
    by (simp add: upt_rec hex_value_def hex_digit_def)
  then show "n < 16 \<Longrightarrow> ?thesis" by simp
qed

lemma hex_pair: "16 * word_of_nat (unat b div 16) + word_of_nat (unat b mod 16) = (b :: byte)"
proof -
  have "16 * word_of_nat (unat b div 16) + word_of_nat (unat b mod 16) =
      (word_of_nat (16 * (unat b div 16) + unat b mod 16) :: byte)"
    unfolding of_nat_add of_nat_mult by simp
  also have "\<dots> = b" by (simp only: mult_div_mod_eq) simp
  finally show ?thesis .
qed

lemma percent_roundtrip: "\<not> safe 37 \<Longrightarrow> percent_decode (percent_encode safe bs) = Some bs"
proof (induction bs)
  case (Cons b bs)
  have "unat b < 256" using unsigned_less [of b, where 'a = nat] by simp
  then show ?case using Cons by (auto simp: hex_value_digit hex_pair)
qed simp

lemma cut_at: "x \<notin> set a \<Longrightarrow> takeWhile (\<lambda>b. b \<noteq> x) (a @ x # c) = a \<and> dropWhile (\<lambda>b. b \<noteq> x) (a @ x # c) = x # c"
  by (induction a) auto

lemma utf8_no_slash: "list_all scalar s \<Longrightarrow> 47 \<notin> set s \<Longrightarrow> 47 \<notin> set (utf8 s)"
  by (induction s) (auto dest: utf8_char_low)

text \<open>
  the directory a shell reports comes back. For a path that starts with a slash and has no
  control characters, reported as a URL in which every byte that is not safe (a percent sign among
  them, the slash not) is written as \<open>%XX\<close>: from this machine it is taken as the working directory,
  and from any machine as the shell's directory.
\<close>

theorem osc7_roundtrip:
  assumes "list_all scalar path" and "\<not> list_ex is_control path" and "path \<noteq> []" and "hd path = 47"
    and "list_all scalar host" and "47 \<notin> set host" and "safe 47" and "\<not> safe 37"
  shows "parse_osc7_path (utf8 (lit ''file://'') @ utf8 host @ percent_encode safe (utf8 path)) = Some path \<and>
    parse_osc7 (utf8 (lit ''file://'') @ utf8 host @ percent_encode safe (utf8 path)) hostname =
      (if is_local_host host hostname then Some path else None)"
proof -
  obtain rest where "path = 47 # rest" using assms(3,4) by (cases path) auto
  then have enc: "percent_encode safe (utf8 path) = 47 # percent_encode safe (utf8 rest)"
    using assms(7) by (simp add: utf8_char_def)
  have parts: "osc7_parts (utf8 (lit ''file://'') @ utf8 host @ percent_encode safe (utf8 path)) =
      Some (utf8 host, percent_encode safe (utf8 path))"
    unfolding enc osc7_parts_def Let_def using cut_at [OF utf8_no_slash [OF assms(5,6)]] by simp
  have dec: "decode_path (percent_encode safe (utf8 path)) = Some path"
    using assms(1,2) by (simp add: decode_path_def percent_roundtrip [of safe, OF assms(8)] from_utf8_utf8)
  show ?thesis
    unfolding parse_osc7_path_def parse_osc7_def parts by (simp add: dec from_utf8_utf8 [OF assms(5)])
qed

theorem osc7_roundtrip_witness:
  "parse_osc7 (utf8 (lit ''file://'') @ utf8 (lit ''Desk'') @ percent_encode (\<lambda>b. b = 47) (utf8 (lit ''/tmp/a b'')))
     (Some (lit ''desk.lan'')) = Some (lit ''/tmp/a b'')"
proof -
  have "is_local_host (lit ''Desk'') (Some (lit ''desk.lan''))"
    by (simp add: is_local_host_def eq_ignore_ascii_case_def to_ascii_lower_def lit_def)
  then show ?thesis
    using osc7_roundtrip [of "lit ''/tmp/a b''" "lit ''Desk''" "\<lambda>b. b = 47" "Some (lit ''desk.lan'')"]
    by (simp add: scalar_def is_control_def lit_def)
qed

subsection \<open>One mouse protocol\<close>

datatype side_event =
    Execute byte | OscDispatch "bytes list" | CsiDispatch "nat list list" bytes bool uchar
  | EscDispatch bytes byte | EndSynchronized | TakeDirectories | TakeEnquiries

fun side_step :: "str option \<Rightarrow> side_state \<Rightarrow> side_event \<Rightarrow> side_state" where
  "side_step hostname s (Execute b) = side_execute b s"
| "side_step hostname s (OscDispatch params) = osc_dispatch hostname params s"
| "side_step hostname s (CsiDispatch params intermediates ignore action) =
     csi_dispatch params intermediates ignore action s"
| "side_step hostname s (EscDispatch intermediates b) = esc_dispatch intermediates b s"
| "side_step hostname s EndSynchronized = end_synchronized s"
| "side_step hostname s TakeDirectories = snd (take_shell_directory (snd (take_working_directory s)))"
| "side_step hostname s TakeEnquiries = snd (take_enquiries s)"

text \<open>
  While X10 reporting is on, the engine's own mouse modes are hidden; the directories kept have no
  control characters; the count of enquiries is a machine integer.
\<close>

definition side_ok :: "side_state \<Rightarrow> bool" where
  "side_ok s \<longleftrightarrow> (sd_x10_mouse s \<longrightarrow> sd_engine_mouse_hidden s) \<and> sd_enquiries s \<le> usize_max \<and>
     (\<forall>path. sd_working_directory s = Some path \<or> sd_shell_directory s = Some path \<longrightarrow> \<not> list_ex is_control path)"

lemma decode_path_plain: "decode_path bs = Some path \<Longrightarrow> \<not> list_ex is_control path"
  by (auto simp: decode_path_def split: option.splits if_splits)

lemma osc7_plain:
  "parse_osc7 payload hostname = Some path \<Longrightarrow> \<not> list_ex is_control path"
  "parse_osc7_path payload = Some path \<Longrightarrow> \<not> list_ex is_control path"
  by (auto simp: parse_osc7_def parse_osc7_path_def split: option.splits if_splits dest: decode_path_plain)

lemma osc_dispatch_ok: "side_ok s \<Longrightarrow> side_ok (osc_dispatch hostname params s)"
proof (cases params)
  case (Cons first rest)
  then show "side_ok s \<Longrightarrow> ?thesis"
    using osc7_plain [of "join_bytes 59 rest"]
    by (auto simp: osc_dispatch_def side_ok_def Let_def split: option.splits)
qed (simp add: osc_dispatch_def)

lemma private_mode_ok: "side_ok s \<Longrightarrow> side_ok (private_mode on s param)"
  by (auto simp: private_mode_def side_ok_def split: list.splits)

lemma csi_dispatch_ok: "side_ok s \<Longrightarrow> side_ok (csi_dispatch params intermediates ignore action s)"
proof -
  have "side_ok s \<Longrightarrow> side_ok (foldl (private_mode on) s params)" for on
    by (induction params arbitrary: s) (simp_all add: private_mode_ok)
  then show "side_ok s \<Longrightarrow> ?thesis" by (simp add: csi_dispatch_def)
qed

lemma side_step_ok: "side_ok s \<Longrightarrow> side_ok (side_step hostname s e)"
proof (cases e)
  case (OscDispatch params)
  then show "side_ok s \<Longrightarrow> ?thesis" by (simp add: osc_dispatch_ok)
next
  case (CsiDispatch params intermediates ignore action)
  then show "side_ok s \<Longrightarrow> ?thesis" by (simp add: csi_dispatch_ok)
qed (auto simp: side_ok_def side_execute_def esc_dispatch_def end_synchronized_def take_shell_directory_def
  take_working_directory_def take_enquiries_def)

interpretation sp: invariant_machine "side_step hostname" side_ok "\<lambda>_. True" for hostname
  by unfold_locales (rule side_step_ok)

lemma side_run_ok: "side_ok (foldl (side_step hostname) side_default events)"
  by (rule sp.run_inv) (simp_all add: side_ok_def side_default_def list_all_iff usize_max_def)

end
