(* ===== verification/Target.thy ===== *)
theory Target
  imports Texts Utf8
begin

text \<open>
  Quick connect (\<open>crates/opensesh-core/src/hosts/target.rs\<close>): the text a user types, parsed into a
  target, a target written as text, the OpenSSH command line of a target, and proxy URLs; with the
  protocols and options of \<open>hosts/mod.rs\<close> and \<open>hosts/containers.rs\<close> that they use. Errors that carry a
  worded message have a constructor for each message.
\<close>

datatype protocol =
    PSsh | PSftp | PTelnet | PSerial | PMosh | PRdp | PVnc | PLocal | PDocker | PKube | PS3

definition ALL_PROTOCOLS :: "protocol list" where
  "ALL_PROTOCOLS = [PSsh, PSftp, PTelnet, PSerial, PMosh, PRdp, PVnc, PLocal, PDocker, PKube, PS3]"

fun protocol_str :: "protocol \<Rightarrow> str" where
  "protocol_str PSsh = lit ''ssh''"
| "protocol_str PSftp = lit ''sftp''"
| "protocol_str PTelnet = lit ''telnet''"
| "protocol_str PSerial = lit ''serial''"
| "protocol_str PMosh = lit ''mosh''"
| "protocol_str PRdp = lit ''rdp''"
| "protocol_str PVnc = lit ''vnc''"
| "protocol_str PLocal = lit ''local''"
| "protocol_str PDocker = lit ''docker''"
| "protocol_str PKube = lit ''kube''"
| "protocol_str PS3 = lit ''s3''"

definition protocol_parse :: "str \<Rightarrow> protocol option" where
  "protocol_parse s = find (\<lambda>p. eq_ignore_ascii_case (protocol_str p) (trim s)) ALL_PROTOCOLS"

fun default_port :: "protocol \<Rightarrow> nat option" where
  "default_port PSsh = Some 22"
| "default_port PSftp = Some 22"
| "default_port PMosh = Some 22"
| "default_port PTelnet = Some 23"
| "default_port PRdp = Some 3389"
| "default_port PVnc = Some 5900"
| "default_port _ = None"

definition is_network :: "protocol \<Rightarrow> bool" where
  "is_network p \<longleftrightarrow> default_port p \<noteq> None"

datatype parity = ParityNone | ParityEven | ParityOdd
datatype flow_control = FlowNone | FlowSoftware | FlowHardware
datatype x11_forwarding = X11Off | X11Untrusted | X11Trusted
datatype engine = Docker | Podman

record serial_options =
  so_baud :: "nat option"
  so_data_bits :: "nat option"
  so_parity :: "parity option"
  so_stop_bits :: "nat option"
  so_flow_control :: "flow_control option"

record container_options =
  co_engine :: "engine option"
  co_namespace :: "str option"
  co_pod_container :: "str option"
  co_context :: "str option"

record s3_options =
  s3_region :: "str option"
  s3_path_style :: "bool option"

record target =
  tg_protocol :: protocol
  tg_user :: "str option"
  tg_host :: str
  tg_port :: "nat option"
  tg_jump :: "str list"
  tg_serial :: serial_options
  tg_container :: container_options
  tg_s3 :: s3_options
  tg_path :: str

definition target_default :: target where
  "target_default =
     \<lparr>tg_protocol = PSsh, tg_user = None, tg_host = [], tg_port = None, tg_jump = [],
      tg_serial = \<lparr>so_baud = None, so_data_bits = None, so_parity = None, so_stop_bits = None, so_flow_control = None\<rparr>,
      tg_container = \<lparr>co_engine = None, co_namespace = None, co_pod_container = None, co_context = None\<rparr>,
      tg_s3 = \<lparr>s3_region = None, s3_path_style = None\<rparr>, tg_path = []\<rparr>"

datatype serial_error = NoDevice | SerialSetting str str | SerialUnknown str
datatype container_error =
    NotNamespace | NotContainerName str str | ContainerUnknown str | TakesNoSettings | NoPod | NoContainer
datatype s3_error = NoServer | BadPathStyle str | NotRegion str | S3Unknown str

datatype target_error =
    Empty | Unbalanced | MissingHost | Extra str | MissingValue str | UnknownOption str | UnknownScheme str
  | BadPort str | BadName str | BadSerial serial_error | BadContainer container_error | BadS3 s3_error

subsection \<open>Words, names and ports\<close>

text \<open>
  \<open>split_words\<close>: the loops over the one iterator, with the place where it stands: between quotes of
  either kind, after a backslash, or outside.
\<close>

datatype quoting = Bare | Escaped | Single | Double | DoubleEscaped

fun split_words_from :: "quoting \<Rightarrow> str list \<Rightarrow> str \<Rightarrow> bool \<Rightarrow> str \<Rightarrow> target_error + str list" where
  "split_words_from q words current in_word [] =
     (if q = Bare \<or> q = Escaped then Inr (if in_word then words @ [current] else words) else Inl Unbalanced)"
| "split_words_from Single words current in_word (c # cs) =
     (if c = 39 then split_words_from Bare words current in_word cs
      else split_words_from Single words (current @ [c]) in_word cs)"
| "split_words_from Double words current in_word (c # cs) =
     (if c = 34 then split_words_from Bare words current in_word cs
      else if c = 92 then split_words_from DoubleEscaped words current in_word cs
      else split_words_from Double words (current @ [c]) in_word cs)"
| "split_words_from DoubleEscaped words current in_word (c # cs) =
     split_words_from Double words (current @ [c]) in_word cs"
| "split_words_from Escaped words current in_word (c # cs) =
     split_words_from Bare words (current @ [c]) in_word cs"
| "split_words_from Bare words current in_word (c # cs) =
     (if c = 39 then split_words_from Single words current True cs
      else if c = 34 then split_words_from Double words current True cs
      else if c = 92 then split_words_from Escaped words current True cs
      else if is_whitespace c then
        (if in_word then split_words_from Bare (words @ [current]) [] False cs
         else split_words_from Bare words current False cs)
      else split_words_from Bare words (current @ [c]) True cs)"

definition split_words :: "str \<Rightarrow> target_error + str list" where
  "split_words s = split_words_from Bare [] [] False s"

definition check_name :: "str \<Rightarrow> target_error + unit" where
  "check_name name =
     (if name = [] \<or> hd name = 45 \<or> list_ex (\<lambda>c. is_whitespace c \<or> is_control c \<or> c = 64 \<or> c = 47) name
      then Inl (BadName name) else Inr ())"

definition check_user :: "str \<Rightarrow> target_error + unit" where
  "check_user name =
     (if name = [] \<or> hd name = 45 \<or> list_ex (\<lambda>c. is_whitespace c \<or> is_control c \<or> c = 47) name
      then Inl (BadName name) else Inr ())"

definition parse_port :: "str \<Rightarrow> target_error + nat" where
  "parse_port s =
     (case parse_uint u16_max s of
        Some port \<Rightarrow> if 0 < port then Inr port else Inl (BadPort s)
      | None \<Rightarrow> Inl (BadPort s))"

definition hex_of :: "byte \<Rightarrow> byte option" where
  "hex_of b =
     (if 48 \<le> b \<and> b \<le> 57 then Some (b - 48)
      else if 97 \<le> b \<and> b \<le> 102 then Some (b - 87)
      else if 65 \<le> b \<and> b \<le> 70 then Some (b - 55)
      else None)"

fun lenient_decode :: "bytes \<Rightarrow> bytes" where
  "lenient_decode (a # b # c # bs) =
     (case (hex_of b, hex_of c) of
        (Some high, Some low) \<Rightarrow>
          if a = 37 then (high * 16 + low) # lenient_decode bs else a # lenient_decode (b # c # bs)
      | _ \<Rightarrow> a # lenient_decode (b # c # bs))"
| "lenient_decode bs = bs"

definition url_decode :: "str \<Rightarrow> str" where
  "url_decode s = (case from_utf8 (lenient_decode (utf8 s)) of Some t \<Rightarrow> t | None \<Rightarrow> s)"

text \<open>The host and port of an endpoint, after its user.\<close>

definition endpoint_host :: "str \<Rightarrow> target_error + (str \<times> nat option)" where
  "endpoint_host rest =
     (case strip_prefix [91] rest of
        Some inner \<Rightarrow>
          (case split_at_char 93 inner of
             None \<Rightarrow> Inl (BadName rest)
           | Some (host, after) \<Rightarrow>
               if after = [] then Inr (host, None)
               else (case strip_prefix [58] after of
                       None \<Rightarrow> Inl (BadName rest)
                     | Some port \<Rightarrow> ebind (parse_port port) (\<lambda>port. Inr (host, Some port))))
      | None \<Rightarrow>
          if 1 < count_list rest 58 then Inr (rest, None)
          else (case rsplit_once 58 rest of
                  Some (host, port) \<Rightarrow> ebind (parse_port port) (\<lambda>port. Inr (host, Some port))
                | None \<Rightarrow> Inr (rest, None)))"

definition parse_endpoint :: "str \<Rightarrow> target_error + (str option \<times> str \<times> nat option)" where
  "parse_endpoint s =
     ebind (case rsplit_once 64 s of
              Some (user, rest) \<Rightarrow>
                let user = url_decode (hd (split_on 59 user))
                in ebind (check_user user) (\<lambda>_. Inr (Some user, rest))
            | None \<Rightarrow> Inr (None, s)) (\<lambda>(user, rest).
     ebind (endpoint_host rest) (\<lambda>(host, port).
       if host = [] then Inl MissingHost
       else ebind (check_name host) (\<lambda>_. Inr (user, host, port))))"

fun parse_jumps :: "str list \<Rightarrow> str list \<Rightarrow> target_error + str list" where
  "parse_jumps [] jump = Inr jump"
| "parse_jumps (item # items) jump =
     (if trim item = [] then parse_jumps items jump
      else ebind (parse_endpoint (trim item)) (\<lambda>_. parse_jumps items (jump @ [trim item])))"

definition parse_jump :: "str \<Rightarrow> str list \<Rightarrow> target_error + str list" where
  "parse_jump list jump = parse_jumps (split_on 44 list) jump"

subsection \<open>URLs\<close>

definition is_alnum :: "uchar \<Rightarrow> bool" where
  "is_alnum c \<longleftrightarrow> 48 \<le> c \<and> c \<le> 57 \<or> 65 \<le> c \<and> c \<le> 90 \<or> 97 \<le> c \<and> c \<le> 122"

definition is_region :: "str \<Rightarrow> bool" where
  "is_region region \<longleftrightarrow> region \<noteq> [] \<and> list_all (\<lambda>c. is_alnum c \<or> c = 45 \<or> c = 95) region"

definition is_name :: "str \<Rightarrow> bool" where
  "is_name name \<longleftrightarrow> name \<noteq> [] \<and> hd name \<noteq> 45 \<and>
     \<not> list_ex (\<lambda>c. is_whitespace c \<or> is_control c \<or> c \<in> {47, 63, 35, 38, 64}) name"

definition is_context :: "str \<Rightarrow> bool" where
  "is_context context \<longleftrightarrow> context \<noteq> [] \<and> hd context \<noteq> 45 \<and> \<not> list_ex (\<lambda>c. is_whitespace c \<or> is_control c) context"

text \<open>The settings after \<open>?\<close>: \<open>key=value\<close> pairs, empty ones left out.\<close>

definition query_pairs :: "str \<Rightarrow> (str \<times> str) list" where
  "query_pairs query =
     map (\<lambda>pair. case split_at_char 61 pair of Some kv \<Rightarrow> kv | None \<Rightarrow> (pair, []))
       (filter (\<lambda>pair. pair \<noteq> []) (split_on 38 query))"

definition cut_query :: "str \<Rightarrow> str \<times> str" where
  "cut_query s = (case split_at_char 63 s of Some parts \<Rightarrow> parts | None \<Rightarrow> (s, []))"

fun fold_settings :: "('s \<Rightarrow> str \<times> str \<Rightarrow> target_error + 's) \<Rightarrow> 's \<Rightarrow> (str \<times> str) list \<Rightarrow> target_error + 's" where
  "fold_settings f s [] = Inr s"
| "fold_settings f s (kv # kvs) = ebind (f s kv) (\<lambda>s. fold_settings f s kvs)"

definition bracket_ipv6 :: "str \<Rightarrow> str" where
  "bracket_ipv6 host = (if 58 \<in> set host \<and> hd host \<noteq> 91 then 91 # host @ [93] else host)"

definition s3_setting :: "s3_options \<Rightarrow> str \<times> str \<Rightarrow> target_error + s3_options" where
  "s3_setting s3 kv =
     (let key = fst kv; v = url_decode (snd kv)
      in if key = lit ''region'' then
           (if is_region v then Inr (s3\<lparr>s3_region := Some v\<rparr>) else Inl (BadS3 (NotRegion v)))
         else if key = lit ''path_style'' then
           (if v \<in> {lit ''true'', lit ''1'', lit ''on''} then Inr (s3\<lparr>s3_path_style := Some True\<rparr>)
            else if v \<in> {lit ''false'', lit ''0'', lit ''off''} then Inr (s3\<lparr>s3_path_style := Some False\<rparr>)
            else Inl (BadS3 (BadPathStyle v)))
         else Inl (BadS3 (S3Unknown key)))"

definition parse_s3 :: "str \<Rightarrow> bool \<Rightarrow> target_error + target" where
  "parse_s3 rest tls =
     (let (rest, query) = cut_query rest;
          (authority, path) = (case split_at_char 47 rest of
                                 Some (authority, path) \<Rightarrow> (authority, trim_end_char 47 path)
                               | None \<Rightarrow> (rest, []))
      in case parse_endpoint authority of
           Inl _ \<Rightarrow> Inl (BadS3 NoServer)
         | Inr (user, host, port) \<Rightarrow>
             ebind (fold_settings s3_setting (tg_s3 target_default) (query_pairs query)) (\<lambda>s3.
               Inr (target_default\<lparr>tg_protocol := PS3, tg_user := user,
                      tg_host := (if tls then lit ''https'' else lit ''http'') @ lit ''://'' @ bracket_ipv6 host @
                        (case port of Some p \<Rightarrow> 58 # decimal p | None \<Rightarrow> []),
                      tg_s3 := s3,
                      tg_path := (if path = [] then [] else 47 # url_decode path)\<rparr>)))"

definition upper_hex :: "nat \<Rightarrow> uchar" where
  "upper_hex n = (if n < 10 then 48 + n else 55 + n)"

definition url_encode :: "str \<Rightarrow> str" where
  "url_encode s =
     concat (map (\<lambda>c. if c \<in> {37, 38, 35, 32, 63, 61} then [37, upper_hex (c div 16), upper_hex (c mod 16)] else [c]) s)"

definition kube_setting :: "container_options \<Rightarrow> str \<times> str \<Rightarrow> target_error + container_options" where
  "kube_setting co kv =
     (let key = fst kv; v = url_decode (snd kv)
      in if key = lit ''container'' \<and> is_name v then Inr (co\<lparr>co_pod_container := Some v\<rparr>)
         else if key = lit ''context'' \<and> is_context v then Inr (co\<lparr>co_context := Some v\<rparr>)
         else if key = lit ''container'' \<or> key = lit ''context'' then Inl (BadContainer (NotContainerName key v))
         else Inl (BadContainer (ContainerUnknown key)))"

definition parse_kube :: "str \<Rightarrow> str \<Rightarrow> target_error + target" where
  "parse_kube path query =
     (let (namespace, pod) = (case split_at_char 47 path of
                                Some (n, p) \<Rightarrow> (Some (url_decode n), url_decode p)
                              | None \<Rightarrow> (None, url_decode path));
          co = tg_container target_default
      in ebind (case namespace of
                  Some n \<Rightarrow> if is_name n then Inr (co\<lparr>co_namespace := Some n\<rparr>) else Inl (BadContainer NotNamespace)
                | None \<Rightarrow> Inr co) (\<lambda>co.
         ebind (fold_settings kube_setting co (query_pairs query)) (\<lambda>co.
           if \<not> is_name pod then Inl (BadContainer NoPod)
           else Inr (target_default\<lparr>tg_protocol := PKube, tg_host := pod, tg_container := co\<rparr>))))"

definition parse_docker :: "engine option \<Rightarrow> str \<Rightarrow> str \<Rightarrow> target_error + target" where
  "parse_docker engine path query =
     (if query \<noteq> [] then Inl (BadContainer TakesNoSettings)
      else ebind (case rsplit_once 64 path of
                    Some (name, rest) \<Rightarrow> ebind (check_user name) (\<lambda>_. Inr (Some name, url_decode rest))
                  | None \<Rightarrow> Inr (None, url_decode path)) (\<lambda>(user, host).
           if \<not> is_name host then Inl (BadContainer NoContainer)
           else Inr (target_default\<lparr>tg_protocol := PDocker, tg_user := user, tg_host := host,
                       tg_container := (tg_container target_default)\<lparr>co_engine := engine\<rparr>\<rparr>)))"

definition parse_container :: "str \<Rightarrow> str \<Rightarrow> target_error + target" where
  "parse_container scheme rest =
     (let (path, query) = cut_query rest; path = trim_end_char 47 path
      in if scheme = lit ''kube'' then parse_kube path query
         else parse_docker (if scheme = lit ''podman'' then Some Podman else None) path query)"

definition within :: "nat option \<Rightarrow> (nat \<Rightarrow> bool) \<Rightarrow> str \<times> str \<Rightarrow> target_error + nat" where
  "within parsed ok kv =
     (case parsed of
        Some n \<Rightarrow> if ok n then Inr n else Inl (BadSerial (SerialSetting (fst kv) (snd kv)))
      | None \<Rightarrow> Inl (BadSerial (SerialSetting (fst kv) (snd kv))))"

fun parity_name :: "parity \<Rightarrow> str" where
  "parity_name ParityNone = lit ''none''"
| "parity_name ParityEven = lit ''even''"
| "parity_name ParityOdd = lit ''odd''"

fun flow_name :: "flow_control \<Rightarrow> str" where
  "flow_name FlowNone = lit ''none''"
| "flow_name FlowSoftware = lit ''software''"
| "flow_name FlowHardware = lit ''hardware''"

definition serial_setting :: "serial_options \<Rightarrow> str \<times> str \<Rightarrow> target_error + serial_options" where
  "serial_setting so kv =
     (let key = fst kv; v = snd kv; bad = Inl (BadSerial (SerialSetting key v))
      in if key = lit ''baud'' then
           ebind (within (parse_uint u32_max v) (\<lambda>n. 0 < n) kv) (\<lambda>n. Inr (so\<lparr>so_baud := Some n\<rparr>))
         else if key = lit ''data_bits'' then
           ebind (within (parse_uint 255 v) (\<lambda>n. 5 \<le> n \<and> n \<le> 8) kv) (\<lambda>n. Inr (so\<lparr>so_data_bits := Some n\<rparr>))
         else if key = lit ''stop_bits'' then
           ebind (within (parse_uint 255 v) (\<lambda>n. n = 1 \<or> n = 2) kv) (\<lambda>n. Inr (so\<lparr>so_stop_bits := Some n\<rparr>))
         else if key = lit ''parity'' then
           (if v = lit ''none'' then Inr (so\<lparr>so_parity := Some ParityNone\<rparr>)
            else if v = lit ''even'' then Inr (so\<lparr>so_parity := Some ParityEven\<rparr>)
            else if v = lit ''odd'' then Inr (so\<lparr>so_parity := Some ParityOdd\<rparr>)
            else bad)
         else if key = lit ''flow'' \<or> key = lit ''flow_control'' then
           (if v = lit ''none'' then Inr (so\<lparr>so_flow_control := Some FlowNone\<rparr>)
            else if v = lit ''software'' \<or> v = lit ''xonxoff'' then Inr (so\<lparr>so_flow_control := Some FlowSoftware\<rparr>)
            else if v = lit ''hardware'' \<or> v = lit ''rtscts'' then Inr (so\<lparr>so_flow_control := Some FlowHardware\<rparr>)
            else bad)
         else Inl (BadSerial (SerialUnknown key)))"

definition parse_serial :: "str \<Rightarrow> target_error + target" where
  "parse_serial rest =
     (let (device, query) = cut_query rest; device = url_decode (trim device)
      in if device = [] \<or> hd device = 45 then Inl (BadSerial NoDevice)
         else ebind (fold_settings serial_setting (tg_serial target_default) (query_pairs query)) (\<lambda>so.
                Inr (target_default\<lparr>tg_protocol := PSerial, tg_host := device, tg_serial := so\<rparr>)))"

definition parse_url :: "str \<Rightarrow> str \<Rightarrow> target_error + target" where
  "parse_url scheme rest =
     (case protocol_parse scheme of
        Some p \<Rightarrow>
          if is_network p then
            ebind (parse_endpoint (takeWhile (\<lambda>c. c \<notin> {47, 63, 35}) rest)) (\<lambda>(user, host, port).
              Inr (target_default\<lparr>tg_protocol := p, tg_user := user, tg_host := host, tg_port := port\<rparr>))
          else Inl (UnknownScheme scheme)
      | None \<Rightarrow> Inl (UnknownScheme scheme))"

subsection \<open>The text of a target\<close>

record typed =
  ty_jump :: "str list"
  ty_port :: "nat option"
  ty_user :: "str option"
  ty_positional :: "str list"

definition apply_option :: "uchar \<Rightarrow> str \<Rightarrow> typed \<Rightarrow> target_error + typed" where
  "apply_option name v o' =
     (if name = 74 then ebind (parse_jump v (ty_jump o')) (\<lambda>jump. Inr (o'\<lparr>ty_jump := jump\<rparr>))
      else if name = 112 then ebind (parse_port v) (\<lambda>port. Inr (o'\<lparr>ty_port := Some port\<rparr>))
      else ebind (check_user v) (\<lambda>_. Inr (o'\<lparr>ty_user := Some v\<rparr>)))"

fun parse_options :: "str list \<Rightarrow> typed \<Rightarrow> target_error + typed" where
  "parse_options [] o' = Inr o'"
| "parse_options (word # words) o' =
     (case word of
        d # name # inline \<Rightarrow>
          if d \<noteq> 45 then parse_options words (o'\<lparr>ty_positional := ty_positional o' @ [word]\<rparr>)
          else if name \<notin> {74, 112, 108} then Inl (UnknownOption word)
          else if inline \<noteq> [] then ebind (apply_option name inline o') (parse_options words)
          else (case words of
                  [] \<Rightarrow> Inl (MissingValue [45, name])
                | v # words \<Rightarrow> ebind (apply_option name v o') (parse_options words))
      | _ \<Rightarrow> parse_options words (o'\<lparr>ty_positional := ty_positional o' @ [word]\<rparr>))"

definition container_scheme :: "str \<Rightarrow> (str \<times> str) option" where
  "container_scheme first =
     (case find (\<lambda>scheme. starts_with first (scheme @ lit ''://'')) [lit ''docker'', lit ''podman'', lit ''kube''] of
        Some scheme \<Rightarrow> Some (scheme, drop (length scheme + 3) first)
      | None \<Rightarrow> None)"

definition parse_first :: "protocol option \<Rightarrow> str \<Rightarrow> target_error + target" where
  "parse_first protocol first =
     (case strip_prefix (lit ''serial:'') first of
        Some rest \<Rightarrow> parse_serial (trim_start_matches (lit ''//'') rest)
      | None \<Rightarrow>
     (case strip_prefix (lit ''s3://'') first of
        Some rest \<Rightarrow> parse_s3 rest True
      | None \<Rightarrow>
     (case strip_prefix (lit ''s3+http://'') first of
        Some rest \<Rightarrow> parse_s3 rest False
      | None \<Rightarrow>
     (case container_scheme first of
        Some (scheme, rest) \<Rightarrow> parse_container scheme rest
      | None \<Rightarrow>
     (case split_once first (lit ''://'') of
        Some (scheme, rest) \<Rightarrow> parse_url scheme rest
      | None \<Rightarrow>
          ebind (parse_endpoint first) (\<lambda>(user, host, port).
            Inr (target_default\<lparr>tg_protocol := (case protocol of Some p \<Rightarrow> p | None \<Rightarrow> PSsh),
                   tg_user := user, tg_host := host, tg_port := port\<rparr>)))))))"

text \<open>\<open>telnet host 23\<close>: the port as a second word.\<close>

definition telnet_port :: "target \<Rightarrow> str list \<Rightarrow> target_error + (target \<times> str list)" where
  "telnet_port t words =
     (case words of
        word # words' \<Rightarrow>
          if tg_protocol t = PTelnet \<and> tg_port t = None
          then ebind (parse_port word) (\<lambda>port. Inr (t\<lparr>tg_port := Some port\<rparr>, words'))
          else Inr (t, words)
      | [] \<Rightarrow> Inr (t, words))"

text \<open>\<open>vnc://host:1\<close>: a display number.\<close>

definition vnc_display :: "target \<Rightarrow> target" where
  "vnc_display t =
     (case tg_port t of
        Some port \<Rightarrow> if tg_protocol t = PVnc \<and> port < 100 then t\<lparr>tg_port := Some (5900 + port)\<rparr> else t
      | None \<Rightarrow> t)"

definition apply_typed :: "typed \<Rightarrow> target \<Rightarrow> target" where
  "apply_typed o' t =
     (if tg_protocol t \<in> {PSerial, PDocker, PKube, PS3} then t
      else t\<lparr>tg_port := (if ty_port o' \<noteq> None then ty_port o' else tg_port t),
             tg_user := (if ty_user o' \<noteq> None then ty_user o' else tg_user t),
             tg_jump := ty_jump o'\<rparr>)"

text \<open>A program in front (\<open>ssh host\<close>), and the words after it.\<close>

definition leading_program :: "str list \<Rightarrow> protocol option \<times> str list" where
  "leading_program words =
     (case words of
        first # rest \<Rightarrow>
          if to_ascii_lower first \<in> {lit ''ssh'', lit ''mosh'', lit ''telnet''}
          then (protocol_parse (to_ascii_lower first), rest) else (None, words)
      | [] \<Rightarrow> (None, words))"

definition typed_start :: typed where
  "typed_start = \<lparr>ty_jump = [], ty_port = None, ty_user = None, ty_positional = []\<rparr>"

definition target_parse :: "str \<Rightarrow> target_error + target" where
  "target_parse s =
     ebind (split_words (trim s)) (\<lambda>words.
       let (protocol, words) = leading_program words
       in ebind (parse_options words typed_start) (\<lambda>o'.
            case ty_positional o' of
              [] \<Rightarrow> Inl (if trim s = [] then Empty else MissingHost)
            | first # others \<Rightarrow>
                ebind (parse_first protocol first) (\<lambda>t.
                ebind (telnet_port t others) (\<lambda>(t, others).
                  let t = vnc_display t
                  in if others \<noteq> [] then Inl (Extra (hd others)) else Inr (apply_typed o' t)))))"

subsection \<open>A target as text\<close>

definition write_query :: "str list \<Rightarrow> str" where
  "write_query query = (if query = [] then [] else 63 # join_with (lit ''&'') query)"

definition set_text :: "string \<Rightarrow> ('a \<Rightarrow> str) \<Rightarrow> 'a option \<Rightarrow> str list" where
  "set_text key f v = (case v of None \<Rightarrow> [] | Some x \<Rightarrow> [lit key @ 61 # f x])"

definition user_at :: "str option \<Rightarrow> str" where
  "user_at user = (case user of None \<Rightarrow> [] | Some u \<Rightarrow> u @ [64])"

definition fmt_serial :: "target \<Rightarrow> str" where
  "fmt_serial t = (let so = tg_serial t in lit ''serial://'' @ tg_host t @ write_query
     (set_text ''baud'' decimal (so_baud so) @ set_text ''data_bits'' decimal (so_data_bits so) @
      set_text ''parity'' parity_name (so_parity so) @ set_text ''stop_bits'' decimal (so_stop_bits so) @
      set_text ''flow'' flow_name (so_flow_control so)))"

definition fmt_container :: "target \<Rightarrow> str" where
  "fmt_container t = (let co = tg_container t
     in if tg_protocol t = PKube
        then lit ''kube://'' @ (case co_namespace co of None \<Rightarrow> [] | Some n \<Rightarrow> n @ [47]) @ tg_host t @
             write_query (set_text ''container'' (\<lambda>x. x) (co_pod_container co) @ set_text ''context'' url_encode (co_context co))
        else (case co_engine co of Some Podman \<Rightarrow> lit ''podman'' | _ \<Rightarrow> lit ''docker'') @ lit ''://'' @
             user_at (tg_user t) @ tg_host t)"

definition bool_text :: "bool \<Rightarrow> str" where
  "bool_text b = (if b then lit ''true'' else lit ''false'')"

definition fmt_s3 :: "target \<Rightarrow> str" where
  "fmt_s3 t = (let (scheme, server) =
       (case split_once (tg_host t) (lit ''://'') of
          Some (scheme, server) \<Rightarrow>
            if eq_ignore_ascii_case scheme (lit ''http'') then (lit ''s3+http'', server) else (lit ''s3'', server)
        | None \<Rightarrow> (lit ''s3'', tg_host t))
     in scheme @ lit ''://'' @ user_at (tg_user t) @ server @ tg_path t @
        write_query (set_text ''region'' (\<lambda>x. x) (s3_region (tg_s3 t)) @
                     set_text ''path_style'' bool_text (s3_path_style (tg_s3 t))))"

definition target_display :: "target \<Rightarrow> str" where
  "target_display t =
     (if tg_protocol t = PSerial then fmt_serial t
      else if tg_protocol t \<in> {PDocker, PKube} then fmt_container t
      else if tg_protocol t = PS3 then fmt_s3 t
      else (if tg_protocol t \<noteq> PSsh then protocol_str (tg_protocol t) @ lit ''://'' else []) @
           user_at (tg_user t) @ bracket_ipv6 (tg_host t) @
           (case tg_port t of None \<Rightarrow> [] | Some p \<Rightarrow> 58 # decimal p) @
           (if tg_jump t = [] then [] else lit '' -J '' @ join_with (lit '','') (tg_jump t)))"

subsection \<open>Command lines and proxies\<close>

record ssh_args =
  sa_user :: "str option"
  sa_host :: str
  sa_port :: "nat option"
  sa_jump :: "str list"
  sa_identity_file :: "str option"
  sa_keepalive_secs :: nat
  sa_compression :: bool
  sa_agent_forwarding :: bool
  sa_x11 :: x11_forwarding

definition to_args :: "ssh_args \<Rightarrow> str list" where
  "to_args a =
     (case sa_port a of Some p \<Rightarrow> if p \<noteq> 22 then [lit ''-p'', decimal p] else [] | None \<Rightarrow> []) @
     (case sa_identity_file a of Some f \<Rightarrow> if trim f \<noteq> [] then [lit ''-i'', trim f] else [] | None \<Rightarrow> []) @
     (if sa_jump a \<noteq> [] then [lit ''-J'', join_with (lit '','') (sa_jump a)] else []) @
     (if 0 < sa_keepalive_secs a
      then [lit ''-o'', lit ''ServerAliveInterval='' @ decimal (sa_keepalive_secs a)] else []) @
     (if sa_compression a then [lit ''-C''] else []) @
     (if sa_agent_forwarding a then [lit ''-A''] else []) @
     (case sa_x11 a of X11Off \<Rightarrow> [] | X11Untrusted \<Rightarrow> [lit ''-X''] | X11Trusted \<Rightarrow> [lit ''-Y'']) @
     [user_at (sa_user a) @ sa_host a]"

fun double_quotes_out :: "str \<Rightarrow> str" where
  "double_quotes_out [] = []"
| "double_quotes_out (c # cs) = (if c = 39 then [39, 92, 39, 39] else [c]) @ double_quotes_out cs"

definition shell_quote_arg :: "str \<Rightarrow> str" where
  "shell_quote_arg arg =
     (if arg \<noteq> [] \<and> list_all (\<lambda>c. is_alnum c \<or> c \<in> set (lit ''@%+=:,./-_[]~'')) arg then arg
      else 39 # double_quotes_out arg @ [39])"

definition to_command_line :: "ssh_args \<Rightarrow> str" where
  "to_command_line a = join_with (lit '' '') (lit ''ssh'' # map shell_quote_arg (to_args a))"

fun check_hops :: "str list \<Rightarrow> target_error + unit" where
  "check_hops [] = Inr ()"
| "check_hops (hop # hops) = ebind (parse_endpoint hop) (\<lambda>_. check_hops hops)"

definition trim_start :: "str \<Rightarrow> str" where
  "trim_start s = dropWhile is_whitespace s"

definition ssh_check :: "ssh_args \<Rightarrow> target_error + unit" where
  "ssh_check a =
     ebind (check_name (sa_host a)) (\<lambda>_.
     ebind (case sa_user a of Some u \<Rightarrow> check_user u | None \<Rightarrow> Inr ()) (\<lambda>_.
     ebind (check_hops (sa_jump a)) (\<lambda>_.
       case sa_identity_file a of
         Some f \<Rightarrow> if trim_start f \<noteq> [] \<and> hd (trim_start f) = 45 then Inl (BadName f) else Inr ()
       | None \<Rightarrow> Inr ())))"

definition target_ssh_args :: "target \<Rightarrow> ssh_args" where
  "target_ssh_args t =
     \<lparr>sa_user = tg_user t, sa_host = tg_host t, sa_port = tg_port t, sa_jump = tg_jump t, sa_identity_file = None,
      sa_keepalive_secs = 0, sa_compression = False, sa_agent_forwarding = False, sa_x11 = X11Off\<rparr>"

datatype proxy_kind = Socks5 | Http

record proxy_url =
  px_kind :: proxy_kind
  px_host :: str
  px_port :: nat
  px_user :: "str option"

definition split_host_port :: "str \<Rightarrow> target_error + (str \<times> nat option)" where
  "split_host_port s =
     (case strip_prefix [91] s of
        Some inner \<Rightarrow>
          (case split_at_char 93 inner of
             None \<Rightarrow> Inl (BadName s)
           | Some (host, after) \<Rightarrow>
               (case strip_prefix [58] after of
                  Some port \<Rightarrow> ebind (parse_port port) (\<lambda>port. Inr (host, Some port))
                | None \<Rightarrow> if after = [] then Inr (host, None) else Inl (BadName s)))
      | None \<Rightarrow>
          (case rsplit_once 58 s of
             Some (host, port) \<Rightarrow>
               if 58 \<notin> set host then ebind (parse_port port) (\<lambda>port. Inr (host, Some port)) else Inr (s, None)
           | None \<Rightarrow> if s = [] then Inl MissingHost else Inr (s, None)))"

definition parse_proxy :: "str \<Rightarrow> target_error + proxy_url" where
  "parse_proxy s =
     (case split_once (trim s) (lit ''://'') of
        None \<Rightarrow> Inl (UnknownScheme (trim s))
      | Some (scheme, rest) \<Rightarrow>
          let low = to_ascii_lower scheme; rest = trim_end_char 47 rest;
              (user, address) = (case rsplit_once 64 rest of Some (u, a) \<Rightarrow> (Some u, a) | None \<Rightarrow> (None, rest))
          in ebind (if low \<in> {lit ''socks5'', lit ''socks5h'', lit ''socks''} then Inr (Socks5, 1080)
                    else if low = lit ''http'' then Inr (Http, 8080)
                    else Inl (UnknownScheme low)) (\<lambda>(kind, port0).
             ebind (case user of Some u \<Rightarrow> check_user u | None \<Rightarrow> Inr ()) (\<lambda>_.
             ebind (split_host_port address) (\<lambda>(host, port).
             ebind (check_name host) (\<lambda>_.
               Inr \<lparr>px_kind = kind, px_host = host, px_port = (case port of Some p \<Rightarrow> p | None \<Rightarrow> port0),
                    px_user = user\<rparr>)))))"

end
