(* ===== verification/Target_Laws.thy ===== *)
theory Target_Laws
  imports Target
begin

text \<open>
  Laws of quick connect: whatever is typed, no host and, for a network protocol, nothing in the
  arguments of \<open>ssh\<close> is read as an option; a command line for a shell splits back into its arguments;
  and the text of a target that is displayable parses back to it.
\<close>

subsection \<open>Command lines split back\<close>

text \<open>A text that reads as a word, in the middle of a line.\<close>

definition reads_as :: "str \<Rightarrow> str \<Rightarrow> bool" where
  "reads_as q w \<longleftrightarrow> (\<forall>words rest. split_words_from Bare words [] False (q @ rest) = split_words_from Bare words w True rest)"

lemma split_join:
  assumes "list_all2 reads_as qs ws" and "ws \<noteq> []"
  shows "split_words_from Bare words [] False (join_with [32] qs) = Inr (words @ ws)"
  using assms
proof (induction qs ws arbitrary: words rule: list_all2_induct)
  case (Cons q qs w ws)
  show ?case
  proof (cases "qs = []")
    case True
    then have "ws = []" using Cons.hyps(2) by simp
    then show ?thesis using Cons.hyps(1) True unfolding reads_as_def by (metis append.right_neutral
      join_with.simps(2) split_words_from.simps(1))
  next
    case False
    then have "ws \<noteq> []" using Cons.hyps(2) by auto
    have "split_words_from Bare words [] False (q @ 32 # join_with [32] qs) =
        split_words_from Bare (words @ [w]) [] False (join_with [32] qs)"
      using Cons.hyps(1) unfolding reads_as_def by (simp add: is_whitespace_def)
    then show ?thesis using Cons.IH [OF \<open>ws \<noteq> []\<close>, of "words @ [w]"] False by (simp add: join_with_Cons)
  qed
qed simp

definition plain_char :: "uchar \<Rightarrow> bool" where
  "plain_char c \<longleftrightarrow> \<not> is_whitespace c \<and> c \<noteq> 39 \<and> c \<noteq> 34 \<and> c \<noteq> 92"

lemma plain_reads: "w \<noteq> [] \<Longrightarrow> list_all plain_char w \<Longrightarrow> reads_as w w"
proof -
  have "split_words_from Bare words cur b (w @ rest) = split_words_from Bare words (cur @ w) (b \<or> w \<noteq> []) rest"
    if "list_all plain_char w" for words cur b rest
    using that by (induction w arbitrary: cur b) (auto simp: plain_char_def)
  then show "w \<noteq> [] \<Longrightarrow> list_all plain_char w \<Longrightarrow> ?thesis" by (simp add: reads_as_def)
qed

lemma quoted_reads: "reads_as (39 # double_quotes_out w @ [39]) w"
proof -
  have "split_words_from Single words cur True (double_quotes_out w @ 39 # rest) =
      split_words_from Bare words (cur @ w) True rest" for words cur rest
    by (induction w arbitrary: cur) auto
  then show ?thesis by (simp add: reads_as_def)
qed

lemma safe_plain: "is_alnum c \<or> c \<in> set (lit ''@%+=:,./-_[]~'') \<Longrightarrow> plain_char c"
  by (auto simp: is_alnum_def plain_char_def is_whitespace_def lit_def)

lemma shell_quote_arg_reads: "reads_as (shell_quote_arg w) w"
  unfolding shell_quote_arg_def
  using plain_reads [of w] quoted_reads [of w] safe_plain
  by (auto simp: list_all_iff split: if_splits)

text \<open>
  the command line shown for a connection is its arguments. Split the way a shell does, the
  line is \<open>ssh\<close> and exactly the arguments, whatever the names, files and options of the connection are.
\<close>

theorem command_line_splits_back: "split_words (to_command_line a) = Inr (lit ''ssh'' # to_args a)"
proof -
  have "reads_as (lit ''ssh'') (lit ''ssh'')"
    by (rule plain_reads) (simp_all add: lit_def plain_char_def is_whitespace_def)
  moreover have "list_all2 reads_as (map shell_quote_arg (to_args a)) (to_args a)"
    by (simp add: list_all2_map1 list_all2_same shell_quote_arg_reads)
  ultimately have "list_all2 reads_as (lit ''ssh'' # map shell_quote_arg (to_args a)) (lit ''ssh'' # to_args a)" by simp
  from split_join [OF this, of "[]"] show ?thesis by (simp add: split_words_def to_command_line_def lit_def)
qed

subsection \<open>Nothing typed is an option\<close>

definition not_option :: "str \<Rightarrow> bool" where
  "not_option w \<longleftrightarrow> w \<noteq> [] \<and> hd w \<noteq> 45"

lemma check_name_not_option: "check_name h = Inr () \<Longrightarrow> not_option h"
  by (auto simp: check_name_def not_option_def split: if_splits)

lemma check_user_not_option: "check_user u = Inr () \<Longrightarrow> not_option u"
  by (auto simp: check_user_def not_option_def split: if_splits)

lemma parse_port_bounds: "parse_port s = Inr p \<Longrightarrow> 0 < p \<and> p \<le> u16_max"
  by (auto simp: parse_port_def parse_uint_def Let_def split: option.splits if_splits)

lemma endpoint_host_port: "endpoint_host s = Inr (h, Some p) \<Longrightarrow> 0 < p \<and> p \<le> u16_max"
  by (auto simp: endpoint_host_def parse_port_bounds split: option.splits if_splits)

lemma parse_endpoint_ok:
  assumes "parse_endpoint s = Inr (user, host, port)"
  shows "check_name host = Inr ()" and "\<And>u. user = Some u \<Longrightarrow> check_user u = Inr ()"
    and "\<And>p. port = Some p \<Longrightarrow> 0 < p \<and> p \<le> u16_max"
  using assms endpoint_host_port
  by (auto simp: parse_endpoint_def Let_def split: option.splits if_splits)

text \<open>Decoding keeps a dash in front.\<close>

lemma lenient_decode_dash: "\<exists>bs'. lenient_decode (45 # bs) = 45 # bs'"
proof -
  consider "bs = []" | b where "bs = [b]" | b c cs where "bs = b # c # cs" by (cases bs; cases "tl bs") auto
  then show ?thesis by cases (auto split: option.split)
qed

lemma url_decode_dash: "hd (url_decode (45 # s)) = 45"
proof -
  obtain bs where "lenient_decode (utf8 (45 # s)) = 45 # bs"
    using lenient_decode_dash [of "utf8 s"] by (auto simp: utf8_ascii)
  then show ?thesis
    by (auto simp: url_decode_def from_utf8_def from_utf8_lossy.simps(2) word_less_nat_alt split: option.split if_splits)
qed

lemma rsplit_hd: "rsplit_once c s = Some (a, b) \<Longrightarrow> a \<noteq> [] \<Longrightarrow> s \<noteq> [] \<and> hd s = hd a"
  by (auto dest!: rsplit_onceD)

lemma endpoint_host_hd:
  assumes "endpoint_host s = Inr (h, p)" and "not_option h"
  shows "not_option s"
proof (cases s)
  case (Cons c cs)
  then show ?thesis
    using assms rsplit_hd [of 58 s h]
    by (auto simp: endpoint_host_def not_option_def strip_prefix_def split: option.splits if_splits)
qed (use assms in \<open>simp add: endpoint_host_def strip_prefix_def rsplit_once_def split_at_char_def not_option_def\<close>)

lemma parse_endpoint_not_option:
  assumes "parse_endpoint s = Inr r"
  shows "not_option s"
proof (cases "rsplit_once 64 s")
  case None
  then show ?thesis
    using assms check_name_not_option endpoint_host_hd [of s]
    by (auto simp: parse_endpoint_def split: if_splits)
next
  case (Some ur)
  obtain user rest where ur: "ur = (user, rest)" by (rule prod.exhaust)
  have ok: "not_option (url_decode (hd (split_on 59 user)))"
    using assms Some ur check_user_not_option by (auto simp: parse_endpoint_def Let_def split: if_splits)
  have s: "s = user @ 64 # rest" using Some ur by (auto dest!: rsplit_onceD)
  show ?thesis
  proof (cases user)
    case (Cons c cs)
    have "c \<noteq> 45"
    proof
      assume "c = 45"
      then obtain t where "hd (split_on 59 user) = 45 # t"
        using Cons by (cases "split_on 59 cs") auto
      then show False using ok url_decode_dash by (simp add: not_option_def)
    qed
    then show ?thesis using s Cons by (simp add: not_option_def)
  qed (simp add: s not_option_def)
qed

definition jump_ok :: "str \<Rightarrow> bool" where
  "jump_ok j \<longleftrightarrow> (case parse_endpoint j of Inr _ \<Rightarrow> True | Inl _ \<Rightarrow> False)"

lemma jump_ok_iff: "jump_ok j \<longleftrightarrow> (\<exists>r. parse_endpoint j = Inr r)"
  by (auto simp: jump_ok_def split: sum.splits)

lemma parse_jumps_ok: "parse_jumps items jump = Inr jump' \<Longrightarrow> list_all jump_ok jump \<Longrightarrow> list_all jump_ok jump'"
  by (induction items arbitrary: jump) (auto simp: jump_ok_iff split: if_splits)

lemma jumps_not_option:
  assumes "list_all jump_ok jump" and "jump \<noteq> []"
  shows "not_option (join_with (lit '','') jump)"
proof -
  have ok: "not_option (hd jump)"
    using assms parse_endpoint_not_option [of "hd jump"] by (cases jump) (auto simp: jump_ok_iff)
  then show ?thesis using hd_join_with [OF assms(2)] assms(2)
    by (cases jump rule: list.exhaust) (auto simp: not_option_def join_with_Nil_iff,
      (metis append_is_Nil_conv join_with.simps(2) join_with_Cons)+)
qed

lemma check_hops_ok: "list_all jump_ok hops \<Longrightarrow> check_hops hops = Inr ()"
  by (induction hops) (auto simp: jump_ok_iff)

text \<open>What the options put aside.\<close>

definition typed_ok :: "typed \<Rightarrow> bool" where
  "typed_ok o' \<longleftrightarrow> list_all jump_ok (ty_jump o') \<and> (\<forall>p. ty_port o' = Some p \<longrightarrow> 0 < p \<and> p \<le> u16_max) \<and>
     (\<forall>u. ty_user o' = Some u \<longrightarrow> check_user u = Inr ())"

lemma apply_option_ok: "typed_ok o' \<Longrightarrow> apply_option name v o' = Inr o'' \<Longrightarrow> typed_ok o''"
  by (auto simp: apply_option_def typed_ok_def parse_jump_def split: if_splits
    dest: parse_jumps_ok parse_port_bounds)

lemma parse_options_ok: "parse_options words o' = Inr o'' \<Longrightarrow> typed_ok o' \<Longrightarrow> typed_ok o''"
proof (induction "length words" arbitrary: words o' rule: less_induct)
  case less
  note opt = apply_option_ok [OF less.prems(2)]
  have push: "typed_ok (o'\<lparr>ty_positional := ws\<rparr>)" for ws using less.prems(2) by (simp add: typed_ok_def)
  show ?case
  proof (cases words)
    case (Cons word ws)
    consider "word = []" | d where "word = [d]" | d name inline where "word = d # name # inline" "d \<noteq> 45"
      | name inline where "word = 45 # name # inline" by (cases word; cases "tl word") auto
    then show ?thesis
    proof cases
      case 4
      then obtain v vs o1 where "apply_option name v o' = Inr o1" "parse_options vs o1 = Inr o''" "length vs < length words"
        using less.prems(1) Cons by (auto split: if_splits list.splits)
      then show ?thesis using less.hyps opt by blast
    qed (use less.prems(1) less.hyps [of ws] Cons push in simp_all)
  qed (use less.prems in simp)
qed

definition port_ok :: "nat option \<Rightarrow> bool" where
  "port_ok port \<longleftrightarrow> (case port of Some p \<Rightarrow> 0 < p \<and> p \<le> u16_max | None \<Rightarrow> True)"

definition user_ok :: "str option \<Rightarrow> bool" where
  "user_ok user \<longleftrightarrow> (case user of Some u \<Rightarrow> check_user u = Inr () | None \<Rightarrow> True)"

definition target_ok :: "target \<Rightarrow> bool" where
  "target_ok t \<longleftrightarrow> not_option (tg_host t) \<and>
     (is_network (tg_protocol t) \<longrightarrow> check_name (tg_host t) = Inr () \<and> user_ok (tg_user t) \<and> port_ok (tg_port t) \<and>
        list_all jump_ok (tg_jump t))"

lemma endpoint_target_ok:
  assumes "parse_endpoint s = Inr (user, host, port)"
  shows "target_ok (target_default\<lparr>tg_protocol := p, tg_user := user, tg_host := host, tg_port := port\<rparr>)"
  using parse_endpoint_ok [OF assms] check_name_not_option
  by (auto simp: target_ok_def user_ok_def port_ok_def target_default_def split: option.split)

lemma is_name_not_option: "is_name h \<Longrightarrow> not_option h"
  by (simp add: is_name_def not_option_def)

lemma parse_serial_ok: "parse_serial s = Inr t \<Longrightarrow> target_ok t"
  by (auto simp: parse_serial_def Let_def split_beta target_ok_def not_option_def is_network_def split: if_splits)

lemma parse_s3_ok: "parse_s3 s tls = Inr t \<Longrightarrow> target_ok t"
  by (cases tls) (auto simp: parse_s3_def Let_def split_beta target_ok_def not_option_def is_network_def lit_def
    split: sum.splits)

lemma parse_container_ok: "parse_container scheme s = Inr t \<Longrightarrow> target_ok t"
  by (auto simp: parse_container_def parse_kube_def parse_docker_def Let_def split_beta target_ok_def is_network_def
    is_name_not_option split: if_splits)

lemma parse_first_ok:
  assumes "parse_first protocol first = Inr t"
  shows "target_ok t"
proof -
  have "target_ok t" if "parse_url scheme rest = Inr t" for scheme rest
    using that endpoint_target_ok by (auto simp: parse_url_def split: option.splits if_splits)
  then show ?thesis
    using assms endpoint_target_ok
    by (auto simp: parse_first_def parse_serial_ok parse_s3_ok parse_container_ok split: option.splits)
qed

lemma telnet_port_ok: "telnet_port t words = Inr (t', rest) \<Longrightarrow> target_ok t \<Longrightarrow> target_ok t'"
  by (auto simp: telnet_port_def target_ok_def port_ok_def split: list.splits if_splits dest: parse_port_bounds)

lemma vnc_display_ok: "target_ok t \<Longrightarrow> target_ok (vnc_display t)"
  by (auto simp: vnc_display_def target_ok_def port_ok_def u16_max_def split: option.splits)

lemma apply_typed_ok: "typed_ok o' \<Longrightarrow> target_ok t \<Longrightarrow> target_ok (apply_typed o' t)"
  by (auto simp: apply_typed_def target_ok_def typed_ok_def user_ok_def port_ok_def split: option.splits)

text \<open>The steps of a parse that succeeds.\<close>

lemma target_parseD:
  assumes "target_parse s = Inr t"
  obtains words o' first others t1 t2 where "split_words (trim s) = Inr words"
    and "parse_options (snd (leading_program words)) typed_start = Inr o'" and "ty_positional o' = first # others"
    and "parse_first (fst (leading_program words)) first = Inr t1" and "telnet_port t1 others = Inr (t2, [])"
    and "t = apply_typed o' (vnc_display t2)"
proof -
  obtain words o' where w: "split_words (trim s) = Inr words"
    "parse_options (snd (leading_program words)) typed_start = Inr o'"
    using assms by (auto simp: target_parse_def split_beta)
  then show thesis
    using assms that by (cases "ty_positional o'") (auto simp: target_parse_def Let_def split_beta split: if_splits)
qed

lemma target_parse_ok:
  assumes "target_parse s = Inr t"
  shows "target_ok t"
proof -
  obtain words o' first others t1 t2 where
    p: "parse_options (snd (leading_program words)) typed_start = Inr o'"
      "parse_first (fst (leading_program words)) first = Inr t1" "telnet_port t1 others = Inr (t2, [])"
      "t = apply_typed o' (vnc_display t2)"
    using target_parseD [OF assms] by metis
  have "typed_ok o'" using parse_options_ok [OF p(1)] by (simp add: typed_ok_def typed_start_def)
  moreover have "target_ok (vnc_display t2)"
    using telnet_port_ok [OF p(3) parse_first_ok [OF p(2)]] by (rule vnc_display_ok)
  ultimately show ?thesis using p(4) apply_typed_ok by simp
qed

text \<open>
  C38: nothing typed into quick connect is read as an option. Whatever the text, a target parsed from
  it has a host that does not start with a dash; for a network protocol the arguments for \<open>ssh\<close> pass
  their own check, the destination and the list of jump hosts do not start with a dash, and the port is
  between 1 and 65535.
\<close>

theorem quick_connect_no_options:
  assumes "target_parse s = Inr t"
  shows "not_option (tg_host t) \<and>
    (is_network (tg_protocol t) \<longrightarrow>
       ssh_check (target_ssh_args t) = Inr () \<and> port_ok (tg_port t) \<and>
       not_option (last (to_args (target_ssh_args t))) \<and>
       (tg_jump t \<noteq> [] \<longrightarrow> not_option (join_with (lit '','') (tg_jump t))))"
proof -
  have ok: "target_ok t" using assms by (rule target_parse_ok)
  have "ssh_check (target_ssh_args t) = Inr ()" if "is_network (tg_protocol t)"
    using ok that check_hops_ok
    by (auto simp: target_ok_def ssh_check_def target_ssh_args_def user_ok_def split: option.splits)
  moreover have "not_option (user_at (tg_user t) @ tg_host t)" if "is_network (tg_protocol t)"
    using ok that check_user_not_option
    by (fastforce simp: target_ok_def user_ok_def user_at_def not_option_def split: option.splits)
  then have "not_option (last (to_args (target_ssh_args t)))" if "is_network (tg_protocol t)"
    using that by (simp add: to_args_def target_ssh_args_def)
  ultimately show ?thesis using ok jumps_not_option by (auto simp: target_ok_def)
qed

subsection \<open>The text of a target parses back\<close>

text \<open>Characters that a user, a host and a jump host may have, for the text to be read as it was meant.\<close>

definition user_char :: "uchar \<Rightarrow> bool" where
  "user_char c \<longleftrightarrow> plain_char c \<and> \<not> is_control c \<and> scalar c \<and> c \<notin> {47, 63, 35, 59, 37}"

definition host_char :: "uchar \<Rightarrow> bool" where
  "host_char c \<longleftrightarrow> plain_char c \<and> \<not> is_control c \<and> c \<notin> {64, 47, 63, 35, 91, 93}"

definition jump_plain :: "str \<Rightarrow> bool" where
  "jump_plain j \<longleftrightarrow> jump_ok j \<and> list_all (\<lambda>c. plain_char c \<and> c \<noteq> 44) j"

definition endpoint_text :: "target \<Rightarrow> str" where
  "endpoint_text t =
     user_at (tg_user t) @ bracket_ipv6 (tg_host t) @ (case tg_port t of None \<Rightarrow> [] | Some p \<Rightarrow> 58 # decimal p)"

definition first_word :: "target \<Rightarrow> str" where
  "first_word t =
     (if tg_protocol t \<noteq> PSsh then protocol_str (tg_protocol t) @ lit ''://'' else []) @ endpoint_text t"

definition displayable :: "target \<Rightarrow> bool" where
  "displayable t \<longleftrightarrow> is_network (tg_protocol t) \<and> port_ok (tg_port t) \<and>
     t = target_default\<lparr>tg_protocol := tg_protocol t, tg_user := tg_user t, tg_host := tg_host t, tg_port := tg_port t,
           tg_jump := tg_jump t\<rparr> \<and>
     (case tg_user t of Some u \<Rightarrow> not_option u \<and> list_all user_char u | None \<Rightarrow> True) \<and>
     not_option (tg_host t) \<and> list_all host_char (tg_host t) \<and>
     list_all jump_plain (tg_jump t) \<and>
     (tg_protocol t = PVnc \<longrightarrow> (\<forall>p. tg_port t = Some p \<longrightarrow> 100 \<le> p)) \<and>
     (tg_protocol t = PSsh \<longrightarrow>
        to_ascii_lower (endpoint_text t) \<notin> {lit ''ssh'', lit ''mosh'', lit ''telnet''} \<and>
        \<not> starts_with (endpoint_text t) (lit ''serial:''))"

lemma lenient_id: "37 \<notin> set bs \<Longrightarrow> lenient_decode bs = bs"
  by (induction bs rule: lenient_decode.induct) (auto split: option.splits)

lemma utf8_char_37: "scalar c \<Longrightarrow> c \<noteq> 37 \<Longrightarrow> 37 \<notin> set (utf8_char c)"
  using utf8_char_low [of 37 c] by auto

lemma url_decode_plain: "list_all user_char u \<Longrightarrow> url_decode u = u"
proof -
  assume u: "list_all user_char u"
  have "37 \<notin> set (utf8 u)" using u by (induction u) (auto simp: user_char_def dest!: utf8_char_37)
  moreover have "list_all scalar u" using u by (auto simp: list_all_iff user_char_def)
  ultimately show ?thesis by (simp add: url_decode_def lenient_id from_utf8_utf8)
qed

lemma parse_port_decimal: "0 < p \<Longrightarrow> p \<le> u16_max \<Longrightarrow> parse_port (decimal p) = Inr p"
  by (simp add: parse_port_def parse_uint_decimal)

lemma decimal_plain: "c \<in> set (decimal p) \<Longrightarrow> plain_char c \<and> c \<noteq> 58 \<and> c \<noteq> 64 \<and> c \<notin> {47, 63, 35}"
  using decimal_digits [of c p] by (auto simp: plain_char_def is_whitespace_def)

lemma endpoint_host_text:
  assumes "list_all host_char h" and "h \<noteq> []" and "port_ok port"
  shows "endpoint_host (bracket_ipv6 h @ (case port of None \<Rightarrow> [] | Some p \<Rightarrow> 58 # decimal p)) = Inr (h, port)"
proof -
  have no: "91 \<notin> set h" "93 \<notin> set h" using assms(1) by (auto simp: list_all_iff host_char_def)
  have pt: "parse_port (decimal p) = Inr p" if "port = Some p" for p
    using that assms(3) parse_port_decimal by (simp add: port_ok_def)
  have hd91: "hd h \<noteq> 91" using no(1) assms(2) by (metis hd_in_set)
  show ?thesis
  proof (cases "58 \<in> set h")
    case True
    then have b: "bracket_ipv6 h = 91 # h @ [93]" using hd91 by (simp add: bracket_ipv6_def)
    show ?thesis
      using split_at_char_at [OF no(2)] pt unfolding b
      by (auto simp: endpoint_host_def strip_prefix_def split: option.splits)
  next
    case False
    then have b: "bracket_ipv6 h = h" by (simp add: bracket_ipv6_def)
    have s: "strip_prefix [91] (h @ r) = None" for r
      using hd91 assms(2) by (cases h) (simp_all add: strip_prefix_def)
    have c: "count_list h 58 = 0" using False by (simp add: count_list_0_iff)
    show ?thesis
    proof (cases port)
      case None
      then show ?thesis
        using s [of "[]"] c rsplit_once_none [OF False] unfolding b by (simp add: endpoint_host_def)
    next
      case (Some p)
      have "58 \<notin> set (decimal p)" using decimal_plain by blast
      then show ?thesis
        using Some s c pt rsplit_once_at [of 58 "decimal p" h] unfolding b
        by (simp add: endpoint_host_def count_list_append count_list_0_iff)
    qed
  qed
qed

lemma displayableD:
  assumes "displayable t"
  shows "is_network (tg_protocol t)" "port_ok (tg_port t)" "not_option (tg_host t)" "list_all host_char (tg_host t)"
    "list_all jump_plain (tg_jump t)" "\<And>u. tg_user t = Some u \<Longrightarrow> not_option u \<and> list_all user_char u"
    "target_default\<lparr>tg_protocol := tg_protocol t, tg_user := tg_user t, tg_host := tg_host t, tg_port := tg_port t,
           tg_jump := tg_jump t\<rparr> = t"
  using assms by (auto simp: displayable_def split: option.splits)

lemma host_checks: "not_option h \<Longrightarrow> list_all host_char h \<Longrightarrow> check_name h = Inr ()"
  by (auto simp: check_name_def not_option_def host_char_def plain_char_def list_all_iff list_ex_iff)

lemma user_checks: "not_option u \<Longrightarrow> list_all user_char u \<Longrightarrow> check_user u = Inr ()"
  by (auto simp: check_user_def not_option_def user_char_def plain_char_def list_all_iff list_ex_iff)

lemma bracket_chars: "c \<in> set (bracket_ipv6 h) \<Longrightarrow> c \<in> set h \<or> c = 91 \<or> c = 93"
  by (auto simp: bracket_ipv6_def split: if_splits)

lemma endpoint_chars:
  assumes "displayable t" and "c \<in> set (endpoint_text t)"
  shows "plain_char c \<and> c \<notin> {47, 63, 35}"
proof -
  have "user_char c \<or> host_char c \<or> c \<in> {64, 91, 93, 58} \<or> (\<exists>p. c \<in> set (decimal p))"
    using assms displayableD(4,6) [OF assms(1)]
    by (cases "tg_user t")
       (auto simp: endpoint_text_def user_at_def list_all_iff dest!: bracket_chars split: option.splits)
  then show ?thesis
    using decimal_plain by (auto simp: user_char_def host_char_def plain_char_def is_whitespace_def)
qed

lemma parse_endpoint_text:
  assumes "displayable t"
  shows "parse_endpoint (endpoint_text t) = Inr (tg_user t, tg_host t, tg_port t)"
proof -
  note d = displayableD [OF assms]
  let ?rest = "bracket_ipv6 (tg_host t) @ (case tg_port t of None \<Rightarrow> [] | Some p \<Rightarrow> 58 # decimal p)"
  have host: "endpoint_host ?rest = Inr (tg_host t, tg_port t)"
    using endpoint_host_text [OF d(4) _ d(2)] d(3) by (simp add: not_option_def)
  have ok: "check_name (tg_host t) = Inr ()" "tg_host t \<noteq> []" using host_checks [OF d(3,4)] d(3) by (auto simp: not_option_def)
  have no: "64 \<notin> set ?rest"
    using d(4) decimal_plain by (auto simp: list_all_iff host_char_def dest!: bracket_chars split: option.splits)
  show ?thesis
  proof (cases "tg_user t")
    case None
    then show ?thesis using rsplit_once_none [OF no] host ok
      by (simp add: parse_endpoint_def endpoint_text_def user_at_def)
  next
    case (Some u)
    then have u: "not_option u" "list_all user_char u" using d(6) by auto
    have "59 \<notin> set u" using u(2) by (auto simp: list_all_iff user_char_def)
    then show ?thesis
      using Some rsplit_once_at [OF no, of u] host ok url_decode_plain [OF u(2)] user_checks [OF u]
      by (simp add: parse_endpoint_def endpoint_text_def user_at_def split_on_none)
  qed
qed

lemma endpoint_not_option: "displayable t \<Longrightarrow> not_option (endpoint_text t)"
  using parse_endpoint_text parse_endpoint_not_option by blast

lemma no_scheme: "47 \<notin> set s \<Longrightarrow> split_once s (lit ''://'') = None"
proof (induction s)
  case (Cons c s)
  have "\<not> starts_with (c # s) (lit ''://'')"
  proof
    assume "starts_with (c # s) (lit ''://'')"
    then have "47 \<in> set (take (length (lit ''://'')) (c # s))"
      by (simp only: starts_with_def) (simp add: lit_def)
    then show False using Cons.prems by (auto dest: in_set_takeD)
  qed
  then show ?case using Cons by simp
qed (simp add: lit_def)

lemma network_cases: "is_network p \<Longrightarrow> p \<in> {PSsh, PSftp, PMosh, PTelnet, PRdp, PVnc}"
  by (cases p) (simp_all add: is_network_def)

lemma protocol_parse_str: "protocol_parse (protocol_str p) = Some p"
proof -
  have "trim (protocol_str p) = protocol_str p"
    by (rule trim_fix, cases p) (simp_all add: lit_def is_whitespace_def)
  then show ?thesis
    by (cases p) (simp_all add: protocol_parse_def ALL_PROTOCOLS_def eq_ignore_ascii_case_def to_ascii_lower_def lit_def)
qed

lemma strip_starts: "strip_prefix p s = None \<longleftrightarrow> \<not> starts_with s p"
  by (simp add: strip_prefix_def starts_with_def)

lemma starts_with_slash: "starts_with s p \<Longrightarrow> 47 \<in> set p \<Longrightarrow> 47 \<in> set s"
  by (metis in_set_takeD starts_with_def)

lemma parse_first_ssh:
  assumes "displayable t" and "tg_protocol t = PSsh"
  shows "parse_first None (first_word t) = Inr (t\<lparr>tg_jump := []\<rparr>)"
proof -
  have w: "first_word t = endpoint_text t" using assms(2) by (simp add: first_word_def)
  have no: "47 \<notin> set (endpoint_text t)" using endpoint_chars [OF assms(1), of 47] by auto
  have nosw: "\<not> starts_with (endpoint_text t) p" if "47 \<in> set p" for p using no starts_with_slash that by blast
  have "strip_prefix (lit ''serial:'') (endpoint_text t) = None"
    using assms by (simp add: strip_starts displayable_def)
  moreover have "strip_prefix (lit ''s3://'') (endpoint_text t) = None"
    "strip_prefix (lit ''s3+http://'') (endpoint_text t) = None"
    by (simp_all add: strip_starts nosw lit_def)
  moreover have "container_scheme (endpoint_text t) = None"
    by (simp add: container_scheme_def nosw lit_def)
  moreover have "t\<lparr>tg_jump := []\<rparr> = target_default\<lparr>tg_protocol := PSsh, tg_user := tg_user t, tg_host := tg_host t, tg_port := tg_port t\<rparr>"
    by (subst displayableD(7) [OF assms(1), symmetric]) (simp add: assms(2) target_default_def)
  ultimately show ?thesis
    using parse_endpoint_text [OF assms(1)] no_scheme [OF no] by (simp add: parse_first_def w)
qed

lemma split_once_scheme:
  "58 \<notin> set a \<Longrightarrow> split_once (a @ lit ''://'' @ b) (lit ''://'') = Some (a, b)"
proof (induction a)
  case (Cons c a)
  then have "\<not> starts_with (c # a @ lit ''://'' @ b) (lit ''://'')" by (auto simp: starts_with_def lit_def)
  with Cons show ?case by simp
qed (simp add: lit_def starts_with_def)

lemma parse_first_url:
  assumes "displayable t" and "tg_protocol t \<noteq> PSsh"
  shows "parse_first p (first_word t) = Inr (t\<lparr>tg_jump := []\<rparr>)"
proof -
  let ?n = "protocol_str (tg_protocol t)" and ?e = "endpoint_text t"
  have w: "first_word t = ?n @ lit ''://'' @ ?e" using assms(2) by (simp add: first_word_def)
  note pr = network_cases [OF displayableD(1) [OF assms(1)]]
  have "strip_prefix (lit ''serial:'') (first_word t) = None" "strip_prefix (lit ''s3://'') (first_word t) = None"
    "strip_prefix (lit ''s3+http://'') (first_word t) = None" "container_scheme (first_word t) = None" "58 \<notin> set ?n"
    using pr assms(2) by (auto simp: w strip_prefix_def lit_def container_scheme_def starts_with_def)
  moreover from this(5) have "split_once (first_word t) (lit ''://'') = Some (?n, ?e)"
    unfolding w by (rule split_once_scheme)
  moreover have "takeWhile (\<lambda>c. c \<notin> {47, 63, 35}) ?e = ?e"
    using endpoint_chars [OF assms(1)] by (auto simp: takeWhile_eq_all_conv)
  moreover have "t\<lparr>tg_jump := []\<rparr> =
      target_default\<lparr>tg_protocol := tg_protocol t, tg_user := tg_user t, tg_host := tg_host t, tg_port := tg_port t\<rparr>"
    by (subst displayableD(7) [OF assms(1), symmetric]) (simp add: target_default_def)
  ultimately show ?thesis
    using parse_endpoint_text [OF assms(1)] displayableD(1) [OF assms(1)]
    by (simp add: parse_first_def parse_url_def protocol_parse_str del: takeWhile_eq_all_conv)
qed

lemma first_word_plain:
  assumes "displayable t"
  shows "list_all plain_char (first_word t)" and "not_option (first_word t)"
proof -
  note pr = network_cases [OF displayableD(1) [OF assms]]
  have e: "list_all plain_char (endpoint_text t)" using endpoint_chars [OF assms] by (auto simp: list_all_iff)
  have "list_all plain_char (protocol_str (tg_protocol t) @ lit ''://'')"
    "hd (protocol_str (tg_protocol t) @ lit ''://'') \<noteq> 45" "protocol_str (tg_protocol t) \<noteq> []"
    using pr by (auto simp: lit_def plain_char_def is_whitespace_def)
  then show "list_all plain_char (first_word t)" "not_option (first_word t)"
    using e endpoint_not_option [OF assms] by (auto simp: first_word_def not_option_def)
qed

lemma leading_first_word:
  assumes "displayable t"
  shows "leading_program (first_word t # ws) = (None, first_word t # ws)"
proof (cases "tg_protocol t = PSsh")
  case True
  then show ?thesis using assms by (auto simp: leading_program_def first_word_def displayable_def)
next
  case False
  then have "47 \<in> set (to_ascii_lower (first_word t))" by (simp add: first_word_def to_ascii_lower_def lit_def)
  then have "to_ascii_lower (first_word t) \<notin> {lit ''ssh'', lit ''mosh'', lit ''telnet''}" by (auto simp: lit_def)
  then show ?thesis by (simp add: leading_program_def)
qed

lemma parse_jumps_plain:
  "list_all jump_plain js \<Longrightarrow> parse_jumps js jump = Inr (jump @ js)"
proof (induction js arbitrary: jump)
  case (Cons j js)
  then obtain r where r: "parse_endpoint j = Inr r" and pl: "list_all plain_char j"
    by (auto simp: jump_plain_def jump_ok_iff list_all_iff)
  have "j \<noteq> []" using parse_endpoint_not_option [OF r] by (simp add: not_option_def)
  then have "trim j = j" using pl by (intro trim_fix) (auto simp: plain_char_def list_all_iff)
  with Cons r \<open>j \<noteq> []\<close> show ?case by simp
qed simp

lemma parse_jump_join:
  assumes "list_all jump_plain js" and "js \<noteq> []"
  shows "parse_jump (join_with (lit '','') js) [] = Inr js"
proof -
  have "split_on 44 (join_with [44] js) = js"
    by (rule split_on_join) (use assms in \<open>auto simp: jump_plain_def list_all_iff\<close>)
  then show ?thesis using parse_jumps_plain [OF assms(1), of "[]"] by (simp add: parse_jump_def lit_def)
qed

lemma options_first:
  assumes "not_option w"
  shows "parse_options (w # ws) o' = parse_options ws (o'\<lparr>ty_positional := ty_positional o' @ [w]\<rparr>)"
  using assms by (cases w rule: list.exhaust; cases "tl w") (auto simp: not_option_def)

definition display_words :: "target \<Rightarrow> str list" where
  "display_words t =
     first_word t # (if tg_jump t = [] then [] else [lit ''-J'', join_with (lit '','') (tg_jump t)])"

lemma join_chars: "c \<in> set (join_with sep ws) \<Longrightarrow> c \<in> set sep \<or> (\<exists>w \<in> set ws. c \<in> set w)"
  by (induction sep ws rule: join_with.induct) auto

lemma jump_text_plain:
  assumes "list_all jump_plain js" and "js \<noteq> []"
  shows "list_all plain_char (join_with (lit '','') js)" and "join_with (lit '','') js \<noteq> []"
proof -
  have "list_all plain_char (join_with (lit '','') js)"
    using assms(1) join_chars [of _ "lit '',''" js]
    by (auto simp: jump_plain_def list_all_iff) (fastforce simp: lit_def plain_char_def is_whitespace_def)
  moreover have "not_option (join_with (lit '','') js)"
    by (rule jumps_not_option) (use assms in \<open>auto simp: jump_plain_def list_all_iff\<close>)
  ultimately show "list_all plain_char (join_with (lit '','') js)" "join_with (lit '','') js \<noteq> []"
    by (auto simp: not_option_def)
qed

lemma display_words_plain:
  assumes "displayable t"
  shows "\<forall>w \<in> set (display_words t). w \<noteq> [] \<and> list_all plain_char w"
  using first_word_plain [OF assms] jump_text_plain [OF displayableD(5) [OF assms]]
  by (auto simp: display_words_def not_option_def lit_def plain_char_def is_whitespace_def)

lemma target_display_words:
  "is_network (tg_protocol t) \<Longrightarrow> target_display t = join_with [32] (display_words t)"
  using network_cases [of "tg_protocol t"]
  by (auto simp: target_display_def display_words_def first_word_def endpoint_text_def lit_def)

lemma split_display:
  assumes "displayable t"
  shows "split_words (trim (target_display t)) = Inr (display_words t)"
proof -
  let ?ws = "display_words t"
  have pl: "\<forall>w \<in> set ?ws. w \<noteq> [] \<and> list_all plain_char w" by (rule display_words_plain [OF assms])
  have d: "target_display t = join_with [32] ?ws" using displayableD(1) [OF assms] by (rule target_display_words)
  have "plain_char (hd (target_display t))" "plain_char (last (target_display t))"
  proof -
    have "hd (join_with [32] ?ws) = hd (hd ?ws)" using pl by (intro hd_join_with) (auto simp: display_words_def)
    then show "plain_char (hd (target_display t))" using pl d by (auto simp: display_words_def list_all_iff)
    have "last (join_with [32] ?ws) = last (last ?ws)"
      using pl by (auto simp: display_words_def lit_def)
    then show "plain_char (last (target_display t))"
      using pl d by (auto simp: display_words_def list_all_iff)
  qed
  then have "trim (target_display t) = join_with [32] ?ws"
    unfolding d [symmetric] by (intro trim_fix) (simp add: plain_char_def)
  moreover have "list_all2 reads_as ?ws ?ws" using pl plain_reads by (auto simp: list_all2_same)
  ultimately show ?thesis
    using split_join [of ?ws ?ws "[]"] by (simp add: split_words_def display_words_def)
qed

lemma parse_display:
  assumes "displayable t"
  shows "target_parse (target_display t) = Inr t"
proof -
  let ?t = "t\<lparr>tg_jump := []\<rparr>"
  have lead: "leading_program (display_words t) = (None, display_words t)"
    using leading_first_word [OF assms] by (simp add: display_words_def)
  have opts: "parse_options (display_words t) typed_start =
      Inr (typed_start\<lparr>ty_positional := [first_word t], ty_jump := tg_jump t\<rparr>)"
    using options_first [OF first_word_plain(2) [OF assms]] parse_jump_join [OF displayableD(5) [OF assms]]
    by (cases "tg_jump t = []")
       (auto simp: display_words_def typed_start_def lit_def apply_option_def)
  have first: "parse_first None (first_word t) = Inr ?t"
    using parse_first_ssh [OF assms] parse_first_url [OF assms] by (cases "tg_protocol t = PSsh") auto
  have vnc: "vnc_display ?t = ?t"
    using assms by (auto simp: vnc_display_def displayable_def split: option.splits)
  have net: "tg_protocol t \<notin> {PSerial, PDocker, PKube, PS3}"
    using network_cases [OF displayableD(1) [OF assms]] by auto
  have "apply_typed (typed_start\<lparr>ty_positional := [first_word t], ty_jump := tg_jump t\<rparr>) ?t = t"
    using net by (simp add: apply_typed_def typed_start_def)
  then show ?thesis
    using split_display [OF assms] lead opts first vnc
    by (simp add: target_parse_def telnet_port_def typed_start_def)
qed

text \<open>
  C39: the text of a displayable target parses back to it. For every network protocol, with or without
  a user, a port and jump hosts, and with an IPv6 address in brackets: the canonical text gives the
  very target. Displayable (\<open>displayable\<close>) means: the target has nothing else that is not the
  default; user and host do not start with a dash; jump hosts parse and have no comma; the names have
  none of the characters that the text gives a meaning (control characters, quotes, backslashes and
  white space; in user and host a slash, question mark or hash; in the user a percent sign or
  semicolon; in the host an at sign or brackets); a VNC port is at least 100, as a smaller one is read
  as a display number; and the endpoint of an ssh target is not \<open>ssh\<close>, \<open>mosh\<close> or \<open>telnet\<close> and does not
  start with \<open>serial:\<close>. Targets beyond it need not parse back: see the lemmas at the end.
\<close>

theorem target_text_roundtrip:
  assumes "displayable t"
  shows "target_parse (target_display t) = Inr t"
  using assms by (rule parse_display)

definition gate_target :: target where
  "gate_target = target_default\<lparr>tg_protocol := PTelnet, tg_user := Some (lit ''root''), tg_host := lit ''::1'',
     tg_port := Some 2323, tg_jump := [lit ''gate'']\<rparr>"

lemma gate_displayable: "displayable gate_target"
  by (simp add: displayable_def gate_target_def target_default_def is_network_def port_ok_def u16_max_def lit_def
    not_option_def user_char_def host_char_def plain_char_def is_whitespace_def is_control_def scalar_def
    jump_plain_def jump_ok_def parse_endpoint_def rsplit_once_def split_at_char_def endpoint_host_def strip_prefix_def
    check_name_def)

theorem target_text_roundtrip_witness: "target_parse (target_display gate_target) = Inr gate_target"
  by (rule target_text_roundtrip) (rule gate_displayable)

theorem quick_connect_no_options_witness:
  "ssh_check (target_ssh_args gate_target) = Inr () \<and> not_option (last (to_args (target_ssh_args gate_target)))"
  using quick_connect_no_options [OF parse_display [OF gate_displayable]]
  by (simp add: gate_target_def is_network_def)

text \<open>Targets that were parsed and whose text does not parse back to them.\<close>

lemma user_not_shown_decoded:
  "url_decode (lit ''%41'') = lit ''A''"
  by (simp add: url_decode_def lit_def utf8_char_def hex_of_def from_utf8_def from_utf8_lossy.simps(2))

lemma host_named_serial:
  "parse_first None (target_display (target_default\<lparr>tg_host := lit ''serial'', tg_port := Some 22\<rparr>)) =
     Inr (target_default\<lparr>tg_protocol := PSerial, tg_host := lit ''22''\<rparr>)"
  by (simp add: target_display_def target_default_def user_at_def bracket_ipv6_def lit_def decimal.simps parse_first_def
    strip_prefix_def trim_start_matches_def parse_serial_def cut_query_def split_at_char_def trim_fix is_whitespace_def
    url_decode_def utf8_char_def from_utf8_def from_utf8_lossy.simps(2) query_pairs_def)

end
