(* ===== verification/Fsutil.thy ===== *)
theory Fsutil
  imports World Texts
begin

text \<open>
  Crash-safe file writes (\<open>crates/opensesh-core/src/fsutil.rs\<close>), as the Unix build has them: the
  write through symbolic links to a temporary file that is renamed over the target, and the
  rotated backups.

  A path is what \<open>Path::components\<close> sees of it. A disk maps a path to a file or to a symbolic link;
  folders are only part of paths, and the folders on the way are no links. \<open>outages\<close> decides the
  system calls to come, in order: \<open>Some k\<close> is a call that fails, for a write after \<open>k\<close> bytes. When the
  list is used up no call fails. The kernel and \<open>resolve_links\<close> both follow at most 40 links.
\<close>

subsection \<open>Paths\<close>

datatype path = Path (absolute: bool) (components: "str list")

definition parent_of_path :: "path \<Rightarrow> path option" where
  "parent_of_path p = (if components p = [] then None else Some (Path (absolute p) (butlast (components p))))"

definition join_path :: "path \<Rightarrow> path \<Rightarrow> path" where
  "join_path p q =
     (if absolute q then q
      else if \<not> absolute p \<and> components p = [] then q
      else Path (absolute p) (components p @ filter (\<lambda>c. c \<noteq> lit ''.'') (components q)))"

definition name_of_path :: "path \<Rightarrow> str option" where
  "name_of_path p =
     (if components p = [] \<or> last (components p) \<in> {lit ''.'', lit ''..''} then None
      else Some (last (components p)))"

definition with_file_name :: "path \<Rightarrow> str \<Rightarrow> path" where
  "with_file_name p name =
     join_path (if name_of_path p = None then p else Path (absolute p) (butlast (components p)))
       (Path False [name])"

subsection \<open>System calls\<close>

datatype dir_entry = File bytes | Link path

record disk =
  d_entries :: "path \<rightharpoonup> dir_entry"
  outages :: "nat option list"
  pid :: nat
  counter :: nat

definition MAX_LINK_HOPS :: nat where
  "MAX_LINK_HOPS = 40"

definition outage :: "disk \<Rightarrow> nat option \<times> disk" where
  "outage d = (case outages d of [] \<Rightarrow> (None, d) | f # fs \<Rightarrow> (f, d\<lparr>outages := fs\<rparr>))"

definition link_target :: "path \<Rightarrow> path \<Rightarrow> path" where
  "link_target p t = (case parent_of_path p of Some parent \<Rightarrow> join_path parent t | None \<Rightarrow> t)"

text \<open>The kernel's own walk along the links of a path.\<close>

fun follow :: "nat \<Rightarrow> (path \<rightharpoonup> dir_entry) \<Rightarrow> path \<Rightarrow> path option" where
  "follow n es p =
     (case es p of
        Some (Link t) \<Rightarrow> (case n of 0 \<Rightarrow> None | Suc m \<Rightarrow> follow m es (link_target p t))
      | _ \<Rightarrow> Some p)"

declare follow.simps [simp del]

definition file_at :: "disk \<Rightarrow> path \<Rightarrow> bytes option" where
  "file_at d p =
     (case follow MAX_LINK_HOPS (d_entries d) p of
        None \<Rightarrow> None
      | Some q \<Rightarrow> (case d_entries d q of Some (File b) \<Rightarrow> Some b | _ \<Rightarrow> None))"

definition read_path :: "path \<Rightarrow> disk \<Rightarrow> bytes option \<times> disk" where
  "read_path p d = (let (f, d) = outage d in (if f \<noteq> None then None else file_at d p, d))"

text \<open>\<open>std::fs::read\<close> with its error.\<close>

definition read_file :: "path \<Rightarrow> disk \<Rightarrow> (io_error + bytes) \<times> disk" where
  "read_file p d =
     (let (f, d) = outage d
      in (if f \<noteq> None then Inl OtherIo
          else case follow MAX_LINK_HOPS (d_entries d) p of
                 None \<Rightarrow> Inl OtherIo
               | Some q \<Rightarrow> (case d_entries d q of Some (File b) \<Rightarrow> Inr b | _ \<Rightarrow> Inl NotFound), d))"

definition is_file :: "path \<Rightarrow> disk \<Rightarrow> bool \<times> disk" where
  "is_file p d = (let (f, d) = outage d in (f = None \<and> file_at d p \<noteq> None, d))"

definition fs_remove :: "path \<Rightarrow> disk \<Rightarrow> (io_error + unit) \<times> disk" where
  "fs_remove p d =
     (let (f, d) = outage d
      in if f \<noteq> None then (Inl OtherIo, d)
         else if d_entries d p = None then (Inl NotFound, d)
         else (Inr (), d\<lparr>d_entries := (d_entries d)(p := None)\<rparr>))"

definition fs_rename :: "path \<Rightarrow> path \<Rightarrow> disk \<Rightarrow> (io_error + unit) \<times> disk" where
  "fs_rename p q d =
     (let (f, d) = outage d
      in if f \<noteq> None then (Inl OtherIo, d)
         else case d_entries d p of
                None \<Rightarrow> (Inl NotFound, d)
              | Some e \<Rightarrow> (Inr (), d\<lparr>d_entries := ((d_entries d)(p := None))(q \<mapsto> e)\<rparr>))"

text \<open>\<open>write_all\<close> on a file that was opened: a call that fails leaves the bytes written so far.\<close>

definition write_bytes :: "path \<Rightarrow> bytes \<Rightarrow> disk \<Rightarrow> (io_error + unit) \<times> disk" where
  "write_bytes p contents d =
     (let (f, d) = outage d
      in case f of
           Some k \<Rightarrow> (Inl OtherIo, d\<lparr>d_entries := (d_entries d)(p \<mapsto> File (take k contents))\<rparr>)
         | None \<Rightarrow> (Inr (), d\<lparr>d_entries := (d_entries d)(p \<mapsto> File contents)\<rparr>))"

definition fs_copy :: "path \<Rightarrow> path \<Rightarrow> disk \<Rightarrow> (io_error + unit) \<times> disk" where
  "fs_copy p q d =
     (let (contents, d) = read_path p d
      in case contents of
           None \<Rightarrow> (Inl OtherIo, d)
         | Some b \<Rightarrow>
             (let (f, d) = outage d
              in case (f, follow MAX_LINK_HOPS (d_entries d) q) of
                   (None, Some q') \<Rightarrow>
                     write_bytes q' (if follow MAX_LINK_HOPS (d_entries d) p = Some q' then [] else b) d
                 | _ \<Rightarrow> (Inl OtherIo, d)))"

definition sync_dir :: "disk \<Rightarrow> (io_error + unit) \<times> disk" where
  "sync_dir d =
     (let (f, d) = outage d
      in if f \<noteq> None then (Inl OtherIo, d)
         else let (f, d) = outage d in (if f \<noteq> None then Inl OtherIo else Inr (), d))"

definition create_dir_all :: "disk \<Rightarrow> (io_error + unit) \<times> disk" where
  "create_dir_all d = (let (f, d) = outage d in (if f \<noteq> None then Inl OtherIo else Inr (), d))"

subsection \<open>Names\<close>

fun resolve_hops :: "nat \<Rightarrow> path \<Rightarrow> disk \<Rightarrow> path \<times> disk" where
  "resolve_hops 0 p d = (p, d)"
| "resolve_hops (Suc n) p d =
     (let (f, d) = outage d
      in case (f, d_entries d p) of
           (None, Some (Link t)) \<Rightarrow> resolve_hops n (link_target p t) d
         | _ \<Rightarrow> (p, d))"

definition resolve_links :: "path \<Rightarrow> disk \<Rightarrow> path \<times> disk" where
  "resolve_links p d = resolve_hops MAX_LINK_HOPS p d"

definition backup_path :: "path \<Rightarrow> nat \<Rightarrow> path" where
  "backup_path p index =
     with_file_name p ((case name_of_path p of Some name \<Rightarrow> name | None \<Rightarrow> []) @ lit ''.bak.'' @ decimal index)"

definition parent_dir :: "path \<Rightarrow> path option" where
  "parent_dir p =
     (case parent_of_path p of
        Some parent \<Rightarrow> Some (if parent = Path False [] then Path False [lit ''.''] else parent)
      | None \<Rightarrow> None)"

definition temp_name :: "str \<Rightarrow> str \<Rightarrow> nat \<Rightarrow> nat \<Rightarrow> str" where
  "temp_name name kind process n =
     lit ''.'' @ name @ lit ''.'' @ kind @ lit ''-'' @ decimal process @ lit ''-'' @ decimal n"

definition temp_path :: "path \<Rightarrow> path \<Rightarrow> str \<Rightarrow> disk \<Rightarrow> path option \<times> disk" where
  "temp_path dir p kind d =
     (case name_of_path p of
        None \<Rightarrow> (None, d)
      | Some name \<Rightarrow>
          (Some (join_path dir (Path False [temp_name name kind (pid d) (counter d)])),
           d\<lparr>counter := (counter d + 1) mod 2 ^ 64\<rparr>))"

subsection \<open>The write\<close>

definition write_synced :: "path \<Rightarrow> bytes \<Rightarrow> disk \<Rightarrow> (io_error + unit) \<times> disk" where
  "write_synced p contents d =
     (let (f, d) = outage d
      in if f \<noteq> None \<or> d_entries d p \<noteq> None then (Inl OtherIo, d)
         else let (r, d) = write_bytes p contents (d\<lparr>d_entries := (d_entries d)(p \<mapsto> File [])\<rparr>)
              in case r of
                   Inl e \<Rightarrow> (Inl e, d)
                 | Inr _ \<Rightarrow> (let (f, d) = outage d in (if f \<noteq> None then Inl OtherIo else Inr (), d)))"

definition copy_aside :: "path \<Rightarrow> path \<Rightarrow> disk \<Rightarrow> path option \<times> disk" where
  "copy_aside current p d =
     (let (is, d) = is_file current d
      in if \<not> is then (None, d)
         else case parent_dir p of
                None \<Rightarrow> (None, d)
              | Some dir \<Rightarrow>
                  (let (tmp, d) = temp_path dir p (lit ''bak'') d
                   in case tmp of
                        None \<Rightarrow> (None, d)
                      | Some copy \<Rightarrow> (let (r, d) = fs_copy current copy d in (if r = Inr () then Some copy else None, d))))"

definition discard :: "path \<Rightarrow> disk \<Rightarrow> disk" where
  "discard p d = snd (fs_remove p d)"

definition remove_if_present :: "path \<Rightarrow> disk \<Rightarrow> (io_error + unit) \<times> disk" where
  "remove_if_present p d = (let (r, d) = fs_remove p d in (if r = Inl NotFound then Inr () else r, d))"

text \<open>The renames of \<open>rotate_backups\<close>, from index \<open>i\<close> down to the first one.\<close>

fun shift_backups :: "path \<Rightarrow> nat \<Rightarrow> disk \<Rightarrow> (io_error + unit) \<times> disk" where
  "shift_backups p 0 d = (Inr (), d)"
| "shift_backups p (Suc i) d =
     (let (is, d) = is_file (backup_path p (Suc i)) d
      in if is
         then let (r, d) = fs_rename (backup_path p (Suc i)) (backup_path p (Suc i + 1)) d
              in (case r of Inl e \<Rightarrow> (Inl e, d) | Inr _ \<Rightarrow> shift_backups p i d)
         else shift_backups p i d)"

definition rotate_backups :: "path \<Rightarrow> path \<Rightarrow> nat \<Rightarrow> disk \<Rightarrow> (io_error + unit) \<times> disk" where
  "rotate_backups p previous backups d =
     (let (r, d) = remove_if_present (backup_path p backups) d
      in case r of
           Inl e \<Rightarrow> (Inl e, d)
         | Inr _ \<Rightarrow>
             (let (r, d) = shift_backups p (backups - 1) d
              in case r of
                   Inl e \<Rightarrow> (Inl e, d)
                 | Inr _ \<Rightarrow> fs_rename previous (backup_path p 1) d))"

definition keep_previous :: "path \<Rightarrow> path option \<Rightarrow> nat \<Rightarrow> disk \<Rightarrow> disk" where
  "keep_previous p previous backups d =
     (case previous of
        None \<Rightarrow> d
      | Some copy \<Rightarrow>
          (let (r, d) = rotate_backups p copy backups d in case r of Inl _ \<Rightarrow> discard copy d | Inr _ \<Rightarrow> d))"

definition replace_file :: "path \<Rightarrow> path \<Rightarrow> path \<Rightarrow> nat \<Rightarrow> disk \<Rightarrow> (io_error + write_outcome) \<times> disk" where
  "replace_file tmp target p backups d =
     (let (previous, d) = (if backups > 0 then copy_aside target p d else (None, d));
          (r, d) = fs_rename tmp target d
      in case r of
           Inl e \<Rightarrow>
             (let d = snd (fs_remove tmp d)
              in (Inl e, case previous of None \<Rightarrow> d | Some copy \<Rightarrow> discard copy d))
         | Inr _ \<Rightarrow>
             (let (r, d) = sync_dir (keep_previous p previous backups d)
              in (case r of Inl e \<Rightarrow> Inl e | Inr _ \<Rightarrow> Inr Written, d)))"

definition fsutil_atomic_write :: "path \<Rightarrow> bytes \<Rightarrow> nat \<Rightarrow> disk \<Rightarrow> (io_error + write_outcome) \<times> disk" where
  "fsutil_atomic_write p contents backups d =
     (let (target, d) = resolve_links p d;
          (current, d) = read_path target d
      in if current = Some contents then (Inr Unchanged, d)
         else case parent_dir target of
                None \<Rightarrow> (Inl OtherIo, d)
              | Some dir \<Rightarrow>
                  (let (r, d) = create_dir_all d
                   in case r of
                        Inl e \<Rightarrow> (Inl e, d)
                      | Inr _ \<Rightarrow>
                          (let (tmp, d) = temp_path dir target (lit ''tmp'') d
                           in case tmp of
                                None \<Rightarrow> (Inl OtherIo, d)
                              | Some tmp \<Rightarrow>
                                  (let (r, d) = write_synced tmp contents d
                                   in case r of
                                        Inl e \<Rightarrow> (Inl e, snd (fs_remove tmp d))
                                      | Inr _ \<Rightarrow> replace_file tmp target p backups d))))"

subsection \<open>What each step leaves alone\<close>

definition same_but :: "path set \<Rightarrow> disk \<Rightarrow> disk \<Rightarrow> bool" where
  "same_but Q d d' \<longleftrightarrow> (\<forall>q. q \<notin> Q \<longrightarrow> d_entries d' q = d_entries d q) \<and> pid d' = pid d"

lemma same_but_refl [intro, simp]: "same_but Q d d"
  by (simp add: same_but_def)

lemma same_but_trans: "same_but Q d d' \<Longrightarrow> same_but R d' d'' \<Longrightarrow> same_but (Q \<union> R) d d''"
  by (simp add: same_but_def)

lemma same_but_mono: "same_but Q d d' \<Longrightarrow> Q \<subseteq> R \<Longrightarrow> same_but R d d'"
  by (auto simp: same_but_def)

lemma same_but_chain: "same_but Q d d' \<Longrightarrow> same_but Q d' d'' \<Longrightarrow> same_but Q d d''"
  by (simp add: same_but_def)

lemma same_butD: "same_but Q d d' \<Longrightarrow> q \<notin> Q \<Longrightarrow> d_entries d' q = d_entries d q"
  by (simp add: same_but_def)

lemma outageD: "outage d = (f, d') \<Longrightarrow> d_entries d' = d_entries d \<and> pid d' = pid d \<and> counter d' = counter d"
  by (auto simp: outage_def split: list.splits)

lemma outage_none [simp]: "outages d = [] \<Longrightarrow> outage d = (None, d)"
  by (simp add: outage_def)

lemma file_at_cong: "d_entries d = d_entries d' \<Longrightarrow> file_at d p = file_at d' p"
  by (simp only: file_at_def)

lemma read_pathD:
  "read_path p d = (r, d') \<Longrightarrow>
   d_entries d' = d_entries d \<and> pid d' = pid d \<and> counter d' = counter d \<and> (r = Some b \<longrightarrow> file_at d p = Some b)"
  using file_at_cong [of d' d p]
  by (auto simp: read_path_def split: prod.splits if_splits dest!: outageD)

lemma read_fileD:
  assumes "read_file p d = (r, d')"
  shows "d_entries d' = d_entries d \<and> pid d' = pid d \<and> counter d' = counter d \<and> (r = Inr b \<longrightarrow> file_at d p = Some b)"
proof -
  obtain f d1 where o: "outage d = (f, d1)" by (cases "outage d") auto
  have "file_at d1 p = file_at d p" using outageD [OF o] by (intro file_at_cong) simp
  then show ?thesis using assms outageD [OF o]
    by (auto simp: read_file_def o file_at_def split: option.splits dir_entry.splits if_splits)
qed

lemma is_fileD:
  "is_file p d = (r, d') \<Longrightarrow>
   d_entries d' = d_entries d \<and> pid d' = pid d \<and> counter d' = counter d \<and> (r \<longrightarrow> file_at d p \<noteq> None)"
proof -
  obtain f d1 where o: "outage d = (f, d1)" by (cases "outage d") auto
  have "file_at d1 p = file_at d p" using outageD [OF o] by (intro file_at_cong) simp
  then show "is_file p d = (r, d') \<Longrightarrow> ?thesis" using outageD [OF o] by (auto simp: is_file_def o)
qed

lemma fs_removeD:
  "fs_remove p d = (r, d') \<Longrightarrow>
   same_but {p} d d' \<and> counter d' = counter d \<and> (d_entries d' p = None \<or> d_entries d' = d_entries d)"
  by (auto simp: fs_remove_def same_but_def split: prod.splits if_splits dest!: outageD)

lemma fs_renameD:
  "fs_rename p q d = (r, d') \<Longrightarrow>
   same_but {p, q} d d' \<and> counter d' = counter d \<and>
   (if r = Inr () then d_entries d p \<noteq> None \<and> d_entries d' = ((d_entries d)(p := None))(q := d_entries d p)
    else d_entries d' = d_entries d)"
  by (auto simp: fs_rename_def same_but_def split: prod.splits if_splits option.splits dest!: outageD)

lemma write_bytesD:
  "write_bytes p c d = (r, d') \<Longrightarrow>
   same_but {p} d d' \<and> counter d' = counter d \<and> (r = Inr () \<longrightarrow> d_entries d' = (d_entries d)(p \<mapsto> File c))"
  by (auto simp: write_bytes_def same_but_def split: prod.splits option.splits dest!: outageD)

lemma follow_plain [simp]: "(\<forall>t. es p \<noteq> Some (Link t)) \<Longrightarrow> follow n es p = Some p"
  by (subst follow.simps) (auto split: option.splits dir_entry.splits)

lemma follow_free [simp]: "es p = None \<Longrightarrow> follow n es p = Some p"
  by simp

lemma file_at_plain: "(\<forall>t. d_entries d p \<noteq> Some (Link t)) \<Longrightarrow> file_at d p = Some b \<longleftrightarrow> d_entries d p = Some (File b)"
  by (auto simp: file_at_def split: option.splits dir_entry.splits)

lemma fs_copyD:
  assumes "fs_copy p q d = (r, d')" and "d_entries d q = None"
  shows "same_but {q} d d' \<and> counter d' = counter d"
  using assms
  by (auto simp: fs_copy_def same_but_def split: prod.splits option.splits
      dest!: outageD read_pathD write_bytesD)

lemma write_syncedD:
  assumes "write_synced p c d = (r, d')"
  shows "same_but {p} d d' \<and> counter d' = counter d \<and> (r = Inr () \<longrightarrow> d_entries d p = None \<and> d_entries d' = (d_entries d)(p \<mapsto> File c))"
  using assms
  by (auto simp: write_synced_def same_but_def split: prod.splits if_splits sum.splits
      dest!: outageD write_bytesD)

lemma sync_dirD: "sync_dir d = (r, d') \<Longrightarrow> d_entries d' = d_entries d \<and> pid d' = pid d \<and> counter d' = counter d"
  by (auto simp: sync_dir_def split: prod.splits if_splits dest!: outageD)

lemma create_dir_allD: "create_dir_all d = (r, d') \<Longrightarrow> d_entries d' = d_entries d \<and> pid d' = pid d \<and> counter d' = counter d"
  by (auto simp: create_dir_all_def split: prod.splits if_splits dest!: outageD)

lemma resolve_hopsD: "resolve_hops n p d = (t, d') \<Longrightarrow> d_entries d' = d_entries d \<and> pid d' = pid d \<and> counter d' = counter d"
proof (induction n arbitrary: p d)
  case (Suc n)
  then show ?case
    by (auto split: prod.splits option.splits dir_entry.splits dest!: outageD)
qed simp

lemma temp_pathD:
  "temp_path dir p kind d = (r, d') \<Longrightarrow> d_entries d' = d_entries d \<and> pid d' = pid d"
  by (auto simp: temp_path_def split: option.splits)

subsection \<open>Names are distinct\<close>

text \<open>A name ends in a number, and what stands before the number tells backups from temporary files.\<close>

definition number_end :: "str \<Rightarrow> str" where
  "number_end s = rev (takeWhile is_digit (rev s))"

definition before_number :: "str \<Rightarrow> str" where
  "before_number s = rev (dropWhile is_digit (rev s))"

lemma rev_decimal_digits: "list_all is_digit (rev (decimal n))"
  using decimal_digits by (auto simp: list_all_iff is_digit_def)

lemma number_split:
  assumes "\<not> is_digit c"
  shows "number_end (a @ c # decimal n) = decimal n" "before_number (a @ c # decimal n) = a @ [c]"
proof -
  have r: "rev (a @ c # decimal n) = rev (decimal n) @ c # rev a" by simp
  have d: "is_digit x" if "x \<in> set (rev (decimal n))" for x
    using rev_decimal_digits [of n] that by (simp only: list_all_iff)
  show "number_end (a @ c # decimal n) = decimal n"
    unfolding number_end_def r by (subst takeWhile_append2) (use d assms in auto)
  show "before_number (a @ c # decimal n) = a @ [c]"
    unfolding before_number_def r by (subst dropWhile_append2) (use d assms in auto)
qed

lemma name_ends:
  "number_end (name @ lit ''.bak.'' @ decimal n) = decimal n"
  "before_number (name @ lit ''.bak.'' @ decimal n) = name @ lit ''.bak.''"
  "number_end (temp_name name kind k n) = decimal n"
  "before_number (temp_name name kind k n) = lit ''.'' @ name @ lit ''.'' @ kind @ lit ''-'' @ decimal k @ lit ''-''"
proof -
  have b: "name @ lit ''.bak.'' @ decimal n = (name @ lit ''.bak'') @ 46 # decimal n"
    "name @ lit ''.bak.'' = (name @ lit ''.bak'') @ [46]"
    by (simp_all add: lit_Cons)
  have t: "temp_name name kind k n = (lit ''.'' @ name @ lit ''.'' @ kind @ lit ''-'' @ decimal k) @ 45 # decimal n"
    "lit ''.'' @ name @ lit ''.'' @ kind @ lit ''-'' @ decimal k @ lit ''-'' =
      (lit ''.'' @ name @ lit ''.'' @ kind @ lit ''-'' @ decimal k) @ [45]"
    by (simp_all add: lit_Cons temp_name_def)
  have d: "\<not> is_digit 46" "\<not> is_digit 45" by (simp_all add: is_digit_def)
  show "number_end (name @ lit ''.bak.'' @ decimal n) = decimal n"
    "before_number (name @ lit ''.bak.'' @ decimal n) = name @ lit ''.bak.''"
    unfolding b by (rule number_split, rule d)+
  show "number_end (temp_name name kind k n) = decimal n"
    "before_number (temp_name name kind k n) = lit ''.'' @ name @ lit ''.'' @ kind @ lit ''-'' @ decimal k @ lit ''-''"
    unfolding t by (rule number_split, rule d)+
qed

text \<open>The temporary name beside a path.\<close>

definition temp_beside :: "path \<Rightarrow> str \<Rightarrow> nat \<Rightarrow> nat \<Rightarrow> path" where
  "temp_beside p kind process n =
     join_path (case parent_dir p of Some dir \<Rightarrow> dir | None \<Rightarrow> p)
       (Path False [temp_name (case name_of_path p of Some name \<Rightarrow> name | None \<Rightarrow> []) kind process n])"

lemma temp_path_beside:
  "parent_dir p = Some dir \<Longrightarrow> temp_path dir p kind d = (Some q, d') \<Longrightarrow>
   q = temp_beside p kind (pid d) (counter d) \<and> d' = d\<lparr>counter := (counter d + 1) mod 2 ^ 64\<rparr>"
  by (auto simp: temp_path_def temp_beside_def split: option.splits)

lemma join_path_leaf: "name \<noteq> lit ''.'' \<Longrightarrow> last (components (join_path p (Path False [name]))) = name"
  by (simp add: join_path_def)

lemma temp_name_not_dot: "temp_name name kind k n \<noteq> lit ''.''"
  by (simp add: temp_name_def lit_Cons)

lemma last_temp_beside:
  "last (components (temp_beside p kind k n)) =
     temp_name (case name_of_path p of Some name \<Rightarrow> name | None \<Rightarrow> []) kind k n"
  unfolding temp_beside_def by (rule join_path_leaf) (rule temp_name_not_dot)

lemma last_backup_path:
  assumes "name_of_path p = Some name"
  shows "last (components (backup_path p i)) = name @ lit ''.bak.'' @ decimal i"
proof -
  have "name @ lit ''.bak.'' @ decimal i \<noteq> lit ''.''" by (cases name) (auto simp: lit_Cons)
  then show ?thesis using assms by (simp add: backup_path_def with_file_name_def join_path_leaf)
qed

lemma file_nameD: "name_of_path p = Some name \<Longrightarrow> last (components p) = name"
  by (auto simp: name_of_path_def split: if_splits)

lemma backup_path_inj:
  assumes "name_of_path p = Some name" and "backup_path p i = backup_path p j"
  shows "i = j"
proof -
  have "name @ lit ''.bak.'' @ decimal i = name @ lit ''.bak.'' @ decimal j"
    using last_backup_path [OF assms(1)] assms(2) by metis
  then show ?thesis by (auto dest: decimal_inj)
qed

lemma backup_path_not_self: "name_of_path p = Some name \<Longrightarrow> backup_path p i \<noteq> p"
  using last_backup_path [of p name i] file_nameD [of p name] by (auto simp: lit_Cons)

lemma temp_not_backup:
  assumes "name_of_path p = Some name"
  shows "temp_beside t kind k n \<noteq> backup_path p i"
proof
  assume "temp_beside t kind k n = backup_path p i"
  then have e: "temp_name (case name_of_path t of Some name \<Rightarrow> name | None \<Rightarrow> []) kind k n = name @ lit ''.bak.'' @ decimal i"
    using last_backup_path [OF assms] last_temp_beside by metis
  have "before_number (temp_name (case name_of_path t of Some name \<Rightarrow> name | None \<Rightarrow> []) kind k n) =
      before_number (name @ lit ''.bak.'' @ decimal i)" by (simp only: e)
  then have "last (lit ''-'') = last (lit ''.bak.'')"
    unfolding name_ends by (metis append_is_Nil_conv last_appendR lit_Cons list.discI)
  then show False by (simp add: lit_Cons)
qed

lemma temp_not_temp: "m \<noteq> n \<Longrightarrow> temp_beside t kind k m \<noteq> temp_beside p kind' k' n"
  using name_ends(3) decimal_inj last_temp_beside by metis

lemma temp_not_self: "name_of_path p = Some name \<Longrightarrow> temp_beside p kind k n \<noteq> p"
  using last_temp_beside [of p kind k n] file_nameD [of p name]
  by (auto simp: temp_name_def lit_Cons dest: arg_cong [where f = length])

lemma counter_moves: "n < 2 ^ 64 \<Longrightarrow> (n + 1) mod 2 ^ 64 \<noteq> (n :: nat)"
  by (cases "n + 1 = 2 ^ 64") auto

subsection \<open>A write is all or nothing\<close>

lemma shift_backupsD: "shift_backups p m d = (r, d') \<Longrightarrow> same_but (backup_path p ` {1..m + 1}) d d'"
proof (induction m arbitrary: d)
  case (Suc m)
  obtain present d1 where i: "is_file (backup_path p (Suc m)) d = (present, d1)" by force
  have k1: "same_but Q d d1" for Q using is_fileD [OF i] by (simp add: same_but_def)
  have sub: "same_but (backup_path p ` {1..m + 1}) d2 d' \<Longrightarrow> same_but (backup_path p ` {1..Suc m + 1}) d2 d'" for d2
    by (rule same_but_mono) auto
  obtain q d2 where n: "fs_rename (backup_path p (Suc m)) (backup_path p (Suc m + 1)) d1 = (q, d2)" by force
  have "same_but {backup_path p (Suc m), backup_path p (Suc m + 1)} d1 d2" using fs_renameD [OF n] by simp
  then have k2: "same_but (backup_path p ` {1..Suc m + 1}) d1 d2" by (rule same_but_mono) auto
  show ?case
  proof (cases present)
    case False
    then show ?thesis using Suc.IH [of d1] Suc.prems i same_but_chain [OF k1 sub] by auto
  next
    case True
    then show ?thesis
      using Suc.prems Suc.IH [of d2] same_but_chain [OF k1 k2] same_but_chain [OF same_but_chain [OF k1 k2] sub] by (auto simp: i n [simplified] split: sum.splits)
  qed
qed simp

lemma remove_if_presentD: "remove_if_present p d = (r, d') \<Longrightarrow> same_but {p} d d' \<and> counter d' = counter d"
  by (auto simp: remove_if_present_def split: prod.splits dest!: fs_removeD)

lemma rotate_backupsD:
  assumes "rotate_backups p prev n d = (r, d')" and "n > 0"
  shows "same_but (insert prev (backup_path p ` {1..n})) d d'"
proof -
  let ?Q = "insert prev (backup_path p ` {1..n})"
  obtain r1 d1 where a: "remove_if_present (backup_path p n) d = (r1, d1)" by force
  obtain r2 d2 where b: "shift_backups p (n - 1) d1 = (r2, d2)" by force
  have "same_but ?Q d d1" using remove_if_presentD [OF a] assms(2) by (auto intro: same_but_mono)
  moreover have "same_but ?Q d1 d2"
    using shift_backupsD [OF b] assms(2) by (auto intro: same_but_mono)
  moreover have "same_but ?Q d2 d3" if "fs_rename prev (backup_path p 1) d2 = (r3, d3)" for r3 d3
  proof -
    have "same_but {prev, backup_path p 1} d2 d3" using fs_renameD [OF that] by simp
    then show ?thesis by (rule same_but_mono) (use assms(2) in auto)
  qed
  ultimately show ?thesis
    using assms(1) by (auto simp: rotate_backups_def a b simp del: One_nat_def split: sum.splits intro: same_but_chain)
qed

lemma keep_previousD:
  assumes "previous \<noteq> None \<longrightarrow> n > 0"
  shows "same_but (set_option previous \<union> backup_path p ` {1..n}) d (keep_previous p previous n d)"
proof (cases previous)
  case (Some copy)
  obtain r d1 where a: "rotate_backups p copy n d = (r, d1)" by force
  have "same_but (insert copy (backup_path p ` {1..n})) d d1" using rotate_backupsD [OF a] assms Some by simp
  moreover have "same_but (insert copy (backup_path p ` {1..n})) d1 (discard copy d1)"
    using fs_removeD [of copy d1 "fst (fs_remove copy d1)" "snd (fs_remove copy d1)"]
    by (auto simp: discard_def intro: same_but_mono)
  ultimately show ?thesis
    using Some by (auto simp: keep_previous_def a split: sum.splits intro: same_but_chain)
qed (simp add: keep_previous_def)

lemma copy_asideD:
  assumes "copy_aside current p d = (r, d')" and "d_entries d (temp_beside p (lit ''bak'') (pid d) (counter d)) = None"
  shows "same_but {temp_beside p (lit ''bak'') (pid d) (counter d)} d d' \<and>
    (r = None \<or> r = Some (temp_beside p (lit ''bak'') (pid d) (counter d)))"
proof -
  obtain present d1 where i: "is_file current d = (present, d1)" by force
  note e = is_fileD [OF i]
  show ?thesis
  proof (cases "present \<and> parent_dir p \<noteq> None \<and> name_of_path p \<noteq> None")
    case False
    then show ?thesis using assms(1) e
      by (auto simp: copy_aside_def i temp_path_def same_but_def split: if_splits option.splits)
  next
    case True
    then obtain dir where dir: "parent_dir p = Some dir" by auto
    obtain q d2 where t: "temp_path dir p (lit ''bak'') d1 = (Some q, d2)"
      using True by (cases "name_of_path p") (auto simp: temp_path_def)
    note q = temp_path_beside [OF dir t]
    obtain s d3 where c: "fs_copy current q d2 = (s, d3)" by force
    have "d_entries d2 q = None" using q e assms(2) by simp
    from fs_copyD [OF c this] have "same_but {q} d2 d3" by simp
    then have "same_but {q} d d3" using q e by (auto simp: same_but_def)
    moreover have "copy_aside current p d = (if s = Inr () then Some q else None, d3)"
      using True by (simp add: copy_aside_def i dir t c)
    ultimately show ?thesis using assms(1) q e t by (auto split: if_splits)
  qed
qed

definition backups_of :: "path \<Rightarrow> nat \<Rightarrow> path set" where
  "backups_of p n = backup_path p ` {1..n}"

text \<open>
  The paths a save uses besides the target: its two temporary names and the backups. \<open>save_names_free\<close>:
  the target is none of them and no link, and nothing stands at the temporary name of the backup.
\<close>

definition save_tmp :: "path \<Rightarrow> disk \<Rightarrow> path" where
  "save_tmp target d = temp_beside target (lit ''tmp'') (pid d) (counter d)"

definition save_aside :: "path \<Rightarrow> disk \<Rightarrow> path" where
  "save_aside p d = temp_beside p (lit ''bak'') (pid d) ((counter d + 1) mod 2 ^ 64)"

definition save_names_free :: "path \<Rightarrow> path \<Rightarrow> nat \<Rightarrow> disk \<Rightarrow> bool" where
  "save_names_free p target n d \<longleftrightarrow>
     name_of_path p \<noteq> None \<and> name_of_path target \<noteq> None \<and> counter d < 2 ^ 64 \<and>
     d_entries d (save_aside p d) = None \<and> target \<noteq> save_aside p d \<and> target \<notin> backups_of p n \<and>
     (case d_entries d target of Some (Link _) \<Rightarrow> False | _ \<Rightarrow> True)"

lemma save_names_distinct:
  assumes "save_names_free p target n d"
  shows "save_tmp target d \<noteq> target" "save_tmp target d \<noteq> save_aside p d" "save_tmp target d \<notin> backups_of p m"
    "save_aside p d \<notin> backups_of p m" "target \<notin> backups_of p n" "target \<noteq> save_aside p d"
    "\<forall>l. d_entries d target \<noteq> Some (Link l)"
  using assms counter_moves [of "counter d"]
  by (auto simp: save_names_free_def save_tmp_def save_aside_def backups_of_def temp_not_self temp_not_backup
      temp_not_temp)

text \<open>What a save may have done once its temporary file is written.\<close>

definition saved :: "path \<Rightarrow> path \<Rightarrow> bytes \<Rightarrow> nat \<Rightarrow> (io_error + write_outcome) \<Rightarrow> disk \<Rightarrow> disk \<Rightarrow> bool" where
  "saved p target c n r d d' \<longleftrightarrow>
     (case r of
        Inr Merged \<Rightarrow> False
      | Inr Written \<Rightarrow> d_entries d' target = Some (File c)
      | Inr Unchanged \<Rightarrow> d_entries d target = Some (File c) \<and> d_entries d' target = Some (File c)
      | Inl e \<Rightarrow>
          e = OtherIo \<and>
          (d_entries d' target = Some (File c) \<or>
           d_entries d' target = d_entries d target \<and> (\<forall>q \<in> backups_of p n. d_entries d' q = d_entries d q)))"

lemma other_io:
  "create_dir_all d = (Inl e, d') \<Longrightarrow> e = OtherIo"
  "sync_dir d = (Inl e, d') \<Longrightarrow> e = OtherIo"
  "write_synced p c d = (Inl e, d') \<Longrightarrow> e = OtherIo"
  "fs_rename p q d = (Inl e, d') \<Longrightarrow> d_entries d p \<noteq> None \<Longrightarrow> e = OtherIo"
  by (auto simp: create_dir_all_def sync_dir_def write_synced_def write_bytes_def fs_rename_def
      split: prod.splits if_splits option.splits sum.splits dest!: outageD)

lemma replace_fileD:
  assumes "replace_file tmp target p n d = (r, d')" and e: "d_entries d tmp = Some (File c)"
    and aside: "aside = temp_beside p (lit ''bak'') (pid d) (counter d)" "d_entries d aside = None" "target \<noteq> aside" "tmp \<noteq> aside"
      "aside \<notin> backups_of p n"
    and names: "tmp \<noteq> target" "tmp \<notin> backups_of p n" "target \<notin> backups_of p n"
  shows "same_but ({tmp, target, aside} \<union> backups_of p n) d d' \<and> saved p target c n r d d'"
proof -
  let ?Q = "{tmp, target, aside} \<union> backups_of p n"
  obtain prev d1 where a: "(if n > 0 then copy_aside target p d else (None, d)) = (prev, d1)" by force
  have "same_but {aside} d d1 \<and> (prev = None \<or> prev = Some aside \<and> n > 0)"
    using copy_asideD [of target p d prev d1] a aside(1,2) by (auto split: if_splits)
  then have k1: "same_but {aside} d d1" and prev: "prev = None \<or> prev = Some aside \<and> n > 0" by auto
  obtain s d2 where b: "fs_rename tmp target d1 = (s, d2)" by force
  show ?thesis
  proof (cases s)
    case (Inl err)
    define d3 where "d3 = snd (fs_remove tmp d2)"
    have "same_but {tmp} d2 d3" using fs_removeD [of tmp d2 "fst (fs_remove tmp d2)" d3] by (auto simp: d3_def)
    moreover have "d_entries d2 = d_entries d1" using fs_renameD [OF b] Inl by auto
    moreover have "pid d2 = pid d1" using fs_renameD [OF b] by (simp add: same_but_def)
    ultimately have "same_but {aside, tmp} d d3" using k1 by (simp add: same_but_def)
    moreover have "same_but {aside} d3 (discard aside d3)"
      using fs_removeD [of aside d3 "fst (fs_remove aside d3)" "discard aside d3"] by (auto simp: discard_def)
    ultimately have "same_but {aside, tmp} d (discard aside d3)" "same_but {aside, tmp} d d3" by (auto simp: same_but_def)
    then have "same_but {aside, tmp} d d'" "r = Inl err"
      using assms(1) prev by (auto simp: replace_file_def a b Inl d3_def)
    moreover have "q \<noteq> aside \<and> q \<noteq> tmp" if "q \<in> backups_of p n" for q using that aside(5) names(2) by blast
    moreover have "d_entries d1 tmp \<noteq> None" using k1 e aside(4) by (simp add: same_but_def)
    then have "err = OtherIo" using other_io(4) b Inl by blast
    ultimately show ?thesis using aside(3) names(1) by (simp add: saved_def same_but_def)
  next
    case (Inr u)
    have e2: "d_entries d2 = ((d_entries d1)(tmp := None))(target := d_entries d1 tmp)" "same_but {tmp, target} d1 d2"
      using fs_renameD [OF b] Inr by auto
    define d3 where "d3 = keep_previous p prev n d2"
    have "same_but (set_option prev \<union> backups_of p n) d2 d3"
      using keep_previousD [of prev n p d2] prev by (auto simp: d3_def backups_of_def)
    then have k3: "same_but (insert aside (backups_of p n)) d2 d3" by (rule same_but_mono) (use prev in auto)
    obtain q d4 where y: "sync_dir d3 = (q, d4)" by force
    have "d_entries d1 tmp = Some (File c)" using k1 e aside(4) by (simp add: same_but_def)
    then have "d_entries d2 target = Some (File c)" using e2 by simp
    then have "d_entries d3 target = Some (File c)" using k3 names aside by (simp add: same_but_def)
    moreover have "same_but ?Q d d3" using k1 e2(2) k3 by (simp add: same_but_def)
    moreover have "r = (case q of Inl e \<Rightarrow> Inl e | Inr _ \<Rightarrow> Inr Written)" "d' = d4"
      using assms(1) by (auto simp: replace_file_def a b Inr d3_def [symmetric] y split: sum.splits)
    ultimately show ?thesis using sync_dirD [OF y] other_io(2) [of d3 _ d4] y
      by (auto simp: saved_def same_but_def split: sum.splits)
  qed
qed

lemma saved_cong:
  "d_entries d0 target = d_entries d target \<Longrightarrow> \<forall>q \<in> backups_of p n. d_entries d0 q = d_entries d q \<Longrightarrow>
   saved p target c n r d d' \<longleftrightarrow> saved p target c n r d0 d'"
  by (auto simp: saved_def split: sum.splits write_outcome.splits)

lemma fsutil_atomic_write_cases:
  assumes w: "fsutil_atomic_write p c n d = (r, d')" and t: "target = fst (resolve_links p d)"
    and free: "save_names_free p target n d"
  shows "same_but ({save_tmp target d, target, save_aside p d} \<union> backups_of p n) d d' \<and> saved p target c n r d d'"
proof -
  note names = save_names_distinct [OF free]
  obtain d1 where a: "resolve_links p d = (target, d1)" using t by (cases "resolve_links p d") auto
  note e1 = resolve_hopsD [OF a [unfolded resolve_links_def]]
  obtain current d2 where b: "read_path target d1 = (current, d2)" by force
  note e2 = read_pathD [OF b]
  show ?thesis
  proof (cases "current = Some c")
    case True
    then have "file_at d target = Some c" using e1 e2 file_at_cong [of d1 d] by simp
    then have "d_entries d target = Some (File c)" using file_at_plain names(7) by blast
    then show ?thesis using w True e1 e2 by (auto simp: fsutil_atomic_write_def a b saved_def same_but_def)
  next
    case False
    have "name_of_path target \<noteq> None" using free by (simp add: save_names_free_def)
    then obtain dir where dir: "parent_dir target = Some dir"
      by (auto simp: name_of_path_def parent_dir_def parent_of_path_def split: if_splits)
    obtain s d3 where m: "create_dir_all d2 = (s, d3)" by force
    note e3 = create_dir_allD [OF m]
    obtain q d4 where u: "temp_path dir target (lit ''tmp'') d3 = (Some q, d4)"
      using \<open>name_of_path target \<noteq> None\<close> by (auto simp: temp_path_def)
    have q: "q = save_tmp target d" "d4 = d3\<lparr>counter := (counter d + 1) mod 2 ^ 64\<rparr>"
      using temp_path_beside [OF dir u] e1 e2 e3 by (simp_all add: save_tmp_def)
    have e4: "d_entries d4 = d_entries d" "pid d4 = pid d" "counter d4 = (counter d + 1) mod 2 ^ 64"
      using q e1 e2 e3 by simp_all
    obtain v d5 where y: "write_synced q c d4 = (v, d5)" by force
    note e5 = write_syncedD [OF y]
    show ?thesis
    proof (cases s)
      case (Inl err)
      then show ?thesis using w False e1 e2 e3 other_io(1) [of d2 err d3] m
        by (auto simp: fsutil_atomic_write_def a b dir saved_def same_but_def)
    next
      case (Inr _)
      note s = this
      show ?thesis
      proof (cases v)
        case (Inl err)
        have "same_but {q} d5 (snd (fs_remove q d5))" using fs_removeD [of q d5 "fst (fs_remove q d5)"] by simp
        then have "same_but {q} d (snd (fs_remove q d5))" using e4 e5 by (simp add: same_but_def)
        moreover have "r = Inl err" "d' = snd (fs_remove q d5)"
          using w False Inl s by (simp_all add: fsutil_atomic_write_def a b dir m u y)
        moreover have "x \<noteq> q" if "x \<in> insert target (backups_of p n)" for x using that names by (auto simp: q)
        moreover have "err = OtherIo" using other_io(3) y Inl by blast
        ultimately show ?thesis by (simp add: saved_def same_but_def q)
      next
        case (Inr _)
        then have r: "replace_file q target p n d5 = (r, d')" and w5: "v = Inr ()"
          using w False s by (simp_all add: fsutil_atomic_write_def a b dir m u y)
        have d5: "d_entries d5 = (d_entries d)(q \<mapsto> File c)" "pid d5 = pid d" "counter d5 = (counter d + 1) mod 2 ^ 64"
          using e4 e5 w5 by (simp_all add: same_but_def)
        have "same_but ({q, target, save_aside p d} \<union> backups_of p n) d5 d' \<and> saved p target c n r d5 d'"
          by (rule replace_fileD [OF r])
             (use names free d5 in \<open>simp_all add: q save_names_free_def save_aside_def\<close>)
        moreover have "saved p target c n r d5 d' \<longleftrightarrow> saved p target c n r d d'"
          by (rule saved_cong) (use names d5 in \<open>auto simp: q\<close>)
        ultimately show ?thesis using d5 by (auto simp: same_but_def q)
      qed
    qed
  qed
qed

text \<open>
  C6: a save is all or nothing. Whatever system calls fail and after however many bytes, the file
  that the path finally names afterwards holds the new contents, or it holds what it held and no
  backup moved; a save that reports success left the new contents; and nothing else on the disk
  changed but the save's own temporary names.
\<close>

theorem save_all_or_nothing:
  assumes "fsutil_atomic_write p c n d = (r, d')" and "target = fst (resolve_links p d)"
    and "save_names_free p target n d"
  shows "saved p target c n r d d' \<and> same_but ({save_tmp target d, target, save_aside p d} \<union> backups_of p n) d d'"
  using fsutil_atomic_write_cases [OF assms] by (rule conjE) (rule conjI)

definition sample_path :: path where
  "sample_path = Path True [lit ''c'', lit ''a'']"

definition failing_disk :: disk where
  "failing_disk =
     \<lparr>d_entries = [sample_path \<mapsto> File [1]],
      outages = [None, None, None, None, None, None, None, None, None, None, Some 0], pid = 7, counter = 3\<rparr>"

lemma failing_disk_path: "resolve_links sample_path failing_disk =
    (sample_path, failing_disk\<lparr>outages := tl (outages failing_disk)\<rparr>)"
  by (simp add: resolve_links_def MAX_LINK_HOPS_def failing_disk_def outage_def numeral_eq_Suc)

theorem save_all_or_nothing_witness:
  "saved sample_path sample_path [2, 3] 2 (fst (fsutil_atomic_write sample_path [2, 3] 2 failing_disk)) failing_disk
     (snd (fsutil_atomic_write sample_path [2, 3] 2 failing_disk))"
proof -
  have free: "save_names_free sample_path sample_path 2 failing_disk"
  proof -
    have name: "name_of_path sample_path = Some (lit ''a'')" by (simp add: name_of_path_def sample_path_def lit_Cons)
    have "sample_path \<noteq> save_aside sample_path failing_disk" "sample_path \<notin> backups_of sample_path 2"
      using temp_not_self [OF name, THEN not_sym] backup_path_not_self [OF name, THEN not_sym]
      by (auto simp: save_aside_def backups_of_def)
    then show ?thesis by (auto simp: save_names_free_def name failing_disk_def)
  qed
  then have "saved sample_path sample_path [2, 3] 2 (fst (fsutil_atomic_write sample_path [2, 3] 2 failing_disk)) failing_disk
       (snd (fsutil_atomic_write sample_path [2, 3] 2 failing_disk)) \<and>
     same_but ({save_tmp sample_path failing_disk, sample_path, save_aside sample_path failing_disk} \<union> backups_of sample_path 2)
       failing_disk (snd (fsutil_atomic_write sample_path [2, 3] 2 failing_disk))"
    by (intro save_all_or_nothing) (simp_all add: failing_disk_path)
  then show ?thesis ..
qed

subsection \<open>The backups are the last versions\<close>

lemma is_file_plain:
  "outages d = [] \<Longrightarrow> \<forall>t. d_entries d p \<noteq> Some (Link t) \<Longrightarrow> is_file p d = (d_entries d p \<noteq> None, d)"
  by (auto simp: is_file_def file_at_def split: option.splits dir_entry.splits)

lemma fs_rename_works:
  "outages d = [] \<Longrightarrow> d_entries d p = Some e \<Longrightarrow>
   fs_rename p q d = (Inr (), d\<lparr>d_entries := ((d_entries d)(p := None))(q \<mapsto> e)\<rparr>)"
  by (simp add: fs_rename_def)

lemma shift_works:
  assumes "name_of_path p = Some name" and "outages d = []"
    and "\<forall>k \<in> {1..m}. \<forall>t. d_entries d (backup_path p k) \<noteq> Some (Link t)"
    and "d_entries d (backup_path p (m + 1)) = None"
  shows "\<exists>d'. shift_backups p m d = (Inr (), d') \<and> outages d' = [] \<and> counter d' = counter d \<and>
    d_entries d' (backup_path p 1) = None \<and> (\<forall>k \<in> {1..m}. d_entries d' (backup_path p (k + 1)) = d_entries d (backup_path p k))"
  using assms(2-4)
proof (induction m arbitrary: d)
  case (Suc m)
  let ?b = "backup_path p"
  have inj: "?b i = ?b j \<longleftrightarrow> i = j" for i j using backup_path_inj [OF assms(1)] by blast
  have plain: "is_file (?b (Suc m)) d = (d_entries d (?b (Suc m)) \<noteq> None, d)"
    using Suc.prems by (intro is_file_plain) auto
  define d1 where "d1 = (if d_entries d (?b (Suc m)) = None then d
    else d\<lparr>d_entries := ((d_entries d)(?b (Suc m) := None))(?b (Suc m + 1) := d_entries d (?b (Suc m)))\<rparr>)"
  have step: "shift_backups p (Suc m) d = shift_backups p m d1"
    using Suc.prems(1) by (auto simp: plain d1_def fs_rename_works simp del: One_nat_def)
  have d1: "d_entries d1 (?b (Suc m)) = None" "d_entries d1 (?b (Suc m + 1)) = d_entries d (?b (Suc m))"
      "outages d1 = []" "counter d1 = counter d" "\<forall>k \<in> {1..m}. d_entries d1 (?b k) = d_entries d (?b k)"
    using Suc.prems by (auto simp: d1_def inj)
  then obtain d' where d': "shift_backups p m d1 = (Inr (), d')" "outages d' = []" "counter d' = counter d1"
      "d_entries d' (?b 1) = None" "\<forall>k \<in> {1..m}. d_entries d' (?b (k + 1)) = d_entries d1 (?b k)"
    using Suc.IH [of d1] Suc.prems(2) by auto
  have "d_entries d' (?b (Suc m + 1)) = d_entries d (?b (Suc m))"
    using same_butD [OF shift_backupsD [OF d'(1)], of "?b (Suc m + 1)"] d1(2) by (auto simp: inj image_iff)
  then have "\<forall>k \<in> {1..Suc m}. d_entries d' (?b (k + 1)) = d_entries d (?b k)"
    using d'(5) d1(5) by (auto simp: le_Suc_eq)
  then show ?case using d' d1(4) step by auto
qed simp

lemma rotate_works:
  assumes "name_of_path p = Some name" and "outages d = []" and "n > 0"
    and "\<forall>k \<in> {1..n}. \<forall>t. d_entries d (backup_path p k) \<noteq> Some (Link t)"
    and "d_entries d prev = Some e" and "prev \<notin> backups_of p n"
  shows "\<exists>d'. rotate_backups p prev n d = (Inr (), d') \<and> outages d' = [] \<and> counter d' = counter d \<and>
    d_entries d' prev = None \<and> d_entries d' (backup_path p 1) = Some e \<and>
    (\<forall>k. 1 \<le> k \<and> k < n \<longrightarrow> d_entries d' (backup_path p (k + 1)) = d_entries d (backup_path p k))"
proof -
  let ?b = "backup_path p"
  have inj: "?b i = ?b j \<longleftrightarrow> i = j" for i j using backup_path_inj [OF assms(1)] by blast
  have prev: "prev \<noteq> ?b k" if "1 \<le> k" "k \<le> n" for k using assms(6) that by (auto simp: backups_of_def)
  define d1 where "d1 = d\<lparr>d_entries := (d_entries d)(?b n := None)\<rparr>"
  have r1: "remove_if_present (?b n) d = (Inr (), d1)"
    using assms(2) by (auto simp: remove_if_present_def fs_remove_def d1_def fun_upd_idem)
  have d1: "outages d1 = []" "\<forall>k \<in> {1..n - 1}. \<forall>t. d_entries d1 (?b k) \<noteq> Some (Link t)" "d_entries d1 (?b (n - 1 + 1)) = None"
    using assms(2-4) by (auto simp: d1_def inj)
  obtain d2 where d2: "shift_backups p (n - 1) d1 = (Inr (), d2)" "outages d2 = []" "counter d2 = counter d1"
      "d_entries d2 (?b 1) = None" "\<forall>k \<in> {1..n - 1}. d_entries d2 (?b (k + 1)) = d_entries d1 (?b k)"
    using shift_works [OF assms(1) d1] by blast
  have "d_entries d2 prev = d_entries d1 prev"
    using same_butD [OF shift_backupsD [OF d2(1)], of prev] prev assms(3) by (auto simp: image_iff)
  then have e: "d_entries d2 prev = Some e" using prev [of n] assms(3,5) by (simp add: d1_def)
  define d3 where "d3 = d2\<lparr>d_entries := ((d_entries d2)(prev := None))(?b 1 \<mapsto> e)\<rparr>"
  have "rotate_backups p prev n d = (Inr (), d3)"
    using fs_rename_works [OF d2(2) e, of "?b 1"] by (simp add: rotate_backups_def r1 d2(1) d3_def del: One_nat_def)
  moreover have "d_entries d3 (?b (k + 1)) = d_entries d (?b k)" if "1 \<le> k" "k < n" for k
    using d2(5) that prev [of "k + 1"] by (auto simp: d3_def d1_def inj)
  moreover have "prev \<noteq> ?b 1" using prev [of 1] assms(3) by simp
  ultimately show ?thesis using d2(2,3) by (auto simp: d3_def d1_def)
qed

text \<open>
  The path holds a list of versions, newest first: the newest is the file, the next ones are the
  backups, and there are no others. No temporary name of this process is taken.
\<close>

definition holds_versions :: "path \<Rightarrow> nat \<Rightarrow> bytes list \<Rightarrow> disk \<Rightarrow> bool" where
  "holds_versions p n vs d \<longleftrightarrow>
     d_entries d p = (case vs of [] \<Rightarrow> None | v # _ \<Rightarrow> Some (File v)) \<and>
     (\<forall>i \<in> {1..n}. d_entries d (backup_path p i) = (if i < length vs then Some (File (vs ! i)) else None))"

definition no_leftovers :: "path \<Rightarrow> disk \<Rightarrow> bool" where
  "no_leftovers p d \<longleftrightarrow>
     outages d = [] \<and> counter d < 2 ^ 64 \<and> (\<forall>kind k. d_entries d (temp_beside p kind (pid d) k) = None)"

lemma write_synced_works:
  "outages d = [] \<Longrightarrow> d_entries d p = None \<Longrightarrow>
   write_synced p c d = (Inr (), d\<lparr>d_entries := (d_entries d)(p \<mapsto> File c)\<rparr>)"
  by (simp add: write_synced_def write_bytes_def)

lemma fs_copy_works:
  assumes "outages d = []" and "d_entries d p = Some (File b)" and "d_entries d q = None"
  shows "fs_copy p q d = (Inr (), d\<lparr>d_entries := (d_entries d)(q \<mapsto> File b)\<rparr>)"
proof -
  have "p \<noteq> q" using assms(2,3) by auto
  then show ?thesis using assms
    by (simp add: fs_copy_def read_path_def file_at_def write_bytes_def)
qed

lemma parent_of_named: "name_of_path p = Some name \<Longrightarrow> \<exists>dir. parent_dir p = Some dir"
  by (auto simp: name_of_path_def parent_dir_def parent_of_path_def split: if_splits)

lemma copy_aside_works:
  assumes "name_of_path p = Some name" and "outages d = []" and "d_entries d p = Some (File b)"
    and "q = temp_beside p (lit ''bak'') (pid d) (counter d)" and "d_entries d q = None"
  shows "copy_aside p p d = (Some q, d\<lparr>d_entries := (d_entries d)(q \<mapsto> File b), counter := (counter d + 1) mod 2 ^ 64\<rparr>)"
proof -
  obtain dir where dir: "parent_dir p = Some dir" using parent_of_named [OF assms(1)] ..
  let ?d = "d\<lparr>counter := (counter d + 1) mod 2 ^ 64\<rparr>"
  have t: "temp_path dir p (lit ''bak'') d = (Some q, ?d)"
    using assms(1,4) dir by (simp add: temp_path_def temp_beside_def)
  have "fs_copy p q ?d = (Inr (), ?d\<lparr>d_entries := (d_entries d)(q \<mapsto> File b)\<rparr>)"
    using fs_copy_works [of ?d p b q] assms by simp
  then show ?thesis using is_file_plain [of d p] assms(2,3) by (simp add: copy_aside_def dir t)
qed

lemma write_starts:
  assumes "name_of_path p = Some name" and free: "no_leftovers p d"
    and p: "d_entries d p = (case vs of [] \<Rightarrow> None | v # _ \<Rightarrow> Some (File v))"
  shows "fsutil_atomic_write p c n d =
    (if vs \<noteq> [] \<and> hd vs = c then (Inr Unchanged, d)
     else replace_file (save_tmp p d) p p n
            (d\<lparr>counter := (counter d + 1) mod 2 ^ 64, d_entries := (d_entries d)(save_tmp p d \<mapsto> File c)\<rparr>))"
proof -
  have o: "outages d = []" and t: "d_entries d (save_tmp p d) = None"
    using free by (simp_all add: no_leftovers_def save_tmp_def)
  have l: "resolve_links p d = (p, d)"
    using o p by (cases vs) (simp_all add: resolve_links_def MAX_LINK_HOPS_def numeral_eq_Suc)
  have r: "read_path p d = (case vs of [] \<Rightarrow> None | v # _ \<Rightarrow> Some v, d)"
    using o p by (cases vs) (simp_all add: read_path_def file_at_def)
  obtain dir where dir: "parent_dir p = Some dir" using parent_of_named [OF assms(1)] ..
  let ?d = "d\<lparr>counter := (counter d + 1) mod 2 ^ 64\<rparr>"
  have n: "temp_path dir p (lit ''tmp'') d = (Some (save_tmp p d), ?d)"
    using assms(1) dir by (simp add: temp_path_def temp_beside_def save_tmp_def)
  have "write_synced (save_tmp p d) c ?d = (Inr (), ?d\<lparr>d_entries := (d_entries d)(save_tmp p d \<mapsto> File c)\<rparr>)"
    using write_synced_works [of ?d "save_tmp p d" c] o t by simp
  then show ?thesis
    using o by (cases vs) (simp_all add: fsutil_atomic_write_def l r dir n create_dir_all_def)
qed

lemma replace_plain:
  assumes "outages d = []" and "d_entries d tmp = Some (File c)"
    and "n > 0 \<Longrightarrow> copy_aside target p d = (None, d)"
  shows "replace_file tmp target p n d = (Inr Written, d\<lparr>d_entries := ((d_entries d)(tmp := None))(target \<mapsto> File c)\<rparr>)"
  using assms fs_rename_works [OF assms(1,2), of target]
  by (cases "n > 0") (simp_all add: replace_file_def keep_previous_def sync_dir_def)

lemma write_version:
  assumes name: "name_of_path p = Some name" and free: "no_leftovers p d" and vs: "holds_versions p n vs d"
    and new: "vs = [] \<or> hd vs \<noteq> c"
  shows "\<exists>d'. fsutil_atomic_write p c n d = (Inr Written, d') \<and> holds_versions p n (c # vs) d' \<and> no_leftovers p d'"
proof -
  let ?tmp = "save_tmp p d" and ?b = "backup_path p" and ?q = "save_aside p d"
  have inj: "?b i = ?b j \<longleftrightarrow> i = j" for i j using backup_path_inj [OF name] by blast
  have o: "outages d = []" and t: "d_entries d ?tmp = None" and q: "d_entries d ?q = None" and ctr: "counter d < 2 ^ 64"
    using free by (simp_all add: no_leftovers_def save_tmp_def save_aside_def)
  have ne: "?tmp \<noteq> p" "?q \<noteq> p" "?tmp \<noteq> ?q" "?b i \<noteq> p" "?tmp \<noteq> ?b i" "?q \<noteq> ?b i" for i
    using temp_not_self [OF name] temp_not_backup [OF name] backup_path_not_self [OF name]
      temp_not_temp counter_moves [OF ctr] by (auto simp: save_tmp_def save_aside_def)
  have temp: "temp_beside p kind k m \<noteq> p" "temp_beside p kind k m \<noteq> ?b i" for kind k m i
    using temp_not_self [OF name] temp_not_backup [OF name] by auto
  define d1 where "d1 = d\<lparr>counter := (counter d + 1) mod 2 ^ 64, d_entries := (d_entries d)(?tmp \<mapsto> File c)\<rparr>"
  have w: "fsutil_atomic_write p c n d = replace_file ?tmp p p n d1"
    using write_starts [OF name free, of vs c n] vs new by (auto simp: holds_versions_def d1_def)
  have plain: "\<exists>d'. fsutil_atomic_write p c n d = (Inr Written, d') \<and> holds_versions p n (c # vs) d' \<and> no_leftovers p d'"
    if "n = 0 \<or> vs = []"
  proof -
    have "copy_aside p p d1 = (None, d1)" if "n > 0"
      using that \<open>n = 0 \<or> vs = []\<close> vs is_file_plain [of d1 p] o ne
      by (auto simp: copy_aside_def d1_def holds_versions_def)
    then have "replace_file ?tmp p p n d1 = (Inr Written, d1\<lparr>d_entries := ((d_entries d1)(?tmp := None))(p \<mapsto> File c)\<rparr>)"
      by (intro replace_plain) (use o in \<open>auto simp: d1_def\<close>)
    then show ?thesis using w that vs free ne temp by (auto simp: holds_versions_def no_leftovers_def d1_def)
  qed
  show ?thesis
  proof (cases "n = 0 \<or> vs = []")
    case False
    then obtain v rest where v: "vs = v # rest" and n: "n > 0" by (cases vs) auto
    have p: "d_entries d p = Some (File v)" using vs v by (simp add: holds_versions_def)
    define d2 where "d2 = d1\<lparr>d_entries := (d_entries d1)(?q \<mapsto> File v), counter := (counter d1 + 1) mod 2 ^ 64\<rparr>"
    have c2: "copy_aside p p d1 = (Some ?q, d2)"
      using copy_aside_works [OF name, of d1 v ?q] o p q ne by (simp add: d1_def d2_def save_aside_def)
    define d3 where "d3 = d2\<lparr>d_entries := ((d_entries d2)(?tmp := None))(p \<mapsto> File c)\<rparr>"
    have c3: "fs_rename ?tmp p d2 = (Inr (), d3)"
      using fs_rename_works [of d2 ?tmp "File c" p] o ne by (simp add: d1_def d2_def d3_def)
    have e3: "d_entries d3 x = (if x = p then Some (File c) else if x = ?q then Some (File v) else if x = ?tmp then None else d_entries d x)" for x
      using ne by (simp add: d3_def d2_def d1_def)
    have pre: "outages d3 = []" "\<forall>k \<in> {1..n}. \<forall>t. d_entries d3 (?b k) \<noteq> Some (Link t)" "d_entries d3 ?q = Some (File v)"
        "?q \<notin> backups_of p n"
      using o vs ne by (auto simp: d1_def d2_def d3_def e3 holds_versions_def backups_of_def)
    obtain d4 where d4: "rotate_backups p ?q n d3 = (Inr (), d4)" "outages d4 = []" "counter d4 = counter d3"
        "d_entries d4 ?q = None" "d_entries d4 (?b 1) = Some (File v)"
        "\<forall>k. 1 \<le> k \<and> k < n \<longrightarrow> d_entries d4 (?b (k + 1)) = d_entries d3 (?b k)"
      using rotate_works [OF name pre(1) n pre(2-4)] by blast
    have k4: "same_but (insert ?q (backups_of p n)) d3 d4"
      using rotate_backupsD [OF d4(1) n] by (simp add: backups_of_def)
    have w4: "fsutil_atomic_write p c n d = (Inr Written, d4)"
      using n d4(2) by (simp add: w replace_file_def c2 c3 keep_previous_def d4(1) sync_dir_def)
    have "p \<notin> insert ?q (backups_of p n)" using ne(2,4) [THEN not_sym] by (auto simp: backups_of_def)
    then have "d_entries d4 p = Some (File c)" using k4 e3 by (simp add: same_but_def)
    moreover have "d_entries d4 (?b i) = (if i < length (c # vs) then Some (File ((c # vs) ! i)) else None)"
      if i: "i \<in> {1..n}" for i
    proof (cases "i = 1")
      case True
      then show ?thesis using d4(5) v by simp
    next
      case False
      then obtain k where k: "i = k + 1" "1 \<le> k" "k < n" using i by (cases i) auto
      then have "d_entries d4 (?b i) = d_entries d3 (?b k)" using d4(6) by simp
      also have "\<dots> = d_entries d (?b k)" using ne(4) ne(5,6) [THEN not_sym] by (simp add: e3)
      finally have "d_entries d4 (?b i) = d_entries d (?b k)" .
      then show ?thesis using vs k by (auto simp: holds_versions_def nth_Cons')
    qed
    ultimately have "holds_versions p n (c # vs) d4" by (simp add: holds_versions_def)
    moreover have "no_leftovers p d4"
    proof -
      have "d_entries d4 (temp_beside p kind (pid d) k) = None" for kind k
      proof (cases "temp_beside p kind (pid d) k = ?q")
        case True
        then show ?thesis using d4(4) by simp
      next
        case False
        then have "d_entries d4 (temp_beside p kind (pid d) k) = d_entries d3 (temp_beside p kind (pid d) k)"
          using k4 temp by (auto simp: same_but_def backups_of_def)
        then show ?thesis using False free temp by (simp add: e3 no_leftovers_def)
      qed
      moreover have "pid d4 = pid d" using k4 by (simp add: same_but_def d3_def d2_def d1_def)
      moreover have "counter d4 < 2 ^ 64" using d4(3) by (simp add: d3_def d2_def)
      ultimately show ?thesis using d4(2) by (simp add: no_leftovers_def)
    qed
    ultimately show ?thesis using w4 by blast
  qed (rule plain)
qed

lemma write_version_again:
  assumes "name_of_path p = Some name" and "no_leftovers p d" and "holds_versions p n vs d" and "vs \<noteq> []" and "hd vs = c"
  shows "fsutil_atomic_write p c n d = (Inr Unchanged, d)"
  using write_starts [OF assms(1,2), of vs c n] assms(3-5) by (simp add: holds_versions_def)

text \<open>
  C24: after any saves of a path without failing calls, the file holds the last version saved and the
  backups the versions before it, newest first, as many as are same_but; saving what is there already
  does not count, and no temporary file is left.
\<close>

theorem backups_are_last_versions:
  assumes "name_of_path p = Some name" and "no_leftovers p d" and "holds_versions p n [] d"
  shows "holds_versions p n (remdups_adj (rev saves)) (foldl (\<lambda>d c. snd (fsutil_atomic_write p c n d)) d saves) \<and>
    no_leftovers p (foldl (\<lambda>d c. snd (fsutil_atomic_write p c n d)) d saves)"
proof (induction saves rule: rev_induct)
  case (snoc c saves)
  let ?d = "foldl (\<lambda>d c. snd (fsutil_atomic_write p c n d)) d saves" and ?vs = "remdups_adj (rev saves)"
  have vs: "remdups_adj (rev (saves @ [c])) = (if ?vs \<noteq> [] \<and> hd ?vs = c then ?vs else c # ?vs)"
    by (cases "rev saves") (auto simp: remdups_adj_Cons split: list.splits)
  show ?case
  proof (cases "?vs \<noteq> [] \<and> hd ?vs = c")
    case True
    then have "fsutil_atomic_write p c n ?d = (Inr Unchanged, ?d)"
      using write_version_again [OF assms(1)] snoc by blast
    then show ?thesis using True snoc vs by simp
  next
    case False
    then obtain d' where "fsutil_atomic_write p c n ?d = (Inr Written, d')" "holds_versions p n (c # ?vs) d'" "no_leftovers p d'"
      using write_version [OF assms(1), of ?d n ?vs c] snoc by blast
    then show ?thesis using False vs by auto
  qed
qed (use assms in simp)

theorem backups_are_last_versions_witness:
  "d_entries (foldl (\<lambda>d c. snd (fsutil_atomic_write sample_path c 1 d))
     \<lparr>d_entries = Map.empty, outages = [], pid = 7, counter = 2 ^ 64 - 1\<rparr> [[1], [2], [2], [3]]) sample_path = Some (File [3])"
  using backups_are_last_versions [of sample_path "lit ''a''" "\<lparr>d_entries = Map.empty, outages = [], pid = 7, counter = 2 ^ 64 - 1\<rparr>"
      1 "[[1], [2], [2], [3]]"]
  by (simp add: holds_versions_def no_leftovers_def name_of_path_def sample_path_def lit_Cons)

subsection \<open>The write the vault uses\<close>

definition plain_file :: "disk \<Rightarrow> path \<Rightarrow> bytes option" where
  "plain_file d p = (case d_entries d p of Some (File b) \<Rightarrow> Some b | _ \<Rightarrow> None)"

lemma world_write_faults:
  "files w name \<noteq> Some c \<Longrightarrow> \<exists>w'. atomic_write (w\<lparr>faults := []\<rparr>) name c = (Inr Written, w') \<and> files w' name = Some c"
  "\<exists>w'. atomic_write (w\<lparr>faults := [True]\<rparr>) name c = (Inr Written, w') \<and> files w' name = Some c"
  "files w name = Some c \<Longrightarrow> \<exists>w'. atomic_write (w\<lparr>faults := []\<rparr>) name c = (Inr Unchanged, w') \<and> files w' name = Some c"
  "\<exists>w'. atomic_write (w\<lparr>faults := [True, True]\<rparr>) name c = (Inl OtherIo, w') \<and> files w' name = files w name"
  "\<exists>w'. atomic_write (w\<lparr>faults := [True, False, False, False, True]\<rparr>) name c = (Inl OtherIo, w') \<and> files w' name = Some c"
  by (auto simp: atomic_write_def fs_read_def next_fault_def Let_def split: option.splits)

text \<open>
  the vault's files are written as the world of the vault has it. A save without backups of a
  path that is no link has a result and leaves a file that \<open>World.atomic_write\<close> can give too, for
  some failing calls of its own, whatever calls failed here.
\<close>

theorem save_refines_world_write:
  assumes "fsutil_atomic_write p c 0 d = (r, d')" and "fst (resolve_links p d) = p"
    and "save_names_free p p 0 d" and "files w name = plain_file d p"
  shows "\<exists>fs w'. atomic_write (w\<lparr>faults := fs\<rparr>) name c = (r, w') \<and> files w' name = plain_file d' p"
proof -
  have s: "saved p p c 0 r d d'" using fsutil_atomic_write_cases [OF assms(1) _ assms(3)] assms(2) by simp
  show ?thesis
  proof (cases r)
    case (Inl e)
    then have "e = OtherIo" "plain_file d' p = Some c \<or> plain_file d' p = files w name"
      using s assms(4) by (auto simp: saved_def plain_file_def)
    then show ?thesis using world_write_faults(4,5) [of w name c] Inl by metis
  next
    case (Inr outcome)
    then show ?thesis
      using s assms(4) world_write_faults(2,3) [of w name c]
      by (cases outcome) (auto simp: saved_def plain_file_def)
  qed
qed

theorem save_refines_world_write_witness:
  "\<exists>fs w'. atomic_write (\<lparr>files = [lit ''a'' \<mapsto> [1]], faults = fs, rng = [], ring = ()\<rparr>) (lit ''a'') [2, 3] =
     (fst (fsutil_atomic_write sample_path [2, 3] 0 failing_disk), w')"
proof -
  have name: "name_of_path sample_path = Some (lit ''a'')" by (simp add: name_of_path_def sample_path_def lit_Cons)
  have "sample_path \<noteq> save_aside sample_path failing_disk"
    using temp_not_self [OF name, THEN not_sym] by (simp add: save_aside_def)
  then have free: "save_names_free sample_path sample_path 0 failing_disk"
    by (auto simp: save_names_free_def name failing_disk_def backups_of_def)
  let ?w = "\<lparr>files = [lit ''a'' \<mapsto> [1]], faults = [], rng = [], ring = ()\<rparr>"
  have "\<exists>fs w'. atomic_write (?w\<lparr>faults := fs\<rparr>) (lit ''a'') [2, 3] =
      (fst (fsutil_atomic_write sample_path [2, 3] 0 failing_disk), w') \<and>
      files w' (lit ''a'') = plain_file (snd (fsutil_atomic_write sample_path [2, 3] 0 failing_disk)) sample_path"
    by (rule save_refines_world_write [OF _ _ free])
       (simp_all add: failing_disk_path, simp add: plain_file_def failing_disk_def)
  then show ?thesis by auto
qed

end
