(* ===== verification/Known_Hosts.thy ===== *)
theory Known_Hosts
  imports Fsutil Utf8
begin

text \<open>
  \<open>known_hosts\<close> files (\<open>crates/opensesh-vault/src/known_hosts.rs\<close>): reading their lines, what a
  server's key means for a host, and OpenSesh's own file, where accepted keys are written.

  The crates behind them are the record \<open>hash_crates\<close>: base64 both ways, SHA-256 with its unpadded
  base64, and the HMAC-SHA1 of a name (\<open>None\<close> where the crate refuses the key).
\<close>

record hash_crates =
  b64_decode :: "str \<Rightarrow> bytes option"
  b64_encode :: "bytes \<Rightarrow> str"
  b64_unpadded :: "bytes \<Rightarrow> str"
  sha256 :: "bytes \<Rightarrow> bytes"
  hmac_sha1 :: "bytes \<Rightarrow> bytes \<Rightarrow> bytes option"

definition MAX_FILE :: nat where
  "MAX_FILE = 16 * 1024 * 1024"

definition DEFAULT_BACKUPS :: nat where
  "DEFAULT_BACKUPS = 5"

record known_host =
  kh_line :: nat
  kh_marker :: "str option"
  kh_hosts :: str
  kh_hashed :: bool
  kh_raw_hosts :: str
  kh_key_type :: str
  kh_key :: bytes
  kh_fingerprint :: str
  kh_comment :: str

record known_hosts =
  kn_entries :: "known_host list"
  kn_bad_lines :: "nat list"

subsection \<open>Patterns\<close>

definition ascii_lower_byte :: "byte \<Rightarrow> byte" where
  "ascii_lower_byte b = (if 65 \<le> b \<and> b \<le> 90 then b + 32 else b)"

fun wildcard :: "bytes \<Rightarrow> bytes \<Rightarrow> bool" where
  "wildcard [] name = (name = [])"
| "wildcard (c # rest) name =
     (if c = 42 then list_ex (\<lambda>skip. wildcard rest (drop skip name)) [0..<length name + 1]
      else case name of
             [] \<Rightarrow> False
           | h # tail \<Rightarrow> (c = 63 \<or> ascii_lower_byte c = ascii_lower_byte h) \<and> wildcard rest tail)"

fun patterns_from :: "bool \<Rightarrow> str list \<Rightarrow> str \<Rightarrow> bool" where
  "patterns_from matched [] name = matched"
| "patterns_from matched (pattern # ps) name =
     (case strip_prefix (lit ''!'') pattern of
        Some negated \<Rightarrow> if wildcard (utf8 negated) (utf8 name) then False else patterns_from matched ps name
      | None \<Rightarrow> patterns_from (matched \<or> wildcard (utf8 pattern) (utf8 name)) ps name)"

definition patterns_match :: "str \<Rightarrow> str \<Rightarrow> bool" where
  "patterns_match patterns name = patterns_from False (filter (\<lambda>p. p \<noteq> []) (split_on 44 patterns)) name"

definition hashed_matches :: "hash_crates \<Rightarrow> str \<Rightarrow> str \<Rightarrow> bool" where
  "hashed_matches h field name =
     (case strip_prefix (lit ''|1|'') field of
        None \<Rightarrow> False
      | Some rest \<Rightarrow>
          (case split_at_char 124 rest of
             None \<Rightarrow> False
           | Some (salt, hash) \<Rightarrow>
               (case (b64_decode h salt, b64_decode h hash) of
                  (Some salt, Some hash) \<Rightarrow> hmac_sha1 h salt (utf8 name) = Some hash
                | _ \<Rightarrow> False)))"

definition kh_matches :: "hash_crates \<Rightarrow> known_host \<Rightarrow> str \<Rightarrow> bool" where
  "kh_matches h e name =
     (if kh_hashed e then hashed_matches h (kh_raw_hosts e) name else patterns_match (kh_raw_hosts e) name)"

subsection \<open>Reading\<close>

definition key_fingerprint :: "hash_crates \<Rightarrow> bytes \<Rightarrow> str" where
  "key_fingerprint h blob = lit ''SHA256:'' @ b64_unpadded h (sha256 h blob)"

text \<open>The fields behind the marker: the hosts, the type, the key and the words of the comment.\<close>

definition parse_key :: "hash_crates \<Rightarrow> nat \<Rightarrow> str option \<Rightarrow> str \<Rightarrow> str list \<Rightarrow> known_host option" where
  "parse_key h number marker first parts =
     (case parts of
        key_type # key # comment \<Rightarrow>
          (case b64_decode h key of
             None \<Rightarrow> None
           | Some blob \<Rightarrow>
               (if length blob < 4 \<or> length blob - 4 < from_be (take 4 blob) then None
                else if take (from_be (take 4 blob)) (drop 4 blob) \<noteq> utf8 key_type then None
                else Some \<lparr>kh_line = number, kh_marker = marker,
                       kh_hosts = (if starts_with first (lit ''|1|'') then [] else first),
                       kh_hashed = starts_with first (lit ''|1|''), kh_raw_hosts = first,
                       kh_key_type = key_type, kh_key = blob, kh_fingerprint = key_fingerprint h blob,
                       kh_comment = join_with (lit '' '') comment\<rparr>))
      | _ \<Rightarrow> None)"

definition kh_parse_line :: "hash_crates \<Rightarrow> str \<Rightarrow> nat \<Rightarrow> known_host option" where
  "kh_parse_line h line number =
     (case split_whitespace line of
        [] \<Rightarrow> None
      | first # parts \<Rightarrow>
          (case strip_prefix (lit ''@'') first of
             None \<Rightarrow> parse_key h number None first parts
           | Some name \<Rightarrow>
               (if name \<noteq> lit ''cert-authority'' \<and> name \<noteq> lit ''revoked'' then None
                else case parts of
                       [] \<Rightarrow> None
                     | first # parts \<Rightarrow> parse_key h number (Some name) first parts)))"

definition kh_add_line :: "hash_crates \<Rightarrow> known_hosts \<Rightarrow> nat \<times> str \<Rightarrow> known_hosts" where
  "kh_add_line h k l =
     (let line = trim (snd l)
      in if line = [] \<or> starts_with line (lit ''#'') then k
         else case kh_parse_line h line (fst l) of
                Some e \<Rightarrow> k\<lparr>kn_entries := kn_entries k @ [e]\<rparr>
              | None \<Rightarrow> k\<lparr>kn_bad_lines := kn_bad_lines k @ [fst l]\<rparr>)"

definition no_known_hosts :: known_hosts where
  "no_known_hosts = \<lparr>kn_entries = [], kn_bad_lines = []\<rparr>"

definition kh_parse :: "hash_crates \<Rightarrow> str \<Rightarrow> known_hosts" where
  "kh_parse h s = foldl (kh_add_line h) no_known_hosts (enumerate 1 (str_lines s))"

definition file_size :: "path \<Rightarrow> disk \<Rightarrow> (io_error + nat) \<times> disk" where
  "file_size p d = (let (r, d) = read_file p d in (case r of Inl e \<Rightarrow> Inl e | Inr b \<Rightarrow> Inr (length b), d))"

definition kh_read :: "hash_crates \<Rightarrow> path \<Rightarrow> disk \<Rightarrow> (io_error + known_hosts) \<times> disk" where
  "kh_read h p d =
     (let (meta, d) = file_size p d
      in case meta of
           Inl NotFound \<Rightarrow> (Inr no_known_hosts, d)
         | Inl e \<Rightarrow> (Inl e, d)
         | Inr len \<Rightarrow>
             (if MAX_FILE < len then (Inl OtherIo, d)
              else let (r, d) = read_file p d
                   in (case r of Inl e \<Rightarrow> Inl e | Inr b \<Rightarrow> Inr (kh_parse h (from_utf8_lossy b)), d)))"

subsection \<open>What a key means\<close>

definition host_name :: "str \<Rightarrow> nat \<Rightarrow> str" where
  "host_name host port =
     (let host = to_ascii_lower (trim host)
      in if port = 22 then host else lit ''['' @ host @ lit '']:'' @ decimal port)"

datatype host_key_status =
    Known path nat
  | New "str list"
  | Changed path nat str
  | Revoked path nat

fun find_revoked :: "(path \<times> known_hosts) list \<Rightarrow> bytes \<Rightarrow> host_key_status option" where
  "find_revoked [] key = None"
| "find_revoked ((file, known) # others) key =
     (case find (\<lambda>e. kh_marker e = Some (lit ''revoked'') \<and> kh_key e = key) (kn_entries known) of
        Some e \<Rightarrow> Some (Revoked file (kh_line e))
      | None \<Rightarrow> find_revoked others key)"

definition entries_for :: "hash_crates \<Rightarrow> known_hosts \<Rightarrow> str \<Rightarrow> known_host list" where
  "entries_for h known name = filter (\<lambda>e. kh_marker e = None \<and> kh_matches h e name) (kn_entries known)"

fun check_files :: "hash_crates \<Rightarrow> (path \<times> known_hosts) list \<Rightarrow> str \<Rightarrow> str \<Rightarrow> bytes \<Rightarrow> host_key_status" where
  "check_files h [] name key_type key = New []"
| "check_files h ((file, known) # others) name key_type key =
     (let for_host = entries_for h known name
      in case find (\<lambda>e. kh_key e = key) for_host of
           Some e \<Rightarrow> Known file (kh_line e)
         | None \<Rightarrow>
             (case find (\<lambda>e. kh_key_type e = key_type) for_host of
                Some e \<Rightarrow> Changed file (kh_line e) (kh_fingerprint e)
              | None \<Rightarrow>
                  (if for_host \<noteq> []
                   then New (map (\<lambda>e. kh_key_type e @ lit '' '' @ kh_fingerprint e) for_host)
                   else check_files h others name key_type key)))"

definition check_host_key ::
  "hash_crates \<Rightarrow> (path \<times> known_hosts) list \<Rightarrow> str \<Rightarrow> nat \<Rightarrow> str \<Rightarrow> bytes \<Rightarrow> host_key_status" where
  "check_host_key h others host port key_type key =
     (case find_revoked others key of
        Some status \<Rightarrow> status
      | None \<Rightarrow> check_files h others (host_name host port) key_type key)"

subsection \<open>Writing\<close>

definition keep_lines :: "(nat \<Rightarrow> bool) \<Rightarrow> str \<Rightarrow> str" where
  "keep_lines keep s = concat (map (\<lambda>(i, l). l @ [10]) (filter (\<lambda>(i, l). keep i) (enumerate 1 (str_lines s))))"

text \<open>\<open>read_to_string\<close>.\<close>

definition read_to_string :: "path \<Rightarrow> disk \<Rightarrow> (io_error + str) \<times> disk" where
  "read_to_string p d =
     (let (r, d) = read_file p d
      in (case r of
            Inl e \<Rightarrow> Inl e
          | Inr b \<Rightarrow> (case from_utf8 b of None \<Rightarrow> Inl OtherIo | Some s \<Rightarrow> Inr s), d))"

definition replaced_lines :: "hash_crates \<Rightarrow> known_hosts \<Rightarrow> str \<Rightarrow> str \<Rightarrow> nat list" where
  "replaced_lines h known name key_type =
     map kh_line (filter (\<lambda>e. kh_marker e = None \<and> kh_key_type e = key_type \<and> kh_matches h e name) (kn_entries known))"

definition remembered_text :: "hash_crates \<Rightarrow> str \<Rightarrow> str \<Rightarrow> str \<Rightarrow> bytes \<Rightarrow> str" where
  "remembered_text h current name key_type key =
     keep_lines (\<lambda>i. i \<notin> set (replaced_lines h (kh_parse h current) name key_type)) current
       @ name @ lit '' '' @ key_type @ lit '' '' @ b64_encode h key @ [10]"

definition remember :: "hash_crates \<Rightarrow> path \<Rightarrow> str \<Rightarrow> nat \<Rightarrow> str \<Rightarrow> bytes \<Rightarrow> disk \<Rightarrow> (io_error + unit) \<times> disk" where
  "remember h p host port key_type key d =
     (let (r, d) = read_to_string p d
      in case (case r of Inl NotFound \<Rightarrow> Inr [] | _ \<Rightarrow> r) of
           Inl e \<Rightarrow> (Inl e, d)
         | Inr current \<Rightarrow>
             (let (r, d) = fsutil_atomic_write p
                    (utf8 (remembered_text h current (host_name host port) key_type key)) DEFAULT_BACKUPS d
              in (case r of Inl e \<Rightarrow> Inl e | Inr _ \<Rightarrow> Inr (), d)))"

definition forget :: "path \<Rightarrow> nat list \<Rightarrow> disk \<Rightarrow> (io_error + unit) \<times> disk" where
  "forget p ls d =
     (let (r, d) = read_to_string p d
      in case r of
           Inl e \<Rightarrow> (Inl e, d)
         | Inr current \<Rightarrow>
             (let (r, d) = fsutil_atomic_write p (utf8 (keep_lines (\<lambda>i. i \<notin> set ls) current)) DEFAULT_BACKUPS d
              in (case r of Inl e \<Rightarrow> Inl e | Inr _ \<Rightarrow> Inr (), d)))"

subsection \<open>Patterns against a reference\<close>

text \<open>\<open>match_pattern\<close> of OpenSSH as rules.\<close>

inductive glob :: "bytes \<Rightarrow> bytes \<Rightarrow> bool" where
  glob_done: "glob [] []"
| glob_star: "glob rest tail \<Longrightarrow> glob (42 # rest) (run @ tail)"
| glob_any: "glob rest tail \<Longrightarrow> glob (63 # rest) (b # tail)"
| glob_byte: "glob rest tail \<Longrightarrow> ascii_lower_byte c = ascii_lower_byte b \<Longrightarrow> glob (c # rest) (b # tail)"

inductive_cases glob_NilE: "glob [] name"
inductive_cases glob_ConsE: "glob (c # rest) name"

lemma wildcard_star: "wildcard (42 # rest) name \<longleftrightarrow> (\<exists>run tail. name = run @ tail \<and> wildcard rest tail)"
proof
  assume "wildcard (42 # rest) name"
  then have "list_ex (\<lambda>skip. wildcard rest (drop skip name)) [0..<length name + 1]"
    by (simp only: wildcard.simps simp_thms if_True)
  then obtain skip where "wildcard rest (drop skip name)" by (auto simp only: list_ex_iff)
  then show "\<exists>run tail. name = run @ tail \<and> wildcard rest tail" by (metis append_take_drop_id)
next
  assume "\<exists>run tail. name = run @ tail \<and> wildcard rest tail"
  then obtain run tail where "name = run @ tail" "wildcard rest tail" by blast
  then have "length run \<in> set [0..<length name + 1]" "wildcard rest (drop (length run) name)" by auto
  then show "wildcard (42 # rest) name" by (simp only: wildcard.simps list_ex_iff simp_thms if_True) blast
qed

declare wildcard.simps(2) [simp del]

lemma wildcard_byte:
  "c \<noteq> 42 \<Longrightarrow> wildcard (c # rest) name \<longleftrightarrow>
     (\<exists>b tail. name = b # tail \<and> (c = 63 \<or> ascii_lower_byte c = ascii_lower_byte b) \<and> wildcard rest tail)"
  by (cases name) (simp_all add: wildcard.simps(2))

lemma glob_wildcard: "glob pattern name \<Longrightarrow> wildcard pattern name"
proof (induction rule: glob.induct)
  case (glob_any rest tail b)
  then show ?case by (subst wildcard_byte) auto
next
  case (glob_byte rest tail c b)
  then show ?case
  proof (cases "c = 42")
    case True
    then show ?thesis using wildcard_star [of rest "b # tail"] glob_byte by (metis append_Cons append_Nil)
  qed (auto simp: wildcard_byte)
qed (auto simp: wildcard_star)

lemma wildcard_glob: "wildcard pattern name \<Longrightarrow> glob pattern name"
proof (induction pattern arbitrary: name)
  case (Cons c rest)
  show ?case
  proof (cases "c = 42")
    case True
    then obtain run tail where "name = run @ tail" "wildcard rest tail" using Cons.prems wildcard_star by blast
    then show ?thesis using Cons.IH True by (auto intro: glob.intros)
  next
    case False
    then obtain b tail where "name = b # tail" "c = 63 \<or> ascii_lower_byte c = ascii_lower_byte b" "wildcard rest tail"
      using Cons.prems wildcard_byte by blast
    then show ?thesis using Cons.IH by (auto intro: glob.intros)
  qed
qed (auto intro: glob.intros)

lemma patterns_from_iff:
  "patterns_from matched ps name \<longleftrightarrow>
     (\<forall>p \<in> set ps. \<forall>q. strip_prefix (lit ''!'') p = Some q \<longrightarrow> \<not> wildcard (utf8 q) (utf8 name)) \<and>
     (matched \<or> (\<exists>p \<in> set ps. strip_prefix (lit ''!'') p = None \<and> wildcard (utf8 p) (utf8 name)))"
  by (induction matched ps name rule: patterns_from.induct) (auto split: option.splits)

text \<open>
  a list of patterns names a host as OpenSSH's does: some pattern without an exclamation mark
  matches it by the rules of \<open>glob\<close>, and no excluded pattern does. Empty patterns count for nothing.
\<close>

theorem patterns_match_iff_glob:
  "patterns_match patterns name \<longleftrightarrow>
     (\<exists>p \<in> set (split_on 44 patterns). p \<noteq> [] \<and> strip_prefix (lit ''!'') p = None \<and> glob (utf8 p) (utf8 name)) \<and>
     \<not> (\<exists>p \<in> set (split_on 44 patterns). \<exists>q. strip_prefix (lit ''!'') p = Some q \<and> glob (utf8 q) (utf8 name))"
proof -
  have g: "glob x y \<longleftrightarrow> wildcard x y" for x y using glob_wildcard wildcard_glob by blast
  have "strip_prefix (lit ''!'') p = Some q \<Longrightarrow> p \<noteq> []" for p q by (auto simp: strip_prefix_def lit_Cons)
  then show ?thesis unfolding g patterns_match_def patterns_from_iff by auto
qed

theorem patterns_match_iff_glob_witness:
  "patterns_match (lit ''*.Lan,!x.lan'') (lit ''a.lan'') \<and> \<not> patterns_match (lit ''*.Lan,!x.lan'') (lit ''x.lan'')"
proof -
  have s: "split_on 44 (lit ''*.Lan,!x.lan'') = [lit ''*.Lan'', lit ''!x.lan'']" by (simp add: lit_Cons)
  have l: "strip_prefix (lit ''!'') (lit ''*.Lan'') = None" "strip_prefix (lit ''!'') (lit ''!x.lan'') = Some (lit ''x.lan'')"
    by (simp_all add: strip_prefix_def lit_Cons)
  have w: "glob x y \<longleftrightarrow> wildcard x y" for x y using glob_wildcard wildcard_glob by blast
  have e: "wildcard (utf8 (lit ''*.Lan'')) (utf8 (lit ''a.lan''))" "\<not> wildcard (utf8 (lit ''x.lan'')) (utf8 (lit ''a.lan''))"
      "wildcard (utf8 (lit ''x.lan'')) (utf8 (lit ''x.lan''))"
    by (simp_all add: lit_Cons utf8_ascii wildcard.simps(2) ascii_lower_byte_def upt_rec)
  show ?thesis
    using e unfolding patterns_match_iff_glob s by (simp add: l w) (simp add: lit_Cons)
qed

lemma wildcard_refl: "wildcard p p"
proof (induction p)
  case (Cons c p)
  then show ?case
  proof (cases "c = 42")
    case True
    then show ?thesis using wildcard_star [of p "42 # p"] Cons by (metis append_Cons append_Nil)
  qed (simp add: wildcard_byte)
qed simp

subsection \<open>What the answers mean\<close>

lemma find_SomeD: "find P xs = Some x \<Longrightarrow> x \<in> set xs \<and> P x"
  by (auto simp: find_Some_iff)

lemma find_revoked_None:
  "find_revoked others key = None \<longleftrightarrow>
     (\<forall>f k e. (f, k) \<in> set others \<longrightarrow> e \<in> set (kn_entries k) \<longrightarrow> kh_key e = key \<longrightarrow> kh_marker e \<noteq> Some (lit ''revoked''))"
  by (induction others key rule: find_revoked.induct) (fastforce simp: find_None_iff split: option.splits dest!: find_SomeD)+

lemma find_revoked_Some: "find_revoked others key = Some s \<Longrightarrow> \<exists>f l. s = Revoked f l"
  by (induction others key rule: find_revoked.induct) (auto split: option.splits)

lemma check_files_Known:
  "check_files h others name kt key = Known f l \<Longrightarrow>
   \<exists>k e. (f, k) \<in> set others \<and> e \<in> set (entries_for h k name) \<and> kh_line e = l \<and> kh_key e = key"
proof (induction h others name kt key rule: check_files.induct)
  case (2 h f' k' others name kt key)
  show ?case
  proof (cases "find (\<lambda>e. kh_key e = key) (entries_for h k' name)")
    case None
    then have "check_files h others name kt key = Known f l"
      using 2(2) by (auto simp: Let_def split: option.splits if_splits)
    moreover have "find (\<lambda>e. kh_key_type e = kt) (entries_for h k' name) = None" "entries_for h k' name = []"
      using 2(2) None by (auto simp: Let_def split: option.splits if_splits)
    ultimately show ?thesis using 2(1) None by auto
  next
    case (Some e)
    then have "f = f'" "kh_line e = l" using 2(2) by simp_all
    then show ?thesis using find_SomeD [OF Some] by auto
  qed
qed simp

text \<open>
  a key is taken for known only where it is listed: an unmarked line of one of the files, about
  this host, has exactly this key, and no line of any file revokes it.
\<close>

theorem known_only_if_listed:
  assumes "check_host_key h others host port kt key = Known f l"
  shows "(\<exists>k e. (f, k) \<in> set others \<and> e \<in> set (kn_entries k) \<and> kh_marker e = None \<and>
      kh_matches h e (host_name host port) \<and> kh_line e = l \<and> kh_key e = key) \<and> find_revoked others key = None"
  using assms check_files_Known [of h others "host_name host port" kt key f l] find_revoked_Some [of others key]
  by (fastforce simp: check_host_key_def entries_for_def split: option.splits)

lemma check_files_skips:
  "\<forall>(f, k) \<in> set before. entries_for h k name = [] \<Longrightarrow>
   check_files h (before @ others) name kt key = check_files h others name kt key"
  by (induction before) auto

text \<open>
  C8: a changed key is never taken for a new or a known one. When the first file that knows the host
  has a key of this type for it and not this key, the answer is that the key changed (or is revoked),
  whatever the files after it say.
\<close>

theorem changed_key_is_caught:
  assumes "others = before @ (f, k) # later"
    and "\<forall>(f', k') \<in> set before. entries_for h k' (host_name host port) = []"
    and "e \<in> set (entries_for h k (host_name host port))" and "kh_key_type e = kt"
    and "\<forall>e \<in> set (entries_for h k (host_name host port)). kh_key e \<noteq> key"
  shows "(\<exists>l seen. check_host_key h others host port kt key = Changed f l seen) \<or>
    (\<exists>f' l. check_host_key h others host port kt key = Revoked f' l)"
proof (cases "find_revoked others key")
  case None
  let ?es = "entries_for h k (host_name host port)"
  have "find (\<lambda>e. kh_key e = key) ?es = None" using assms(5) by (auto simp: find_None_iff)
  moreover obtain e' where "find (\<lambda>e. kh_key_type e = kt) ?es = Some e'"
    using assms(3,4) by (cases "find (\<lambda>e. kh_key_type e = kt) ?es") (auto simp: find_None_iff)
  ultimately have "check_files h others (host_name host port) kt key = Changed f (kh_line e') (kh_fingerprint e')"
    using check_files_skips [OF assms(2)] by (simp add: assms(1) Let_def)
  then show ?thesis using None by (simp add: check_host_key_def)
qed (auto simp: check_host_key_def dest: find_revoked_Some)

subsection \<open>What is remembered\<close>

text \<open>What a numbered line says, and a file as the list of that.\<close>

definition line_entry :: "hash_crates \<Rightarrow> nat \<times> str \<Rightarrow> known_host option" where
  "line_entry h l =
     (if trim (snd l) = [] \<or> starts_with (trim (snd l)) (lit ''#'') then None
      else kh_parse_line h (trim (snd l)) (fst l))"

definition line_entries :: "hash_crates \<Rightarrow> (nat \<times> str) list \<Rightarrow> known_host list" where
  "line_entries h ls = List.map_filter (line_entry h) ls"

lemma line_entries_simps [simp]:
  "line_entries h [] = []"
  "line_entries h (l # ls) = (case line_entry h l of None \<Rightarrow> [] | Some e \<Rightarrow> [e]) @ line_entries h ls"
  "line_entries h (ls @ ls') = line_entries h ls @ line_entries h ls'"
  by (simp_all add: line_entries_def map_filter_def split: option.splits)

lemma kn_entries_foldl: "kn_entries (foldl (kh_add_line h) k ls) = kn_entries k @ line_entries h ls"
  by (induction ls arbitrary: k) (auto simp: kh_add_line_def line_entry_def Let_def split: option.splits)

lemma kn_entries_parse: "kn_entries (kh_parse h s) = line_entries h (enumerate 1 (str_lines s))"
  by (simp add: kh_parse_def kn_entries_foldl no_known_hosts_def)

abbreviation unnumbered :: "known_host \<Rightarrow> known_host" where
  "unnumbered e \<equiv> e\<lparr>kh_line := 0\<rparr>"

lemma parse_key_number: "parse_key h i marker first parts = map_option (\<lambda>e. e\<lparr>kh_line := i\<rparr>) (parse_key h j marker first parts)"
  by (auto simp: parse_key_def split: list.splits option.splits)

lemma line_entry_number: "line_entry h (i, l) = map_option (\<lambda>e. e\<lparr>kh_line := i\<rparr>) (line_entry h (j, l))"
  using parse_key_number [of h i _ _ _ j]
  by (auto simp: line_entry_def kh_parse_line_def split: list.splits option.splits)

lemma line_entry_line: "line_entry h (i, l) = Some e \<Longrightarrow> kh_line e = i"
  using line_entry_number [of h i l i] by (auto simp: option.map_sel) (metis known_host.select_convs(1) known_host.surjective known_host.update_convs(1))

lemma line_entry_cr: "line_entry h (i, drop_cr l) = line_entry h (i, l)"
  by (simp add: line_entry_def trim_drop_cr)

lemma line_entries_filter:
  assumes "\<And>e. e \<in> set (line_entries h (enumerate n ls)) \<Longrightarrow> keep (kh_line e) \<longleftrightarrow> P e"
  shows "line_entries h (filter (\<lambda>(i, l). keep i) (enumerate n ls)) = filter P (line_entries h (enumerate n ls))"
  using assms
proof (induction ls arbitrary: n)
  case (Cons l ls)
  have "line_entries h (filter (\<lambda>(i, l). keep i) (enumerate (Suc n) ls)) = filter P (line_entries h (enumerate (Suc n) ls))"
    using Cons.prems by (intro Cons.IH) simp
  then show ?case using Cons.prems line_entry_line [of h n l] by (cases "line_entry h (n, l)") auto
qed simp

lemma line_numbers_inj:
  assumes "e \<in> set (line_entries h (enumerate n ls))" and "e' \<in> set (line_entries h (enumerate n ls))" and "kh_line e = kh_line e'"
  shows "e = e'"
proof -
  have at: "\<exists>i l. (i, l) \<in> set (enumerate n ls) \<and> line_entry h (i, l) = Some e"
    if "e \<in> set (line_entries h (enumerate n ls))" for e
    using that unfolding line_entries_def map_filter_def by fastforce
  obtain i l where e: "(i, l) \<in> set (enumerate n ls)" "line_entry h (i, l) = Some e" using at [OF assms(1)] by blast
  obtain i' l' where e': "(i', l') \<in> set (enumerate n ls)" "line_entry h (i', l') = Some e'" using at [OF assms(2)] by blast
  have "i = i'" using line_entry_line e(2) e'(2) assms(3) by metis
  then have "l = l'" using e(1) e'(1) by (auto simp: in_set_enumerate_eq)
  then show ?thesis using e(2) e'(2) \<open>i = i'\<close> by simp
qed

text \<open>The lines of a text that was put together from kept lines.\<close>

lemma str_lines_keep:
  "str_lines (keep_lines keep s @ t) =
     map drop_cr (map snd (filter (\<lambda>(i, l). keep i) (enumerate 1 (str_lines s)))) @ str_lines t"
proof -
  let ?ls = "map snd (filter (\<lambda>(i, l). keep i) (enumerate 1 (str_lines s)))"
  have "keep_lines keep s = concat (map (\<lambda>l. l @ [10]) ?ls)"
    unfolding keep_lines_def map_map by (rule arg_cong [where f = concat], rule map_cong) auto
  moreover have "\<forall>l \<in> set ?ls. 10 \<notin> set l"
  proof
    fix l assume "l \<in> set ?ls"
    moreover have "set ?ls \<subseteq> set (map snd (enumerate 1 (str_lines s)))"
      unfolding set_map by (rule image_mono) (rule filter_is_subset)
    ultimately have "l \<in> set (map snd (enumerate 1 (str_lines s)))" by (rule rev_subsetD)
    then show "10 \<notin> set l" unfolding map_snd_enumerate by (rule str_lines_no_feed)
  qed
  ultimately show ?thesis using str_lines_written [of ?ls t] by (simp only:)
qed

lemma renumber_lines:
  "map unnumbered (line_entries h (enumerate n (map drop_cr (map snd ls)))) = map unnumbered (line_entries h ls)"
proof (induction ls arbitrary: n)
  case (Cons l ls)
  obtain i s where l: "l = (i, s)" by force
  have "map_option unnumbered (line_entry h (n, drop_cr s)) = map_option unnumbered (line_entry h (i, s))"
    using line_entry_number [of h n s i] by (simp add: line_entry_cr option.map_comp comp_def)
  then show ?case using Cons [of "Suc n"] l
    by (cases "line_entry h (n, drop_cr s)"; cases "line_entry h (i, s)") auto
qed simp

text \<open>A host and a key that fit on a line, and the crates as documented.\<close>

definition plain_name :: "str \<Rightarrow> bool" where
  "plain_name name \<longleftrightarrow>
     name \<noteq> [] \<and> list_all (\<lambda>x. \<not> is_whitespace x \<and> x \<noteq> 44 \<and> scalar x) name \<and>
     hd name \<notin> {33, 35, 64} \<and> \<not> starts_with name (lit ''|1|'')"

definition plain_key :: "str \<Rightarrow> bytes \<Rightarrow> bool" where
  "plain_key key_type key \<longleftrightarrow>
     key_type \<noteq> [] \<and> list_all (\<lambda>x. \<not> is_whitespace x \<and> scalar x) key_type \<and>
     4 \<le> length key \<and> from_be (take 4 key) = length (utf8 key_type) \<and>
     take (length (utf8 key_type)) (drop 4 key) = utf8 key_type"

definition base64_ok :: "hash_crates \<Rightarrow> bool" where
  "base64_ok h \<longleftrightarrow>
     (\<forall>k. b64_decode h (b64_encode h k) = Some k \<and> (k \<noteq> [] \<longrightarrow> b64_encode h k \<noteq> []) \<and>
        list_all (\<lambda>x. \<not> is_whitespace x \<and> scalar x) (b64_encode h k))"

definition new_entry :: "hash_crates \<Rightarrow> nat \<Rightarrow> str \<Rightarrow> str \<Rightarrow> bytes \<Rightarrow> known_host" where
  "new_entry h number name key_type key =
     \<lparr>kh_line = number, kh_marker = None, kh_hosts = name, kh_hashed = False, kh_raw_hosts = name,
      kh_key_type = key_type, kh_key = key, kh_fingerprint = key_fingerprint h key, kh_comment = []\<rparr>"

lemma new_line_entry:
  assumes "base64_ok h" and "plain_name name" and "plain_key kt key"
  shows "line_entry h (i, name @ lit '' '' @ kt @ lit '' '' @ b64_encode h key) = Some (new_entry h i name kt key)"
proof -
  let ?b = "b64_encode h key" and ?l = "name @ lit '' '' @ kt @ lit '' '' @ b64_encode h key"
  have k: "key \<noteq> []" "4 \<le> length key" "from_be (take 4 key) = length (utf8 kt)"
      "take (length (utf8 kt)) (drop 4 key) = utf8 kt" and kt: "kt \<noteq> []" "\<forall>x \<in> set kt. \<not> is_whitespace x"
    using assms(3) by (auto simp: plain_key_def list_all_iff)
  have b: "?b \<noteq> []" "\<forall>x \<in> set ?b. \<not> is_whitespace x" "b64_decode h ?b = Some key"
    using assms(1) k(1) by (auto simp: base64_ok_def list_all_iff)
  have n: "name \<noteq> []" "\<forall>x \<in> set name. \<not> is_whitespace x" "hd name \<notin> {33, 35, 64}" "\<not> starts_with name (lit ''|1|'')"
    using assms(2) by (auto simp: plain_name_def list_all_iff)
  have sp: "lit '' '' = [32]" "is_whitespace 32" by (simp_all add: lit_Cons is_whitespace_def)
  have w: "split_whitespace ?l = [name, kt, ?b]"
    using n(1,2) kt b(1,2) sp by (simp add: split_whitespace_word split_whitespace_last)
  have "hd ?l = hd name" "last ?l = last ?b" using n(1) b(1) by simp_all
  then have "\<not> is_whitespace (hd ?l)" "\<not> is_whitespace (last ?l)"
    using n(1,2) b(1,2) hd_in_set [OF n(1)] last_in_set [OF b(1)] by metis+
  then have t: "trim ?l = ?l" by (intro trim_fix) simp
  obtain c cs where c: "name = c # cs" "c \<noteq> 35" "c \<noteq> 64" using n(1,3) by (cases name) auto
  have "\<not> starts_with ?l (lit ''#'')" "strip_prefix (lit ''@'') name = None"
    by (simp_all add: c starts_with_def strip_prefix_def lit_Cons)
  moreover have "length (utf8 kt) \<le> length key - 4" using k(4) by (metis length_drop length_take min.absorb_iff2 min.commute)
  ultimately show ?thesis
    using n(1,4) k(2-4) b(3)
    by (simp add: line_entry_def t kh_parse_line_def w parse_key_def new_entry_def del: append.simps)
qed

lemma new_entry_matches:
  assumes "plain_name name"
  shows "kh_matches h (new_entry h i name kt key) name"
proof -
  obtain c cs where c: "name = c # cs" "c \<noteq> 33" using assms by (cases name) (auto simp: plain_name_def)
  have "44 \<notin> set name" using assms by (auto simp: plain_name_def list_all_iff)
  then have "split_on 44 name = [name]" by (rule split_on_none)
  moreover have "strip_prefix (lit ''!'') name = None" by (simp add: c strip_prefix_def lit_Cons)
  ultimately show ?thesis using c(1)
    by (simp add: kh_matches_def new_entry_def patterns_match_def patterns_from_iff wildcard_refl)
qed

lemma remembered_lines:
  assumes "base64_ok h" and "plain_name name" and "plain_key kt key"
  shows "str_lines (remembered_text h current name kt key) =
    map drop_cr (map snd (filter (\<lambda>(i, l). i \<notin> set (replaced_lines h (kh_parse h current) name kt)) (enumerate 1 (str_lines current)))) @
    [drop_cr (name @ lit '' '' @ kt @ lit '' '' @ b64_encode h key)]"
proof -
  let ?l = "name @ lit '' '' @ kt @ lit '' '' @ b64_encode h key"
  have w: "is_whitespace 10" by (simp add: is_whitespace_def)
  have "10 \<notin> set ?l"
    using assms w by (auto simp: plain_name_def plain_key_def base64_ok_def list_all_iff lit_Cons)
  then have "str_lines (?l @ [10]) = [drop_cr ?l]" using str_lines_line [of ?l "[]"] by (simp add: str_lines_def)
  then show ?thesis unfolding remembered_text_def str_lines_keep by simp
qed

text \<open>
  accepting a key replaces the lines about this host and this type of key, and only those: the
  other lines of the file say what they said, in their order, and the accepted key comes last.
\<close>

theorem remember_replaces_only_the_key:
  assumes "base64_ok h" and "plain_name name" and "plain_key kt key"
  shows "map unnumbered (kn_entries (kh_parse h (remembered_text h current name kt key))) =
    map unnumbered (filter (\<lambda>e. \<not> (kh_marker e = None \<and> kh_key_type e = kt \<and> kh_matches h e name)) (kn_entries (kh_parse h current))) @
    [new_entry h 0 name kt key]"
proof -
  let ?es = "kn_entries (kh_parse h current)" and ?ls = "enumerate 1 (str_lines current)"
  let ?P = "\<lambda>e. kh_marker e = None \<and> kh_key_type e = kt \<and> kh_matches h e name"
  let ?R = "replaced_lines h (kh_parse h current) name kt"
  have keep: "kh_line e \<notin> set ?R \<longleftrightarrow> \<not> ?P e" if "e \<in> set (line_entries h ?ls)" for e
  proof
    assume "kh_line e \<notin> set ?R"
    then show "\<not> ?P e" using that unfolding replaced_lines_def kn_entries_parse by auto
  next
    assume no: "\<not> ?P e"
    have "e' = e" if "e' \<in> set (line_entries h ?ls)" "kh_line e' = kh_line e" for e'
      using line_numbers_inj [OF that(1) \<open>e \<in> set (line_entries h ?ls)\<close> that(2)] .
    then show "kh_line e \<notin> set ?R" using no unfolding replaced_lines_def kn_entries_parse by auto
  qed
  let ?kept = "filter (\<lambda>(i, l). i \<notin> set ?R) ?ls"
  define l where "l = name @ lit '' '' @ kt @ lit '' '' @ b64_encode h key"
  have "map_option unnumbered (line_entry h (i, drop_cr l)) = Some (new_entry h 0 name kt key)" for i
    using new_line_entry [OF assms, of i] by (simp add: line_entry_cr l_def) (simp add: new_entry_def)
  note entry = this
  have n: "map unnumbered (line_entries h (enumerate i [drop_cr l])) = [new_entry h 0 name kt key]" for i
  proof -
    obtain e where "line_entry h (i, drop_cr l) = Some e" "unnumbered e = new_entry h 0 name kt key"
      using entry [of i] unfolding map_option_eq_Some by blast
    then show ?thesis by simp
  qed
  have "map unnumbered (kn_entries (kh_parse h (remembered_text h current name kt key))) =
      map unnumbered (line_entries h (enumerate 1 (map drop_cr (map snd ?kept)))) @ [new_entry h 0 name kt key]"
    unfolding kn_entries_parse remembered_lines [OF assms] enumerate_append_eq line_entries_simps(3) map_append
      l_def [symmetric] n ..
  also have "\<dots> = map unnumbered (line_entries h ?kept) @ [new_entry h 0 name kt key]"
    by (simp only: renumber_lines)
  also have "line_entries h ?kept = filter (\<lambda>e. \<not> ?P e) ?es"
    unfolding kn_entries_parse by (rule line_entries_filter) (rule keep)
  finally show ?thesis .
qed

subsection \<open>An accepted key is known\<close>

lemma keep_lines_scalar: "list_all scalar s \<Longrightarrow> list_all scalar (keep_lines keep s)"
proof -
  assume s: "list_all scalar s"
  have sub: "set l \<subseteq> set s" if "l \<in> set (str_lines s)" for l s
    using that
  proof (induction s rule: split_inclusive.induct)
    case (2 c s)
    show ?case
    proof (cases "dropWhile (\<lambda>x. x \<noteq> 10) (c # s)")
      case Nil
      then have "str_lines (c # s) = [if last (c # s) = 10 then line_of (c # s) else c # s]"
        by (subst str_lines_def, subst split_inclusive.simps(2), subst Nil) simp
      moreover have "set (line_of (c # s)) \<subseteq> set (c # s)"
        unfolding line_of_def Let_def by (auto dest!: in_set_butlastD split: if_splits simp del: butlast.simps)
      ultimately show ?thesis using 2(2) by (auto split: if_splits)
    next
      case (Cons n rest)
      let ?l = "takeWhile (\<lambda>x. x \<noteq> 10) (c # s)"
      have "n = 10" using hd_dropWhile [of "\<lambda>x. x \<noteq> 10" "c # s"] Cons by (simp del: dropWhile.simps)
      then have e: "c # s = ?l @ 10 # rest" using takeWhile_dropWhile_id [of "\<lambda>x. x \<noteq> 10" "c # s"] Cons by metis
      have nl: "10 \<notin> set ?l" by (auto dest: set_takeWhileD)
      have "str_lines (c # s) = drop_cr ?l # str_lines rest" by (subst e) (rule str_lines_line [OF nl])
      then have "l = drop_cr ?l \<or> l \<in> set (str_lines rest)" using 2(2) by simp
      moreover have "set (drop_cr ?l) \<subseteq> set ?l" by (auto simp: drop_cr_def dest: in_set_butlastD split: if_splits)
      moreover have "set ?l \<subseteq> set (c # s)" "set rest \<subseteq> set (c # s)"
        using arg_cong [OF e, of set] by auto
      ultimately show ?thesis using 2(1) [OF Cons] by blast
    qed
  qed (simp add: str_lines_def)
  have "\<forall>x \<in> set l. scalar x" if "(i, l) \<in> set (enumerate 1 (str_lines s))" for i l
  proof -
    have "l \<in> set (str_lines s)"
      using imageI [OF that, of snd] by (simp only: set_map [symmetric] map_snd_enumerate snd_conv)
    then show ?thesis using sub s by (auto simp: list_all_iff)
  qed
  then show ?thesis by (auto simp: keep_lines_def list_all_iff scalar_def)
qed

lemma remembered_scalar:
  assumes "list_all scalar current" and "base64_ok h" and "plain_name name" and "plain_key kt key"
  shows "list_all scalar (remembered_text h current name kt key)"
proof -
  have "list_all scalar name" "list_all scalar kt" "list_all scalar (b64_encode h key)"
    using assms(2-4) by (auto simp: plain_name_def plain_key_def base64_ok_def list_all_iff)
  moreover have "scalar 32" "scalar 10" by (simp_all add: scalar_def)
  ultimately show ?thesis using keep_lines_scalar [OF assms(1)] by (simp add: remembered_text_def lit_Cons)
qed

lemma resolve_plain: "\<forall>l. d_entries d p \<noteq> Some (Link l) \<Longrightarrow> fst (resolve_links p d) = p"
proof -
  assume "\<forall>l. d_entries d p \<noteq> Some (Link l)"
  moreover obtain f d1 where o: "outage d = (f, d1)" by force
  ultimately have "\<forall>l. d_entries d1 p \<noteq> Some (Link l)" using outageD [OF o] by simp
  then show ?thesis
    by (auto simp: resolve_links_def MAX_LINK_HOPS_def o numeral_eq_Suc split: option.splits dir_entry.splits)
qed

lemma remember_writes:
  assumes "remember h p host port kt key d = (Inr (), d')" and "save_names_free p p DEFAULT_BACKUPS d"
    and "base64_ok h" and "plain_name (host_name host port)" and "plain_key kt key"
  shows "\<exists>current. list_all scalar current \<and>
    d_entries d' p = Some (File (utf8 (remembered_text h current (host_name host port) kt key)))"
proof -
  obtain r d1 where r: "read_file p d = (r, d1)" by force
  note e1 = read_fileD [OF r]
  obtain current where cur: "list_all scalar current"
      "(case read_to_string p d of (r, d) \<Rightarrow> (case r of Inl NotFound \<Rightarrow> Inr [] | _ \<Rightarrow> r, d)) = (Inr current, d1)"
    using assms(1) from_utf8_scalar
    by (auto simp: remember_def read_to_string_def r split: sum.splits option.splits io_error.splits)
  let ?t = "utf8 (remembered_text h current (host_name host port) kt key)"
  obtain w d2 where w: "fsutil_atomic_write p ?t DEFAULT_BACKUPS d1 = (w, d2)" by force
  have d': "d' = d2" "\<exists>outcome. w = Inr outcome"
    using assms(1) cur(2) w by (auto simp: remember_def Let_def split: prod.splits sum.splits)
  have free: "save_names_free p p DEFAULT_BACKUPS d1"
    using assms(2) e1 by (simp add: save_names_free_def save_aside_def)
  have "\<forall>l. d_entries d1 p \<noteq> Some (Link l)" using save_names_distinct(7) [OF free] .
  then have "saved p p ?t DEFAULT_BACKUPS w d1 d2"
    using fsutil_atomic_write_cases [OF w _ free] resolve_plain by metis
  moreover obtain outcome where "w = Inr outcome" using d'(2) by blast
  ultimately have "d_entries d2 p = Some (File ?t)" by (cases outcome) (auto simp: saved_def)
  then show ?thesis using cur(1) d'(1) by blast
qed

lemma kh_read_file:
  assumes "d_entries d p = Some (File (utf8 s))" and "list_all scalar s" and "kh_read h p d = (Inr known, d')"
  shows "known = kh_parse h s"
proof -
  obtain r1 d1 where a: "read_file p d = (r1, d1)" by force
  obtain r2 d2 where b: "read_file p d1 = (r2, d2)" by force
  have e: "d_entries d1 p = Some (File (utf8 s))" "d_entries (snd (outage d)) = d_entries d" "d_entries (snd (outage d1)) = d_entries d1"
    using assms(1) read_fileD [OF a] outageD [of d "fst (outage d)"] outageD [of d1 "fst (outage d1)"] by simp_all
  have "r1 = Inl OtherIo \<or> r1 = Inr (utf8 s)" "r2 = Inl OtherIo \<or> r2 = Inr (utf8 s)"
    using a b assms(1) e by (auto simp: read_file_def split_beta split: if_splits)
  then show ?thesis using assms(2,3)
    by (auto simp: kh_read_def file_size_def a b from_utf8_lossy_utf8 split: if_splits)
qed

text \<open>
  C7: a key that the user accepted is known from then on. Once the save reports success, reading the
  file back gives d_entries with which the host's key is known from that file, in front of whatever
  other files say, unless the key is revoked.
\<close>

theorem remembered_key_is_known:
  assumes "remember h p host port kt key d = (Inr (), d')" and "save_names_free p p DEFAULT_BACKUPS d"
    and "base64_ok h" and "plain_name (host_name host port)" and "plain_key kt key"
    and "kh_read h p d' = (Inr known, d'')" and "find_revoked ((p, known) # others) key = None"
  shows "\<exists>l. check_host_key h ((p, known) # others) host port kt key = Known p l"
proof -
  let ?name = "host_name host port"
  obtain current where c: "list_all scalar current" "d_entries d' p = Some (File (utf8 (remembered_text h current ?name kt key)))"
    using remember_writes [OF assms(1-5)] by blast
  have known: "known = kh_parse h (remembered_text h current ?name kt key)"
    using kh_read_file [OF c(2) remembered_scalar [OF c(1) assms(3-5)] assms(6)] .
  let ?xs = "map drop_cr (map snd (filter (\<lambda>(i, l). i \<notin> set (replaced_lines h (kh_parse h current) ?name kt)) (enumerate 1 (str_lines current))))"
  define l where "l = ?name @ lit '' '' @ kt @ lit '' '' @ b64_encode h key"
  define i where "i = 1 + length ?xs"
  have "kn_entries known = line_entries h (enumerate 1 ?xs) @ line_entries h (enumerate i [drop_cr l])"
    unfolding known kn_entries_parse remembered_lines [OF assms(3-5)] enumerate_append_eq line_entries_simps(3)
      l_def [symmetric] i_def ..
  moreover have "line_entry h (i, drop_cr l) = Some (new_entry h i ?name kt key)"
    unfolding line_entry_cr l_def by (rule new_line_entry [OF assms(3-5)])
  ultimately have "new_entry h i ?name kt key \<in> set (kn_entries known)" by simp
  then have e: "new_entry h i ?name kt key \<in> set (entries_for h known ?name)"
    using new_entry_matches [OF assms(4)] by (simp add: entries_for_def) (simp add: new_entry_def)
  obtain e' where "find (\<lambda>e. kh_key e = key) (entries_for h known ?name) = Some e'"
    using e by (cases "find (\<lambda>e. kh_key e = key) (entries_for h known ?name)") (auto simp: find_None_iff new_entry_def)
  then show ?thesis using assms(7) by (simp add: check_host_key_def Let_def)
qed

text \<open>Crates for the examples: base64 with two letters a byte, and no hashing worth the name.\<close>

fun two_letters :: "str \<Rightarrow> bytes option" where
  "two_letters [] = Some []"
| "two_letters (a # b # s) = map_option ((#) (word_of_nat ((a - 97) * 16 + (b - 97)))) (two_letters s)"
| "two_letters [a] = None"

definition sample_crates :: hash_crates where
  "sample_crates =
     \<lparr>b64_decode = two_letters,
      b64_encode = (\<lambda>k. concat (map (\<lambda>b. [97 + unat b div 16, 97 + unat b mod 16]) k)),
      b64_unpadded = (\<lambda>k. []), sha256 = (\<lambda>k. []), hmac_sha1 = (\<lambda>k m. None)\<rparr>"

lemma sample_base64: "base64_ok sample_crates"
proof -
  have d: "two_letters (concat (map (\<lambda>b. [97 + unat b div 16, 97 + unat b mod 16]) k)) = Some k" for k :: bytes
    by (induction k) simp_all
  have "\<forall>x \<in> set [97 + unat b div 16, 97 + unat b mod 16]. 97 \<le> x \<and> x < 113" for b :: byte
  proof -
    have "unat b < 256" using unsigned_less [of b] by simp
    then show ?thesis by auto
  qed
  then have "\<forall>x \<in> set (concat (map (\<lambda>b. [97 + unat b div 16, 97 + unat b mod 16]) k)). 97 \<le> x \<and> x < 113" for k :: bytes
    by (induction k) auto
  then have "list_all (\<lambda>x. \<not> is_whitespace x \<and> scalar x) (concat (map (\<lambda>b. [97 + unat b div 16, 97 + unat b mod 16]) k))" for k :: bytes
    unfolding list_all_iff is_whitespace_def scalar_def by fastforce
  then show ?thesis by (simp add: base64_ok_def sample_crates_def d)
qed

definition empty_disk :: disk where
  "empty_disk = \<lparr>d_entries = Map.empty, outages = [], pid = 7, counter = 3\<rparr>"

definition sample_key :: bytes where
  "sample_key = [0, 0, 0, 1, 107, 5]"

theorem remember_replaces_only_the_key_witness:
  "map kh_raw_hosts (kn_entries (kh_parse sample_crates (remembered_text sample_crates [] (lit ''web'') (lit ''k'') sample_key)))
     = [lit ''web'']"
proof -
  have "plain_name (lit ''web'')" "plain_key (lit ''k'') sample_key"
    by (simp_all add: plain_name_def plain_key_def lit_Cons is_whitespace_def scalar_def starts_with_def utf8_ascii
        sample_key_def from_be_def)
  note r = remember_replaces_only_the_key [OF sample_base64 this, of "[]"]
  have "map (kh_raw_hosts \<circ> unnumbered) (kn_entries (kh_parse sample_crates (remembered_text sample_crates [] (lit ''web'') (lit ''k'') sample_key)))
     = [lit ''web'']"
    using arg_cong [OF r, of "map kh_raw_hosts"]
    by (simp add: kh_parse_def str_lines_def no_known_hosts_def new_entry_def)
  then show ?thesis by (simp add: comp_def)
qed

lemma sample_plain: "plain_name (host_name (lit ''Web'') 22)" "plain_key (lit ''k'') sample_key"
  by (simp_all add: host_name_def trim_def to_ascii_lower_def plain_name_def plain_key_def lit_Cons is_whitespace_def
      scalar_def starts_with_def utf8_ascii sample_key_def from_be_def)

theorem remembered_key_is_known_witness:
  "\<exists>d' known l. remember sample_crates sample_path (lit ''Web'') 22 (lit ''k'') sample_key empty_disk = (Inr (), d') \<and>
     fst (kh_read sample_crates sample_path d') = Inr known \<and>
     check_host_key sample_crates [(sample_path, known)] (lit ''Web'') 22 (lit ''k'') sample_key = Known sample_path l"
proof -
  have name: "name_of_path sample_path = Some (lit ''a'')" by (simp add: name_of_path_def sample_path_def lit_Cons)
  have free: "no_leftovers sample_path empty_disk" "holds_versions sample_path DEFAULT_BACKUPS [] empty_disk"
    by (simp_all add: no_leftovers_def holds_versions_def empty_disk_def)
  let ?t = "remembered_text sample_crates [] (host_name (lit ''Web'') 22) (lit ''k'') sample_key"
  obtain d' where d': "fsutil_atomic_write sample_path (utf8 ?t) DEFAULT_BACKUPS empty_disk = (Inr Written, d')"
      "holds_versions sample_path DEFAULT_BACKUPS [utf8 ?t] d'" "no_leftovers sample_path d'"
    using write_version [OF name free] by blast
  have "read_to_string sample_path empty_disk = (Inl NotFound, empty_disk)"
    by (simp add: read_to_string_def read_file_def empty_disk_def)
  then have r: "remember sample_crates sample_path (lit ''Web'') 22 (lit ''k'') sample_key empty_disk = (Inr (), d')"
    using d'(1) by (simp add: remember_def)
  have n: "sample_path \<noteq> save_aside sample_path empty_disk" "sample_path \<notin> backups_of sample_path DEFAULT_BACKUPS"
    using temp_not_self [OF name, THEN not_sym] backup_path_not_self [OF name, THEN not_sym]
    by (auto simp: save_aside_def backups_of_def)
  have names: "save_names_free sample_path sample_path DEFAULT_BACKUPS empty_disk"
    using n by (auto simp: save_names_free_def name empty_disk_def)
  let ?k = "kh_parse sample_crates ?t"
  have t: "?t = lit ''web k aaaaaaabglaf'' @ [10]"
    by (simp add: remembered_text_def keep_lines_def str_lines_def host_name_def trim_def to_ascii_lower_def lit_Cons
        is_whitespace_def sample_crates_def sample_key_def)
  then have len: "length (utf8 ?t) = 19" "list_all scalar ?t" by (simp_all add: lit_Cons utf8_ascii scalar_def)
  have "outages d' = []" "d_entries d' sample_path = Some (File (utf8 ?t))"
    using d'(2,3) by (simp_all add: no_leftovers_def holds_versions_def)
  then have k: "kh_read sample_crates sample_path d' = (Inr ?k, d')"
    using len by (simp add: kh_read_def file_size_def read_file_def MAX_FILE_def from_utf8_lossy_utf8)
  have "map (kh_marker \<circ> unnumbered) (kn_entries ?k) = [None]"
    using arg_cong [OF remember_replaces_only_the_key [OF sample_base64 sample_plain, of "[]"], of "map kh_marker"]
    by (simp add: kh_parse_def str_lines_def no_known_hosts_def new_entry_def)
  then have "\<forall>e \<in> set (kn_entries ?k). kh_marker e = None" by auto
  then have "find_revoked [(sample_path, ?k)] sample_key = None"
    unfolding find_revoked_None by auto
  from remembered_key_is_known [OF r names sample_base64 sample_plain k this] k r show ?thesis by auto
qed

definition sample_known :: known_hosts where
  "sample_known = \<lparr>kn_entries = [new_entry sample_crates 3 (lit ''web'') (lit ''k'') sample_key], kn_bad_lines = []\<rparr>"

lemma sample_for: "entries_for sample_crates sample_known (host_name (lit ''Web'') 22) =
    [new_entry sample_crates 3 (lit ''web'') (lit ''k'') sample_key]"
proof -
  have "host_name (lit ''Web'') 22 = lit ''web''"
    by (simp add: host_name_def trim_def to_ascii_lower_def lit_Cons is_whitespace_def)
  then show ?thesis using new_entry_matches sample_plain(1)
    by (simp add: entries_for_def sample_known_def) (simp add: new_entry_def)
qed

theorem known_only_if_listed_witness:
  "check_host_key sample_crates [(sample_path, sample_known)] (lit ''Web'') 22 (lit ''k'') sample_key = Known sample_path 3 \<and>
   find_revoked [(sample_path, sample_known)] sample_key = None"
proof -
  have "check_host_key sample_crates [(sample_path, sample_known)] (lit ''Web'') 22 (lit ''k'') sample_key = Known sample_path 3"
  proof -
    have "find_revoked [(sample_path, sample_known)] sample_key = None" by (simp add: sample_known_def new_entry_def)
    moreover have "check_files sample_crates [(sample_path, sample_known)] (host_name (lit ''Web'') 22) (lit ''k'') sample_key
        = Known sample_path 3"
      by (simp only: check_files.simps sample_for Let_def) (simp add: new_entry_def)
    ultimately show ?thesis by (simp add: check_host_key_def)
  qed
  then show ?thesis using known_only_if_listed by blast
qed

theorem changed_key_is_caught_witness:
  "(\<exists>l seen. check_host_key sample_crates [(sample_path, sample_known)] (lit ''Web'') 22 (lit ''k'') [9] = Changed sample_path l seen) \<or>
   (\<exists>f l. check_host_key sample_crates [(sample_path, sample_known)] (lit ''Web'') 22 (lit ''k'') [9] = Revoked f l)"
  by (rule changed_key_is_caught [where before = "[]" and k = sample_known and later = "[]"
        and e = "new_entry sample_crates 3 (lit ''web'') (lit ''k'') sample_key"])
     (simp_all only: sample_for, simp_all add: new_entry_def sample_key_def)

end
