(* ===== verification/Hosts.thy ===== *)
theory Hosts
  imports Tunnels Target Command_Line
begin

text \<open>
  Saved hosts and groups (\<open>crates/opensesh-core/src/hosts/mod.rs\<close>): reading \<open>hosts.toml\<close> and repairing
  it, the chain of groups above a host, what a host inherits, the checks before a save, and the
  command that enters a container (\<open>hosts/containers.rs\<close>).

  What stands behind the file is the record \<open>host_crates\<close>: the parser, the conversion of a table to an
  entry that serde derives (with its message), new ids (the n-th drawn), \<open>to_lowercase\<close> of Unicode, and
  the warnings that the terminal settings give for a table of terminal options.
\<close>

subsection \<open>Data\<close>

datatype ssh_backend = BackendInternal | BackendOpenssh
datatype line_end = NewlineCr | NewlineLf | NewlineCrlf
datatype session_log = LogOff | LogText | LogRaw
datatype scaling = ScaleDynamic | ScaleFit | ScaleActual
datatype vnc_quality = QLossless | QLow | QMedium | QHigh

fun backend_str :: "ssh_backend \<Rightarrow> str" where
  "backend_str BackendInternal = lit ''internal''"
| "backend_str BackendOpenssh = lit ''openssh''"

fun log_str :: "session_log \<Rightarrow> str" where
  "log_str LogOff = lit ''off''"
| "log_str LogText = lit ''text''"
| "log_str LogRaw = lit ''raw''"

fun scaling_str :: "scaling \<Rightarrow> str" where
  "scaling_str ScaleDynamic = lit ''dynamic''"
| "scaling_str ScaleFit = lit ''fit''"
| "scaling_str ScaleActual = lit ''actual''"

fun jpeg_level :: "vnc_quality \<Rightarrow> nat option" where
  "jpeg_level QLossless = None"
| "jpeg_level QLow = Some 2"
| "jpeg_level QMedium = Some 5"
| "jpeg_level QHigh = Some 8"

record ssh_options =
  sh_backend :: "ssh_backend option"
  sh_agent_forwarding :: "bool option"
  sh_x11 :: "x11_forwarding option"
  sh_waypipe :: "bool option"
  sh_keepalive_secs :: "nat option"
  sh_compression :: "bool option"
  sh_startup_snippet :: "str option"
  sh_legacy_algorithms :: "bool option"
  sh_auth_order :: "str list option"
  sh_proxy :: "str option"
  sh_proxy_command :: "str option"
  sh_env :: "(str, str) btree_map option"
  sh_send_locale :: "bool option"
  sh_command :: "str option"
  sh_auto_reconnect :: "bool option"
  sh_log :: "session_log option"
  sh_detect_os :: "bool option"
  sh_monitor :: "bool option"
  sh_agent_socket :: "str option"

definition no_ssh_options :: ssh_options where
  "no_ssh_options =
     \<lparr>sh_backend = None, sh_agent_forwarding = None, sh_x11 = None, sh_waypipe = None, sh_keepalive_secs = None,
      sh_compression = None, sh_startup_snippet = None, sh_legacy_algorithms = None, sh_auth_order = None,
      sh_proxy = None, sh_proxy_command = None, sh_env = None, sh_send_locale = None, sh_command = None,
      sh_auto_reconnect = None, sh_log = None, sh_detect_os = None, sh_monitor = None, sh_agent_socket = None\<rparr>"

record sftp_options =
  sf_follow_cwd :: "bool option"
  sf_start_dir :: "str option"

definition no_sftp_options :: sftp_options where
  "no_sftp_options = \<lparr>sf_follow_cwd = None, sf_start_dir = None\<rparr>"

record host_serial = serial_options +
  so_newline :: "line_end option"
  so_local_echo :: "bool option"

record host_container = container_options +
  co_shell :: "str option"

record rdp_options =
  rd_domain :: "str option"
  rd_scaling :: "scaling option"
  rd_resolution :: "str option"
  rd_clipboard :: "bool option"

record vnc_options =
  vn_scaling :: "scaling option"
  vn_read_only :: "bool option"
  vn_quality :: "vnc_quality option"
  vn_clipboard :: "bool option"
  vn_shared :: "bool option"

record host_defaults =
  de_user :: "str option"
  de_port :: "nat option"
  de_jump :: "str list option"
  de_identity :: "str option"
  de_identity_file :: "str option"
  de_profile :: "str option"
  de_ssh :: ssh_options
  de_sftp :: sftp_options
  de_terminal :: table

record group =
  gr_id :: str
  gr_name :: str
  gr_parent :: "str option"
  gr_color :: str
  gr_notes :: str
  gr_defaults :: host_defaults
  gr_extra :: table

record host =
  ho_id :: str
  ho_name :: str
  ho_group :: "str option"
  ho_protocol :: protocol
  ho_address :: str
  ho_port :: "nat option"
  ho_user :: "str option"
  ho_identity :: "str option"
  ho_identity_file :: "str option"
  ho_jump :: "str list option"
  ho_profile :: "str option"
  ho_tags :: "str list"
  ho_favorite :: bool
  ho_color :: str
  ho_icon :: str
  ho_notes :: str
  ho_ssh :: ssh_options
  ho_sftp :: sftp_options
  ho_serial :: host_serial
  ho_container :: host_container
  ho_s3 :: s3_options
  ho_rdp :: rdp_options
  ho_vnc :: vnc_options
  ho_terminal :: table
  ho_extra :: table

text \<open>\<open>Host::default()\<close>.\<close>

definition host_default :: host where
  "host_default =
     \<lparr>ho_id = [], ho_name = [], ho_group = None, ho_protocol = PSsh, ho_address = [], ho_port = None, ho_user = None,
      ho_identity = None, ho_identity_file = None, ho_jump = None, ho_profile = None, ho_tags = [], ho_favorite = False,
      ho_color = [], ho_icon = lit ''auto'', ho_notes = [], ho_ssh = no_ssh_options, ho_sftp = no_sftp_options,
      ho_serial = \<lparr>so_baud = None, so_data_bits = None, so_parity = None, so_stop_bits = None, so_flow_control = None,
        so_newline = None, so_local_echo = None\<rparr>,
      ho_container = \<lparr>co_engine = None, co_namespace = None, co_pod_container = None, co_context = None, co_shell = None\<rparr>,
      ho_s3 = \<lparr>s3_region = None, s3_path_style = None\<rparr>,
      ho_rdp = \<lparr>rd_domain = None, rd_scaling = None, rd_resolution = None, rd_clipboard = None\<rparr>,
      ho_vnc = \<lparr>vn_scaling = None, vn_read_only = None, vn_quality = None, vn_clipboard = None, vn_shared = None\<rparr>,
      ho_terminal = [], ho_extra = []\<rparr>"

definition LINKED_PREFIX :: str where
  "LINKED_PREFIX = lit ''ssh_config:''"

definition is_linked :: "host \<Rightarrow> bool" where
  "is_linked h = starts_with (ho_id h) LINKED_PREFIX"

record linked_source =
  ls_kind :: str
  ls_path :: str
  ls_extra :: table

record hosts_file =
  hf_groups :: "group list"
  hf_hosts :: "host list"
  hf_sources :: "linked_source list"
  hf_read_only :: bool
  hf_extra :: table
  hf_base :: table

datatype origin = OriginDefault | OriginGroup str | OriginHost

record resolved =
  re_value :: "toml_value option"
  re_origin :: origin

record resolved_host =
  rh_host :: host
  rh_fields :: "(str, resolved) btree_map"

record host_crates =
  hc_parse :: "str \<Rightarrow> str + table"
  hc_group :: "toml_value \<Rightarrow> str + group"
  hc_host :: "toml_value \<Rightarrow> str + host"
  hc_source :: "toml_value \<Rightarrow> str + linked_source"
  hc_new_id :: "nat \<Rightarrow> str"
  hc_lowercase :: "str \<Rightarrow> str"
  hc_terminal_warnings :: "table \<Rightarrow> str \<Rightarrow> warning list"

definition MAX_ID_LEN :: nat where "MAX_ID_LEN = 200"
definition HOSTS_SCHEMA_VERSION :: int where "HOSTS_SCHEMA_VERSION = 1"

subsection \<open>Small parsers\<close>

definition resolution_side :: "str \<Rightarrow> nat option" where
  "resolution_side s =
     (case parse_uint u16_max (trim s) of Some n \<Rightarrow> if 200 \<le> n \<and> n \<le> 8192 then Some n else None | None \<Rightarrow> None)"

definition parse_resolution :: "str \<Rightarrow> (nat \<times> nat) option" where
  "parse_resolution s =
     (let s = trim s; width = takeWhile (\<lambda>c. c \<notin> {120, 88, 215}) s; rest = dropWhile (\<lambda>c. c \<notin> {120, 88, 215}) s
      in case rest of
           [] \<Rightarrow> None
         | _ # height \<Rightarrow>
             (case (resolution_side width, resolution_side height) of
                (Some w, Some h) \<Rightarrow> Some (w, h)
              | _ \<Rightarrow> None))"

definition rdp_size :: "rdp_options \<Rightarrow> (nat \<times> nat) option" where
  "rdp_size r = Option.bind (rd_resolution r) parse_resolution"

definition s3_region_of :: "s3_options \<Rightarrow> str" where
  "s3_region_of s = (case map_option trim (s3_region s) of Some r \<Rightarrow> if r = [] then lit ''us-east-1'' else r | None \<Rightarrow> lit ''us-east-1'')"

definition s3_path_style_of :: "s3_options \<Rightarrow> bool" where
  "s3_path_style_of s = (case s3_path_style s of Some b \<Rightarrow> b | None \<Rightarrow> True)"

definition is_endpoint :: "str \<Rightarrow> bool" where
  "is_endpoint s =
     (let s = trim s
      in case (case split_once s (lit ''://'') of
                 Some (scheme, rest) \<Rightarrow>
                   if eq_ignore_ascii_case scheme (lit ''http'') \<or> eq_ignore_ascii_case scheme (lit ''https'')
                   then Some rest else None
               | None \<Rightarrow> Some s) of
           None \<Rightarrow> False
         | Some rest \<Rightarrow>
             (let rest = trim_end_char 47 rest
              in rest \<noteq> [] \<and> 47 \<notin> set rest \<and>
                 (case parse_endpoint rest of Inr (user, _, _) \<Rightarrow> user = None | Inl _ \<Rightarrow> False)))"

definition valid_host_id :: "str \<Rightarrow> bool" where
  "valid_host_id s \<longleftrightarrow> trim s \<noteq> [] \<and> byte_len s \<le> MAX_ID_LEN \<and> \<not> list_ex is_control s"

fun clean_tags_from :: "(str \<Rightarrow> str) \<Rightarrow> str list \<Rightarrow> str list \<Rightarrow> str list" where
  "clean_tags_from lower seen [] = []"
| "clean_tags_from lower seen (tag # tags) =
     (let tag = trim tag
      in if tag = [] \<or> lower tag \<in> set seen then clean_tags_from lower seen tags
         else tag # clean_tags_from lower (lower tag # seen) tags)"

definition clean_tags :: "(str \<Rightarrow> str) \<Rightarrow> str list \<Rightarrow> str list" where
  "clean_tags lower tags = clean_tags_from lower [] tags"

subsection \<open>Repairing what was read\<close>

text \<open>The ids drawn so far and the warnings.\<close>

type_synonym repair = "nat \<times> warning list"

definition hw :: "str \<Rightarrow> str \<Rightarrow> repair \<Rightarrow> repair" where
  "hw key message r = (fst r, snd r @ [\<lparr>wn_key = key, wn_message = message\<rparr>])"

definition fresh_id :: "host_crates \<Rightarrow> str \<Rightarrow> repair \<Rightarrow> str \<times> repair" where
  "fresh_id hc label r =
     (hc_new_id hc (fst r), hw label (lit ''no valid id; a new one is saved with the next change'') (Suc (fst r), snd r))"

definition check_defaults :: "host_crates \<Rightarrow> host_defaults \<Rightarrow> str \<Rightarrow> repair \<Rightarrow> repair" where
  "check_defaults hc d label r =
     (let r = (if de_port d = Some 0 then hw (label @ lit ''.port'') (lit ''0 is not a port; ignored'') r else r)
      in (fst r, snd r @ hc_terminal_warnings hc (de_terminal d) (label @ lit ''.terminal'')))"

fun check_groups :: "host_crates \<Rightarrow> nat \<Rightarrow> group list \<Rightarrow> str list \<Rightarrow> repair \<Rightarrow> group list \<times> str list \<times> repair" where
  "check_groups hc index [] ids r = ([], ids, r)"
| "check_groups hc index (g # gs) ids r =
     (let label = lit ''group['' @ decimal index @ lit '']'';
          (gid, r) = (if valid_host_id (gr_id g) then (gr_id g, r) else fresh_id hc label r)
      in if gid \<in> set ids
         then check_groups hc (Suc index) gs ids (hw label (lit ''id '' @ gid @ lit '' is used twice; skipped'') r)
         else
           let name = (if trim (gr_name g) = [] then lit ''Group'' else trim (gr_name g));
               r = check_defaults hc (gr_defaults g) (label @ lit ''.defaults'') r;
               (rest, ids, r) = check_groups hc (Suc index) gs (gid # ids) r
           in (g\<lparr>gr_id := gid, gr_name := name\<rparr> # rest, ids, r))"

fun cut_parents :: "str list \<Rightarrow> group list \<Rightarrow> repair \<Rightarrow> group list \<times> repair" where
  "cut_parents ids [] r = ([], r)"
| "cut_parents ids (g # gs) r =
     (case gr_parent g of
        Some parent \<Rightarrow>
          (if parent \<notin> set ids \<or> parent = gr_id g
           then let (gs, r) = cut_parents ids gs
                      (hw (lit ''group '' @ gr_name g) (lit ''unknown parent group '' @ parent @ lit ''; moved to the top'') r)
                in (g\<lparr>gr_parent := None\<rparr> # gs, r)
           else let (gs, r) = cut_parents ids gs r in (g # gs, r))
      | None \<Rightarrow> (let (gs, r) = cut_parents ids gs r in (g # gs, r)))"

definition find_group :: "group list \<Rightarrow> str \<Rightarrow> group option" where
  "find_group gs wanted = find (\<lambda>g. gr_id g = wanted) gs"

definition parent_of :: "group list \<Rightarrow> str \<Rightarrow> str option" where
  "parent_of gs wanted = Option.bind (find_group gs wanted) gr_parent"

lemma find_group_id: "find_group gs wanted = Some g \<Longrightarrow> gr_id g = wanted \<and> g \<in> set gs"
  by (auto simp: find_group_def find_Some_iff)

lemma parent_of_id: "parent_of gs wanted = Some p \<Longrightarrow> wanted \<in> gr_id ` set gs"
  by (auto simp: parent_of_def bind_eq_Some_conv dest!: find_group_id)

lemma seen_shrinks:
  "finite A \<Longrightarrow> x \<in> A \<Longrightarrow> x \<notin> set seen \<Longrightarrow> card (A - insert x (set seen)) < card (A - set seen)"
  by (rule psubset_card_mono) auto

text \<open>The walk along the parents of one group: the id that is met twice, if any.\<close>

function walk_parents :: "group list \<Rightarrow> str list \<Rightarrow> str \<Rightarrow> str option" where
  "walk_parents gs seen current =
     (if current \<in> set seen then Some current
      else case parent_of gs current of
             None \<Rightarrow> None
           | Some parent \<Rightarrow> walk_parents gs (current # seen) parent)"
  by pat_completeness auto

termination
  by (relation "measure (\<lambda>(gs, seen, current). card (gr_id ` set gs - set seen))")
     (auto intro!: seen_shrinks dest: parent_of_id)

declare walk_parents.simps [simp del]

fun cut_group :: "str \<Rightarrow> group list \<Rightarrow> repair \<Rightarrow> group list \<times> repair" where
  "cut_group wanted [] r = ([], r)"
| "cut_group wanted (g # gs) r =
     (if gr_id g = wanted
      then (g\<lparr>gr_parent := None\<rparr> # gs,
            hw (lit ''group '' @ gr_name g) (lit ''its parents form a loop; moved to the top'') r)
      else let (gs, r) = cut_group wanted gs r in (g # gs, r))"

definition cut_loop :: "group list \<times> repair \<Rightarrow> nat \<Rightarrow> group list \<times> repair" where
  "cut_loop gr index =
     (case walk_parents (fst gr) [] (gr_id (fst gr ! index)) of
        None \<Rightarrow> gr
      | Some wanted \<Rightarrow> cut_group wanted (fst gr) (snd gr))"

definition cut_loops :: "group list \<Rightarrow> repair \<Rightarrow> group list \<times> repair" where
  "cut_loops gs r = foldl cut_loop (gs, r) [0..<length gs]"

definition check_host :: "host_crates \<Rightarrow> str list \<Rightarrow> str \<Rightarrow> host \<Rightarrow> repair \<Rightarrow> host \<times> repair" where
  "check_host hc group_ids label h r =
     (let address = trim (ho_address h);
          name = trim (ho_name h);
          name = (if name = [] then (if address = [] then lit ''Host'' else address) else name);
          unknown = (case ho_group h of Some g \<Rightarrow> g \<notin> set group_ids | None \<Rightarrow> False);
          r = (if unknown
               then hw label (lit ''unknown group '' @ (case ho_group h of Some g \<Rightarrow> g | None \<Rightarrow> []) @ lit ''; moved to the top'') r
               else r);
          r = (if ho_port h = Some 0 then hw (label @ lit ''.port'') (lit ''0 is not a port; inherited instead'') r else r);
          r = (fst r, snd r @ hc_terminal_warnings hc (ho_terminal h) (label @ lit ''.terminal''))
      in (h\<lparr>ho_address := address, ho_name := name, ho_group := (if unknown then None else ho_group h),
            ho_port := (if ho_port h = Some 0 then None else ho_port h),
            ho_tags := clean_tags (hc_lowercase hc) (ho_tags h)\<rparr>, r))"

fun check_hosts :: "host_crates \<Rightarrow> str list \<Rightarrow> nat \<Rightarrow> host list \<Rightarrow> str list \<Rightarrow> repair \<Rightarrow> host list \<times> repair" where
  "check_hosts hc group_ids index [] ids r = ([], r)"
| "check_hosts hc group_ids index (h # hs) ids r =
     (let label = (if trim (ho_name h) = [] then lit ''host['' @ decimal index @ lit '']'' else lit ''host '' @ trim (ho_name h));
          (hid, r) = (if \<not> valid_host_id (ho_id h) \<or> is_linked h then fresh_id hc label r else (ho_id h, r))
      in if hid \<in> set ids
         then check_hosts hc group_ids (Suc index) hs ids (hw label (lit ''id '' @ hid @ lit '' is used twice; skipped'') r)
         else
           let (h, r) = check_host hc group_ids label (h\<lparr>ho_id := hid\<rparr>) r;
               (rest, r) = check_hosts hc group_ids (Suc index) hs (hid # ids) r
           in (h # rest, r))"

definition check_file :: "host_crates \<Rightarrow> hosts_file \<Rightarrow> repair \<Rightarrow> hosts_file \<times> repair" where
  "check_file hc f r =
     (let (groups, ids, r) = check_groups hc 0 (hf_groups f) [] r;
          group_ids = map gr_id groups;
          (groups, r) = cut_parents group_ids groups r;
          (groups, r) = cut_loops groups r;
          (hosts, r) = check_hosts hc group_ids 0 (hf_hosts f) ids r
      in (f\<lparr>hf_groups := groups, hf_hosts := hosts\<rparr>, r))"

subsection \<open>Reading the file\<close>

definition skipped_message :: "str \<Rightarrow> str" where
  "skipped_message error = lit ''skipped: '' @ (case str_lines error of first # _ \<Rightarrow> first | [] \<Rightarrow> [])"

fun read_items :: "(toml_value \<Rightarrow> str + 'a) \<Rightarrow> str \<Rightarrow> nat \<Rightarrow> toml_value list \<Rightarrow> repair \<Rightarrow> 'a list \<times> repair" where
  "read_items convert key index [] r = ([], r)"
| "read_items convert key index (item # items) r =
     (case convert item of
        Inr entry \<Rightarrow> (let (es, r) = read_items convert key (Suc index) items r in (entry # es, r))
      | Inl error \<Rightarrow>
          read_items convert key (Suc index) items
            (hw (key @ lit ''['' @ decimal index @ lit '']'') (skipped_message error) r))"

definition host_entries :: "(toml_value \<Rightarrow> str + 'a) \<Rightarrow> str \<Rightarrow> table \<times> repair \<Rightarrow> 'a list \<times> table \<times> repair" where
  "host_entries convert key tr =
     (case bt_get (fst tr) key of
        None \<Rightarrow> ([], tr)
      | Some v \<Rightarrow>
          (let rest = bt_remove key (fst tr)
           in case v of
                VArray items \<Rightarrow> (let (es, r) = read_items convert key 0 items (snd tr) in (es, rest, r))
              | _ \<Rightarrow> ([], rest, hw key (lit ''expected [['' @ key @ lit '']] tables; skipped'') (snd tr))))"

text \<open>A number as \<open>Display\<close> writes an \<open>i64\<close>.\<close>

definition show_int :: "int \<Rightarrow> str" where
  "show_int i = (if i < 0 then 45 # decimal (nat (- i)) else decimal (nat i))"

definition hosts_from_toml :: "host_crates \<Rightarrow> nat \<Rightarrow> str \<Rightarrow> str + (hosts_file \<times> warning list)" where
  "hosts_from_toml hc n s =
     (case hc_parse hc s of
        Inl error \<Rightarrow> Inl error
      | Inr doc \<Rightarrow>
          (let r = (n, []);
               (version, r) =
                 (case bt_get doc (lit ''schema_version'') of
                    None \<Rightarrow> (HOSTS_SCHEMA_VERSION, r)
                  | Some (VInteger v) \<Rightarrow> (v, r)
                  | Some other \<Rightarrow>
                      (HOSTS_SCHEMA_VERSION,
                       hw (lit ''schema_version'') (lit ''expected an integer, found '' @ type_str other) r));
               read_only = version > HOSTS_SCHEMA_VERSION;
               r = (if read_only
                    then hw (lit ''schema_version'')
                           (lit ''version '' @ show_int version @ lit '' is newer than this OpenSesh supports ('' @
                            show_int HOSTS_SCHEMA_VERSION @ lit ''); hosts are read-only until you upgrade'') r
                    else r);
               (groups, tr) = host_entries (hc_group hc) (lit ''group'') (bt_remove (lit ''schema_version'') doc, r);
               (hosts, tr) = host_entries (hc_host hc) (lit ''host'') tr;
               (sources, tr) = host_entries (hc_source hc) (lit ''source'') tr;
               (f, r) = check_file hc
                 \<lparr>hf_groups = groups, hf_hosts = hosts, hf_sources = sources, hf_read_only = read_only,
                  hf_extra = fst tr, hf_base = []\<rparr> (snd tr)
           in Inr (f, snd r)))"

subsection \<open>Groups above and below\<close>

definition find_by_id :: "hosts_file \<Rightarrow> str \<Rightarrow> host option" where
  "find_by_id f wanted = find (\<lambda>h. ho_id h = wanted) (hf_hosts f)"

definition find_host :: "hosts_file \<Rightarrow> str \<Rightarrow> host option" where
  "find_host f id_or_name =
     (let wanted = trim id_or_name
      in case find_by_id f wanted of
           Some h \<Rightarrow> Some h
         | None \<Rightarrow> find (\<lambda>h. eq_ignore_ascii_case (ho_name h) wanted) (hf_hosts f))"

text \<open>The loop of \<open>group_chain\<close>: the ids of the chain so far and the id to go on with.\<close>

function chain_from :: "group list \<Rightarrow> str list \<Rightarrow> str option \<Rightarrow> group list" where
  "chain_from gs seen None = []"
| "chain_from gs seen (Some gid) =
     (case find_group gs gid of
        None \<Rightarrow> []
      | Some g \<Rightarrow> if gr_id g \<in> set seen then [] else g # chain_from gs (gr_id g # seen) (gr_parent g))"
  by pat_completeness auto

termination
  by (relation "measure (\<lambda>(gs, seen, current). card (gr_id ` set gs - set seen))")
     (auto intro!: seen_shrinks dest: find_group_id)

declare chain_from.simps(2) [simp del]

definition group_chain :: "group list \<Rightarrow> str option \<Rightarrow> group list" where
  "group_chain gs start = chain_from gs [] start"

definition group_path :: "group list \<Rightarrow> str \<Rightarrow> str" where
  "group_path gs gid = join_with (lit '' / '') (rev (map gr_name (group_chain gs (Some gid))))"

definition subtree_step :: "group list \<Rightarrow> str set \<Rightarrow> str set" where
  "subtree_step gs found =
     foldl (\<lambda>found g. if (case gr_parent g of Some p \<Rightarrow> p \<in> found | None \<Rightarrow> False) then insert (gr_id g) found else found)
       found gs"

text \<open>The \<open>loop\<close> of \<open>subtree\<close>, which ends when a round finds nothing new.\<close>

lemma subtree_step_bounds: "found \<subseteq> subtree_step gs found \<and> subtree_step gs found \<subseteq> found \<union> gr_id ` set gs"
proof (induction gs arbitrary: found)
  case (Cons g gs)
  let ?found = "if (case gr_parent g of Some p \<Rightarrow> p \<in> found | None \<Rightarrow> False) then insert (gr_id g) found else found"
  have "subtree_step (g # gs) found = subtree_step gs ?found" by (simp add: subtree_step_def)
  moreover have "found \<subseteq> ?found" "?found \<subseteq> insert (gr_id g) found" by auto
  ultimately show ?case using Cons [of ?found] by auto
qed (simp add: subtree_step_def)

function subtree_from :: "group list \<Rightarrow> str set \<Rightarrow> str set" where
  "subtree_from gs found =
     (if subtree_step gs found = found then found else subtree_from gs (subtree_step gs found))"
  by pat_completeness auto

termination
proof (relation "measure (\<lambda>(gs, found). card (gr_id ` set gs - found))", goal_cases)
  case (2 gs found)
  let ?grown = "subtree_step gs found"
  obtain x where x: "x \<in> ?grown" "x \<notin> found" using subtree_step_bounds [of found gs] 2 by auto
  then have "x \<in> gr_id ` set gs" using subtree_step_bounds [of found gs] by auto
  then have "gr_id ` set gs - ?grown \<subset> gr_id ` set gs - found" using x subtree_step_bounds [of found gs] by auto
  then show ?case by (simp add: psubset_card_mono)
qed simp

declare subtree_from.simps [simp del]

definition subtree :: "group list \<Rightarrow> str \<Rightarrow> str set" where
  "subtree gs gid = subtree_from gs {gid}"

subsection \<open>What a host inherits\<close>

definition INHERITED_KEYS :: "str list" where
  "INHERITED_KEYS =
     [lit ''user'', lit ''port'', lit ''jump'', lit ''identity'', lit ''identity_file'', lit ''profile'',
      lit ''ssh.backend'', lit ''ssh.agent_forwarding'', lit ''ssh.x11'', lit ''ssh.waypipe'', lit ''ssh.keepalive_secs'',
      lit ''ssh.compression'', lit ''ssh.startup_snippet'', lit ''ssh.legacy_algorithms'', lit ''ssh.auth_order'',
      lit ''ssh.proxy'', lit ''ssh.proxy_command'', lit ''ssh.env'', lit ''ssh.send_locale'', lit ''ssh.command'',
      lit ''ssh.auto_reconnect'', lit ''ssh.log'', lit ''ssh.detect_os'', lit ''ssh.monitor'', lit ''ssh.agent_socket'',
      lit ''sftp.follow_cwd'', lit ''sftp.start_dir'']"

definition DEFAULT_AUTH_ORDER :: "str list" where
  "DEFAULT_AUTH_ORDER = [lit ''publickey'', lit ''keyboard-interactive'', lit ''password'']"

definition builtin :: "str \<Rightarrow> protocol \<Rightarrow> toml_value option" where
  "builtin key p =
     (if key = lit ''port'' then map_option (\<lambda>n. VInteger (int n)) (default_port p)
      else if key = lit ''jump'' then Some (VArray [])
      else if key = lit ''ssh.backend'' then Some (VString (lit ''internal''))
      else if key \<in> {lit ''ssh.agent_forwarding'', lit ''ssh.waypipe'', lit ''ssh.compression'',
                     lit ''ssh.legacy_algorithms'', lit ''ssh.auto_reconnect''} then Some (VBoolean False)
      else if key \<in> {lit ''ssh.send_locale'', lit ''ssh.detect_os'', lit ''ssh.monitor''} then Some (VBoolean True)
      else if key = lit ''ssh.x11'' then Some (VString (lit ''off''))
      else if key = lit ''ssh.keepalive_secs'' then Some (VInteger 30)
      else if key \<in> {lit ''ssh.startup_snippet'', lit ''ssh.proxy'', lit ''ssh.proxy_command'', lit ''ssh.command'',
                     lit ''ssh.agent_socket''} then Some (VString [])
      else if key = lit ''ssh.auth_order'' then Some (VArray (map VString DEFAULT_AUTH_ORDER))
      else if key = lit ''ssh.env'' then Some (VTable [])
      else if key = lit ''ssh.log'' then Some (VString (lit ''off''))
      else if key = lit ''sftp.follow_cwd'' then Some (VBoolean True)
      else if key = lit ''sftp.start_dir'' then Some (VString (lit ''~''))
      else None)"

fun lookup_parts :: "toml_value \<Rightarrow> str list \<Rightarrow> toml_value option" where
  "lookup_parts v [] = Some v"
| "lookup_parts v (part # parts) =
     (case Option.bind (as_table v) (\<lambda>t. bt_get t part) of None \<Rightarrow> None | Some w \<Rightarrow> lookup_parts w parts)"

definition lookup_path :: "table \<Rightarrow> str \<Rightarrow> toml_value option" where
  "lookup_path t path = lookup_parts (VTable t) (split_on 46 path)"

text \<open>What serde writes of an optional field, and a table of fields.\<close>

definition field :: "string \<Rightarrow> ('a \<Rightarrow> toml_value) \<Rightarrow> 'a option \<Rightarrow> (str \<times> toml_value) list" where
  "field name write v = (case v of None \<Rightarrow> [] | Some a \<Rightarrow> [(lit name, write a)])"

definition field_unless :: "bool \<Rightarrow> string \<Rightarrow> toml_value \<Rightarrow> (str \<times> toml_value) list" where
  "field_unless skip name v = (if skip then [] else [(lit name, v)])"

definition table_of :: "(str \<times> toml_value) list \<Rightarrow> table" where
  "table_of fs = foldl (\<lambda>t (k, v). bt_insert k v t) [] fs"

definition VNat :: "nat \<Rightarrow> toml_value" where "VNat n = VInteger (int n)"

fun x11_str :: "x11_forwarding \<Rightarrow> str" where
  "x11_str X11Off = lit ''off''"
| "x11_str X11Untrusted = lit ''untrusted''"
| "x11_str X11Trusted = lit ''trusted''"

definition ssh_table :: "ssh_options \<Rightarrow> table" where
  "ssh_table s = table_of
     (field ''backend'' (VString \<circ> backend_str) (sh_backend s) @
      field ''agent_forwarding'' VBoolean (sh_agent_forwarding s) @
      field ''x11'' (VString \<circ> x11_str) (sh_x11 s) @
      field ''waypipe'' VBoolean (sh_waypipe s) @
      field ''keepalive_secs'' VNat (sh_keepalive_secs s) @
      field ''compression'' VBoolean (sh_compression s) @
      field ''startup_snippet'' VString (sh_startup_snippet s) @
      field ''legacy_algorithms'' VBoolean (sh_legacy_algorithms s) @
      field ''auth_order'' (VArray \<circ> map VString) (sh_auth_order s) @
      field ''proxy'' VString (sh_proxy s) @
      field ''proxy_command'' VString (sh_proxy_command s) @
      field ''env'' (VTable \<circ> map (\<lambda>(k, v). (k, VString v))) (sh_env s) @
      field ''send_locale'' VBoolean (sh_send_locale s) @
      field ''command'' VString (sh_command s) @
      field ''auto_reconnect'' VBoolean (sh_auto_reconnect s) @
      field ''log'' (VString \<circ> log_str) (sh_log s) @
      field ''detect_os'' VBoolean (sh_detect_os s) @
      field ''monitor'' VBoolean (sh_monitor s) @
      field ''agent_socket'' VString (sh_agent_socket s))"

definition sftp_table :: "sftp_options \<Rightarrow> table" where
  "sftp_table s = table_of (field ''follow_cwd'' VBoolean (sf_follow_cwd s) @ field ''start_dir'' VString (sf_start_dir s))"

definition defaults_table :: "host_defaults \<Rightarrow> table" where
  "defaults_table d = table_of
     (field ''user'' VString (de_user d) @ field ''port'' VNat (de_port d) @
      field ''jump'' (VArray \<circ> map VString) (de_jump d) @ field ''identity'' VString (de_identity d) @
      field ''identity_file'' VString (de_identity_file d) @ field ''profile'' VString (de_profile d) @
      field_unless (de_ssh d = no_ssh_options) ''ssh'' (VTable (ssh_table (de_ssh d))) @
      field_unless (de_sftp d = no_sftp_options) ''sftp'' (VTable (sftp_table (de_sftp d))) @
      field_unless (de_terminal d = []) ''terminal'' (VTable (de_terminal d)))"

text \<open>Of a host's table only the keys that can be inherited are looked up.\<close>

definition own_table :: "host \<Rightarrow> table" where
  "own_table h = table_of
     (field ''port'' VNat (ho_port h) @ field ''user'' VString (ho_user h) @
      field ''identity'' VString (ho_identity h) @ field ''identity_file'' VString (ho_identity_file h) @
      field ''jump'' (VArray \<circ> map VString) (ho_jump h) @ field ''profile'' VString (ho_profile h) @
      field_unless (ho_ssh h = no_ssh_options) ''ssh'' (VTable (ssh_table (ho_ssh h))) @
      field_unless (ho_sftp h = no_sftp_options) ''sftp'' (VTable (sftp_table (ho_sftp h))))"

fun first_some :: "('a \<Rightarrow> 'b option) \<Rightarrow> 'a list \<Rightarrow> 'b option" where
  "first_some f [] = None"
| "first_some f (x # xs) = (case f x of Some y \<Rightarrow> Some y | None \<Rightarrow> first_some f xs)"

definition inherited_value :: "hosts_file \<Rightarrow> str option \<Rightarrow> protocol \<Rightarrow> str \<Rightarrow> resolved" where
  "inherited_value f start p key =
     (case first_some (\<lambda>g. map_option (\<lambda>v. (v, gr_id g)) (lookup_path (defaults_table (gr_defaults g)) key))
              (group_chain (hf_groups f) start) of
        Some (v, gid) \<Rightarrow> \<lparr>re_value = Some v, re_origin = OriginGroup gid\<rparr>
      | None \<Rightarrow>
          \<lparr>re_value = (case lookup_path (hf_base f) key of Some v \<Rightarrow> Some v | None \<Rightarrow> builtin key p),
           re_origin = OriginDefault\<rparr>)"

definition inherited :: "hosts_file \<Rightarrow> str option \<Rightarrow> protocol \<Rightarrow> (str, resolved) btree_map" where
  "inherited f start p = foldl (\<lambda>m key. bt_insert key (inherited_value f start p key) m) [] INHERITED_KEYS"

definition resolve_host :: "hosts_file \<Rightarrow> host \<Rightarrow> resolved_host" where
  "resolve_host f h =
     \<lparr>rh_host = h,
      rh_fields = map (\<lambda>(key, r). (key, case lookup_path (own_table h) key of
                                          Some v \<Rightarrow> \<lparr>re_value = Some v, re_origin = OriginHost\<rparr>
                                        | None \<Rightarrow> r))
                    (inherited f (ho_group h) (ho_protocol h))\<rparr>"

definition rh_value :: "resolved_host \<Rightarrow> string \<Rightarrow> toml_value option" where
  "rh_value r key = Option.bind (bt_get (rh_fields r) (lit key)) re_value"

definition rh_string :: "resolved_host \<Rightarrow> string \<Rightarrow> str option" where
  "rh_string r key =
     (case map_option trim (Option.bind (rh_value r key) as_str) of
        Some s \<Rightarrow> if s = [] then None else Some s
      | None \<Rightarrow> None)"

definition rh_flag :: "resolved_host \<Rightarrow> string \<Rightarrow> bool" where
  "rh_flag r key = (case Option.bind (rh_value r key) as_bool of Some b \<Rightarrow> b | None \<Rightarrow> False)"

definition rh_list :: "resolved_host \<Rightarrow> string \<Rightarrow> str list" where
  "rh_list r key =
     (case Option.bind (rh_value r key) as_array of
        Some items \<Rightarrow> filter (\<lambda>s. s \<noteq> []) (map trim (List.map_filter as_str items))
      | None \<Rightarrow> [])"

definition rh_string_map :: "resolved_host \<Rightarrow> string \<Rightarrow> (str, str) btree_map" where
  "rh_string_map r key =
     (case Option.bind (rh_value r key) as_table of
        Some t \<Rightarrow> List.map_filter (\<lambda>(k, v). map_option (\<lambda>s. (k, s)) (as_str v)) t
      | None \<Rightarrow> [])"

definition rh_session_log :: "resolved_host \<Rightarrow> session_log" where
  "rh_session_log r =
     (case rh_string r ''ssh.log'' of
        Some s \<Rightarrow> if s = lit ''text'' then LogText else if s = lit ''raw'' then LogRaw else LogOff
      | None \<Rightarrow> LogOff)"

definition rh_port :: "resolved_host \<Rightarrow> nat option" where
  "rh_port r =
     (case Option.bind (rh_value r ''port'') as_integer of
        Some i \<Rightarrow> if 0 < i \<and> i \<le> int u16_max then Some (nat i) else None
      | None \<Rightarrow> None)"

definition rh_keepalive_secs :: "resolved_host \<Rightarrow> nat" where
  "rh_keepalive_secs r =
     (case Option.bind (rh_value r ''ssh.keepalive_secs'') as_integer of
        Some i \<Rightarrow> if 0 \<le> i \<and> i \<le> int u32_max then nat i else 0
      | None \<Rightarrow> 0)"

definition rh_x11 :: "resolved_host \<Rightarrow> x11_forwarding" where
  "rh_x11 r =
     (case rh_string r ''ssh.x11'' of
        Some s \<Rightarrow> if s = lit ''untrusted'' then X11Untrusted else if s = lit ''trusted'' then X11Trusted else X11Off
      | None \<Rightarrow> X11Off)"

definition jump_spec :: "hosts_file \<Rightarrow> str \<Rightarrow> str" where
  "jump_spec f reference =
     (case find_host f reference of
        None \<Rightarrow> trim reference
      | Some h \<Rightarrow>
          (if ho_address h = [] then trim reference
           else let r = resolve_host f h
                in (case rh_string r ''user'' of Some user \<Rightarrow> user @ lit ''@'' | None \<Rightarrow> []) @
                   bracket_ipv6 (ho_address h) @
                   (case rh_port r of
                      Some port \<Rightarrow> if Some port = default_port (ho_protocol h) then [] else 58 # decimal port
                    | None \<Rightarrow> [])))"

subsection \<open>Checks before a save\<close>

type_synonym problems = "(str \<times> str) list"

definition problem_if :: "bool \<Rightarrow> string \<Rightarrow> string \<Rightarrow> problems" where
  "problem_if wrong what code = (if wrong then [(lit what, lit code)] else [])"

definition is_alnum_ascii :: "uchar \<Rightarrow> bool" where
  "is_alnum_ascii c \<longleftrightarrow> is_digit c \<or> 65 \<le> c \<and> c \<le> 90 \<or> 97 \<le> c \<and> c \<le> 122"

definition some_set :: "str option \<Rightarrow> str option" where
  "some_set v = (case map_option trim v of Some s \<Rightarrow> if s = [] then None else Some s | None \<Rightarrow> None)"

definition check_ssh :: "ssh_options \<Rightarrow> problems" where
  "check_ssh s =
     problem_if (case some_set (sh_proxy s) of Some proxy \<Rightarrow> isl (parse_proxy proxy) | None \<Rightarrow> False) ''ssh.proxy'' ''invalid'' @
     problem_if (case sh_auth_order s of
                Some order \<Rightarrow> order = [] \<or> list_ex (\<lambda>m. trim m \<notin> set DEFAULT_AUTH_ORDER) order
              | None \<Rightarrow> False) ''ssh.auth_order'' ''invalid'' @
     problem_if (case sh_env s of
                Some env \<Rightarrow> list_ex (\<lambda>(name, _). name = [] \<or> \<not> list_all (\<lambda>c. is_alnum_ascii c \<or> c = 95) name) env
              | None \<Rightarrow> False) ''ssh.env'' ''invalid''"

definition dash_first :: "str \<Rightarrow> bool" where
  "dash_first s = starts_with s (lit ''-'')"

definition check_container :: "host_container \<Rightarrow> problems" where
  "check_container c =
     problem_if (case some_set (co_namespace c) of Some n \<Rightarrow> \<not> is_name n | None \<Rightarrow> False) ''container.namespace'' ''invalid'' @
     problem_if (case some_set (co_pod_container c) of Some n \<Rightarrow> \<not> is_name n | None \<Rightarrow> False) ''container.pod_container'' ''invalid'' @
     problem_if (case some_set (co_context c) of Some n \<Rightarrow> \<not> is_context n | None \<Rightarrow> False) ''container.context'' ''invalid'' @
     problem_if (case some_set (co_shell c) of
                Some line \<Rightarrow> (case split_line line of Inl _ \<Rightarrow> True | Inr words \<Rightarrow> words \<noteq> [] \<and> dash_first (hd words))
              | None \<Rightarrow> False) ''container.shell'' ''invalid''"

definition address_valid :: "protocol \<Rightarrow> str \<Rightarrow> bool" where
  "address_valid p address =
     (case p of
        PSerial \<Rightarrow> \<not> dash_first address \<and> \<not> list_ex is_control address
      | PLocal \<Rightarrow> True
      | PDocker \<Rightarrow> \<not> dash_first address \<and> \<not> list_ex (\<lambda>c. is_whitespace c \<or> is_control c) address
      | PKube \<Rightarrow> \<not> dash_first address \<and> \<not> list_ex (\<lambda>c. is_whitespace c \<or> is_control c) address
      | PS3 \<Rightarrow> is_endpoint address
      | _ \<Rightarrow> \<not> isl (check_name address) \<and> 91 \<notin> set address \<and> 93 \<notin> set address)"

definition needs_address :: "protocol \<Rightarrow> bool" where
  "needs_address p \<longleftrightarrow> p \<noteq> PLocal \<and> p \<noteq> PS3"

definition bad_user :: "str option \<Rightarrow> bool" where
  "bad_user user = (case some_set user of Some u \<Rightarrow> isl (check_user u) | None \<Rightarrow> False)"

definition bad_jump :: "hosts_file \<Rightarrow> str list option \<Rightarrow> bool" where
  "bad_jump f jump =
     (case jump of
        Some hops \<Rightarrow> list_ex (\<lambda>hop. find_host f hop = None \<and> isl (parse_endpoint (trim hop))) hops
      | None \<Rightarrow> False)"

definition validate_host :: "hosts_file \<Rightarrow> host \<Rightarrow> problems" where
  "validate_host f h =
     (let address = trim (ho_address h)
      in problem_if (trim (ho_name h) = []) ''name'' ''required'' @
         (if needs_address (ho_protocol h) \<and> address = [] then [(lit ''address'', lit ''required'')]
          else problem_if (address \<noteq> [] \<and> \<not> address_valid (ho_protocol h) address) ''address'' ''invalid'') @
         problem_if (bad_user (ho_user h)) ''user'' ''invalid'' @
         problem_if (ho_port h = Some 0) ''port'' ''invalid'' @
         problem_if (case ho_identity_file h of Some file \<Rightarrow> dash_first (trim_start file) | None \<Rightarrow> False) ''identity_file'' ''invalid'' @
         problem_if (bad_jump f (ho_jump h)) ''jump'' ''invalid'' @
         problem_if (case ho_group h of Some g \<Rightarrow> find_group (hf_groups f) g = None | None \<Rightarrow> False) ''group'' ''unknown'' @
         check_ssh (ho_ssh h) @
         (if ho_protocol h \<in> {PDocker, PKube} then check_container (ho_container h) else []) @
         problem_if (case some_set (rd_resolution (ho_rdp h)) of Some s \<Rightarrow> parse_resolution s = None | None \<Rightarrow> False)
           ''rdp.resolution'' ''invalid'' @
         problem_if (case rd_domain (ho_rdp h) of
                    Some domain \<Rightarrow> dash_first (trim domain) \<or> list_ex is_control domain
                  | None \<Rightarrow> False) ''rdp.domain'' ''invalid'' @
         problem_if (case some_set (s3_region (ho_s3 h)) of Some r \<Rightarrow> \<not> is_region r | None \<Rightarrow> False) ''s3.region'' ''invalid'')"

definition validate_group :: "hosts_file \<Rightarrow> group \<Rightarrow> problems" where
  "validate_group f g =
     (let d = gr_defaults g
      in problem_if (trim (gr_name g) = []) ''name'' ''required'' @
         problem_if (case gr_parent g of
                    Some parent \<Rightarrow>
                      find_group (hf_groups f) parent = None \<or>
                      gr_id g \<noteq> [] \<and> parent \<in> subtree (hf_groups f) (gr_id g)
                  | None \<Rightarrow> False) ''parent'' ''invalid'' @
         problem_if (bad_user (de_user d)) ''user'' ''invalid'' @
         problem_if (de_port d = Some 0) ''port'' ''invalid'' @
         problem_if (bad_jump f (de_jump d)) ''jump'' ''invalid'' @
         check_ssh (de_ssh d))"

subsection \<open>Entering a container\<close>

datatype command_error =
    NotAContainer str | ShellLine split_error | ShellDash | NotAContext str | NotANamespace str | NotAPodContainer str
  | NotContainerHost protocol

definition SHELL_FALLBACK :: str where
  "SHELL_FALLBACK = lit ''if command -v bash >/dev/null 2>&1; then exec bash; else exec sh; fi''"

definition container_shell :: "host_container \<Rightarrow> command_error + str list" where
  "container_shell options =
     (case some_set (co_shell options) of
        None \<Rightarrow> Inr [lit ''sh'', lit ''-c'', SHELL_FALLBACK]
      | Some line \<Rightarrow>
          (case split_line line of
             Inl e \<Rightarrow> Inl (ShellLine e)
           | Inr words \<Rightarrow> if words \<noteq> [] \<and> dash_first (hd words) then Inl ShellDash else Inr words))"

fun engine_program :: "engine \<Rightarrow> str" where
  "engine_program Docker = lit ''docker''"
| "engine_program Podman = lit ''podman''"

text \<open>An option and its value, when it is set and may stand on a command line.\<close>

definition checked_option :: "string \<Rightarrow> (str \<Rightarrow> bool) \<Rightarrow> (str \<Rightarrow> command_error) \<Rightarrow> str option \<Rightarrow> command_error + str list" where
  "checked_option name good err v =
     (case some_set v of
        None \<Rightarrow> Inr []
      | Some s \<Rightarrow> if good s then Inr [lit name, s] else Inl (err s))"

definition container_command :: "host \<Rightarrow> command_error + str list" where
  "container_command h =
     (let name = trim (ho_address h); options = ho_container h
      in if \<not> is_name name then Inl (NotAContainer name)
         else ebind (container_shell options) (\<lambda>shell.
           case ho_protocol h of
             PDocker \<Rightarrow>
               Inr ([engine_program (case co_engine options of Some e \<Rightarrow> e | None \<Rightarrow> Docker), lit ''exec'', lit ''-it'', lit ''--env'',
                     lit ''TERM=xterm-256color''] @
                    (case some_set (ho_user h) of Some user \<Rightarrow> [lit ''--user'', user] | None \<Rightarrow> []) @
                    [name] @ shell)
           | PKube \<Rightarrow>
               ebind (checked_option ''--context'' is_context NotAContext (co_context options)) (\<lambda>context.
               ebind (checked_option ''--namespace'' is_name NotANamespace (co_namespace options)) (\<lambda>namespace.
               ebind (checked_option ''--container'' is_name NotAPodContainer (co_pod_container options)) (\<lambda>container.
               Inr ([lit ''kubectl''] @ context @ [lit ''exec'', lit ''-it''] @ namespace @ [name] @ container @ [lit ''--''] @ shell))))
           | other \<Rightarrow> Inl (NotContainerHost other)))"

end
