(* ===== verification/Hosts_Laws.thy ===== *)
theory Hosts_Laws
  imports Hosts
begin

text \<open>
  What the repair of \<open>hosts.toml\<close> guarantees and what follows from it: groups form a forest, the chain
  of a group reaches the top, a host inherits from the nearest group that sets a key, and the
  subtree of a group is everything below it.
\<close>

subsection \<open>Forests\<close>

text \<open>The parents of an id come to an end.\<close>

inductive ends :: "(str \<Rightarrow> str option) \<Rightarrow> str \<Rightarrow> bool" for parent where
  ends_top: "parent a = None \<Longrightarrow> ends parent a"
| ends_up: "parent a = Some b \<Longrightarrow> ends parent b \<Longrightarrow> ends parent a"

definition forest :: "(str \<Rightarrow> str option) \<Rightarrow> bool" where
  "forest parent \<longleftrightarrow> (\<forall>a. ends parent a)"

lemma ends_cut: "ends parent a \<Longrightarrow> ends (parent(x := None)) a"
proof (induction rule: ends.induct)
  case (ends_up a b)
  then show ?case by (cases "a = x") (auto intro: ends.intros)
qed (auto intro: ends.intros)

lemma walk_None_ends: "walk_parents gs seen a = None \<Longrightarrow> ends (parent_of gs) a"
proof (induction gs seen a rule: walk_parents.induct)
  case (1 gs seen a)
  then show ?case by (subst (asm) walk_parents.simps) (auto split: if_splits option.splits intro: ends.intros)
qed

lemma walk_Some_ends: "walk_parents gs seen a = Some x \<Longrightarrow> ends ((parent_of gs)(x := None)) a"
proof (induction gs seen a rule: walk_parents.induct)
  case (1 gs seen a)
  show ?case
  proof (cases "a = x")
    case False
    then obtain p where "a \<notin> set seen" "parent_of gs a = Some p" "walk_parents gs (a # seen) p = Some x"
      using 1(2) by (subst (asm) walk_parents.simps) (auto split: if_splits option.splits)
    then show ?thesis using 1(1) False by (intro ends_up [of _ a p]) auto
  qed (auto intro: ends_top)
qed

lemma cut_group_ids: "map gr_id (fst (cut_group x gs r)) = map gr_id gs"
  by (induction x gs r rule: cut_group.induct) (auto split: prod.splits)

lemma cut_group_parents: "parent_of (fst (cut_group x gs r)) = (parent_of gs)(x := None)"
proof (induction x gs r rule: cut_group.induct)
  case (2 x g gs r)
  then show ?case by (auto simp: parent_of_def find_group_def fun_eq_iff split: prod.splits)
qed (simp add: parent_of_def find_group_def fun_eq_iff)

lemma cut_loop_steps:
  "map gr_id (fst (cut_loop gr i)) = map gr_id (fst gr)"
  "ends (parent_of (fst gr)) a \<Longrightarrow> ends (parent_of (fst (cut_loop gr i))) a"
  "ends (parent_of (fst (cut_loop gr i))) (gr_id (fst gr ! i))"
  by (auto simp: cut_loop_def cut_group_ids cut_group_parents ends_cut walk_None_ends walk_Some_ends split: option.splits)

lemma parent_of_None: "a \<notin> gr_id ` set gs \<Longrightarrow> parent_of gs a = None"
  using parent_of_id [of gs a] by (cases "parent_of gs a") auto

lemma cut_loops_forest:
  "map gr_id (fst (cut_loops gs r)) = map gr_id gs \<and> forest (parent_of (fst (cut_loops gs r)))"
proof -
  have run: "map gr_id (fst (foldl cut_loop (gs, r) [0..<n])) = map gr_id gs \<and>
      (\<forall>i < n. ends (parent_of (fst (foldl cut_loop (gs, r) [0..<n]))) (map gr_id gs ! i))" if "n \<le> length gs" for n
    using that
  proof (induction n)
    case (Suc n)
    let ?s = "foldl cut_loop (gs, r) [0..<n]"
    have ids: "map gr_id (fst ?s) = map gr_id gs" and ends: "\<forall>i < n. ends (parent_of (fst ?s)) (map gr_id gs ! i)"
      using Suc by auto
    have "length (fst ?s) = length gs" using map_eq_imp_length_eq [OF ids] .
    then have "gr_id (fst ?s ! n) = map gr_id gs ! n" using ids Suc.prems by (metis nth_map Suc_le_lessD)
    then show ?case using ids ends cut_loop_steps(1) [of ?s n] cut_loop_steps(2) [of ?s _ n] cut_loop_steps(3) [of ?s n]
      by (simp add: less_Suc_eq)
  qed simp
  let ?gs = "fst (cut_loops gs r)"
  have ids: "map gr_id ?gs = map gr_id gs" and ends: "\<forall>i < length gs. ends (parent_of ?gs) (map gr_id gs ! i)"
    using run [of "length gs"] by (simp_all add: cut_loops_def)
  have "ends (parent_of ?gs) a" for a
  proof (cases "a \<in> gr_id ` set gs")
    case True
    then obtain i where "i < length gs" "map gr_id gs ! i = a" by (auto simp: in_set_conv_nth)
    then show ?thesis using ends by auto
  next
    case False
    then have "a \<notin> gr_id ` set ?gs" using ids by (metis set_map)
    then show ?thesis by (auto intro: ends_top parent_of_None)
  qed
  with ids show ?thesis by (simp add: forest_def)
qed

subsection \<open>A repaired file\<close>

definition hosts_ok :: "hosts_file \<Rightarrow> bool" where
  "hosts_ok f \<longleftrightarrow>
     distinct (map gr_id (hf_groups f)) \<and> distinct (map ho_id (hf_hosts f)) \<and>
     (\<forall>g \<in> set (hf_groups f). \<forall>p. gr_parent g = Some p \<longrightarrow> p \<in> gr_id ` set (hf_groups f)) \<and>
     forest (parent_of (hf_groups f)) \<and>
     (\<forall>h \<in> set (hf_hosts f). \<forall>g. ho_group h = Some g \<longrightarrow> g \<in> gr_id ` set (hf_groups f)) \<and>
     (\<forall>h \<in> set (hf_hosts f). ho_port h \<noteq> Some 0)"

lemma check_groups_ids:
  "check_groups hc index gs ids r = (gs', ids', r') \<Longrightarrow>
   distinct (map gr_id gs') \<and> set (map gr_id gs') \<inter> set ids = {} \<and> set ids \<subseteq> set ids'"
proof (induction hc index gs ids r arbitrary: gs' ids' r' rule: check_groups.induct)
  case (2 hc index g gs ids r)
  obtain gid r1 where g: "(if valid_host_id (gr_id g) then (gr_id g, r)
      else fresh_id hc (lit ''group['' @ decimal index @ lit '']'') r) = (gid, r1)" by (rule prod.exhaust)
  show ?case
  proof (cases "gid \<in> set ids")
    case True
    have step: "check_groups hc index (g # gs) ids r = check_groups hc (Suc index) gs ids
        (hw (lit ''group['' @ decimal index @ lit '']'') (lit ''id '' @ gid @ lit '' is used twice; skipped'') r1)"
      by (simp only: check_groups.simps Let_def g prod.case True if_True)
    show ?thesis by (rule 2(1) [OF refl g [symmetric] refl True 2(3) [unfolded step]])
  next
    case False
    let ?r = "check_defaults hc (gr_defaults g) ((lit ''group['' @ decimal index @ lit '']'') @ lit ''.defaults'') r1"
    obtain rest ids2 r2 where c: "check_groups hc (Suc index) gs (gid # ids) ?r = (rest, ids2, r2)"
      by (cases "check_groups hc (Suc index) gs (gid # ids) ?r") auto
    have IH: "distinct (map gr_id rest) \<and> set (map gr_id rest) \<inter> set (gid # ids) = {} \<and> set (gid # ids) \<subseteq> set ids2"
      by (rule 2(2) [OF refl g [symmetric] refl False refl refl c])
    obtain name where step: "check_groups hc index (g # gs) ids r = (g\<lparr>gr_id := gid, gr_name := name\<rparr> # rest, ids2, r2)"
      by (simp only: check_groups.simps Let_def g prod.case False if_False c)
    have "gs' = g\<lparr>gr_id := gid, gr_name := name\<rparr> # rest" "ids' = ids2" using 2(3) [unfolded step] by simp_all
    then show ?thesis using False IH by auto
  qed
qed simp

lemma cut_parents_Cons:
  "\<exists>r1 g'. fst (cut_parents ids (g # gs) r) = g' # fst (cut_parents ids gs r1) \<and> gr_id g' = gr_id g \<and>
     (\<forall>p. gr_parent g' = Some p \<longrightarrow> p \<in> set ids)"
proof (cases "gr_parent g")
  case None
  then have "fst (cut_parents ids (g # gs) r) = g # fst (cut_parents ids gs r)" by (simp split: prod.split)
  then show ?thesis using None by fastforce
next
  case (Some p)
  show ?thesis
  proof (cases "p \<notin> set ids \<or> p = gr_id g")
    case True
    have "fst (cut_parents ids (g # gs) r) = g\<lparr>gr_parent := None\<rparr> #
        fst (cut_parents ids gs (hw (lit ''group '' @ gr_name g) (lit ''unknown parent group '' @ p @ lit ''; moved to the top'') r))"
      by (simp only: cut_parents.simps Some option.case True if_True Let_def) (simp split: prod.split)
    then show ?thesis by fastforce
  next
    case False
    then have "fst (cut_parents ids (g # gs) r) = g # fst (cut_parents ids gs r)" using Some by (simp split: prod.split)
    then show ?thesis using Some False by fastforce
  qed
qed

lemma cut_parents_ids:
  "map gr_id (fst (cut_parents ids gs r)) = map gr_id gs \<and>
   (\<forall>g \<in> set (fst (cut_parents ids gs r)). \<forall>p. gr_parent g = Some p \<longrightarrow> p \<in> set ids)"
proof (induction gs arbitrary: r)
  case (Cons g gs)
  obtain r1 g' where "fst (cut_parents ids (g # gs) r) = g' # fst (cut_parents ids gs r1)" "gr_id g' = gr_id g"
      "\<forall>p. gr_parent g' = Some p \<longrightarrow> p \<in> set ids"
    using cut_parents_Cons [of ids g gs r] by auto
  then show ?case using Cons [of r1] by (simp del: cut_parents.simps)
qed simp

lemma cut_group_kept:
  "\<forall>g \<in> set gs. \<forall>p. gr_parent g = Some p \<longrightarrow> p \<in> ids \<Longrightarrow>
   \<forall>g \<in> set (fst (cut_group x gs r)). \<forall>p. gr_parent g = Some p \<longrightarrow> p \<in> ids"
  by (induction x gs r rule: cut_group.induct) (auto split: prod.splits)

lemma cut_loops_parents:
  assumes "\<forall>g \<in> set gs. \<forall>p. gr_parent g = Some p \<longrightarrow> p \<in> ids"
  shows "\<forall>g \<in> set (fst (cut_loops gs r)). \<forall>p. gr_parent g = Some p \<longrightarrow> p \<in> ids"
proof -
  have "\<forall>g \<in> set (fst (foldl cut_loop (gs, r) js)). \<forall>p. gr_parent g = Some p \<longrightarrow> p \<in> ids" for js
  proof (induction js rule: rev_induct)
    case (snoc j js)
    let ?s = "foldl cut_loop (gs, r) js"
    have "\<forall>g \<in> set (fst (cut_loop ?s j)). \<forall>p. gr_parent g = Some p \<longrightarrow> p \<in> ids"
      using snoc cut_group_kept [OF snoc] unfolding cut_loop_def [of ?s j] by (auto split: option.splits)
    then show ?case by simp
  qed (use assms in simp)
  then show ?thesis by (simp add: cut_loops_def)
qed

lemma check_host_fields:
  "check_host hc group_ids label h r = (h', r') \<Longrightarrow>
   ho_id h' = ho_id h \<and> (\<forall>g. ho_group h' = Some g \<longrightarrow> g \<in> set group_ids) \<and> ho_port h' \<noteq> Some 0"
  by (auto simp: check_host_def Let_def split: option.splits if_splits)

lemma check_hosts_ok:
  "check_hosts hc group_ids index hs ids r = (hs', r') \<Longrightarrow>
   distinct (map ho_id hs') \<and> set (map ho_id hs') \<inter> set ids = {} \<and>
   (\<forall>h \<in> set hs'. (\<forall>g. ho_group h = Some g \<longrightarrow> g \<in> set group_ids) \<and> ho_port h \<noteq> Some 0)"
proof (induction hc group_ids index hs ids r arbitrary: hs' r' rule: check_hosts.induct)
  case (2 hc group_ids index h hs ids r)
  let ?label = "if trim (ho_name h) = [] then lit ''host['' @ decimal index @ lit '']'' else lit ''host '' @ trim (ho_name h)"
  obtain hid r1 where h: "(if \<not> valid_host_id (ho_id h) \<or> is_linked h then fresh_id hc ?label r else (ho_id h, r)) = (hid, r1)"
    by (rule prod.exhaust)
  show ?case
  proof (cases "hid \<in> set ids")
    case True
    have step: "check_hosts hc group_ids index (h # hs) ids r = check_hosts hc group_ids (Suc index) hs ids
        (hw ?label (lit ''id '' @ hid @ lit '' is used twice; skipped'') r1)"
      by (simp only: check_hosts.simps Let_def h prod.case True if_True)
    show ?thesis by (rule 2(1) [OF refl h [symmetric] refl True 2(3) [unfolded step]])
  next
    case False
    obtain h1 r2 where c: "check_host hc group_ids ?label (h\<lparr>ho_id := hid\<rparr>) r1 = (h1, r2)" by (rule prod.exhaust)
    obtain rest r3 where d: "check_hosts hc group_ids (Suc index) hs (hid # ids) r2 = (rest, r3)" by (rule prod.exhaust)
    have IH: "distinct (map ho_id rest) \<and> set (map ho_id rest) \<inter> set (hid # ids) = {} \<and>
        (\<forall>h \<in> set rest. (\<forall>g. ho_group h = Some g \<longrightarrow> g \<in> set group_ids) \<and> ho_port h \<noteq> Some 0)"
      by (rule 2(2) [OF refl h [symmetric] refl False c [symmetric] refl d])
    have step: "check_hosts hc group_ids index (h # hs) ids r = (h1 # rest, r3)"
      by (simp only: check_hosts.simps Let_def h prod.case False if_False c d)
    then have "hs' = h1 # rest" using 2(3) by simp
    moreover have "ho_id h1 = hid" using check_host_fields [OF c] by simp
    ultimately show ?thesis using IH check_host_fields [OF c] False by auto
  qed
qed simp

lemma check_file_ok: "check_file hc f r = (f', r') \<Longrightarrow> hosts_ok f'"
proof -
  assume f: "check_file hc f r = (f', r')"
  obtain gs1 ids r1 where a: "check_groups hc 0 (hf_groups f) [] r = (gs1, ids, r1)" by (metis prod.exhaust)
  obtain gs2 r2 where b: "cut_parents (map gr_id gs1) gs1 r1 = (gs2, r2)" by (metis prod.exhaust)
  obtain gs3 r3 where c: "cut_loops gs2 r2 = (gs3, r3)" by (metis prod.exhaust)
  obtain hs r4 where d: "check_hosts hc (map gr_id gs1) 0 (hf_hosts f) ids r3 = (hs, r4)" by (metis prod.exhaust)
  have f': "f' = f\<lparr>hf_groups := gs3, hf_hosts := hs\<rparr>" using f by (simp add: check_file_def a b c d Let_def)
  have ids: "map gr_id gs3 = map gr_id gs1"
    using cut_parents_ids [of "map gr_id gs1" gs1 r1] cut_loops_forest [of gs2 r2] by (simp add: b c)
  then have set: "set (map gr_id gs1) = gr_id ` set gs3" by (metis set_map)
  have "\<forall>g \<in> set gs3. \<forall>p. gr_parent g = Some p \<longrightarrow> p \<in> set (map gr_id gs1)"
    using cut_loops_parents [of gs2 "set (map gr_id gs1)" r2] cut_parents_ids [of "map gr_id gs1" gs1 r1] by (simp add: b c)
  moreover have "forest (parent_of gs3)" using cut_loops_forest [of gs2 r2] by (simp add: c)
  moreover have "distinct (map gr_id gs3)" unfolding ids using check_groups_ids [OF a] by simp
  ultimately show ?thesis using check_hosts_ok [OF d] unfolding f' hosts_ok_def set by simp
qed

lemma hosts_from_toml_ok: "hosts_from_toml hc n s = Inr (f, warnings) \<Longrightarrow> hosts_ok f"
  using check_file_ok by (fastforce simp: hosts_from_toml_def Let_def split: sum.splits prod.splits)

text \<open>No host of the file is a linked one, as no id that is drawn looks like it.\<close>

lemma check_hosts_not_linked:
  "(\<And>n. \<not> starts_with (hc_new_id hc n) LINKED_PREFIX) \<Longrightarrow>
   check_hosts hc group_ids index hs ids r = (hs', r') \<Longrightarrow> \<forall>h \<in> set hs'. \<not> is_linked h"
proof (induction hc group_ids index hs ids r arbitrary: hs' r' rule: check_hosts.induct)
  case (2 hc group_ids index h hs ids r)
  let ?label = "if trim (ho_name h) = [] then lit ''host['' @ decimal index @ lit '']'' else lit ''host '' @ trim (ho_name h)"
  obtain hid r1 where h: "(if \<not> valid_host_id (ho_id h) \<or> is_linked h then fresh_id hc ?label r else (ho_id h, r)) = (hid, r1)"
    by (rule prod.exhaust)
  have plain: "\<not> starts_with hid LINKED_PREFIX"
    using h 2(3) [of "fst r"] by (cases "\<not> valid_host_id (ho_id h) \<or> is_linked h") (auto simp: fresh_id_def is_linked_def)
  show ?case
  proof (cases "hid \<in> set ids")
    case True
    have step: "check_hosts hc group_ids index (h # hs) ids r = check_hosts hc group_ids (Suc index) hs ids
        (hw ?label (lit ''id '' @ hid @ lit '' is used twice; skipped'') r1)"
      by (simp only: check_hosts.simps Let_def h prod.case True if_True)
    show ?thesis by (rule 2(1) [OF refl h [symmetric] refl True 2(3) 2(4) [unfolded step]])
  next
    case False
    obtain h1 r2 where c: "check_host hc group_ids ?label (h\<lparr>ho_id := hid\<rparr>) r1 = (h1, r2)" by (rule prod.exhaust)
    obtain rest r3 where d: "check_hosts hc group_ids (Suc index) hs (hid # ids) r2 = (rest, r3)" by (rule prod.exhaust)
    have IH: "\<forall>h \<in> set rest. \<not> is_linked h"
      by (rule 2(2) [OF refl h [symmetric] refl False c [symmetric] refl 2(3) d])
    have step: "check_hosts hc group_ids index (h # hs) ids r = (h1 # rest, r3)"
      by (simp only: check_hosts.simps Let_def h prod.case False if_False c d)
    have "hs' = h1 # rest" using 2(4) by (simp only: step prod.inject)
    moreover have "ho_id h1 = hid" using check_host_fields [OF c] by simp
    ultimately show ?thesis using IH plain by (simp add: is_linked_def)
  qed
qed simp

lemma read_not_linked:
  assumes "\<And>n. \<not> starts_with (hc_new_id hc n) LINKED_PREFIX" "hosts_from_toml hc n s = Inr (f, warnings)"
  shows "\<forall>h \<in> set (hf_hosts f). \<not> is_linked h"
proof -
  obtain f0 r0 r' where "check_file hc f0 r0 = (f, r')"
    using assms(2) by (auto simp: hosts_from_toml_def Let_def split: sum.splits prod.splits)
  then show ?thesis
    by (auto simp: check_file_def Let_def split: prod.splits dest!: check_hosts_not_linked [of hc, OF assms(1)])
qed

text \<open>
  C10: whatever stands in hosts.toml, what is read from it is well formed: ids of groups and of hosts
  are unique, every group that is named exists, no group is inside itself at any depth, and no host
  has port 0.
\<close>

theorem read_hosts_well_formed:
  assumes "hosts_from_toml hc n s = Inr (f, warnings)"
  shows "hosts_ok f"
  using assms by (rule hosts_from_toml_ok)

subsection \<open>Above a group\<close>

definition up :: "group list \<Rightarrow> (str \<times> str) set" where
  "up gs = {(a, b). parent_of gs a = Some b}"

lemma ends_no_cycle: "ends (parent_of gs) a \<Longrightarrow> (a, a) \<notin> (up gs)\<^sup>+"
proof (induction rule: ends.induct)
  case (ends_top a)
  then show ?case by (auto simp: up_def dest: tranclD)
next
  case (ends_up a b)
  show ?case
  proof
    assume "(a, a) \<in> (up gs)\<^sup>+"
    then obtain c where "(a, c) \<in> up gs" "(c, a) \<in> (up gs)\<^sup>*" by (auto dest: tranclD)
    moreover have "(a, b) \<in> up gs" using ends_up(1) by (simp add: up_def)
    ultimately have "(b, b) \<in> (up gs)\<^sup>+" using ends_up(1) by (auto simp: up_def intro: rtrancl_into_trancl1)
    then show False using ends_up.IH by blast
  qed
qed

text \<open>The groups from one to the top, as the file names them.\<close>

inductive group_way :: "group list \<Rightarrow> str option \<Rightarrow> group list \<Rightarrow> bool" for gs where
  way_top: "group_way gs None []"
| way_unknown: "find_group gs a = None \<Longrightarrow> group_way gs (Some a) []"
| way_up: "find_group gs a = Some g \<Longrightarrow> group_way gs (gr_parent g) cs \<Longrightarrow> group_way gs (Some a) (g # cs)"

lemma chain_from_path:
  "ends (parent_of gs) a \<Longrightarrow> (\<forall>b. (a, b) \<in> (up gs)\<^sup>* \<longrightarrow> b \<notin> set seen) \<Longrightarrow> group_way gs (Some a) (chain_from gs seen (Some a))"
proof (induction arbitrary: seen rule: ends.induct)
  case (ends_top a)
  show ?case
  proof (cases "find_group gs a")
    case (Some g)
    then have "gr_parent g = None" "gr_id g = a" using ends_top find_group_id [OF Some] by (auto simp: parent_of_def)
    then show ?thesis using Some ends_top(2) by (auto simp: chain_from.simps(2) intro!: way_up way_top)
  qed (auto simp: chain_from.simps(2) intro: way_unknown)
next
  case (ends_up a b)
  obtain g where g: "find_group gs a = Some g" "gr_parent g = Some b"
    using ends_up(1) by (auto simp: parent_of_def bind_eq_Some_conv)
  have ab: "(a, b) \<in> up gs" using ends_up(1) by (simp add: up_def)
  have "ends (parent_of gs) a" using ends_up by (auto intro: ends.ends_up)
  then have "(b, a) \<notin> (up gs)\<^sup>*" using ends_no_cycle ab by (metis rtrancl_into_trancl2)
  moreover have "\<forall>c. (b, c) \<in> (up gs)\<^sup>* \<longrightarrow> c \<notin> set seen"
    using ends_up(4) ab by (meson converse_rtrancl_into_rtrancl)
  ultimately have "group_way gs (Some b) (chain_from gs (a # seen) (Some b))" by (intro ends_up.IH) auto
  moreover have "a \<notin> set seen" using ends_up(4) by blast
  ultimately show ?case using g find_group_id [OF g(1)] by (auto simp: chain_from.simps(2) intro: way_up)
qed

lemma group_chain_path: "forest (parent_of gs) \<Longrightarrow> group_way gs start (group_chain gs start)"
  by (cases start) (auto simp: group_chain_def forest_def intro: chain_from_path way_top)

subsection \<open>What is inherited\<close>

text \<open>The nearest group from \<open>a\<close> upwards whose defaults set a key, and the value.\<close>

inductive nearest :: "group list \<Rightarrow> str \<Rightarrow> str \<Rightarrow> str \<Rightarrow> toml_value \<Rightarrow> bool" for gs key where
  nearest_here: "find_group gs a = Some g \<Longrightarrow> lookup_path (defaults_table (gr_defaults g)) key = Some v \<Longrightarrow>
    nearest gs key a a v"
| nearest_above: "find_group gs a = Some g \<Longrightarrow> lookup_path (defaults_table (gr_defaults g)) key = None \<Longrightarrow>
    gr_parent g = Some p \<Longrightarrow> nearest gs key p b v \<Longrightarrow> nearest gs key a b v"

inductive_cases nearestE: "nearest gs key a b v"

lemma first_some_nearest:
  "group_way gs start cs \<Longrightarrow>
   first_some (\<lambda>g. map_option (\<lambda>v. (v, gr_id g)) (lookup_path (defaults_table (gr_defaults g)) key)) cs = Some (v, b) \<longleftrightarrow>
   (\<exists>a. start = Some a \<and> nearest gs key a b v)"
proof (induction rule: group_way.induct)
  case (way_up a g cs)
  then show ?case using find_group_id [OF way_up(1)]
    by (cases "lookup_path (defaults_table (gr_defaults g)) key") (auto intro: nearest.intros elim: nearestE)
qed (auto elim: nearestE)

lemma bt_get_foldl_insert:
  "bt_get (foldl (\<lambda>m k. bt_insert k (F k) m) m0 ks) key = (if key \<in> set ks then Some (F key) else bt_get m0 key)"
  by (induction ks arbitrary: m0) (auto simp: bt_get_insert)

lemma bt_get_map_values: "bt_get (map (\<lambda>(k, v). (k, G k v)) m) key = map_option (G key) (bt_get m key)"
  by (induction m) auto

lemma resolve_value:
  "key \<in> set INHERITED_KEYS \<Longrightarrow>
   bt_get (rh_fields (resolve_host f h)) key =
     Some (case lookup_path (own_table h) key of
             Some v \<Rightarrow> \<lparr>re_value = Some v, re_origin = OriginHost\<rparr>
           | None \<Rightarrow> inherited_value f (ho_group h) (ho_protocol h) key)"
  by (simp add: resolve_host_def inherited_def bt_get_map_values bt_get_foldl_insert)

text \<open>
  C11: what a host does not set itself comes from the nearest group above it that sets it, named as
  the origin with its value, and from the settings or the built-in default when no group does.
\<close>

theorem resolve_nearest_group:
  assumes "hosts_ok f" "key \<in> set INHERITED_KEYS"
  shows "\<exists>r. bt_get (rh_fields (resolve_host f h)) key = Some r \<and>
    (case lookup_path (own_table h) key of
       Some v \<Rightarrow> r = \<lparr>re_value = Some v, re_origin = OriginHost\<rparr>
     | None \<Rightarrow>
         (\<forall>b v. r = \<lparr>re_value = Some v, re_origin = OriginGroup b\<rparr> \<longleftrightarrow>
            (\<exists>a. ho_group h = Some a \<and> nearest (hf_groups f) key a b v)) \<and>
         ((\<exists>b v. r = \<lparr>re_value = Some v, re_origin = OriginGroup b\<rparr>) \<or>
          r = \<lparr>re_value = (case lookup_path (hf_base f) key of Some v \<Rightarrow> Some v | None \<Rightarrow> builtin key (ho_protocol h)),
               re_origin = OriginDefault\<rparr>))"
proof -
  let ?find = "first_some (\<lambda>g. map_option (\<lambda>v. (v, gr_id g)) (lookup_path (defaults_table (gr_defaults g)) key))
    (group_chain (hf_groups f) (ho_group h))"
  have "group_way (hf_groups f) (ho_group h) (group_chain (hf_groups f) (ho_group h))"
    using assms(1) by (auto simp: hosts_ok_def intro: group_chain_path)
  note found = first_some_nearest [OF this, of key]
  show ?thesis
  proof (cases "?find")
    case None
    then show ?thesis using found
      by (auto simp: resolve_value [OF assms(2)] inherited_value_def split: option.split)
  next
    case (Some vb)
    obtain v b where "vb = (v, b)" by (cases vb)
    then have "?find = Some (v, b)" using Some by simp
    moreover have "(\<exists>a. ho_group h = Some a \<and> nearest (hf_groups f) key a b' v') \<longleftrightarrow> v = v' \<and> b = b'" for b' v'
      using found [of v' b'] \<open>?find = Some (v, b)\<close> by auto
    ultimately show ?thesis
      by (auto simp: resolve_value [OF assms(2)] inherited_value_def split: option.split)
  qed
qed

subsection \<open>Below a group\<close>

text \<open>An id is below another when its parents lead there.\<close>

definition below :: "group list \<Rightarrow> (str \<times> str) set" where
  "below gs = {(gr_id g, p) | g p. g \<in> set gs \<and> gr_parent g = Some p}"

lemma subtree_step_fixed:
  "subtree_step gs found = found \<Longrightarrow> g \<in> set gs \<Longrightarrow> gr_parent g = Some p \<Longrightarrow> p \<in> found \<Longrightarrow> gr_id g \<in> found"
proof (induction gs)
  case (Cons g' gs)
  let ?found = "if (case gr_parent g' of Some p \<Rightarrow> p \<in> found | None \<Rightarrow> False) then insert (gr_id g') found else found"
  have step: "subtree_step gs ?found = found" using Cons(2) by (simp add: subtree_step_def)
  have same: "?found = found" using subtree_step_bounds [of ?found gs] unfolding step by auto
  show ?case
  proof (cases "g = g'")
    case True
    then show ?thesis using same Cons(4,5) by auto
  next
    case False
    then show ?thesis using Cons(1) step Cons(3-5) unfolding same by simp
  qed
qed simp

lemma subtree_step_below:
  "(\<forall>x \<in> found. (x, r) \<in> (below gs)\<^sup>*) \<Longrightarrow> set gs' \<subseteq> set gs \<Longrightarrow>
   \<forall>x \<in> subtree_step gs' found. (x, r) \<in> (below gs)\<^sup>*"
proof (induction gs' arbitrary: found)
  case (Cons g gs')
  let ?found = "if (case gr_parent g of Some p \<Rightarrow> p \<in> found | None \<Rightarrow> False) then insert (gr_id g) found else found"
  have "subtree_step (g # gs') found = subtree_step gs' ?found" by (simp add: subtree_step_def)
  moreover have "\<forall>x \<in> ?found. (x, r) \<in> (below gs)\<^sup>*"
    using Cons(2,3) by (auto simp: below_def split: option.splits intro: converse_rtrancl_into_rtrancl)
  ultimately show ?case using Cons(1) Cons(3) by simp
qed (simp add: subtree_step_def)

lemma subtree_from_below:
  "(\<forall>x \<in> found. (x, r) \<in> (below gs)\<^sup>*) \<Longrightarrow> r \<in> found \<Longrightarrow> subtree_from gs found = {x. (x, r) \<in> (below gs)\<^sup>*}"
proof (induction gs found rule: subtree_from.induct)
  case (1 gs found)
  show ?case
  proof (cases "subtree_step gs found = found")
    case True
    have "x \<in> found" if "(x, r) \<in> (below gs)\<^sup>*" for x
      using that by (induction rule: converse_rtrancl_induct)
        (use 1(3) subtree_step_fixed [OF True] in \<open>auto simp: below_def\<close>)
    then show ?thesis using True 1(2) by (auto simp: subtree_from.simps [of gs found])
  next
    case False
    have "r \<in> subtree_step gs found" using 1(3) subtree_step_bounds [of found gs] by auto
    then show ?thesis
      using 1(1) [OF False] subtree_step_below [OF 1(2) order_refl] False by (simp add: subtree_from.simps [of gs found])
  qed
qed

lemma subtree_below: "subtree gs gid = {x. (x, gid) \<in> (below gs)\<^sup>*}"
  unfolding subtree_def by (rule subtree_from_below) auto

text \<open>
  the subtree of a group, which is found in rounds over the file's order, is the group and every
  group whose parents lead to it, at any depth and also in a file that has loops.
\<close>

theorem subtree_is_all_below: "subtree gs gid = {x. (x, gid) \<in> (below gs)\<^sup>*}"
  by (rule subtree_below)

subsection \<open>A file on which the laws apply\<close>

definition no_defaults :: host_defaults where
  "no_defaults =
     \<lparr>de_user = None, de_port = None, de_jump = None, de_identity = None, de_identity_file = None, de_profile = None,
      de_ssh = no_ssh_options, de_sftp = no_sftp_options, de_terminal = []\<rparr>"

definition sample_group :: "string \<Rightarrow> string option \<Rightarrow> string option \<Rightarrow> group" where
  "sample_group gid parent user =
     \<lparr>gr_id = lit gid, gr_name = lit gid, gr_parent = map_option lit parent, gr_color = [], gr_notes = [],
      gr_defaults = no_defaults\<lparr>de_user := map_option lit user\<rparr>, gr_extra = []\<rparr>"

definition sample_host :: "string \<Rightarrow> string option \<Rightarrow> host" where
  "sample_host hid gid =
     host_default\<lparr>ho_id := lit hid, ho_name := lit hid, ho_group := map_option lit gid, ho_address := lit hid\<rparr>"

text \<open>Three groups, of which the first two are inside each other, and a host in the third.\<close>

definition sample_groups :: "string option \<Rightarrow> group list" where
  "sample_groups parent =
     [sample_group ''a'' parent (Some ''root''), sample_group ''b'' (Some ''a'') (Some ''ops''), sample_group ''c'' (Some ''b'') None]"

definition sample_doc :: table where
  "sample_doc = [(lit ''group'', VArray [VInteger 0, VInteger 1, VInteger 2]), (lit ''host'', VArray [VInteger 0])]"

definition sample_host_crates :: host_crates where
  "sample_host_crates =
     \<lparr>hc_parse = (\<lambda>_. Inr sample_doc),
      hc_group = (\<lambda>v. case v of VInteger i \<Rightarrow> Inr (sample_groups (Some ''b'') ! nat i) | _ \<Rightarrow> Inl []),
      hc_host = (\<lambda>_. Inr (sample_host ''web'' (Some ''c''))),
      hc_source = (\<lambda>_. Inl []),
      hc_new_id = decimal,
      hc_lowercase = (\<lambda>s. s),
      hc_terminal_warnings = (\<lambda>_ _. [])\<rparr>"

definition sample_read :: hosts_file where
  "sample_read = fst (projr (hosts_from_toml sample_host_crates 0 []))"

lemma sample_read_eq: "\<exists>warnings. hosts_from_toml sample_host_crates 0 [] = Inr (sample_read, warnings)"
  unfolding sample_read_def by (simp add: hosts_from_toml_def sample_host_crates_def Let_def split: prod.splits)

lemma sample_read_ok: "hosts_ok sample_read"
  using sample_read_eq hosts_from_toml_ok by blast

lemmas sample_simps = sample_groups_def sample_group_def no_defaults_def lit_def of_char_def

lemma sample_parse: "hc_parse sample_host_crates s = Inr sample_doc"
  by (simp add: sample_host_crates_def)

lemma sample_warnings: "hc_terminal_warnings sample_host_crates t label = []"
  by (simp add: sample_host_crates_def)

lemma sample_ids: "valid_host_id [97]" "valid_host_id [98]" "valid_host_id [99]" "trim [97] = [97]" "trim [98] = [98]" "trim [99] = [99]"
  by (simp_all add: valid_host_id_def trim_def is_whitespace_def byte_len_def utf8_len_def MAX_ID_LEN_def is_control_def)

lemma sample_checked:
  "check_groups sample_host_crates 0 (sample_groups (Some ''b'')) [] (n, ws) =
     (sample_groups (Some ''b''), [lit ''c'', lit ''b'', lit ''a''], (n, ws))"
  by (simp add: sample_simps sample_warnings sample_ids check_defaults_def Let_def)

lemma sample_parents:
  "cut_parents (map gr_id (sample_groups (Some ''b''))) (sample_groups (Some ''b'')) r = (sample_groups (Some ''b''), r)"
  by (simp add: sample_simps)

lemma sample_loops: "fst (cut_loops (sample_groups (Some ''b'')) r) = sample_groups None"
  by (simp add: sample_simps cut_loops_def cut_loop_def walk_parents.simps parent_of_def find_group_def)

lemma check_file_groups:
  "hf_groups (fst (check_file hc f r)) =
     (let (groups, ids, r) = check_groups hc 0 (hf_groups f) [] r; (groups', r) = cut_parents (map gr_id groups) groups r
      in fst (cut_loops groups' r))"
  by (simp add: check_file_def Let_def split: prod.split)

lemma sample_read_groups: "hf_groups sample_read = sample_groups None"
proof -
  have group: "host_entries (hc_group sample_host_crates) (lit ''group'') (sample_doc, r) =
      (sample_groups (Some ''b''), bt_remove (lit ''group'') sample_doc, r)" for r
    by (simp add: host_entries_def sample_doc_def sample_host_crates_def sample_groups_def)
  have version: "bt_get sample_doc (lit ''schema_version'') = None" "bt_remove (lit ''schema_version'') sample_doc = sample_doc"
    by (simp_all add: sample_doc_def bt_remove_def bt_retain_def lit_def of_char_def)
  have "\<exists>r f. sample_read = fst (check_file sample_host_crates f r) \<and> hf_groups f = sample_groups (Some ''b'')"
    unfolding sample_read_def hosts_from_toml_def
    by (simp add: version group HOSTS_SCHEMA_VERSION_def Let_def sample_parse split: prod.split) (metis fst_conv hosts_file.select_convs(1))
  then obtain r f where f: "sample_read = fst (check_file sample_host_crates f r)" "hf_groups f = sample_groups (Some ''b'')"
    by blast
  obtain n ws where "r = (n, ws)" by (cases r)
  then show ?thesis unfolding f(1) check_file_groups f(2) by (simp add: sample_checked sample_parents sample_loops Let_def)
qed

lemma read_hosts_well_formed_witness:
  "hosts_ok sample_read \<and> map gr_parent (hf_groups sample_read) = [None, Some (lit ''a''), Some (lit ''b'')]"
proof
  obtain warnings where "hosts_from_toml sample_host_crates 0 [] = Inr (sample_read, warnings)" using sample_read_eq ..
  then show "hosts_ok sample_read" by (rule read_hosts_well_formed)
  show "map gr_parent (hf_groups sample_read) = [None, Some (lit ''a''), Some (lit ''b'')]"
    by (simp add: sample_read_groups sample_groups_def) (simp add: sample_group_def)
qed

lemma resolve_nearest_group_witness:
  "bt_get (rh_fields (resolve_host sample_read (sample_host ''web'' (Some ''c'')))) (lit ''user'') =
     Some \<lparr>re_value = Some (VString (lit ''ops'')), re_origin = OriginGroup (lit ''b'')\<rparr>"
proof -
  let ?b = "sample_group ''b'' (Some ''a'') (Some ''ops'')" and ?c = "sample_group ''c'' (Some ''b'') None"
  have ok: "hosts_ok sample_read" by (rule sample_read_ok)
  have own: "lookup_path (own_table (sample_host ''web'' (Some ''c''))) (lit ''user'') = None" by code_simp
  have found: "find_group (hf_groups sample_read) (lit ''c'') = Some ?c" "find_group (hf_groups sample_read) (lit ''b'') = Some ?b"
    by (simp_all add: sample_read_groups sample_groups_def find_group_def) (simp_all add: sample_group_def lit_def of_char_def)
  have users: "lookup_path (defaults_table (gr_defaults ?c)) (lit ''user'') = None"
      "lookup_path (defaults_table (gr_defaults ?b)) (lit ''user'') = Some (VString (lit ''ops''))"
    by code_simp+
  have up: "gr_parent ?c = Some (lit ''b'')" by (simp add: sample_group_def)
  have "nearest (hf_groups sample_read) (lit ''user'') (lit ''c'') (lit ''b'') (VString (lit ''ops''))"
    by (rule nearest_above [OF found(1) users(1) up nearest_here [OF found(2) users(2)]])
  moreover have "ho_group (sample_host ''web'' (Some ''c'')) = Some (lit ''c'')" by (simp add: sample_host_def)
  moreover have "lit ''user'' \<in> set INHERITED_KEYS" by (simp add: INHERITED_KEYS_def)
  ultimately show ?thesis using resolve_nearest_group [OF ok, of "lit ''user''" "sample_host ''web'' (Some ''c'')"] own
    by auto
qed

end
