(* ===== verification/Recent.thy ===== *)
theory Recent
  imports Texts
begin

text \<open>
  The recent connections (\<open>crates/opensesh-core/src/hosts/recent.rs\<close>): reading the list from a file's
  entries, recording a connection, forgetting a host, and the invariant over every use of the list.
  The text of the file is the work of the parser, so a file is the entries it parses to.
\<close>

definition MAX_RECENT :: nat where "MAX_RECENT = 30"

record recent_entry =
  rc_host :: str
  rc_target :: str
  rc_at :: int

definition same_entry :: "recent_entry \<Rightarrow> recent_entry \<Rightarrow> bool" where
  "same_entry a b \<longleftrightarrow>
     (if rc_host a = [] then rc_target a \<noteq> [] \<and> rc_target a = rc_target b else rc_host a = rc_host b)"

fun recent_keep :: "recent_entry list \<Rightarrow> recent_entry list \<Rightarrow> recent_entry list" where
  "recent_keep list [] = list"
| "recent_keep list (e # es) =
     (if (rc_host e \<noteq> [] \<or> rc_target e \<noteq> []) \<and> \<not> list_ex (\<lambda>seen. same_entry seen e) list
      then recent_keep (list @ [e]) es else recent_keep list es)"

definition recent_from_entries :: "recent_entry list \<Rightarrow> recent_entry list" where
  "recent_from_entries es = take MAX_RECENT (sort_key (\<lambda>e. - rc_at e) (recent_keep [] es))"

definition recent_touch :: "recent_entry \<Rightarrow> recent_entry list \<Rightarrow> recent_entry list" where
  "recent_touch e es = take MAX_RECENT (e # filter (\<lambda>seen. \<not> same_entry seen e) es)"

definition recent_touch_host :: "str \<Rightarrow> int \<Rightarrow> recent_entry list \<Rightarrow> recent_entry list" where
  "recent_touch_host hid now = recent_touch \<lparr>rc_host = hid, rc_target = [], rc_at = now\<rparr>"

definition recent_touch_target :: "str \<Rightarrow> int \<Rightarrow> recent_entry list \<Rightarrow> recent_entry list" where
  "recent_touch_target target now = recent_touch \<lparr>rc_host = [], rc_target = trim target, rc_at = now\<rparr>"

definition recent_remove_host :: "str \<Rightarrow> recent_entry list \<Rightarrow> recent_entry list \<times> bool" where
  "recent_remove_host hid es =
     (let kept = filter (\<lambda>e. rc_host e \<noteq> hid) es in (kept, length kept \<noteq> length es))"

definition recent_last_used :: "str \<Rightarrow> recent_entry list \<Rightarrow> int option" where
  "recent_last_used hid es = map_option rc_at (find (\<lambda>e. rc_host e = hid) es)"

subsection \<open>The invariant\<close>

text \<open>What an entry stands for: a saved host, or the text of a target.\<close>

definition recent_key :: "recent_entry \<Rightarrow> str \<times> str" where
  "recent_key e = (rc_host e, if rc_host e = [] then rc_target e else [])"

definition recent_ok :: "recent_entry list \<Rightarrow> bool" where
  "recent_ok es \<longleftrightarrow> length es \<le> MAX_RECENT \<and> distinct (map recent_key (filter (\<lambda>e. recent_key e \<noteq> ([], [])) es))"

lemma same_entry_key: "recent_key a = recent_key b \<Longrightarrow> recent_key b \<noteq> ([], []) \<Longrightarrow> same_entry a b"
  by (auto simp: same_entry_def recent_key_def split: if_splits)

lemma recent_keys_filter:
  "distinct (map recent_key (filter P es)) \<Longrightarrow> distinct (map recent_key (filter P (filter Q es)))"
  by (induction es) auto

lemma recent_keys_take: "distinct (map recent_key (filter P es)) \<Longrightarrow> distinct (map recent_key (filter P (take n es)))"
  by (metis append_take_drop_id distinct_append filter_append map_append)

lemma recent_touch_ok: "recent_ok es \<Longrightarrow> recent_ok (recent_touch e es)"
proof -
  assume ok: "recent_ok es"
  let ?P = "\<lambda>e. recent_key e \<noteq> ([], [])"
  have "distinct (map recent_key (filter ?P (e # filter (\<lambda>seen. \<not> same_entry seen e) es)))"
    using ok recent_keys_filter [of ?P es] by (auto simp: recent_ok_def) (metis same_entry_key)
  then show ?thesis using recent_keys_take by (auto simp: recent_ok_def recent_touch_def)
qed

lemma recent_remove_ok: "recent_ok es \<Longrightarrow> recent_ok (fst (recent_remove_host hid es))"
  using recent_keys_filter [of "\<lambda>e. recent_key e \<noteq> ([], [])" es]
  by (auto simp: recent_ok_def recent_remove_host_def Let_def intro: le_trans [OF length_filter_le])

lemma recent_keep_keys:
  "distinct (map recent_key list) \<and> (\<forall>e \<in> set list. recent_key e \<noteq> ([], [])) \<Longrightarrow>
   distinct (map recent_key (recent_keep list es)) \<and> (\<forall>e \<in> set (recent_keep list es). recent_key e \<noteq> ([], []))"
proof (induction list es rule: recent_keep.induct)
  case (2 list e es)
  show ?case
  proof (cases "(rc_host e \<noteq> [] \<or> rc_target e \<noteq> []) \<and> \<not> list_ex (\<lambda>seen. same_entry seen e) list")
    case True
    have "recent_key e \<noteq> ([], [])" using True by (auto simp: recent_key_def)
    moreover have "recent_key e \<notin> recent_key ` set list"
      using True same_entry_key [OF _ \<open>recent_key e \<noteq> ([], [])\<close>] by (force simp: list_ex_iff)
    ultimately show ?thesis using 2 True by simp
  next
    case False
    have step: "recent_keep list (e # es) = recent_keep list es" unfolding recent_keep.simps using False by (rule if_not_P)
    show ?thesis unfolding step by (rule 2(2) [OF False 2(3)])
  qed
qed simp

lemma recent_from_ok: "recent_ok (recent_from_entries es)"
proof -
  let ?es = "recent_keep [] es"
  have "distinct (map recent_key ?es)" using recent_keep_keys [of "[]" es] by simp
  then have "distinct (map recent_key (sort_key (\<lambda>e. - rc_at e) ?es))"
    by (simp add: distinct_map)
  then have "distinct (map recent_key (filter P (sort_key (\<lambda>e. - rc_at e) ?es)))" for P
    by (simp add: distinct_map) (auto intro: inj_on_subset)
  then show ?thesis by (auto simp: recent_ok_def recent_from_entries_def intro: recent_keys_take)
qed

end
