(* ===== verification/Ssh_Config.thy ===== *)
theory Ssh_Config
  imports Hosts Utf8 "HOL-Library.List_Lexorder"
begin

text \<open>
  The hosts of \<open>~/.ssh/config\<close> (\<open>crates/opensesh-import/src/ssh_config.rs\<close>): its lines, the files it
  includes, and the linked sources of \<open>hosts.toml\<close>. \<open>sc_parser\<close> is the struct \<open>Parser\<close> without the
  home folder; a function that works on it takes it and gives it back.

  Paths are Unix paths as texts. The file system is the record \<open>config_disk\<close>: what the calls of the
  standard library answer for a path, with the text of an error. A line of a file is numbered from 1.
\<close>

subsection \<open>Paths\<close>

record config_disk =
  cd_metadata :: "str \<Rightarrow> str + bool \<times> nat"
  cd_content :: "str \<Rightarrow> str + bytes"
  cd_exists :: "str \<Rightarrow> bool"
  cd_is_dir :: "str \<Rightarrow> bool"
  cd_names :: "str \<Rightarrow> str list option"

definition is_absolute :: "str \<Rightarrow> bool" where
  "is_absolute p = starts_with p [47]"

text \<open>\<open>Path::join\<close> and \<open>Path::components\<close>; two paths are equal when their path_components are.\<close>

definition unix_join :: "str \<Rightarrow> str \<Rightarrow> str" where
  "unix_join a b =
     (if is_absolute b then b else if a = [] \<or> last a = 47 then a @ b else a @ [47] @ b)"

definition path_components :: "str \<Rightarrow> str list" where
  "path_components p =
     (let parts = split_on 47 p; plain = (\<lambda>c. c \<noteq> [] \<and> c \<noteq> [46])
      in (if is_absolute p then [[47]] else filter (\<lambda>c. c \<noteq> []) (take 1 parts)) @ filter plain (drop 1 parts))"

definition same_path :: "str \<Rightarrow> str \<Rightarrow> bool" where
  "same_path a b = (path_components a = path_components b)"

text \<open>\<open>read_limited\<close> of \<open>common.rs\<close>: the file may have grown since its size was asked for.\<close>

definition read_limited :: "config_disk \<Rightarrow> str \<Rightarrow> nat \<Rightarrow> str + bytes" where
  "read_limited disk path most =
     (let too_large = Inl (lit ''larger than '' @ decimal (most div (1024 * 1024)) @ lit '' MiB'')
      in ebind (cd_metadata disk path) (\<lambda>(is_file, len).
         if \<not> is_file then Inl (lit ''not a regular file'')
         else if len > most then too_large
         else ebind (cd_content disk path) (\<lambda>content.
           let bs = take (most + 1) content
           in if length bs > most then too_large else Inr bs)))"

definition expand_tilde :: "str \<Rightarrow> str \<Rightarrow> str" where
  "expand_tilde path home =
     (if path = lit ''~'' then home
      else case strip_prefix (lit ''~/'') path of
             Some rest \<Rightarrow> unix_join home rest
           | None \<Rightarrow>
               (case strip_prefix [126, 92] path of
                  Some rest \<Rightarrow> unix_join home rest
                | None \<Rightarrow> path))"

subsection \<open>Hosts and forwards\<close>

definition MAX_DEPTH :: nat where "MAX_DEPTH = 16"
definition MAX_FILES :: nat where "MAX_FILES = 256"
definition MAX_BYTES :: nat where "MAX_BYTES = 8 * 1024 * 1024"

record ssh_forward =
  fw_kind :: tunnel_kind
  fw_bind_address :: "str option"
  fw_bind_port :: nat
  fw_destination :: "(str \<times> nat) option"
  fw_line :: nat

record ssh_host =
  sh_alias :: str
  sh_host_name :: "str option"
  sh_user :: "str option"
  sh_port :: "nat option"
  sh_identity_files :: "str list"
  sh_jump :: "str list option"
  sh_forwards :: "ssh_forward list"
  sh_file :: str
  sh_line :: nat

definition unbracket :: "str \<Rightarrow> str" where
  "unbracket s =
     (case Option.bind (strip_prefix [91] s) (strip_suffix [93]) of Some inner \<Rightarrow> inner | None \<Rightarrow> s)"

definition listen_host_port :: "str \<Rightarrow> bool \<Rightarrow> str + str option \<times> nat" where
  "listen_host_port s host_optional =
     (let port = (\<lambda>t. case parse_uint u16_max t of
                        Some n \<Rightarrow> Inr n | None \<Rightarrow> Inl (t @ lit '' is not a port''))
      in case strip_prefix [91] s of
           Some rest \<Rightarrow>
             (case split_at_char 93 rest of
                None \<Rightarrow> Inl (s @ lit '': a bracket is not closed'')
              | Some (address, end) \<Rightarrow>
                  (case strip_prefix [58] end of
                     None \<Rightarrow> Inl (s @ lit '': a port is missing'')
                   | Some number \<Rightarrow> ebind (port number) (\<lambda>n. Inr (Some address, n))))
         | None \<Rightarrow>
             (case rsplit_once 58 s of
                Some (address, number) \<Rightarrow>
                  if 58 \<in> set address
                  then Inl (s @ lit '': an IPv6 address needs brackets ([address]:port)'')
                  else ebind (port number) (\<lambda>n. Inr (Some address, n))
              | None \<Rightarrow>
                  if host_optional then ebind (port s) (\<lambda>n. Inr (None, n))
                  else Inl (s @ lit '': expected host:port'')))"

definition parse_forward :: "tunnel_kind \<Rightarrow> str list \<Rightarrow> nat \<Rightarrow> str + ssh_forward" where
  "parse_forward kind args line =
     (case args of
        [] \<Rightarrow> Inl (lit ''a forward needs a port'')
      | listen # more_args \<Rightarrow>
          if starts_with listen [47] then Inl (lit ''forwarding Unix sockets is not supported'')
          else ebind (listen_host_port listen True) (\<lambda>(bind_address, bind_port).
            let forward = (\<lambda>destination. \<lparr>fw_kind = kind, fw_bind_address = map_option unbracket bind_address,
                  fw_bind_port = bind_port, fw_destination = destination, fw_line = line\<rparr>)
            in if kind = KDynamic then Inr (forward None)
               else case more_args of
                 [] \<Rightarrow>
                   if kind = KRemote
                   then Inl (lit ''RemoteForward without a destination (a SOCKS proxy on the server) is not supported'')
                   else Inl (lit ''a destination (host:port) is missing'')
               | target # _ \<Rightarrow>
                   if starts_with target [47] then Inl (lit ''forwarding to Unix sockets is not supported'')
                   else ebind (listen_host_port target False) (\<lambda>(host, port).
                     case host of
                       Some h \<Rightarrow>
                         if h \<noteq> [] \<and> port > 0 then Inr (forward (Some (h, port)))
                         else Inl (target @ lit '': expected host:port'')
                     | None \<Rightarrow> Inl (target @ lit '': expected host:port''))))"

text \<open>\<open>to_tunnel\<close>, with the id that \<open>Tunnel::new\<close> draws.\<close>

definition to_tunnel :: "ssh_forward \<Rightarrow> str \<Rightarrow> str \<Rightarrow> str \<Rightarrow> tunnel" where
  "to_tunnel fw new alias host =
     (let (dest_host, dest_port) = (case fw_destination fw of Some d \<Rightarrow> d | None \<Rightarrow> ([], 0))
      in \<lparr>tn_id = new, tn_name = alias @ lit '' '' @ decimal (fw_bind_port fw), tn_kind = fw_kind fw, tn_host = host,
          tn_target = [],
          tn_bind_address =
            (case fw_bind_address fw of
               None \<Rightarrow> lit ''127.0.0.1''
             | Some address \<Rightarrow> if address = [42] then lit ''0.0.0.0'' else address),
          tn_bind_port = fw_bind_port fw, tn_destination_host = dest_host, tn_destination_port = dest_port,
          tn_tied = True, tn_autostart = False, tn_reconnect = True, tn_extra = []\<rparr>)"

subsection \<open>Lines\<close>

text \<open>\<open>split_args\<close>: the loop over the characters, with the arguments so far, the one being read,
  and whether a quote and an argument are open.\<close>

fun split_args_loop :: "str \<Rightarrow> str list \<Rightarrow> str \<Rightarrow> bool \<Rightarrow> bool \<Rightarrow> str + str list" where
  "split_args_loop [] args current quoted in_arg =
     (if quoted then Inl (lit ''a quote is not closed'')
      else Inr (if in_arg then args @ [current] else args))"
| "split_args_loop (c # cs) args current quoted in_arg =
     (if c = 34 then split_args_loop cs args current (\<not> quoted) True
      else if is_whitespace c \<and> \<not> quoted then
        if in_arg then split_args_loop cs (args @ [current]) [] quoted False
        else split_args_loop cs args current quoted in_arg
      else split_args_loop cs args (current @ [c]) quoted True)"

definition split_args :: "str \<Rightarrow> str + str list" where
  "split_args s = split_args_loop s [] [] False False"

definition split_keyword :: "str \<Rightarrow> (str \<times> str) option" where
  "split_keyword line =
     (let line = trim line; stop = (\<lambda>c. is_whitespace c \<or> c = 61);
          keyword = takeWhile (\<lambda>c. \<not> stop c) line;
          rest = dropWhile is_whitespace (dropWhile (\<lambda>c. \<not> stop c) line)
      in if keyword = [] then None
         else Some (to_ascii_lower keyword,
                    case strip_prefix [61] rest of
                      Some val \<Rightarrow> dropWhile is_whitespace val
                    | None \<Rightarrow> rest))"

definition has_wildcard :: "str \<Rightarrow> bool" where
  "has_wildcard p = list_ex (\<lambda>c. c = 42 \<or> c = 63 \<or> c = 33) p"

fun wildcard_match :: "str \<Rightarrow> str \<Rightarrow> bool" where
  "wildcard_match [] s = (s = [])"
| "wildcard_match (p # ps) s =
     (if p = 42 then list_ex (\<lambda>skip. wildcard_match ps (drop skip s)) [0..<Suc (length s)]
      else if p = 63 then s \<noteq> [] \<and> wildcard_match ps (drop 1 s)
      else s \<noteq> [] \<and> hd s = p \<and> wildcard_match ps (drop 1 s))"

definition is_glob :: "str \<Rightarrow> bool" where
  "is_glob s = list_ex (\<lambda>c. c = 42 \<or> c = 63) s"

fun expand_components :: "config_disk \<Rightarrow> str list \<Rightarrow> str list \<Rightarrow> str list" where
  "expand_components disk found [] = found"
| "expand_components disk found (c # cs) =
     (if \<not> is_glob c then expand_components disk (map (\<lambda>p. unix_join p c) found) cs
      else expand_components disk
        (concat (map (\<lambda>dir.
           case cd_names disk (if dir = [] then [46] else dir) of
             None \<Rightarrow> []
           | Some names \<Rightarrow>
               map (unix_join dir)
                 (sort (filter (wildcard_match c)
                   (filter (\<lambda>name. \<not> starts_with name [46] \<or> starts_with c [46]) names)))) found)) cs)"

definition expand_glob :: "config_disk \<Rightarrow> str \<Rightarrow> str list" where
  "expand_glob disk pattern = expand_components disk [[]] (path_components pattern)"

text \<open>\<open>str::replace\<close>, from left to right.\<close>

function replace_text :: "str \<Rightarrow> str \<Rightarrow> str \<Rightarrow> str" where
  "replace_text pat by [] = []"
| "replace_text pat by (c # cs) =
     (if starts_with (c # cs) pat then by @ replace_text pat by (drop (length pat - 1) cs)
      else c # replace_text pat by cs)"
  by pat_completeness auto

termination
  by (relation "measure (\<lambda>(_, _, s). length s)") simp_all

subsection \<open>The parser\<close>

record import_warning =
  iw_file :: str
  iw_line :: nat
  iw_message :: str

record ssh_config =
  sc_hosts :: "ssh_host list"
  sc_warnings :: "import_warning list"
  sc_files :: "str list"

record sc_parser =
  sp_config :: ssh_config
  sp_index :: "str \<rightharpoonup> nat"
  sp_current :: "str list option"
  sp_warned_outside :: bool
  sp_read :: nat
  sp_bytes :: nat
  sp_warned_files :: bool

definition no_config :: ssh_config where
  "no_config = \<lparr>sc_hosts = [], sc_warnings = [], sc_files = []\<rparr>"

definition sc_parser_new :: sc_parser where
  "sc_parser_new =
     \<lparr>sp_config = no_config, sp_index = Map.empty, sp_current = None, sp_warned_outside = False,
      sp_read = 0, sp_bytes = 0, sp_warned_files = False\<rparr>"

definition sp_warn :: "str \<Rightarrow> nat \<Rightarrow> str \<Rightarrow> sc_parser \<Rightarrow> sc_parser" where
  "sp_warn path line message p =
     p\<lparr>sp_config := (sp_config p)\<lparr>sc_warnings := sc_warnings (sp_config p) @
        [\<lparr>iw_file = path, iw_line = line, iw_message = message\<rparr>]\<rparr>\<rparr>"

definition change_host :: "nat \<Rightarrow> (ssh_host \<Rightarrow> ssh_host) \<Rightarrow> sc_parser \<Rightarrow> sc_parser" where
  "change_host i F p =
     p\<lparr>sp_config := (sp_config p)\<lparr>sc_hosts := (sc_hosts (sp_config p))[i := F (sc_hosts (sp_config p) ! i)]\<rparr>\<rparr>"

definition option_keyword :: "str \<Rightarrow> bool" where
  "option_keyword k \<longleftrightarrow>
     k = lit ''hostname'' \<or> k = lit ''user'' \<or> k = lit ''port'' \<or> k = lit ''identityfile'' \<or> k = lit ''proxyjump''"

text \<open>What \<open>apply\<close> makes of a host, and the warning.\<close>

definition change_by_option :: "str \<Rightarrow> str \<Rightarrow> str list \<Rightarrow> ssh_host \<Rightarrow> ssh_host \<times> str option" where
  "change_by_option alias keyword args h =
     (let arg = (case args of [] \<Rightarrow> [] | a # _ \<Rightarrow> a)
      in if keyword = lit ''hostname'' \<and> sh_host_name h = None \<and> arg \<noteq> [] then
           (let name = replace_text (lit ''%%'') (lit ''%'') (replace_text (lit ''%h'') alias arg)
            in if starts_with name [45] then (h, Some (lit ''HostName '' @ name @ lit '' can't be used''))
               else (h\<lparr>sh_host_name := Some name\<rparr>, None))
         else if keyword = lit ''user'' \<and> sh_user h = None \<and> arg \<noteq> [] then
           (if starts_with arg [45] then (h, Some (lit ''User '' @ arg @ lit '' can't be used''))
            else (h\<lparr>sh_user := Some arg\<rparr>, None))
         else if keyword = lit ''port'' \<and> sh_port h = None then
           (case parse_uint u16_max arg of
              Some port \<Rightarrow>
                if port > 0 then (h\<lparr>sh_port := Some port\<rparr>, None)
                else (h, Some (lit ''Port '' @ arg @ lit '' is not a port''))
            | None \<Rightarrow> (h, Some (lit ''Port '' @ arg @ lit '' is not a port'')))
         else if keyword = lit ''identityfile'' \<and> arg \<noteq> [] \<and> \<not> eq_ignore_ascii_case arg (lit ''none'') then
           (if arg \<in> set (sh_identity_files h) then (h, None)
            else (h\<lparr>sh_identity_files := sh_identity_files h @ [arg]\<rparr>, None))
         else if keyword = lit ''proxyjump'' \<and> sh_jump h = None \<and> arg \<noteq> [] then
           (h\<lparr>sh_jump := Some (if eq_ignore_ascii_case arg (lit ''none'') then []
                              else filter (\<lambda>hop. hop \<noteq> []) (map trim (split_on 44 arg)))\<rparr>, None)
         else (h, None))"

definition apply_keyword :: "str \<Rightarrow> str \<Rightarrow> str list \<Rightarrow> str \<Rightarrow> nat \<Rightarrow> sc_parser \<Rightarrow> sc_parser" where
  "apply_keyword alias keyword args path line p =
     (case sp_index p alias of
        None \<Rightarrow> p
      | Some i \<Rightarrow>
          (let (h, warning) = change_by_option alias keyword args (sc_hosts (sp_config p) ! i);
               p = change_host i (\<lambda>_. h) p
           in case warning of None \<Rightarrow> p | Some message \<Rightarrow> sp_warn path line message p))"

definition new_ssh_host :: "str \<Rightarrow> str \<Rightarrow> nat \<Rightarrow> ssh_host" where
  "new_ssh_host alias path line =
     \<lparr>sh_alias = alias, sh_host_name = None, sh_user = None, sh_port = None, sh_identity_files = [], sh_jump = None,
      sh_forwards = [], sh_file = path, sh_line = line\<rparr>"

text \<open>The loop of \<open>start_host\<close>, with the names of the block so far.\<close>

fun start_patterns :: "str list \<Rightarrow> str \<Rightarrow> nat \<Rightarrow> str list \<Rightarrow> sc_parser \<Rightarrow> sc_parser" where
  "start_patterns [] path line aliases p = p\<lparr>sp_current := Some aliases\<rparr>"
| "start_patterns (pattern # patterns) path line aliases p =
     (if has_wildcard pattern
      then start_patterns patterns path line aliases
        (sp_warn path line (lit ''pattern '' @ pattern @ lit '' is skipped (only plain host names are imported)'') p)
      else if starts_with pattern [45]
      then start_patterns patterns path line aliases
        (sp_warn path line (pattern @ lit '' can't be a host name; skipped'') p)
      else start_patterns patterns path line (aliases @ [pattern])
        (if sp_index p pattern \<noteq> None then p
         else p\<lparr>sp_index := (sp_index p)(pattern \<mapsto> length (sc_hosts (sp_config p))),
                sp_config := (sp_config p)\<lparr>sc_hosts := sc_hosts (sp_config p) @ [new_ssh_host pattern path line]\<rparr>\<rparr>))"

definition start_host :: "str list \<Rightarrow> str \<Rightarrow> nat \<Rightarrow> sc_parser \<Rightarrow> sc_parser" where
  "start_host patterns path line p = start_patterns patterns path line [] p"

definition add_forward :: "ssh_forward \<Rightarrow> str \<Rightarrow> sc_parser \<Rightarrow> sc_parser" where
  "add_forward fw alias p =
     (case sp_index p alias of
        None \<Rightarrow> p
      | Some i \<Rightarrow> change_host i (\<lambda>h. h\<lparr>sh_forwards := sh_forwards h @ [fw]\<rparr>) p)"

definition forward_kind :: "str \<Rightarrow> tunnel_kind option" where
  "forward_kind keyword =
     (if keyword = lit ''localforward'' then Some KLocal
      else if keyword = lit ''remoteforward'' then Some KRemote
      else if keyword = lit ''dynamicforward'' then Some KDynamic
      else None)"

text \<open>
  One line of \<open>parse\<close>. \<open>incl\<close> stands for the method \<open>include\<close> at the depth of the file: it is given
  the arguments, the file, the line and the chain of files that are being read.
\<close>

type_synonym includer = "str list \<Rightarrow> str \<Rightarrow> nat \<Rightarrow> str list \<Rightarrow> sc_parser \<Rightarrow> sc_parser"

definition parse_line :: "includer \<Rightarrow> str \<Rightarrow> str list \<Rightarrow> nat \<times> str \<Rightarrow> sc_parser \<Rightarrow> sc_parser" where
  "parse_line incl path chain numbered p =
     (let (line, raw) = numbered; trimmed = trim raw
      in if trimmed = [] \<or> starts_with trimmed [35] then p
         else case split_keyword trimmed of
           None \<Rightarrow> p
         | Some (keyword, rest) \<Rightarrow>
             (case split_args rest of
                Inl message \<Rightarrow> sp_warn path line message p
              | Inr args \<Rightarrow>
                  if keyword = lit ''host'' then start_host args path line p
                  else if keyword = lit ''match''
                  then sp_warn path line (lit ''Match blocks are skipped (OpenSSH still applies them)'')
                         (p\<lparr>sp_current := Some []\<rparr>)
                  else if keyword = lit ''include'' then incl args path line chain p
                  else case forward_kind keyword of
                    Some kind \<Rightarrow>
                      (case sp_current p of
                         None \<Rightarrow> p
                       | Some aliases \<Rightarrow>
                           (case parse_forward kind args line of
                              Inr fw \<Rightarrow> fold (add_forward fw) aliases p
                            | Inl message \<Rightarrow> sp_warn path line message p))
                  | None \<Rightarrow>
                      if option_keyword keyword then
                        (case sp_current p of
                           None \<Rightarrow>
                             if sp_warned_outside p then p
                             else sp_warn path line
                                    (lit ''options outside a Host block with plain names are skipped'')
                                    (p\<lparr>sp_warned_outside := True\<rparr>)
                         | Some aliases \<Rightarrow>
                             fold (\<lambda>alias. apply_keyword alias keyword args path line) aliases p)
                      else p))"

definition parse_text :: "includer \<Rightarrow> str \<Rightarrow> str \<Rightarrow> str list \<Rightarrow> sc_parser \<Rightarrow> sc_parser" where
  "parse_text incl content path chain p =
     fold (parse_line incl path chain) (enumerate 1 (str_lines content)) (p\<lparr>sp_warned_outside := False\<rparr>)"

definition read_file_with :: "config_disk \<Rightarrow> includer \<Rightarrow> str \<Rightarrow> str list \<Rightarrow> sc_parser \<Rightarrow> sc_parser" where
  "read_file_with disk incl path chain p =
     (if sp_read p \<ge> MAX_FILES \<or> sp_bytes p \<ge> MAX_BYTES then
        (if sp_warned_files p then p
         else sp_warn path 0
           (lit ''more than '' @ decimal MAX_FILES @ lit '' files or '' @ decimal (MAX_BYTES div (1024 * 1024)) @
            lit '' MiB are included; the rest is skipped'')
           (p\<lparr>sp_warned_files := True\<rparr>))
      else
        (let p = p\<lparr>sp_read := sp_read p + 1\<rparr>
         in case ebind (read_limited disk path (1024 * 1024)) (\<lambda>bs.
                   case from_utf8 bs of None \<Rightarrow> Inl (lit ''not UTF-8'') | Some content \<Rightarrow> Inr content) of
              Inl error \<Rightarrow> sp_warn path 0 (lit ''could not read: '' @ error) p
            | Inr content \<Rightarrow>
                (let p = p\<lparr>sp_bytes := sp_bytes p + length (utf8 content)\<rparr>;
                     p = (if list_ex (same_path path) (sc_files (sp_config p)) then p
                          else p\<lparr>sp_config := (sp_config p)\<lparr>sc_files := sc_files (sp_config p) @ [path]\<rparr>\<rparr>)
                 in parse_text incl content path (chain @ [path]) p)))"

definition expand_home :: "str \<Rightarrow> str \<Rightarrow> str" where
  "expand_home home path =
     (let path = replace_text (lit ''%d'') home path
      in if path = lit ''~'' then home
         else case strip_prefix (lit ''~/'') path of
                Some rest \<Rightarrow> unix_join home rest
              | None \<Rightarrow> if is_absolute path then path else unix_join (unix_join home (lit ''.ssh'')) path)"

text \<open>
  \<open>include\<close>. \<open>reader\<close> stands for \<open>read_file\<close> one level deeper; the block that is open and the
  flag of the file come back when the included file has been read.
\<close>

definition include_one ::
  "config_disk \<Rightarrow> (str \<Rightarrow> str list \<Rightarrow> sc_parser \<Rightarrow> sc_parser) \<Rightarrow> str \<Rightarrow> nat \<Rightarrow> str list \<Rightarrow> str \<Rightarrow> sc_parser \<Rightarrow> sc_parser"
where
  "include_one disk reader origin line chain path p =
     (if list_ex (same_path path) chain
      then sp_warn origin line (path @ lit '' includes itself; skipped'') p
      else if cd_is_dir disk path then p
      else (reader path chain p)\<lparr>sp_current := sp_current p, sp_warned_outside := sp_warned_outside p\<rparr>)"

definition include_with ::
  "config_disk \<Rightarrow> str \<Rightarrow> (str \<Rightarrow> str list \<Rightarrow> sc_parser \<Rightarrow> sc_parser) \<Rightarrow> includer" where
  "include_with disk home reader args origin line chain p =
     fold (\<lambda>arg p.
       let pattern = expand_home home arg
       in if \<not> is_glob arg \<and> \<not> cd_exists disk pattern
          then sp_warn origin line (pattern @ lit '' doesn't exist'') p
          else fold (include_one disk reader origin line chain) (expand_glob disk pattern) p) args p"

definition include_too_deep :: includer where
  "include_too_deep args origin line chain p =
     sp_warn origin line (lit ''Include is nested too deeply; skipped'') p"

text \<open>\<open>read_file\<close> with so many levels of \<open>Include\<close> below it: depth \<open>MAX_DEPTH - 1\<close> has none.\<close>

fun read_config :: "config_disk \<Rightarrow> str \<Rightarrow> nat \<Rightarrow> str \<Rightarrow> str list \<Rightarrow> sc_parser \<Rightarrow> sc_parser" where
  "read_config disk home 0 = read_file_with disk include_too_deep"
| "read_config disk home (Suc levels) =
     read_file_with disk (include_with disk home (read_config disk home levels))"

definition config_load :: "config_disk \<Rightarrow> str \<Rightarrow> str \<Rightarrow> ssh_config" where
  "config_load disk home path = sp_config (read_config disk home (MAX_DEPTH - 1) path [] sc_parser_new)"

subsection \<open>Linked sources\<close>

definition SOURCE_SSH_CONFIG :: str where "SOURCE_SSH_CONFIG = lit ''ssh_config''"

text \<open>A name linked twice keeps its first entry.\<close>

fun add_hosts :: "ssh_host list \<Rightarrow> ssh_host list \<Rightarrow> ssh_host list" where
  "add_hosts all [] = all"
| "add_hosts all (h # hs) =
     add_hosts (if list_ex (\<lambda>seen. sh_alias seen = sh_alias h) all then all else all @ [h]) hs"

fun add_files :: "str list \<Rightarrow> str list \<Rightarrow> str list" where
  "add_files all [] = all"
| "add_files all (f # fs) = add_files (if list_ex (same_path f) all then all else all @ [f]) fs"

definition load_source :: "config_disk \<Rightarrow> str \<Rightarrow> linked_source \<Rightarrow> ssh_config \<Rightarrow> ssh_config" where
  "load_source disk home src all =
     (if ls_kind src \<noteq> SOURCE_SSH_CONFIG
      then all\<lparr>sc_warnings := sc_warnings all @ [\<lparr>iw_file = ls_path src, iw_line = 0,
             iw_message = lit ''linked sources of kind '' @ ls_kind src @ lit '' are not supported; skipped''\<rparr>]\<rparr>
      else let config = config_load disk home (expand_tilde (ls_path src) home)
           in \<lparr>sc_hosts = add_hosts (sc_hosts all) (sc_hosts config),
               sc_warnings = sc_warnings all @ sc_warnings config,
               sc_files = add_files (sc_files all) (sc_files config)\<rparr>)"

definition load_sources :: "config_disk \<Rightarrow> str \<Rightarrow> linked_source list \<Rightarrow> ssh_config" where
  "load_sources disk home sources = fold (load_source disk home) sources no_config"

text \<open>One host of \<open>to_hosts\<close>: linked, or a copy in a group with the id drawn for it.\<close>

definition ssh_to_host :: "bool \<Rightarrow> str option \<Rightarrow> str \<Rightarrow> ssh_host \<Rightarrow> host" where
  "ssh_to_host linked gid new entry =
     host_default\<lparr>ho_id := (if linked then LINKED_PREFIX @ sh_alias entry else new), ho_name := sh_alias entry,
       ho_group := (if linked then None else gid),
       ho_address := (case sh_host_name entry of Some n \<Rightarrow> n | None \<Rightarrow> sh_alias entry), ho_port := sh_port entry,
       ho_user := sh_user entry,
       ho_identity_file := (case sh_identity_files entry of f # _ \<Rightarrow> Some f | [] \<Rightarrow> None),
       ho_jump := sh_jump entry\<rparr>"

abbreviation linked_host :: "ssh_host \<Rightarrow> host" where
  "linked_host \<equiv> ssh_to_host True None []"

subsection \<open>What is read can be used\<close>

text \<open>
  A host whose name is plain, and nothing of which can be taken for an option: not its name, nor
  what it connects to, nor its user; a port is one.
\<close>

definition no_dash :: "str option \<Rightarrow> bool" where
  "no_dash s = (case s of None \<Rightarrow> True | Some t \<Rightarrow> \<not> starts_with t [45])"

definition host_usable :: "ssh_host \<Rightarrow> bool" where
  "host_usable h \<longleftrightarrow>
     \<not> has_wildcard (sh_alias h) \<and> no_dash (Some (sh_alias h)) \<and> no_dash (sh_host_name h) \<and>
     no_dash (sh_user h) \<and> (case sh_port h of None \<Rightarrow> True | Some n \<Rightarrow> 1 \<le> n \<and> n \<le> 65535)"

definition hosts_usable :: "ssh_host list \<Rightarrow> bool" where
  "hosts_usable hs \<longleftrightarrow> distinct (map sh_alias hs) \<and> list_all host_usable hs"

text \<open>The invariant of the parser: the index finds every host, and the files are counted.\<close>

definition sc_inv :: "sc_parser \<Rightarrow> bool" where
  "sc_inv p \<longleftrightarrow>
     hosts_usable (sc_hosts (sp_config p)) \<and>
     (\<forall>a i. sp_index p a = Some i \<longrightarrow>
        i < length (sc_hosts (sp_config p)) \<and> sh_alias (sc_hosts (sp_config p) ! i) = a) \<and>
     (\<forall>h \<in> set (sc_hosts (sp_config p)). sp_index p (sh_alias h) \<noteq> None) \<and>
     length (sc_files (sp_config p)) \<le> sp_read p \<and> sp_read p \<le> MAX_FILES"

lemma sc_inv_new: "sc_inv sc_parser_new"
  by (simp add: sc_inv_def sc_parser_new_def no_config_def hosts_usable_def)

lemma sc_inv_cong:
  "sc_hosts (sp_config q) = sc_hosts (sp_config p) \<Longrightarrow> sc_files (sp_config q) = sc_files (sp_config p) \<Longrightarrow>
   sp_index q = sp_index p \<Longrightarrow> sp_read q = sp_read p \<Longrightarrow> sc_inv q = sc_inv p"
  by (simp add: sc_inv_def)

lemma sc_inv_updates [simp]:
  "sc_inv (p\<lparr>sp_current := c\<rparr>) = sc_inv p" "sc_inv (p\<lparr>sp_warned_outside := b\<rparr>) = sc_inv p"
  "sc_inv (p\<lparr>sp_warned_files := b\<rparr>) = sc_inv p" "sc_inv (p\<lparr>sp_bytes := n\<rparr>) = sc_inv p"
  "sc_inv (sp_warn path line message p) = sc_inv p"
  by (rule sc_inv_cong; simp add: sp_warn_def)+

lemma fold_inv: "(\<And>x s. P s \<Longrightarrow> P (f x s)) \<Longrightarrow> P s \<Longrightarrow> P (fold f xs s)"
  by (induction xs arbitrary: s) auto

lemma change_host_inv:
  assumes inv: "sc_inv p" and i: "sp_index p a = Some i"
    and F: "\<And>h. host_usable h \<Longrightarrow> host_usable (F h) \<and> sh_alias (F h) = sh_alias h"
  shows "sc_inv (change_host i F p)"
proof -
  let ?hs = "sc_hosts (sp_config p)"
  have lt: "i < length ?hs" using inv i by (auto simp: sc_inv_def)
  have usable: "host_usable (?hs ! i)" using inv lt by (auto simp: sc_inv_def hosts_usable_def list_all_length)
  have aliases: "map sh_alias (?hs[i := F (?hs ! i)]) = map sh_alias ?hs"
    using F [OF usable] lt by (auto simp: map_update list_update_same_conv)
  have "list_all host_usable (?hs[i := F (?hs ! i)])"
    using inv F [OF usable] by (auto simp: sc_inv_def hosts_usable_def list_all_iff dest!: set_update_subset_insert [THEN subsetD])
  moreover have "sh_alias ` set (?hs[i := F (?hs ! i)]) = sh_alias ` set ?hs" using aliases by (metis set_map)
  moreover have "sh_alias (?hs[i := F (?hs ! i)] ! j) = sh_alias (?hs ! j)" if "j < length ?hs" for j
    using aliases that by (metis length_list_update nth_map)
  ultimately show ?thesis
    using inv aliases unfolding sc_inv_def change_host_def hosts_usable_def
    by (simp add: image_iff) (metis (no_types, lifting) imageE imageI)
qed

lemma apply_option_usable:
  "host_usable h \<Longrightarrow> host_usable (fst (change_by_option alias keyword args h)) \<and>
     sh_alias (fst (change_by_option alias keyword args h)) = sh_alias h"
  by (auto simp: change_by_option_def host_usable_def no_dash_def Let_def parse_uint_def u16_max_def
      split: option.splits if_splits)

lemma apply_keyword_inv: "sc_inv p \<Longrightarrow> sc_inv (apply_keyword alias keyword args path line p)"
proof (cases "sp_index p alias")
  case (Some i)
  assume inv: "sc_inv p"
  let ?h = "sc_hosts (sp_config p) ! i"
  have "i < length (sc_hosts (sp_config p))" using inv Some by (auto simp: sc_inv_def)
  then have usable: "host_usable ?h" using inv by (auto simp: sc_inv_def hosts_usable_def list_all_length)
  obtain h w where applied: "change_by_option alias keyword args ?h = (h, w)" by force
  have "change_host i (\<lambda>_. h) p = change_host i (\<lambda>g. if g = ?h then h else g) p"
    by (simp add: change_host_def)
  then have "sc_inv (change_host i (\<lambda>_. h) p)"
    using change_host_inv [OF inv Some, of "\<lambda>g. if g = ?h then h else g"] usable applied
      apply_option_usable [of ?h "alias" "keyword" args] by simp
  then show ?thesis using Some applied by (simp add: apply_keyword_def Let_def split: option.split)
qed (simp add: apply_keyword_def)

lemma add_forward_inv: "sc_inv p \<Longrightarrow> sc_inv (add_forward fw alias p)"
  by (auto simp: add_forward_def host_usable_def split: option.split intro!: change_host_inv)

lemma new_host_inv:
  assumes inv: "sc_inv p" and unseen: "sp_index p pattern = None"
    and plain: "\<not> has_wildcard pattern" "\<not> starts_with pattern [45]"
  shows "sc_inv (p\<lparr>sp_index := (sp_index p)(pattern \<mapsto> length (sc_hosts (sp_config p))),
    sp_config := (sp_config p)\<lparr>sc_hosts := sc_hosts (sp_config p) @ [new_ssh_host pattern path line]\<rparr>\<rparr>)"
proof -
  have "host_usable (new_ssh_host pattern path line)"
    using plain by (simp add: host_usable_def new_ssh_host_def no_dash_def)
  moreover have "pattern \<notin> sh_alias ` set (sc_hosts (sp_config p))"
    using inv unseen by (auto simp: sc_inv_def)
  ultimately show ?thesis
    using inv by (auto simp: sc_inv_def hosts_usable_def nth_append new_ssh_host_def less_Suc_eq)
qed

lemma start_patterns_inv: "sc_inv p \<Longrightarrow> sc_inv (start_patterns patterns path line aliases p)"
  by (induction patterns path line aliases p rule: start_patterns.induct) (auto simp: new_host_inv)

lemma parse_line_inv:
  assumes "\<And>args line q. sc_inv q \<Longrightarrow> sc_inv (incl args path line chain q)" and "sc_inv p"
  shows "sc_inv (parse_line incl path chain numbered p)"
  using assms
  by (auto simp: parse_line_def Let_def start_host_def start_patterns_inv split: prod.splits option.splits sum.splits
      intro!: fold_inv [where P = sc_inv] add_forward_inv apply_keyword_inv)

lemma read_file_with_inv:
  assumes "\<And>args line chain q. sc_inv q \<Longrightarrow> sc_inv (incl args path line chain q)" and "sc_inv p"
  shows "sc_inv (read_file_with disk incl path chain p)"
proof (cases "sp_read p \<ge> MAX_FILES \<or> sp_bytes p \<ge> MAX_BYTES")
  case True
  with assms(2) show ?thesis by (simp add: read_file_with_def)
next
  case False
  then have one: "sc_inv (p\<lparr>sp_read := sp_read p + 1\<rparr>)"
    and another: "sc_inv (p\<lparr>sp_read := sp_read p + 1, sp_bytes := n,
        sp_config := (sp_config p)\<lparr>sc_files := sc_files (sp_config p) @ [path]\<rparr>\<rparr>)" for n
    using assms(2) by (auto simp: sc_inv_def)
  have parsed: "sc_inv q \<Longrightarrow> sc_inv (parse_text incl content path chain q)" for content chain q
    unfolding parse_text_def by (intro fold_inv [where P = sc_inv] parse_line_inv assms(1)) simp_all
  show ?thesis
    using False one another parsed
    by (auto simp: read_file_with_def Let_def split: sum.split)
qed

lemma include_with_inv:
  assumes "\<And>path chain q. sc_inv q \<Longrightarrow> sc_inv (reader path chain q)" and "sc_inv p"
  shows "sc_inv (include_with disk home reader args origin line chain p)"
  unfolding include_with_def
  using assms by (auto simp: include_one_def Let_def intro!: fold_inv [where P = sc_inv])

lemma read_config_inv: "sc_inv p \<Longrightarrow> sc_inv (read_config disk home levels path chain p)"
proof (induction levels arbitrary: path chain p)
  case 0
  then show ?case by (auto simp: include_too_deep_def intro!: read_file_with_inv)
next
  case (Suc levels)
  then show ?case by (auto intro!: read_file_with_inv include_with_inv)
qed

lemma config_load_usable:
  "hosts_usable (sc_hosts (config_load disk home path)) \<and> length (sc_files (config_load disk home path)) \<le> MAX_FILES"
  using read_config_inv [OF sc_inv_new, of disk home "MAX_DEPTH - 1" path "[]"]
  by (auto simp: config_load_def sc_inv_def)

lemma add_hosts_usable: "hosts_usable all \<Longrightarrow> list_all host_usable hs \<Longrightarrow> hosts_usable (add_hosts all hs)"
proof (induction all hs rule: add_hosts.induct)
  case (2 all h hs)
  show ?case
  proof (cases "list_ex (\<lambda>seen. sh_alias seen = sh_alias h) all")
    case True
    then show ?thesis using 2 by simp
  next
    case False
    then have "hosts_usable (all @ [h])"
      using 2 by (auto simp: hosts_usable_def list_ex_iff image_iff)
    then show ?thesis using 2 False by simp
  qed
qed simp

lemma load_sources_usable: "hosts_usable (sc_hosts (load_sources disk home sources))"
  unfolding load_sources_def
proof (rule fold_inv [where P = "\<lambda>all. hosts_usable (sc_hosts all)"])
  fix src :: linked_source and all :: ssh_config
  assume "hosts_usable (sc_hosts all)"
  then show "hosts_usable (sc_hosts (load_source disk home src all))"
    using config_load_usable [of disk home] add_hosts_usable
    by (auto simp: load_source_def Let_def hosts_usable_def [of "sc_hosts (config_load _ _ _)"])
qed (simp add: no_config_def hosts_usable_def)

text \<open>
  C19: whatever stands in the linked \<open>ssh_config\<close> files and in what they include, the hosts that are
  shown have pairwise different names, and none of their names, addresses and users can be taken
  for an option by the \<open>ssh\<close> command; a port is between 1 and 65535; and no file makes the
  reader read more than 256 files.
\<close>

theorem linked_hosts_usable:
  "distinct (map sh_alias (sc_hosts (load_sources disk home sources))) \<and>
   list_all (\<lambda>h. \<not> starts_with (sh_alias h) (lit ''-'') \<and>
       \<not> starts_with (case sh_host_name h of Some name \<Rightarrow> name | None \<Rightarrow> sh_alias h) (lit ''-'') \<and>
       \<not> starts_with (case sh_user h of Some user \<Rightarrow> user | None \<Rightarrow> []) (lit ''-'') \<and>
       (case sh_port h of None \<Rightarrow> True | Some port \<Rightarrow> 1 \<le> port \<and> port \<le> 65535))
     (sc_hosts (load_sources disk home sources)) \<and>
   length (sc_files (config_load disk home path)) \<le> 256"
proof -
  have dash: "lit ''-'' = [45]" by (simp add: lit_def)
  show ?thesis
    using load_sources_usable [of disk home sources] config_load_usable [of disk home path]
    unfolding dash
    by (auto simp: hosts_usable_def list_all_iff host_usable_def no_dash_def MAX_FILES_def starts_with_def
        split: option.splits)
qed

end
