(* ===== verification/Hosts_Edit.thy ===== *)
theory Hosts_Edit
  imports Hosts_Laws Recent Ssh_Config
begin

text \<open>
  The edits that the Hosts bridge makes (\<open>crates/opensesh-app/src/bridge/hosts.rs\<close>, from \<open>modify\<close> to
  \<open>set_favorite\<close>, and the recording of connections): every one works on a copy of the published file,
  is refused while the file is locked, and keeps the file well formed.

  What comes from the editor's JSON is the value it was converted to; an id that is drawn is an
  argument. Publishing and the queue of writes are not part of the state: the published file is.
\<close>

record hosts_state =
  hs_file :: hosts_file
  hs_locked :: bool
  hs_recent :: "recent_entry list"

subsection \<open>Edits\<close>

definition hosts_modify :: "(hosts_file \<Rightarrow> hosts_file \<times> 'r) \<Rightarrow> hosts_state \<Rightarrow> hosts_state \<times> 'r option" where
  "hosts_modify change s =
     (if hs_locked s then (s, None)
      else let (f, r) = change (hs_file s) in (s\<lparr>hs_file := f\<rparr>, Some r))"

definition i32_count :: "nat \<Rightarrow> int" where
  "i32_count n = min (int n) 2147483647"

text \<open>\<open>iter_mut().find(...)\<close>: the first that satisfies the predicate is changed.\<close>

fun change_first :: "('a \<Rightarrow> bool) \<Rightarrow> ('a \<Rightarrow> 'a) \<Rightarrow> 'a list \<Rightarrow> 'a list" where
  "change_first P F [] = []"
| "change_first P F (x # xs) = (if P x then F x # xs else x # change_first P F xs)"

definition before_linked :: "host \<Rightarrow> host list \<Rightarrow> host list" where
  "before_linked h hs = takeWhile (\<lambda>x. \<not> is_linked x) hs @ h # dropWhile (\<lambda>x. \<not> is_linked x) hs"

definition store_host :: "host \<Rightarrow> hosts_file \<Rightarrow> hosts_file \<times> unit" where
  "store_host h f =
     (f\<lparr>hf_hosts :=
        (if list_ex (\<lambda>x. ho_id x = ho_id h) (hf_hosts f)
         then change_first (\<lambda>x. ho_id x = ho_id h)
                (\<lambda>x. if ho_extra h = [] then h\<lparr>ho_extra := ho_extra x\<rparr> else h) (hf_hosts f)
         else before_linked h (hf_hosts f))\<rparr>, ())"

definition save_host :: "str \<Rightarrow> host \<Rightarrow> hosts_state \<Rightarrow> hosts_state \<times> str" where
  "save_host new h s =
     (let f = hs_file s; stored = (if ho_id h = [] then h\<lparr>ho_id := new\<rparr> else h)
      in if validate_host f h \<noteq> [] then (s, [])
         else if ho_id h \<noteq> [] \<and>
                 (is_linked h \<or> (case find_by_id f (ho_id h) of Some x \<Rightarrow> is_linked x | None \<Rightarrow> False))
         then (s, [])
         else case hosts_modify (store_host stored) s of
                (s', Some _) \<Rightarrow> (s', ho_id stored)
              | (s', None) \<Rightarrow> (s', []))"

definition store_group :: "group \<Rightarrow> hosts_file \<Rightarrow> hosts_file \<times> unit" where
  "store_group g f =
     (f\<lparr>hf_groups :=
        (if list_ex (\<lambda>x. gr_id x = gr_id g) (hf_groups f)
         then change_first (\<lambda>x. gr_id x = gr_id g)
                (\<lambda>x. if gr_extra g = [] then g\<lparr>gr_extra := gr_extra x\<rparr> else g) (hf_groups f)
         else hf_groups f @ [g])\<rparr>, ())"

definition save_group :: "str \<Rightarrow> group \<Rightarrow> hosts_state \<Rightarrow> hosts_state \<times> str" where
  "save_group new g s =
     (let stored = (if gr_id g = [] then g\<lparr>gr_id := new\<rparr> else g)
      in if validate_group (hs_file s) g \<noteq> [] then (s, [])
         else case hosts_modify (store_group stored) s of
                (s', Some _) \<Rightarrow> (s', gr_id stored)
              | (s', None) \<Rightarrow> (s', []))"

definition drop_hosts :: "str list \<Rightarrow> hosts_file \<Rightarrow> hosts_file \<times> nat" where
  "drop_hosts ids f =
     (let kept = filter (\<lambda>h. is_linked h \<or> ho_id h \<notin> set ids) (hf_hosts f)
      in (f\<lparr>hf_hosts := kept\<rparr>, length (hf_hosts f) - length kept))"

text \<open>
  The ids whose secrets the keychain is asked to forget come with the count; the source goes through
  the ids in the order of a hash set, here they come in the order given.
\<close>

definition delete_hosts :: "(str \<Rightarrow> bool) \<Rightarrow> str list \<Rightarrow> hosts_state \<Rightarrow> hosts_state \<times> int \<times> str list" where
  "delete_hosts has_secrets ids s =
     (let ids = remdups ids; (s, r) = hosts_modify (drop_hosts ids) s;
          removed = (case r of Some n \<Rightarrow> n | None \<Rightarrow> 0)
      in if removed > 0
         then (s\<lparr>hs_recent := foldl (\<lambda>es hid. fst (recent_remove_host hid es)) (hs_recent s) ids\<rparr>, i32_count removed,
               filter (\<lambda>hid. \<not> starts_with hid LINKED_PREFIX \<and> has_secrets hid) ids)
         else (s, i32_count removed, []))"

definition remove_group :: "str \<Rightarrow> hosts_file \<Rightarrow> hosts_file \<times> bool" where
  "remove_group gid f =
     (case find_group (hf_groups f) gid of
        None \<Rightarrow> (f, False)
      | Some g \<Rightarrow>
          (f\<lparr>hf_groups := map (\<lambda>x. if gr_parent x = Some gid then x\<lparr>gr_parent := gr_parent g\<rparr> else x)
                           (remove1 g (hf_groups f)),
             hf_hosts := map (\<lambda>h. if ho_group h = Some gid then h\<lparr>ho_group := gr_parent g\<rparr> else h) (hf_hosts f)\<rparr>, True))"

definition delete_group :: "str \<Rightarrow> hosts_state \<Rightarrow> hosts_state \<times> bool" where
  "delete_group gid s =
     (let (s, r) = hosts_modify (remove_group gid) s in (s, case r of Some b \<Rightarrow> b | None \<Rightarrow> False))"

text \<open>A change of every host of a set that is not linked and that it would change, with their number.\<close>

definition change_hosts :: "str list \<Rightarrow> (host \<Rightarrow> bool) \<Rightarrow> (host \<Rightarrow> host) \<Rightarrow> hosts_file \<Rightarrow> hosts_file \<times> nat" where
  "change_hosts ids differs F f =
     (let wanted = (\<lambda>h. ho_id h \<in> set ids \<and> \<not> is_linked h \<and> differs h)
      in (f\<lparr>hf_hosts := map (\<lambda>h. if wanted h then F h else h) (hf_hosts f)\<rparr>, length (filter wanted (hf_hosts f))))"

definition move_hosts :: "str list \<Rightarrow> str \<Rightarrow> hosts_state \<Rightarrow> hosts_state \<times> int" where
  "move_hosts ids gid s =
     (let target = (if gid = [] then None else Some gid)
      in if gid \<noteq> [] \<and> find_group (hf_groups (hs_file s)) gid = None then (s, 0)
         else let (s, r) = hosts_modify (change_hosts ids (\<lambda>h. ho_group h \<noteq> target) (\<lambda>h. h\<lparr>ho_group := target\<rparr>)) s
              in (s, i32_count (case r of Some n \<Rightarrow> n | None \<Rightarrow> 0)))"

definition set_favorite :: "str list \<Rightarrow> bool \<Rightarrow> hosts_state \<Rightarrow> hosts_state \<times> int" where
  "set_favorite ids favorite s =
     (let (s, r) = hosts_modify (change_hosts ids (\<lambda>h. ho_favorite h \<noteq> favorite) (\<lambda>h. h\<lparr>ho_favorite := favorite\<rparr>)) s
      in (s, i32_count (case r of Some n \<Rightarrow> n | None \<Rightarrow> 0)))"

definition set_parent :: "group \<Rightarrow> hosts_file \<Rightarrow> hosts_file \<times> unit" where
  "set_parent g f =
     (f\<lparr>hf_groups := change_first (\<lambda>x. gr_id x = gr_id g) (\<lambda>x. x\<lparr>gr_parent := gr_parent g\<rparr>) (hf_groups f)\<rparr>, ())"

definition move_group :: "str \<Rightarrow> str \<Rightarrow> hosts_state \<Rightarrow> hosts_state \<times> bool" where
  "move_group gid parent s =
     (case find_group (hf_groups (hs_file s)) gid of
        None \<Rightarrow> (s, False)
      | Some g \<Rightarrow>
          (let g = g\<lparr>gr_parent := (if parent = [] then None else Some parent)\<rparr>
           in if validate_group (hs_file s) g \<noteq> [] then (s, False)
              else let (s, r) = hosts_modify (set_parent g) s in (s, r \<noteq> None)))"

subsection \<open>A copy of a host\<close>

definition copy_name :: "str \<Rightarrow> nat \<Rightarrow> str" where
  "copy_name name n = name @ lit '' ('' @ decimal n @ lit '')''"

lemma copy_name_inj: "copy_name name n = copy_name name m \<Longrightarrow> n = m"
  by (simp add: copy_name_def decimal_inj)

text \<open>The loop that counts up while the name is taken.\<close>

function copy_number :: "str list \<Rightarrow> str \<Rightarrow> nat \<Rightarrow> nat" where
  "copy_number names name n = (if copy_name name n \<in> set names then copy_number names name (Suc n) else n)"
  by pat_completeness auto

lemma copies_shrink:
  assumes "copy_name name n \<in> set names"
  shows "card (set names - copy_name name ` {..<Suc n}) < card (set names - copy_name name ` {..<n})"
proof -
  have "copy_name name n \<notin> copy_name name ` {..<n}" by (metis copy_name_inj imageE lessThan_iff less_irrefl)
  then have "set names - copy_name name ` {..<Suc n} \<subset> set names - copy_name name ` {..<n}"
    unfolding lessThan_Suc image_insert using assms by blast
  then show ?thesis by (intro psubset_card_mono) simp_all
qed

termination copy_number
  by (relation "measure (\<lambda>(names, name, n). card (set names - copy_name name ` {..<n}))") (simp_all add: copies_shrink)

declare copy_number.simps [simp del]

definition place_copy :: "str \<Rightarrow> host \<Rightarrow> hosts_file \<Rightarrow> hosts_file \<times> unit" where
  "place_copy source copy f =
     (f\<lparr>hf_hosts :=
        (case dropWhile (\<lambda>h. \<not> (ho_id h = source \<and> \<not> is_linked h)) (hf_hosts f) of
           [] \<Rightarrow> before_linked copy (hf_hosts f)
         | h # rest \<Rightarrow>
             takeWhile (\<lambda>h. \<not> (ho_id h = source \<and> \<not> is_linked h)) (hf_hosts f) @ h # copy # rest)\<rparr>, ())"

definition duplicate_host :: "str \<Rightarrow> str \<Rightarrow> hosts_state \<Rightarrow> hosts_state \<times> str" where
  "duplicate_host new hid s =
     (case find_by_id (hs_file s) hid of
        None \<Rightarrow> (s, [])
      | Some source \<Rightarrow>
          (let names = map ho_name (hf_hosts (hs_file s));
               name = copy_name (ho_name source) (copy_number names (ho_name source) 2);
               copy = source\<lparr>ho_id := new, ho_favorite := False,
                             ho_name := (if is_linked source then ho_name source else name)\<rparr>
           in case hosts_modify (place_copy (ho_id source) copy) s of
                (s', Some _) \<Rightarrow> (s', new)
              | (s', None) \<Rightarrow> (s', [])))"

subsection \<open>Recorded connections\<close>

definition record_host :: "str \<Rightarrow> int \<Rightarrow> hosts_state \<Rightarrow> hosts_state" where
  "record_host hid now s =
     (if find_by_id (hs_file s) hid = None then s else s\<lparr>hs_recent := recent_touch_host hid now (hs_recent s)\<rparr>)"

definition record_target :: "str \<Rightarrow> int \<Rightarrow> hosts_state \<Rightarrow> hosts_state" where
  "record_target text now s =
     (case target_parse text of
        Inl _ \<Rightarrow> s
      | Inr t \<Rightarrow> s\<lparr>hs_recent := recent_touch_target (target_display t) now (hs_recent s)\<rparr>)"

subsection \<open>What is read from disk\<close>

definition hosts_file_default :: hosts_file where
  "hosts_file_default =
     \<lparr>hf_groups = [], hf_hosts = [], hf_sources = [], hf_read_only = False, hf_extra = [], hf_base = []\<rparr>"

datatype read_hosts = HostsMissing | HostsUnreadable | HostsText str

definition load_hosts :: "host_crates \<Rightarrow> nat \<Rightarrow> read_hosts \<Rightarrow> hosts_file option" where
  "load_hosts hc n r =
     (case r of
        HostsMissing \<Rightarrow> Some hosts_file_default
      | HostsUnreadable \<Rightarrow> None
      | HostsText s \<Rightarrow> (case hosts_from_toml hc n s of Inr (f, _) \<Rightarrow> Some f | Inl _ \<Rightarrow> None))"

definition load_disk :: "host_crates \<Rightarrow> nat \<Rightarrow> read_hosts \<Rightarrow> config_disk \<Rightarrow> str \<Rightarrow> hosts_file \<times> bool" where
  "load_disk hc n r disk home =
     (let (f, locked) = (case load_hosts hc n r of Some f \<Rightarrow> (f, hf_read_only f) | None \<Rightarrow> (hosts_file_default, True))
      in (f\<lparr>hf_hosts := hf_hosts f @ map linked_host (sc_hosts (load_sources disk home (hf_sources f)))\<rparr>, locked))"

text \<open>While a save is pending what was read is dropped (it is read again when the save is done).\<close>

definition apply_disk :: "bool \<Rightarrow> hosts_file \<times> bool \<Rightarrow> hosts_state \<Rightarrow> hosts_state" where
  "apply_disk pending disk s =
     (if pending then s else s\<lparr>hs_file := fst disk, hs_locked := snd disk\<rparr>)"

subsection \<open>Every edit keeps the file well formed\<close>

lemma validate_host_group:
  "validate_host f h = [] \<Longrightarrow> (\<forall>g. ho_group h = Some g \<longrightarrow> g \<in> gr_id ` set (hf_groups f)) \<and> ho_port h \<noteq> Some 0"
  by (auto simp: validate_host_def problem_if_def Let_def split: if_splits option.splits dest!: find_group_id)

lemma change_first_map:
  "(\<And>x. x \<in> set xs \<Longrightarrow> P x \<Longrightarrow> key (F x) = key x) \<Longrightarrow> map key (change_first P F xs) = map key xs"
  by (induction xs) auto

lemma set_change_first: "x \<in> set (change_first P F xs) \<Longrightarrow> x \<in> set xs \<or> (\<exists>y \<in> set xs. P y \<and> x = F y)"
  by (induction xs) (auto split: if_splits)

lemma set_before_linked [simp]: "set (before_linked h hs) = insert h (set hs)"
  unfolding before_linked_def by (metis append_Cons append_Nil list.simps(15) set_append takeWhile_dropWhile_id Un_insert_right)

lemma distinct_before_linked:
  "distinct (map ho_id hs) \<Longrightarrow> ho_id h \<notin> ho_id ` set hs \<Longrightarrow> distinct (map ho_id (before_linked h hs))"
proof -
  assume d: "distinct (map ho_id hs)" and new: "ho_id h \<notin> ho_id ` set hs"
  let ?a = "takeWhile (\<lambda>x. \<not> is_linked x) hs" and ?b = "dropWhile (\<lambda>x. \<not> is_linked x) hs"
  have "map ho_id hs = map ho_id ?a @ map ho_id ?b" by (metis map_append takeWhile_dropWhile_id)
  moreover have "set hs = set ?a \<union> set ?b" by (metis set_append takeWhile_dropWhile_id)
  ultimately show ?thesis using d new by (auto simp: before_linked_def)
qed

text \<open>Giving one group another parent keeps a forest unless the new parent is below it.\<close>

lemma forest_reparent:
  assumes forest: "forest parent" and above: "\<And>p. q = Some p \<Longrightarrow> (p, x) \<notin> {(a, b). parent a = Some b}\<^sup>*"
  shows "forest (parent(x := q))"
proof -
  define P where "P = parent(x := q)"
  have P: "P x = q" "\<And>a. a \<noteq> x \<Longrightarrow> P a = parent a" by (simp_all add: P_def)
  let ?R = "{(a, b). parent a = Some b}"
  have away: "ends P a" if "ends parent a" "(a, x) \<notin> ?R\<^sup>*" for a
    using that
  proof (induction rule: ends.induct)
    case (ends_top a)
    then show ?case using P(2) [of a] by (cases "a = x") (auto intro: ends.ends_top)
  next
    case (ends_up a b)
    then have "(b, x) \<notin> ?R\<^sup>*" by (auto intro: converse_rtrancl_into_rtrancl)
    moreover have "a \<noteq> x" using ends_up(4) by blast
    ultimately show ?case using ends_up P(2) [of a] by (intro ends.ends_up [of _ a b]) auto
  qed
  have here: "ends P x"
  proof (cases q)
    case (Some p)
    have "ends P p" using away above [OF Some] forest by (simp add: forest_def)
    then show ?thesis using Some P(1) by (intro ends.ends_up [of _ x p]) auto
  qed (use P(1) in \<open>auto intro: ends.ends_top\<close>)
  have "ends P a" if "ends parent a" for a
    using that
  proof (induction rule: ends.induct)
    case (ends_top a)
    then show ?case using here P(2) [of a] by (cases "a = x") (auto intro: ends.ends_top)
  next
    case (ends_up a b)
    then show ?case using here P(2) [of a] by (cases "a = x") (auto intro: ends.ends_up)
  qed
  then show ?thesis using forest by (simp add: forest_def P_def)
qed

lemma up_below: "up gs \<subseteq> below gs"
  by (auto simp: up_def below_def parent_of_def bind_eq_Some_conv dest!: find_group_id)

text \<open>The parent that passes the check is not below the group.\<close>

lemma validated_parent:
  assumes "validate_group f g = []" "gr_parent g = Some p" "gr_id g \<noteq> []"
  shows "(p, gr_id g) \<notin> (up (hf_groups f))\<^sup>*"
proof
  assume "(p, gr_id g) \<in> (up (hf_groups f))\<^sup>*"
  then have "p \<in> subtree (hf_groups f) (gr_id g)" using rtrancl_mono [OF up_below] by (auto simp: subtree_below)
  then show False using assms by (simp add: validate_group_def problem_if_def Let_def split: if_splits)
qed

lemma validated_known: "validate_group f g = [] \<Longrightarrow> gr_parent g = Some p \<Longrightarrow> p \<in> gr_id ` set (hf_groups f)"
  by (auto simp: validate_group_def problem_if_def Let_def split: if_splits dest!: find_group_id)

lemma new_id_not_above:
  assumes "hosts_ok f" "x \<notin> gr_id ` set (hf_groups f)" "p \<noteq> x"
  shows "(p, x) \<notin> (up (hf_groups f))\<^sup>*"
proof
  assume "(p, x) \<in> (up (hf_groups f))\<^sup>*"
  then obtain b where "(b, x) \<in> up (hf_groups f)" using assms(3) by (auto elim: rtranclE)
  then obtain g where "g \<in> set (hf_groups f)" "gr_parent g = Some x"
    by (auto simp: up_def parent_of_def bind_eq_Some_conv dest!: find_group_id)
  then show False using assms by (auto simp: hosts_ok_def)
qed

lemma parent_of_Cons: "parent_of (g # gs) a = (if gr_id g = a then gr_parent g else parent_of gs a)"
  by (simp add: parent_of_def find_group_def)

lemma parent_of_change:
  "(\<And>x. gr_id x = gid \<Longrightarrow> gr_id (F x) = gid \<and> gr_parent (F x) = q) \<Longrightarrow> gid \<in> gr_id ` set gs \<Longrightarrow>
   parent_of (change_first (\<lambda>x. gr_id x = gid) F gs) = (parent_of gs)(gid := q)"
  by (induction gs) (auto simp: parent_of_Cons fun_eq_iff)

lemma parent_of_append: "gr_id g \<notin> gr_id ` set gs \<Longrightarrow> parent_of (gs @ [g]) = (parent_of gs)(gr_id g := gr_parent g)"
proof (induction gs)
  case Nil
  show ?case by (simp add: parent_of_def find_group_def fun_eq_iff)
qed (auto simp: parent_of_Cons fun_eq_iff)

text \<open>Without a group, its children under its parent: still a forest.\<close>

lemma forest_without:
  assumes "forest parent"
  shows "forest (\<lambda>a. if a = x then None else if parent a = Some x then parent x else parent a)"
proof -
  define P where "P = (\<lambda>a. if a = x then None else if parent a = Some x then parent x else parent a)"
  have "ends P a \<and> (\<forall>b. parent a = Some b \<longrightarrow> ends P b)" if "ends parent a" for a
    using that
  proof (induction rule: ends.induct)
    case (ends_top a)
    moreover have "P x = None" by (simp add: P_def)
    ultimately show ?case by (cases "a = x") (auto simp: P_def intro!: ends.ends_top)
  next
    case (ends_up a b)
    have "ends P a"
    proof (cases "P a")
      case (Some c)
      then have "ends P c" using ends_up by (auto simp: P_def split: if_splits)
      then show ?thesis using Some by (rule ends.ends_up [rotated])
    qed (auto intro: ends.ends_top)
    then show ?case using ends_up by simp
  qed
  then show ?thesis using assms unfolding P_def [symmetric] by (simp add: forest_def)
qed

lemma remove1_group: "distinct (map gr_id gs) \<Longrightarrow> g \<in> set gs \<Longrightarrow> remove1 g gs = filter (\<lambda>x. gr_id x \<noteq> gr_id g) gs"
proof (induction gs)
  case (Cons y gs)
  show ?case
  proof (cases "y = g")
    case True
    then have "filter (\<lambda>x. gr_id x \<noteq> gr_id g) gs = gs" using Cons(2) by (auto simp: filter_id_conv) (metis imageI)
    then show ?thesis using True by simp
  next
    case False
    then show ?thesis using Cons by (auto simp: image_iff)
  qed
qed simp

lemma parent_of_filter: "parent_of (filter (\<lambda>x. gr_id x \<noteq> gid) gs) a = (if a = gid then None else parent_of gs a)"
proof (induction gs)
  case Nil
  show ?case by (simp add: parent_of_def find_group_def)
qed (auto simp: parent_of_Cons)

lemma parent_of_map:
  "parent_of (map (\<lambda>x. if gr_parent x = Some gid then x\<lparr>gr_parent := q\<rparr> else x) gs) a =
   (if parent_of gs a = Some gid then q else parent_of gs a)"
proof (induction gs)
  case Nil
  show ?case by (simp add: parent_of_def find_group_def)
qed (auto simp: parent_of_Cons)

lemma find_group_parent: "find_group gs gid = Some g \<Longrightarrow> parent_of gs gid = gr_parent g"
  by (simp add: parent_of_def)

lemma remove_group_ok:
  assumes "hosts_ok f" shows "hosts_ok (fst (remove_group gid f))"
proof (cases "find_group (hf_groups f) gid")
  case (Some g)
  let ?gs = "hf_groups f" and ?F = "\<lambda>x. if gr_parent x = Some gid then x\<lparr>gr_parent := gr_parent g\<rparr> else x"
  let ?left = "filter (\<lambda>x. gr_id x \<noteq> gid) ?gs"
  have g: "gr_id g = gid" "g \<in> set ?gs" using find_group_id [OF Some] by auto
  have gone: "remove1 g ?gs = ?left" using assms remove1_group [of ?gs g] g by (simp add: hosts_ok_def)
  have "parent_of (map ?F ?left) = (\<lambda>a. if a = gid then None else if parent_of ?gs a = Some gid then parent_of ?gs gid else parent_of ?gs a)"
    by (auto simp: fun_eq_iff parent_of_map parent_of_filter find_group_parent [OF Some])
  then have forest: "forest (parent_of (map ?F ?left))"
    using forest_without [of "parent_of ?gs" gid] assms by (simp add: hosts_ok_def)
  have ids: "map gr_id (map ?F ?left) = map gr_id ?left" by simp
  have left: "gr_id ` set ?left = gr_id ` set ?gs - {gid}" by auto
  have "distinct (map gr_id ?left)" using assms by (simp add: hosts_ok_def distinct_map_filter)
  have up: "q \<in> gr_id ` set ?left" if "gr_parent g = Some q" for q
  proof -
    have "q \<noteq> gid"
    proof
      assume "q = gid"
      then have "(gid, gid) \<in> up ?gs" using that find_group_parent [OF Some] by (simp add: up_def)
      then show False using ends_no_cycle [of ?gs gid] assms by (auto simp: hosts_ok_def forest_def)
    qed
    then show ?thesis using assms g that unfolding left by (auto simp: hosts_ok_def)
  qed
  have parents: "q \<in> gr_id ` set ?left" if "x \<in> set (map ?F ?left)" "gr_parent x = Some q" for x q
  proof -
    from that(1) obtain y where x: "x = ?F y" and "y \<in> set ?left" unfolding set_map by (rule imageE)
    then have "y \<in> set ?gs" by simp
    then show ?thesis using that(2) x up assms unfolding left by (cases "gr_parent y = Some gid") (auto simp: hosts_ok_def)
  qed
  have hosts: "q \<in> gr_id ` set ?left" if "h \<in> set (hf_hosts f)" "(if ho_group h = Some gid then gr_parent g else ho_group h) = Some q" for h q
    using that up assms unfolding left by (cases "ho_group h = Some gid") (auto simp: hosts_ok_def)
  have set: "gr_id ` set (map ?F ?left) = gr_id ` set ?left" by (metis ids set_map)
  let ?H = "\<lambda>h. if ho_group h = Some gid then h\<lparr>ho_group := gr_parent g\<rparr> else h"
  have f': "hf_groups (fst (remove_group gid f)) = map ?F ?left" "hf_hosts (fst (remove_group gid f)) = map ?H (hf_hosts f)"
    by (simp_all add: remove_group_def Some gone)
  have hids: "map ho_id (map ?H (hf_hosts f)) = map ho_id (hf_hosts f)" by simp
  have hosts': "\<forall>h \<in> set (map ?H (hf_hosts f)). (\<forall>q. ho_group h = Some q \<longrightarrow> q \<in> gr_id ` set ?left) \<and> ho_port h \<noteq> Some 0"
    using hosts assms by (fastforce simp: hosts_ok_def)
  show ?thesis
    unfolding hosts_ok_def f' set hids ids using forest parents hosts' \<open>distinct (map gr_id ?left)\<close> assms
    by (simp only: hosts_ok_def) blast
qed (use assms in \<open>simp add: remove_group_def\<close>)

text \<open>Changes of the hosts alone.\<close>

definition host_fits :: "hosts_file \<Rightarrow> host \<Rightarrow> bool" where
  "host_fits f h \<longleftrightarrow> (\<forall>g. ho_group h = Some g \<longrightarrow> g \<in> gr_id ` set (hf_groups f)) \<and> ho_port h \<noteq> Some 0"

lemma hosts_ok_hosts:
  "hosts_ok f \<Longrightarrow> distinct (map ho_id hs) \<Longrightarrow> (\<And>h. h \<in> set hs \<Longrightarrow> host_fits f h) \<Longrightarrow> hosts_ok (f\<lparr>hf_hosts := hs\<rparr>)"
  by (auto simp: hosts_ok_def host_fits_def)

lemma hosts_ok_fits: "hosts_ok f \<Longrightarrow> h \<in> set (hf_hosts f) \<Longrightarrow> host_fits f h"
  by (auto simp: hosts_ok_def host_fits_def)

lemma hosts_ok_distinct: "hosts_ok f \<Longrightarrow> distinct (map ho_id (hf_hosts f))"
  by (simp add: hosts_ok_def)

lemma insert_host_ok:
  "hosts_ok f \<Longrightarrow> host_fits f h \<Longrightarrow> ho_id h \<notin> ho_id ` set (hf_hosts f) \<Longrightarrow>
   hosts_ok (f\<lparr>hf_hosts := before_linked h (hf_hosts f)\<rparr>)"
  by (rule hosts_ok_hosts) (auto intro: distinct_before_linked hosts_ok_distinct hosts_ok_fits)

lemma store_host_ok:
  assumes "hosts_ok f" "host_fits f h"
  shows "hosts_ok (fst (store_host h f))"
proof (cases "list_ex (\<lambda>x. ho_id x = ho_id h) (hf_hosts f)")
  case True
  let ?F = "\<lambda>x. if ho_extra h = [] then h\<lparr>ho_extra := ho_extra x\<rparr> else h"
  let ?hs = "change_first (\<lambda>x. ho_id x = ho_id h) ?F (hf_hosts f)"
  have "map ho_id ?hs = map ho_id (hf_hosts f)" by (rule change_first_map) auto
  moreover have "host_fits f x" if "x \<in> set ?hs" for x
    using set_change_first [OF that] hosts_ok_fits [OF assms(1)] assms(2)
    by (auto simp: host_fits_def split: if_splits)
  ultimately show ?thesis
    using True hosts_ok_hosts [of f ?hs] assms(1) hosts_ok_distinct [of f] by (simp add: store_host_def)
next
  case False
  then have "ho_id h \<notin> ho_id ` set (hf_hosts f)" by (auto simp: list_ex_iff)
  then have "hosts_ok (f\<lparr>hf_hosts := before_linked h (hf_hosts f)\<rparr>)"
    using assms by (intro insert_host_ok)
  then show ?thesis using False by (simp add: store_host_def)
qed

lemma drop_hosts_ok:
  assumes "hosts_ok f" shows "hosts_ok (fst (drop_hosts ids f))"
proof -
  let ?hs = "filter (\<lambda>h. is_linked h \<or> ho_id h \<notin> set ids) (hf_hosts f)"
  have "distinct (map ho_id ?hs)" using hosts_ok_distinct [OF assms] by (rule distinct_map_filter)
  then have "hosts_ok (f\<lparr>hf_hosts := ?hs\<rparr>)"
    by (rule hosts_ok_hosts [OF assms]) (simp add: hosts_ok_fits [OF assms])
  then show ?thesis by (simp add: drop_hosts_def Let_def)
qed

lemma change_hosts_ok:
  assumes "hosts_ok f" "\<And>h. ho_id (F h) = ho_id h" "\<And>h. host_fits f h \<Longrightarrow> host_fits f (F h)"
  shows "hosts_ok (fst (change_hosts ids differs F f))"
proof -
  let ?F = "\<lambda>h. if ho_id h \<in> set ids \<and> \<not> is_linked h \<and> differs h then F h else h"
  have "map ho_id (map ?F (hf_hosts f)) = map ho_id (hf_hosts f)" using assms(2) by simp
  then have "distinct (map ho_id (map ?F (hf_hosts f)))" using hosts_ok_distinct [OF assms(1)] by argo
  moreover have "host_fits f x" if "x \<in> set (map ?F (hf_hosts f))" for x
  proof -
    from that obtain y where "x = ?F y" "y \<in> set (hf_hosts f)" unfolding set_map by (rule imageE)
    then show ?thesis using assms(3) hosts_ok_fits [OF assms(1)] by (auto split: if_splits)
  qed
  ultimately have "hosts_ok (f\<lparr>hf_hosts := map ?F (hf_hosts f)\<rparr>)" by (rule hosts_ok_hosts [OF assms(1)])
  then show ?thesis by (simp add: change_hosts_def Let_def)
qed

lemma place_copy_ok:
  assumes "hosts_ok f" "host_fits f h" "ho_id h \<notin> ho_id ` set (hf_hosts f)"
  shows "hosts_ok (fst (place_copy source h f))"
proof -
  let ?P = "\<lambda>x. \<not> (ho_id x = source \<and> \<not> is_linked x)"
  show ?thesis
  proof (cases "dropWhile ?P (hf_hosts f)")
    case Nil
    have "hosts_ok (f\<lparr>hf_hosts := before_linked h (hf_hosts f)\<rparr>)"
      using assms by (intro insert_host_ok)
    then show ?thesis by (simp only: place_copy_def Nil list.case fst_conv)
  next
    case (Cons x rest)
    define a where "a = takeWhile ?P (hf_hosts f)"
    have hs: "hf_hosts f = a @ x # rest" using Cons unfolding a_def by (metis takeWhile_dropWhile_id)
    have all: "set (a @ x # h # rest) = insert h (set (hf_hosts f))" by (auto simp: hs)
    have "distinct (map ho_id (a @ x # h # rest))" using hosts_ok_distinct [OF assms(1)] assms(3) unfolding hs by auto
    then have "hosts_ok (f\<lparr>hf_hosts := a @ x # h # rest\<rparr>)"
    proof (rule hosts_ok_hosts [OF assms(1)])
      show "host_fits f y" if "y \<in> set (a @ x # h # rest)" for y
        using that assms(2) hosts_ok_fits [OF assms(1)] unfolding all by auto
    qed
    then have "hosts_ok (f\<lparr>hf_hosts := takeWhile ?P (hf_hosts f) @ x # h # rest\<rparr>)" by (simp only: a_def)
    then show ?thesis by (simp only: place_copy_def Cons list.case fst_conv)
  qed
qed

text \<open>Changes of the groups alone.\<close>

lemma hosts_ok_groups:
  assumes "hosts_ok f" "gr_id ` set gs \<supseteq> gr_id ` set (hf_groups f)" "distinct (map gr_id gs)"
    "\<And>g p. g \<in> set gs \<Longrightarrow> gr_parent g = Some p \<Longrightarrow> p \<in> gr_id ` set gs" "forest (parent_of gs)"
  shows "hosts_ok (f\<lparr>hf_groups := gs\<rparr>)"
  using assms by (auto simp: hosts_ok_def)

text \<open>Where the parent of a group may be.\<close>

definition parent_fits :: "hosts_file \<Rightarrow> group \<Rightarrow> bool" where
  "parent_fits f g \<longleftrightarrow>
     (\<forall>p. gr_parent g = Some p \<longrightarrow> p \<in> gr_id ` set (hf_groups f) \<and> (p, gr_id g) \<notin> (up (hf_groups f))\<^sup>*)"

lemma parent_fits_forest:
  "hosts_ok f \<Longrightarrow> parent_fits f g \<Longrightarrow> forest ((parent_of (hf_groups f))(gr_id g := gr_parent g))"
  by (rule forest_reparent) (auto simp: hosts_ok_def parent_fits_def up_def)

lemma change_group_ok:
  assumes ok: "hosts_ok f" and fits: "parent_fits f g" and known: "gr_id g \<in> gr_id ` set (hf_groups f)"
    and F: "\<And>x. gr_id x = gr_id g \<Longrightarrow> gr_id (F x) = gr_id g \<and> gr_parent (F x) = gr_parent g"
  shows "hosts_ok (f\<lparr>hf_groups := change_first (\<lambda>x. gr_id x = gr_id g) F (hf_groups f)\<rparr>)"
proof (rule hosts_ok_groups [OF ok])
  let ?gs = "change_first (\<lambda>x. gr_id x = gr_id g) F (hf_groups f)"
  have ids: "map gr_id ?gs = map gr_id (hf_groups f)" using F by (intro change_first_map) auto
  then have set: "gr_id ` set ?gs = gr_id ` set (hf_groups f)" by (metis set_map)
  then show "gr_id ` set (hf_groups f) \<subseteq> gr_id ` set ?gs" by simp
  show "distinct (map gr_id ?gs)" using ok by (simp add: ids hosts_ok_def)
  have "parent_of ?gs = (parent_of (hf_groups f))(gr_id g := gr_parent g)" using F by (rule parent_of_change [OF _ known])
  then show "forest (parent_of ?gs)" using parent_fits_forest [OF ok fits] by simp
  show "p \<in> gr_id ` set ?gs" if "x \<in> set ?gs" "gr_parent x = Some p" for x p
    using set_change_first [OF that(1)] that(2) ok fits F unfolding set by (auto simp: hosts_ok_def parent_fits_def)
qed

lemma store_group_ok:
  assumes ok: "hosts_ok f" and fits: "parent_fits f g"
  shows "hosts_ok (fst (store_group g f))"
proof (cases "list_ex (\<lambda>x. gr_id x = gr_id g) (hf_groups f)")
  case True
  then have "gr_id g \<in> gr_id ` set (hf_groups f)" by (auto simp: list_ex_iff intro: rev_image_eqI)
  then show ?thesis using True change_group_ok [OF ok fits] by (simp add: store_group_def)
next
  case False
  then have new: "gr_id g \<notin> gr_id ` set (hf_groups f)" by (auto simp: list_ex_iff)
  have "hosts_ok (f\<lparr>hf_groups := hf_groups f @ [g]\<rparr>)"
  proof (rule hosts_ok_groups [OF ok])
    show "forest (parent_of (hf_groups f @ [g]))"
      unfolding parent_of_append [OF new] by (rule parent_fits_forest [OF ok fits])
    show "distinct (map gr_id (hf_groups f @ [g]))" using ok new by (auto simp: hosts_ok_def)
    show "p \<in> gr_id ` set (hf_groups f @ [g])" if "x \<in> set (hf_groups f @ [g])" "gr_parent x = Some p" for x p
      using that ok fits by (auto simp: hosts_ok_def parent_fits_def)
  qed auto
  then show ?thesis using False by (simp add: store_group_def)
qed

lemma linked_host_linked: "is_linked (linked_host c)"
  by (simp add: is_linked_def ssh_to_host_def starts_with_def)

lemma load_disk_ok:
  assumes plain: "\<And>n. \<not> starts_with (hc_new_id hc n) LINKED_PREFIX"
  shows "hosts_ok (fst (load_disk hc n r disk home))"
proof -
  define f where "f = (case load_hosts hc n r of Some f \<Rightarrow> f | None \<Rightarrow> hosts_file_default)"
  define linked where "linked = sc_hosts (load_sources disk home (hf_sources f))"
  have usable: "distinct (map sh_alias linked)" "\<forall>c \<in> set linked. sh_port c \<noteq> Some 0"
    using load_sources_usable [of disk home "hf_sources f"]
    by (auto simp: linked_def hosts_usable_def list_all_iff host_usable_def)
  have read: "fst (load_disk hc n r disk home) = f\<lparr>hf_hosts := hf_hosts f @ map linked_host linked\<rparr>"
    by (simp add: load_disk_def f_def linked_def split: option.split)
  have "hosts_ok hosts_file_default"
    by (auto simp: hosts_file_default_def hosts_ok_def forest_def parent_of_def find_group_def intro: ends_top)
  then have ok: "hosts_ok f" and own: "\<forall>h \<in> set (hf_hosts f). \<not> is_linked h"
    using hosts_from_toml_ok read_not_linked [of hc, OF plain]
    by (auto simp: f_def load_hosts_def hosts_file_default_def split: option.splits read_hosts.splits sum.splits)
  let ?linked = "map linked_host linked"
  have "map ho_id ?linked = map (\<lambda>a. LINKED_PREFIX @ a) (map sh_alias linked)"
    by (simp add: ssh_to_host_def)
  moreover have "distinct (map (\<lambda>a. LINKED_PREFIX @ a) (map sh_alias linked))"
    using usable by (simp only: distinct_map) (simp add: inj_on_def)
  ultimately have "distinct (map ho_id ?linked)" by (simp only:)
  moreover have "ho_id ` set (hf_hosts f) \<inter> ho_id ` set ?linked = {}"
    using own linked_host_linked by (fastforce simp: is_linked_def)
  ultimately have "distinct (map ho_id (hf_hosts f @ ?linked))" using hosts_ok_distinct [OF ok] by (simp add: image_comp)
  then show ?thesis
    unfolding read
    by (rule hosts_ok_hosts [OF ok])
      (use hosts_ok_fits [OF ok] usable in \<open>auto simp: host_fits_def ssh_to_host_def\<close>)
qed

subsection \<open>Every run of edits\<close>

text \<open>No group has an empty id, which the checks take for a group that is not saved yet.\<close>

definition named :: "hosts_file \<Rightarrow> bool" where
  "named f \<longleftrightarrow> [] \<notin> gr_id ` set (hf_groups f)"

definition edits_ok :: "hosts_state \<Rightarrow> bool" where
  "edits_ok s \<longleftrightarrow> hosts_ok (hs_file s) \<and> named (hs_file s) \<and> recent_ok (hs_recent s)"

lemma modify_ok:
  "edits_ok s \<Longrightarrow> hosts_ok (fst (change (hs_file s))) \<Longrightarrow> named (fst (change (hs_file s))) \<Longrightarrow>
   edits_ok (fst (hosts_modify change s))"
  by (auto simp: hosts_modify_def edits_ok_def Let_def split: prod.split)

lemma groups_kept [simp]:
  "hf_groups (fst (store_host h f)) = hf_groups f" "hf_groups (fst (drop_hosts ids f)) = hf_groups f"
  "hf_groups (fst (change_hosts ids differs F f)) = hf_groups f" "hf_groups (fst (place_copy source h f)) = hf_groups f"
  by (simp_all add: store_host_def drop_hosts_def change_hosts_def place_copy_def Let_def)

lemma named_kept: "named f \<Longrightarrow> hf_groups f' = hf_groups f \<Longrightarrow> named f'"
  by (simp add: named_def)

lemma change_first_ids:
  "(\<And>x. gr_id x = gid \<Longrightarrow> gr_id (F x) = gid) \<Longrightarrow> gr_id ` set (change_first (\<lambda>x. gr_id x = gid) F gs) = gr_id ` set gs"
  by (induction gs) auto

lemma store_group_named: "named f \<Longrightarrow> gr_id g \<noteq> [] \<Longrightarrow> named (fst (store_group g f))"
  by (auto simp: named_def store_group_def change_first_ids)

lemma set_parent_named: "named f \<Longrightarrow> named (fst (set_parent g f))"
  by (simp add: named_def set_parent_def change_first_ids)

lemma remove_group_named: "named f \<Longrightarrow> named (fst (remove_group gid f))"
  by (auto simp: named_def remove_group_def split: option.split dest!: notin_set_remove1 [THEN contrapos_nn] set_remove1_subset [THEN subsetD])

lemma modify_refused: "hs_locked s \<Longrightarrow> hosts_modify change s = (s, None)"
  by (simp add: hosts_modify_def)

lemma fst_modify: "hosts_modify change s = (s', r) \<Longrightarrow> s' = fst (hosts_modify change s)"
  by simp

lemma save_host_ok:
  assumes "edits_ok s" shows "edits_ok (fst (save_host new h s))"
proof (cases "validate_host (hs_file s) h = []")
  case True
  define stored where "stored = (if ho_id h = [] then h\<lparr>ho_id := new\<rparr> else h)"
  have "host_fits (hs_file s) stored" using validate_host_group [OF True] by (simp add: host_fits_def stored_def)
  then have "edits_ok (fst (hosts_modify (store_host stored) s))"
    using assms by (intro modify_ok store_host_ok) (auto simp: edits_ok_def intro: named_kept)
  then show ?thesis
    using assms unfolding save_host_def Let_def stored_def [symmetric]
    by (cases "hosts_modify (store_host stored) s") (auto split: option.splits)
qed (simp add: save_host_def assms Let_def)

lemma save_group_ok:
  assumes "edits_ok s" "new \<notin> gr_id ` set (hf_groups (hs_file s))" "new \<noteq> []"
  shows "edits_ok (fst (save_group new g s))"
proof (cases "validate_group (hs_file s) g = []")
  case True
  define stored where "stored = (if gr_id g = [] then g\<lparr>gr_id := new\<rparr> else g)"
  have ok: "hosts_ok (hs_file s)" using assms by (simp add: edits_ok_def)
  have "parent_fits (hs_file s) stored"
    unfolding parent_fits_def
  proof (intro allI impI conjI)
    fix p
    assume p: "gr_parent stored = Some p"
    then have parent: "gr_parent g = Some p" by (simp add: stored_def split: if_splits)
    show known: "p \<in> gr_id ` set (hf_groups (hs_file s))" by (rule validated_known [OF True parent])
    show "(p, gr_id stored) \<notin> (up (hf_groups (hs_file s)))\<^sup>*"
    proof (cases "gr_id g = []")
      case empty: True
      then show ?thesis using new_id_not_above [OF ok assms(2), of p] known assms(2) by (auto simp: stored_def)
    next
      case False
      then show ?thesis using validated_parent [OF True parent] by (simp add: stored_def)
    qed
  qed
  then have "edits_ok (fst (hosts_modify (store_group stored) s))"
    using assms ok by (intro modify_ok store_group_ok store_group_named) (auto simp: edits_ok_def stored_def)
  then show ?thesis
    using assms(1) unfolding save_group_def Let_def stored_def [symmetric]
    by (cases "hosts_modify (store_group stored) s") (auto split: option.splits)
qed (simp add: save_group_def assms Let_def)

lemma forget_recent_ok: "recent_ok es \<Longrightarrow> recent_ok (foldl (\<lambda>es hid. fst (recent_remove_host hid es)) es ids)"
  by (induction ids arbitrary: es) (auto intro: recent_remove_ok)

lemma delete_hosts_ok:
  assumes "edits_ok s" shows "edits_ok (fst (delete_hosts has_secrets ids s))"
proof -
  have "edits_ok (fst (hosts_modify (drop_hosts (remdups ids)) s))"
    using assms by (intro modify_ok drop_hosts_ok) (auto simp: edits_ok_def intro: named_kept)
  then show ?thesis
    by (auto simp: delete_hosts_def Let_def edits_ok_def forget_recent_ok split: prod.split option.split)
qed

lemma delete_group_ok: "edits_ok s \<Longrightarrow> edits_ok (fst (delete_group gid s))"
  using modify_ok [of s "remove_group gid"] remove_group_ok [of "hs_file s" gid] remove_group_named [of "hs_file s" gid]
  by (cases "hosts_modify (remove_group gid) s") (simp add: delete_group_def edits_ok_def)

lemma move_hosts_ok:
  assumes "edits_ok s" shows "edits_ok (fst (move_hosts ids gid s))"
proof (cases "gid \<noteq> [] \<and> find_group (hf_groups (hs_file s)) gid = None")
  case False
  define target where "target = (if gid = [] then None else Some gid)"
  let ?change = "change_hosts ids (\<lambda>h. ho_group h \<noteq> target) (\<lambda>h. h\<lparr>ho_group := target\<rparr>)"
  have "\<forall>g. target = Some g \<longrightarrow> g \<in> gr_id ` set (hf_groups (hs_file s))"
    using False by (auto simp: target_def dest!: find_group_id)
  then have "hosts_ok (fst (?change (hs_file s)))"
    using assms by (intro change_hosts_ok) (auto simp: edits_ok_def host_fits_def)
  then have ok: "edits_ok (fst (hosts_modify ?change s))" by (rule modify_ok [OF assms]) (use assms in \<open>auto simp: edits_ok_def intro: named_kept\<close>)
  have "fst (move_hosts ids gid s) = fst (hosts_modify ?change s)"
    unfolding move_hosts_def Let_def target_def [symmetric] using False by (auto split: prod.split)
  then show ?thesis using ok by simp
qed (simp add: move_hosts_def assms Let_def)

lemma set_favorite_ok:
  assumes "edits_ok s" shows "edits_ok (fst (set_favorite ids favorite s))"
proof -
  let ?change = "change_hosts ids (\<lambda>h. ho_favorite h \<noteq> favorite) (\<lambda>h. h\<lparr>ho_favorite := favorite\<rparr>)"
  have "hosts_ok (fst (?change (hs_file s)))"
    using assms by (intro change_hosts_ok) (auto simp: edits_ok_def host_fits_def)
  then have ok: "edits_ok (fst (hosts_modify ?change s))" by (rule modify_ok [OF assms]) (use assms in \<open>auto simp: edits_ok_def intro: named_kept\<close>)
  have "fst (set_favorite ids favorite s) = fst (hosts_modify ?change s)"
    unfolding set_favorite_def Let_def by (auto split: prod.split)
  then show ?thesis using ok by simp
qed

lemma move_group_ok:
  assumes "edits_ok s" shows "edits_ok (fst (move_group gid parent s))"
proof (cases "find_group (hf_groups (hs_file s)) gid")
  case (Some found)
  define g where "g = found\<lparr>gr_parent := (if parent = [] then None else Some parent)\<rparr>"
  have known: "gr_id g \<in> gr_id ` set (hf_groups (hs_file s))" using find_group_id [OF Some] by (auto simp: g_def)
  have ok: "hosts_ok (hs_file s)" using assms by (simp add: edits_ok_def)
  have saved: "gr_id g \<noteq> []" using known assms by (metis edits_ok_def named_def)
  show ?thesis
  proof (cases "validate_group (hs_file s) g = []")
    case True
    have "parent_fits (hs_file s) g"
      unfolding parent_fits_def
    proof (intro allI impI conjI)
      fix p
      assume p: "gr_parent g = Some p"
      show "p \<in> gr_id ` set (hf_groups (hs_file s))" by (rule validated_known [OF True p])
      show "(p, gr_id g) \<notin> (up (hf_groups (hs_file s)))\<^sup>*" 
        by (rule validated_parent [OF True p saved])
    qed
    then have "hosts_ok (fst (set_parent g (hs_file s)))"
      using change_group_ok [OF ok _ known, of "\<lambda>x. x\<lparr>gr_parent := gr_parent g\<rparr>"] by (simp add: set_parent_def)
    then have "edits_ok (fst (hosts_modify (set_parent g) s))"
      using assms by (intro modify_ok set_parent_named) (simp_all add: edits_ok_def)
    then show ?thesis
      unfolding move_group_def Some option.case Let_def g_def [symmetric] using True
      by (cases "hosts_modify (set_parent g) s") simp
  next
    case False
    then show ?thesis unfolding move_group_def Some option.case Let_def g_def [symmetric] using assms by simp
  qed
qed (simp add: move_group_def assms)

lemma duplicate_host_ok:
  assumes "edits_ok s" "new \<notin> ho_id ` set (hf_hosts (hs_file s))"
  shows "edits_ok (fst (duplicate_host new hid s))"
proof (cases "find_by_id (hs_file s) hid")
  case (Some source)
  have ok: "hosts_ok (hs_file s)" using assms by (simp add: edits_ok_def)
  define name where "name = (if is_linked source then ho_name source
    else copy_name (ho_name source) (copy_number (map ho_name (hf_hosts (hs_file s))) (ho_name source) 2))"
  have d: "fst (duplicate_host new hid s) =
      fst (hosts_modify (place_copy (ho_id source) (source\<lparr>ho_id := new, ho_favorite := False, ho_name := name\<rparr>)) s)"
    unfolding duplicate_host_def Some option.case Let_def name_def [symmetric] by (simp split: prod.split option.split)
  have "source \<in> set (hf_hosts (hs_file s))" using Some by (auto simp: find_by_id_def find_Some_iff)
  then have "host_fits (hs_file s) source" by (rule hosts_ok_fits [OF ok])
  then have "hosts_ok (fst (place_copy (ho_id source) (source\<lparr>ho_id := new, ho_favorite := False, ho_name := name\<rparr>) (hs_file s)))"
    using ok assms(2) by (intro place_copy_ok) (auto simp: host_fits_def)
  then show ?thesis
    unfolding d using assms(1) by (intro modify_ok) (auto simp: edits_ok_def intro: named_kept)
qed (simp add: duplicate_host_def assms)

lemma record_ok: "edits_ok s \<Longrightarrow> edits_ok (record_host hid now s)" "edits_ok s \<Longrightarrow> edits_ok (record_target text now s)"
  by (simp_all add: record_host_def record_target_def recent_touch_host_def recent_touch_target_def edits_ok_def
      recent_touch_ok split: sum.split)

text \<open>
  What the user and the disk do to the hosts. An id that is drawn is not in use and not empty; of
  what is on disk, linked files and what they include among it, nothing is assumed.
\<close>

inductive hosts_step :: "host_crates \<Rightarrow> hosts_state \<Rightarrow> hosts_state \<Rightarrow> bool" for hc where
  step_save_host: "new \<notin> ho_id ` set (hf_hosts (hs_file s)) \<Longrightarrow> hosts_step hc s (fst (save_host new h s))"
| step_save_group: "new \<notin> gr_id ` set (hf_groups (hs_file s)) \<Longrightarrow> new \<noteq> [] \<Longrightarrow> hosts_step hc s (fst (save_group new g s))"
| step_delete_hosts: "hosts_step hc s (fst (delete_hosts has_secrets ids s))"
| step_delete_group: "hosts_step hc s (fst (delete_group gid s))"
| step_move_hosts: "hosts_step hc s (fst (move_hosts ids gid s))"
| step_move_group: "hosts_step hc s (fst (move_group gid parent s))"
| step_duplicate: "new \<notin> ho_id ` set (hf_hosts (hs_file s)) \<Longrightarrow> hosts_step hc s (fst (duplicate_host new hid s))"
| step_favorite: "hosts_step hc s (fst (set_favorite ids favorite s))"
| step_record_host: "hosts_step hc s (record_host hid now s)"
| step_record_target: "hosts_step hc s (record_target typed now s)"
| step_disk: "hosts_step hc s (apply_disk pending (load_disk hc n r disk home) s)"

definition ids_drawn_well :: "host_crates \<Rightarrow> bool" where
  "ids_drawn_well hc \<longleftrightarrow> (\<forall>n. hc_new_id hc n \<noteq> [] \<and> \<not> starts_with (hc_new_id hc n) LINKED_PREFIX)"

lemma check_groups_named:
  "(\<And>n. hc_new_id hc n \<noteq> []) \<Longrightarrow> check_groups hc index gs ids r = (gs', ids', r') \<Longrightarrow> [] \<notin> gr_id ` set gs'"
proof (induction hc index gs ids r arbitrary: gs' ids' r' rule: check_groups.induct)
  case (2 hc index g gs ids r)
  obtain gid r1 where g: "(if valid_host_id (gr_id g) then (gr_id g, r)
      else fresh_id hc (lit ''group['' @ decimal index @ lit '']'') r) = (gid, r1)" by (rule prod.exhaust)
  have named: "gid \<noteq> []"
    using g 2(3) [of "fst r"] by (cases "valid_host_id (gr_id g)") (auto simp: fresh_id_def valid_host_id_def trim_def)
  show ?case
  proof (cases "gid \<in> set ids")
    case True
    have step: "check_groups hc index (g # gs) ids r = check_groups hc (Suc index) gs ids
        (hw (lit ''group['' @ decimal index @ lit '']'') (lit ''id '' @ gid @ lit '' is used twice; skipped'') r1)"
      by (simp only: check_groups.simps Let_def g prod.case True if_True)
    show ?thesis by (rule 2(1) [OF refl g [symmetric] refl True 2(3) 2(4) [unfolded step]])
  next
    case False
    let ?r = "check_defaults hc (gr_defaults g) ((lit ''group['' @ decimal index @ lit '']'') @ lit ''.defaults'') r1"
    obtain rest ids2 r2 where c: "check_groups hc (Suc index) gs (gid # ids) ?r = (rest, ids2, r2)"
      by (cases "check_groups hc (Suc index) gs (gid # ids) ?r") auto
    have IH: "[] \<notin> gr_id ` set rest" by (rule 2(2) [OF refl g [symmetric] refl False refl refl 2(3) c])
    obtain name where step: "check_groups hc index (g # gs) ids r = (g\<lparr>gr_id := gid, gr_name := name\<rparr> # rest, ids2, r2)"
      by (simp only: check_groups.simps Let_def g prod.case False if_False c)
    have "gs' = g\<lparr>gr_id := gid, gr_name := name\<rparr> # rest" using 2(4) [unfolded step] by simp
    then show ?thesis using IH named by auto
  qed
qed simp

lemma check_file_ids: "check_file hc f r = (f', r') \<Longrightarrow> gr_id ` set (hf_groups f') = gr_id ` set (fst (check_groups hc 0 (hf_groups f) [] r))"
proof -
  assume f: "check_file hc f r = (f', r')"
  obtain gs1 ids r1 where a: "check_groups hc 0 (hf_groups f) [] r = (gs1, ids, r1)" by (metis prod.exhaust)
  obtain gs2 r2 where b: "cut_parents (map gr_id gs1) gs1 r1 = (gs2, r2)" by (metis prod.exhaust)
  obtain gs3 r3 where c: "cut_loops gs2 r2 = (gs3, r3)" by (metis prod.exhaust)
  obtain hs r4 where d: "check_hosts hc (map gr_id gs1) 0 (hf_hosts f) ids r3 = (hs, r4)" by (metis prod.exhaust)
  have "f' = f\<lparr>hf_groups := gs3, hf_hosts := hs\<rparr>" using f by (simp add: check_file_def a b c d Let_def)
  moreover have "map gr_id gs3 = map gr_id gs1"
    using cut_parents_ids [of "map gr_id gs1" gs1 r1] cut_loops_forest [of gs2 r2] by (simp add: b c)
  then have "gr_id ` set gs3 = gr_id ` set gs1" by (metis set_map)
  ultimately show ?thesis by (simp add: a)
qed

lemma read_named:
  assumes "\<And>n. hc_new_id hc n \<noteq> []" "hosts_from_toml hc n s = Inr (f, warnings)"
  shows "named f"
proof -
  obtain f0 r0 r' where f: "check_file hc f0 r0 = (f, r')"
    using assms(2) by (auto simp: hosts_from_toml_def Let_def split: sum.splits prod.splits)
  obtain gs ids r1 where "check_groups hc 0 (hf_groups f0) [] r0 = (gs, ids, r1)" by (metis prod.exhaust)
  then show ?thesis using check_file_ids [OF f] check_groups_named [of hc, OF assms(1)] by (simp add: named_def)
qed

lemma load_disk_named: "(\<And>n. hc_new_id hc n \<noteq> []) \<Longrightarrow> named (fst (load_disk hc n r disk home))"
  using read_named [of hc]
  by (auto simp: load_disk_def load_hosts_def hosts_file_default_def named_def split: option.splits read_hosts.splits sum.splits)

lemma hosts_step_ok: "hosts_step hc s s' \<Longrightarrow> ids_drawn_well hc \<Longrightarrow> edits_ok s \<Longrightarrow> edits_ok s'"
proof (induction rule: hosts_step.induct)
  case (step_disk s pending n r disk home)
  have "hosts_ok (fst (load_disk hc n r disk home))" "named (fst (load_disk hc n r disk home))"
    using step_disk by (auto simp: ids_drawn_well_def intro!: load_disk_ok load_disk_named)
  then show ?case using step_disk by (auto simp: apply_disk_def edits_ok_def)
qed (auto intro: save_host_ok save_group_ok delete_hosts_ok delete_group_ok move_hosts_ok move_group_ok duplicate_host_ok
    set_favorite_ok record_ok)

text \<open>
  C9: however hosts and groups are saved, moved, copied, deleted and reloaded from disk, in every
  order and whatever is on disk (the hosts file and the \<open>ssh_config\<close> files it links), the published file stays well formed: ids are unique, every group that is named exists, no
  group comes inside itself, no host has port 0; and the recent list keeps at most 30 entries, none
  twice.
\<close>

theorem edits_keep_hosts_well_formed:
  assumes "(hosts_step hc)\<^sup>*\<^sup>* s s'" "ids_drawn_well hc" "edits_ok s"
  shows "edits_ok s'"
  using assms by (induction rule: rtranclp_induct) (auto intro: hosts_step_ok)

definition sample_state :: hosts_state where
  "sample_state = \<lparr>hs_file = hosts_file_default, hs_locked = False, hs_recent = []\<rparr>"

lemma sample_state_ok: "edits_ok sample_state"
  by (auto simp: sample_state_def hosts_file_default_def edits_ok_def hosts_ok_def named_def recent_ok_def forest_def
      parent_of_def find_group_def intro: ends_top)

text \<open>A group is saved, another under it, and the first is moved under the second, which is refused.\<close>

definition sample_one :: hosts_state where
  "sample_one = fst (save_group (lit ''a'') ((sample_group ''one'' None None)\<lparr>gr_id := []\<rparr>) sample_state)"

definition sample_two :: hosts_state where
  "sample_two = fst (save_group (lit ''b'') ((sample_group ''two'' (Some ''a'') None)\<lparr>gr_id := []\<rparr>) sample_one)"

definition sample_moved :: hosts_state where
  "sample_moved = fst (move_group (lit ''a'') (lit ''b'') sample_two)"

lemma sample_valid:
  "trim [111, 110, 101] = [111, 110, 101]" "trim [116, 119, 111] = [116, 119, 111]"
  "bad_user None = False" "bad_jump f None = False" "check_ssh no_ssh_options = []"
  by (simp_all add: trim_def is_whitespace_def bad_user_def some_set_def bad_jump_def check_ssh_def no_ssh_options_def problem_if_def)

lemmas sample_edit = save_group_def validate_group_def store_group_def hosts_modify_def problem_if_def find_group_def sample_valid sample_simps Let_def

lemma sample_one_eq: "sample_one = sample_state\<lparr>hs_file :=
    hosts_file_default\<lparr>hf_groups := [(sample_group ''one'' None None)\<lparr>gr_id := lit ''a''\<rparr>]\<rparr>\<rparr>"
  by (simp add: sample_one_def sample_state_def hosts_file_default_def sample_edit)

lemma sample_one_groups: "hf_groups (hs_file sample_one) = [(sample_group ''one'' None None)\<lparr>gr_id := lit ''a''\<rparr>]"
  by (simp add: sample_one_eq)

lemma sample_two_eq: "sample_two = sample_state\<lparr>hs_file :=
    hosts_file_default\<lparr>hf_groups := [(sample_group ''one'' None None)\<lparr>gr_id := lit ''a''\<rparr>,
      (sample_group ''two'' (Some ''a'') None)\<lparr>gr_id := lit ''b''\<rparr>]\<rparr>\<rparr>"
  by (simp add: sample_two_def sample_one_eq sample_state_def hosts_file_default_def sample_edit)

lemma sample_two_groups: "hf_groups (hs_file sample_two) =
    [(sample_group ''one'' None None)\<lparr>gr_id := lit ''a''\<rparr>, (sample_group ''two'' (Some ''a'') None)\<lparr>gr_id := lit ''b''\<rparr>]"
  by (simp add: sample_two_eq)

lemma sample_moved_eq: "sample_moved = sample_two"
proof -
  have "subtree (hf_groups (hs_file sample_two)) (lit ''a'') = {lit ''a'', lit ''b''}"
    unfolding subtree_def by (simp add: subtree_from.simps subtree_step_def sample_two_groups sample_simps insert_commute)
  then have "lit ''b'' \<in> subtree (hf_groups (hs_file sample_two)) (lit ''a'')" by simp
  moreover have "find_group (hf_groups (hs_file sample_two)) (lit ''a'') = Some ((sample_group ''one'' None None)\<lparr>gr_id := lit ''a''\<rparr>)"
    by (simp add: sample_two_groups find_group_def)
  ultimately show ?thesis
    unfolding sample_moved_def move_group_def by (simp add: validate_group_def problem_if_def Let_def lit_def)
qed

lemma decimal_not_linked: "\<not> starts_with (decimal n) LINKED_PREFIX"
proof
  assume "starts_with (decimal n) LINKED_PREFIX"
  then have "set LINKED_PREFIX \<subseteq> set (decimal n)" unfolding starts_with_def by (metis set_take_subset)
  then have "(115::nat) \<in> set (decimal n)" by (auto simp: LINKED_PREFIX_def lit_def of_char_def)
  then show False using decimal_digits [of 115 n] by simp
qed

lemma edits_keep_hosts_well_formed_witness:
  "edits_ok sample_moved \<and> map gr_parent (hf_groups (hs_file sample_moved)) = [None, Some (lit ''a'')]"
proof
  have "hosts_step sample_host_crates sample_state sample_one"
    unfolding sample_one_def by (rule step_save_group) (simp_all add: sample_state_def hosts_file_default_def lit_def)
  moreover have "hosts_step sample_host_crates sample_one sample_two"
    unfolding sample_two_def
    by (rule step_save_group) (simp_all add: sample_one_groups lit_def of_char_def)
  moreover have "hosts_step sample_host_crates sample_two sample_moved"
    unfolding sample_moved_def by (rule step_move_group)
  ultimately have "(hosts_step sample_host_crates)\<^sup>*\<^sup>* sample_state sample_moved" by (auto intro: rtranclp.intros)
  moreover have "ids_drawn_well sample_host_crates"
    by (simp add: ids_drawn_well_def sample_host_crates_def decimal_not_linked)
  ultimately show "edits_ok sample_moved" using sample_state_ok by (rule edits_keep_hosts_well_formed)
  show "map gr_parent (hf_groups (hs_file sample_moved)) = [None, Some (lit ''a'')]"
    by (simp add: sample_moved_eq sample_two_groups sample_group_def)
qed

subsection \<open>Refusals and copies\<close>

text \<open>
  while the file is locked (it could not be read, or a newer version wrote it) no edit changes
  the published file, and every edit gives back the value by which it says that nothing was done.
\<close>

theorem locked_file_is_never_edited:
  "hs_locked s \<Longrightarrow>
   save_host new h s = (s, []) \<and> save_group new g s = (s, []) \<and> delete_hosts has_secrets ids s = (s, 0, []) \<and>
   delete_group gid s = (s, False) \<and> move_hosts ids gid s = (s, 0) \<and> move_group gid parent s = (s, False) \<and>
   duplicate_host new hid s = (s, []) \<and> set_favorite ids favorite s = (s, 0)"
  by (auto simp: save_host_def save_group_def delete_hosts_def delete_group_def move_hosts_def move_group_def
      duplicate_host_def set_favorite_def modify_refused i32_count_def Let_def split: option.split)

lemma locked_file_is_never_edited_witness:
  "delete_group (lit ''a'') (sample_two\<lparr>hs_locked := True\<rparr>) = (sample_two\<lparr>hs_locked := True\<rparr>, False)"
  using locked_file_is_never_edited [of "sample_two\<lparr>hs_locked := True\<rparr>"] by simp

text \<open>
  the loop that names a copy ends, for every set of names, at the first number from which it
  starts whose name no host has.
\<close>

theorem copy_gets_the_first_free_name:
  "copy_name name (copy_number names name n) \<notin> set names \<and> n \<le> copy_number names name n \<and>
   (\<forall>m. n \<le> m \<longrightarrow> m < copy_number names name n \<longrightarrow> copy_name name m \<in> set names)"
proof (induction names name n rule: copy_number.induct)
  case (1 names name n)
  show ?case
  proof (cases "copy_name name n \<in> set names")
    case True
    then have "copy_number names name n = copy_number names name (Suc n)" by (simp add: copy_number.simps [of names name n])
    then show ?thesis using 1 [OF True] True by (metis Suc_leD Suc_leI le_neq_implies_less)
  next
    case False
    then have "copy_number names name n = n" by (simp add: copy_number.simps [of names name n])
    then show ?thesis using False by simp
  qed
qed

lemma copy_gets_the_first_free_name_witness:
  "copy_name (lit ''web'') (copy_number [copy_name (lit ''web'') 2] (lit ''web'') 2) \<noteq> copy_name (lit ''web'') 2"
  using copy_gets_the_first_free_name [of "lit ''web''" "[copy_name (lit ''web'') 2]" 2] by simp

end
