(* ===== verification/X11.thy ===== *)
theory X11
  imports Texts Utf8
begin

text \<open>
  X11 forwarding (\<open>crates/opensesh-ssh/src/x11.rs\<close>): the display that \<open>DISPLAY\<close> names, the cookie in the
  output of \<open>xauth\<close>, and the first message of an X client, in which the made-up cookie is replaced
  by the real one. What a channel holds is the bytes that come from it before it is closed.
\<close>

definition MIT_MAGIC_COOKIE :: "string" where
  "MIT_MAGIC_COOKIE = ''MIT-MAGIC-COOKIE-1''"

definition MAX_SETUP :: nat where "MAX_SETUP = 4096"

subsection \<open>The display\<close>

datatype x_display = XUnix str nat nat | XTcp str nat nat

definition trim_brackets :: "str \<Rightarrow> str" where
  "trim_brackets s = rev (dropWhile (\<lambda>c. c \<in> {91, 93}) (rev (dropWhile (\<lambda>c. c \<in> {91, 93}) s)))"

definition display_parse :: "str \<Rightarrow> x_display option" where
  "display_parse s =
     (case rsplit_once 58 (trim s) of
        None \<Rightarrow> None
      | Some (host, rest) \<Rightarrow>
          (case (case split_at_char 46 rest of
                   Some (number, screen) \<Rightarrow>
                     (case (parse_uint u16_max number, parse_uint u16_max screen) of
                        (Some n, Some k) \<Rightarrow> Some (n, k)
                      | _ \<Rightarrow> None)
                 | None \<Rightarrow> map_option (\<lambda>n. (n, 0)) (parse_uint u16_max rest)) of
             None \<Rightarrow> None
           | Some (number, screen) \<Rightarrow>
               Some (if host = [] \<or> host = lit ''unix''
                     then XUnix (lit ''/tmp/.X11-unix/X'' @ decimal number) number screen
                     else if starts_with host (lit ''/'') then XUnix host number screen
                     else XTcp (trim_brackets host) number screen)))"

fun display_screen :: "x_display \<Rightarrow> nat" where
  "display_screen (XUnix _ _ screen) = screen"
| "display_screen (XTcp _ _ screen) = screen"

fun display_port :: "x_display \<Rightarrow> nat option" where
  "display_port (XTcp _ number _) = (if 6000 + number \<le> u16_max then Some (6000 + number) else None)"
| "display_port (XUnix _ _ _) = None"

subsection \<open>Cookies as text\<close>

definition x_hex_digit :: "nat \<Rightarrow> uchar" where
  "x_hex_digit d = (if d < 10 then 48 + d else 87 + d)"

definition hex_pair :: "byte \<Rightarrow> str" where
  "hex_pair b = [x_hex_digit (unat b div 16), x_hex_digit (unat b mod 16)]"

definition fake_hex :: "bytes \<Rightarrow> str" where
  "fake_hex fake = concat (map hex_pair fake)"

definition x_hex_value :: "uchar \<Rightarrow> nat option" where
  "x_hex_value c =
     (if 48 \<le> c \<and> c \<le> 57 then Some (c - 48)
      else if 97 \<le> c \<and> c \<le> 102 then Some (c - 87)
      else if 65 \<le> c \<and> c \<le> 70 then Some (c - 55)
      else None)"

text \<open>\<open>u8::from_str_radix\<close> of two characters, of which the first may be a plus sign.\<close>

definition radix_pair :: "uchar \<Rightarrow> uchar \<Rightarrow> byte option" where
  "radix_pair a b =
     (if a = 43 then map_option word_of_nat (x_hex_value b)
      else case (x_hex_value a, x_hex_value b) of (Some x, Some y) \<Rightarrow> Some (word_of_nat (16 * x + y)) | _ \<Rightarrow> None)"

fun hex_bytes :: "str \<Rightarrow> bytes option" where
  "hex_bytes [] = Some []"
| "hex_bytes [_] = None"
| "hex_bytes (a # b # rest) =
     (case (radix_pair a b, hex_bytes rest) of (Some x, Some xs) \<Rightarrow> Some (x # xs) | _ \<Rightarrow> None)"

definition cookie_of_line :: "str \<Rightarrow> bytes option" where
  "cookie_of_line line =
     (case split_whitespace line of
        _ # protocol # hex # _ \<Rightarrow> if protocol = lit MIT_MAGIC_COOKIE then hex_bytes hex else None
      | _ \<Rightarrow> None)"

fun first_cookie :: "str list \<Rightarrow> bytes option" where
  "first_cookie [] = None"
| "first_cookie (line # lines) = (case cookie_of_line line of Some cookie \<Rightarrow> Some cookie | None \<Rightarrow> first_cookie lines)"

definition cookie_from_xauth :: "str \<Rightarrow> bytes option" where
  "cookie_from_xauth s = first_cookie (str_lines s)"

subsection \<open>The first message\<close>

datatype x_error = XRead | XNotX11 | XTooLong | XOtherCookie

record forwarding =
  fw_fake :: bytes
  fw_real :: "bytes option"

definition up4 :: "nat \<Rightarrow> nat" where
  "up4 n = (n + 3) div 4 * 4"

definition x_u16 :: "bool \<Rightarrow> nat \<Rightarrow> bytes" where
  "x_u16 big n = (let n = (if n \<le> u16_max then n else 0) in if big then be 2 n else le 2 n)"

definition x_read_u16 :: "bool \<Rightarrow> bytes \<Rightarrow> nat \<Rightarrow> nat" where
  "x_read_u16 big header i = (let bs = [header ! i, header ! Suc i] in if big then from_be bs else from_le bs)"

definition padded :: "bytes \<Rightarrow> bytes" where
  "padded bs = bs @ replicate (up4 (length bs) - length bs) 0"

definition substitute :: "bytes \<Rightarrow> bool \<Rightarrow> bytes \<Rightarrow> bytes \<Rightarrow> forwarding \<Rightarrow> x_error + bytes" where
  "substitute header big name data fw =
     (if name \<noteq> utf8 (lit MIT_MAGIC_COOKIE) \<or> data \<noteq> fw_fake fw then Inl XOtherCookie
      else let (name, data) = (case fw_real fw of Some real \<Rightarrow> (utf8 (lit MIT_MAGIC_COOKIE), real) | None \<Rightarrow> ([], []))
           in Inr (padded (padded (take 6 header @ x_u16 big (length name) @ x_u16 big (length data) @
                     take 2 (drop 10 header) @ name) @ data)))"

text \<open>The result and what is left in the channel.\<close>

definition first_message :: "forwarding \<Rightarrow> bytes \<Rightarrow> (x_error + bytes) \<times> bytes" where
  "first_message fw channel =
     (if length channel < 12 then (Inl XRead, [])
      else
        let header = take 12 channel; channel = drop 12 channel
        in if hd header \<noteq> 0x42 \<and> hd header \<noteq> 0x6c then (Inl XNotX11, channel)
           else
             let big = (hd header = 0x42);
                 name_len = x_read_u16 big header 6;
                 data_len = x_read_u16 big header 8;
                 rest_len = up4 name_len + up4 data_len
             in if rest_len > MAX_SETUP then (Inl XTooLong, channel)
                else if length channel < rest_len then (Inl XRead, [])
                else
                  let rest = take rest_len channel
                  in (substitute header big (take name_len rest) (take data_len (drop (up4 name_len) rest)) fw,
                      drop rest_len channel))"

subsection \<open>Which connections are let through, and as what\<close>

definition x_setup :: "bool \<Rightarrow> bytes \<Rightarrow> bytes \<Rightarrow> bytes \<Rightarrow> bytes \<Rightarrow> bytes \<Rightarrow> bytes \<Rightarrow> bytes" where
  "x_setup big start tail name pad data pad' =
     start @ x_u16 big (length name) @ x_u16 big (length data) @ tail @ name @ pad @ data @ pad'"

abbreviation mit :: bytes where
  "mit \<equiv> utf8 (lit MIT_MAGIC_COOKIE)"

lemma length_mit: "length mit = 18"
  by (simp add: MIT_MAGIC_COOKIE_def lit_def of_char_def utf8_def utf8_char_def)

lemma length_x_u16 [simp]: "length (x_u16 big n) = 2"
  by (simp add: x_u16_def le_def Let_def)

lemma two_bytes: "x_u16 big (if big then from_be [a, b] else from_le [a, b]) = [a, b]"
  using from_be_less [of "[a, b]"] from_be_less [of "[b, a]"] be_from_be [of "[a, b]"] be_from_be [of "[b, a]"]
  by (simp add: x_u16_def u16_max_def from_le_def le_def numeral_2_eq_2 del: be.simps)

lemma x_u16_value: "n \<le> u16_max \<Longrightarrow> (if big then from_be (x_u16 big n) else from_le (x_u16 big n)) = n"
  by (simp add: x_u16_def u16_max_def)

lemma two_list: "length bs = 2 \<Longrightarrow> bs = [bs ! 0, bs ! 1]"
  by (cases bs; cases "tl bs") auto

lemma x_read_write: "n \<le> u16_max \<Longrightarrow> length before = i \<Longrightarrow> x_read_u16 big (before @ x_u16 big n @ after') i = n"
  using x_u16_value [of n big] two_list [OF length_x_u16 [of big n]]
  by (simp add: x_read_u16_def Let_def nth_append)

lemma x_write_read:
  assumes "x_read_u16 big header i = n" "Suc i < length header"
  shows "x_u16 big n = take 2 (drop i header)"
proof -
  have "take 2 (drop i header) = [header ! i, header ! Suc i]"
    using assms(2) by (simp add: numeral_2_eq_2 take_Suc_conv_app_nth Cons_nth_drop_Suc [symmetric])
  then show ?thesis using two_bytes [of big "header ! i" "header ! Suc i"] assms(1) by (simp add: x_read_u16_def Let_def)
qed

text \<open>What the local display gets for a connection that is let through.\<close>

definition x_answer :: "forwarding \<Rightarrow> bool \<Rightarrow> bytes \<Rightarrow> bytes \<Rightarrow> bytes" where
  "x_answer fw big start tail =
     (case fw_real fw of
        Some real \<Rightarrow> x_setup big start tail mit [0, 0] real (replicate (up4 (length real) - length real) 0)
      | None \<Rightarrow> x_setup big start tail [] [] [] [])"

lemma up4_add: "up4 (4 * k + m) = 4 * k + up4 m"
proof -
  have "4 * k + m + 3 = m + 3 + 4 * k" by simp
  then have "(4 * k + m + 3) div 4 = k + (m + 3) div 4" by (simp only: div_mult_self2)
  then show ?thesis by (simp add: up4_def)
qed

lemma substitute_answer:
  assumes "length header = 12"
  shows "substitute header big mit (fw_fake fw) fw =
    Inr (x_answer fw big (take 6 header) (take 2 (drop 10 header)))"
proof (cases "fw_real fw")
  case None
  have "up4 12 = 12" by (simp add: up4_def)
  then show ?thesis using None assms by (simp add: substitute_def x_answer_def x_setup_def padded_def)
next
  case (Some real)
  let ?head = "take 6 header @ x_u16 big 18 @ x_u16 big (length real) @ take 2 (drop 10 header) @ mit"
  have "up4 30 = 32" by (simp add: up4_def)
  moreover have "length ?head = 30" using assms by (simp add: length_mit)
  ultimately have "padded ?head = ?head @ [0, 0]" by (simp add: padded_def numeral_2_eq_2 del: append_assoc)
  moreover have "up4 (32 + length real) = 32 + up4 (length real)" using up4_add [of 8 "length real"] by simp
  ultimately show ?thesis using Some assms \<open>up4 30 = 32\<close>
    by (simp add: substitute_def x_answer_def x_setup_def padded_def length_mit)
qed

lemma first_message_of_setup:
  assumes "length start = 6" "hd start = (if big then 0x42 else 0x6c)" "length tail = 2" "length pad = 2" "length (fw_fake fw) = 16"
  shows "first_message fw (x_setup big start tail mit pad (fw_fake fw) [] @ rest) = (Inr (x_answer fw big start tail), rest)"
proof -
  let ?header = "start @ x_u16 big 18 @ x_u16 big 16 @ tail" and ?body = "mit @ pad @ fw_fake fw"
  have ch: "x_setup big start tail mit pad (fw_fake fw) [] @ rest = ?header @ ?body @ rest"
    using assms by (simp add: x_setup_def length_mit)
  have header: "length ?header = 12" "hd ?header = (if big then 0x42 else 0x6c)"
    using assms by (simp_all add: hd_append) (auto simp: hd_append)
  have lens: "x_read_u16 big ?header 6 = 18" "x_read_u16 big ?header 8 = 16"
    using x_read_write [of 18 start 6 big "x_u16 big 16 @ tail"] x_read_write [of 16 "start @ x_u16 big 18" 8 big tail] assms
    by (simp_all add: u16_max_def)
  have up: "up4 18 = 20" "up4 16 = 16" by (simp_all add: up4_def)
  have order: "(hd ?header = 0x42) = big" using header(2) by simp
  have first: "take 12 (?header @ ?body @ rest) = ?header" "drop 12 (?header @ ?body @ rest) = ?body @ rest"
    using header(1) by (simp_all del: append_assoc)
  have body: "take 36 (?body @ rest) = ?body" "drop 36 (?body @ rest) = rest"
    "take 18 ?body = mit" "take 16 (drop 20 ?body) = fw_fake fw"
    using assms by (simp_all add: length_mit)
  have "substitute ?header big mit (fw_fake fw) fw = Inr (x_answer fw big start tail)"
    using substitute_answer [OF header(1)] assms by simp
  then show ?thesis
    unfolding ch first_message_def Let_def first
    using header order assms(3-5) by (simp add: lens up MAX_SETUP_def body length_mit del: append_assoc)
qed

lemma take_drop_next: "take a (drop i xs) @ drop (i + a) xs = drop i xs"
  by (metis add.commute append_take_drop_id drop_drop)

text \<open>
  C34: a connection of the server is let through exactly when its first message is an X11 setup in one
  of the two byte orders that carries the made-up cookie, and the local display then gets that setup
  with the real cookie in its place (or none), in the same byte order and with the lengths that
  match; nothing after the first message is read.
\<close>

theorem x11_lets_through_only_the_cookie:
  assumes "length (fw_fake fw) = 16"
  shows "first_message fw channel = (Inr out, rest) \<longleftrightarrow>
    (\<exists>big start tail pad.
       channel = x_setup big start tail mit pad (fw_fake fw) [] @ rest \<and> out = x_answer fw big start tail \<and>
       length start = 6 \<and> hd start = (if big then 0x42 else 0x6c) \<and> length tail = 2 \<and> length pad = 2)"
    (is "?ok \<longleftrightarrow> ?parts")
proof
  assume ?parts
  then show ?ok using first_message_of_setup assms by auto
next
  assume ok: ?ok
  define header big body where "header = take 12 channel" and "big = (hd header = 0x42)" and "body = drop 12 channel"
  define n m where "n = x_read_u16 big header 6" and "m = x_read_u16 big header 8"
  define r where "r = take (up4 n + up4 m) body"
  have long: "12 \<le> length channel" "up4 n + up4 m \<le> length body" and kind: "hd header = (if big then 0x42 else 0x6c)"
    and sub: "substitute header big (take n r) (take m (drop (up4 n) r)) fw = Inr out" and rest: "rest = drop (up4 n + up4 m) body"
    using ok by (auto simp: first_message_def Let_def header_def big_def body_def n_def m_def r_def split: if_splits)
  have len: "length header = 12" "length r = up4 n + up4 m" using long by (simp_all add: header_def r_def)
  have room: "n \<le> up4 n" "m \<le> up4 m" by (simp_all add: up4_def)
  have parts: "take n r = mit" "take m (drop (up4 n) r) = fw_fake fw" using sub by (auto simp: substitute_def split: if_splits)
  have n: "n = 18" using arg_cong [OF parts(1), of length] room len by (simp add: length_mit)
  have m: "m = 16" using arg_cong [OF parts(2), of length] room len assms by simp
  have up: "up4 18 = 20" "up4 16 = 16" by (simp_all add: up4_def)
  define start tail pad where "start = take 6 header" and "tail = drop 10 header" and "pad = take 2 (drop 18 r)"
  have "x_u16 big 18 = take 2 (drop 6 header)" "x_u16 big 16 = take 2 (drop 8 header)"
    using n m len(1) by (auto intro!: x_write_read simp: n_def m_def)
  moreover have "header = take 6 header @ take 2 (drop 6 header) @ take 2 (drop 8 header) @ drop 10 header"
    using take_drop_next [of 2 6 header] take_drop_next [of 2 8 header] by simp
  ultimately have h: "header = start @ x_u16 big 18 @ x_u16 big 16 @ tail" by (simp add: start_def tail_def)
  have "length r = 36" using len(2) n m up by simp
  have "r = take 18 r @ take 2 (drop 18 r) @ drop 20 r" using take_drop_next [of 2 18 r] by simp
  then have r: "r = mit @ pad @ fw_fake fw" using parts n m up \<open>length r = 36\<close> by (simp add: pad_def)
  have "channel = header @ r @ rest" unfolding rest r_def body_def header_def
    by (simp only: append_take_drop_id)
  then have "channel = x_setup big start tail mit pad (fw_fake fw) [] @ rest"
    using assms unfolding h r x_setup_def by (simp add: length_mit)
  moreover have "out = x_answer fw big start tail"
    using sub substitute_answer [OF len(1), of big fw] len(1) unfolding parts by (simp add: start_def tail_def)
  moreover have "length start = 6" "length tail = 2" "length pad = 2" "hd start = (if big then 0x42 else 0x6c)"
    using len(1) kind \<open>length r = 36\<close> by (auto simp: start_def tail_def pad_def hd_take)
  ultimately show ?parts by blast
qed

text \<open>Little-endian, with bytes of a later message behind it.\<close>

lemma x11_lets_through_only_the_cookie_witness:
  "first_message \<lparr>fw_fake = replicate 16 7, fw_real = Some [1, 2, 3, 4]\<rparr>
     (x_setup False [0x6c, 0, 11, 0, 0, 0] [0, 0] mit [9, 9] (replicate 16 7) [] @ [5, 5]) =
   (Inr (x_setup False [0x6c, 0, 11, 0, 0, 0] [0, 0] mit [0, 0] [1, 2, 3, 4] []), [5, 5])"
proof -
  let ?fw = "\<lparr>fw_fake = replicate 16 7, fw_real = Some [1, 2, 3, 4]\<rparr>"
  have "x_answer ?fw False [0x6c, 0, 11, 0, 0, 0] [0, 0] = x_setup False [0x6c, 0, 11, 0, 0, 0] [0, 0] mit [0, 0] [1, 2, 3, 4] []"
    by (simp add: x_answer_def up4_def)
  moreover have "first_message ?fw (x_setup False [0x6c, 0, 11, 0, 0, 0] [0, 0] mit [9, 9] (replicate 16 7) [] @ [5, 5]) =
      (Inr (x_answer ?fw False [0x6c, 0, 11, 0, 0, 0] [0, 0]), [5, 5])"
    by (rule x11_lets_through_only_the_cookie [THEN iffD2]) (simp, rule exI [of _ False], fastforce)
  ultimately show ?thesis by simp
qed

subsection \<open>Cookies are read back\<close>

lemma hex_digit_value: "d < 16 \<Longrightarrow> x_hex_value (x_hex_digit d) = Some d \<and> x_hex_digit d \<noteq> 43"
  by (auto simp: x_hex_value_def x_hex_digit_def)

lemma radix_hex_pair: "radix_pair (x_hex_digit (unat b div 16)) (x_hex_digit (unat b mod 16)) = Some b"
  for b :: byte
proof -
  have "unat b < 256" using unsigned_less [of b] by simp
  then have "unat b div 16 < 16" by simp
  moreover have "16 * (unat b div 16) + unat b mod 16 = unat b" by simp
  moreover have "(word_of_nat (unat b) :: byte) = b" by simp
  ultimately have "(word_of_nat (16 * (unat b div 16) + unat b mod 16) :: byte) = b" by (simp only:)
  then show ?thesis using \<open>unat b div 16 < 16\<close> hex_digit_value [of "unat b div 16"] hex_digit_value [of "unat b mod 16"]
    by (simp add: radix_pair_def)
qed

lemma hex_bytes_fake_hex: "hex_bytes (fake_hex bs) = Some bs"
  by (induction bs) (auto simp: fake_hex_def hex_pair_def radix_hex_pair)

end
