(* ===== verification/Writer.thy ===== *)
theory Writer
  imports Sync_Merge
begin

text \<open>
  The background file writer (\<open>crates/opensesh-core/src/writer.rs\<close>): the loop of its thread, one message
  or timeout at a time. A write waits until its path is quiet; only the latest contents are
  written. The messages arrive in the order in which they were sent; a timeout and the end of the
  channel are events of their own. What the callbacks are told is a log.
  The backups that a job asks for are files beside its own, which the file system of World does not
  show (they are the subject of Fsutil), so \<open>jb_backups\<close> is kept and not read.
\<close>

record job =
  jb_bytes :: bytes
  jb_backups :: nat
  jb_done :: bool

datatype writer_event = WWrite str job | WRemove str bool | WFlush | WTimeout | WDisconnected

datatype writer_report = Saved str "io_error + write_outcome" | Removed str "io_error + unit" | Flushed

record 's file_writer =
  wr_pending :: "(str, job) btree_map"
  wr_baselines :: baselines
  wr_world :: "'s world"
  wr_reports :: "writer_report list"
  wr_stopped :: bool

definition write_job :: "toml_codec \<Rightarrow> (str \<Rightarrow> bool) \<Rightarrow> 's file_writer \<Rightarrow> str \<times> job \<Rightarrow> 's file_writer" where
  "write_job codec is_toml s pj =
     (let (path, job) = pj;
          (result, baselines, w) = write_merging codec is_toml path (jb_bytes job) (wr_baselines s) (wr_world s)
      in s\<lparr>wr_baselines := baselines, wr_world := w,
           wr_reports := wr_reports s @ (if jb_done job then [Saved path result] else [])\<rparr>)"

definition write_pending :: "toml_codec \<Rightarrow> (str \<Rightarrow> bool) \<Rightarrow> 's file_writer \<Rightarrow> 's file_writer" where
  "write_pending codec is_toml s =
     foldl (write_job codec is_toml) (s\<lparr>wr_pending := []\<rparr>) (wr_pending s)"

definition writer_remove :: "str \<Rightarrow> bool \<Rightarrow> 's file_writer \<Rightarrow> 's file_writer" where
  "writer_remove path tell s =
     (let (result, w) = remove_file (wr_world s) path;
          result = (if result = Inl NotFound then Inr () else result)
      in s\<lparr>wr_pending := bt_remove path (wr_pending s), wr_baselines := (wr_baselines s)(path := None),
           wr_world := w, wr_reports := wr_reports s @ (if tell then [Removed path result] else [])\<rparr>)"

fun writer_step :: "toml_codec \<Rightarrow> (str \<Rightarrow> bool) \<Rightarrow> 's file_writer \<Rightarrow> writer_event \<Rightarrow> 's file_writer" where
  "writer_step codec is_toml s (WWrite path job) = s\<lparr>wr_pending := bt_insert path job (wr_pending s)\<rparr>"
| "writer_step codec is_toml s (WRemove path tell) = writer_remove path tell s"
| "writer_step codec is_toml s WFlush =
     (let s = write_pending codec is_toml s in s\<lparr>wr_reports := wr_reports s @ [Flushed]\<rparr>)"
| "writer_step codec is_toml s WTimeout = write_pending codec is_toml s"
| "writer_step codec is_toml s WDisconnected = (write_pending codec is_toml s)\<lparr>wr_stopped := True\<rparr>"

definition writer_run :: "toml_codec \<Rightarrow> (str \<Rightarrow> bool) \<Rightarrow> 's file_writer \<Rightarrow> writer_event list \<Rightarrow> 's file_writer" where
  "writer_run codec is_toml s es = foldl (\<lambda>s e. if wr_stopped s then s else writer_step codec is_toml s e) s es"

subsection \<open>What the messages ask for\<close>

text \<open>The files as if every message were carried out at once.\<close>

fun asked :: "(str \<rightharpoonup> bytes) \<Rightarrow> writer_event \<Rightarrow> (str \<rightharpoonup> bytes)" where
  "asked F (WWrite path job) = F(path \<mapsto> jb_bytes job)"
| "asked F (WRemove path _) = F(path := None)"
| "asked F _ = F"

text \<open>The files with what still waits written over them.\<close>

definition wanted_files :: "'s file_writer \<Rightarrow> (str \<rightharpoonup> bytes)" where
  "wanted_files s p =
     (case bt_get (wr_pending s) p of Some job \<Rightarrow> Some (jb_bytes job) | None \<Rightarrow> files (wr_world s) p)"

text \<open>No call fails, and no other program wrote a file that this one read or wrote.\<close>

definition undisturbed :: "'s file_writer \<Rightarrow> bool" where
  "undisturbed s \<longleftrightarrow>
     faults (wr_world s) = [] \<and> bt_ok (wr_pending s) \<and>
     (\<forall>p b. wr_baselines s p = Some b \<longrightarrow> files (wr_world s) p = Some b)"

lemma write_job_undisturbed:
  assumes "undisturbed s"
  shows "undisturbed (write_job codec is_toml s (path, job)) \<and>
    files (wr_world (write_job codec is_toml s (path, job))) = (files (wr_world s))(path \<mapsto> jb_bytes job) \<and>
    wr_pending (write_job codec is_toml s (path, job)) = wr_pending s \<and> wr_stopped (write_job codec is_toml s (path, job)) = wr_stopped s"
proof -
  have quiet: "faults (wr_world s) = []" using assms by (simp add: undisturbed_def)
  obtain r where r: "atomic_write (wr_world s) path (jb_bytes job) =
      (Inr r, (wr_world s)\<lparr>files := (files (wr_world s))(path \<mapsto> jb_bytes job)\<rparr>)"
    using atomic_write_ok [OF quiet] by blast
  show ?thesis
  proof (cases "wr_baselines s path")
    case None
    then show ?thesis using assms r
      by (auto simp: write_job_def write_merging_def undisturbed_def Let_def)
  next
    case (Some base)
    then have "files (wr_world s) path = Some base" using assms by (auto simp: undisturbed_def)
    then have "fs_read (wr_world s) path = (Inr base, wr_world s)" using quiet by (simp add: fs_read_def)
    then show ?thesis using assms r Some
      by (auto simp: write_job_def write_merging_def undisturbed_def Let_def)
  qed
qed

lemma write_jobs_undisturbed:
  "undisturbed s \<Longrightarrow> distinct (map fst pjs) \<Longrightarrow>
   undisturbed (foldl (write_job codec is_toml) s pjs) \<and>
   files (wr_world (foldl (write_job codec is_toml) s pjs)) =
     (\<lambda>p. case map_of pjs p of Some job \<Rightarrow> Some (jb_bytes job) | None \<Rightarrow> files (wr_world s) p) \<and>
   wr_pending (foldl (write_job codec is_toml) s pjs) = wr_pending s \<and>
   wr_stopped (foldl (write_job codec is_toml) s pjs) = wr_stopped s"
proof (induction pjs arbitrary: s)
  case (Cons pj pjs)
  obtain path job where pj: "pj = (path, job)" by (cases pj)
  let ?s = "write_job codec is_toml s (path, job)"
  have one: "undisturbed ?s" "files (wr_world ?s) = (files (wr_world s))(path \<mapsto> jb_bytes job)"
    "wr_pending ?s = wr_pending s" "wr_stopped ?s = wr_stopped s"
    using write_job_undisturbed [OF Cons(2)] by auto
  have "map_of pjs path = None" using Cons(3) pj by (simp add: map_of_eq_None_iff)
  then show ?case
    using Cons.IH [OF one(1)] Cons(3) one pj by (auto simp: fun_eq_iff split: option.split)
qed simp

lemma write_pending_undisturbed:
  assumes "undisturbed s"
  shows "undisturbed (write_pending codec is_toml s)" "files (wr_world (write_pending codec is_toml s)) = wanted_files s"
    "wr_pending (write_pending codec is_toml s) = []" "wr_stopped (write_pending codec is_toml s) = wr_stopped s"
proof -
  let ?s = "s\<lparr>wr_pending := []\<rparr>"
  have "undisturbed ?s" "distinct (map fst (wr_pending s))" using assms by (auto simp: undisturbed_def dest: bt_ok_distinct)
  from write_jobs_undisturbed [OF this]
  show "undisturbed (write_pending codec is_toml s)" "files (wr_world (write_pending codec is_toml s)) = wanted_files s"
    "wr_pending (write_pending codec is_toml s) = []" "wr_stopped (write_pending codec is_toml s) = wr_stopped s"
    by (auto simp: write_pending_def wanted_files_def fun_eq_iff split: option.split)
qed

lemma remove_undisturbed:
  assumes "undisturbed s"
  shows "undisturbed (writer_remove path tell s)" "wanted_files (writer_remove path tell s) = (wanted_files s)(path := None)"
    "wr_stopped (writer_remove path tell s) = wr_stopped s"
proof -
  have quiet: "faults (wr_world s) = []" using assms by (simp add: undisturbed_def)
  obtain r where r: "remove_file (wr_world s) path = (r, (wr_world s)\<lparr>files := (files (wr_world s))(path := None)\<rparr>)"
    using quiet by (cases "files (wr_world s) path = None") (auto simp: remove_file_def fun_upd_idem)
  then show "undisturbed (writer_remove path tell s)" "wanted_files (writer_remove path tell s) = (wanted_files s)(path := None)"
    "wr_stopped (writer_remove path tell s) = wr_stopped s"
    using assms by (auto simp: writer_remove_def undisturbed_def wanted_files_def fun_eq_iff bt_remove_def bt_get_retain
        bt_ok_retain Let_def split: option.splits)
qed

lemma step_undisturbed: "undisturbed s \<Longrightarrow> undisturbed (writer_step codec is_toml s e)"
  using write_pending_undisturbed(1) [of s codec is_toml] remove_undisturbed(1) [of s]
  by (cases e) (auto simp: undisturbed_def bt_ok_insert Let_def)

interpretation uw: invariant_machine "writer_step codec is_toml" undisturbed "\<lambda>_. True" for codec is_toml
  by unfold_locales (rule step_undisturbed)

text \<open>One event does to the files that are wanted what the message asks for: the wait is not visible.\<close>

lemma wanted_files_simps [simp]:
  "wanted_files (wr_reports_update f s) = wanted_files s" "wanted_files (wr_stopped_update g s) = wanted_files s"
  "wr_pending s = [] \<Longrightarrow> wanted_files s = files (wr_world s)"
  by (simp_all add: wanted_files_def fun_eq_iff split: option.split)

lemma step_refines:
  assumes "undisturbed s"
  shows "wanted_files (writer_step codec is_toml s e) = asked (wanted_files s) e"
proof (cases e)
  case (WWrite path job)
  then show ?thesis by (auto simp: wanted_files_def bt_get_insert fun_eq_iff split: option.split)
qed (use write_pending_undisturbed(2,3) [OF assms, of codec is_toml] remove_undisturbed(2) [OF assms] in \<open>simp_all add: Let_def\<close>)

lemma step_stopped:
  assumes "undisturbed s"
  shows "wr_stopped (writer_step codec is_toml s e) \<longleftrightarrow> wr_stopped s \<or> e = WDisconnected"
  by (cases e) (simp_all add: Let_def write_pending_undisturbed(4) [OF assms] remove_undisturbed(3) [OF assms])

lemma writer_run_refines:
  "undisturbed s \<Longrightarrow> \<not> wr_stopped s \<Longrightarrow> WDisconnected \<notin> set es \<Longrightarrow>
   wanted_files (writer_run codec is_toml s es) = foldl asked (wanted_files s) es \<and>
   undisturbed (writer_run codec is_toml s es) \<and> \<not> wr_stopped (writer_run codec is_toml s es)"
proof (induction es arbitrary: s)
  case (Cons e es)
  let ?s = "writer_step codec is_toml s e"
  have one: "undisturbed ?s" "\<not> wr_stopped ?s" "wanted_files ?s = asked (wanted_files s) e"
    using Cons.prems step_undisturbed [of s codec is_toml e] step_stopped [of s codec is_toml e] step_refines [of s codec is_toml e]
    by auto
  have "writer_run codec is_toml s (e # es) = writer_run codec is_toml ?s es" using Cons.prems by (simp add: writer_run_def)
  then show ?case using Cons.IH [OF one(1,2)] Cons.prems one(3) by simp
qed (simp add: writer_run_def)

text \<open>
  C20: the writer's waiting is not visible on disk. After any messages, once the writer was flushed, timed
  out or was dropped, every file is exactly what the last message about it asked for and no other
  file changed, when no call failed and no other program wrote the files.
\<close>

theorem flush_writes_what_was_asked:
  assumes "undisturbed s" "\<not> wr_stopped s" "WDisconnected \<notin> set es" "e \<in> {WFlush, WTimeout, WDisconnected}"
  shows "files (wr_world (writer_run codec is_toml s (es @ [e]))) = foldl asked (wanted_files s) es"
proof -
  let ?s = "writer_run codec is_toml s es"
  have run: "wanted_files ?s = foldl asked (wanted_files s) es" "undisturbed ?s" "\<not> wr_stopped ?s"
    using writer_run_refines [OF assms(1-3)] by auto
  have "writer_run codec is_toml s (es @ [e]) = writer_step codec is_toml ?s e" using run(3) by (simp add: writer_run_def)
  then show ?thesis using assms(4) write_pending_undisturbed(2) [OF run(2), of codec is_toml] run(1) by (auto simp: Let_def)
qed

definition sample_writer :: "unit file_writer" where
  "sample_writer =
     \<lparr>wr_pending = [], wr_baselines = Map.empty,
      wr_world = \<lparr>files = [lit ''a'' \<mapsto> [0]], faults = [], rng = [], ring = ()\<rparr>, wr_reports = [], wr_stopped = False\<rparr>"

text \<open>A file is written twice and another removed while a write of it waits.\<close>

lemma flush_writes_what_was_asked_witness:
  "files (wr_world (writer_run \<lparr>tc_parse = \<lambda>_. None, tc_print = \<lambda>_. None\<rparr> (\<lambda>_. True) sample_writer
     ([WWrite (lit ''b'') \<lparr>jb_bytes = [1], jb_backups = 0, jb_done = False\<rparr>,
       WWrite (lit ''a'') \<lparr>jb_bytes = [2], jb_backups = 0, jb_done = False\<rparr>, WRemove (lit ''a'') False,
       WWrite (lit ''b'') \<lparr>jb_bytes = [3], jb_backups = 0, jb_done = False\<rparr>] @ [WFlush]))) =
   [lit ''b'' \<mapsto> [3]]"
  using flush_writes_what_was_asked [of sample_writer
      "[WWrite (lit ''b'') \<lparr>jb_bytes = [1], jb_backups = 0, jb_done = False\<rparr>,
        WWrite (lit ''a'') \<lparr>jb_bytes = [2], jb_backups = 0, jb_done = False\<rparr>, WRemove (lit ''a'') False,
        WWrite (lit ''b'') \<lparr>jb_bytes = [3], jb_backups = 0, jb_done = False\<rparr>]" WFlush]
  by (auto simp: sample_writer_def undisturbed_def wanted_files_def fun_eq_iff lit_def of_char_def)

subsection \<open>Removed files\<close>

lemma write_jobs_other:
  "p \<notin> fst ` set pjs \<Longrightarrow>
   files (wr_world (foldl (write_job codec is_toml) s pjs)) p = files (wr_world s) p \<and>
   wr_pending (foldl (write_job codec is_toml) s pjs) = wr_pending s"
proof (induction pjs arbitrary: s)
  case (Cons pj pjs)
  obtain path job where pj: "pj = (path, job)" by (cases pj)
  obtain r b w where m: "write_merging codec is_toml path (jb_bytes job) (wr_baselines s) (wr_world s) = (r, b, w)"
    by (rule prod_cases3)
  have "files w p = files (wr_world s) p"
    using m Cons(2) pj by (auto simp: write_merging_def Let_def split: option.splits prod.splits sum.splits io_error.splits
        dest!: fs_readD atomic_write_files)
  then show ?case using Cons.IH [of "write_job codec is_toml s pj"] Cons(2) pj m by (simp add: write_job_def)
qed simp

definition not_about :: "str \<Rightarrow> writer_event \<Rightarrow> bool" where
  "not_about p e \<longleftrightarrow> (case e of WWrite q _ \<Rightarrow> q \<noteq> p | WRemove q _ \<Rightarrow> q \<noteq> p | _ \<Rightarrow> True)"

definition not_waiting :: "str \<Rightarrow> 's file_writer \<Rightarrow> bool" where
  "not_waiting p s \<longleftrightarrow> p \<notin> fst ` set (wr_pending s)"

lemma retain_keys: "fst ` set (bt_remove q m) = fst ` set m - {q}"
  by (auto simp: bt_remove_def bt_retain_def image_iff)

lemma step_other:
  assumes "not_waiting p s" "not_about p e"
  shows "not_waiting p (writer_step codec is_toml s e) \<and>
    files (wr_world (writer_step codec is_toml s e)) p = files (wr_world s) p"
proof -
  have all: "files (wr_world (write_pending codec is_toml s)) p = files (wr_world s) p"
      "wr_pending (write_pending codec is_toml s) = []"
    using write_jobs_other [of p "wr_pending s" codec is_toml "s\<lparr>wr_pending := []\<rparr>"] assms(1)
    by (simp_all add: write_pending_def not_waiting_def)
  show ?thesis
  proof (cases e)
    case (WRemove q tell)
    then have "q \<noteq> p" using assms(2) by (simp add: not_about_def)
    then have "files (snd (remove_file (wr_world s) q)) p = files (wr_world s) p" using remove_file_snd(2) [of p q "wr_world s"] by simp
    then show ?thesis using WRemove assms(1)
      by (cases "remove_file (wr_world s) q") (simp add: writer_remove_def not_waiting_def retain_keys Let_def)
  qed (use assms all in \<open>simp_all add: not_waiting_def not_about_def fst_set_bt_insert Let_def\<close>)
qed

text \<open>
  a file that was removed does not come back: a write of it that still waited is dropped, and
  whatever messages about other files, timeouts and failures follow, the file stays as the removal
  left it until it is written again.
\<close>

theorem removed_file_stays_removed:
  assumes "list_all (not_about p) es"
  shows "files (wr_world (writer_run codec is_toml (writer_remove p tell s) es)) p =
    files (wr_world (writer_remove p tell s)) p"
proof -
  have run: "files (wr_world (writer_run codec is_toml s es)) p = files (wr_world s) p" if "not_waiting p s" for s
    using that assms
  proof (induction es arbitrary: s)
    case (Cons e es)
    then show ?case using step_other [of p s e codec is_toml] by (simp add: writer_run_def)
  qed (simp add: writer_run_def)
  show ?thesis
    by (rule run) (simp add: not_waiting_def writer_remove_def retain_keys Let_def split: prod.split)
qed

lemma removed_file_stays_removed_witness:
  "files (wr_world (writer_run \<lparr>tc_parse = \<lambda>_. None, tc_print = \<lambda>_. None\<rparr> (\<lambda>_. True)
     (writer_remove (lit ''a'') False (writer_step \<lparr>tc_parse = \<lambda>_. None, tc_print = \<lambda>_. None\<rparr> (\<lambda>_. True) sample_writer
        (WWrite (lit ''a'') \<lparr>jb_bytes = [2], jb_backups = 0, jb_done = False\<rparr>))) [WTimeout])) (lit ''a'') = None"
  by (subst removed_file_stays_removed)
    (simp_all add: not_about_def writer_remove_def remove_file_def sample_writer_def lit_def)

end
