(* ===== verification/Paste_Review.thy ===== *)
theory Paste_Review
  imports Terminal_Input
begin

text \<open>
  The paste analyzer (\<open>crates/opensesh-core/src/paste.rs\<close>): what in a pasted text deserves a look.
  Positions are byte offsets. The regular expressions are the regex crate's: a pattern is a function
  that gives, for a line, the text in front of the first match and the match. \<open>char::is_alphanumeric\<close>
  is a parameter too.
\<close>

datatype severity = Info | Warning | Danger

datatype paste_kind =
    RunsAtOnce | Multiline | PControl | Invisible | Bidi | Overwrite | Homoglyph | PipeToShell | DecodeToShell
  | ProfileWrite | SudoPipe | Destructive

record finding =
  fd_kind :: paste_kind
  fd_severity :: severity
  fd_start :: nat
  fd_end :: nat
  fd_line :: nat
  fd_detail :: str

type_synonym pattern = "str \<Rightarrow> (str \<times> str) option"

record paste_patterns =
  pp_alphanumeric :: "uchar \<Rightarrow> bool"
  pp_pipe_to_shell :: "pattern list"
  pp_decode_to_shell :: "pattern list"
  pp_profile_write :: pattern
  pp_sudo_pipe :: "pattern list"
  pp_destructive :: "pattern list"

definition worth_a_look :: "finding list \<Rightarrow> bool" where
  "worth_a_look fs = list_ex (\<lambda>f. fd_severity f \<noteq> Info) fs"

text \<open>\<open>&text[..n]\<close> where it is a character boundary, and the length in UTF-16.\<close>

fun prefix_at :: "nat \<Rightarrow> str \<Rightarrow> str option" where
  "prefix_at 0 s = Some []"
| "prefix_at (Suc n) [] = None"
| "prefix_at (Suc n) (c # s) = (if Suc n < utf8_len c then None else map_option ((#) c) (prefix_at (Suc n - utf8_len c) s))"

definition utf16_len :: "str \<Rightarrow> nat" where
  "utf16_len s = sum_list (map (\<lambda>c. if c < 65536 then 1 else 2) s)"

definition utf16_offset :: "str \<Rightarrow> nat \<Rightarrow> nat" where
  "utf16_offset s n = (case prefix_at (min n (byte_len s)) s of Some p \<Rightarrow> utf16_len p | None \<Rightarrow> 0)"

definition utf16_range :: "str \<Rightarrow> nat \<Rightarrow> nat \<Rightarrow> nat \<times> nat" where
  "utf16_range s start stop = (utf16_offset s start, utf16_offset s stop)"

subsection \<open>Characters\<close>

definition invisible :: "uchar \<Rightarrow> bool" where
  "invisible c \<longleftrightarrow>
     0x200B \<le> c \<and> c \<le> 0x200D \<or> 0x2060 \<le> c \<and> c \<le> 0x2064 \<or> 0xE0000 \<le> c \<and> c \<le> 0xE007F \<or>
     c \<in> {0xFEFF, 0x00AD, 0x180E, 0x034F, 0x115F, 0x1160, 0x3164, 0xFFA0}"

definition bidi :: "uchar \<Rightarrow> bool" where
  "bidi c \<longleftrightarrow> 0x202A \<le> c \<and> c \<le> 0x202E \<or> 0x2066 \<le> c \<and> c \<le> 0x2069 \<or> c \<in> {0x200E, 0x200F, 0x061C}"

definition fullwidth :: "uchar \<Rightarrow> bool" where
  "fullwidth c \<longleftrightarrow> 0xFF01 \<le> c \<and> c \<le> 0xFF5E"

definition lookalike_script :: "uchar \<Rightarrow> bool" where
  "lookalike_script c \<longleftrightarrow>
     0x0370 \<le> c \<and> c \<le> 0x03FF \<or> 0x0400 \<le> c \<and> c \<le> 0x052F \<or> 0x0530 \<le> c \<and> c \<le> 0x058F \<or>
     0x13A0 \<le> c \<and> c \<le> 0x13FF \<or> fullwidth c"

fun hex_upper :: "nat \<Rightarrow> nat \<Rightarrow> str" where
  "hex_upper width n =
     (let digit = (\<lambda>d. if d < 10 then 48 + d else 55 + d)
      in if n < 16 then replicate (width - 1) 48 @ [digit n]
         else hex_upper (width - 1) (n div 16) @ [digit (n mod 16)])"

declare hex_upper.simps [simp del]

definition code :: "uchar \<Rightarrow> str" where
  "code c = lit ''U+'' @ hex_upper 4 c"

definition newlines :: "str \<Rightarrow> nat" where
  "newlines s = length (filter (\<lambda>c. c = 10) s)"

text \<open>What a character is found to be, with the text behind it.\<close>

definition char_found :: "uchar \<Rightarrow> str \<Rightarrow> (paste_kind \<times> severity) option" where
  "char_found c s =
     (if c = 13 then (if s = [] \<or> hd s = 10 then None else Some (Overwrite, Warning))
      else if c = 27 then Some (PControl, Danger)
      else if is_control c \<and> c \<noteq> 10 \<and> c \<noteq> 9 \<or> c = 127 then Some (PControl, Warning)
      else if bidi c then Some (Bidi, Danger)
      else if invisible c then Some (Invisible, Warning)
      else None)"

definition char_finding :: "str \<Rightarrow> uchar \<Rightarrow> paste_kind \<times> severity \<Rightarrow> finding" where
  "char_finding before c ks =
     \<lparr>fd_kind = fst ks, fd_severity = snd ks, fd_start = byte_len before, fd_end = byte_len before + utf8_len c,
      fd_line = newlines before + 1, fd_detail = code c\<rparr>"

fun characters_from :: "str \<Rightarrow> str \<Rightarrow> finding list" where
  "characters_from before [] = []"
| "characters_from before (c # s) =
     (case char_found c s of Some ks \<Rightarrow> [char_finding before c ks] | None \<Rightarrow> []) @ characters_from (before @ [c]) s"

definition characters :: "str \<Rightarrow> finding list" where
  "characters s = characters_from [] s"

subsection \<open>Words\<close>

definition is_ascii_letter :: "uchar \<Rightarrow> bool" where
  "is_ascii_letter c \<longleftrightarrow> 65 \<le> c \<and> c \<le> 90 \<or> 97 \<le> c \<and> c \<le> 122"

definition flush_word :: "str \<Rightarrow> str \<Rightarrow> finding list" where
  "flush_word before word =
     (let odd = filter lookalike_script word
      in if list_ex fullwidth odd \<or> list_ex is_ascii_letter word \<and> odd \<noteq> []
         then [\<lparr>fd_kind = Homoglyph, fd_severity = Warning, fd_start = byte_len before,
                fd_end = byte_len before + byte_len word, fd_line = newlines before + 1,
                fd_detail = join_with (lit '', '') (map (\<lambda>c. c # 32 # code c) odd)\<rparr>]
         else [])"

definition word_part :: "(uchar \<Rightarrow> bool) \<Rightarrow> uchar \<Rightarrow> bool" where
  "word_part alphanumeric c \<longleftrightarrow> alphanumeric c \<or> c \<in> {45, 95, 46, 47, 126}"

fun homoglyphs_from :: "(uchar \<Rightarrow> bool) \<Rightarrow> str \<Rightarrow> str \<Rightarrow> str \<Rightarrow> finding list" where
  "homoglyphs_from alphanumeric before word [] = (if word = [] then [] else flush_word before word)"
| "homoglyphs_from alphanumeric before word (c # s) =
     (if word_part alphanumeric c then homoglyphs_from alphanumeric before (word @ [c]) s
      else (if word = [] then [] else flush_word before word) @
           homoglyphs_from alphanumeric (before @ word @ [c]) [] s)"

definition homoglyphs :: "(uchar \<Rightarrow> bool) \<Rightarrow> str \<Rightarrow> finding list" where
  "homoglyphs alphanumeric s = homoglyphs_from alphanumeric [] [] s"

subsection \<open>Commands and lines\<close>

definition pattern_finding :: "nat \<Rightarrow> nat \<Rightarrow> str \<Rightarrow> paste_kind \<Rightarrow> severity \<Rightarrow> pattern \<Rightarrow> finding list" where
  "pattern_finding offset number line kind sev pattern =
     (case pattern line of
        None \<Rightarrow> []
      | Some (before, found) \<Rightarrow>
          [\<lparr>fd_kind = kind, fd_severity = sev, fd_start = offset + byte_len before,
            fd_end = offset + byte_len before + byte_len found, fd_line = number, fd_detail = trim found\<rparr>])"

definition line_findings :: "paste_patterns \<Rightarrow> nat \<Rightarrow> nat \<Rightarrow> str \<Rightarrow> finding list" where
  "line_findings pp offset number line =
     (if starts_with (dropWhile is_whitespace line) (lit ''#'') then []
      else concat (map (pattern_finding offset number line PipeToShell Danger) (pp_pipe_to_shell pp)) @
           concat (map (pattern_finding offset number line DecodeToShell Danger) (pp_decode_to_shell pp)) @
           pattern_finding offset number line ProfileWrite Warning (pp_profile_write pp) @
           concat (map (pattern_finding offset number line SudoPipe Warning) (pp_sudo_pipe pp)) @
           concat (map (pattern_finding offset number line Destructive Danger) (pp_destructive pp)))"

fun commands_from :: "paste_patterns \<Rightarrow> nat \<Rightarrow> nat \<Rightarrow> str list \<Rightarrow> finding list" where
  "commands_from pp offset number [] = []"
| "commands_from pp offset number (line # lines) =
     line_findings pp offset number line @ commands_from pp (offset + byte_len line + 1) (Suc number) lines"

definition commands :: "paste_patterns \<Rightarrow> str \<Rightarrow> finding list" where
  "commands pp s = commands_from pp 0 1 (split_on 10 s)"

definition line_count :: "str \<Rightarrow> nat" where
  "line_count s = max (length (str_lines (rev (dropWhile (\<lambda>c. c \<in> {13, 10}) (rev s))))) 1"

definition paste_lines :: "str \<Rightarrow> bool \<Rightarrow> finding list" where
  "paste_lines s bracketed =
     (if newlines s = 0 then []
      else if bracketed \<and> line_count s < 2 then []
      else [\<lparr>fd_kind = (if bracketed then Multiline else RunsAtOnce), fd_severity = (if bracketed then Info else Warning),
             fd_start = 0, fd_end = byte_len s, fd_line = 1, fd_detail = decimal (line_count s)\<rparr>])"

definition finding_before :: "finding \<Rightarrow> finding \<Rightarrow> bool" where
  "finding_before a b \<longleftrightarrow> fd_start a < fd_start b \<or> fd_start a = fd_start b \<and> fd_end a \<le> fd_end b"

text \<open>\<open>sort_by_key\<close> with the key \<open>(start, end)\<close>, which is stable.\<close>

fun insert_finding :: "finding \<Rightarrow> finding list \<Rightarrow> finding list" where
  "insert_finding f [] = [f]"
| "insert_finding f (g # gs) = (if finding_before f g then f # g # gs else g # insert_finding f gs)"

definition sort_findings :: "finding list \<Rightarrow> finding list" where
  "sort_findings fs = foldr insert_finding fs []"

definition analyze :: "paste_patterns \<Rightarrow> str \<Rightarrow> bool \<Rightarrow> finding list" where
  "analyze pp s bracketed =
     sort_findings (characters s @ homoglyphs (pp_alphanumeric pp) s @ commands pp s @ paste_lines s bracketed)"

subsection \<open>Nothing hidden is missed\<close>

lemma set_insert_finding [simp]: "set (insert_finding f fs) = insert f (set fs)"
  by (induction fs) auto

lemma set_sort_findings [simp]: "set (sort_findings fs) = set fs"
  by (induction fs) (simp_all add: sort_findings_def)

lemma characters_from_found:
  "char_found c b = Some ks \<Longrightarrow> char_finding (before @ a) c ks \<in> set (characters_from before (a @ c # b))"
proof (induction a arbitrary: before)
  case (Cons x a)
  show ?case using Cons(1) [OF Cons(2), of "before @ [x]"] by simp
qed simp

lemma characters_from_only:
  "f \<in> set (characters_from before s) \<Longrightarrow>
   \<exists>a c b ks. s = a @ c # b \<and> char_found c b = Some ks \<and> f = char_finding (before @ a) c ks"
proof (induction s arbitrary: before)
  case (Cons x s)
  show ?case
  proof (cases "f \<in> set (characters_from (before @ [x]) s)")
    case True
    then obtain a c b ks where "s = a @ c # b" "char_found c b = Some ks" "f = char_finding ((before @ [x]) @ a) c ks"
      using Cons.IH by blast
    then show ?thesis by (intro exI [of _ "x # a"] exI [of _ c] exI [of _ b] exI [of _ ks]) simp
  next
    case False
    then obtain ks where "char_found x s = Some ks" "f = char_finding before x ks"
      using Cons.prems by (cases "char_found x s") auto
    then show ?thesis by (intro exI [of _ "[]"] exI [of _ x] exI [of _ s] exI [of _ ks]) simp
  qed
qed simp

lemma set_characters_from:
  "f \<in> set (characters_from before s) \<longleftrightarrow>
   (\<exists>a c b ks. s = a @ c # b \<and> char_found c b = Some ks \<and> f = char_finding (before @ a) c ks)"
  using characters_from_found characters_from_only by blast

definition hidden_kind :: "paste_kind \<Rightarrow> bool" where
  "hidden_kind k \<longleftrightarrow> k \<in> {PControl, Invisible, Bidi, Overwrite}"

lemma char_found_kind: "char_found c s = Some ks \<Longrightarrow> hidden_kind (fst ks) \<and> snd ks \<noteq> Info"
  by (auto simp: char_found_def hidden_kind_def split: if_splits)

lemma characters_kind: "f \<in> set (characters_from before s) \<Longrightarrow> hidden_kind (fd_kind f) \<and> fd_severity f \<noteq> Info"
  using char_found_kind by (auto simp: char_finding_def dest!: characters_from_only)

lemma homoglyphs_kind: "f \<in> set (homoglyphs_from alphanumeric before word s) \<Longrightarrow> fd_kind f = Homoglyph"
  by (induction alphanumeric before word s rule: homoglyphs_from.induct)
    (auto simp: flush_word_def Let_def split: if_splits)

lemma commands_kind: "f \<in> set (commands_from pp offset number lines) \<Longrightarrow> \<not> hidden_kind (fd_kind f)"
  by (induction pp offset number lines rule: commands_from.induct)
    (auto simp: line_findings_def pattern_finding_def hidden_kind_def split: if_splits option.splits)

lemma lines_kind: "f \<in> set (paste_lines s bracketed) \<Longrightarrow> \<not> hidden_kind (fd_kind f)"
  by (auto simp: paste_lines_def hidden_kind_def split: if_splits)

lemma sanitise_plain: "list_all (\<lambda>c. c \<noteq> 10 \<and> (c = 9 \<or> c = 13 \<or> \<not> is_control c)) s \<Longrightarrow> sanitise b s = s"
  by (induction b s rule: sanitise.induct) auto

lemma newlines_count: "newlines s = count_list s 10"
  by (induction s) (auto simp: newlines_def)

text \<open>What the code's tests of a character mean, in code points.\<close>

lemma char_points:
  "is_control c \<longleftrightarrow> c \<in> {0..31} \<union> {127..159}"
  "bidi c \<longleftrightarrow> c \<in> {0x061C, 0x200E, 0x200F} \<union> {0x202A..0x202E} \<union> {0x2066..0x2069}"
  "invisible c \<longleftrightarrow> c \<in> {0x00AD, 0x034F, 0x115F, 0x1160, 0x180E, 0x3164, 0xFEFF, 0xFFA0} \<union>
     {0x200B..0x200D} \<union> {0x2060..0x2064} \<union> {0xE0000..0xE007F}"
  by (auto simp: is_control_def bidi_def invisible_def)

lemma char_found_points:
  "char_found c b = Some (k, sev) \<longleftrightarrow>
     k = Overwrite \<and> sev = Warning \<and> c = 13 \<and> (\<exists>d e. b = d # e \<and> d \<noteq> 10) \<or>
     k = PControl \<and> sev = Danger \<and> c = 27 \<or>
     k = PControl \<and> sev = Warning \<and> c \<in> {0..8} \<union> {11, 12} \<union> {14..26} \<union> {28..31} \<union> {127..159} \<or>
     k = Bidi \<and> sev = Danger \<and> c \<in> {0x061C, 0x200E, 0x200F} \<union> {0x202A..0x202E} \<union> {0x2066..0x2069} \<or>
     k = Invisible \<and> sev = Warning \<and>
       c \<in> {0x00AD, 0x034F, 0x115F, 0x1160, 0x180E, 0x3164, 0xFEFF, 0xFFA0} \<union>
           {0x200B..0x200D} \<union> {0x2060..0x2064} \<union> {0xE0000..0xE007F}"
proof -
  have control: "c \<in> {0..8} \<union> {11, 12} \<union> {14..26} \<union> {28..31} \<union> {127..159} \<longleftrightarrow> is_control c \<and> c \<notin> {9, 10, 13, 27}"
    by (auto simp: is_control_def)
  have apart: "invisible c \<Longrightarrow> \<not> bidi c" "is_control c \<Longrightarrow> \<not> bidi c" "is_control c \<Longrightarrow> \<not> invisible c"
    "is_control 13" "is_control 27" "is_control 127"
    by (auto simp: is_control_def bidi_def invisible_def)
  show ?thesis
    unfolding control char_points(2,3) [symmetric]
    using apart by (cases b; cases "c = 13"; cases "c = 27"; cases "is_control c"; cases "bidi c") (auto simp: char_found_def)
qed

text \<open>
  C35: the analyzer reports every hidden character of a pasted text and nothing else under these
  names: an escape (danger), any other control character but tab, line feed and carriage return
  (warning), a bidirectional control (danger), an invisible character (warning), and a carriage
  return that is followed by anything but a line feed (warning). The code points are those listed;
  the finding has the bytes of the character, its line and its number.
\<close>

theorem hidden_characters_are_found:
  "f \<in> set (analyze pp s bracketed) \<and> fd_kind f \<in> {PControl, Invisible, Bidi, Overwrite} \<longleftrightarrow>
   (\<exists>a c b. s = a @ [c] @ b \<and> fd_start f = length (utf8 a) \<and> fd_end f = length (utf8 (a @ [c])) \<and>
      fd_line f = Suc (count_list a 10) \<and> fd_detail f = lit ''U+'' @ hex_upper 4 c \<and>
      (fd_kind f = Overwrite \<and> fd_severity f = Warning \<and> c = 13 \<and> (\<exists>d e. b = d # e \<and> d \<noteq> 10) \<or>
       fd_kind f = PControl \<and> fd_severity f = Danger \<and> c = 27 \<or>
       fd_kind f = PControl \<and> fd_severity f = Warning \<and>
         c \<in> {0..8} \<union> {11, 12} \<union> {14..26} \<union> {28..31} \<union> {127..159} \<or>
       fd_kind f = Bidi \<and> fd_severity f = Danger \<and>
         c \<in> {0x061C, 0x200E, 0x200F} \<union> {0x202A..0x202E} \<union> {0x2066..0x2069} \<or>
       fd_kind f = Invisible \<and> fd_severity f = Warning \<and>
         c \<in> {0x00AD, 0x034F, 0x115F, 0x1160, 0x180E, 0x3164, 0xFEFF, 0xFFA0} \<union>
             {0x200B..0x200D} \<union> {0x2060..0x2064} \<union> {0xE0000..0xE007F}))"
proof -
  have "f \<in> set (analyze pp s bracketed) \<longleftrightarrow> f \<in> set (characters s) \<or>
      f \<in> set (homoglyphs (pp_alphanumeric pp) s) \<or> f \<in> set (commands pp s) \<or> f \<in> set (paste_lines s bracketed)"
    by (simp add: analyze_def)
  moreover have "f \<in> set (homoglyphs (pp_alphanumeric pp) s) \<Longrightarrow> \<not> hidden_kind (fd_kind f)"
    using homoglyphs_kind by (force simp: homoglyphs_def hidden_kind_def)
  moreover have "f \<in> set (commands pp s) \<Longrightarrow> \<not> hidden_kind (fd_kind f)"
    unfolding commands_def by (rule commands_kind)
  moreover have "f \<in> set (characters s) \<Longrightarrow> hidden_kind (fd_kind f)"
    unfolding characters_def by (simp add: characters_kind)
  ultimately have all: "f \<in> set (analyze pp s bracketed) \<and> hidden_kind (fd_kind f) \<longleftrightarrow> f \<in> set (characters s)"
    using lines_kind by blast
  have place: "f = char_finding a c (fd_kind f, fd_severity f) \<longleftrightarrow>
      fd_start f = length (utf8 a) \<and> fd_end f = length (utf8 (a @ [c])) \<and> fd_line f = Suc (count_list a 10) \<and>
      fd_detail f = lit ''U+'' @ hex_upper 4 c" for a c
    by (cases f) (auto simp: char_finding_def code_def length_utf8 length_utf8_char newlines_count)
  have "f \<in> set (characters s) \<longleftrightarrow> (\<exists>a c b. s = a @ [c] @ b \<and>
      char_found c b = Some (fd_kind f, fd_severity f) \<and> f = char_finding a c (fd_kind f, fd_severity f))"
    (is "_ \<longleftrightarrow> ?there")
  proof
    assume "f \<in> set (characters s)"
    then obtain a c b ks where "s = a @ c # b" "char_found c b = Some ks" "f = char_finding a c ks"
      unfolding characters_def set_characters_from by auto
    then show ?there by (intro exI [of _ a] exI [of _ c] exI [of _ b]) (simp add: char_finding_def)
  next
    assume ?there
    then show "f \<in> set (characters s)" unfolding characters_def set_characters_from by fastforce
  qed
  then show ?thesis
    using all unfolding hidden_kind_def place char_found_points by (simp only: conj_ac)
qed

definition no_patterns :: paste_patterns where
  "no_patterns =
     \<lparr>pp_alphanumeric = is_ascii_letter, pp_pipe_to_shell = [], pp_decode_to_shell = [], pp_profile_write = (\<lambda>_. None),
      pp_sudo_pipe = [], pp_destructive = []\<rparr>"

text \<open>A right-to-left override on the second line.\<close>

lemma hidden_characters_are_found_witness:
  "\<lparr>fd_kind = Bidi, fd_severity = Danger, fd_start = 3, fd_end = 6, fd_line = 2, fd_detail = lit ''U+202E''\<rparr>
     \<in> set (analyze no_patterns [97, 10, 98, 0x202E, 99] True)"
proof -
  let ?f = "\<lparr>fd_kind = Bidi, fd_severity = Danger, fd_start = 3, fd_end = 6, fd_line = 2, fd_detail = lit ''U+202E''\<rparr>"
  have "lit ''U+202E'' = lit ''U+'' @ hex_upper 4 0x202E"
    by (simp add: lit_def of_char_def hex_upper.simps Let_def)
  moreover have "[97, 10, 98, 0x202E, 99] = [97, 10, 98] @ [0x202E :: uchar] @ [99]" by simp
  moreover have "length (utf8 [97, 10, 98]) = 3" "length (utf8 ([97, 10, 98] @ [0x202E])) = 6"
    by (simp_all only: length_utf8) (simp_all add: byte_len_def utf8_len_def)
  moreover have "count_list [97, 10, 98] (10 :: uchar) = 1" by simp
  moreover have "(0x202E :: uchar) \<in> {0x061C, 0x200E, 0x200F} \<union> {0x202A..0x202E} \<union> {0x2066..0x2069}" by simp
  ultimately have "?f \<in> set (analyze no_patterns [97, 10, 98, 0x202E, 99] True) \<and>
      fd_kind ?f \<in> {PControl, Invisible, Bidi, Overwrite}"
    unfolding hidden_characters_are_found by (intro exI [of _ "[97, 10, 98]"] exI [of _ "0x202E"] exI [of _ "[99]"]) simp
  then show ?thesis ..
qed

text \<open>
  C36: a paste that is not stopped is what it looks like. When nothing in it is worth a look, it has
  no control character but tabs and line ends, no invisible or bidirectional character, and no
  carriage return inside a line. Without bracketed paste it is then one line, sent as it is:
  Enter is in what is sent at most once, as its last byte, and this exactly when the text ends in a
  carriage return (which the analyzer lets through).
\<close>

theorem unflagged_paste_is_plain:
  assumes "\<not> worth_a_look (analyze pp s (is_bracketed modes))"
  shows "list_all (\<lambda>c. c \<notin> {0..8} \<union> {11, 12} \<union> {14..31} \<union> {127..159} \<and>
        c \<notin> {0x061C, 0x200E, 0x200F} \<union> {0x202A..0x202E} \<union> {0x2066..0x2069} \<and>
        c \<notin> {0x00AD, 0x034F, 0x115F, 0x1160, 0x180E, 0x3164, 0xFEFF, 0xFFA0} \<union>
            {0x200B..0x200D} \<union> {0x2060..0x2064} \<union> {0xE0000..0xE007F}) s \<and>
    (\<forall>a b. s = a @ [13] @ b \<longrightarrow> b = [] \<or> hd b = 10) \<and>
    (is_bracketed modes \<or>
     (\<exists>line. (s = line \<or> s = line @ [13]) \<and> 10 \<notin> set line \<and> 13 \<notin> set line \<and> encode_paste s modes = utf8 s))"
proof -
  have none: "char_found c b = None" if "s = a @ c # b" for a c b
  proof (rule ccontr)
    assume "char_found c b \<noteq> None"
    then obtain ks where ks: "char_found c b = Some ks" by auto
    then have f: "char_finding a c ks \<in> set (characters s)"
      using characters_from_found [of c b ks "[]" a] that by (simp add: characters_def)
    then have "fd_severity (char_finding a c ks) \<noteq> Info" using characters_kind by (auto simp: characters_def)
    then show False using assms f by (auto simp: worth_a_look_def analyze_def list_ex_iff)
  qed
  have plain: "(is_control c \<longrightarrow> c \<in> {9, 10, 13}) \<and> \<not> bidi c \<and> \<not> invisible c" if "c \<in> set s" for c
  proof -
    from split_list [OF that] obtain a b where "s = a @ c # b" by blast
    from none [OF this] show ?thesis
      by (auto simp: char_found_def bidi_def invisible_def is_control_def split: if_splits)
  qed
  have first: "list_all (\<lambda>c. c \<notin> {0..8} \<union> {11, 12} \<union> {14..31} \<union> {127..159} \<and>
        c \<notin> {0x061C, 0x200E, 0x200F} \<union> {0x202A..0x202E} \<union> {0x2066..0x2069} \<and>
        c \<notin> {0x00AD, 0x034F, 0x115F, 0x1160, 0x180E, 0x3164, 0xFEFF, 0xFFA0} \<union>
            {0x200B..0x200D} \<union> {0x2060..0x2064} \<union> {0xE0000..0xE007F}) s"
    unfolding list_all_iff
  proof
    fix c :: uchar assume "c \<in> set s"
    then have "c \<notin> {0..8} \<union> {11, 12} \<union> {14..31} \<union> {127..159}" using plain [of c] by (auto simp: is_control_def)
    then show "c \<notin> {0..8} \<union> {11, 12} \<union> {14..31} \<union> {127..159} \<and>
        c \<notin> {0x061C, 0x200E, 0x200F} \<union> {0x202A..0x202E} \<union> {0x2066..0x2069} \<and>
        c \<notin> {0x00AD, 0x034F, 0x115F, 0x1160, 0x180E, 0x3164, 0xFEFF, 0xFFA0} \<union>
            {0x200B..0x200D} \<union> {0x2060..0x2064} \<union> {0xE0000..0xE007F}"
      unfolding char_points(2,3) [symmetric] using plain [OF \<open>c \<in> set s\<close>] by blast
  qed
  have return: "b = [] \<or> hd b = 10" if "s = a @ [13] @ b" for a b
    using none [of a 13 b] that by (auto simp: char_found_def split: if_splits)
  have "\<exists>line. (s = line \<or> s = line @ [13]) \<and> 10 \<notin> set line \<and> 13 \<notin> set line \<and> encode_paste s modes = utf8 s"
    if "\<not> is_bracketed modes"
  proof -
    have lf: "10 \<notin> set s"
    proof
      assume "10 \<in> set s"
      then have "\<exists>f \<in> set (paste_lines s (is_bracketed modes)). fd_severity f \<noteq> Info"
        using that by (auto simp: paste_lines_def newlines_def filter_empty_conv)
      then show False using assms by (auto simp: worth_a_look_def analyze_def list_ex_iff)
    qed
    have "sanitise False s = s"
      using lf plain by (intro sanitise_plain) (auto simp: list_all_iff)
    then have sent: "encode_paste s modes = utf8 s"
      using that by (auto simp: paste_is_sanitised is_bracketed_def Let_def)
    show ?thesis
    proof (cases "13 \<in> set s")
      case True
      then obtain a b where s: "s = a @ 13 # b" "13 \<notin> set a" by (meson split_list_first)
      then have "b = []" using return [of a b] lf by (cases b) auto
      then show ?thesis using s lf sent by auto
    qed (use lf sent in auto)
  qed
  with first return show ?thesis by blast
qed

text \<open>The last case: an unbracketed text that ends in a carriage return runs at once, and is not flagged.\<close>

definition typed_modes :: input_modes where
  "typed_modes = sample_modes\<lparr>im_term := (im_term sample_modes)\<lparr>tm_bracketed_paste := False\<rparr>\<rparr>"

lemma return_passes_review: "\<not> worth_a_look (analyze no_patterns [108, 115, 13] False)"
  by (simp add: worth_a_look_def analyze_def characters_def homoglyphs_def commands_def paste_lines_def newlines_def
      no_patterns_def char_found_def is_control_def bidi_def invisible_def word_part_def is_ascii_letter_def
      flush_word_def lookalike_script_def fullwidth_def line_findings_def pattern_finding_def starts_with_def lit_def
      of_char_def is_whitespace_def sort_findings_def)

lemma return_is_sent: "encode_paste [108, 115, 13] typed_modes = [108, 115, 13]"
  by (simp add: paste_is_sanitised typed_modes_def sample_modes_def is_control_def utf8_char_def)

lemma unflagged_paste_is_plain_witness:
  "\<exists>line. [108, 115, 13] = line @ [13] \<and> 13 \<notin> set line \<and> encode_paste [108, 115, 13] typed_modes = utf8 (line @ [13])"
proof -
  have modes: "is_bracketed typed_modes = False"
    by (simp add: is_bracketed_def typed_modes_def sample_modes_def)
  from unflagged_paste_is_plain [of no_patterns "[108, 115, 13]" typed_modes] return_passes_review
  obtain line :: str where "[108, 115, 13] = line \<or> [108, 115, 13] = line @ [13]" "13 \<notin> set line"
    "encode_paste [108, 115, 13] typed_modes = utf8 [108, 115, 13]"
    unfolding modes by blast
  then show ?thesis by (intro exI [of _ line]) auto
qed

subsection \<open>Positions for the editor\<close>

lemma prefix_at_byte_len: "prefix_at (byte_len a) (a @ b) = Some a"
proof (induction a)
  case (Cons c a)
  obtain n where n: "byte_len (c # a) = Suc n" by (cases "byte_len (c # a)") (auto simp: byte_len_def utf8_len_def split: if_splits)
  then have "\<not> Suc n < utf8_len c" "Suc n - utf8_len c = byte_len a" by (auto simp: byte_len_def)
  then show ?case using Cons by (simp add: n)
qed (simp add: byte_len_def)

lemma utf16_offset_byte_len: "utf16_offset (a @ b) (byte_len a) = utf16_len a"
  using prefix_at_byte_len [of a b] by (simp add: utf16_offset_def byte_len_def min_def)

text \<open>The bytes of a character are the same character in UTF-16.\<close>

lemma utf16_range_of_character:
  "utf16_range (a @ c # b) (byte_len a) (byte_len a + utf8_len c) = (utf16_len a, utf16_len (a @ [c]))"
  using utf16_offset_byte_len [of a "c # b"] utf16_offset_byte_len [of "a @ [c]" b]
  by (simp add: utf16_range_def byte_len_def)

end
