(* ===== verification/Host_Search.thy ===== *)
theory Host_Search
  imports Hosts_Laws Recent "HOL-Library.Multiset"
begin

text \<open>
  The search of the host list (\<open>crates/opensesh-core/src/hosts/search.rs\<close>): which hosts are listed, in
  which order, and the order of names in which numbers count as numbers. The fuzzy matcher is the
  nucleo crate's: a function from a pattern and a line to a score. \<open>str::to_lowercase\<close> and
  \<open>char::to_lowercase\<close> are parameters; of the latter the order of names relies on what Unicode says of
  digits (\<open>lower_ok\<close>).
\<close>

datatype ordering = Less | EqualTo | Greater

fun reversed :: "ordering \<Rightarrow> ordering" where
  "reversed Less = Greater"
| "reversed EqualTo = EqualTo"
| "reversed Greater = Less"

definition compare_of :: "'a::linorder \<Rightarrow> 'a \<Rightarrow> ordering" where
  "compare_of a b = (if a < b then Less else if a = b then EqualTo else Greater)"

definition cmp_then :: "ordering \<Rightarrow> ordering \<Rightarrow> ordering" where
  "cmp_then a b = (if a = EqualTo then b else a)"

subsection \<open>The order of names\<close>

definition digits_cmp :: "str \<Rightarrow> str \<Rightarrow> ordering" where
  "digits_cmp x y =
     (let x_trim = dropWhile (\<lambda>c. c = 48) x; y_trim = dropWhile (\<lambda>c. c = 48) y
      in cmp_then (cmp_then (compare_of (length x_trim) (length y_trim)) (compare_of x_trim y_trim))
           (compare_of (length x) (length y)))"

text \<open>The loop, with what is left of both texts.\<close>

function natural_from :: "(uchar \<Rightarrow> str) \<Rightarrow> str \<Rightarrow> str \<Rightarrow> ordering" where
  "natural_from lower [] [] = EqualTo"
| "natural_from lower [] (y # ys) = Less"
| "natural_from lower (x # xs) [] = Greater"
| "natural_from lower (x # xs) (y # ys) =
     (if is_digit x \<and> is_digit y then
        let order = digits_cmp (takeWhile is_digit (x # xs)) (takeWhile is_digit (y # ys))
        in if order \<noteq> EqualTo then order
           else natural_from lower (dropWhile is_digit (x # xs)) (dropWhile is_digit (y # ys))
      else
        let order = compare_of (lower x) (lower y)
        in if order \<noteq> EqualTo then order else natural_from lower xs ys)"
  by pat_completeness auto

termination
  by (relation "measure (\<lambda>(lower, xs, ys). length xs)") (auto simp: le_imp_less_Suc length_dropWhile_le)

definition natural_cmp :: "(uchar \<Rightarrow> str) \<Rightarrow> str \<Rightarrow> str \<Rightarrow> ordering" where
  "natural_cmp lower a b = cmp_then (natural_from lower a b) (compare_of a b)"

subsection \<open>The search\<close>

datatype scope = ScopeAll | ScopeFavorites | ScopeRecent | ScopeGroup str | ScopeUngrouped | ScopeLinked

datatype sorting = SortName | SortAddress | SortLastUsed | SortGroup

definition sorting_parse :: "str \<Rightarrow> sorting" where
  "sorting_parse s =
     (if s = lit ''address'' then SortAddress else if s = lit ''recent'' then SortLastUsed
      else if s = lit ''group'' then SortGroup else SortName)"

record host_query =
  hq_text :: str
  hq_scope :: scope
  hq_protocol :: "protocol option"
  hq_tag :: "str option"
  hq_sort :: sorting

text \<open>What the search takes from the standard library's tables and from nucleo.\<close>

record search_crates =
  sc_lower :: "uchar \<Rightarrow> str"
  sc_lowercase :: "str \<Rightarrow> str"
  sc_score :: "str \<Rightarrow> str \<Rightarrow> nat option"

definition EXACT_BONUS :: nat where "EXACT_BONUS = 100000"
definition SUBSTRING_BONUS :: nat where "SUBSTRING_BONUS = 10000"

text \<open>\<open>collect\<close> into a \<open>HashMap\<close>: of two entries with one key the later one stays.\<close>

definition hash_of :: "('k \<times> 'v) list \<Rightarrow> ('k \<rightharpoonup> 'v)" where
  "hash_of kvs = map_of (rev kvs)"

definition group_paths :: "group list \<Rightarrow> (str \<rightharpoonup> str)" where
  "group_paths gs = hash_of (map (\<lambda>g. (gr_id g, group_path gs (gr_id g))) gs)"

definition recent_rank :: "recent_entry list \<Rightarrow> (str \<rightharpoonup> nat)" where
  "recent_rank es =
     hash_of (map (\<lambda>(rank, e). (rc_host e, rank)) (filter (\<lambda>(rank, e). rc_host e \<noteq> []) (enumerate 0 es)))"

definition in_scope :: "search_crates \<Rightarrow> hosts_file \<Rightarrow> recent_entry list \<Rightarrow> host_query \<Rightarrow> host \<Rightarrow> bool" where
  "in_scope sc f recent q h \<longleftrightarrow>
     (case hq_scope q of
        ScopeAll \<Rightarrow> True
      | ScopeFavorites \<Rightarrow> ho_favorite h
      | ScopeRecent \<Rightarrow> recent_rank recent (ho_id h) \<noteq> None
      | ScopeGroup gid \<Rightarrow> (case ho_group h of Some g \<Rightarrow> g \<in> subtree (hf_groups f) gid | None \<Rightarrow> False)
      | ScopeUngrouped \<Rightarrow> ho_group h = None \<and> \<not> is_linked h
      | ScopeLinked \<Rightarrow> is_linked h) \<and>
     (case hq_protocol q of Some p \<Rightarrow> ho_protocol h = p | None \<Rightarrow> True) \<and>
     (case hq_tag q of
        Some tag \<Rightarrow> list_ex (\<lambda>own. sc_lowercase sc own = sc_lowercase sc tag) (ho_tags h)
      | None \<Rightarrow> True)"

text \<open>The path of a host's group, when its group is known.\<close>

definition path_of :: "hosts_file \<Rightarrow> host \<Rightarrow> str option" where
  "path_of f h = Option.bind (ho_group h) (group_paths (hf_groups f))"

definition opt_word :: "str option \<Rightarrow> str" where
  "opt_word w = (case w of Some w \<Rightarrow> 32 # w | None \<Rightarrow> [])"

definition search_line :: "hosts_file \<Rightarrow> host \<Rightarrow> str" where
  "search_line f h =
     ho_name h @ 32 # ho_address h @ opt_word (ho_user h) @ concat (map ((#) 32) (ho_tags h)) @ opt_word (path_of f h)"

definition host_score :: "search_crates \<Rightarrow> hosts_file \<Rightarrow> str \<Rightarrow> host \<Rightarrow> nat option" where
  "host_score sc f wanted h =
     (let line = search_line f h
      in case sc_score sc wanted line of
           None \<Rightarrow> None
         | Some score \<Rightarrow>
             let name_bonus = (case sc_score sc wanted (ho_name h) of Some n \<Rightarrow> n | None \<Rightarrow> 0);
                 exact = (if eq_ignore_ascii_case (ho_name h) wanted \<or> eq_ignore_ascii_case (ho_address h) wanted
                          then EXACT_BONUS
                          else if split_once (sc_lowercase sc line) (sc_lowercase sc wanted) \<noteq> None
                          then SUBSTRING_BONUS else 0)
             in Some ((score + name_bonus + exact) mod 2 ^ 32))"

text \<open>The hosts that match, with their indexes and scores.\<close>

fun found_from :: "search_crates \<Rightarrow> hosts_file \<Rightarrow> recent_entry list \<Rightarrow> host_query \<Rightarrow> nat \<Rightarrow> host list \<Rightarrow>
    (nat \<times> nat) list" where
  "found_from sc f recent q i [] = []"
| "found_from sc f recent q i (h # hs) =
     (if in_scope sc f recent q h then
        if trim (hq_text q) = [] then [(i, 0)]
        else (case host_score sc f (trim (hq_text q)) h of Some n \<Rightarrow> [(i, n)] | None \<Rightarrow> [])
      else []) @ found_from sc f recent q (Suc i) hs"

text \<open>\<open>sort_by\<close>, which is stable.\<close>

fun insert_by :: "('a \<Rightarrow> 'a \<Rightarrow> ordering) \<Rightarrow> 'a \<Rightarrow> 'a list \<Rightarrow> 'a list" where
  "insert_by cmp x [] = [x]"
| "insert_by cmp x (y # ys) = (if cmp x y \<noteq> Greater then x # y # ys else y # insert_by cmp x ys)"

definition sort_by :: "('a \<Rightarrow> 'a \<Rightarrow> ordering) \<Rightarrow> 'a list \<Rightarrow> 'a list" where
  "sort_by cmp xs = foldr (insert_by cmp) xs []"

definition rank_of :: "recent_entry list \<Rightarrow> host \<Rightarrow> nat" where
  "rank_of recent h = (case recent_rank recent (ho_id h) of Some n \<Rightarrow> n | None \<Rightarrow> 2 ^ 64 - 1)"

text \<open>The order of two hits: by score with a text, else as asked; then by name.\<close>

definition hit_cmp :: "search_crates \<Rightarrow> hosts_file \<Rightarrow> recent_entry list \<Rightarrow> host_query \<Rightarrow> nat \<times> nat \<Rightarrow> nat \<times> nat \<Rightarrow> ordering" where
  "hit_cmp sc f recent q a b =
     (let x = hf_hosts f ! fst a; y = hf_hosts f ! fst b;
          natural = natural_cmp (sc_lower sc);
          by_name = natural (ho_name x) (ho_name y);
          path = (\<lambda>h. case path_of f h of Some p \<Rightarrow> p | None \<Rightarrow> [])
      in if trim (hq_text q) \<noteq> [] then cmp_then (compare_of (snd b) (snd a)) by_name
         else if hq_scope q = ScopeRecent \<or> hq_sort q = SortLastUsed
         then cmp_then (compare_of (rank_of recent x) (rank_of recent y)) by_name
         else case hq_sort q of
                SortAddress \<Rightarrow> cmp_then (natural (ho_address x) (ho_address y)) by_name
              | SortGroup \<Rightarrow> cmp_then (natural (path x) (path y)) by_name
              | _ \<Rightarrow> by_name)"

definition search_hosts :: "search_crates \<Rightarrow> hosts_file \<Rightarrow> recent_entry list \<Rightarrow> host_query \<Rightarrow> nat list" where
  "search_hosts sc f recent q = map fst (sort_by (hit_cmp sc f recent q) (found_from sc f recent q 0 (hf_hosts f)))"

subsection \<open>Tags\<close>

text \<open>
  The counts by the tag in lower case, with the spelling met first. The code sorts what its hash
  table gives in any order; here it is the order of first use.
\<close>

fun count_tag :: "str \<Rightarrow> str \<Rightarrow> (str \<times> str \<times> nat) list \<Rightarrow> (str \<times> str \<times> nat) list" where
  "count_tag key tag [] = [(key, tag, 1)]"
| "count_tag key tag ((k, t, n) # counts) =
     (if k = key then (k, t, n + 1) # counts else (k, t, n) # count_tag key tag counts)"

definition tag_counts :: "search_crates \<Rightarrow> str list \<Rightarrow> (str \<times> str \<times> nat) list" where
  "tag_counts sc tags = foldl (\<lambda>counts tag. count_tag (sc_lowercase sc tag) tag counts) [] tags"

definition host_tags :: "search_crates \<Rightarrow> hosts_file \<Rightarrow> (str \<times> nat) list" where
  "host_tags sc f =
     sort_by (\<lambda>a b. natural_cmp (sc_lower sc) (fst a) (fst b))
       (map snd (tag_counts sc (concat (map ho_tags (hf_hosts f)))))"

subsection \<open>Names in order\<close>

definition lower_ok :: "(uchar \<Rightarrow> str) \<Rightarrow> bool" where
  "lower_ok lower \<longleftrightarrow> (\<forall>c. if is_digit c then lower c = [c] else lower c \<noteq> [] \<and> \<not> is_digit (hd (lower c)))"

text \<open>
  A reference definition of the order: a text is the list of its numbers and characters, and these
  are lists of numbers that the library compares. A number begins with the code of a digit.
\<close>

definition number_key :: "str \<Rightarrow> nat list" where
  "number_key ds = (let kept = dropWhile (\<lambda>c. c = 48) ds in 48 # length kept # kept @ [length ds])"

function natural_key :: "(uchar \<Rightarrow> str) \<Rightarrow> str \<Rightarrow> nat list list" where
  "natural_key lower [] = []"
| "natural_key lower (x # xs) =
     (if is_digit x then number_key (takeWhile is_digit (x # xs)) # natural_key lower (dropWhile is_digit (x # xs))
      else lower x # natural_key lower xs)"
  by pat_completeness auto

termination
  by (relation "measure (\<lambda>(lower, xs). length xs)") (auto simp: le_imp_less_Suc length_dropWhile_le)

lemma compare_of_cases:
  "compare_of a b = Less \<longleftrightarrow> a < b" "compare_of a b = EqualTo \<longleftrightarrow> a = b" "compare_of a b = Greater \<longleftrightarrow> b < a"
  by (auto simp: compare_of_def)

lemma compare_of_refl [simp]: "compare_of a a = EqualTo"
  by (simp add: compare_of_def)

lemma cmp_then_simps [simp]:
  "cmp_then EqualTo b = b" "cmp_then a EqualTo = a" "cmp_then Less b = Less" "cmp_then Greater b = Greater"
  "cmp_then a b = EqualTo \<longleftrightarrow> a = EqualTo \<and> b = EqualTo"
  by (auto simp: cmp_then_def)

lemma cmp_then_assoc: "cmp_then (cmp_then a b) c = cmp_then a (cmp_then b c)"
  by (simp add: cmp_then_def)

lemma compare_of_Cons: "compare_of (a # as) (b # bs) = cmp_then (compare_of a b) (compare_of as bs)"
  by (auto simp: compare_of_def cmp_then_def)

lemma compare_of_Nil [simp]:
  "compare_of [] [] = EqualTo" "compare_of [] (b # bs) = Less" "compare_of (a # as) [] = Greater"
  by (auto simp: compare_of_def)

lemma compare_of_append:
  "length as = length bs \<Longrightarrow> compare_of (as @ xs) (bs @ ys) = cmp_then (compare_of as bs) (compare_of xs ys)"
  by (induction as bs rule: list_induct2) (simp_all add: compare_of_Cons cmp_then_assoc)

lemma digits_cmp_key: "digits_cmp x y = compare_of (number_key x) (number_key y)"
proof -
  let ?x = "dropWhile (\<lambda>c. c = 48) x" and ?y = "dropWhile (\<lambda>c. c = 48) y"
  show ?thesis
  proof (cases "length ?x = length ?y")
    case True
    then show ?thesis
      by (simp add: digits_cmp_def number_key_def Let_def compare_of_Cons compare_of_append)
  next
    case False
    then have "compare_of (length ?x) (length ?y) \<noteq> EqualTo" by (simp add: compare_of_cases)
    then show ?thesis
      by (simp add: digits_cmp_def number_key_def Let_def compare_of_Cons) (simp add: cmp_then_def)
  qed
qed

text \<open>A digit and another character compare as the key of a number with that character's key does.\<close>

lemma mixed_key:
  assumes "lower_ok lower" "is_digit x" "\<not> is_digit y"
  shows "compare_of (number_key ds) (lower y) = compare_of (lower x) (lower y)"
    and "compare_of (lower y) (number_key ds) = compare_of (lower y) (lower x)"
    and "compare_of (lower x) (lower y) \<noteq> EqualTo" "compare_of (lower y) (lower x) \<noteq> EqualTo"
proof -
  have x: "lower x = [x]" and y: "lower y \<noteq> []" "\<not> is_digit (hd (lower y))"
    using assms unfolding lower_ok_def by presburger+
  then obtain c cs where c: "lower y = c # cs" "\<not> is_digit c" by (cases "lower y") auto
  then have "compare_of 48 c = compare_of x c" "compare_of c 48 = compare_of c x" "compare_of x c \<noteq> EqualTo"
      "compare_of c x \<noteq> EqualTo"
    using assms(2) by (auto simp: compare_of_def is_digit_def)
  then show "compare_of (number_key ds) (lower y) = compare_of (lower x) (lower y)"
    "compare_of (lower y) (number_key ds) = compare_of (lower y) (lower x)"
    "compare_of (lower x) (lower y) \<noteq> EqualTo" "compare_of (lower y) (lower x) \<noteq> EqualTo"
    by (simp_all add: x c number_key_def Let_def compare_of_Cons) (simp_all add: cmp_then_def)
qed

lemma natural_from_key:
  assumes "lower_ok lower"
  shows "natural_from lower a b = compare_of (natural_key lower a) (natural_key lower b)"
  using assms
proof (induction lower a b rule: natural_from.induct)
  case (2 lower y ys)
  then show ?case by (simp add: compare_of_Cons)
next
  case (3 lower x xs)
  then show ?case by (simp add: compare_of_Cons)
next
  case (4 lower x xs y ys)
  let ?dx = "takeWhile is_digit (x # xs)" and ?dy = "takeWhile is_digit (y # ys)"
  consider "is_digit x" "is_digit y" | "is_digit x" "\<not> is_digit y" | "\<not> is_digit x" "is_digit y"
    | "\<not> is_digit x" "\<not> is_digit y" by blast
  then show ?case
  proof cases
    case 1
    have "natural_from lower (x # xs) (y # ys) =
        cmp_then (digits_cmp ?dx ?dy) (natural_from lower (dropWhile is_digit (x # xs)) (dropWhile is_digit (y # ys)))"
      using 1 by (simp add: cmp_then_def Let_def)
    moreover have "digits_cmp ?dx ?dy = EqualTo \<Longrightarrow>
        natural_from lower (dropWhile is_digit (x # xs)) (dropWhile is_digit (y # ys)) =
        compare_of (natural_key lower (dropWhile is_digit (x # xs))) (natural_key lower (dropWhile is_digit (y # ys)))"
      using 4(1) [OF _ refl] 4(3) 1 by simp
    ultimately show ?thesis
      using 1 by (cases "digits_cmp ?dx ?dy = EqualTo") (simp_all add: compare_of_Cons digits_cmp_key, simp_all add: cmp_then_def)
  next
    case 2
    show ?thesis
      using mixed_key(1) [OF 4(3) 2, of ?dx] mixed_key(3) [OF 4(3) 2] 2 by (simp add: compare_of_Cons Let_def) (simp add: cmp_then_def)
  next
    case 3
    show ?thesis
      using mixed_key(2) [OF 4(3) 3(2,1), of ?dy] mixed_key(4) [OF 4(3) 3(2,1)] 3 by (simp add: compare_of_Cons Let_def) (simp add: cmp_then_def)
  next
    case c: 4
    then show ?thesis
      using 4(2) [OF _ refl] 4(3) by (simp add: compare_of_Cons Let_def) (simp add: cmp_then_def)
  qed
qed simp

lemma natural_cmp_key:
  "lower_ok lower \<Longrightarrow>
   natural_cmp lower a b = cmp_then (compare_of (natural_key lower a) (natural_key lower b)) (compare_of a b)"
  by (simp add: natural_cmp_def natural_from_key)

subsection \<open>Comparators\<close>

text \<open>What \<open>sort_by\<close> asks of a comparator, and how comparators are put together.\<close>

definition comparator :: "('a \<Rightarrow> 'a \<Rightarrow> ordering) \<Rightarrow> bool" where
  "comparator cmp \<longleftrightarrow> (\<forall>a b. cmp b a = reversed (cmp a b)) \<and>
     (\<forall>a b c. cmp a b \<noteq> Greater \<longrightarrow> cmp b c \<noteq> Greater \<longrightarrow> cmp a c \<noteq> Greater)"

lemma comparator_compare_of: "comparator (\<lambda>a b. compare_of (f a) (f b))"
  by (auto simp: comparator_def compare_of_def)

lemma comparator_reverse: "comparator cmp \<Longrightarrow> comparator (\<lambda>a b. cmp b a)"
  unfolding comparator_def by blast

lemma comparator_by: "comparator cmp \<Longrightarrow> comparator (\<lambda>a b. cmp (f a) (f b))"
  unfolding comparator_def by blast

lemma comparator_D:
  assumes "comparator cmp"
  shows "cmp b a = reversed (cmp a b)" "cmp a b \<noteq> Greater \<Longrightarrow> cmp b c \<noteq> Greater \<Longrightarrow> cmp a c \<noteq> Greater"
  using assms unfolding comparator_def by blast+

lemma reversed_simps [simp]:
  "reversed o' = EqualTo \<longleftrightarrow> o' = EqualTo" "reversed o' = Less \<longleftrightarrow> o' = Greater" "reversed o' = Greater \<longleftrightarrow> o' = Less"
  by (cases o'; simp)+

lemma ordering_between: "o' \<noteq> Greater \<Longrightarrow> o' \<noteq> Less \<Longrightarrow> o' = EqualTo"
  by (cases o') simp_all

lemma comparator_then:
  assumes "comparator f" "comparator g"
  shows "comparator (\<lambda>a b. cmp_then (f a b) (g a b))"
  unfolding comparator_def
proof (intro conjI allI impI)
  fix a b
  show "cmp_then (f b a) (g b a) = reversed (cmp_then (f a b) (g a b))"
    using comparator_D(1) [OF assms(1), of b a] comparator_D(1) [OF assms(2), of b a] by (simp add: cmp_then_def)
next
  fix a b c
  assume ab: "cmp_then (f a b) (g a b) \<noteq> Greater" and bc: "cmp_then (f b c) (g b c) \<noteq> Greater"
  have f: "f a b \<noteq> Greater" "f b c \<noteq> Greater" using ab bc by (auto simp: cmp_then_def split: if_splits)
  then have ac: "f a c \<noteq> Greater" by (rule comparator_D(2) [OF assms(1)])
  show "cmp_then (f a c) (g a c) \<noteq> Greater"
  proof (cases "f a c = EqualTo")
    case True
    then have "f c a \<noteq> Greater" using comparator_D(1) [OF assms(1), of c a] by simp
    then have "f c b \<noteq> Greater" "f b a \<noteq> Greater" using f comparator_D(2) [OF assms(1)] by blast+
    then have "f a b = EqualTo" "f b c = EqualTo"
      using f comparator_D(1) [OF assms(1), of b a] comparator_D(1) [OF assms(1), of c b]
      by (auto intro: ordering_between)
    then show ?thesis using True ab bc comparator_D(2) [OF assms(2)] by simp
  next
    case False
    then show ?thesis using ac by (simp add: cmp_then_def)
  qed
qed

lemma mset_insert_by [simp]: "mset (insert_by cmp x xs) = add_mset x (mset xs)"
  by (induction xs) auto

lemma mset_sort_by [simp]: "mset (sort_by cmp xs) = mset xs"
  by (induction xs) (simp_all add: sort_by_def)

lemma set_sort_by [simp]: "set (sort_by cmp xs) = set xs"
  using mset_eq_setD [OF mset_sort_by] .

lemma set_insert_by [simp]: "set (insert_by cmp x xs) = insert x (set xs)"
  by (induction xs) auto

lemma sorted_insert_by:
  assumes "comparator cmp" "sorted_wrt (\<lambda>a b. cmp a b \<noteq> Greater) xs"
  shows "sorted_wrt (\<lambda>a b. cmp a b \<noteq> Greater) (insert_by cmp x xs)"
  using assms(2)
proof (induction xs)
  case (Cons y ys)
  show ?case
  proof (cases "cmp x y \<noteq> Greater")
    case True
    then show ?thesis using Cons.prems comparator_D(2) [OF assms(1), of x y] by auto
  next
    case False
    then have "cmp y x \<noteq> Greater" using comparator_D(1) [OF assms(1), of y x] by simp
    then show ?thesis using False Cons by simp
  qed
qed simp

lemma sorted_sort_by: "comparator cmp \<Longrightarrow> sorted_wrt (\<lambda>a b. cmp a b \<noteq> Greater) (sort_by cmp xs)"
  by (induction xs) (simp_all add: sort_by_def sorted_insert_by)

lemma comparator_natural: "lower_ok lower \<Longrightarrow> comparator (natural_cmp lower)"
proof -
  assume ok: "lower_ok lower"
  have "comparator (\<lambda>a b. cmp_then (compare_of (natural_key lower a) (natural_key lower b)) (compare_of a b))"
    using comparator_then [OF comparator_compare_of comparator_compare_of [of "\<lambda>a. a"]] .
  then show ?thesis using natural_cmp_key [OF ok] by presburger
qed

lemma comparator_hits:
  assumes "lower_ok (sc_lower sc)"
  shows "comparator (hit_cmp sc f recent q)"
proof -
  have natural: "comparator (\<lambda>a b. natural_cmp (sc_lower sc) (k a) (k b))" for k :: "nat \<times> nat \<Rightarrow> str"
    by (rule comparator_by [OF comparator_natural [OF assms]])
  let ?name = "\<lambda>a b :: nat \<times> nat. natural_cmp (sc_lower sc) (ho_name (hf_hosts f ! fst a)) (ho_name (hf_hosts f ! fst b))"
  let ?rank = "\<lambda>a :: nat \<times> nat. rank_of recent (hf_hosts f ! fst a)"
  let ?address = "\<lambda>a :: nat \<times> nat. ho_address (hf_hosts f ! fst a)"
  let ?path = "\<lambda>a :: nat \<times> nat. case path_of f (hf_hosts f ! fst a) of Some p \<Rightarrow> p | None \<Rightarrow> []"
  have by_score: "comparator (\<lambda>a b. cmp_then (compare_of (snd b) (snd a)) (?name a b))"
    by (rule comparator_then [OF comparator_reverse [OF comparator_compare_of] natural])
  have by_rank: "comparator (\<lambda>a b. cmp_then (compare_of (?rank a) (?rank b)) (?name a b))"
    by (rule comparator_then [OF comparator_compare_of natural])
  have by_address: "comparator (\<lambda>a b. cmp_then (natural_cmp (sc_lower sc) (?address a) (?address b)) (?name a b))"
    by (rule comparator_then [OF natural natural])
  have by_path: "comparator (\<lambda>a b. cmp_then (natural_cmp (sc_lower sc) (?path a) (?path b)) (?name a b))"
    by (rule comparator_then [OF natural natural])
  consider "trim (hq_text q) \<noteq> []" | "trim (hq_text q) = []" "hq_scope q = ScopeRecent \<or> hq_sort q = SortLastUsed"
    | "trim (hq_text q) = []" "\<not> (hq_scope q = ScopeRecent \<or> hq_sort q = SortLastUsed)" by blast
  then show ?thesis
  proof cases
    case 1
    then show ?thesis using by_score by (simp add: hit_cmp_def [abs_def] Let_def)
  next
    case 2
    then show ?thesis using by_rank by (simp add: hit_cmp_def [abs_def] Let_def)
  next
    case 3
    then show ?thesis
      using by_address by_path natural by (cases "hq_sort q") (simp_all add: hit_cmp_def [abs_def] Let_def)
  qed
qed

subsection \<open>What a search lists\<close>

text \<open>
  the order of names is a linear one, as the sort of the standard library demands (it may panic
  otherwise): only equal names compare as equal, the other way round gives the reverse, and it is
  transitive, although numbers are compared by value, characters by what they are in lower case,
  and equal ones by their bytes.
\<close>

theorem names_are_linearly_ordered:
  assumes "lower_ok lower"
  shows "(natural_cmp lower a b = EqualTo \<longleftrightarrow> a = b) \<and> natural_cmp lower b a = reversed (natural_cmp lower a b) \<and>
    (natural_cmp lower a b = Greater \<or> natural_cmp lower b c = Greater \<or> natural_cmp lower a c \<noteq> Greater)"
proof (intro conjI)
  show "natural_cmp lower a b = EqualTo \<longleftrightarrow> a = b" by (auto simp: natural_cmp_key [OF assms] compare_of_cases)
  show "natural_cmp lower b a = reversed (natural_cmp lower a b)"
    by (rule comparator_D(1) [OF comparator_natural [OF assms]])
  show "natural_cmp lower a b = Greater \<or> natural_cmp lower b c = Greater \<or> natural_cmp lower a c \<noteq> Greater"
    using comparator_D(2) [OF comparator_natural [OF assms], of a b c] by blast
qed

lemma lower_ok_ascii: "lower_ok (\<lambda>c. to_ascii_lower [c])"
  by (auto simp: lower_ok_def to_ascii_lower_def is_digit_def)

lemma names_are_linearly_ordered_witness:
  "natural_cmp (\<lambda>c. to_ascii_lower [c]) (lit ''web-10'') (lit ''Web-9'') = Greater \<and>
   natural_cmp (\<lambda>c. to_ascii_lower [c]) (lit ''Web-9'') (lit ''web-10'') = reversed Greater"
proof -
  have "natural_cmp (\<lambda>c. to_ascii_lower [c]) (lit ''web-10'') (lit ''Web-9'') = Greater"
    by (simp add: natural_cmp_def lit_def is_digit_def to_ascii_lower_def compare_of_def digits_cmp_def)
  then show ?thesis
    using names_are_linearly_ordered [OF lower_ok_ascii, of "lit ''web-10''" "lit ''Web-9''"] by simp
qed

lemma found_from_iff:
  "(i, n) \<in> set (found_from sc f recent q k hs) \<longleftrightarrow>
   k \<le> i \<and> i < k + length hs \<and> in_scope sc f recent q (hs ! (i - k)) \<and>
   (if trim (hq_text q) = [] then n = 0 else host_score sc f (trim (hq_text q)) (hs ! (i - k)) = Some n)"
proof (induction hs arbitrary: k)
  case (Cons h hs)
  have "(i, n) \<in> set (found_from sc f recent q k (h # hs)) \<longleftrightarrow>
      i = k \<and> in_scope sc f recent q h \<and>
        (if trim (hq_text q) = [] then n = 0 else host_score sc f (trim (hq_text q)) h = Some n) \<or>
      (i, n) \<in> set (found_from sc f recent q (Suc k) hs)"
    by (auto split: option.splits)
  also have "\<dots> \<longleftrightarrow> k \<le> i \<and> i < k + length (h # hs) \<and> in_scope sc f recent q ((h # hs) ! (i - k)) \<and>
      (if trim (hq_text q) = [] then n = 0 else host_score sc f (trim (hq_text q)) ((h # hs) ! (i - k)) = Some n)"
  proof (cases "i = k")
    case False
    then have "k \<le> i \<longleftrightarrow> Suc k \<le> i" "k \<le> i \<Longrightarrow> (h # hs) ! (i - k) = hs ! (i - Suc k)" by (auto simp: nth_Cons')
    then show ?thesis using Cons [of "Suc k"] False by auto
  next
    case True
    then show ?thesis using Cons [of "Suc k"] by simp
  qed
  finally show ?case .
qed simp

lemma found_from_distinct: "distinct (map fst (found_from sc f recent q k hs))"
proof (induction hs arbitrary: k)
  case (Cons h hs)
  have "k \<notin> fst ` set (found_from sc f recent q (Suc k) hs)" using found_from_iff [of k] by fastforce
  then show ?case using Cons [of "Suc k"] by (auto split: option.splits)
qed simp

lemma host_score_None: "host_score sc f wanted h = None \<longleftrightarrow> sc_score sc wanted (search_line f h) = None"
  by (simp add: host_score_def Let_def split: option.split)

subsection \<open>What a search should list\<close>

text \<open>
  The specification, apart from the code: the order of names by their keys and then by code points,
  the words a text is looked for in, what a match is worth, the last use by the place in the list of
  recent connections, the scopes by the fields of a host and the parents of its group.
\<close>

definition name_before :: "search_crates \<Rightarrow> str \<Rightarrow> str \<Rightarrow> bool" where
  "name_before sc a b \<longleftrightarrow>
     natural_key (sc_lower sc) a < natural_key (sc_lower sc) b \<or>
     natural_key (sc_lower sc) a = natural_key (sc_lower sc) b \<and> a < b"

definition shown_path :: "hosts_file \<Rightarrow> host \<Rightarrow> str option" where
  "shown_path f h =
     (case ho_group h of
        Some g \<Rightarrow> if g \<in> gr_id ` set (hf_groups f) then Some (group_path (hf_groups f) g) else None
      | None \<Rightarrow> None)"

definition all_words :: "hosts_file \<Rightarrow> host \<Rightarrow> str" where
  "all_words f h =
     join_with [32] ([ho_name h, ho_address h] @ (case ho_user h of Some u \<Rightarrow> [u] | None \<Rightarrow> []) @ ho_tags h @
       (case shown_path f h of Some p \<Rightarrow> [p] | None \<Rightarrow> []))"

definition points :: "search_crates \<Rightarrow> hosts_file \<Rightarrow> str \<Rightarrow> host \<Rightarrow> nat" where
  "points sc f wanted h =
     ((case sc_score sc wanted (all_words f h) of Some n \<Rightarrow> n | None \<Rightarrow> 0) +
      (case sc_score sc wanted (ho_name h) of Some n \<Rightarrow> n | None \<Rightarrow> 0) +
      (if to_ascii_lower wanted \<in> {to_ascii_lower (ho_name h), to_ascii_lower (ho_address h)} then 100000
       else if \<exists>a b. sc_lowercase sc (all_words f h) = a @ sc_lowercase sc wanted @ b then 10000 else 0))
     mod 4294967296"

definition last_used :: "recent_entry list \<Rightarrow> host \<Rightarrow> nat" where
  "last_used recent h =
     (let places = {i. i < length recent \<and> rc_host (recent ! i) = ho_id h \<and> ho_id h \<noteq> []}
      in if places = {} then 2 ^ 64 - 1 else Max places)"

definition should_list :: "search_crates \<Rightarrow> hosts_file \<Rightarrow> recent_entry list \<Rightarrow> host_query \<Rightarrow> host \<Rightarrow> bool" where
  "should_list sc f recent q h \<longleftrightarrow>
     (hq_scope q = ScopeFavorites \<longrightarrow> ho_favorite h) \<and>
     (hq_scope q = ScopeRecent \<longrightarrow> ho_id h \<noteq> [] \<and> ho_id h \<in> rc_host ` set recent) \<and>
     (\<forall>gid. hq_scope q = ScopeGroup gid \<longrightarrow> (\<exists>g. ho_group h = Some g \<and>
        (g, gid) \<in> {(gr_id x, p) |x p. x \<in> set (hf_groups f) \<and> gr_parent x = Some p}\<^sup>*)) \<and>
     (hq_scope q = ScopeUngrouped \<longrightarrow> ho_group h = None \<and> (\<nexists>name. ho_id h = lit ''ssh_config:'' @ name)) \<and>
     (hq_scope q = ScopeLinked \<longrightarrow> (\<exists>name. ho_id h = lit ''ssh_config:'' @ name)) \<and>
     (hq_protocol q \<noteq> None \<longrightarrow> Some (ho_protocol h) = hq_protocol q) \<and>
     (\<forall>tag. hq_tag q = Some tag \<longrightarrow> sc_lowercase sc tag \<in> sc_lowercase sc ` set (ho_tags h)) \<and>
     (trim (hq_text q) \<noteq> [] \<longrightarrow> sc_score sc (trim (hq_text q)) (all_words f h) \<noteq> None)"

definition may_precede :: "search_crates \<Rightarrow> hosts_file \<Rightarrow> recent_entry list \<Rightarrow> host_query \<Rightarrow> host \<Rightarrow> host \<Rightarrow> bool" where
  "may_precede sc f recent q x y \<longleftrightarrow>
     (let wanted = trim (hq_text q);
          by_name = (name_before sc (ho_name x) (ho_name y) \<or> ho_name x = ho_name y);
          path = (\<lambda>h. case shown_path f h of Some p \<Rightarrow> p | None \<Rightarrow> [])
      in if wanted \<noteq> [] then
           points sc f wanted x > points sc f wanted y \<or> points sc f wanted x = points sc f wanted y \<and> by_name
         else if hq_scope q = ScopeRecent \<or> hq_sort q = SortLastUsed then
           last_used recent x < last_used recent y \<or> last_used recent x = last_used recent y \<and> by_name
         else if hq_sort q = SortAddress then
           name_before sc (ho_address x) (ho_address y) \<or> ho_address x = ho_address y \<and> by_name
         else if hq_sort q = SortGroup then name_before sc (path x) (path y) \<or> path x = path y \<and> by_name
         else by_name)"

lemma natural_cmp_before:
  assumes "lower_ok (sc_lower sc)"
  shows "natural_cmp (sc_lower sc) a b = Less \<longleftrightarrow> name_before sc a b"
    and "natural_cmp (sc_lower sc) a b = EqualTo \<longleftrightarrow> a = b"
  by (auto simp: natural_cmp_key [OF assms] name_before_def compare_of_def cmp_then_def)

lemma not_greater: "o' \<noteq> Greater \<longleftrightarrow> o' = Less \<or> o' = EqualTo"
  by (cases o') auto

lemma cmp_then_not_greater: "cmp_then a b \<noteq> Greater \<longleftrightarrow> a = Less \<or> a = EqualTo \<and> b \<noteq> Greater"
  by (cases a) (auto simp: cmp_then_def)

lemma hash_of_keys: "hash_of (map (\<lambda>g. (gr_id g, F (gr_id g))) gs) k = (if k \<in> gr_id ` set gs then Some (F k) else None)"
  by (induction gs rule: rev_induct) (auto simp: hash_of_def)

lemma path_of_shown: "path_of f h = shown_path f h"
  by (simp add: path_of_def shown_path_def group_paths_def hash_of_keys split: option.split)

lemma join_words: "join_with [32] (w # ws) = w @ concat (map ((#) 32) ws)"
  by (induction ws arbitrary: w) auto

lemma search_line_words: "search_line f h = all_words f h"
  by (cases "ho_user h"; cases "shown_path f h")
    (simp_all add: search_line_def all_words_def path_of_shown opt_word_def join_words)

lemma split_once_iff: "split_once s sep \<noteq> None \<longleftrightarrow> (\<exists>a b. s = a @ sep @ b)"
proof (induction s)
  case (Cons c s)
  show ?case
  proof (cases "starts_with (c # s) sep")
    case True
    then have "c # s = [] @ sep @ drop (length sep) (c # s)" unfolding starts_with_def by (metis append_Nil append_take_drop_id)
    then have "\<exists>a b. c # s = a @ sep @ b" by blast
    then show ?thesis using True by simp
  next
    case False
    have "(\<exists>a b. c # s = a @ sep @ b) \<longleftrightarrow> (\<exists>a b. s = a @ sep @ b)"
    proof
      assume "\<exists>a b. c # s = a @ sep @ b"
      then obtain a b where ab: "c # s = a @ sep @ b" by blast
      then show "\<exists>a b. s = a @ sep @ b" using False by (cases a) (auto simp: starts_with_def)
    qed (metis append_Cons)
    then show ?thesis using Cons False by simp
  qed
qed simp

lemma host_score_points: "host_score sc f wanted h = Some n \<Longrightarrow> n = points sc f wanted h"
proof -
  define there where "there \<longleftrightarrow> (\<exists>a b. sc_lowercase sc (all_words f h) = a @ sc_lowercase sc wanted @ b)"
  show "host_score sc f wanted h = Some n \<Longrightarrow> n = points sc f wanted h"
    unfolding host_score_def points_def Let_def search_line_words split_once_iff EXACT_BONUS_def SUBSTRING_BONUS_def
      there_def [symmetric]
    by (auto simp: eq_ignore_ascii_case_def split: option.splits)
qed

lemma recent_rank_snoc:
  "recent_rank (es @ [e]) = (if rc_host e \<noteq> [] then (recent_rank es)(rc_host e \<mapsto> length es) else recent_rank es)"
  by (auto simp: recent_rank_def hash_of_def enumerate_append_eq)

lemma recent_rank_places:
  "recent_rank es hid =
     (let places = {i. i < length es \<and> rc_host (es ! i) = hid \<and> hid \<noteq> []} in if places = {} then None else Some (Max places))"
proof (induction es rule: rev_induct)
  case (snoc e es)
  let ?P = "\<lambda>es. {i. i < length es \<and> rc_host (es ! i) = hid \<and> hid \<noteq> []}"
  show ?case
  proof (cases "rc_host e = hid \<and> hid \<noteq> []")
    case True
    have "length es \<in> ?P (es @ [e])" using True by simp
    then have "?P (es @ [e]) \<noteq> {}" by blast
    moreover have "Max (?P (es @ [e])) = length es" using True by (intro Max_eqI) auto
    moreover have "recent_rank (es @ [e]) hid = Some (length es)" using True by (auto simp: recent_rank_snoc)
    ultimately show ?thesis unfolding Let_def by (simp only: if_False)
  next
    case False
    then have places: "?P (es @ [e]) = ?P es" by (auto simp: nth_append less_Suc_eq)
    have "recent_rank (es @ [e]) hid = recent_rank es hid" if "hid \<noteq> [] \<or> rc_host e \<noteq> hid"
      using that False by (auto simp: recent_rank_snoc)
    moreover have "recent_rank (es @ [e]) [] = recent_rank es []" by (auto simp: recent_rank_snoc)
    ultimately have "recent_rank (es @ [e]) hid = recent_rank es hid" by blast
    then show ?thesis using snoc unfolding places by (simp only:)
  qed
qed (simp add: recent_rank_def hash_of_def)

lemma rank_of_last_used: "rank_of recent h = last_used recent h"
proof (cases "{i. i < length recent \<and> rc_host (recent ! i) = ho_id h \<and> ho_id h \<noteq> []} = {}")
  case True
  show ?thesis unfolding rank_of_def last_used_def recent_rank_places Let_def by (simp only: True simp_thms if_True option.case)
next
  case False
  then show ?thesis
    unfolding rank_of_def last_used_def recent_rank_places Let_def by (simp only: simp_thms if_False option.case)
qed

lemma recent_rank_some: "recent_rank recent hid \<noteq> None \<longleftrightarrow> hid \<noteq> [] \<and> hid \<in> rc_host ` set recent"
proof -
  have "hid \<in> rc_host ` set recent \<longleftrightarrow> (\<exists>i. i < length recent \<and> rc_host (recent ! i) = hid)"
    by (metis image_iff in_set_conv_nth)
  then show ?thesis by (auto simp: recent_rank_places Let_def)
qed

lemma linked_prefix: "is_linked h \<longleftrightarrow> (\<exists>name. ho_id h = lit ''ssh_config:'' @ name)"
  unfolding is_linked_def starts_with_def LINKED_PREFIX_def by (metis append_eq_conv_conj append_take_drop_id)

lemma in_scope_should_list:
  "in_scope sc f recent q h \<and> (trim (hq_text q) = [] \<or> sc_score sc (trim (hq_text q)) (search_line f h) \<noteq> None) \<longleftrightarrow>
   should_list sc f recent q h"
proof -
  let ?below = "{(gr_id x, p) |x p. x \<in> set (hf_groups f) \<and> gr_parent x = Some p}\<^sup>*"
  have group: "(case ho_group h of Some g \<Rightarrow> g \<in> subtree (hf_groups f) gid | None \<Rightarrow> False) \<longleftrightarrow>
      (\<exists>g. ho_group h = Some g \<and> (g, gid) \<in> ?below)" for gid
    by (simp add: subtree_below below_def split: option.split)
  have "(case hq_scope q of
        ScopeAll \<Rightarrow> True
      | ScopeFavorites \<Rightarrow> ho_favorite h
      | ScopeRecent \<Rightarrow> recent_rank recent (ho_id h) \<noteq> None
      | ScopeGroup gid \<Rightarrow> (case ho_group h of Some g \<Rightarrow> g \<in> subtree (hf_groups f) gid | None \<Rightarrow> False)
      | ScopeUngrouped \<Rightarrow> ho_group h = None \<and> \<not> is_linked h
      | ScopeLinked \<Rightarrow> is_linked h) \<longleftrightarrow>
     (hq_scope q = ScopeFavorites \<longrightarrow> ho_favorite h) \<and>
     (hq_scope q = ScopeRecent \<longrightarrow> ho_id h \<noteq> [] \<and> ho_id h \<in> rc_host ` set recent) \<and>
     (\<forall>gid. hq_scope q = ScopeGroup gid \<longrightarrow> (\<exists>g. ho_group h = Some g \<and> (g, gid) \<in> ?below)) \<and>
     (hq_scope q = ScopeUngrouped \<longrightarrow> ho_group h = None \<and> (\<nexists>name. ho_id h = lit ''ssh_config:'' @ name)) \<and>
     (hq_scope q = ScopeLinked \<longrightarrow> (\<exists>name. ho_id h = lit ''ssh_config:'' @ name))"
    unfolding group recent_rank_some linked_prefix by (cases "hq_scope q") simp_all
  moreover have "(case hq_protocol q of Some p \<Rightarrow> ho_protocol h = p | None \<Rightarrow> True) \<longleftrightarrow>
      (hq_protocol q \<noteq> None \<longrightarrow> Some (ho_protocol h) = hq_protocol q)"
    by (cases "hq_protocol q") auto
  moreover have "(case hq_tag q of
        Some tag \<Rightarrow> list_ex (\<lambda>own. sc_lowercase sc own = sc_lowercase sc tag) (ho_tags h)
      | None \<Rightarrow> True) \<longleftrightarrow> (\<forall>tag. hq_tag q = Some tag \<longrightarrow> sc_lowercase sc tag \<in> sc_lowercase sc ` set (ho_tags h))"
    by (cases "hq_tag q") (auto simp: list_ex_iff intro: image_eqI [OF sym])
  ultimately show ?thesis
    unfolding in_scope_def should_list_def search_line_words by blast
qed

lemma hit_cmp_precedes:
  assumes "lower_ok (sc_lower sc)"
    and "trim (hq_text q) = [] \<or> snd a = points sc f (trim (hq_text q)) (hf_hosts f ! fst a)"
    and "trim (hq_text q) = [] \<or> snd b = points sc f (trim (hq_text q)) (hf_hosts f ! fst b)"
  shows "hit_cmp sc f recent q a b \<noteq> Greater \<longleftrightarrow> may_precede sc f recent q (hf_hosts f ! fst a) (hf_hosts f ! fst b)"
proof -
  note names = natural_cmp_before [OF assms(1)] cmp_then_not_greater not_greater [of "natural_cmp _ _ _"] compare_of_cases
  consider "trim (hq_text q) \<noteq> []" | "trim (hq_text q) = []" "hq_scope q = ScopeRecent \<or> hq_sort q = SortLastUsed"
    | "trim (hq_text q) = []" "\<not> (hq_scope q = ScopeRecent \<or> hq_sort q = SortLastUsed)" by blast
  then show ?thesis
  proof cases
    case 1
    then show ?thesis using assms(2,3) by (auto simp: hit_cmp_def may_precede_def Let_def names)
  next
    case 2
    then show ?thesis by (simp add: hit_cmp_def may_precede_def Let_def names rank_of_last_used)
  next
    case 3
    then show ?thesis
      by (cases "hq_sort q") (simp_all add: hit_cmp_def may_precede_def Let_def names path_of_shown)
  qed
qed

text \<open>
  C12: a search lists exactly the hosts that it should, each of them once, in the order that was
  asked for. A host is listed when it is in the scope (a favorite, in the recent list, in the group or
  one below it, in no group and not linked, linked), has the protocol and the tag, and the matcher
  takes its words for the text. With a text a host with more points comes first (the matcher's score
  of the words and of the name, 100000 for the very name or address, else 10000 when the text is in
  the words); otherwise the last use, the address or the group's path decides, as asked; and then the
  name, in whose order numbers count by their value.
\<close>

theorem search_lists_hits_in_order:
  assumes "lower_ok (sc_lower sc)"
  shows "distinct (search_hosts sc f recent q) \<and>
    set (search_hosts sc f recent q) = {i. i < length (hf_hosts f) \<and> should_list sc f recent q (hf_hosts f ! i)} \<and>
    sorted_wrt (\<lambda>i j. may_precede sc f recent q (hf_hosts f ! i) (hf_hosts f ! j)) (search_hosts sc f recent q)"
proof -
  let ?found = "found_from sc f recent q 0 (hf_hosts f)"
  let ?sorted = "sort_by (hit_cmp sc f recent q) ?found"
  have hits: "trim (hq_text q) = [] \<or> snd hit = points sc f (trim (hq_text q)) (hf_hosts f ! fst hit)"
    if "hit \<in> set ?found" for hit
    using that found_from_iff [of "fst hit" "snd hit" sc f recent q 0 "hf_hosts f"]
    by (auto intro: host_score_points)
  have "mset (map fst ?sorted) = mset (map fst ?found)" by simp
  then have "distinct (map fst ?sorted)"
    using found_from_distinct [of sc f recent q 0 "hf_hosts f"] mset_eq_imp_distinct_iff by blast
  moreover have "i \<in> fst ` set ?found \<longleftrightarrow> (\<exists>n. (i, n) \<in> set ?found)" for i by force
  then have "fst ` set ?found = {i. i < length (hf_hosts f) \<and> in_scope sc f recent q (hf_hosts f ! i) \<and>
      (trim (hq_text q) = [] \<or> sc_score sc (trim (hq_text q)) (search_line f (hf_hosts f ! i)) \<noteq> None)}"
    by (cases "trim (hq_text q) = []") (simp_all add: set_eq_iff found_from_iff flip: host_score_None)
  then have "fst ` set ?found = {i. i < length (hf_hosts f) \<and> should_list sc f recent q (hf_hosts f ! i)}"
    by (simp only: in_scope_should_list)
  moreover have "sorted_wrt (\<lambda>a b. may_precede sc f recent q (hf_hosts f ! fst a) (hf_hosts f ! fst b)) ?sorted"
    by (rule sorted_wrt_mono_rel [OF _ sorted_sort_by [OF comparator_hits [OF assms]]])
      (use hits hit_cmp_precedes [OF assms] in \<open>metis set_sort_by\<close>)
  ultimately show ?thesis by (simp add: search_hosts_def sorted_wrt_map)
qed

definition sample_query :: host_query where
  "sample_query = \<lparr>hq_text = [], hq_scope = ScopeFavorites, hq_protocol = None, hq_tag = None, hq_sort = SortName\<rparr>"

definition sample_search :: search_crates where
  "sample_search =
     \<lparr>sc_lower = (\<lambda>c. to_ascii_lower [c]), sc_lowercase = to_ascii_lower, sc_score = (\<lambda>wanted line. None)\<rparr>"

definition sample_list :: hosts_file where
  "sample_list =
     \<lparr>hf_groups = [], hf_hosts = [host_default\<lparr>ho_name := lit ''web-10'', ho_favorite := True\<rparr>,
        host_default\<lparr>ho_name := lit ''web-2'', ho_favorite := True\<rparr>, host_default\<lparr>ho_name := lit ''db''\<rparr>],
      hf_sources = [], hf_read_only = False, hf_extra = [], hf_base = []\<rparr>"

text \<open>The favorites by name: \<open>web-2\<close> comes before \<open>web-10\<close>.\<close>

lemma search_lists_hits_in_order_witness: "search_hosts sample_search sample_list [] sample_query = [1, 0]"
proof -
  let ?found = "search_hosts sample_search sample_list [] sample_query"
  have "lower_ok (sc_lower sample_search)" by (simp add: sample_search_def lower_ok_ascii)
  note listed = search_lists_hits_in_order [OF this, of sample_list "[]" sample_query]
  have plain: "trim (hq_text sample_query) = []" by (simp add: sample_query_def trim_def)
  then have favorites: "should_list sample_search sample_list [] sample_query h \<longleftrightarrow> ho_favorite h" for h
    by (simp add: sample_query_def should_list_def)
  have "{i. i < length (hf_hosts sample_list) \<and> ho_favorite (hf_hosts sample_list ! i)} = {0, 1}"
    by (auto simp: sample_list_def host_default_def less_Suc_eq numeral_3_eq_3)
  then have two: "distinct ?found" "set ?found = {0, 1}" using listed by (simp_all add: favorites)
  have "\<not> name_before sample_search (lit ''web-10'') (lit ''web-2'')"
    by (simp add: name_before_def sample_search_def lit_def is_digit_def to_ascii_lower_def number_key_def)
  then have "\<not> may_precede sample_search sample_list [] sample_query (hf_hosts sample_list ! 0) (hf_hosts sample_list ! 1)"
    using plain by (simp add: may_precede_def sample_query_def sample_list_def host_default_def lit_def)
  then have "?found \<noteq> [0, 1]"
    using listed [THEN conjunct2, THEN conjunct2] by (metis One_nat_def list.set_intros(1) sorted_wrt.simps(2))
  moreover have "length ?found = 2" using distinct_card [OF two(1)] unfolding two(2) by simp
  then obtain a b where ab: "?found = [a, b]" by (auto simp: length_Suc_conv numeral_2_eq_2)
  ultimately show ?thesis using two unfolding ab by (auto simp: doubleton_eq_iff)
qed

subsection \<open>Numbers in names\<close>

lemma less_append: "length a = length b \<Longrightarrow> a < b \<Longrightarrow> a @ x < b @ (y :: nat list)"
  using compare_of_append [of a b x y] by (simp flip: compare_of_cases(1))

lemma less_prefix: "x < y \<Longrightarrow> p @ x < p @ (y :: nat list)"
  by (induction p) simp_all

lemma decimal_less:
  "m < n \<Longrightarrow> length (decimal m) < length (decimal n) \<or> length (decimal m) = length (decimal n) \<and> decimal m < decimal n"
proof (induction n arbitrary: m rule: less_induct)
  case (less n)
  have many: "0 < length (decimal k)" for k by (subst decimal.simps) simp
  show ?case
  proof (cases "n < 10")
    case True
    then show ?thesis using less.prems by (simp add: decimal.simps [of m] decimal.simps [of n])
  next
    case n: False
    show ?thesis
    proof (cases "m < 10")
      case True
      then show ?thesis using n many [of "n div 10"] by (simp add: decimal.simps [of m] decimal.simps [of n])
    next
      case m: False
      consider "m div 10 < n div 10" | "m div 10 = n div 10" "m mod 10 < n mod 10"
        using less.prems by (metis div_le_mono div_mult_mod_eq le_neq_implies_less less_imp_le nat_add_left_cancel_less)
      then show ?thesis
      proof cases
        case 1
        then show ?thesis
          using less.IH [of "n div 10" "m div 10"] n m
          by (auto simp: decimal.simps [of m] decimal.simps [of n] intro: less_append)
      next
        case 2
        then show ?thesis using n m by (simp add: decimal.simps [of m] decimal.simps [of n] less_prefix)
      qed
    qed
  qed
qed

lemma decimal_hd: "0 < n \<Longrightarrow> hd (decimal n) \<noteq> 48"
proof (induction n rule: decimal.induct)
  case (1 n)
  then show ?case by (cases "n < 10") (simp_all add: decimal.simps [of n])
qed

lemma number_key_less:
  assumes "m < n"
  shows "number_key (decimal m) < number_key (decimal n)"
proof -
  have kept: "dropWhile (\<lambda>c. c = 48) (decimal k) = (if k = 0 then [] else decimal k)" for k
  proof (cases "k = 0")
    case True
    then show ?thesis by (simp add: decimal.simps [of 0])
  next
    case False
    then show ?thesis using decimal_hd [of k] by (cases "decimal k") auto
  qed
  show ?thesis
    using decimal_less [OF assms] assms by (auto simp: number_key_def Let_def kept intro: less_append)
qed

lemma digits_then:
  assumes "list_all is_digit ds" "s = [] \<or> \<not> is_digit (hd s)"
  shows "takeWhile is_digit (ds @ s) = ds" "dropWhile is_digit (ds @ s) = s"
proof -
  have "takeWhile is_digit s = []" "dropWhile is_digit s = s" using assms(2) by (cases s; simp)+
  then show "takeWhile is_digit (ds @ s) = ds" "dropWhile is_digit (ds @ s) = s"
    using assms(1) by (simp_all add: list_all_iff takeWhile_append2 dropWhile_append2)
qed

text \<open>The keys in front of a text that does not go on with the number before it.\<close>

lemma natural_key_append:
  "s = [] \<or> p = [] \<or> \<not> is_digit (last p) \<Longrightarrow> natural_key lower (p @ s) = natural_key lower p @ natural_key lower s"
proof (induction "length p" arbitrary: p rule: less_induct)
  case less
  show ?case
  proof (cases p)
    case (Cons x xs)
    show ?thesis
    proof (cases "is_digit x")
      case False
      then show ?thesis using less(1) [of xs] less(2) Cons by (cases "xs = []") auto
    next
      case True
      let ?rest = "dropWhile is_digit p"
      show ?thesis
      proof (cases "s = []")
        case s: False
        then have "\<not> is_digit (last p)" using less(2) Cons by simp
        then have "\<exists>c\<in>set p. \<not> is_digit c" using Cons by (metis last_in_set list.distinct(1))
        then have stops: "takeWhile is_digit (p @ s) = takeWhile is_digit p" "dropWhile is_digit (p @ s) = ?rest @ s" "?rest \<noteq> []"
          by (auto simp: takeWhile_append dropWhile_append dropWhile_eq_Nil_conv)
        have "last ?rest = last p" using stops(3) by (metis last_appendR takeWhile_dropWhile_id)
        moreover have "length ?rest < length p" using True Cons by (simp add: le_imp_less_Suc length_dropWhile_le)
        ultimately have "natural_key lower (?rest @ s) = natural_key lower ?rest @ natural_key lower s"
          using less(1) [of ?rest] \<open>\<not> is_digit (last p)\<close> by simp
        moreover have "natural_key lower q = number_key (takeWhile is_digit q) # natural_key lower (dropWhile is_digit q)"
          if "q \<noteq> []" "is_digit (hd q)" for q using that by (cases q) simp_all
        ultimately show ?thesis using True Cons stops by simp
      qed simp
    qed
  qed simp
qed

text \<open>\<open>web-2\<close> is before \<open>web-10\<close>: a number in a name counts by its value, whatever follows.\<close>

lemma numbers_in_names:
  assumes "lower_ok lower" "m < n" "p = [] \<or> \<not> is_digit (last p)"
    and "s = [] \<or> \<not> is_digit (hd s)" "t = [] \<or> \<not> is_digit (hd t)"
  shows "natural_cmp lower (p @ decimal m @ s) (p @ decimal n @ t) = Less"
proof -
  have key: "natural_key lower (decimal k @ u) = number_key (decimal k) # natural_key lower u"
    if "u = [] \<or> \<not> is_digit (hd u)" for k u
  proof -
    have "list_all is_digit (decimal k)" using decimal_digits by (auto simp: list_all_iff is_digit_def)
    moreover from this have "is_digit (hd (decimal k))" by (cases "decimal k") simp_all
    ultimately show ?thesis using digits_then [OF _ that, of "decimal k"] by (cases "decimal k") simp_all
  qed
  have "natural_key lower (p @ decimal m @ s) < natural_key lower (p @ decimal n @ t)"
  proof -
    have "number_key (decimal m) # natural_key lower s < number_key (decimal n) # natural_key lower t"
      using number_key_less [OF assms(2)] by simp
    then have "q @ number_key (decimal m) # natural_key lower s < q @ number_key (decimal n) # natural_key lower t" for q
      by (induction q) simp_all
    then show ?thesis using assms(3-5) by (simp add: natural_key_append key)
  qed
  then show ?thesis using natural_cmp_key [OF assms(1)] by (simp add: compare_of_def)
qed

end
