(* ===== verification/Proxy.thy ===== *)
theory Proxy
  imports Socks
begin

text \<open>
  Reaching the first hop of an SSH connection through a proxy (\<open>crates/opensesh-ssh/src/proxy.rs\<close>): SOCKS5
  as a client, HTTP CONNECT, and the expansion of a proxy command. The stream is that of the SOCKS5
  server (\<open>Socks\<close>), seen from the other end. \<open>IpAddr::from_str\<close> is the standard library's parser;
  base64 is a parameter.
\<close>

subsection \<open>Addresses\<close>

definition proxy_address :: "str \<Rightarrow> nat \<Rightarrow> str" where
  "proxy_address host port =
     (if 58 \<in> set host \<and> \<not> starts_with host (lit ''['') then lit ''['' @ host @ lit '']:'' @ decimal port
      else host @ lit '':'' @ decimal port)"

text \<open>\<open>trim_start_matches('[').trim_end_matches(']')\<close>\<close>

definition bare_host :: "str \<Rightarrow> str" where
  "bare_host host = trim_end_char 93 (dropWhile (\<lambda>c. c = 91) host)"

text \<open>
  The parser of the standard library: a reader takes from the front of a text or fails. A number
  has at most so many digits and, in a dotted address, no leading zero.
\<close>

type_synonym 'a text_reader = "str \<Rightarrow> ('a \<times> str) option"

definition digit_of :: "nat \<Rightarrow> uchar \<Rightarrow> nat option" where
  "digit_of radix c =
     (let d = (if 48 \<le> c \<and> c \<le> 57 then c - 48 else if 97 \<le> c \<and> c \<le> 102 then c - 87
               else if 65 \<le> c \<and> c \<le> 70 then c - 55 else 99)
      in if d < radix then Some d else None)"

definition read_number :: "nat \<Rightarrow> nat \<Rightarrow> bool \<Rightarrow> nat \<Rightarrow> nat text_reader" where
  "read_number radix most_digits zero_prefix most s =
     (let ds = takeWhile (\<lambda>c. digit_of radix c \<noteq> None) s;
          n = foldl (\<lambda>n c. radix * n + the (digit_of radix c)) 0 ds
      in if ds = [] \<or> length ds > most_digits \<or> \<not> zero_prefix \<and> hd ds = 48 \<and> length ds > 1 \<or> n > most then None
         else Some (n, drop (length ds) s))"

text \<open>In front of every item but the first stands the separator.\<close>

definition read_separated :: "uchar \<Rightarrow> nat \<Rightarrow> 'a text_reader \<Rightarrow> 'a text_reader" where
  "read_separated sep i inner s =
     (if i = 0 then inner s else case s of c # rest \<Rightarrow> if c = sep then inner rest else None | [] \<Rightarrow> None)"

fun read_octets :: "nat \<Rightarrow> nat \<Rightarrow> nat list text_reader" where
  "read_octets 0 i s = Some ([], s)"
| "read_octets (Suc n) i s =
     (case read_separated 46 i (read_number 10 3 False 255) s of
        None \<Rightarrow> None
      | Some (x, s) \<Rightarrow> map_option (\<lambda>(xs, s). (x # xs, s)) (read_octets n (Suc i) s))"

text \<open>The groups of an IPv6 address, the last two perhaps as a dotted address, and whether so.\<close>

fun read_groups :: "nat \<Rightarrow> nat \<Rightarrow> str \<Rightarrow> nat list \<times> bool \<times> str" where
  "read_groups 0 i s = ([], False, s)"
| "read_groups (Suc n) i s =
     (case (if 0 < n then read_separated 58 i (read_octets 4 0) s else None) of
        Some (octets, s) \<Rightarrow> ([256 * octets ! 0 + octets ! 1, 256 * octets ! 2 + octets ! 3], True, s)
      | None \<Rightarrow>
          (case read_separated 58 i (read_number 16 4 True 65535) s of
             Some (g, s) \<Rightarrow> (case read_groups n (Suc i) s of (gs, v4, s) \<Rightarrow> (g # gs, v4, s))
           | None \<Rightarrow> ([], False, s)))"

definition read_ipv6 :: "nat list text_reader" where
  "read_ipv6 s =
     (case read_groups 8 0 s of
        (head, v4, s) \<Rightarrow>
          if length head = 8 then Some (head, s)
          else if v4 then None
          else case s of
                 a # b # s \<Rightarrow>
                   if a = 58 \<and> b = 58 then
                     (case read_groups (8 - (length head + 1)) 0 s of
                        (tail, _, s) \<Rightarrow> Some (head @ replicate (8 - length head - length tail) 0 @ tail, s))
                   else None
               | _ \<Rightarrow> None)"

definition parse_ip :: "str \<Rightarrow> socks_address option" where
  "parse_ip s =
     (case read_octets 4 0 s of
        Some (octets, rest) \<Rightarrow> if rest = [] then Some (V4 (map word_of_nat octets)) else None
      | None \<Rightarrow>
          (case read_ipv6 s of
             Some (gs, rest) \<Rightarrow> if rest = [] then Some (V6 (concat (map be16 gs))) else None
           | None \<Rightarrow> None))"

subsection \<open>SOCKS5\<close>

datatype proxy_message = IoFailed | Said str

datatype ssh_error = Network str proxy_message

definition pbind :: "(ssh_error + 'a) \<times> stream \<Rightarrow> ('a \<Rightarrow> stream \<Rightarrow> (ssh_error + 'b) \<times> stream) \<Rightarrow>
    (ssh_error + 'b) \<times> stream" where
  "pbind m f = (case m of (Inl e, s) \<Rightarrow> (Inl e, s) | (Inr a, s) \<Rightarrow> f a s)"

text \<open>\<open>map_err(io)\<close>\<close>

definition io_of :: "str \<Rightarrow> (socks_error + 'a) \<times> stream \<Rightarrow> (ssh_error + 'a) \<times> stream" where
  "io_of target m = (case m of (Inl e, s) \<Rightarrow> (Inl (Network target IoFailed), s) | (Inr a, s) \<Rightarrow> (Inr a, s))"

definition proxy_fail :: "str \<Rightarrow> string \<Rightarrow> stream \<Rightarrow> (ssh_error + 'a) \<times> stream" where
  "proxy_fail target message s = (Inl (Network target (Said (lit ''SOCKS5 proxy: '' @ lit message))), s)"

definition socks_login :: "str \<Rightarrow> (str \<times> str) option \<Rightarrow> stream \<Rightarrow> (ssh_error + unit) \<times> stream" where
  "socks_login target login s =
     (case login of
        None \<Rightarrow> proxy_fail target ''it asks for a user name and password'' s
      | Some (user, password) \<Rightarrow>
          if byte_len user > 255 \<or> byte_len password > 255
          then proxy_fail target ''the user name or password is longer than 255 bytes'' s
          else
            pbind (io_of target (write_all (1 # word_of_nat (byte_len user) # utf8 user @
              word_of_nat (byte_len password) # utf8 password) s)) (\<lambda>_ s.
            pbind (io_of target (read_exact 2 s)) (\<lambda>status s.
            if status ! 1 \<noteq> 0 then proxy_fail target ''the user name or password was refused'' s else (Inr (), s))))"

definition socks_choice :: "str \<Rightarrow> (str \<times> str) option \<Rightarrow> byte \<Rightarrow> stream \<Rightarrow> (ssh_error + unit) \<times> stream" where
  "socks_choice target login choice s =
     (if choice = 0 then (Inr (), s)
      else if choice = 2 then socks_login target login s
      else if choice = 255 then proxy_fail target ''none of our authentication methods is accepted'' s
      else proxy_fail target ''it chose an unknown authentication method'' s)"

text \<open>The address in a request; a name of more than 255 bytes has none.\<close>

definition request_address :: "str \<Rightarrow> bytes option" where
  "request_address bare =
     (case parse_ip bare of
        Some (V4 octets) \<Rightarrow> Some (1 # octets)
      | Some (V6 octets) \<Rightarrow> Some (4 # octets)
      | _ \<Rightarrow> if byte_len bare > 255 then None else Some (3 # word_of_nat (byte_len bare) # utf8 bare))"

definition refusal :: "byte \<Rightarrow> string" where
  "refusal code =
     (if code = 2 then ''the connection is not allowed by its rules''
      else if code = 3 then ''the network is unreachable''
      else if code = 4 then ''the host is unreachable''
      else if code = 5 then ''the connection was refused''
      else if code = 6 then ''the connection timed out''
      else ''the connection failed'')"

definition socks_bound :: "str \<Rightarrow> byte \<Rightarrow> stream \<Rightarrow> (ssh_error + nat) \<times> stream" where
  "socks_bound target kind s =
     (if kind = 1 then (Inr 4, s)
      else if kind = 4 then (Inr 16, s)
      else if kind = 3 then pbind (io_of target (read_exact 1 s)) (\<lambda>len s. (Inr (unat (len ! 0)), s))
      else proxy_fail target ''an unknown address type in its reply'' s)"

definition socks5 :: "str \<Rightarrow> nat \<Rightarrow> (str \<times> str) option \<Rightarrow> stream \<Rightarrow> (ssh_error + unit) \<times> stream" where
  "socks5 host port login s =
     (let target = proxy_address host port;
          methods = (if login = None then [0] else [0, 2])
      in pbind (io_of target (write_all (5 # word_of_nat (length methods) # methods) s)) (\<lambda>_ s.
         pbind (io_of target (read_exact 2 s)) (\<lambda>choice s.
         if choice ! 0 \<noteq> 5 then proxy_fail target ''not a SOCKS5 proxy'' s
         else pbind (socks_choice target login (choice ! 1) s) (\<lambda>_ s.
         case request_address (bare_host host) of
           None \<Rightarrow> proxy_fail target ''the host name is too long'' s
         | Some addr \<Rightarrow>
             pbind (io_of target (write_all ([5, 1, 0] @ addr @ be16 port) s)) (\<lambda>_ s.
             pbind (io_of target (read_exact 4 s)) (\<lambda>reply s.
             if reply ! 1 \<noteq> 0 then proxy_fail target (refusal (reply ! 1)) s
             else pbind (socks_bound target (reply ! 3) s) (\<lambda>skip s.
             pbind (io_of target (read_exact (skip + 2) s)) (\<lambda>_ s. (Inr (), s)))))))))"

subsection \<open>HTTP CONNECT\<close>

definition CRLF2 :: bytes where "CRLF2 = [13, 10, 13, 10]"

definition ends_with :: "bytes \<Rightarrow> bytes \<Rightarrow> bool" where
  "ends_with bs suffix \<longleftrightarrow> length suffix \<le> length bs \<and> drop (length bs - length suffix) bs = suffix"

definition MAX_HEAD :: nat where "MAX_HEAD = 16 * 1024"

text \<open>The loop that reads the head of the answer byte by byte.\<close>

function read_head :: "str \<Rightarrow> bytes \<Rightarrow> stream \<Rightarrow> (ssh_error + bytes) \<times> stream" where
  "read_head target head s =
     (if ends_with head CRLF2 then (Inr head, s)
      else if length head > MAX_HEAD then (Inl (Network target (Said (lit ''HTTP proxy: the reply is too long''))), s)
      else case read_exact 1 s of
             (Inl e, s') \<Rightarrow> (Inl (Network target IoFailed), s')
           | (Inr bs, s') \<Rightarrow> read_head target (head @ bs) s')"
  by pat_completeness auto

termination
  by (relation "measure (\<lambda>(target, head, s). length (incoming s))")
     (auto simp: read_exact_def split: if_splits)

declare read_head.simps [simp del]

definition http_request :: "(bytes \<Rightarrow> str) \<Rightarrow> str \<Rightarrow> (str \<times> str) option \<Rightarrow> str" where
  "http_request base64 target login =
     lit ''CONNECT '' @ target @ lit '' HTTP/1.1'' @ [13, 10] @ lit ''Host: '' @ target @ [13, 10] @
     (case login of
        Some (user, password) \<Rightarrow>
          lit ''Proxy-Authorization: Basic '' @ base64 (utf8 (user @ 58 # password)) @ [13, 10]
      | None \<Rightarrow> []) @ [13, 10]"

definition status_of :: "str \<Rightarrow> nat" where
  "status_of line =
     (case split_whitespace line of
        _ # code # _ \<Rightarrow> (case parse_uint u16_max code of Some n \<Rightarrow> n | None \<Rightarrow> 0)
      | _ \<Rightarrow> 0)"

definition http_connect :: "(bytes \<Rightarrow> str) \<Rightarrow> str \<Rightarrow> nat \<Rightarrow> (str \<times> str) option \<Rightarrow> stream \<Rightarrow> (ssh_error + unit) \<times> stream" where
  "http_connect base64 host port login s =
     (let target = proxy_address host port
      in pbind (io_of target (write_all (utf8 (http_request base64 target login)) s)) (\<lambda>_ s.
         pbind (read_head target [] s) (\<lambda>head s.
         let line = from_utf8_lossy head; status = status_of line
         in if 200 \<le> status \<and> status < 300 then (Inr (), s)
            else (Inl (Network target (Said (lit ''HTTP proxy answered '' @
                   trim (case str_lines line of first # _ \<Rightarrow> first | [] \<Rightarrow> [])))), s))))"

subsection \<open>Proxy commands\<close>

fun expand_command :: "str \<Rightarrow> str \<Rightarrow> nat \<Rightarrow> str \<Rightarrow> str" where
  "expand_command [] host port user = []"
| "expand_command [c] host port user = [c]"
| "expand_command (c # d # cs) host port user =
     (if c \<noteq> 37 then c # expand_command (d # cs) host port user
      else if d = 104 then host @ expand_command cs host port user
      else if d = 112 then decimal port @ expand_command cs host port user
      else if d = 114 then user @ expand_command cs host port user
      else if d = 37 then 37 # expand_command cs host port user
      else 37 # d # expand_command cs host port user)"

lemma expand_example:
  "expand_command (lit ''nc %h %p # %r %% %x'') (lit ''web'') 22 (lit ''me'') = lit ''nc web 22 # me % %x''"
  by (simp add: lit_def decimal.simps)

lemma address_example: "proxy_address (lit ''::1'') 22 = lit ''[::1]:22''"
  by (simp add: lit_def decimal.simps proxy_address_def starts_with_def)

subsection \<open>The two ends of SOCKS5\<close>

lemma read_octets_length: "read_octets n i s = Some (xs, rest) \<Longrightarrow> length xs = n"
  by (induction n arbitrary: i s xs rest) (auto split: option.splits)

lemma read_groups_length: "fst (read_groups n i s) = gs \<Longrightarrow> length gs \<le> n"
proof (induction n arbitrary: i s gs)
  case (Suc n)
  have "length (fst (read_groups n (Suc i) s)) \<le> n" for s using Suc.IH by blast
  then show ?case using Suc.prems by (auto split: option.splits prod.splits if_splits) (metis fst_conv)+
qed simp

lemma read_ipv6_length:
  assumes "read_ipv6 s = Some (gs, rest)"
  shows "length gs = 8"
proof -
  obtain head v4 s1 where h: "read_groups 8 0 s = (head, v4, s1)" by (rule prod_cases3)
  then have "length head \<le> 8" using read_groups_length [of 8 0 s head] by simp
  moreover have "length tail \<le> 8 - (length head + 1)" if "read_groups (8 - (length head + 1)) 0 s2 = (tail, v, s3)" for s2 tail v s3
    using that read_groups_length [of "8 - (length head + 1)" 0 s2 tail] by simp
  ultimately show ?thesis
    using assms h by (fastforce simp: read_ipv6_def split: if_splits list.splits prod.splits)
qed

lemma length_be16s: "length (concat (map be16 gs)) = 2 * length gs"
  by (induction gs) simp_all

lemma parse_ip_ok: "parse_ip s = Some addr \<Longrightarrow> address_ok addr"
  using read_octets_length read_ipv6_length
  by (fastforce simp: parse_ip_def length_be16s split: option.splits if_splits)

text \<open>What is asked for: an address, or else a name.\<close>

definition asked_for :: "str \<Rightarrow> socks_address" where
  "asked_for bare = (case parse_ip bare of Some addr \<Rightarrow> addr | None \<Rightarrow> DomainName (utf8 bare))"

lemma not_a_name: "parse_ip s \<noteq> Some (DomainName name)"
  by (auto simp: parse_ip_def split: option.splits if_splits)

lemma request_address_asked:
  assumes "parse_ip bare \<noteq> None \<or> byte_len bare \<le> 255"
  shows "request_address bare = Some (encode_address (asked_for bare)) \<and> address_ok (asked_for bare)"
proof (cases "parse_ip bare")
  case None
  then show ?thesis using assms by (simp add: request_address_def asked_for_def length_utf8)
next
  case (Some addr)
  then show ?thesis
    using parse_ip_ok [OF Some] not_a_name [of bare] by (cases addr) (auto simp: request_address_def asked_for_def)
qed

lemma pbind_simps [simp]: "pbind (Inl e, s) f = (Inl e, s)" "pbind (Inr a, s) f = f a s"
  by (simp_all add: pbind_def)

lemma io_of_simps [simp]: "io_of t (Inl e, s) = (Inl (Network t IoFailed), s)" "io_of t (Inr a, s) = (Inr a, s)"
  by (simp_all add: io_of_def)

definition offered :: "(str \<times> str) option \<Rightarrow> bytes" where
  "offered login = (if login = None then [0] else [0, 2])"

lemma socks5_run:
  assumes "parse_ip (bare_host host) \<noteq> None \<or> byte_len (bare_host host) \<le> 255" "write_faults s = []"
    and "incoming s = [5, 0, 5, 0, 0, 1, 0, 0, 0, 0, 0, 0] @ rest"
  shows "socks5 host port login s = (Inr (), s\<lparr>incoming := rest, sent := sent s @ greeting (offered login) @
    request 1 0 (asked_for (bare_host host)) port\<rparr>)"
proof -
  let ?addr = "asked_for (bare_host host)"
  let ?greeted = "\<lambda>bs. \<lparr>incoming = bs @ rest, sent = sent s @ greeting (offered login), write_faults = []\<rparr>"
  let ?asked = "\<lambda>bs. \<lparr>incoming = bs @ rest, sent = sent s @ greeting (offered login) @ request 1 0 ?addr port,
      write_faults = []\<rparr>"
  have greet: "write_all (5 # word_of_nat (length (offered login)) # offered login) s =
      (Inr (), ?greeted [5, 0, 5, 0, 0, 1, 0, 0, 0, 0, 0, 0])"
    using assms(2,3) by (cases s) (simp add: write_all_def greeting_def)
  have choice: "read_exact 2 (?greeted [5, 0, 5, 0, 0, 1, 0, 0, 0, 0, 0, 0]) =
      (Inr [5, 0], ?greeted [5, 0, 0, 1, 0, 0, 0, 0, 0, 0])"
    by (subst read_exact_eq [of _ "[5, 0]"]) simp_all
  have ask: "write_all ([5, 1, 0] @ encode_address ?addr @ be16 port) (?greeted bs) = (Inr (), ?asked bs)" for bs
    using assms(2) by (simp add: write_all_def request_def)
  have reply: "read_exact 4 (?asked [5, 0, 0, 1, 0, 0, 0, 0, 0, 0]) = (Inr [5, 0, 0, 1], ?asked [0, 0, 0, 0, 0, 0])"
    by (subst read_exact_eq [of _ "[5, 0, 0, 1]"]) simp_all
  have bound: "read_exact (4 + 2) (?asked [0, 0, 0, 0, 0, 0]) = (Inr [0, 0, 0, 0, 0, 0], ?asked [])"
    by (subst read_exact_eq [of _ "[0, 0, 0, 0, 0, 0]"]) simp_all
  show ?thesis
    unfolding socks5_def Let_def offered_def [symmetric] greet choice io_of_simps pbind_simps
    using request_address_asked [OF assms(1)] ask [of "[5, 0, 0, 1, 0, 0, 0, 0, 0, 0]"] reply bound assms(2)
    by (cases s) (simp add: socks_choice_def socks_bound_def)
qed

text \<open>
  C31: the client and the server of this repository understand each other. For every host (a name of
  up to 255 bytes or an address, in brackets or not), port and login there is an exchange in which
  each end reads exactly what the other sent: the client succeeds and leaves what follows for SSH,
  and the server connects to the host and port that the client was given, an address in the
  canonical form, and leaves what the client sends next.
\<close>

theorem socks_ends_agree:
  assumes "parse_ip (bare_host host) \<noteq> None \<or> byte_len (bare_host host) \<le> 255" "list_all scalar host" "port < 65536"
  shows "\<exists>client server.
    socks5 host port login \<lparr>incoming = sent server @ rest, sent = [], write_faults = []\<rparr> = (Inr (), client) \<and>
    incoming client = rest \<and>
    sbind (socks_accept \<lparr>incoming = sent client @ later, sent = [], write_faults = []\<rparr>)
      (\<lambda>to s. sbind (socks_reply Succeeded s) (\<lambda>_ s. (Inr to, s))) =
    (Inr (case parse_ip (bare_host host) of Some addr \<Rightarrow> address_text addr | None \<Rightarrow> bare_host host, port), server) \<and>
    incoming server = later"
proof -
  let ?addr = "asked_for (bare_host host)"
  let ?client = "\<lparr>incoming = rest, sent = greeting (offered login) @ request 1 0 ?addr port, write_faults = []\<rparr>"
  let ?server = "\<lparr>incoming = later, sent = [5, 0, 5, 0, 0, 1, 0, 0, 0, 0, 0, 0], write_faults = []\<rparr>"
  have ok: "address_ok ?addr" using request_address_asked [OF assms(1)] by blast
  have client: "socks5 host port login \<lparr>incoming = sent ?server @ rest, sent = [], write_faults = []\<rparr> = (Inr (), ?client)"
    by (subst socks5_run [OF assms(1)]) simp_all
  have "set (bare_host host) \<subseteq> set host"
    by (auto simp: bare_host_def trim_end_char_def dest!: set_dropWhileD)
  then have "list_all scalar (bare_host host)" using assms(2) by (auto simp: list_all_iff)
  then have seen: "address_text ?addr =
      (case parse_ip (bare_host host) of Some addr \<Rightarrow> address_text addr | None \<Rightarrow> bare_host host)"
    by (simp add: asked_for_def from_utf8_lossy_utf8 split: option.split)
  have "socks_accept \<lparr>incoming = sent ?client @ later, sent = [], write_faults = []\<rparr> =
      (Inr (address_text ?addr, port), \<lparr>incoming = later, sent = [5, 0], write_faults = []\<rparr>)"
    by (subst socks_request [where methods = "offered login" and cmd = 1 and reserved = 0 and addr = ?addr and rest = later])
      (simp_all add: ok assms(3) offered_def)
  then have "sbind (socks_accept \<lparr>incoming = sent ?client @ later, sent = [], write_faults = []\<rparr>)
      (\<lambda>to s. sbind (socks_reply Succeeded s) (\<lambda>_ s. (Inr to, s))) = (Inr (address_text ?addr, port), ?server)"
    by (simp add: socks_reply_def write_all_def)
  then show ?thesis
    using client unfolding seen by (intro exI [of _ ?client] exI [of _ ?server]) simp
qed

lemma web_is_a_name: "parse_ip (lit ''web'') = None" "bare_host (lit ''web'') = lit ''web''" "byte_len (lit ''web'') = 3"
proof -
  have web: "lit ''web'' = [119, 101, 98]" by (simp add: lit_def)
  have none: "read_number radix n zero most [119, 101, 98] = None" if "radix \<le> 16" for radix n zero most
    using that by (simp add: read_number_def digit_of_def)
  have octets: "read_octets (Suc n) 0 [119, 101, 98] = None" for n by (simp add: read_separated_def none)
  have groups: "read_groups (Suc n) 0 [119, 101, 98] = ([], False, [119, 101, 98])" for n
    using octets [of 3] by (simp add: read_separated_def none)
  show "parse_ip (lit ''web'') = None"
    using octets [of 3] groups [of 7] by (simp add: parse_ip_def read_ipv6_def web)
  show "bare_host (lit ''web'') = lit ''web''" "byte_len (lit ''web'') = 3"
    by (simp_all add: web bare_host_def trim_end_char_def byte_len_def utf8_len_def)
qed

lemma socks_ends_agree_witness:
  "\<exists>client server.
    socks5 (lit ''web'') 2222 (Some (lit ''me'', lit ''secret''))
      \<lparr>incoming = sent server @ [83, 83, 72], sent = [], write_faults = []\<rparr> = (Inr (), client) \<and>
    incoming client = [83, 83, 72] \<and>
    sbind (socks_accept \<lparr>incoming = sent client @ [42], sent = [], write_faults = []\<rparr>)
      (\<lambda>to s. sbind (socks_reply Succeeded s) (\<lambda>_ s. (Inr to, s))) = (Inr (lit ''web'', 2222), server) \<and>
    incoming server = [42]"
  using socks_ends_agree [of "lit ''web''" 2222 "Some (lit ''me'', lit ''secret'')" "[83, 83, 72]" "[42]"]
  by (simp add: web_is_a_name) (simp add: lit_def scalar_def)

subsection \<open>Where a password goes\<close>

text \<open>
  C32: the password for a SOCKS5 proxy is sent only to a proxy that asks for it. Unless the answer to
  the greeting chooses user and password, everything the client sends and its result are the same
  for any user and password.
\<close>

theorem password_only_when_asked:
  assumes "take 2 (incoming s) \<noteq> [5, 2]"
  shows "socks5 host port (Some login) s = socks5 host port (Some other) s"
proof -
  let ?t = "proxy_address host port"
  let ?greeted = "io_of ?t (write_all (5 # word_of_nat (length [0, 2 :: byte]) # [0, 2]) s)"
  have incoming: "incoming s1 = incoming s" if "?greeted = (Inr u, s1)" for u s1
    using that by (auto simp: io_of_def write_all_def split: list.splits bool.splits)
  have choice: "choice = take 2 (incoming s)" if "?greeted = (Inr u, s1)" "io_of ?t (read_exact 2 s1) = (Inr choice, s2)" for u s1 choice s2
    using that(2) incoming [OF that(1)] by (auto simp: io_of_def read_exact_def split: if_splits)
  have two: "xs = [xs ! 0, xs ! 1]" if "length xs = 2" for xs :: bytes
    using that by (auto simp: length_Suc_conv numeral_2_eq_2)
  have same: "socks_choice ?t (Some login) (choice ! 1) s2 = socks_choice ?t (Some other) (choice ! 1) s2"
    if "?greeted = (Inr u, s1)" "io_of ?t (read_exact 2 s1) = (Inr choice, s2)" "choice ! 0 = 5" for u s1 choice s2
  proof -
    have "length choice = 2" using that(2) by (auto simp: io_of_def read_exact_def split: if_splits)
    then have "choice ! 1 \<noteq> 2" using two [of choice] choice [OF that(1,2)] that(3) assms by metis
    then show ?thesis by (simp add: socks_choice_def)
  qed
  obtain r1 s1 where w: "?greeted = (r1, s1)" by (rule prod.exhaust)
  obtain r2 s2 where c: "io_of ?t (read_exact 2 s1) = (r2, s2)" by (rule prod.exhaust)
  show ?thesis
  proof (cases r1)
    case (Inl e)
    then show ?thesis using w by (simp add: socks5_def Let_def)
  next
    case r1: (Inr u)
    show ?thesis
    proof (cases r2)
      case (Inl e)
      then show ?thesis using w c r1 by (simp add: socks5_def Let_def)
    next
      case (Inr choice)
      then have "choice ! 0 = 5 \<Longrightarrow>
          socks_choice ?t (Some login) (choice ! 1) s2 = socks_choice ?t (Some other) (choice ! 1) s2"
        using same w c r1 by blast
      then show ?thesis using w c r1 Inr by (simp add: socks5_def Let_def)
    qed
  qed
qed

lemma password_only_when_asked_witness:
  "socks5 (lit ''web'') 22 (Some (lit ''me'', lit ''secret'')) \<lparr>incoming = [5, 0], sent = [], write_faults = []\<rparr> =
   socks5 (lit ''web'') 22 (Some ([], [])) \<lparr>incoming = [5, 0], sent = [], write_faults = []\<rparr>"
  by (rule password_only_when_asked) simp

subsection \<open>Where SSH begins\<close>

lemma read_head_Inr:
  "read_head target h s = (Inr head, s') \<Longrightarrow>
   \<exists>bs. incoming s = bs @ incoming s' \<and> head = h @ bs \<and> sent s' = sent s \<and> ends_with head CRLF2 \<and>
     (\<forall>k < length bs. \<not> ends_with (h @ take k bs) CRLF2 \<and> length h + k \<le> MAX_HEAD)"
proof (induction target h s arbitrary: s' rule: read_head.induct)
  case (1 target h s)
  show ?case
  proof (cases "ends_with h CRLF2")
    case True
    then show ?thesis using 1(2) by (simp add: read_head.simps [of target h s])
  next
    case False
    then have short: "length h \<le> MAX_HEAD" using 1(2) by (auto simp: read_head.simps [of target h s] split: if_splits)
    obtain bs s1 where byte: "read_exact 1 s = (Inr bs, s1)" and "read_head target (h @ bs) s1 = (Inr head, s')"
      using 1(2) False short by (auto simp: read_head.simps [of target h s] split: prod.splits sum.splits)
    then obtain more where more: "incoming s1 = more @ incoming s'" "head = (h @ bs) @ more" "sent s' = sent s1" "ends_with head CRLF2"
        "\<forall>k < length more. \<not> ends_with ((h @ bs) @ take k more) CRLF2 \<and> length (h @ bs) + k \<le> MAX_HEAD"
      using 1(1) [OF False _ byte [symmetric] refl, of s'] short by auto
    have one: "length bs = 1" "incoming s = bs @ incoming s1" "sent s1 = sent s" using read_exact_Inr [OF byte] by auto
    have "\<not> ends_with (h @ take k (bs @ more)) CRLF2 \<and> length h + k \<le> MAX_HEAD" if "k < length (bs @ more)" for k
    proof (cases k)
      case 0
      then show ?thesis using False short by simp
    next
      case (Suc j)
      then show ?thesis using more(5) that one(1) by (auto simp: take_append)
    qed
    then show ?thesis using more one by (intro exI [of _ "bs @ more"]) auto
  qed
qed

text \<open>
  C33: after a successful CONNECT the stream stands exactly behind the head of the proxy's answer, at
  its first empty line, so that no byte of SSH is lost or taken for HTTP; the head has at most 16 KiB
  and one byte, its status was 2xx, and only the request was sent.
\<close>

theorem connect_stops_at_empty_line:
  assumes "http_connect base64 host port login s = (Inr (), s')"
  shows "\<exists>head. incoming s = head @ incoming s' \<and> ends_with head CRLF2 \<and>
    list_all (\<lambda>k. \<not> ends_with (take k head) CRLF2) [0..<length head] \<and> length head \<le> MAX_HEAD + 1 \<and>
    status_of (from_utf8_lossy head) \<in> {200..<300} \<and>
    sent s' = sent s @ utf8 (http_request base64 (proxy_address host port) login)"
proof -
  let ?t = "proxy_address host port"
  obtain s1 head where w: "io_of ?t (write_all (utf8 (http_request base64 ?t login)) s) = (Inr (), s1)"
    and r: "read_head ?t [] s1 = (Inr head, s')"
    and status: "status_of (from_utf8_lossy head) \<in> {200..<300}"
    using assms by (auto simp: http_connect_def Let_def pbind_def split: prod.splits sum.splits if_splits)
  have s1: "sent s1 = sent s @ utf8 (http_request base64 ?t login)" "incoming s1 = incoming s"
    using w write_all_Inr by (auto simp: io_of_def split: prod.splits sum.splits)
  obtain bs where bs: "incoming s1 = bs @ incoming s'" "head = bs" "sent s' = sent s1" "ends_with head CRLF2"
      "\<forall>k < length bs. \<not> ends_with (take k bs) CRLF2 \<and> k \<le> MAX_HEAD"
    using read_head_Inr [OF r] by auto
  then have "length head \<le> MAX_HEAD + 1" by (cases "length bs") auto
  then show ?thesis using bs s1 status by (intro exI [of _ head]) (simp add: list_all_iff)
qed

definition short_answer :: bytes where
  "short_answer = [72, 32, 50, 48, 48, 13, 10, 13, 10]"

lemma short_answer_head:
  "read_head target [] \<lparr>incoming = short_answer @ rest, sent = out, write_faults = []\<rparr> =
   (Inr short_answer, \<lparr>incoming = rest, sent = out, write_faults = []\<rparr>)"
  by (simp add: short_answer_def read_head.simps ends_with_def CRLF2_def MAX_HEAD_def read_exact_def)

lemma short_answer_status: "status_of (from_utf8_lossy short_answer) = 200"
  by (simp add: short_answer_def from_utf8_lossy.simps byte_tests cont_def status_of_def split_whitespace_def is_whitespace_def
      parse_uint_def is_digit_def u16_max_def)

lemma connect_stops_at_empty_line_witness:
  "\<exists>head. short_answer @ [83, 83, 72] = head @ [83, 83, 72] \<and> ends_with head CRLF2 \<and>
    list_all (\<lambda>k. \<not> ends_with (take k head) CRLF2) [0..<length head] \<and> length head \<le> MAX_HEAD + 1 \<and>
    status_of (from_utf8_lossy head) \<in> {200..<300}"
proof -
  let ?sent = "utf8 (http_request (\<lambda>_. []) (proxy_address (lit ''web'') 22) None)"
  have "http_connect (\<lambda>_. []) (lit ''web'') 22 None \<lparr>incoming = short_answer @ [83, 83, 72], sent = [], write_faults = []\<rparr> =
      (Inr (), \<lparr>incoming = [83, 83, 72], sent = ?sent, write_faults = []\<rparr>)"
    by (simp add: http_connect_def Let_def write_all_def short_answer_head short_answer_status)
  from connect_stops_at_empty_line [OF this] show ?thesis by auto
qed

end
