(* ===== verification/Snippets.thy ===== *)
theory Snippets
  imports Tunnels
begin

text \<open>
  Snippets and macros in \<open>snippets.toml\<close> (\<open>crates/opensesh-core/src/snippets.rs\<close>): the pieces of a
  snippet's text, what can be used, and the file. As in Tunnels, a closure that takes a key from a
  table and may warn is a function on the table and the warnings so far. What the regex crate says
  of a pattern, and \<open>str::to_lowercase\<close>, are parameters.
\<close>

definition SNIPPETS_FILE :: str where "SNIPPETS_FILE = lit ''snippets.toml''"
definition SNIPPETS_SCHEMA :: int where "SNIPPETS_SCHEMA = 1"
definition MAX_SHORT :: nat where "MAX_SHORT = 255"
definition MAX_SNIPPET :: nat where "MAX_SNIPPET = 64 * 1024"
definition MAX_WAIT_MS :: nat where "MAX_WAIT_MS = 600000"
definition DEFAULT_TIMEOUT_MS :: nat where "DEFAULT_TIMEOUT_MS = 10000"

definition SNIPPETS_HEADER :: str where
  "SNIPPETS_HEADER = lit ''# OpenSesh snippets and macros. OpenSesh rewrites this file when a snippet is'' @ [10] @
     lit ''# changed in the app: comments are not kept.'' @ [10]"

datatype step = Send str | Delay nat | WaitFor str nat

record snippet =
  sp_id :: str
  sp_name :: str
  sp_folder :: str
  sp_tags :: "str list"
  sp_description :: str
  sp_shortcut :: str
  sp_text :: str
  sp_steps :: "step list"
  sp_extra :: table

subsection \<open>The pieces of a text\<close>

datatype snippet_part = PText str | PVariable str | PSecret str

definition part_of :: "str \<Rightarrow> snippet_part option" where
  "part_of inner =
     (case split_at_char 58 inner of
        Some (kind, reference) \<Rightarrow>
          if trim kind = lit ''secret'' \<and> trim reference \<noteq> [] then Some (PSecret (trim reference))
          else if inner \<noteq> [] \<and> 123 \<notin> set inner \<and> 10 \<notin> set inner then Some (PVariable inner)
          else None
      | None \<Rightarrow> if inner \<noteq> [] \<and> 123 \<notin> set inner \<and> 10 \<notin> set inner then Some (PVariable inner) else None)"

definition plain_part :: "str \<Rightarrow> snippet_part list" where
  "plain_part plain = (if plain = [] then [] else [PText plain])"

lemma split_once_shrinks: "split_once s sep = Some (a, b) \<Longrightarrow> sep \<noteq> [] \<Longrightarrow> length b < length s"
  by (induction s arbitrary: a b) (auto split: if_splits)

text \<open>The loop, with the plain text so far and what is left.\<close>

function parse_parts :: "str \<Rightarrow> str \<Rightarrow> snippet_part list" where
  "parse_parts plain rest =
     (case split_once rest (lit ''{{'') of
        None \<Rightarrow> plain_part (plain @ rest)
      | Some (before, behind) \<Rightarrow>
          (case split_once behind (lit ''}}'') of
             None \<Rightarrow> plain_part (plain @ rest)
           | Some (inner, behind) \<Rightarrow>
               (case part_of (trim inner) of
                  Some p \<Rightarrow> plain_part (plain @ before) @ p # parse_parts [] behind
                | None \<Rightarrow> parse_parts (plain @ before @ lit ''{{'' @ inner @ lit ''}}'') behind)))"
  by pat_completeness auto

termination
  by (relation "measure (\<lambda>(plain, rest). length rest)")
     (auto simp: lit_def dest!: split_once_shrinks)

declare parse_parts.simps [simp del]

definition parse_snippet :: "str \<Rightarrow> snippet_part list" where
  "parse_snippet s = parse_parts [] s"

fun render_parts :: "(snippet_part \<Rightarrow> str option) \<Rightarrow> snippet_part list \<Rightarrow> snippet_part + str" where
  "render_parts value_of [] = Inr []"
| "render_parts value_of (p # ps) =
     (case (case p of PText plain \<Rightarrow> Some plain | _ \<Rightarrow> value_of p) of
        None \<Rightarrow> Inl p
      | Some filled \<Rightarrow> (case render_parts value_of ps of Inl e \<Rightarrow> Inl e | Inr out \<Rightarrow> Inr (filled @ out)))"

definition snippet_render :: "(snippet_part \<Rightarrow> str option) \<Rightarrow> str \<Rightarrow> snippet_part + str" where
  "snippet_render value_of s = render_parts value_of (parse_snippet s)"

subsection \<open>Snippets\<close>

definition is_macro :: "snippet \<Rightarrow> bool" where
  "is_macro s \<longleftrightarrow> sp_steps s \<noteq> []"

definition sent_texts :: "snippet \<Rightarrow> str list" where
  "sent_texts s =
     (if is_macro s then List.map_filter (\<lambda>st. case st of Send t \<Rightarrow> Some t | _ \<Rightarrow> None) (sp_steps s) else [sp_text s])"

text \<open>Each once, in order.\<close>

definition push_new :: "'a list \<Rightarrow> 'a \<Rightarrow> 'a list" where
  "push_new out x = (if x \<in> set out then out else out @ [x])"

definition variables :: "snippet \<Rightarrow> str list" where
  "variables s =
     foldl (\<lambda>out p. case p of PVariable n \<Rightarrow> push_new out n | _ \<Rightarrow> out) [] (concat (map parse_snippet (sent_texts s)))"

definition snippet_secrets :: "snippet \<Rightarrow> str list" where
  "snippet_secrets s =
     foldl (\<lambda>out p. case p of PSecret n \<Rightarrow> push_new out n | _ \<Rightarrow> out) [] (concat (map parse_snippet (sent_texts s)))"

definition short_bad :: "str \<Rightarrow> bool" where
  "short_bad v \<longleftrightarrow> length v > MAX_SHORT \<or> list_ex (\<lambda>c. is_control c \<and> c \<noteq> 10) v"

definition step_problem :: "(str \<Rightarrow> str option) \<Rightarrow> nat \<Rightarrow> step \<Rightarrow> str option" where
  "step_problem bad_pattern number st =
     (let at_step = lit ''step '' @ decimal number
      in case st of
           Send t \<Rightarrow> if t = [] \<or> byte_len t > MAX_SNIPPET then Some (at_step @ lit '' has nothing to type, or too much'') else None
         | Delay ms \<Rightarrow> if ms = 0 \<or> ms > MAX_WAIT_MS then Some (at_step @ lit '': a pause of 1 ms to 10 minutes'') else None
         | WaitFor pattern ms \<Rightarrow>
             (case bad_pattern pattern of
                Some error \<Rightarrow> Some (at_step @ lit '': the pattern is not valid ('' @ error @ lit '')'')
              | None \<Rightarrow>
                  if pattern = [] then Some (at_step @ lit '': the pattern is empty'')
                  else if ms = 0 \<or> ms > MAX_WAIT_MS then Some (at_step @ lit '': a timeout of 1 ms to 10 minutes'')
                  else None))"

fun steps_problem :: "(str \<Rightarrow> str option) \<Rightarrow> nat \<Rightarrow> step list \<Rightarrow> str option" where
  "steps_problem bad_pattern number [] = None"
| "steps_problem bad_pattern number (st # sts) =
     (case step_problem bad_pattern number st of Some p \<Rightarrow> Some p | None \<Rightarrow> steps_problem bad_pattern (Suc number) sts)"

definition too_long :: "string \<Rightarrow> str" where
  "too_long what = lit what @ lit '' is too long or has control characters''"

definition snippet_problem :: "(str \<Rightarrow> str option) \<Rightarrow> snippet \<Rightarrow> str option" where
  "snippet_problem bad_pattern s =
     (if trim (sp_name s) = [] then Some (lit ''a name is needed'')
      else if short_bad (sp_name s) then Some (too_long ''the name'')
      else if short_bad (sp_folder s) then Some (too_long ''the folder'')
      else if short_bad (sp_description s) then Some (too_long ''the description'')
      else if short_bad (sp_shortcut s) then Some (too_long ''the shortcut'')
      else if \<not> is_macro s \<and> sp_text s = [] then Some (lit ''there is nothing to type'')
      else if byte_len (sp_text s) > MAX_SNIPPET then Some (lit ''the text is too long'')
      else steps_problem bad_pattern 1 (sp_steps s))"

subsection \<open>Reading a snippet\<close>

definition snippet_key :: "nat \<Rightarrow> str \<Rightarrow> str" where
  "snippet_key index name =
     lit ''snippet['' @ decimal index @ lit '']'' @ (if name = [] then [] else lit ''.'' @ name)"

definition snippet_warn :: "nat \<Rightarrow> str \<Rightarrow> str \<Rightarrow> warning" where
  "snippet_warn index name message = \<lparr>wn_key = snippet_key index name, wn_message = message\<rparr>"

text \<open>The closure \<open>text\<close>.\<close>

definition snippet_text :: "nat \<Rightarrow> string \<Rightarrow> reading \<Rightarrow> str \<times> reading" where
  "snippet_text index name r =
     (let t = bt_remove (lit name) (fst r)
      in case bt_get (fst r) (lit name) of
           None \<Rightarrow> ([], t, snd r)
         | Some (VString v) \<Rightarrow> (v, t, snd r)
         | Some other \<Rightarrow>
             ([], t, snd r @ [snippet_warn index (lit name) (lit ''expected a string, found '' @ type_str other)]))"

definition tags_of :: "toml_value list \<Rightarrow> str list" where
  "tags_of vs = filter (\<lambda>tag. tag \<noteq> []) (map trim (List.map_filter as_str vs))"

definition snippet_tags :: "nat \<Rightarrow> reading \<Rightarrow> str list \<times> reading" where
  "snippet_tags index r =
     (let t = bt_remove (lit ''tags'') (fst r)
      in case bt_get (fst r) (lit ''tags'') of
           None \<Rightarrow> ([], t, snd r)
         | Some (VArray vs) \<Rightarrow> (tags_of vs, t, snd r)
         | Some other \<Rightarrow>
             ([], t, snd r @ [snippet_warn index (lit ''tags'') (lit ''expected a list, found '' @ type_str other)]))"

definition millis :: "toml_value option \<Rightarrow> string \<Rightarrow> str + nat option" where
  "millis v name =
     (case v of
        None \<Rightarrow> Inr None
      | Some (VInteger ms) \<Rightarrow> if 0 \<le> ms then Inr (Some (nat ms)) else Inl (lit name @ lit '' can'' @ [39] @ lit ''t be negative'')
      | Some other \<Rightarrow> Inl (lit name @ lit '': expected a number, found '' @ type_str other))"

definition step_from :: "toml_value \<Rightarrow> str + step" where
  "step_from v =
     (case v of
        VTable t \<Rightarrow>
          (case bt_get t (lit ''send'') of
             Some (VString s) \<Rightarrow> Inr (Send s)
           | Some other \<Rightarrow> Inl (lit ''send: expected a string, found '' @ type_str other)
           | None \<Rightarrow>
               (case bt_get t (lit ''wait_for'') of
                  Some (VString pattern) \<Rightarrow>
                    map_sum id (\<lambda>ms. WaitFor pattern (case ms of Some n \<Rightarrow> n | None \<Rightarrow> DEFAULT_TIMEOUT_MS))
                      (millis (bt_get t (lit ''timeout_ms'')) ''timeout_ms'')
                | Some other \<Rightarrow> Inl (lit ''wait_for: expected a string'')
                | None \<Rightarrow>
                    (case millis (bt_get t (lit ''delay_ms'')) ''delay_ms'' of
                       Inl e \<Rightarrow> Inl e
                     | Inr (Some ms) \<Rightarrow> Inr (Delay ms)
                     | Inr None \<Rightarrow> Inl (lit ''a step has send, wait_for or delay_ms''))))
      | other \<Rightarrow> Inl (lit ''a step is a table''))"

text \<open>The steps, or the first that cannot be read, with its number.\<close>

fun steps_from :: "nat \<Rightarrow> toml_value list \<Rightarrow> (nat \<times> str) + step list" where
  "steps_from number [] = Inr []"
| "steps_from number (v # vs) =
     (case step_from v of
        Inl e \<Rightarrow> Inl (number, e)
      | Inr st \<Rightarrow> map_sum id ((#) st) (steps_from (Suc number) vs))"

definition normalize_folder :: "str \<Rightarrow> str" where
  "normalize_folder folder = join_with (lit ''/'') (filter (\<lambda>p. p \<noteq> []) (map trim (split_on 47 folder)))"

definition snippet_from_table :: "(str \<Rightarrow> str option) \<Rightarrow> table \<Rightarrow> nat \<Rightarrow> warning list \<Rightarrow> snippet option \<times> warning list" where
  "snippet_from_table bad_pattern table index warnings =
     (let (sid, r) = snippet_text index ''id'' (table, warnings);
          sid = trim sid
      in if sid = [] \<or> list_ex is_control sid
         then (None, snd r @ [snippet_warn index (lit ''id'') (lit ''missing or not valid; the snippet is skipped'')])
         else
           let (name, r) = snippet_text index ''name'' r;
               (folder, r) = snippet_text index ''folder'' r;
               (description, r) = snippet_text index ''description'' r;
               (shortcut, r) = snippet_text index ''shortcut'' r;
               (body, r) = snippet_text index ''text'' r;
               (tags, r) = snippet_tags index r;
               found = bt_get (fst r) (lit ''step'');
               extra = bt_remove (lit ''step'') (fst r)
           in case (case found of None \<Rightarrow> Inr [] | Some (VArray vs) \<Rightarrow> map_sum Some id (steps_from 0 vs) | Some _ \<Rightarrow> Inl None) of
                Inl (Some (number, message)) \<Rightarrow>
                  (None, snd r @ [snippet_warn index (lit ''step['' @ decimal number @ lit '']'')
                    (message @ lit ''; the snippet is skipped'')])
              | Inl None \<Rightarrow>
                  (None, snd r @ [snippet_warn index (lit ''step'') (lit ''expected an array of tables, found '' @
                    type_str (the found))])
              | Inr steps \<Rightarrow>
                  (let s = \<lparr>sp_id = sid, sp_name = trim name, sp_folder = normalize_folder folder, sp_tags = tags,
                            sp_description = description, sp_shortcut = trim shortcut, sp_text = body,
                            sp_steps = steps, sp_extra = extra\<rparr>
                   in case snippet_problem bad_pattern s of
                        Some problem \<Rightarrow> (None, snd r @ [snippet_warn index [] (problem @ lit ''; the snippet is skipped'')])
                      | None \<Rightarrow> (Some s, snd r)))"

subsection \<open>Writing a snippet\<close>

definition i64_of :: "nat \<Rightarrow> int" where
  "i64_of n = (if int n \<le> 2 ^ 63 - 1 then int n else 2 ^ 63 - 1)"

fun step_table :: "step \<Rightarrow> table" where
  "step_table (Send t) = put_text (lit ''send'') t []"
| "step_table (Delay ms) = bt_insert (lit ''delay_ms'') (VInteger (i64_of ms)) []"
| "step_table (WaitFor pattern ms) =
     bt_insert (lit ''timeout_ms'') (VInteger (i64_of ms)) (put_text (lit ''wait_for'') pattern [])"

definition snippet_to_table :: "snippet \<Rightarrow> table" where
  "snippet_to_table s =
     (let table = put_text (lit ''id'') (sp_id s) (sp_extra s);
          table = put_text (lit ''name'') (sp_name s) table;
          table = put_if (sp_folder s \<noteq> []) (put_text (lit ''folder'') (sp_folder s)) table;
          table = put_if (sp_tags s \<noteq> []) (bt_insert (lit ''tags'') (VArray (map VString (sp_tags s)))) table;
          table = put_if (sp_description s \<noteq> []) (put_text (lit ''description'') (sp_description s)) table;
          table = put_if (sp_shortcut s \<noteq> []) (put_text (lit ''shortcut'') (sp_shortcut s)) table
      in if is_macro s then bt_insert (lit ''step'') (VArray (map (\<lambda>st. VTable (step_table st)) (sp_steps s))) table
         else put_text (lit ''text'') (sp_text s) table)"

subsection \<open>The file\<close>

record snippets_file =
  sf_snippets :: "snippet list"
  sf_extra :: table
  sf_read_only :: bool

definition no_snippets :: snippets_file where
  "no_snippets = \<lparr>sf_snippets = [], sf_extra = [], sf_read_only = False\<rparr>"

fun read_snippets :: "(str \<Rightarrow> str option) \<Rightarrow> nat \<Rightarrow> toml_value list \<Rightarrow> snippet list \<Rightarrow> warning list \<Rightarrow>
    snippet list \<times> warning list" where
  "read_snippets bad_pattern index [] snippets warnings = (snippets, warnings)"
| "read_snippets bad_pattern index (entry # entries) snippets warnings =
     (case entry of
        VTable table \<Rightarrow>
          (case snippet_from_table bad_pattern table index warnings of
             (Some s, warnings) \<Rightarrow>
               if list_ex (\<lambda>seen. sp_id seen = sp_id s) snippets
               then read_snippets bad_pattern (Suc index) entries snippets
                 (warnings @ [snippet_warn index (lit ''id'') (lit ''used twice; the second is skipped'')])
               else read_snippets bad_pattern (Suc index) entries (snippets @ [s]) warnings
           | (None, warnings) \<Rightarrow> read_snippets bad_pattern (Suc index) entries snippets warnings)
      | _ \<Rightarrow>
          read_snippets bad_pattern (Suc index) entries snippets
            (warnings @ [snippet_warn index [] (lit ''expected a table'')]))"

definition snippets_from_toml :: "toml_text \<Rightarrow> (str \<Rightarrow> str option) \<Rightarrow> str \<Rightarrow> snippets_file \<times> warning list" where
  "snippets_from_toml toml bad_pattern s =
     (case tt_parse toml s of
        Inl error \<Rightarrow>
          (no_snippets\<lparr>sf_read_only := True\<rparr>,
           [\<lparr>wn_key = SNIPPETS_FILE, wn_message = lit ''not valid TOML: '' @ error\<rparr>])
      | Inr doc \<Rightarrow>
          (let version = (case Option.bind (bt_get doc (lit ''schema_version'')) as_integer of
                            None \<Rightarrow> SNIPPETS_SCHEMA | Some v \<Rightarrow> v);
               doc = bt_remove (lit ''schema_version'') doc;
               found = bt_get doc (lit ''snippet'');
               doc = bt_remove (lit ''snippet'') doc;
               (snippets, warnings) =
                 (case found of
                    None \<Rightarrow> ([], [])
                  | Some (VArray vs) \<Rightarrow> read_snippets bad_pattern 0 vs [] []
                  | Some other \<Rightarrow>
                      ([], [\<lparr>wn_key = lit ''snippet'',
                             wn_message = lit ''expected an array of tables, found '' @ type_str other\<rparr>]))
           in (\<lparr>sf_snippets = snippets, sf_extra = doc, sf_read_only = version > SNIPPETS_SCHEMA\<rparr>, warnings)))"

definition load_snippets :: "toml_text \<Rightarrow> (str \<Rightarrow> str option) \<Rightarrow> read_result \<Rightarrow> snippets_file \<times> warning list" where
  "load_snippets toml bad_pattern r =
     (case r of
        ReadText s \<Rightarrow> snippets_from_toml toml bad_pattern s
      | ReadMissing \<Rightarrow> (no_snippets, [])
      | ReadError error \<Rightarrow>
          (no_snippets\<lparr>sf_read_only := True\<rparr>,
           [\<lparr>wn_key = SNIPPETS_FILE, wn_message = lit ''could not read the file: '' @ error\<rparr>]))"

definition snippets_table :: "snippets_file \<Rightarrow> table" where
  "snippets_table f =
     bt_insert (lit ''snippet'') (VArray (map (\<lambda>s. VTable (snippet_to_table s)) (sf_snippets f)))
       (bt_insert (lit ''schema_version'') (VInteger SNIPPETS_SCHEMA) (sf_extra f))"

definition snippets_to_toml :: "toml_text \<Rightarrow> snippets_file \<Rightarrow> str" where
  "snippets_to_toml toml f = SNIPPETS_HEADER @ [10] @ tt_show toml (snippets_table f)"

definition snippet_get :: "snippets_file \<Rightarrow> str \<Rightarrow> snippet option" where
  "snippet_get f wanted = find (\<lambda>s. sp_id s = wanted) (sf_snippets f)"

text \<open>The folders above a folder and itself, and those of all snippets in the order of their names.\<close>

fun folder_paths :: "str \<Rightarrow> str list \<Rightarrow> str list" where
  "folder_paths path [] = []"
| "folder_paths path (p # ps) =
     (let path = (if path = [] then p else path @ 47 # p) in path # folder_paths path ps)"

definition snippet_folders :: "(str \<Rightarrow> str) \<Rightarrow> snippets_file \<Rightarrow> str list" where
  "snippet_folders lowercase f =
     sort_key lowercase (foldl push_new []
       (concat (map (\<lambda>s. folder_paths [] (filter (\<lambda>p. p \<noteq> []) (split_on 47 (sp_folder s)))) (sf_snippets f))))"

subsection \<open>Pieces that are written are read back\<close>

fun part_text :: "snippet_part \<Rightarrow> str" where
  "part_text (PText t) = t"
| "part_text (PVariable n) = lit ''{{'' @ n @ lit ''}}''"
| "part_text (PSecret r) = lit ''{{secret:'' @ r @ lit ''}}''"

fun snippet_part_ok :: "snippet_part \<Rightarrow> bool" where
  "snippet_part_ok (PText t) = (t \<noteq> [] \<and> 123 \<notin> set t)"
| "snippet_part_ok (PVariable n) = (trim n = n \<and> part_of n = Some (PVariable n) \<and> 125 \<notin> set n)"
| "snippet_part_ok (PSecret r) = (trim r = r \<and> r \<noteq> [] \<and> 125 \<notin> set r)"

fun is_text :: "snippet_part list \<Rightarrow> bool" where
  "is_text (PText _ # _) = True"
| "is_text _ = False"

fun parts_ok :: "snippet_part list \<Rightarrow> bool" where
  "parts_ok [] = True"
| "parts_ok (p # ps) = (snippet_part_ok p \<and> parts_ok ps \<and> \<not> (is_text [p] \<and> is_text ps))"

lemma split_once_skip:
  "c \<notin> set a \<Longrightarrow> split_once (a @ s) [c, d] = map_option (\<lambda>(x, y). (a @ x, y)) (split_once s [c, d])"
  by (induction a) (cases "split_once s [c, d]"; auto simp: starts_with_def)+

lemma split_once_here: "split_once (c # d # s) [c, d] = Some ([], s)"
  by (simp add: starts_with_def)

lemma parse_parts_plain: "123 \<notin> set t \<Longrightarrow> parse_parts plain (t @ s) = parse_parts (plain @ t) s"
  by (subst parse_parts.simps, subst (2) parse_parts.simps)
    (simp add: lit_def split_once_skip split: option.split)

lemma parse_parts_mark:
  assumes "part_of (trim inner) = Some p" "125 \<notin> set inner"
  shows "parse_parts plain (lit ''{{'' @ inner @ lit ''}}'' @ s) = plain_part plain @ p # parse_parts [] s"
proof -
  have "split_once (lit ''{{'' @ inner @ lit ''}}'' @ s) (lit ''{{'') = Some ([], inner @ lit ''}}'' @ s)"
    by (simp add: lit_def starts_with_def)
  moreover have "split_once (inner @ lit ''}}'' @ s) (lit ''}}'') = Some (inner, s)"
    using split_once_skip [OF assms(2), of "lit ''}}'' @ s" 125] by (simp add: lit_def starts_with_def)
  ultimately show ?thesis using assms(1) by (subst parse_parts.simps) simp
qed

lemma trim_secret:
  assumes "trim r = r" "r \<noteq> []"
  shows "trim (lit ''secret:'' @ r) = lit ''secret:'' @ r"
proof (rule trim_fix, intro disjI2 conjI)
  show "\<not> is_whitespace (hd (lit ''secret:'' @ r))" by (simp add: lit_def is_whitespace_def)
  have "\<not> is_whitespace (last r)" using trim_cases [of r] assms by simp
  then show "\<not> is_whitespace (last (lit ''secret:'' @ r))" using assms(2) by simp
qed

lemma part_of_secret:
  assumes "trim r = r" "r \<noteq> []"
  shows "part_of (lit ''secret:'' @ r) = Some (PSecret r)"
proof -
  have "split_at_char 58 (lit ''secret:'' @ r) = Some (lit ''secret'', r)" by (simp add: split_at_char_def lit_def)
  moreover have "trim (lit ''secret'') = lit ''secret''" by (rule trim_fix) (simp_all add: lit_def is_whitespace_def)
  ultimately show ?thesis using assms by (simp add: part_of_def)
qed

lemma parse_written:
  "parts_ok ps \<Longrightarrow> plain = [] \<or> \<not> is_text ps \<Longrightarrow>
   parse_parts plain (concat (map part_text ps)) = plain_part plain @ ps"
proof (induction ps arbitrary: plain)
  case Nil
  show ?case by (subst parse_parts.simps) (simp add: lit_def)
next
  case (Cons p ps)
  show ?case
  proof (cases p)
    case (PText t)
    then show ?thesis
      using Cons.IH [of t] Cons.prems by (simp add: parse_parts_plain) (simp add: plain_part_def)
  next
    case (PVariable n)
    then show ?thesis
      using parse_parts_mark [of n p plain "concat (map part_text ps)"] Cons.IH [of "[]"] Cons.prems
      by (simp add: plain_part_def)
  next
    case (PSecret r)
    have inner: "part_of (trim (lit ''secret:'' @ r)) = Some p" "125 \<notin> set (lit ''secret:'' @ r)"
      using PSecret Cons.prems trim_secret [of r] part_of_secret [of r] by (simp_all add: lit_def)
    have "part_text p = lit ''{{'' @ (lit ''secret:'' @ r) @ lit ''}}''" by (simp add: PSecret lit_def)
    then show ?thesis
      using parse_parts_mark [OF inner, of plain "concat (map part_text ps)"] Cons.IH [of "[]"] Cons.prems
      by (simp add: plain_part_def)
  qed
qed

text \<open>
  a text that is put together from plain text, variables and secrets is taken apart into just these,
  so a value is asked for each of the variables and for nothing else.
\<close>

theorem snippet_text_parses_back:
  assumes "parts_ok ps"
  shows "parse_snippet (concat (map part_text ps)) = ps"
  using parse_written [OF assms, of "[]"] by (simp add: parse_snippet_def plain_part_def)

text \<open>What is filled in is typed as it is: braces in a value do not make it a variable.\<close>

lemma render_fills_in:
  assumes "list_all (\<lambda>p. is_text [p] \<or> value_of p \<noteq> None) (parse_snippet s)"
  shows "snippet_render value_of s =
    Inr (concat (map (\<lambda>p. case p of PText t \<Rightarrow> t | _ \<Rightarrow> the (value_of p)) (parse_snippet s)))"
proof -
  have "list_all (\<lambda>p. is_text [p] \<or> value_of p \<noteq> None) ps \<Longrightarrow>
      render_parts value_of ps = Inr (concat (map (\<lambda>p. case p of PText t \<Rightarrow> t | _ \<Rightarrow> the (value_of p)) ps))" for ps
  proof (induction ps)
    case (Cons p ps)
    then show ?case by (cases p) auto
  qed simp
  then show ?thesis using assms by (simp add: snippet_render_def)
qed

subsection \<open>The file is read back\<close>

definition snippet_keys :: "string list" where
  "snippet_keys = [''id'', ''name'', ''folder'', ''description'', ''shortcut'', ''text'', ''tags'', ''step'']"

definition snippet_ok :: "(str \<Rightarrow> str option) \<Rightarrow> snippet \<Rightarrow> bool" where
  "snippet_ok bad_pattern s \<longleftrightarrow>
     sp_id s \<noteq> [] \<and> \<not> list_ex is_control (sp_id s) \<and> trim (sp_id s) = sp_id s \<and> trim (sp_name s) = sp_name s \<and>
     normalize_folder (sp_folder s) = sp_folder s \<and> trim (sp_shortcut s) = sp_shortcut s \<and>
     list_all (\<lambda>tag. trim tag = tag \<and> tag \<noteq> []) (sp_tags s) \<and> (\<not> is_macro s \<or> sp_text s = []) \<and>
     snippet_problem bad_pattern s = None \<and> bt_ok (sp_extra s) \<and>
     list_all (\<lambda>k. bt_get (sp_extra s) (lit k) = None) snippet_keys"

definition snippets_ok :: "(str \<Rightarrow> str option) \<Rightarrow> snippets_file \<Rightarrow> bool" where
  "snippets_ok bad_pattern f \<longleftrightarrow> list_all (snippet_ok bad_pattern) (sf_snippets f) \<and> distinct (map sp_id (sf_snippets f)) \<and>
     bt_ok (sf_extra f) \<and> bt_get (sf_extra f) (lit ''schema_version'') = None \<and>
     bt_get (sf_extra f) (lit ''snippet'') = None"

lemma snippet_text_written:
  "bt_get t (lit n) = Some (VString v) \<or> v = [] \<and> bt_get t (lit n) = None \<Longrightarrow>
   snippet_text index n (t, ws) = (v, bt_remove (lit n) t, ws)"
  by (auto simp: snippet_text_def)

lemma snippet_tags_written:
  assumes "list_all (\<lambda>tag. trim tag = tag \<and> tag \<noteq> []) tags"
    and "bt_get t (lit ''tags'') = (if tags = [] then None else Some (VArray (map VString tags)))"
  shows "snippet_tags index (t, ws) = (tags, bt_remove (lit ''tags'') t, ws)"
proof -
  have "tags_of (map VString tags) = tags"
    using assms(1) by (induction tags) (simp_all add: tags_of_def List.map_filter_simps)
  then show ?thesis using assms(2) by (simp add: snippet_tags_def)
qed

lemma step_written: "step_problem bad_pattern n st = None \<Longrightarrow> step_from (VTable (step_table st)) = Inr st"
  by (cases st)
    (auto simp: step_from_def put_text_def bt_get_insert step_problem_def Let_def millis_def i64_of_def MAX_WAIT_MS_def
      split: option.splits if_splits)

lemma steps_written:
  "steps_problem bad_pattern n sts = None \<Longrightarrow> steps_from k (map (\<lambda>st. VTable (step_table st)) sts) = Inr sts"
proof (induction sts arbitrary: n k)
  case (Cons st sts)
  then show ?case using step_written [of bad_pattern n st] by (auto split: option.splits)
qed simp

lemma snippet_to_table_get:
  "bt_get (snippet_to_table s) k =
     (if k = lit ''step'' \<and> is_macro s then Some (VArray (map (\<lambda>st. VTable (step_table st)) (sp_steps s)))
      else if k = lit ''text'' \<and> \<not> is_macro s then Some (VString (sp_text s))
      else if k = lit ''shortcut'' \<and> sp_shortcut s \<noteq> [] then Some (VString (sp_shortcut s))
      else if k = lit ''description'' \<and> sp_description s \<noteq> [] then Some (VString (sp_description s))
      else if k = lit ''tags'' \<and> sp_tags s \<noteq> [] then Some (VArray (map VString (sp_tags s)))
      else if k = lit ''folder'' \<and> sp_folder s \<noteq> [] then Some (VString (sp_folder s))
      else if k = lit ''name'' then Some (VString (sp_name s))
      else if k = lit ''id'' then Some (VString (sp_id s))
      else bt_get (sp_extra s) k)"
  by (simp add: snippet_to_table_def bt_get_insert put_if_get Let_def)

lemma snippet_to_table_ok: "bt_ok (sp_extra s) \<Longrightarrow> bt_ok (snippet_to_table s)"
  by (simp add: snippet_to_table_def bt_ok_insert Let_def)

text \<open>A written snippet's table without some of its keys.\<close>

definition without :: "string list \<Rightarrow> snippet \<Rightarrow> table" where
  "without ks s = foldl (\<lambda>t k. bt_remove (lit k) t) (snippet_to_table s) ks"

lemma without_snoc: "bt_remove (lit k) (without ks s) = without (ks @ [k]) s"
  by (simp add: without_def)

lemma without_get: "bt_get (without ks s) k = (if k \<in> lit ` set ks then None else bt_get (snippet_to_table s) k)"
  by (induction ks rule: rev_induct) (auto simp: without_def bt_get_remove_at)

lemma without_ok: "bt_ok (sp_extra s) \<Longrightarrow> bt_ok (without ks s)"
  by (induction ks rule: rev_induct) (auto simp: without_def bt_ok_remove snippet_to_table_ok)

lemma without_all:
  assumes "snippet_ok bad_pattern s"
  shows "without [''id'', ''name'', ''folder'', ''description'', ''shortcut'', ''text'', ''tags'', ''step''] s = sp_extra s"
  by (rule bt_ext)
    (use assms in \<open>auto simp: without_ok snippet_ok_def fun_eq_iff without_get snippet_to_table_get snippet_keys_def\<close>)

lemma snippet_written:
  assumes "snippet_ok bad_pattern s"
  shows "snippet_from_table bad_pattern (snippet_to_table s) index ws = (Some s, ws)"
proof -
  note ok = assms [unfolded snippet_ok_def]
  have absent: "bt_get (sp_extra s) (lit ''folder'') = None" "bt_get (sp_extra s) (lit ''description'') = None"
    "bt_get (sp_extra s) (lit ''shortcut'') = None" "bt_get (sp_extra s) (lit ''text'') = None"
    "bt_get (sp_extra s) (lit ''tags'') = None" "bt_get (sp_extra s) (lit ''step'') = None"
    using ok by (simp_all add: snippet_keys_def)
  note get = without_get snippet_to_table_get absent
  have first: "snippet_to_table s = without [] s" by (simp add: without_def)
  have taken: "snippet_text index n (without ks s, ws) = (v, without (ks @ [n]) s, ws)"
    if "bt_get (without ks s) (lit n) = Some (VString v) \<or> v = [] \<and> bt_get (without ks s) (lit n) = None" for n ks v
    using snippet_text_written [OF that] by (simp add: without_snoc)
  have texts:
    "snippet_text index ''id'' (without [] s, ws) = (sp_id s, without [''id''] s, ws)"
    "snippet_text index ''name'' (without [''id''] s, ws) = (sp_name s, without [''id'', ''name''] s, ws)"
    "snippet_text index ''folder'' (without [''id'', ''name''] s, ws) =
      (sp_folder s, without [''id'', ''name'', ''folder''] s, ws)"
    "snippet_text index ''description'' (without [''id'', ''name'', ''folder''] s, ws) =
      (sp_description s, without [''id'', ''name'', ''folder'', ''description''] s, ws)"
    "snippet_text index ''shortcut'' (without [''id'', ''name'', ''folder'', ''description''] s, ws) =
      (sp_shortcut s, without [''id'', ''name'', ''folder'', ''description'', ''shortcut''] s, ws)"
    by (subst taken; simp add: get)+
  have body: "snippet_text index ''text'' (without [''id'', ''name'', ''folder'', ''description'', ''shortcut''] s, ws) =
      (sp_text s, without [''id'', ''name'', ''folder'', ''description'', ''shortcut'', ''text''] s, ws)"
    by (subst taken) (use ok in \<open>auto simp: get\<close>)
  have tags: "snippet_tags index (without [''id'', ''name'', ''folder'', ''description'', ''shortcut'', ''text''] s, ws) =
      (sp_tags s, without [''id'', ''name'', ''folder'', ''description'', ''shortcut'', ''text'', ''tags''] s, ws)"
    using snippet_tags_written [of "sp_tags s" "without [''id'', ''name'', ''folder'', ''description'', ''shortcut'', ''text''] s" index ws] ok
    by (simp add: get without_snoc)
  have step: "bt_get (without [''id'', ''name'', ''folder'', ''description'', ''shortcut'', ''text'', ''tags''] s) (lit ''step'') =
      (if is_macro s then Some (VArray (map (\<lambda>st. VTable (step_table st)) (sp_steps s))) else None)"
    by (simp add: get)
  have steps: "steps_from 0 (map (\<lambda>st. VTable (step_table st)) (sp_steps s)) = Inr (sp_steps s)"
    by (rule steps_written [of bad_pattern 1]) (use ok in \<open>auto simp: snippet_problem_def split: if_splits\<close>)
  have eta: "\<lparr>sp_id = sp_id s, sp_name = sp_name s, sp_folder = sp_folder s, sp_tags = sp_tags s,
      sp_description = sp_description s, sp_shortcut = sp_shortcut s, sp_text = sp_text s, sp_steps = sp_steps s,
      sp_extra = sp_extra s\<rparr> = s" by simp
  have found: "(case (if is_macro s then Some (VArray (map (\<lambda>st. VTable (step_table st)) (sp_steps s))) else None) of
      None \<Rightarrow> Inr [] | Some (VArray vs) \<Rightarrow> map_sum Some id (steps_from 0 vs) | Some _ \<Rightarrow> Inl None) = Inr (sp_steps s)"
    using steps by (simp add: is_macro_def)
  have trims: "trim (sp_id s) = sp_id s" "trim (sp_name s) = sp_name s" "trim (sp_shortcut s) = sp_shortcut s"
    "normalize_folder (sp_folder s) = sp_folder s" "snippet_problem bad_pattern s = None"
    "(sp_id s = [] \<or> list_ex is_control (sp_id s)) = False" using ok by simp_all
  show ?thesis
    unfolding snippet_from_table_def first texts Let_def split body tags fst_conv snd_conv step without_snoc found trims
    using without_all [OF assms] by (simp add: eta trims)
qed

lemma read_written_snippets:
  assumes "list_all (snippet_ok bad_pattern) ss" and "distinct (map sp_id (seen @ ss))"
  shows "read_snippets bad_pattern index (map (\<lambda>s. VTable (snippet_to_table s)) ss) seen ws = (seen @ ss, ws)"
  using assms
proof (induction ss arbitrary: index seen)
  case (Cons s ss)
  have "\<not> list_ex (\<lambda>t. sp_id t = sp_id s) seen" using Cons.prems(2) by (auto simp: list_ex_iff image_iff)
  then show ?case
    using Cons.IH [of "seen @ [s]" "Suc index"] Cons.prems snippet_written by simp
qed simp

text \<open>
  what is written to \<open>snippets.toml\<close> is read back, macros with their steps and unknown keys included,
  with no warning; the toml crate reads back the table that it printed under the header.
\<close>

theorem snippets_file_roundtrip:
  assumes "snippets_ok bad_pattern f" "\<not> sf_read_only f"
    and "tt_parse toml (SNIPPETS_HEADER @ [10] @ tt_show toml (snippets_table f)) = Inr (snippets_table f)"
  shows "snippets_from_toml toml bad_pattern (snippets_to_toml toml f) = (f, [])"
proof -
  have get: "bt_get (snippets_table f) (lit ''schema_version'') = Some (VInteger SNIPPETS_SCHEMA)"
    "bt_get (bt_remove (lit ''schema_version'') (snippets_table f)) (lit ''snippet'') =
       Some (VArray (map (\<lambda>s. VTable (snippet_to_table s)) (sf_snippets f)))"
    by (simp_all add: snippets_table_def bt_get_insert bt_get_remove)
  have rest: "bt_remove (lit ''snippet'') (bt_remove (lit ''schema_version'') (snippets_table f)) = sf_extra f"
    by (rule bt_ext)
      (use assms(1) in \<open>auto simp: snippets_ok_def snippets_table_def bt_ok_remove bt_ok_insert bt_get_remove bt_get_insert fun_eq_iff\<close>)
  have "read_snippets bad_pattern 0 (map (\<lambda>s. VTable (snippet_to_table s)) (sf_snippets f)) [] [] = (sf_snippets f, [])"
    using read_written_snippets [of bad_pattern "sf_snippets f" "[]" 0 "[]"] assms(1) by (simp add: snippets_ok_def)
  then show ?thesis
    using assms(2,3) get rest by (simp add: snippets_to_toml_def snippets_from_toml_def)
qed

end
