(* ===== verification/Workspace.thy ===== *)
theory Workspace
  imports Layout_Laws Texts
begin

text \<open>
  Saved workspaces and the last session (\<open>crates/opensesh-core/src/workspace/mod.rs\<close>): what is restored
  from a file, and new ids (with \<open>slug\<close> of \<open>crates/opensesh-core/src/terminal/profile.rs\<close>). What serde
  and the toml crate make of the text is a parameter; the layout of a tab is that of Layout, its
  panes being the indexes into the tab's list.
\<close>

record pane_state =
  pn_kind :: str
  pn_host :: str
  pn_target :: str
  pn_profile :: str
  pn_directory :: str

record tab_state =
  tb_title :: str
  tb_color :: str
  tb_pinned :: bool
  tb_focused :: nat
  tb_zoomed :: "nat option"
  tb_layout :: node
  tb_panes :: "pane_state list"

record window_state =
  wi_current_tab :: nat
  wi_tabs :: "tab_state list"

record workspace =
  wk_schema_version :: int
  wk_name :: str
  wk_windows :: "window_state list"

definition WORKSPACE_SCHEMA :: int where "WORKSPACE_SCHEMA = 1"

definition WORKSPACE_HEADER :: str where
  "WORKSPACE_HEADER = lit ''# OpenSesh workspace: windows, their tabs, the split layout of each tab and'' @ [10] @
     lit ''# what runs in every pane. Opening it starts new sessions in the same places.'' @ [10]"

definition default_pane :: pane_state where
  "default_pane = \<lparr>pn_kind = lit ''local'', pn_host = [], pn_target = [], pn_profile = [], pn_directory = []\<rparr>"

definition default_workspace :: workspace where
  "default_workspace = \<lparr>wk_schema_version = WORKSPACE_SCHEMA, wk_name = [], wk_windows = []\<rparr>"

definition single_tab :: "pane_state \<Rightarrow> tab_state" where
  "single_tab p =
     \<lparr>tb_title = [], tb_color = [], tb_pinned = False, tb_focused = 0, tb_zoomed = None, tb_layout = Pane 0, tb_panes = [p]\<rparr>"

text \<open>The \<open>Debug\<close> text of a list of panes.\<close>

definition show_pane :: "pane_id \<Rightarrow> str" where
  "show_pane i = (if i < 0 then 45 # decimal (nat (- i)) else decimal (nat i))"

definition show_panes :: "pane_id list \<Rightarrow> str" where
  "show_panes ps = lit ''['' @ join_with (lit '', '') (map show_pane ps) @ lit '']''"

definition expected_panes :: "nat \<Rightarrow> pane_id list" where
  "expected_panes n = map (\<lambda>i. if int i \<le> 2 ^ 31 - 1 then int i else 2 ^ 31 - 1) [0..<n]"

text \<open>\<open>validate\<close>, which gives the tab as it leaves it.\<close>

definition tab_validate :: "tab_state \<Rightarrow> str + tab_state" where
  "tab_validate tab =
     (case from_node (tb_layout tab) of
        Inl reason \<Rightarrow> Inl (lit reason)
      | Inr layout \<Rightarrow>
          (let used = sort (panes layout); n = length (tb_panes tab)
           in if used \<noteq> expected_panes n
              then Inl (lit ''the layout's panes '' @ show_panes used @ lit '' don't match the '' @ decimal n @
                     lit '' pane(s) listed'')
              else Inr (tab\<lparr>tb_layout := layout,
                     tb_focused := (if tb_focused tab \<ge> n then 0 else tb_focused tab),
                     tb_zoomed := (case tb_zoomed tab of Some z \<Rightarrow> if z \<ge> n then None else Some z | None \<Rightarrow> None)\<rparr>)))"

fun check_tabs :: "nat \<Rightarrow> nat \<Rightarrow> tab_state list \<Rightarrow> tab_state list \<times> str list" where
  "check_tabs w t [] = ([], [])"
| "check_tabs w t (tab # tabs) =
     (let (kept, warnings) = check_tabs w (Suc t) tabs
      in case tab_validate tab of
           Inr tab \<Rightarrow> (tab # kept, warnings)
         | Inl reason \<Rightarrow>
             (kept, (lit ''window '' @ decimal w @ lit '', tab '' @ decimal t @ lit '' skipped: '' @ reason) # warnings))"

definition check_window :: "nat \<Rightarrow> window_state \<Rightarrow> window_state \<times> str list" where
  "check_window w window =
     (let (kept, warnings) = check_tabs w 0 (wi_tabs window)
      in (window\<lparr>wi_tabs := kept,
            wi_current_tab := (if wi_current_tab window \<ge> length kept then 0 else wi_current_tab window)\<rparr>, warnings))"

fun check_windows :: "nat \<Rightarrow> window_state list \<Rightarrow> window_state list \<times> str list" where
  "check_windows w [] = ([], [])"
| "check_windows w (window # windows) =
     (let (window, here) = check_window w window; (windows, later) = check_windows (Suc w) windows
      in (window # windows, here @ later))"

definition newer_warning :: "int \<Rightarrow> str" where
  "newer_warning v =
     lit ''written by a newer OpenSesh (schema '' @ show_pane v @ lit ''); some parts may be missing''"

definition workspace_from_toml :: "(str \<Rightarrow> str + workspace) \<Rightarrow> str \<Rightarrow> str + workspace \<times> str list" where
  "workspace_from_toml parse s =
     (case parse s of
        Inl error \<Rightarrow> Inl error
      | Inr ws \<Rightarrow>
          (let (windows, warnings) = check_windows 0 (wk_windows ws)
           in Inr (ws\<lparr>wk_windows := filter (\<lambda>window. wi_tabs window \<noteq> []) windows\<rparr>,
                (if wk_schema_version ws > WORKSPACE_SCHEMA then [newer_warning (wk_schema_version ws)] else []) @ warnings)))"

definition workspace_to_toml :: "(workspace \<Rightarrow> str + str) \<Rightarrow> workspace \<Rightarrow> str + str" where
  "workspace_to_toml print ws = map_sum id (\<lambda>body. WORKSPACE_HEADER @ [10] @ body) (print ws)"

definition workspace_panes :: "workspace \<Rightarrow> pane_state list" where
  "workspace_panes ws = concat (map (\<lambda>window. concat (map tb_panes (wi_tabs window))) (wk_windows ws))"

subsection \<open>New ids\<close>

definition slug_char :: "str \<Rightarrow> uchar \<Rightarrow> str" where
  "slug_char out c =
     (if 48 \<le> c \<and> c \<le> 57 \<or> 97 \<le> c \<and> c \<le> 122 then out @ [c]
      else if 65 \<le> c \<and> c \<le> 90 then out @ [c + 32]
      else if out \<noteq> [] \<and> last out \<noteq> 45 then out @ [45]
      else out)"

fun slug_from :: "str \<Rightarrow> str \<Rightarrow> str" where
  "slug_from out [] = out"
| "slug_from out (c # cs) = (let out = slug_char out c in if length out \<ge> 48 then out else slug_from out cs)"

definition slug :: "str \<Rightarrow> str" where
  "slug name = trim_end_char 45 (slug_from [] name)"

definition numbered_id :: "str \<Rightarrow> nat \<Rightarrow> str" where
  "numbered_id base n = base @ lit ''-'' @ decimal n"

lemma numbered_id_inj: "numbered_id base m = numbered_id base n \<Longrightarrow> m = n"
  by (auto simp: numbered_id_def dest: decimal_inj)

text \<open>The loop over numbers, with the ids that the folder has.\<close>

function free_number :: "str list \<Rightarrow> str \<Rightarrow> nat \<Rightarrow> nat" where
  "free_number ids base n = (if numbered_id base n \<in> set ids then free_number ids base (Suc n) else n)"
  by pat_completeness auto

lemma numbers_shrink:
  assumes "numbered_id base n \<in> set ids"
  shows "card (set ids - numbered_id base ` {..<Suc n}) < card (set ids - numbered_id base ` {..<n})"
proof (rule psubset_card_mono)
  have "numbered_id base n \<notin> numbered_id base ` {..<n}" by (auto dest: numbered_id_inj)
  then show "set ids - numbered_id base ` {..<Suc n} \<subset> set ids - numbered_id base ` {..<n}"
    using assms unfolding lessThan_Suc image_insert by blast
qed simp

termination free_number
  by (relation "measure (\<lambda>(ids, base, n). card (set ids - numbered_id base ` {..<n}))") (simp_all add: numbers_shrink)

declare free_number.simps [simp del]

definition unique_id :: "str list \<Rightarrow> str \<Rightarrow> str" where
  "unique_id ids name =
     (let base = (if slug name = [] then lit ''workspace'' else slug name)
      in if base \<notin> set ids then base else numbered_id base (free_number ids base 2))"

subsection \<open>What is restored\<close>

definition tab_ok :: "tab_state \<Rightarrow> bool" where
  "tab_ok tab \<longleftrightarrow> layout_inv (tb_layout tab) \<and> sort (panes (tb_layout tab)) = map int [0..<length (tb_panes tab)] \<and>
     tb_focused tab < length (tb_panes tab) \<and>
     (case tb_zoomed tab of Some z \<Rightarrow> z < length (tb_panes tab) | None \<Rightarrow> True)"

definition window_ok :: "window_state \<Rightarrow> bool" where
  "window_ok window \<longleftrightarrow> list_all tab_ok (wi_tabs window) \<and> wi_current_tab window < length (wi_tabs window)"

lemma expected_distinct: "distinct (expected_panes n) \<Longrightarrow> expected_panes n = map int [0..<n]"
proof -
  assume d: "distinct (expected_panes n)"
  have "int i \<le> 2 ^ 31 - 1" if "i < n" for i
  proof (rule ccontr)
    assume "\<not> int i \<le> 2 ^ 31 - 1"
    then have i: "2 ^ 31 \<le> i" by simp
    have "expected_panes n ! (2 ^ 31 - 1) = 2 ^ 31 - 1" "expected_panes n ! (2 ^ 31) = 2 ^ 31 - 1"
      using i that by (simp_all add: expected_panes_def)
    moreover have "2 ^ 31 - 1 < length (expected_panes n)" "2 ^ 31 < length (expected_panes n)"
      using i that by (simp_all add: expected_panes_def)
    ultimately show False using d nth_eq_iff_index_eq [OF d, of "2 ^ 31 - 1" "2 ^ 31"] by simp
  qed
  then show ?thesis by (auto simp: expected_panes_def)
qed

lemma panes_nonempty [simp]: "panes l \<noteq> []"
  by (induction l) auto

lemma validated_ok:
  assumes "tab_validate tab = Inr tab'"
  shows "tab_ok tab' \<and> tb_panes tab' = tb_panes tab"
proof -
  obtain l where l: "from_node (tb_layout tab) = Inr l" "sort (panes l) = expected_panes (length (tb_panes tab))"
    using assms by (auto simp: tab_validate_def Let_def split: sum.splits if_splits)
  have inv: "layout_inv l" using from_node_inv [OF l(1)] by blast
  then have "distinct (sort (panes l))" by (simp add: layout_inv_def)
  then have e: "sort (panes l) = map int [0..<length (tb_panes tab)]" using expected_distinct l(2) by metis
  then have "length (panes l) = length (tb_panes tab)" by (metis length_map length_sort length_upt diff_zero)
  then have "0 < length (tb_panes tab)" by (metis length_greater_0_conv panes_nonempty)
  then show ?thesis using assms l inv e by (auto simp: tab_validate_def tab_ok_def Let_def split: option.splits if_splits)
qed

lemma check_tabs_ok: "list_all tab_ok (fst (check_tabs w t tabs))"
proof (induction tabs arbitrary: t)
  case (Cons tab tabs)
  show ?case
  proof (cases "tab_validate tab")
    case (Inl reason)
    then show ?thesis using Cons [of "Suc t"] by (simp add: split_beta)
  next
    case (Inr tab')
    then show ?thesis using Cons [of "Suc t"] validated_ok [OF Inr] by (simp add: split_beta)
  qed
qed simp

text \<open>
  C13: whatever stands in a workspace file, what is restored from it is a workspace that can be
  opened: every window has a tab and shows one of them; the panes of a tab's layout are exactly the
  panes it lists, each once; its split ratios are within bounds; and the focused and the maximized
  pane are among its panes.
\<close>

theorem restored_workspace_valid:
  assumes "workspace_from_toml parse s = Inr (ws, warnings)"
  shows "list_all window_ok (wk_windows ws)"
proof -
  have one: "wi_tabs (fst (check_window w window)) = [] \<or> window_ok (fst (check_window w window))" for w window
    using check_tabs_ok [of w 0 "wi_tabs window"] by (auto simp: check_window_def window_ok_def split_beta Let_def)
  have "list_all (\<lambda>window. wi_tabs window = [] \<or> window_ok window) (fst (check_windows w windows))" for w windows
    by (induction windows arbitrary: w) (use one in \<open>simp_all add: split_beta Let_def\<close>)
  then show ?thesis
    using assms by (fastforce simp: workspace_from_toml_def list_all_iff split_beta Let_def split: sum.splits)
qed

definition sample_workspace :: workspace where
  "sample_workspace =
     \<lparr>wk_schema_version = 1, wk_name = [],
      wk_windows = [\<lparr>wi_current_tab = 4, wi_tabs = [(single_tab default_pane)\<lparr>tb_focused := 7\<rparr>,
        (single_tab default_pane)\<lparr>tb_layout := Pane 5\<rparr>]\<rparr>]\<rparr>"

text \<open>A tab whose layout names another pane is left out, and what is shown and focused is set right.\<close>

lemma restored_workspace_valid_witness:
  "list_all window_ok [\<lparr>wi_current_tab = 0, wi_tabs = [single_tab default_pane]\<rparr>]"
proof -
  have "fst (case workspace_from_toml (\<lambda>_. Inr sample_workspace) [] of Inr r \<Rightarrow> r) =
      \<lparr>wk_schema_version = 1, wk_name = [], wk_windows = [\<lparr>wi_current_tab = 0, wi_tabs = [single_tab default_pane]\<rparr>]\<rparr>"
    by (simp add: workspace_from_toml_def sample_workspace_def check_window_def single_tab_def tab_validate_def from_node_eq
        expected_panes_def WORKSPACE_SCHEMA_def split_beta)
  then obtain warnings where "workspace_from_toml (\<lambda>_. Inr sample_workspace) [] =
      Inr (\<lparr>wk_schema_version = 1, wk_name = [], wk_windows = [\<lparr>wi_current_tab = 0, wi_tabs = [single_tab default_pane]\<rparr>]\<rparr>, warnings)"
    by (cases "workspace_from_toml (\<lambda>_. Inr sample_workspace) []") (auto simp: workspace_from_toml_def split_beta)
  from restored_workspace_valid [OF this] show ?thesis by simp
qed

text \<open>A workspace that can be opened is restored as it was, with no warning.\<close>

lemma validate_ok:
  assumes "tab_ok tab" "length (tb_panes tab) < 2 ^ 31"
  shows "tab_validate tab = Inr tab"
proof -
  have "from_node (tb_layout tab) = Inr (tb_layout tab)"
    using assms(1) by (simp add: tab_ok_def from_node_eq layout_inv_def fix_node_id)
  moreover have "expected_panes (length (tb_panes tab)) = map int [0..<length (tb_panes tab)]"
    using assms(2) by (auto simp: expected_panes_def)
  ultimately show ?thesis
    using assms(1) by (cases tab) (auto simp: tab_validate_def tab_ok_def Let_def split: option.splits)
qed

lemma check_tabs_unchanged:
  "list_all (\<lambda>tab. tab_ok tab \<and> length (tb_panes tab) < 2 ^ 31) tabs \<Longrightarrow> check_tabs w t tabs = (tabs, [])"
  by (induction tabs arbitrary: t) (simp_all add: validate_ok)

lemma check_windows_unchanged:
  "list_all window_ok windows \<Longrightarrow>
   list_all (\<lambda>window. list_all (\<lambda>tab. length (tb_panes tab) < 2 ^ 31) (wi_tabs window)) windows \<Longrightarrow>
   check_windows w windows = (windows, [])"
proof (induction windows arbitrary: w)
  case (Cons window windows)
  have "check_tabs w 0 (wi_tabs window) = (wi_tabs window, [])"
    by (rule check_tabs_unchanged) (use Cons.prems in \<open>simp add: window_ok_def list_all_iff\<close>)
  then show ?case using Cons by (cases window) (simp add: check_window_def window_ok_def)
qed simp

theorem workspace_roundtrip:
  assumes "list_all window_ok (wk_windows ws)" "wk_schema_version ws \<le> WORKSPACE_SCHEMA"
    and "list_all (\<lambda>window. list_all (\<lambda>tab. length (tb_panes tab) < 2 ^ 31) (wi_tabs window)) (wk_windows ws)"
    and "workspace_to_toml print ws = Inr written" "parse written = Inr ws"
  shows "workspace_from_toml parse written = Inr (ws, [])"
proof -
  have "check_windows 0 (wk_windows ws) = (wk_windows ws, [])" by (rule check_windows_unchanged [OF assms(1,3)])
  moreover have "filter (\<lambda>window. wi_tabs window \<noteq> []) (wk_windows ws) = wk_windows ws"
    using assms(1) by (auto simp: filter_id_conv list_all_iff window_ok_def)
  ultimately show ?thesis using assms(2,5) by (simp add: workspace_from_toml_def)
qed

subsection \<open>Ids are new and valid\<close>

lemma free_number_free: "numbered_id base (free_number ids base n) \<notin> set ids"
proof (induction ids base n rule: free_number.induct)
  case (1 ids base n)
  then show ?case by (cases "numbered_id base n \<in> set ids") (simp_all add: free_number.simps [of ids base n])
qed

definition slug_ok :: "str \<Rightarrow> bool" where
  "slug_ok s \<longleftrightarrow> list_all (\<lambda>c. 48 \<le> c \<and> c \<le> 57 \<or> 97 \<le> c \<and> c \<le> 122 \<or> c = 45) s \<and> length s \<le> 48 \<and> (s = [] \<or> hd s \<noteq> 45)"

lemma slug_char_ok: "slug_ok out \<Longrightarrow> length out < 48 \<Longrightarrow> slug_ok (slug_char out c)"
  by (cases out) (auto simp: slug_ok_def slug_char_def)

lemma slug_from_ok: "slug_ok out \<Longrightarrow> length out < 48 \<Longrightarrow> slug_ok (slug_from out s)"
  by (induction s arbitrary: out) (auto simp: Let_def slug_char_ok)

lemma trim_end_take: "\<exists>n. trim_end_char c s = take n s"
  unfolding trim_end_char_def by (metis dropWhile_eq_drop rev_drop rev_rev_ident)

text \<open>
  the id of a new workspace is none that the folder has, and the name it was made from never gives
  a path out of the folder: it has only lower-case letters, digits and dashes, and no dash in front.
\<close>

theorem unique_id_is_new: "unique_id ids name \<notin> set ids \<and> slug_ok (slug name)"
proof
  show "unique_id ids name \<notin> set ids" by (simp add: unique_id_def Let_def free_number_free)
  have from_ok: "slug_ok (slug_from [] name)" by (rule slug_from_ok) (simp_all add: slug_ok_def)
  obtain n where n: "slug name = take n (slug_from [] name)" using trim_end_take slug_def by metis
  show "slug_ok (slug name)"
    using from_ok unfolding n slug_ok_def
    by (auto simp: list_all_iff dest: in_set_takeD)
qed

end
