(* ===== verification/Keybindings.thy ===== *)
theory Keybindings
  imports Tunnels
begin

text \<open>
  Keyboard shortcuts that the user changed, in \<open>keybindings.toml\<close>
  (\<open>crates/opensesh-core/src/keybindings.rs\<close>): reading and writing the file, changing and resetting a
  shortcut, and the shortcuts that terminal programs need.
\<close>

definition KEYBINDINGS_FILE :: str where "KEYBINDINGS_FILE = lit ''keybindings.toml''"
definition KEYBINDINGS_SCHEMA :: int where "KEYBINDINGS_SCHEMA = 1"

definition KEYBINDINGS_HEADER :: str where
  "KEYBINDINGS_HEADER = lit ''# OpenSesh keyboard shortcuts that differ from the defaults. An empty value'' @ [10] @
     lit ''# removes an action's shortcut. OpenSesh rewrites this file when a shortcut'' @ [10] @
     lit ''# is changed in the app: comments are not kept.'' @ [10]"

definition binding_letter :: "uchar \<Rightarrow> bool" where
  "binding_letter c \<longleftrightarrow> 65 \<le> c \<and> c \<le> 90 \<or> 97 \<le> c \<and> c \<le> 122"

definition valid_action_id :: "str \<Rightarrow> bool" where
  "valid_action_id s \<longleftrightarrow> 1 \<le> byte_len s \<and> byte_len s \<le> 64 \<and>
     list_all (\<lambda>c. binding_letter c \<or> is_digit c \<or> c = 46 \<or> c = 95 \<or> c = 45) s"

definition valid_sequence :: "str \<Rightarrow> bool" where
  "valid_sequence s \<longleftrightarrow> length s \<le> 64 \<and> \<not> list_ex is_control s"

record keybindings =
  kb_bindings :: "(str, str) btree_map"
  kb_extra :: table
  kb_read_only :: bool

definition no_keybindings :: keybindings where
  "no_keybindings = \<lparr>kb_bindings = [], kb_extra = [], kb_read_only = False\<rparr>"

text \<open>The loop over the table of bindings, in the order of its keys.\<close>

fun read_bindings :: "table \<Rightarrow> (str, str) btree_map \<times> warning list \<Rightarrow> (str, str) btree_map \<times> warning list" where
  "read_bindings [] acc = acc"
| "read_bindings ((action, v) # rest) (bindings, warnings) =
     (let key = lit ''bindings.'' @ action
      in read_bindings rest
        (case v of
           VString seq \<Rightarrow>
             if valid_action_id action \<and> valid_sequence seq then (bt_insert action (trim seq) bindings, warnings)
             else (bindings, warnings @ [\<lparr>wn_key = key, wn_message = lit ''not a valid action id or key sequence; skipped''\<rparr>])
         | other \<Rightarrow>
             (bindings, warnings @ [\<lparr>wn_key = key, wn_message = lit ''expected a string, found '' @ type_str other\<rparr>])))"

definition keybindings_from_toml :: "toml_text \<Rightarrow> str \<Rightarrow> keybindings \<times> warning list" where
  "keybindings_from_toml toml s =
     (case tt_parse toml s of
        Inl error \<Rightarrow>
          (no_keybindings\<lparr>kb_read_only := True\<rparr>,
           [\<lparr>wn_key = KEYBINDINGS_FILE, wn_message = lit ''not valid TOML: '' @ error\<rparr>])
      | Inr doc \<Rightarrow>
          (let version = (case Option.bind (bt_get doc (lit ''schema_version'')) as_integer of
                            None \<Rightarrow> KEYBINDINGS_SCHEMA | Some v \<Rightarrow> v);
               doc = bt_remove (lit ''schema_version'') doc;
               found = bt_get doc (lit ''bindings'');
               doc = bt_remove (lit ''bindings'') doc;
               (bindings, warnings) =
                 (case found of
                    None \<Rightarrow> ([], [])
                  | Some (VTable t) \<Rightarrow> read_bindings t ([], [])
                  | Some other \<Rightarrow>
                      ([], [\<lparr>wn_key = lit ''bindings'', wn_message = lit ''expected a table, found '' @ type_str other\<rparr>]))
           in (\<lparr>kb_bindings = bindings, kb_extra = doc, kb_read_only = version > KEYBINDINGS_SCHEMA\<rparr>, warnings)))"

definition load_keybindings :: "toml_text \<Rightarrow> read_result \<Rightarrow> keybindings \<times> warning list" where
  "load_keybindings toml r =
     (case r of
        ReadText s \<Rightarrow> keybindings_from_toml toml s
      | ReadMissing \<Rightarrow> (no_keybindings, [])
      | ReadError error \<Rightarrow>
          (no_keybindings\<lparr>kb_read_only := True\<rparr>,
           [\<lparr>wn_key = KEYBINDINGS_FILE, wn_message = lit ''could not read the file: '' @ error\<rparr>]))"

definition keybindings_table :: "keybindings \<Rightarrow> table" where
  "keybindings_table k =
     bt_insert (lit ''bindings'') (VTable (map (\<lambda>(action, seq). (action, VString seq)) (kb_bindings k)))
       (bt_insert (lit ''schema_version'') (VInteger KEYBINDINGS_SCHEMA) (kb_extra k))"

definition keybindings_to_toml :: "toml_text \<Rightarrow> keybindings \<Rightarrow> str" where
  "keybindings_to_toml toml k = KEYBINDINGS_HEADER @ [10] @ tt_show toml (keybindings_table k)"

definition binding_get :: "keybindings \<Rightarrow> str \<Rightarrow> str option" where
  "binding_get k action = bt_get (kb_bindings k) action"

definition binding_reset :: "str \<Rightarrow> keybindings \<Rightarrow> bool \<times> keybindings" where
  "binding_reset action k =
     (bt_get (kb_bindings k) action \<noteq> None, k\<lparr>kb_bindings := bt_remove action (kb_bindings k)\<rparr>)"

definition binding_set :: "str \<Rightarrow> str \<Rightarrow> str \<Rightarrow> keybindings \<Rightarrow> bool \<times> keybindings" where
  "binding_set action seq standard k =
     (let seq = trim seq
      in if \<not> valid_action_id action \<or> \<not> valid_sequence seq then (False, k)
         else if seq = standard then binding_reset action k
         else (bt_get (kb_bindings k) action \<noteq> Some seq, k\<lparr>kb_bindings := bt_insert action seq (kb_bindings k)\<rparr>))"

definition takes_terminal_key :: "str \<Rightarrow> bool" where
  "takes_terminal_key s =
     (let parts = map trim (split_on 43 s); key = last parts; modifiers = butlast parts;
          has = (\<lambda>name. list_ex (\<lambda>m. eq_ignore_ascii_case m (lit name)) modifiers);
          function_key = byte_len key \<ge> 2 \<and> (hd key = 70 \<or> hd key = 102) \<and> list_all is_digit (tl key);
          letter = byte_len key = 1 \<and> list_all binding_letter key
      in if parts = [] \<or> key = [] then False
         else if modifiers = [] then \<not> function_key
         else (has ''Ctrl'' \<or> has ''Alt'') \<and> \<not> has ''Shift'' \<and> \<not> has ''Meta'' \<and> letter)"

subsection \<open>What is stored is valid\<close>

definition binding_ok :: "str \<times> str \<Rightarrow> bool" where
  "binding_ok b \<longleftrightarrow> valid_action_id (fst b) \<and> valid_sequence (snd b) \<and> trim (snd b) = snd b"

definition keybindings_ok :: "keybindings \<Rightarrow> bool" where
  "keybindings_ok k \<longleftrightarrow> bt_ok (kb_bindings k) \<and> list_all binding_ok (kb_bindings k)"

lemma valid_sequence_trim: "valid_sequence s \<Longrightarrow> valid_sequence (trim s)"
proof -
  have "set (trim s) \<subseteq> set s" by (auto simp: trim_def dest!: set_dropWhileD)
  moreover have "length (trim s) \<le> length s"
    unfolding trim_def length_rev by (metis length_dropWhile_le length_rev order_trans)
  ultimately
  show "valid_sequence s \<Longrightarrow> valid_sequence (trim s)" by (auto simp: valid_sequence_def list_ex_iff)
qed

lemma insert_ok:
  "bt_ok m \<Longrightarrow> list_all binding_ok m \<Longrightarrow> binding_ok (k, v) \<Longrightarrow>
   bt_ok (bt_insert k v m) \<and> list_all binding_ok (bt_insert k v m)"
  using set_bt_insert [of k v m] by (auto simp: bt_ok_insert list_all_iff)

lemma read_bindings_ok:
  "bt_ok (fst acc) \<Longrightarrow> list_all binding_ok (fst acc) \<Longrightarrow>
   bt_ok (fst (read_bindings t acc)) \<and> list_all binding_ok (fst (read_bindings t acc))"
proof (induction t acc rule: read_bindings.induct)
  case (2 action v rest bindings warnings)
  have ok: "bt_ok bindings" "list_all binding_ok bindings" using 2(2,3) by simp_all
  have "binding_ok (action, trim seq)" if "valid_action_id action" "valid_sequence seq" for seq
    using that by (simp add: binding_ok_def valid_sequence_trim)
  note inserted = insert_ok [OF ok this]
  show ?case
    using 2(1) [OF refl] ok inserted by (cases v) (simp_all add: Let_def split: if_splits)
qed simp

text \<open>
  whatever stands in the file and whatever is typed into the settings, every stored shortcut has a
  valid action and a valid sequence, each action once.
\<close>

theorem stored_shortcuts_valid:
  "keybindings_ok (fst (keybindings_from_toml toml s)) \<and>
   (keybindings_ok k \<longrightarrow> keybindings_ok (snd (binding_set action seq standard k)) \<and> keybindings_ok (snd (binding_reset action k)))"
proof (intro conjI impI)
  show "keybindings_ok (fst (keybindings_from_toml toml s))"
    using read_bindings_ok [of "([], [])"]
    by (auto simp: keybindings_from_toml_def keybindings_ok_def no_keybindings_def Let_def bt_ok_def split_beta
        split: sum.split option.split toml_value.split)
next
  assume ok: "keybindings_ok k"
  have reset: "keybindings_ok (k\<lparr>kb_bindings := bt_remove action (kb_bindings k)\<rparr>)"
    using ok bt_ok_remove [of "kb_bindings k" action]
    by (auto simp: keybindings_ok_def list_all_iff bt_remove_def bt_retain_def)
  then show "keybindings_ok (snd (binding_reset action k))" by (simp add: binding_reset_def)
  show "keybindings_ok (snd (binding_set action seq standard k))"
    using ok reset insert_ok [of "kb_bindings k" action "trim seq"]
    by (auto simp: binding_set_def binding_reset_def Let_def keybindings_ok_def binding_ok_def)
qed

text \<open>What was set is what is found, and the default is found as no change.\<close>

lemma binding_get_set:
  assumes "valid_action_id action" "valid_sequence (trim seq)"
  shows "binding_get (snd (binding_set action seq standard k)) other =
    (if other = action then if trim seq = standard then None else Some (trim seq) else binding_get k other)"
  using assms by (auto simp: binding_set_def binding_reset_def binding_get_def Let_def bt_get_insert bt_get_remove)

lemma read_written_bindings:
  assumes "list_all binding_ok m" "bt_ok (seen @ m)"
  shows "read_bindings (map (\<lambda>(action, seq). (action, VString seq)) m) (seen, ws) = (seen @ m, ws)"
  using assms
proof (induction m arbitrary: seen)
  case (Cons b m)
  obtain action seq where b: "b = (action, seq)" by (rule prod.exhaust)
  have "bt_insert action seq seen = seen @ [(action, seq)]"
  proof -
    have "list_all (\<lambda>(k, v). k < action) seen" using Cons.prems(2) b by (auto simp: bt_ok_def sorted_wrt_append list_all_iff)
    then show ?thesis by (induction seen) auto
  qed
  then show ?case using Cons.IH [of "seen @ [b]"] Cons.prems b by (simp add: binding_ok_def)
qed simp

theorem keybindings_roundtrip:
  assumes "keybindings_ok k" "\<not> kb_read_only k" "bt_ok (kb_extra k)"
    and "bt_get (kb_extra k) (lit ''schema_version'') = None" "bt_get (kb_extra k) (lit ''bindings'') = None"
    and "tt_parse toml (keybindings_to_toml toml k) = Inr (keybindings_table k)"
  shows "keybindings_from_toml toml (keybindings_to_toml toml k) = (k, [])"
proof -
  have get: "bt_get (keybindings_table k) (lit ''schema_version'') = Some (VInteger KEYBINDINGS_SCHEMA)"
    "bt_get (bt_remove (lit ''schema_version'') (keybindings_table k)) (lit ''bindings'') =
       Some (VTable (map (\<lambda>(action, seq). (action, VString seq)) (kb_bindings k)))"
    by (simp_all add: keybindings_table_def bt_get_insert bt_get_remove)
  have rest: "bt_remove (lit ''bindings'') (bt_remove (lit ''schema_version'') (keybindings_table k)) = kb_extra k"
    by (rule bt_ext)
      (use assms in \<open>auto simp: keybindings_table_def bt_ok_remove bt_ok_insert bt_get_remove bt_get_insert fun_eq_iff\<close>)
  have "read_bindings (map (\<lambda>(action, seq). (action, VString seq)) (kb_bindings k)) ([], []) = (kb_bindings k, [])"
    using read_written_bindings [of "kb_bindings k" "[]" "[]"] assms(1) by (simp add: keybindings_ok_def)
  then show ?thesis using assms(2,6) get rest by (simp add: keybindings_from_toml_def)
qed

end
