(* ===== verification/Spec2Isabelle.thy ===== *)
theory Spec2Isabelle
  imports Vault_Keys Vault_Spec Layout_Laws Telnet Sync_Laws Sftp_Path Tunnels Socks Command_Line Rdp_Frame
    Vnc_Drive Terminal_Keys Osc Target_Laws Known_Hosts Hosts_Edit
    X11 Writer Paste_Review Host_Search Proxy Snippets Workspace Keybindings
begin

text \<open>
  A verification development of the core of OpenSesh, a terminal and remote-access client written
  in Rust (\<open>src/crates\<close>): the encrypted vault, atomic saves with backups, known hosts, saved hosts and
  their groups and search, quick connect, the split layout of a tab and saved workspaces, the telnet
  protocol, the merging of settings that changed on two computers, the files of tunnels, snippets
  and key bindings, the SOCKS5 server of a dynamic tunnel, proxies,
  the paths of file transfers, X11 forwarding, command lines, the screen of an RDP session, a whole
  VNC session, what a terminal sends for a key, a paste and the mouse and reads beside its engine,
  and the review of a pasted text.

  \<^bold>\<open>How the parts interact.\<close> The vault keeps secrets in one file that a key opens; the key is in the
  system's keyring or wrapped by a password, and wrong passwords cost waits that are kept in a
  second file. Settings, hosts and tunnels are TOML files that are saved atomically and merged with
  what another instance saved in between. A saved host inherits from its groups; quick connect
  parses a target, and both end in an OpenSSH command line. A tab shows panes in a binary tree of
  splits; a pane runs a session, and the protocols (telnet, VNC, RDP, SFTP, tunnels) turn bytes of
  a server into replies, pixels and names that must not harm this computer.

  \<^bold>\<open>Theories.\<close>

  \<^item> \<open>Prelude\<close>, \<open>Texts\<close>, \<open>Utf8\<close>: texts as lists of Unicode scalar values, bytes, fixed-width integers,
    outcomes with errors and panics, \<open>str\<close> functions, UTF-8 strict and lossy, rows of pixels; the
    locale \<open>invariant_machine\<close> (every step keeps an invariant, so every run does).
  \<^item> \<open>World\<close>: files, failing system calls, random draws and the keyring, with \<open>atomic_write\<close> seen as one
    step. \<open>Fsutil\<close>: \<open>opensesh-core/src/fsutil.rs\<close> in full, every system call of a save over a tree of
    files and links; a save is all or nothing, backups hold the last versions, and \<open>World.atomic_write\<close>
    is its view without backups (a refinement).
  \<^item> \<open>Ordered_Map\<close>, \<open>Toml\<close>, \<open>F64\<close>: \<open>BTreeMap\<close> (locale \<open>finite_map\<close>), the values of the toml crate, and
    IEEE binary64 with round to nearest even as a rounding of real numbers.
  \<^item> \<open>Backoff\<close>, \<open>Vault_Format\<close>, \<open>Key_Store\<close>, \<open>Vault\<close>: \<open>opensesh-vault/src\<close> \<open>backoff.rs\<close>, \<open>crypto.rs\<close> and
    \<open>format.rs\<close>, \<open>store.rs\<close> (locale \<open>key_store_laws\<close>, satisfied by the store in memory), \<open>vault.rs\<close>. The
    ciphers are parameters; \<open>crypto_ok\<close> says that what was sealed opens. A state is the record
    \<open>vault\<close>, an operation takes it and the world and returns both with a result.
    \<open>Vault_Laws\<close> proves the invariant of the vault for every operation and for runs. \<open>Vault_Keys\<close>: after
    any run of operations that succeeded (\<open>vault_in_step\<close>: memory and disk agree) one more, which may
    fail, does not lose the key, with any store that satisfies \<open>key_store_laws\<close>; a failed removal of the
    password followed by forgetting the key does (\<open>forget_after_failed_removal_loses_key\<close>, a finding);
    and a wait after wrong passwords is at most 300 seconds and ends. \<open>Vault_Spec\<close>: the vault refines
    an abstract safe (datatype \<open>safe\<close>, \<open>safe_step\<close>: what each operation may answer and what it then
    does to the safe; locale \<open>refinement\<close>).
  \<^item> \<open>Known_Hosts\<close>: \<open>opensesh-vault/src/known_hosts.rs\<close>; a key that was accepted is known from the file,
    a changed one is caught, and patterns match as globs do. Hashes and base64 are parameters.
  \<^item> \<open>Hosts\<close>: \<open>opensesh-core/src/hosts/mod.rs\<close> and \<open>containers.rs\<close>: the file \<open>hosts.toml\<close> and its repair
    (\<open>check_file\<close> step by step as \<open>HostsFile::check\<close>), groups, inheritance, the checks before a save
    and container commands. \<open>Hosts_Laws\<close>: what is read is a forest of groups with unique ids; the
    chain of a group is complete; a host inherits from the nearest group; a subtree is everything
    below. \<open>Recent\<close>: \<open>recent.rs\<close>. \<open>Host_Search\<close>: \<open>hosts/search.rs\<close>, what a search lists and in which order,
    against a specification apart from the code (\<open>should_list\<close>, \<open>may_precede\<close>); names with numbers are in
    a linear order, shown against a reference definition with keys. \<open>Ssh_Config\<close>:
    \<open>opensesh-import/src/ssh_config.rs\<close>, the reader of linked \<open>ssh_config\<close> files (record \<open>sc_parser\<close>; lines,
    blocks, forwards, includes with globs) over a file system that is an argument (\<open>config_disk\<close>);
    whatever it holds, the linked hosts can be used. \<open>Hosts_Edit\<close>: the edits of
    \<open>opensesh-app/src/bridge/hosts.rs\<close> on the record \<open>hosts_state\<close>, the step relation \<open>hosts_step\<close> of edits
    and reloads, linked files among them, and its invariant.
  \<^item> \<open>Target\<close>, \<open>Target_Laws\<close>: \<open>opensesh-core/src/hosts/target.rs\<close>: what is typed into quick connect, its
    canonical text and the command line; nothing typed becomes an option of \<open>ssh\<close>, and the texts of
    displayable targets are read back.
  \<^item> \<open>Layout\<close>, \<open>Layout_Laws\<close>: \<open>opensesh-core/src/workspace/layout.rs\<close>; every operation keeps panes unique
    and ratios in bounds, and its effect on the tree and on the geometry is stated. \<open>Workspace\<close>:
    \<open>workspace/mod.rs\<close> over it; what is restored from a file can be opened.
  \<^item> \<open>Telnet\<close>: the protocol part of \<open>opensesh-proto-misc/src/telnet.rs\<close>, byte by byte; negotiation ends
    when every option is commanded at most once at a time (with two commands for one option in one
    input it may not, \<open>two_commands_loop\<close>), replies are well-formed, typed text arrives, the buffer is
    bounded.
  \<^item> \<open>Sync_Merge\<close>, \<open>Sync_Laws\<close>: \<open>opensesh-core/src/sync.rs\<close>; the three-way merge against a reference
    definition on maps, changes at different paths through nested tables (\<open>look\<close>, \<open>separate\<close>, \<open>joins\<close>),
    merged lists of records, and saves over a changed file. \<open>Writer\<close>:
    \<open>opensesh-core/src/writer.rs\<close>, the loop of the thread that saves in the background (record
    \<open>file_writer\<close>, events \<open>writer_event\<close>): a flush leaves every file as it was asked for last (locale
    \<open>invariant_machine\<close>), and a removed file stays removed.
  \<^item> \<open>Tunnels\<close>: \<open>opensesh-core/src/tunnels.rs\<close> and \<open>forward_of\<close> of \<open>opensesh-app/src/tunnels.rs\<close>; \<open>Snippets\<close> and
    \<open>Keybindings\<close>: \<open>snippets.rs\<close> and \<open>keybindings.rs\<close>, read back as they were written; \<open>Socks\<close>:
    \<open>opensesh-ssh/src/tunnel/socks.rs\<close>; \<open>Sftp_Path\<close>: \<open>opensesh-ssh/src/sftp/path.rs\<close>, as the Unix build
    has it; \<open>Command_Line\<close>: \<open>opensesh-core/src/command_line.rs\<close>; \<open>X11\<close>: \<open>opensesh-ssh/src/x11.rs\<close>, where
    only a client with the made-up cookie is let through; \<open>Proxy\<close>: \<open>opensesh-ssh/src/proxy.rs\<close>, the
    clients of SOCKS5 and HTTP CONNECT, the first of which understands the server of \<open>Socks\<close>.
  \<^item> \<open>Rdp_Frame\<close>: \<open>opensesh-rdp-protocol/src/frame.rs\<close>; the window misses no pixel.
  \<^item> \<open>Vnc_Canvas\<close>, \<open>Vnc_Decode\<close>, \<open>Vnc_Messages\<close>, \<open>Vnc_Handshake\<close>, \<open>Vnc_Session\<close>, \<open>Vnc_Drive\<close>: \<open>opensesh-vnc/src\<close>
    \<open>canvas.rs\<close>, \<open>decode.rs\<close> (Raw, CopyRect, Hextile, ZRLE and Tight), \<open>messages.rs\<close> and \<open>keysym.rs\<close>,
    \<open>security.rs\<close>, \<open>client.rs\<close>, and the inputs of \<open>drive.rs\<close>, with every panic a value: rectangles draw
    inside themselves whatever the server sends, and panic for a width of zero only; the session keeps its shape, the password goes
    inside TLS only, a read-only session writes no input.
  \<^item> \<open>Terminal_Input\<close>: \<open>opensesh-term/src/input\<close>, \<open>paste.rs\<close> and \<open>mouse.rs\<close>; \<open>Terminal_Keys\<close>: \<open>keys.rs\<close>, from
    Qt's key events to bytes, with sequences that can be told apart (but for Menu and F16); \<open>Osc\<close>: \<open>osc.rs\<close>, the
    sequences that are read beside the engine and the limits of their strings. \<open>Paste_Review\<close>:
    \<open>opensesh-core/src/paste.rs\<close>; every hidden character of a pasted text is found, stated in code points,
    and a text that is not flagged is what it looks like and, without bracketed paste, sends Enter only
    when it ends in a carriage return. The regular expressions are parameters.

  \<^bold>\<open>Bounds and termination.\<close> No definition uses fuel: every loop of the code is structural
  recursion or a fold, or has a termination proof. The walks over groups end because no id is met
  twice, rounds of a subtree because each finds a group; the name of a copy because numbered
  names differ, and so do the numbered ids of workspaces; links are followed for at most 40 hops;
  the files that an \<open>ssh_config\<close> includes are nested for at most 16 levels, as in the code, and at most
  256 are read; inflating ends because the answers of the decompressor are cut to the limit that the code reserves; \<open>read_loop\<close> is the first n messages of a
  session, for every n. Sizes that the code limits keep their limits (255 bytes of text, 64 dirty
  rectangles, 30 recent connections, 4096 bytes of subnegotiation, 16-bit positions), with
  wrap-around or saturation written out where the code has it.

  \<^bold>\<open>Not modelled.\<close> The Qt bridge (but for the edits of hosts) and the user interface; the asynchronous
  sessions around the protocol code (sockets, threads, mutexes, the folder lock); the terminal
  emulator and the SSH, RDP, zlib, JPEG and TOML crates, which are other programs or parameters
  here; what serde derives for hosts and groups and the reading of terminal options, which are
  parameters of \<open>Hosts\<close>; the writing of \<open>hosts.toml\<close> and its importers but for that
  of \<open>ssh_config\<close>; the configuration with its
  themes and terminal profiles; the vault's key files, agent, transfer and manager,
  which rest on other crates; the S3 client.
\<close>

end
